(* ===== verification/Prelude.thy ===== *)
theory Prelude
  imports Main "HOL-Library.Word"
begin

text \<open>
  Shared vocabulary of the development: the C integer types of the firmware as machine words,
  the little-endian byte views that the packed C structs have on the Cortex-M targets, and the
  generic facts on words and byte lists that the components use. The collection
  \<open>frame_simps\<close> gathers the facts that an operation leaves a field of the state alone.
\<close>

named_theorems frame_simps
named_theorems le_simps

unbundle bit_operations_syntax

type_synonym u8 = "8 word"
type_synonym u16 = "16 word"
type_synonym u32 = "32 word"

section \<open>Little-endian views of packed fields\<close>

definition le16_bytes :: "u16 \<Rightarrow> u8 list" where
  "le16_bytes v = [ucast v, ucast (drop_bit 8 v)]"

definition le32_bytes :: "u32 \<Rightarrow> u8 list" where
  "le32_bytes v =
     [ucast (v AND 0xFF), ucast (drop_bit 8 v AND 0xFF),
      ucast (drop_bit 16 v AND 0xFF), ucast (drop_bit 24 v AND 0xFF)]"

definition le16_at :: "u8 list \<Rightarrow> nat \<Rightarrow> u16" where
  "le16_at p i = ucast (p ! i) OR push_bit 8 (ucast (p ! (i + 1)))"

definition le32_at :: "u8 list \<Rightarrow> nat \<Rightarrow> u32" where
  "le32_at p i =
     ucast (p ! i) OR push_bit 8 (ucast (p ! (i + 1))) OR
     push_bit 16 (ucast (p ! (i + 2))) OR push_bit 24 (ucast (p ! (i + 3)))"

definition put_bytes :: "u8 list \<Rightarrow> nat \<Rightarrow> u8 list \<Rightarrow> u8 list" where
  "put_bytes buf off bs = take off buf @ bs @ drop (off + length bs) buf"

section \<open>Facts on words and byte lists\<close>

lemma length_le_bytes [simp]:
  "length (le16_bytes v) = 2" "length (le32_bytes w) = 4"
  by (simp_all add: le16_bytes_def le32_bytes_def)

lemma bit_0xFF_u32: "bit (0xFF :: u32) n \<longleftrightarrow> n < 8"
  using bit_mask_iff [of 8 n, where 'a = "32 word"] by (auto simp: mask_eq_exp_minus_1)

lemma le16_at_bytes: "le16_at (le16_bytes v) 0 = v"
proof -
  have "(ucast (ucast v :: u8) :: u16) OR push_bit 8 (ucast (ucast (drop_bit 8 v) :: u8)) = v"
    by (rule bit_word_eqI, simp only: bit_or_iff bit_push_bit_iff bit_ucast_iff bit_drop_bit_eq)
      (auto dest: bit_imp_le_length simp: not_le)
  then show ?thesis by (simp add: le16_at_def le16_bytes_def del: push_bit_numeral)
qed

lemma le32_at_bytes: "le32_at (le32_bytes v) 0 = v"
proof (rule bit_word_eqI)
  fix n
  assume "n < LENGTH(32)"
  consider "n < 8" | "8 \<le> n" "n < 16" | "16 \<le> n" "n < 24" | "24 \<le> n"
    by linarith
  then show "bit (le32_at (le32_bytes v) 0) n = bit v n"
    unfolding le32_at_def le32_bytes_def
    by (cases; simp only: bit_or_iff bit_push_bit_iff bit_ucast_iff bit_drop_bit_eq bit_and_iff
        bit_0xFF_u32 nth_Cons_0 nth_Cons_Suc add_0 numeral_2_eq_2 numeral_3_eq_3 One_nat_def)
      (auto dest: bit_imp_le_length)
qed

lemma le32_at_append_right: "le32_at (xs @ ys) (length xs + i) = le32_at ys i"
  by (simp add: le32_at_def nth_append)

lemma le32_at_append_left: "i + 4 \<le> length xs \<Longrightarrow> le32_at (xs @ ys) i = le32_at xs i"
  by (simp add: le32_at_def nth_append)

lemma le32_at_drop: "k + i + 4 \<le> length xs \<Longrightarrow> le32_at (drop k xs) i = le32_at xs (k + i)"
  by (simp add: le32_at_def add.assoc)

lemma length_put_bytes: "off + length bs \<le> length buf \<Longrightarrow> length (put_bytes buf off bs) = length buf"
  by (simp add: put_bytes_def)

lemma take_put_bytes_before: "n \<le> off \<Longrightarrow> off \<le> length buf \<Longrightarrow> take n (put_bytes buf off bs) = take n buf"
  by (simp add: put_bytes_def)

lemma le32_at_put_bytes:
  "off \<le> length buf \<Longrightarrow> le32_at (put_bytes buf off (le32_bytes v)) off = v"
  using le32_at_append_right [of "take off buf" "le32_bytes v @ drop (off + 4) buf" 0]
  by (simp add: put_bytes_def le32_at_append_left le32_at_bytes)

lemma le32_at_cong: "take 4 (drop i xs) = take 4 (drop i ys) \<Longrightarrow> i + 4 \<le> length xs \<Longrightarrow> i + 4 \<le> length ys
  \<Longrightarrow> le32_at xs i = le32_at ys i"
proof -
  assume eq: "take 4 (drop i xs) = take 4 (drop i ys)" and lx: "i + 4 \<le> length xs" and ly: "i + 4 \<le> length ys"
  have "xs ! (i + k) = ys ! (i + k)" if "k < 4" for k
  proof -
    have "take 4 (drop i xs) ! k = take 4 (drop i ys) ! k" by (simp add: eq)
    with that lx ly show ?thesis by simp
  qed
  from this [of 0] this [of 1] this [of 2] this [of 3] show ?thesis
    by (simp add: le32_at_def)
qed

text \<open>The simplifier writes \<open>1 << i\<close> as \<open>2 ^ i\<close>; the mask facts are stated in that form.\<close>

lemma mask_bit_u32: "(w :: u32) AND 2 ^ i = 0 \<longleftrightarrow> \<not> bit w i"
  using bit_iff_and_push_bit_not_eq_0 [of w i] by (simp add: push_bit_of_1)

lemma shift_bit_u32: "drop_bit i (w :: u32) AND 1 = 0 \<longleftrightarrow> \<not> bit w i"
  by (simp add: and_one_eq bit_iff_odd_drop_bit odd_iff_mod_2_eq_one)

lemma bit_set_u32: "bit ((w :: u32) OR 2 ^ i) n \<longleftrightarrow> bit w n \<or> (n = i \<and> n < 32)"
  by (auto simp: bit_or_iff bit_exp_iff)

lemma bit_clear_u32: "bit ((w :: u32) AND NOT (2 ^ i)) n \<longleftrightarrow> bit w n \<and> n \<noteq> i"
  by (auto simp: bit_and_iff bit_not_iff bit_exp_iff dest: bit_imp_le_length)

lemma word_zero_iff_bits: "(w :: u32) = 0 \<longleftrightarrow> (\<forall>n. \<not> bit w n)"
  by (metis bit_0_eq bit_word_eqI bot_apply bot_bool_def)

end
