(* ===== verification/Fault.thy ===== *)
theory Fault
  imports Prelude
begin

text \<open>
  The fault catalogue, \<^verbatim>\<open>src/src/core/fault.h\<close> and \<^verbatim>\<open>fault.c\<close>: the bitmap of raised faults and the
  first fault raised. Fault ids are the C enum's numbers, since callers cast an arbitrary
  \<open>uint32_t\<close> to the enum and the code range-checks it. The abstraction \<open>active_set\<close> reads the
  bitmap as a set of ids; the lemmas show that the bit operations are set insertion and
  removal, that \<open>first_raised\<close> never names an inactive fault, and that no operation clears GFCI.
\<close>

abbreviation (input) "FAULT_NONE \<equiv> (0 :: nat)"
abbreviation (input) "FAULT_GFCI \<equiv> (1 :: nat)"
abbreviation (input) "FAULT_RELAY_WELD \<equiv> (2 :: nat)"
abbreviation (input) "FAULT_RELAY_STUCK_OPEN \<equiv> (3 :: nat)"
abbreviation (input) "FAULT_PE_CONTINUITY \<equiv> (4 :: nat)"
abbreviation (input) "FAULT_CP_NO_PILOT \<equiv> (5 :: nat)"
abbreviation (input) "FAULT_BOOT_SELF_TEST \<equiv> (7 :: nat)"
abbreviation (input) "FAULT_GFCI_SELF_TEST \<equiv> (8 :: nat)"
abbreviation (input) "FAULT_ADC_OUT_OF_RANGE \<equiv> (11 :: nat)"
abbreviation (input) "FAULT_HARD_OVER_CURRENT \<equiv> (12 :: nat)"
abbreviation (input) "FAULT_CRASH_LOOP_SAFE_FAIL \<equiv> (13 :: nat)"
abbreviation (input) "FAULT_OVER_TEMP \<equiv> (16 :: nat)"
abbreviation (input) "FAULT_SOFT_OVER_CURRENT \<equiv> (17 :: nat)"
abbreviation (input) "FAULT_CC_OUT_OF_RANGE \<equiv> (18 :: nat)"
abbreviation (input) "FAULT_AC_ABSENT \<equiv> (19 :: nat)"
abbreviation (input) "FAULT_CP_REGRESSION \<equiv> (20 :: nat)"
abbreviation (input) "FAULT_COUNT \<equiv> (21 :: nat)"
abbreviation (input) "FAULT_FIRST_SELF_CLEARING \<equiv> FAULT_OVER_TEMP"

record fault_state =
  active_bits :: u32
  first_raised :: nat

definition FAULT_LATCHED_MASK :: u32 where
  "FAULT_LATCHED_MASK = (push_bit FAULT_FIRST_SELF_CLEARING 1 - 1) AND NOT 1"

definition FID_OK :: "nat \<Rightarrow> bool" where
  "FID_OK fid \<longleftrightarrow> fid > FAULT_NONE \<and> fid < FAULT_COUNT"

definition fault_init :: fault_state where
  "fault_init = \<lparr>active_bits = 0, first_raised = FAULT_NONE\<rparr>"

definition fault_is_latched_kind :: "nat \<Rightarrow> bool" where
  "fault_is_latched_kind fid \<longleftrightarrow> FID_OK fid \<and> fid < FAULT_FIRST_SELF_CLEARING"

definition fault_is_active :: "fault_state \<Rightarrow> nat \<Rightarrow> bool" where
  "fault_is_active s fid \<longleftrightarrow> FID_OK fid \<and> drop_bit fid (active_bits s) AND 1 \<noteq> 0"

definition fault_any_active :: "fault_state \<Rightarrow> bool" where
  "fault_any_active s \<longleftrightarrow> active_bits s \<noteq> 0"

definition latched_loop_mask :: u32 where
  "latched_loop_mask = fold (\<lambda>i mask. mask OR push_bit i 1) [1..<FAULT_FIRST_SELF_CLEARING] 0"

definition fault_any_latched_active :: "fault_state \<Rightarrow> bool" where
  "fault_any_latched_active s \<longleftrightarrow> active_bits s AND latched_loop_mask \<noteq> 0"

definition fault_raise :: "fault_state \<Rightarrow> nat \<Rightarrow> int \<times> fault_state" where
  "fault_raise s fid =
     (if \<not> FID_OK fid then (-1, s)
      else let mask = push_bit fid 1 in
        if active_bits s AND mask \<noteq> 0 then (0, s)
        else (1, s\<lparr>active_bits := active_bits s OR mask,
                   first_raised := (if first_raised s = FAULT_NONE then fid else first_raised s)\<rparr>))"

definition lowest_active :: "u32 \<Rightarrow> nat" where
  "lowest_active bits =
     (case find (\<lambda>i. bits AND push_bit i 1 \<noteq> 0) [1..<FAULT_COUNT] of
        None \<Rightarrow> FAULT_NONE | Some i \<Rightarrow> i)"

definition fault_clear :: "fault_state \<Rightarrow> nat \<Rightarrow> int \<times> fault_state" where
  "fault_clear s fid =
     (if \<not> FID_OK fid then (-1, s)
      else if fid = FAULT_GFCI then (-1, s)
      else let mask = push_bit fid 1 in
        if active_bits s AND mask = 0 then (0, s)
        else let bits = active_bits s AND NOT mask in
          (1, \<lparr>active_bits = bits,
               first_raised = (if first_raised s = fid then lowest_active bits else first_raised s)\<rparr>))"

definition clear_all_step :: "nat \<Rightarrow> int \<times> u32 \<Rightarrow> int \<times> u32" where
  "clear_all_step i nb =
     (if i = FAULT_GFCI then nb
      else if snd nb AND push_bit i 1 \<noteq> 0
      then (fst nb + 1, snd nb AND NOT (push_bit i 1)) else nb)"

definition fault_clear_all_clearable :: "fault_state \<Rightarrow> int \<times> fault_state" where
  "fault_clear_all_clearable s =
     (let nb = fold clear_all_step [1..<FAULT_FIRST_SELF_CLEARING] (0, active_bits s)
      in (fst nb, \<lparr>active_bits = snd nb, first_raised = lowest_active (snd nb)\<rparr>))"

definition active_set :: "fault_state \<Rightarrow> nat set" where
  "active_set s = {i. bit (active_bits s) i}"

definition fault_ok :: "fault_state \<Rightarrow> bool" where
  "fault_ok s \<longleftrightarrow> active_set s \<subseteq> {1..<FAULT_COUNT} \<and>
     (first_raised s = FAULT_NONE \<or> first_raised s \<in> active_set s)"

definition first_tracks :: "fault_state \<Rightarrow> bool" where
  "first_tracks s \<longleftrightarrow> (first_raised s = FAULT_NONE \<longleftrightarrow> active_set s = {})"

definition latched_ids :: "nat set" where
  "latched_ids = {1..<FAULT_FIRST_SELF_CLEARING}"

datatype fault_op = Raise nat | Clear nat | ClearAll

fun fault_apply :: "fault_state \<Rightarrow> fault_op \<Rightarrow> fault_state" where
  "fault_apply s (Raise i) = snd (fault_raise s i)"
| "fault_apply s (Clear i) = snd (fault_clear s i)"
| "fault_apply s ClearAll = snd (fault_clear_all_clearable s)"

section \<open>The bitmap as a set of fault ids\<close>

lemma bit_fold_or:
  "bit (fold (\<lambda>i mask. mask OR 2 ^ i) is (w :: u32)) n \<longleftrightarrow> bit w n \<or> (n \<in> set is \<and> n < 32)"
  by (induction "is" arbitrary: w) (auto simp: bit_set_u32)

lemma bit_latched_mask: "bit latched_loop_mask n \<longleftrightarrow> n \<in> latched_ids"
  unfolding latched_loop_mask_def latched_ids_def push_bit_of_1 bit_fold_or by auto

lemma latched_loop_mask_eq: "latched_loop_mask = FAULT_LATCHED_MASK"
  by code_simp

lemma fault_is_active_iff [simp]: "fault_is_active s fid \<longleftrightarrow> FID_OK fid \<and> fid \<in> active_set s"
  by (simp add: fault_is_active_def active_set_def shift_bit_u32)

lemma fault_any_active_iff: "fault_any_active s \<longleftrightarrow> active_set s \<noteq> {}"
  by (auto simp: fault_any_active_def active_set_def word_zero_iff_bits)

lemma fault_any_latched_iff: "fault_any_latched_active s \<longleftrightarrow> active_set s \<inter> latched_ids \<noteq> {}"
  by (auto simp: fault_any_latched_active_def active_set_def word_zero_iff_bits bit_and_iff
      bit_latched_mask)

lemma fault_raise_bad [simp]: "\<not> FID_OK fid \<Longrightarrow> fault_raise s fid = (-1, s)"
  by (simp add: fault_raise_def)

lemma active_set_raise:
  "FID_OK fid \<Longrightarrow> active_set (snd (fault_raise s fid)) = insert fid (active_set s)"
  by (auto simp: fault_raise_def active_set_def Let_def mask_bit_u32 bit_set_u32 FID_OK_def)

lemma fault_raise_rc:
  "fst (fault_raise s fid) = (if \<not> FID_OK fid then -1 else if fid \<in> active_set s then 0 else 1)"
  by (auto simp: fault_raise_def active_set_def Let_def mask_bit_u32)

lemma first_raise:
  "FID_OK fid \<Longrightarrow> first_raised (snd (fault_raise s fid)) =
     (if fid \<notin> active_set s \<and> first_raised s = FAULT_NONE then fid else first_raised s)"
  by (auto simp: fault_raise_def active_set_def Let_def mask_bit_u32)

lemma active_set_clear:
  "active_set (snd (fault_clear s fid)) =
     (if FID_OK fid \<and> fid \<noteq> FAULT_GFCI then active_set s - {fid} else active_set s)"
  by (auto simp: fault_clear_def active_set_def Let_def mask_bit_u32 bit_clear_u32)

lemma fault_clear_rc:
  "fst (fault_clear s fid) =
     (if \<not> FID_OK fid \<or> fid = FAULT_GFCI then -1 else if fid \<in> active_set s then 1 else 0)"
  by (auto simp: fault_clear_def active_set_def Let_def mask_bit_u32)

lemma clear_all_step_bits:
  "bit (snd (clear_all_step j nb)) i \<longleftrightarrow> bit (snd nb) i \<and> \<not> (i = j \<and> j \<noteq> FAULT_GFCI)"
  by (auto simp: clear_all_step_def mask_bit_u32 bit_clear_u32)

lemma clear_all_bits:
  "bit (snd (fold clear_all_step is nb)) i \<longleftrightarrow> bit (snd nb) i \<and> \<not> (i \<in> set is \<and> i \<noteq> FAULT_GFCI)"
  by (induction "is" arbitrary: nb) (auto simp: clear_all_step_bits)

lemma clear_all_cnt:
  "distinct is \<Longrightarrow> fst (fold clear_all_step is nb) =
     fst nb + int (card {i \<in> set is. i \<noteq> FAULT_GFCI \<and> bit (snd nb) i})"
proof (induction "is" arbitrary: nb)
  case Nil
  then show ?case by simp
next
  case (Cons j js)
  let ?nb = "clear_all_step j nb"
  let ?C = "{i \<in> set js. i \<noteq> FAULT_GFCI \<and> bit (snd nb) i}"
  have same: "{i \<in> set js. i \<noteq> FAULT_GFCI \<and> bit (snd ?nb) i} = ?C"
    using Cons.prems by (auto simp: clear_all_step_bits)
  have all: "{i \<in> set (j # js). i \<noteq> FAULT_GFCI \<and> bit (snd nb) i} =
      (if j \<noteq> FAULT_GFCI \<and> bit (snd nb) j then insert j ?C else ?C)"
    by auto
  have ins: "card (insert j ?C) = Suc (card ?C)"
    using Cons.prems by (intro card_insert_disjoint) auto
  have card: "card {i \<in> set (j # js). i \<noteq> FAULT_GFCI \<and> bit (snd nb) i} =
      (if j \<noteq> FAULT_GFCI \<and> bit (snd nb) j then Suc (card ?C) else card ?C)"
    unfolding all by (cases "j \<noteq> FAULT_GFCI \<and> bit (snd nb) j") (simp_all only: ins if_True if_False simp_thms)
  have "fst ?nb = fst nb + (if j \<noteq> FAULT_GFCI \<and> bit (snd nb) j then 1 else 0)"
    by (auto simp: clear_all_step_def mask_bit_u32)
  moreover have "fst (fold clear_all_step js ?nb) = fst ?nb + int (card ?C)"
    using Cons.IH [of ?nb] Cons.prems unfolding same by simp
  ultimately show ?case unfolding card by simp
qed

lemma active_set_clear_all:
  "active_set (snd (fault_clear_all_clearable s)) = active_set s - (latched_ids - {FAULT_GFCI})"
  by (auto simp: fault_clear_all_clearable_def active_set_def Let_def latched_ids_def clear_all_bits)

lemma clear_all_count:
  "fst (fault_clear_all_clearable s) = int (card (active_set s \<inter> (latched_ids - {FAULT_GFCI})))"
proof -
  have "active_set s \<inter> (latched_ids - {FAULT_GFCI}) =
      {i \<in> set [1..<FAULT_FIRST_SELF_CLEARING]. i \<noteq> FAULT_GFCI \<and> bit (active_bits s) i}"
    by (auto simp: active_set_def latched_ids_def)
  then show ?thesis
    by (simp add: fault_clear_all_clearable_def Let_def clear_all_cnt del: set_upt)
qed

lemma lowest_active_cases:
  "(lowest_active w = FAULT_NONE \<and> (\<forall>i \<in> {1..<FAULT_COUNT}. \<not> bit w i)) \<or>
   (lowest_active w \<in> {1..<FAULT_COUNT} \<and> bit w (lowest_active w) \<and>
    (\<forall>i \<in> {1..<FAULT_COUNT}. bit w i \<longrightarrow> lowest_active w \<le> i))"
proof (cases "find (\<lambda>i. w AND push_bit i 1 \<noteq> 0) [1..<FAULT_COUNT]")
  case None
  then have "\<forall>i \<in> {1..<FAULT_COUNT}. \<not> bit w i"
    by (auto simp: find_None_iff mask_bit_u32)
  with None show ?thesis by (simp add: lowest_active_def)
next
  case (Some k)
  then obtain j where j: "j < length [1..<FAULT_COUNT]" "k = [1..<FAULT_COUNT] ! j" "bit w k"
    "\<forall>m < j. \<not> bit w ([1..<FAULT_COUNT] ! m)"
    unfolding find_Some_iff push_bit_of_1 mask_bit_u32 by blast
  then have k: "k = Suc j" "j < 20" by simp_all
  have least: "k \<le> i" if "i \<in> {1..<FAULT_COUNT}" "bit w i" for i
  proof (rule ccontr)
    assume "\<not> k \<le> i"
    with that(1) k have "i - 1 < j" "[1..<FAULT_COUNT] ! (i - 1) = i" by auto
    with j(4) that(2) show False by metis
  qed
  have "lowest_active w = k" using Some by (simp add: lowest_active_def)
  with least k j(3) show ?thesis by auto
qed

lemma fault_ok_init [simp]: "fault_ok fault_init" "first_tracks fault_init"
  by (auto simp: fault_ok_def first_tracks_def fault_init_def active_set_def)

lemma fault_ok_raise: "fault_ok s \<Longrightarrow> fault_ok (snd (fault_raise s fid))"
  by (cases "FID_OK fid") (auto simp: fault_ok_def active_set_raise first_raise, auto simp: FID_OK_def)

lemma first_tracks_raise: "first_tracks s \<Longrightarrow> first_tracks (snd (fault_raise s fid))"
  by (cases "FID_OK fid") (auto simp: first_tracks_def active_set_raise first_raise FID_OK_def)

lemma lowest_active_set:
  "active_set s \<subseteq> {1..<FAULT_COUNT} \<Longrightarrow>
   (if active_set s = {} then lowest_active (active_bits s) = FAULT_NONE
    else lowest_active (active_bits s) \<in> active_set s \<and> lowest_active (active_bits s) \<noteq> FAULT_NONE)"
  using lowest_active_cases [of "active_bits s"] by (auto simp: active_set_def)

lemma first_clear:
  "first_raised (snd (fault_clear s fid)) =
     (if FID_OK fid \<and> fid \<noteq> FAULT_GFCI \<and> fid \<in> active_set s \<and> first_raised s = fid
      then lowest_active (active_bits (snd (fault_clear s fid))) else first_raised s)"
  by (auto simp: fault_clear_def active_set_def Let_def mask_bit_u32)

lemma first_clear_all:
  "first_raised (snd (fault_clear_all_clearable s)) =
     lowest_active (active_bits (snd (fault_clear_all_clearable s)))"
  by (simp add: fault_clear_all_clearable_def Let_def)

lemma rescan_ok:
  assumes "active_set s \<subseteq> {1..<FAULT_COUNT}" "first_raised s = lowest_active (active_bits s)"
  shows "fault_ok s" "first_tracks s"
  using lowest_active_set [OF assms(1)] assms
  by (auto simp: fault_ok_def first_tracks_def split: if_splits)

lemma fault_clear_ok:
  assumes "fault_ok s"
  shows "fault_ok (snd (fault_clear s fid)) \<and>
    (first_tracks s \<longrightarrow> first_tracks (snd (fault_clear s fid)))"
proof (cases "FID_OK fid \<and> fid \<noteq> FAULT_GFCI \<and> fid \<in> active_set s \<and> first_raised s = fid")
  case True
  with assms have "active_set (snd (fault_clear s fid)) \<subseteq> {1..<FAULT_COUNT}"
    by (auto simp: fault_ok_def active_set_clear)
  with True rescan_ok [of "snd (fault_clear s fid)"] show ?thesis by (simp add: first_clear)
next
  case False
  then have "first_raised (snd (fault_clear s fid)) = first_raised s" by (auto simp: first_clear)
  with assms False show ?thesis
    by (auto simp: fault_ok_def first_tracks_def active_set_clear)
qed

lemma fault_ok_clear_all:
  assumes "fault_ok s"
  shows "fault_ok (snd (fault_clear_all_clearable s))"
    "first_tracks (snd (fault_clear_all_clearable s))"
proof -
  have "active_set (snd (fault_clear_all_clearable s)) \<subseteq> {1..<FAULT_COUNT}"
    using assms by (auto simp: fault_ok_def active_set_clear_all)
  then show "fault_ok (snd (fault_clear_all_clearable s))"
    "first_tracks (snd (fault_clear_all_clearable s))"
    using rescan_ok first_clear_all by blast+
qed

lemma fault_ok_apply: "fault_ok s \<Longrightarrow> fault_ok (fault_apply s c)"
  by (cases c) (auto simp: fault_ok_raise fault_clear_ok fault_ok_clear_all)

lemma first_tracks_apply: "fault_ok s \<Longrightarrow> first_tracks s \<Longrightarrow> first_tracks (fault_apply s c)"
  by (cases c) (auto simp: first_tracks_raise fault_clear_ok fault_ok_clear_all)

lemma gfci_sticky_apply: "FAULT_GFCI \<in> active_set s \<Longrightarrow> FAULT_GFCI \<in> active_set (fault_apply s c)"
proof (cases c)
  case (Raise i)
  then show "FAULT_GFCI \<in> active_set s \<Longrightarrow> ?thesis" by (cases "FID_OK i") (auto simp: active_set_raise)
qed (auto simp: active_set_clear active_set_clear_all)

end
