(* ===== verification/J1772.thy ===== *)
theory J1772
  imports Prelude
begin

text \<open>
  The J1772 control-pilot classifier, \<^verbatim>\<open>src/src/core/j1772.c\<close>, and the supervisor's state names,
  \<^verbatim>\<open>core/evse_state.h\<close>. \<open>j1772_spec\<close> is the abstract specification of the debounce: of the
  classified readings, newest first, the first band that was read \<open>n\<close> times in a row. The
  lemmas show that the incremental classifier computes it.
\<close>

datatype j1772_state =
    J1772_STATE_INVALID | J1772_STATE_A | J1772_STATE_B | J1772_STATE_C
  | J1772_STATE_D | J1772_STATE_E | J1772_STATE_F

datatype evse_state =
    EVSE_BOOT | EVSE_SELF_TEST | EVSE_READY | EVSE_CHARGING
  | EVSE_USER_PAUSED | EVSE_COOLING_DOWN | EVSE_FAULT

fun j1772_num :: "j1772_state \<Rightarrow> u8" where
  "j1772_num J1772_STATE_INVALID = 0"
| "j1772_num J1772_STATE_A = 1"
| "j1772_num J1772_STATE_B = 2"
| "j1772_num J1772_STATE_C = 3"
| "j1772_num J1772_STATE_D = 4"
| "j1772_num J1772_STATE_E = 5"
| "j1772_num J1772_STATE_F = 6"

fun evse_num :: "evse_state \<Rightarrow> u8" where
  "evse_num EVSE_BOOT = 0"
| "evse_num EVSE_SELF_TEST = 1"
| "evse_num EVSE_READY = 2"
| "evse_num EVSE_CHARGING = 3"
| "evse_num EVSE_USER_PAUSED = 4"
| "evse_num EVSE_COOLING_DOWN = 5"
| "evse_num EVSE_FAULT = 6"

record j1772_ctx =
  committed :: j1772_state
  candidate :: j1772_state
  cp_streak :: nat

definition classify_strict :: "int \<Rightarrow> j1772_state" where
  "classify_strict cp_mv =
     (if cp_mv \<ge> 10500 then J1772_STATE_A
      else if cp_mv \<ge> 7500 then J1772_STATE_B
      else if cp_mv \<ge> 4500 then J1772_STATE_C
      else if cp_mv \<ge> 1500 then J1772_STATE_D
      else if cp_mv \<ge> -1500 then J1772_STATE_E
      else J1772_STATE_F)"

definition j1772_init :: j1772_ctx where
  "j1772_init = \<lparr>committed = J1772_STATE_INVALID, candidate = J1772_STATE_INVALID, cp_streak = 0\<rparr>"

definition j1772_step :: "j1772_ctx \<Rightarrow> int \<Rightarrow> nat \<Rightarrow> j1772_ctx" where
  "j1772_step c cp_mv debounce_n =
     (let s = classify_strict cp_mv;
          c1 = (if s = candidate c
                then (if cp_streak c < 0xFF then c\<lparr>cp_streak := cp_streak c + 1\<rparr> else c)
                else c\<lparr>candidate := s, cp_streak := 1\<rparr>)
      in if cp_streak c1 \<ge> debounce_n \<and> committed c1 \<noteq> candidate c1
         then c1\<lparr>committed := candidate c1\<rparr> else c1)"

fun j1772_run :: "nat \<Rightarrow> j1772_ctx \<Rightarrow> int list \<Rightarrow> j1772_ctx" where
  "j1772_run n c [] = c"
| "j1772_run n c (mv # mvs) = j1772_run n (j1772_step c mv n) mvs"

text \<open>Abstract debounce on the classified readings, newest first.\<close>

fun run_length :: "'a list \<Rightarrow> nat" where
  "run_length [] = 0"
| "run_length (x # xs) = length (takeWhile (\<lambda>y. y = x) (x # xs))"

fun j1772_spec :: "nat \<Rightarrow> j1772_state list \<Rightarrow> j1772_state" where
  "j1772_spec n [] = J1772_STATE_INVALID"
| "j1772_spec n (x # xs) = (if n \<le> run_length (x # xs) then x else j1772_spec n xs)"

section \<open>The classifier implements the debounce specification\<close>

lemma j1772_run_append: "j1772_run n c (xs @ ys) = j1772_run n (j1772_run n c xs) ys"
  by (induction xs arbitrary: c) auto

lemma classify_strict_valid [simp]: "classify_strict mv \<noteq> J1772_STATE_INVALID"
  by (simp add: classify_strict_def)

lemma cp_streak_u8: "cp_streak c \<le> 0xFF \<Longrightarrow> cp_streak (j1772_step c mv n) \<le> 0xFF"
  by (simp add: j1772_step_def Let_def)

lemma run_length_Cons:
  "run_length (y # x # xs) = (if y = x then Suc (run_length (x # xs)) else 1)"
  by auto

lemma j1772_run_state:
  assumes "n \<le> 0xFF" "mvs \<noteq> []"
  defines "hist \<equiv> rev (map classify_strict mvs)"
  shows "j1772_run n j1772_init mvs =
    \<lparr>committed = j1772_spec n hist, candidate = hd hist, cp_streak = min 0xFF (run_length hist)\<rparr>"
  using assms(2) unfolding hist_def
proof (induction mvs rule: rev_induct)
  case Nil
  then show ?case by simp
next
  case (snoc mv mvs)
  show ?case
  proof (cases "mvs = []")
    case True
    then show ?thesis
      by (auto simp: j1772_step_def j1772_init_def Let_def)
  next
    case False
    then obtain h hs where h: "rev (map classify_strict mvs) = h # hs"
      by (metis Nil_is_map_conv Nil_is_rev_conv neq_Nil_conv)
    with snoc False have "j1772_run n j1772_init mvs =
      \<lparr>committed = j1772_spec n (h # hs), candidate = h, cp_streak = min 0xFF (run_length (h # hs))\<rparr>"
      by simp
    moreover have "j1772_spec n (h # hs) = h" if "n \<le> run_length (h # hs)" using that by simp
    ultimately show ?thesis
      using assms(1)
      by (auto simp: j1772_run_append h j1772_step_def Let_def run_length_Cons min_def
          simp del: run_length.simps)
  qed
qed

end
