(* ===== verification/Detectors.thy ===== *)
theory Detectors
  imports Prelude
begin

text \<open>
  The two pure detectors of the safety core, \<^verbatim>\<open>src/src/core/gfci_policy.h\<close> and
  \<^verbatim>\<open>src/src/core/over_temp.h\<close>: the ground-fault debounce with its policy byte, and the
  over-temperature comparator with hysteresis. Each has a run over a list of samples, on which
  the debounce, fail-safe and hysteresis facts are stated.
\<close>

abbreviation (input) "GFCI_PERSIST_TICKS \<equiv> (3 :: nat)"
abbreviation (input) "GFCI_POL_FAULT \<equiv> (0 :: u8)"
abbreviation (input) "GFCI_POL_WARN \<equiv> (1 :: u8)"
abbreviation (input) "OT_TRIP_RAW \<equiv> (396 :: u16)"
abbreviation (input) "OT_CLEAR_RAW \<equiv> (525 :: u16)"
abbreviation (input) "OT_GUARD_LO \<equiv> (300 :: u16)"
abbreviation (input) "OT_GUARD_HI \<equiv> (3990 :: u16)"
abbreviation (input) "OT_PERSIST_TICKS \<equiv> (5 :: nat)"

record gfci_policy_ctx =
  trip_streak :: nat
  warned :: bool
  gfci_fault_latched :: bool

datatype gfci_policy_action = GFCI_ACT_NONE | GFCI_ACT_WARN_EMIT | GFCI_ACT_RAISE_FAULT

definition gfci_ctx_init :: gfci_policy_ctx where
  "gfci_ctx_init = \<lparr>trip_streak = 0, warned = False, gfci_fault_latched = False\<rparr>"

definition gfci_sample :: "gfci_policy_ctx \<Rightarrow> bool \<Rightarrow> gfci_policy_ctx" where
  "gfci_sample ctx pe2_low =
     (if pe2_low
      then (if trip_streak ctx < GFCI_PERSIST_TICKS then ctx\<lparr>trip_streak := trip_streak ctx + 1\<rparr> else ctx)
      else ctx\<lparr>trip_streak := 0, warned := False\<rparr>)"

definition gfci_policy_step ::
  "gfci_policy_ctx \<Rightarrow> bool \<Rightarrow> u8 \<Rightarrow> gfci_policy_ctx \<times> gfci_policy_action" where
  "gfci_policy_step ctx pe2_low policy =
     (let c = gfci_sample ctx pe2_low in
      if trip_streak c < GFCI_PERSIST_TICKS then (c, GFCI_ACT_NONE)
      else if policy = GFCI_POL_WARN then
        (if warned c then (c, GFCI_ACT_NONE) else (c\<lparr>warned := True\<rparr>, GFCI_ACT_WARN_EMIT))
      else if gfci_fault_latched c then (c, GFCI_ACT_NONE)
      else (c\<lparr>gfci_fault_latched := True\<rparr>, GFCI_ACT_RAISE_FAULT))"

fun gfci_run :: "gfci_policy_ctx \<Rightarrow> (bool \<times> u8) list \<Rightarrow> gfci_policy_ctx \<times> gfci_policy_action list" where
  "gfci_run c [] = (c, [])"
| "gfci_run c ((low, pol) # xs) =
     (let (c1, a) = gfci_policy_step c low pol; (c2, as) = gfci_run c1 xs in (c2, a # as))"

record over_temp_ctx =
  ot_trip_streak :: nat
  ot_fault_active :: bool

record over_temp_action =
  ot_trip :: bool
  ot_clear :: bool

definition ot_ctx_init :: over_temp_ctx where
  "ot_ctx_init = \<lparr>ot_trip_streak = 0, ot_fault_active = False\<rparr>"

definition over_temp_populated :: "u16 \<Rightarrow> bool" where
  "over_temp_populated raw \<longleftrightarrow> raw > OT_GUARD_LO \<and> raw < OT_GUARD_HI"

definition hottest_of :: "bool \<Rightarrow> u16 \<Rightarrow> bool \<Rightarrow> u16 \<Rightarrow> u16" where
  "hottest_of p1 ntc1_raw p2 ntc2_raw =
     (let h0 = 0xFFFF;
          h1 = (if p1 \<and> ntc1_raw < h0 then ntc1_raw else h0)
      in if p2 \<and> ntc2_raw < h1 then ntc2_raw else h1)"

definition over_temp_step ::
  "over_temp_ctx \<Rightarrow> u16 \<Rightarrow> u16 \<Rightarrow> bool \<Rightarrow> bool \<Rightarrow> over_temp_ctx \<times> over_temp_action" where
  "over_temp_step ctx ntc1_raw ntc2_raw ntc1_present ntc2_present =
     (let none = \<lparr>ot_trip = False, ot_clear = False\<rparr>;
          p1 = ntc1_present \<and> over_temp_populated ntc1_raw;
          p2 = ntc2_present \<and> over_temp_populated ntc2_raw
      in if \<not> p1 \<and> \<not> p2 then (ctx\<lparr>ot_trip_streak := 0\<rparr>, none)
         else let hottest_raw = hottest_of p1 ntc1_raw p2 ntc2_raw in
           if \<not> ot_fault_active ctx \<and> hottest_raw \<le> OT_TRIP_RAW then
             (let c1 = (if ot_trip_streak ctx < OT_PERSIST_TICKS
                        then ctx\<lparr>ot_trip_streak := ot_trip_streak ctx + 1\<rparr> else ctx)
              in if ot_trip_streak c1 \<ge> OT_PERSIST_TICKS
                 then (c1\<lparr>ot_fault_active := True\<rparr>, none\<lparr>ot_trip := True\<rparr>)
                 else (c1, none))
           else
             (let c1 = ctx\<lparr>ot_trip_streak := 0\<rparr>
              in if ot_fault_active c1 \<and> hottest_raw \<ge> OT_CLEAR_RAW
                 then (c1\<lparr>ot_fault_active := False\<rparr>, none\<lparr>ot_clear := True\<rparr>)
                 else (c1, none)))"

text \<open>One sample of the two channels: raw counts and the presence masks.\<close>

type_synonym ot_sample = "u16 \<times> u16 \<times> bool \<times> bool"

fun ot_run :: "over_temp_ctx \<Rightarrow> ot_sample list \<Rightarrow> over_temp_ctx \<times> over_temp_action list" where
  "ot_run c [] = (c, [])"
| "ot_run c ((r1, r2, m1, m2) # xs) =
     (let (c1, a) = over_temp_step c r1 r2 m1 m2; (c2, as) = ot_run c1 xs in (c2, a # as))"

text \<open>The sample shows a populated channel at or below the trip count, respectively at or above
  the clear count on every populated channel.\<close>

fun hot_sample :: "ot_sample \<Rightarrow> bool" where
  "hot_sample (r1, r2, m1, m2) \<longleftrightarrow>
     (m1 \<and> OT_GUARD_LO < r1 \<and> r1 \<le> OT_TRIP_RAW) \<or> (m2 \<and> OT_GUARD_LO < r2 \<and> r2 \<le> OT_TRIP_RAW)"

fun cool_sample :: "ot_sample \<Rightarrow> bool" where
  "cool_sample (r1, r2, m1, m2) \<longleftrightarrow>
     ((m1 \<and> over_temp_populated r1) \<or> (m2 \<and> over_temp_populated r2)) \<and>
     (m1 \<and> over_temp_populated r1 \<longrightarrow> OT_CLEAR_RAW \<le> r1) \<and>
     (m2 \<and> over_temp_populated r2 \<longrightarrow> OT_CLEAR_RAW \<le> r2)"

text \<open>How many of the newest elements of a list satisfy a predicate.\<close>

definition trailing :: "('a \<Rightarrow> bool) \<Rightarrow> 'a list \<Rightarrow> nat" where
  "trailing P xs = length (takeWhile P (rev xs))"

section \<open>Runs\<close>

lemma trailing_snoc: "trailing P (xs @ [x]) = (if P x then Suc (trailing P xs) else 0)"
  by (simp add: trailing_def)

lemma trailing_Nil [simp]: "trailing P [] = 0"
  by (simp add: trailing_def)

lemma trailing_le_length: "trailing P xs \<le> length xs"
  unfolding trailing_def by (metis length_rev length_takeWhile_le)

lemma trailing_ge: "k \<le> trailing P xs \<Longrightarrow> i < k \<Longrightarrow> P (rev xs ! i)"
  unfolding trailing_def by (metis nth_mem order_less_le_trans set_takeWhileD takeWhile_nth)

lemma gfci_run_snoc:
  "gfci_run c (xs @ [x]) =
     (let (c1, as) = gfci_run c xs; (c2, a) = gfci_policy_step c1 (fst x) (snd x) in (c2, as @ [a]))"
  by (cases x, induction xs arbitrary: c) (auto simp: Let_def split: prod.splits)

lemma gfci_step_cases:
  "snd (gfci_policy_step c low pol) = GFCI_ACT_RAISE_FAULT \<longleftrightarrow>
     low \<and> 2 \<le> trip_streak c \<and> pol \<noteq> GFCI_POL_WARN \<and> \<not> gfci_fault_latched c"
  "snd (gfci_policy_step c low pol) = GFCI_ACT_WARN_EMIT \<longleftrightarrow>
     low \<and> 2 \<le> trip_streak c \<and> pol = GFCI_POL_WARN \<and> \<not> warned c"
  by (auto simp: gfci_policy_step_def gfci_sample_def Let_def split: if_splits)

lemma gfci_step_ctx:
  "trip_streak c \<le> 3 \<Longrightarrow> trip_streak (fst (gfci_policy_step c low pol)) = (if low then min 3 (Suc (trip_streak c)) else 0)"
  "gfci_fault_latched (fst (gfci_policy_step c low pol)) \<longleftrightarrow>
     gfci_fault_latched c \<or> snd (gfci_policy_step c low pol) = GFCI_ACT_RAISE_FAULT"
  "warned (fst (gfci_policy_step c low pol)) \<longleftrightarrow>
     low \<and> (warned c \<or> snd (gfci_policy_step c low pol) = GFCI_ACT_WARN_EMIT)"
  by (auto simp: gfci_policy_step_def gfci_sample_def Let_def)

lemma gfci_run_state:
  "trip_streak (fst (gfci_run gfci_ctx_init xs)) = min 3 (trailing fst xs) \<and>
   (gfci_fault_latched (fst (gfci_run gfci_ctx_init xs)) \<longleftrightarrow>
      GFCI_ACT_RAISE_FAULT \<in> set (snd (gfci_run gfci_ctx_init xs))) \<and>
   count_list (snd (gfci_run gfci_ctx_init xs)) GFCI_ACT_RAISE_FAULT \<le> 1"
proof (induction xs rule: rev_induct)
  case Nil
  then show ?case by (simp add: gfci_ctx_init_def)
next
  case (snoc x xs)
  obtain c as where r: "gfci_run gfci_ctx_init xs = (c, as)" by force
  obtain c' a where st: "gfci_policy_step c (fst x) (snd x) = (c', a)" by force
  have cnt: "count_list as GFCI_ACT_RAISE_FAULT = 0" if "a = GFCI_ACT_RAISE_FAULT"
    using that snoc gfci_step_cases(1) [of c "fst x" "snd x"] by (simp add: r st count_list_0_iff)
  from snoc r st gfci_step_ctx [of c "fst x" "snd x"] cnt show ?case
    by (auto simp: gfci_run_snoc trailing_snoc)
qed

lemma ot_run_snoc:
  "ot_run c (xs @ [x]) =
     (let (c1, as) = ot_run c xs;
          (c2, a) = over_temp_step c1 (fst x) (fst (snd x)) (fst (snd (snd x))) (snd (snd (snd x)))
      in (c2, as @ [a]))"
  by (cases x, induction xs arbitrary: c) (auto simp: Let_def split: prod.splits)

lemma hottest_of_cases:
  "p1 \<or> p2 \<Longrightarrow> (p1 \<longrightarrow> r1 < OT_GUARD_HI) \<Longrightarrow> (p2 \<longrightarrow> r2 < OT_GUARD_HI) \<Longrightarrow>
   hottest_of p1 r1 p2 r2 = (if p1 \<and> p2 then min r1 r2 else if p1 then r1 else r2)"
proof -
  assume a: "p1 \<or> p2" "p1 \<longrightarrow> r1 < OT_GUARD_HI" "p2 \<longrightarrow> r2 < OT_GUARD_HI"
  have "x < 0xFFFF \<and> \<not> 0xFFFF \<le> x" if "x < OT_GUARD_HI" for x :: u16
    using that by (simp add: word_less_nat_alt word_le_nat_alt)
  with a show ?thesis by (auto simp: hottest_of_def min_def not_less)
qed

lemma over_temp_step_trip:
  "ot_trip (snd (over_temp_step c r1 r2 m1 m2)) \<longleftrightarrow>
     \<not> ot_fault_active c \<and> hot_sample (r1, r2, m1, m2) \<and> 4 \<le> ot_trip_streak c"
proof -
  have le: "x < OT_GUARD_HI" if "x \<le> OT_TRIP_RAW" for x :: u16
    using that by (rule order_le_less_trans) simp
  show ?thesis
    by (auto simp: over_temp_step_def Let_def over_temp_populated_def hottest_of_cases min_def
        dest: le)
qed

lemma over_temp_step_clear:
  "ot_clear (snd (over_temp_step c r1 r2 m1 m2)) \<longleftrightarrow>
     ot_fault_active c \<and> cool_sample (r1, r2, m1, m2)"
  by (auto simp: over_temp_step_def Let_def over_temp_populated_def hottest_of_cases min_def)

lemma over_temp_step_ctx:
  "ot_trip_streak c \<le> 5 \<Longrightarrow> ot_trip_streak (fst (over_temp_step c r1 r2 m1 m2)) =
     (if \<not> ot_fault_active c \<and> hot_sample (r1, r2, m1, m2) then min 5 (Suc (ot_trip_streak c)) else 0)"
  "ot_fault_active (fst (over_temp_step c r1 r2 m1 m2)) \<longleftrightarrow>
     (ot_fault_active c \<or> ot_trip (snd (over_temp_step c r1 r2 m1 m2))) \<and>
     \<not> ot_clear (snd (over_temp_step c r1 r2 m1 m2))"
proof -
  have le: "x < OT_GUARD_HI" if "x \<le> OT_TRIP_RAW" for x :: u16
    using that by (rule order_le_less_trans) simp
  show "ot_trip_streak c \<le> 5 \<Longrightarrow> ot_trip_streak (fst (over_temp_step c r1 r2 m1 m2)) =
     (if \<not> ot_fault_active c \<and> hot_sample (r1, r2, m1, m2) then min 5 (Suc (ot_trip_streak c)) else 0)"
    by (auto simp: over_temp_step_def Let_def over_temp_populated_def hottest_of_cases min_def
        dest: le)
  show "ot_fault_active (fst (over_temp_step c r1 r2 m1 m2)) \<longleftrightarrow>
     (ot_fault_active c \<or> ot_trip (snd (over_temp_step c r1 r2 m1 m2))) \<and>
     \<not> ot_clear (snd (over_temp_step c r1 r2 m1 m2))"
    by (auto simp: over_temp_step_def Let_def)
qed

end
