(* ===== verification/Rfid_Frame.thy ===== *)
theory Rfid_Frame
  imports Prelude
begin

text \<open>
  The RFID re-framer and edge detector, \<^verbatim>\<open>src/src/core/rfid.h\<close> and \<^verbatim>\<open>rfid.c\<close>. The C buffer
  \<open>buf[16]\<close> with its length \<open>len\<close> is the list of its first \<open>len\<close> bytes; the \<open>memmove\<close> calls that
  shift it drop bytes from the head. \<open>idle_frame\<close> and \<open>card_frame\<close> are the wire format that
  the header documents.
\<close>

abbreviation (input) "RFID_PREAMBLE_0 \<equiv> (0xAA :: u8)"
abbreviation (input) "RFID_PREAMBLE_1 \<equiv> (0xD1 :: u8)"
abbreviation (input) "RFID_PREAMBLE_2 \<equiv> (0xD0 :: u8)"
abbreviation (input) "RFID_PREAMBLE_3 \<equiv> (0x02 :: u8)"
abbreviation (input) "RFID_FRAME_IDLE_LEN \<equiv> (7 :: nat)"
abbreviation (input) "RFID_FRAME_CARD_LEN \<equiv> (11 :: nat)"
abbreviation (input) "RFID_FRAME_MAX_LEN \<equiv> (16 :: nat)"

record rfid_ctx =
  rbuf :: "u8 list"
  last_uid :: u32
  card_present :: bool

record rfid_action =
  ra_edge :: bool
  ra_uid :: u32
  ra_present :: bool

definition rfid_init_ctx :: rfid_ctx where
  "rfid_init_ctx = \<lparr>rbuf = [], last_uid = 0, card_present = False\<rparr>"

definition decode_frame :: "rfid_ctx \<Rightarrow> rfid_action \<Rightarrow> u8 \<Rightarrow> rfid_ctx \<times> rfid_action" where
  "decode_frame c out ll =
     (let uid = (if ll = 4 then le32_at (rbuf c) 6 else 0);
          present_now = (ll = 4)
      in if uid \<noteq> last_uid c \<or> present_now \<noteq> card_present c
         then (c\<lparr>last_uid := uid, card_present := present_now\<rparr>,
               \<lparr>ra_edge = True, ra_uid = uid, ra_present = present_now\<rparr>)
         else (c, out))"

definition try_parse_one :: "rfid_ctx \<Rightarrow> rfid_action \<Rightarrow> nat \<times> rfid_ctx \<times> rfid_action" where
  "try_parse_one ctx out =
     (let b = dropWhile (\<lambda>x. x \<noteq> RFID_PREAMBLE_0) (rbuf ctx);
          c = ctx\<lparr>rbuf := b\<rparr>
      in if length b < 5 then (0, c, out)
         else if b ! 1 \<noteq> RFID_PREAMBLE_1 \<or> b ! 2 \<noteq> RFID_PREAMBLE_2 \<or> b ! 3 \<noteq> RFID_PREAMBLE_3
         then (0, c\<lparr>rbuf := drop 1 b\<rparr>, out)
         else let ll = b ! 4 in
           if ll \<noteq> 0 \<and> ll \<noteq> 4 then (0, c\<lparr>rbuf := drop 1 b\<rparr>, out)
           else let frame_len = (if ll = 0 then RFID_FRAME_IDLE_LEN else RFID_FRAME_CARD_LEN) in
             if length b < frame_len then (0, c, out)
             else let (c1, out1) = decode_frame c out ll
               in (frame_len, c1\<lparr>rbuf := drop frame_len (rbuf c1)\<rparr>, out1))"

definition rfid_push :: "u8 list \<Rightarrow> u8 \<Rightarrow> u8 list" where
  "rfid_push buf byte = (if length buf < RFID_FRAME_MAX_LEN then buf @ [byte] else drop 1 buf @ [byte])"

lemma try_parse_one_shrinks:
  "try_parse_one ctx out = (Suc k, c, o') \<Longrightarrow> length (rbuf c) < length (rbuf ctx)"
  using length_dropWhile_le [of "\<lambda>x. x \<noteq> RFID_PREAMBLE_0" "rbuf ctx"]
  by (auto simp: try_parse_one_def Let_def decode_frame_def split: if_splits prod.splits)

function rfid_drain :: "rfid_ctx \<Rightarrow> rfid_action \<Rightarrow> nat \<Rightarrow> nat \<times> rfid_ctx \<times> rfid_action" where
  "rfid_drain ctx out edges =
     (case try_parse_one ctx out of
        (0, c, o') \<Rightarrow> (edges, c, o')
      | (Suc k, c, o') \<Rightarrow> rfid_drain c o' (if ra_edge o' then edges + 1 else edges))"
  by pat_completeness auto
termination
  by (relation "measure (\<lambda>(c, out, edges). length (rbuf c))") (auto dest: try_parse_one_shrinks [OF sym])

declare rfid_drain.simps [simp del]

definition rfid_feed :: "rfid_ctx \<Rightarrow> u8 list \<Rightarrow> nat \<times> rfid_ctx \<times> rfid_action" where
  "rfid_feed ctx bytes =
     (let out = \<lparr>ra_edge = False, ra_uid = last_uid ctx, ra_present = card_present ctx\<rparr>;
          c = ctx\<lparr>rbuf := fold (\<lambda>b buf. rfid_push buf b) bytes (rbuf ctx)\<rparr>
      in rfid_drain c out 0)"

definition idle_frame :: "u8 \<Rightarrow> u8 list" where
  "idle_frame st = [0xAA, 0xD1, 0xD0, 0x02, 0, 0, st]"

definition card_frame :: "u32 \<Rightarrow> u8 \<Rightarrow> u8 list" where
  "card_frame uid st = [0xAA, 0xD1, 0xD0, 0x02, 4, 0] @ le32_bytes uid @ [st]"

datatype reading = NoCard | Card u32

fun reading_frame :: "reading \<Rightarrow> u8 \<Rightarrow> u8 list" where
  "reading_frame NoCard st = idle_frame st"
| "reading_frame (Card uid) st = card_frame uid st"

fun reading_uid :: "reading \<Rightarrow> u32" where
  "reading_uid NoCard = 0"
| "reading_uid (Card uid) = uid"

definition ctx_reading :: "rfid_ctx \<Rightarrow> reading" where
  "ctx_reading c = (if card_present c then Card (last_uid c) else NoCard)"

text \<open>The context after the reader has reported a reading, and the parser invariant.\<close>

definition ctx_of :: "reading \<Rightarrow> rfid_ctx" where
  "ctx_of r = \<lparr>rbuf = [], last_uid = reading_uid r, card_present = (r \<noteq> NoCard)\<rparr>"

definition rfid_ok :: "rfid_ctx \<Rightarrow> bool" where
  "rfid_ok c \<longleftrightarrow> length (rbuf c) \<le> RFID_FRAME_MAX_LEN \<and> (\<not> card_present c \<longrightarrow> last_uid c = 0)"

text \<open>The edges a caller publishes when every frame arrives in its own feed.\<close>

fun feed_all :: "rfid_ctx \<Rightarrow> u8 list list \<Rightarrow> rfid_action list" where
  "feed_all c [] = []"
| "feed_all c (bs # bss) =
     (let (n, c', a) = rfid_feed c bs in (if ra_edge a then [a] else []) @ feed_all c' bss)"

fun changes :: "reading \<Rightarrow> reading list \<Rightarrow> reading list" where
  "changes r [] = []"
| "changes r (x # xs) = (if x = r then changes r xs else x # changes x xs)"

fun reading_action :: "reading \<Rightarrow> rfid_action" where
  "reading_action NoCard = \<lparr>ra_edge = True, ra_uid = 0, ra_present = False\<rparr>"
| "reading_action (Card uid) = \<lparr>ra_edge = True, ra_uid = uid, ra_present = True\<rparr>"

section \<open>Buffer bound and frame decoding\<close>

lemma rfid_push_length: "length buf \<le> 16 \<Longrightarrow> length (rfid_push buf b) \<le> 16"
  by (auto simp: rfid_push_def)

lemma rfid_pushes_length: "length buf \<le> 16 \<Longrightarrow> length (fold (\<lambda>b buf. rfid_push buf b) bs buf) \<le> 16"
  by (induction bs arbitrary: buf) (auto simp: rfid_push_length)

lemma rfid_pushes_append:
  "length buf + length bs \<le> 16 \<Longrightarrow> fold (\<lambda>b buf. rfid_push buf b) bs buf = buf @ bs"
  by (induction bs arbitrary: buf) (auto simp: rfid_push_def)

lemma try_parse_one_ok: "rfid_ok ctx \<Longrightarrow> rfid_ok (fst (snd (try_parse_one ctx out)))"
  using length_dropWhile_le [of "\<lambda>x. x \<noteq> RFID_PREAMBLE_0" "rbuf ctx"]
  by (auto simp: rfid_ok_def try_parse_one_def Let_def decode_frame_def split: prod.splits if_splits)

lemma rfid_drain_ok: "rfid_ok ctx \<Longrightarrow> rfid_ok (fst (snd (rfid_drain ctx out edges)))"
proof (induction ctx out edges rule: rfid_drain.induct)
  case (1 ctx out edges)
  from "1.prems" try_parse_one_ok [of ctx out] "1.IH" show ?case
    by (subst rfid_drain.simps) (auto split: prod.splits nat.splits)
qed

lemma rfid_feed_ok: "rfid_ok ctx \<Longrightarrow> rfid_ok (fst (snd (rfid_feed ctx bytes)))"
  unfolding rfid_feed_def Let_def
  by (rule rfid_drain_ok) (simp add: rfid_ok_def rfid_pushes_length)

lemma le32_at_card: "le32_at (card_frame uid st @ rest) 6 = uid"
proof -
  have "le32_at ([0xAA, 0xD1, 0xD0, 0x02, 4, 0] @ (le32_bytes uid @ [st] @ rest)) (length [0xAA, 0xD1, 0xD0, 0x02, 4, 0 :: u8] + 0)
      = le32_at (le32_bytes uid @ ([st] @ rest)) 0"
    by (rule le32_at_append_right)
  also have "\<dots> = uid" by (simp add: le32_at_append_left le32_at_bytes)
  finally show ?thesis by (simp add: card_frame_def numeral_eq_Suc)
qed

lemma le32_at_card_exact: "le32_at (card_frame uid st) 6 = uid"
  using le32_at_card [of uid st "[]"] by simp

lemma decode_card:
  "rbuf c = card_frame uid st \<Longrightarrow>
   try_parse_one c out = (11, fst (decode_frame c out 4)\<lparr>rbuf := []\<rparr>, snd (decode_frame c out 4))"
  by (cases c) (auto simp: try_parse_one_def Let_def card_frame_def decode_frame_def le32_bytes_def)

lemma decode_idle:
  "rbuf c = idle_frame st \<Longrightarrow>
   try_parse_one c out = (7, fst (decode_frame c out 0)\<lparr>rbuf := []\<rparr>, snd (decode_frame c out 0))"
  by (cases c) (auto simp: try_parse_one_def Let_def idle_frame_def decode_frame_def)

lemma try_parse_empty: "rbuf c = [] \<Longrightarrow> try_parse_one c out = (0, c, out)"
  by (cases c) (simp add: try_parse_one_def)

lemma drain_one:
  assumes "try_parse_one c out = (Suc k, c', o')" "rbuf c' = []"
  shows "rfid_drain c out 0 = (if ra_edge o' then 1 else 0, c', o')"
  using assms
  by (simp add: rfid_drain.simps [of c out 0] rfid_drain.simps [of c' o'] try_parse_empty)

lemma feed_reading:
  "rfid_feed (ctx_of r) (reading_frame x st) =
     (if x = r then (0, ctx_of r, \<lparr>ra_edge = False, ra_uid = reading_uid r, ra_present = (r \<noteq> NoCard)\<rparr>)
      else (1, ctx_of x, reading_action x))"
proof (cases x)
  case NoCard
  let ?c = "(ctx_of r)\<lparr>rbuf := idle_frame st\<rparr>"
  let ?o = "\<lparr>ra_edge = False, ra_uid = reading_uid r, ra_present = (r \<noteq> NoCard)\<rparr>"
  have "rfid_drain ?c ?o 0 = (if ra_edge (snd (decode_frame ?c ?o 0)) then 1 else 0,
      fst (decode_frame ?c ?o 0)\<lparr>rbuf := []\<rparr>, snd (decode_frame ?c ?o 0))"
    using decode_idle [of ?c st ?o] by (intro drain_one [where k = 6]) (simp_all add: ctx_of_def)
  moreover have "length (idle_frame st) = 7" by (simp add: idle_frame_def)
  ultimately show ?thesis using NoCard
    by (cases r) (auto simp: rfid_feed_def Let_def ctx_of_def rfid_pushes_append decode_frame_def)
next
  case (Card uid)
  let ?c = "(ctx_of r)\<lparr>rbuf := card_frame uid st\<rparr>"
  let ?o = "\<lparr>ra_edge = False, ra_uid = reading_uid r, ra_present = (r \<noteq> NoCard)\<rparr>"
  have "rfid_drain ?c ?o 0 = (if ra_edge (snd (decode_frame ?c ?o 4)) then 1 else 0,
      fst (decode_frame ?c ?o 4)\<lparr>rbuf := []\<rparr>, snd (decode_frame ?c ?o 4))"
    using decode_card [of ?c uid st ?o] by (intro drain_one [where k = 10]) (simp_all add: ctx_of_def)
  moreover have "length (card_frame uid st) = 11" by (simp add: card_frame_def)
  ultimately show ?thesis using Card
    by (cases r) (auto simp: rfid_feed_def Let_def ctx_of_def rfid_pushes_append le32_at_card_exact decode_frame_def)
qed

lemma reading_action_edge [simp]: "ra_edge (reading_action x)"
  by (cases x) auto

lemma feed_all_changes:
  "length sts = length rs \<Longrightarrow>
   feed_all (ctx_of r) (map2 reading_frame rs sts) = map reading_action (changes r rs)"
proof (induction rs arbitrary: r sts)
  case Nil
  then show ?case by simp
next
  case (Cons x xs)
  then obtain st sts' where "sts = st # sts'" "length sts' = length xs" by (cases sts) auto
  with Cons.IH show ?case
    by (auto simp: feed_reading reading_action_edge simp del: reading_frame.simps)
qed

end
