(* ===== verification/Hal.thy ===== *)
theory Hal
  imports Prelude
begin

text \<open>
  The outputs the supervisor drives and the metering chip it reads, on the GD32F205 target:
  \<^verbatim>\<open>src/src/hal/gd32f205/relay.c\<close> (contactor coil PE12, UL2231 force-open latch PB12),
  \<^verbatim>\<open>cp_pwm.c\<close> (timer compare values of the control pilot) and \<^verbatim>\<open>bl0939.c\<close> (register
  frames with their checksum and the poll cache). GPIO levels and timer compare registers are
  fields of the state; the bytes the metering chip answers are an argument.
\<close>

section \<open>Contactor\<close>

record relay_hw =
  pe12 :: bool
  pb12 :: bool
  pe0 :: bool
  s_main_cmd :: bool
  s_aux_cmd :: bool
  s_force_open :: bool

definition relay_reset :: relay_hw where
  "relay_reset = \<lparr>pe12 = False, pb12 = False, pe0 = False,
                  s_main_cmd = False, s_aux_cmd = False, s_force_open = False\<rparr>"

definition relay_main_open :: "relay_hw \<Rightarrow> relay_hw" where
  "relay_main_open r = r\<lparr>pe12 := False, s_main_cmd := False\<rparr>"

definition relay_main_close :: "relay_hw \<Rightarrow> relay_hw" where
  "relay_main_close r = r\<lparr>pe12 := True, s_main_cmd := True\<rparr>"

definition relay_main_commanded :: "relay_hw \<Rightarrow> bool" where
  "relay_main_commanded r = s_main_cmd r"

definition relay_main_sense_closed :: "relay_hw \<Rightarrow> bool" where
  "relay_main_sense_closed r = False"

definition relay_force_open_latch :: "relay_hw \<Rightarrow> relay_hw" where
  "relay_force_open_latch r = r\<lparr>pb12 := True, s_force_open := True\<rparr>"

definition relay_force_open_release :: "relay_hw \<Rightarrow> relay_hw" where
  "relay_force_open_release r = r\<lparr>pb12 := False, s_force_open := False\<rparr>"

definition relay_force_open_active :: "relay_hw \<Rightarrow> bool" where
  "relay_force_open_active r = s_force_open r"

definition relay_aux_open :: "relay_hw \<Rightarrow> relay_hw" where
  "relay_aux_open r = r\<lparr>pe0 := False, s_aux_cmd := False\<rparr>"

definition relay_aux_close :: "relay_hw \<Rightarrow> relay_hw" where
  "relay_aux_close r = r\<lparr>pe0 := True, s_aux_cmd := True\<rparr>"

definition relay_aux_commanded :: "relay_hw \<Rightarrow> bool" where
  "relay_aux_commanded r = s_aux_cmd r"

text \<open>The pins follow the recorded commands; the coil is energised when PE12 is high and the
  latch does not hold it open.\<close>

definition relay_pins_ok :: "relay_hw \<Rightarrow> bool" where
  "relay_pins_ok r \<longleftrightarrow> pe12 r = s_main_cmd r \<and> pb12 r = s_force_open r \<and> pe0 r = s_aux_cmd r"

definition contactor_energised :: "relay_hw \<Rightarrow> bool" where
  "contactor_energised r \<longleftrightarrow> pe12 r \<and> \<not> pb12 r"

lemmas relay_defs = relay_main_open_def relay_main_close_def relay_main_commanded_def
  relay_main_sense_closed_def relay_force_open_latch_def relay_force_open_release_def
  relay_force_open_active_def relay_aux_open_def relay_aux_close_def relay_aux_commanded_def

lemma relay_pins_ok_ops:
  "relay_pins_ok relay_reset"
  "relay_pins_ok r \<Longrightarrow> relay_pins_ok (relay_main_open r)"
  "relay_pins_ok r \<Longrightarrow> relay_pins_ok (relay_main_close r)"
  "relay_pins_ok r \<Longrightarrow> relay_pins_ok (relay_force_open_latch r)"
  "relay_pins_ok r \<Longrightarrow> relay_pins_ok (relay_force_open_release r)"
  by (auto simp: relay_pins_ok_def relay_defs relay_reset_def)

section \<open>Control-pilot PWM\<close>

abbreviation (input) "CP_PWM_ARR \<equiv> (999 :: nat)"
abbreviation (input) "CP_PWM_CCR_HIGH \<equiv> CP_PWM_ARR + 1"
abbreviation (input) "CP_PWM_CCR_LOW \<equiv> (0 :: nat)"

record cp_pwm =
  ccr_ch2 :: nat
  ccr_ch3 :: nat

definition update_ch3_for_low_sample :: "nat \<Rightarrow> cp_pwm \<Rightarrow> cp_pwm" where
  "update_ch3_for_low_sample ccr p =
     (let mid = (ccr + CP_PWM_ARR) div 2;
          mid' = (if mid > CP_PWM_ARR - 1 then CP_PWM_ARR - 1 else mid)
      in p\<lparr>ccr_ch3 := mid'\<rparr>)"

definition cp_pwm_set_idle_high :: "cp_pwm \<Rightarrow> cp_pwm" where
  "cp_pwm_set_idle_high p = update_ch3_for_low_sample CP_PWM_CCR_HIGH (p\<lparr>ccr_ch2 := CP_PWM_CCR_HIGH\<rparr>)"

definition cp_pwm_set_state_f :: "cp_pwm \<Rightarrow> cp_pwm" where
  "cp_pwm_set_state_f p = update_ch3_for_low_sample CP_PWM_CCR_LOW (p\<lparr>ccr_ch2 := CP_PWM_CCR_LOW\<rparr>)"

definition duty_pct_of_amps :: "nat \<Rightarrow> nat" where
  "duty_pct_of_amps amps =
     (let d = (if amps \<le> 51 then (amps * 10) div 6 else (amps * 10) div 25 + 64)
      in if d > 96 then 96 else d)"

definition cp_pwm_set_advertise_amps :: "nat \<Rightarrow> cp_pwm \<Rightarrow> cp_pwm" where
  "cp_pwm_set_advertise_amps amps p =
     (if amps < 6 \<or> amps > 80 then cp_pwm_set_idle_high p
      else let ccr = duty_pct_of_amps amps * 10
           in update_ch3_for_low_sample ccr (p\<lparr>ccr_ch2 := ccr\<rparr>))"

lemma ccr_update_ch3 [simp]: "ccr_ch2 (update_ch3_for_low_sample c p) = ccr_ch2 p"
  by (simp add: update_ch3_for_low_sample_def Let_def)

lemma ccr_set [simp]:
  "ccr_ch2 (cp_pwm_set_idle_high p) = CP_PWM_CCR_HIGH"
  "ccr_ch2 (cp_pwm_set_state_f p) = CP_PWM_CCR_LOW"
  by (simp_all add: cp_pwm_set_idle_high_def cp_pwm_set_state_f_def)

lemma duty_pct_bounds:
  assumes "6 \<le> amps" "amps \<le> 80"
  shows "10 \<le> duty_pct_of_amps amps" "duty_pct_of_amps amps \<le> 96"
  using assms by (auto simp: duty_pct_of_amps_def Let_def)

lemma ccr_advertise:
  "6 \<le> amps \<Longrightarrow> amps \<le> 80 \<Longrightarrow> ccr_ch2 (cp_pwm_set_advertise_amps amps p) = 10 * duty_pct_of_amps amps"
  by (simp add: cp_pwm_set_advertise_amps_def Let_def)

lemma ccr_advertise_pos: "0 < ccr_ch2 (cp_pwm_set_advertise_amps amps p)"
  using duty_pct_bounds [of amps]
  by (cases "amps < 6 \<or> amps > 80") (auto simp: cp_pwm_set_advertise_amps_def Let_def)

section \<open>BL0939 metering chip\<close>

abbreviation (input) "BL0939_HDR_READ \<equiv> (0x55 :: u8)"
abbreviation (input) "BL0939_REG_IA_RMS \<equiv> (0x04 :: u8)"
abbreviation (input) "BL0939_REG_IB_RMS \<equiv> (0x05 :: u8)"
abbreviation (input) "BL0939_REG_V_RMS \<equiv> (0x06 :: u8)"
abbreviation (input) "BL0939_REG_A_WATT \<equiv> (0x08 :: u8)"
abbreviation (input) "BL0939_REG_TPS1 \<equiv> (0x0E :: u8)"

record bl0939_readings =
  v_rms :: u32
  ia_rms :: u32
  ib_rms :: u32
  a_watt :: int
  v_period :: u32
  v_freq_hz_x10 :: u16
  poll_count :: u32
  checksum_fail :: u32
  bl_valid :: bool

definition bl0939_zero :: bl0939_readings where
  "bl0939_zero = \<lparr>v_rms = 0, ia_rms = 0, ib_rms = 0, a_watt = 0, v_period = 0, v_freq_hz_x10 = 0,
     poll_count = 0, checksum_fail = 0, bl_valid = False\<rparr>"

definition bl0939_checksum :: "u8 \<Rightarrow> u8 \<Rightarrow> u8 \<Rightarrow> u8 \<Rightarrow> u8 \<Rightarrow> u8" where
  "bl0939_checksum header addr dh dm dl = NOT (header + addr + dh + dm + dl)"

text \<open>The four bytes the chip clocks out after the address: high, middle, low, checksum.\<close>

type_synonym bl_answer = "u8 \<times> u8 \<times> u8 \<times> u8"

fun bl0939_read_register :: "u8 \<Rightarrow> bl_answer \<Rightarrow> int \<times> u32" where
  "bl0939_read_register addr (dh, dm, dl, cs) =
     (let ck = bl0939_checksum BL0939_HDR_READ addr dh dm dl
      in (if cs = ck then 0 else -1,
          push_bit 16 (ucast dh) OR push_bit 8 (ucast dm) OR ucast dl))"

definition bl0939_sx24 :: "u32 \<Rightarrow> int" where
  "bl0939_sx24 v = (if v AND 0x00800000 \<noteq> 0 then sint (v OR 0xFF000000) else sint v)"

definition bl_freq :: "int \<Rightarrow> u32 \<Rightarrow> u16" where
  "bl_freq fc tp =
     (if tp \<ge> 50 \<and> tp \<le> 0x00FFFFFF \<and> fc > 0 then ucast ((word_of_int fc :: u32) div tp) else 0)"

definition bl0939_poll :: "int \<Rightarrow> (u8 \<Rightarrow> bl_answer) \<Rightarrow> bl0939_readings \<Rightarrow> bl0939_readings" where
  "bl0939_poll fc ans r =
     (let (rc_v, v) = bl0939_read_register BL0939_REG_V_RMS (ans BL0939_REG_V_RMS);
          (rc_ia, ia) = bl0939_read_register BL0939_REG_IA_RMS (ans BL0939_REG_IA_RMS);
          (rc_ib, ib) = bl0939_read_register BL0939_REG_IB_RMS (ans BL0939_REG_IB_RMS);
          (rc_aw, aw) = bl0939_read_register BL0939_REG_A_WATT (ans BL0939_REG_A_WATT);
          (rc_tp, tp) = bl0939_read_register BL0939_REG_TPS1 (ans BL0939_REG_TPS1);
          fail = (\<lambda>s. s\<lparr>checksum_fail := checksum_fail s + 1\<rparr>);
          s0 = r\<lparr>poll_count := poll_count r + 1\<rparr>;
          s1 = (if rc_v = 0 then s0\<lparr>v_rms := v\<rparr> else fail s0);
          s2 = (if rc_ia = 0 then s1\<lparr>ia_rms := ia\<rparr> else fail s1);
          s3 = (if rc_ib = 0 then s2\<lparr>ib_rms := ib\<rparr> else fail s2);
          s4 = (if rc_aw = 0 then s3\<lparr>a_watt := bl0939_sx24 aw\<rparr> else fail s3);
          s5 = (if rc_tp = 0 then s4\<lparr>v_period := tp, v_freq_hz_x10 := bl_freq fc tp\<rparr> else fail s4)
      in if rc_v = 0 \<and> rc_ia = 0 \<and> rc_ib = 0 \<and> rc_aw = 0 \<and> rc_tp = 0
         then s5\<lparr>bl_valid := True\<rparr> else s5)"

lemma bl0939_poll_valid:
  "bl_valid (bl0939_poll fc ans r) \<longleftrightarrow> bl_valid r \<or>
    (\<forall>a \<in> {BL0939_REG_V_RMS, BL0939_REG_IA_RMS, BL0939_REG_IB_RMS, BL0939_REG_A_WATT, BL0939_REG_TPS1}.
       fst (bl0939_read_register a (ans a)) = 0)"
  by (simp add: bl0939_poll_def Let_def case_prod_unfold)

lemma bl0939_poll_bad_ia:
  "fst (bl0939_read_register BL0939_REG_IA_RMS (ans BL0939_REG_IA_RMS)) \<noteq> 0 \<Longrightarrow>
   ia_rms (bl0939_poll fc ans r) = ia_rms r"
  by (simp add: bl0939_poll_def Let_def case_prod_unfold)

end
