(* ===== verification/Records.thy ===== *)
theory Records
  imports Prelude
begin

text \<open>
  The command and event numbers of \<^verbatim>\<open>src/src/proto/commands.h\<close> and the two 32-byte log
  records of \<^verbatim>\<open>persist/event_log.h\<close> and \<^verbatim>\<open>session_log.h\<close> with their packed byte layout.
  Signed 16-bit fields are kept as their 16 bits.
\<close>

section \<open>Event numbers\<close>

abbreviation (input) "EVT_STATE_CHANGED \<equiv> (0x80 :: u8)"
abbreviation (input) "EVT_PING_ACK \<equiv> (0x81 :: u8)"
abbreviation (input) "EVT_STATE_REPORT \<equiv> (0x82 :: u8)"
abbreviation (input) "EVT_FAULT_RAISED \<equiv> (0x83 :: u8)"
abbreviation (input) "EVT_FAULT_CLEARED \<equiv> (0x84 :: u8)"
abbreviation (input) "EVT_SESSION_BEGAN \<equiv> (0x85 :: u8)"
abbreviation (input) "EVT_SESSION_ENDED \<equiv> (0x86 :: u8)"
abbreviation (input) "EVT_BOOT_COMPLETE \<equiv> (0x87 :: u8)"
abbreviation (input) "EVT_FAULT_LOG_ENTRY \<equiv> (0x88 :: u8)"
abbreviation (input) "EVT_FAULT_LOG_END \<equiv> (0x89 :: u8)"
abbreviation (input) "EVT_LIFETIME_KWH \<equiv> (0x8A :: u8)"
abbreviation (input) "EVT_BUILD_INFO \<equiv> (0x8C :: u8)"
abbreviation (input) "EVT_DEVICE_ID \<equiv> (0x8D :: u8)"
abbreviation (input) "EVT_RFID_SWIPE \<equiv> (0x8E :: u8)"
abbreviation (input) "EVT_RFID_AUTH_RESULT \<equiv> (0x8F :: u8)"
abbreviation (input) "EVT_RFID_LIST_ENTRY \<equiv> (0x90 :: u8)"
abbreviation (input) "EVT_RFID_LIST_END \<equiv> (0x91 :: u8)"
abbreviation (input) "EVT_RFID_CONFIG \<equiv> (0x92 :: u8)"
abbreviation (input) "EVT_OTA_BEGIN_ACK \<equiv> (0x93 :: u8)"
abbreviation (input) "EVT_OTA_CHUNK_ACK \<equiv> (0x94 :: u8)"
abbreviation (input) "EVT_OTA_COMMITTED \<equiv> (0x95 :: u8)"
abbreviation (input) "EVT_OTA_ABORTED \<equiv> (0x96 :: u8)"
abbreviation (input) "EVT_TIME \<equiv> (0x97 :: u8)"
abbreviation (input) "EVT_DIAG_ADC \<equiv> (0x98 :: u8)"
abbreviation (input) "EVT_GFCI_POLICY \<equiv> (0x99 :: u8)"

abbreviation (input) "RFID_AUTH_RESULT_LEARNED \<equiv> (0 :: u8)"
abbreviation (input) "RFID_AUTH_RESULT_START \<equiv> (1 :: u8)"
abbreviation (input) "RFID_AUTH_RESULT_STOP \<equiv> (2 :: u8)"
abbreviation (input) "RFID_AUTH_RESULT_MATCHED_NOOP \<equiv> (3 :: u8)"
abbreviation (input) "RFID_AUTH_RESULT_REJECTED \<equiv> (4 :: u8)"
abbreviation (input) "RFID_AUTH_RESULT_LIST_FULL \<equiv> (5 :: u8)"

section \<open>Log records\<close>

record event_record =
  ev_timestamp :: u32
  ev_boot_count :: u16
  ev_fault_id :: u16
  ev_j1772_state :: u8
  ev_evse_state :: u8
  ev_cp_mv :: u16
  ev_cc_amps :: u16
  ev_ntc1_dC :: u16
  ev_ntc2_dC :: u16
  ev_active_amps_x10 :: u16
  ev_reserved :: "u8 list"
  ev_crc16 :: u16

record session_record =
  sr_start_ts :: u32
  sr_end_ts :: u32
  sr_mwh_delivered :: u32
  sr_end_reason :: u8
  sr_j1772_max_state_seen :: u8
  sr_fault_count :: u16
  sr_max_temp_dC :: u16
  sr_boot_count :: u16
  sr_reserved :: "u8 list"
  sr_crc16 :: u16

definition event_body :: "event_record \<Rightarrow> u8 list" where
  "event_body r =
     le32_bytes (ev_timestamp r) @ le16_bytes (ev_boot_count r) @ le16_bytes (ev_fault_id r) @
     [ev_j1772_state r, ev_evse_state r] @ le16_bytes (ev_cp_mv r) @ le16_bytes (ev_cc_amps r) @
     le16_bytes (ev_ntc1_dC r) @ le16_bytes (ev_ntc2_dC r) @ le16_bytes (ev_active_amps_x10 r) @
     ev_reserved r"

definition event_bytes :: "event_record \<Rightarrow> u8 list" where
  "event_bytes r = event_body r @ le16_bytes (ev_crc16 r)"

definition session_body :: "session_record \<Rightarrow> u8 list" where
  "session_body r =
     le32_bytes (sr_start_ts r) @ le32_bytes (sr_end_ts r) @ le32_bytes (sr_mwh_delivered r) @
     [sr_end_reason r, sr_j1772_max_state_seen r] @ le16_bytes (sr_fault_count r) @
     le16_bytes (sr_max_temp_dC r) @ le16_bytes (sr_boot_count r) @ sr_reserved r"

definition session_bytes :: "session_record \<Rightarrow> u8 list" where
  "session_bytes r = session_body r @ le16_bytes (sr_crc16 r)"

definition event_of_bytes :: "u8 list \<Rightarrow> event_record" where
  "event_of_bytes p =
     \<lparr>ev_timestamp = le32_at p 0, ev_boot_count = le16_at p 4, ev_fault_id = le16_at p 6,
      ev_j1772_state = p ! 8, ev_evse_state = p ! 9, ev_cp_mv = le16_at p 10,
      ev_cc_amps = le16_at p 12, ev_ntc1_dC = le16_at p 14, ev_ntc2_dC = le16_at p 16,
      ev_active_amps_x10 = le16_at p 18, ev_reserved = take 10 (drop 20 p),
      ev_crc16 = le16_at p 30\<rparr>"

definition session_of_bytes :: "u8 list \<Rightarrow> session_record" where
  "session_of_bytes p =
     \<lparr>sr_start_ts = le32_at p 0, sr_end_ts = le32_at p 4, sr_mwh_delivered = le32_at p 8,
      sr_end_reason = p ! 12, sr_j1772_max_state_seen = p ! 13, sr_fault_count = le16_at p 14,
      sr_max_temp_dC = le16_at p 16, sr_boot_count = le16_at p 18,
      sr_reserved = take 10 (drop 20 p), sr_crc16 = le16_at p 30\<rparr>"

lemma length_event_bytes: "length (ev_reserved r) = 10 \<Longrightarrow> length (event_bytes r) = 32"
  by (simp add: event_bytes_def event_body_def)

lemma length_session_bytes: "length (sr_reserved r) = 10 \<Longrightarrow> length (session_bytes r) = 32"
  by (simp add: session_bytes_def session_body_def)

lemma le16_at_bytes_append: "le16_at (le16_bytes v @ xs) 0 = v"
  using le16_at_bytes [of v] by (simp add: le16_at_def nth_append)

lemma le32_at_bytes_append: "le32_at (le32_bytes v @ xs) 0 = v"
  using le32_at_bytes [of v] by (simp add: le32_at_def nth_append)

lemma le16_at_append_right: "le16_at (xs @ ys) (length xs + i) = le16_at ys i"
  by (simp add: le16_at_def nth_append)

lemma le16_at_skip_list: "length ys \<le> i \<Longrightarrow> le16_at (ys @ xs) i = le16_at xs (i - length ys)"
  using le16_at_append_right [of ys xs "i - length ys"] by simp

lemma le32_at_skip_list: "length ys \<le> i \<Longrightarrow> le32_at (ys @ xs) i = le32_at xs (i - length ys)"
  using le32_at_append_right [of ys xs "i - length ys"] by simp

lemma le16_at_skip1: "1 \<le> i \<Longrightarrow> le16_at (x # xs) i = le16_at xs (i - 1)"
  using le16_at_skip_list [of "[x]" i xs] by simp

lemma le32_at_skip1: "1 \<le> i \<Longrightarrow> le32_at (x # xs) i = le32_at xs (i - 1)"
  using le32_at_skip_list [of "[x]" i xs] by simp

lemma nth_skip: "length ys \<le> i \<Longrightarrow> (ys @ xs) ! i = xs ! (i - length ys)"
  by (simp add: nth_append)

lemmas record_le = le16_at_bytes le32_at_bytes le16_at_bytes_append le32_at_bytes_append le16_at_skip_list le32_at_skip_list
  le16_at_skip1 le32_at_skip1 nth_skip

lemma event_roundtrip:
  "length (ev_reserved r) = 10 \<Longrightarrow> event_of_bytes (event_bytes r) = r"
  by (cases r) (simp add: event_of_bytes_def event_bytes_def event_body_def record_le)

lemma session_roundtrip:
  "length (sr_reserved r) = 10 \<Longrightarrow> session_of_bytes (session_bytes r) = r"
  by (cases r) (simp add: session_of_bytes_def session_bytes_def session_body_def record_le)

end
