(* ===== verification/System_Time.thy ===== *)
theory System_Time
  imports Prelude
begin

text \<open>
  The software wall clock, \<^verbatim>\<open>src/src/core/system_time.c\<close>: the time set over the link and the
  millisecond tick it was set at. All arithmetic wraps at 32 bits, as in the code.
\<close>

record sys_time =
  s_base_unix_s :: u32
  s_base_tick_ms :: u32
  s_set :: bool

definition system_time_init :: sys_time where
  "system_time_init = \<lparr>s_base_unix_s = 0, s_base_tick_ms = 0, s_set = False\<rparr>"

definition system_time_set :: "u32 \<Rightarrow> u32 \<Rightarrow> sys_time \<Rightarrow> sys_time" where
  "system_time_set unix_seconds tick_ms_now st =
     (if unix_seconds = 0 then \<lparr>s_base_unix_s = 0, s_base_tick_ms = 0, s_set = False\<rparr>
      else \<lparr>s_base_unix_s = unix_seconds, s_base_tick_ms = tick_ms_now, s_set = True\<rparr>)"

definition system_time_now :: "u32 \<Rightarrow> sys_time \<Rightarrow> u32" where
  "system_time_now tick_ms_now st =
     (if \<not> s_set st then 0
      else let delta_ms = tick_ms_now - s_base_tick_ms st
           in s_base_unix_s st + delta_ms div 1000)"

definition system_time_is_set :: "sys_time \<Rightarrow> bool" where
  "system_time_is_set st = s_set st"

lemma unat_div_1000: "unat ((d :: u32) div 1000) = unat d div 1000"
  by (simp add: unat_div_distrib)

lemma system_time_elapsed:
  assumes "u \<noteq> 0" "d < 2 ^ 32" "unat u + d div 1000 < 2 ^ 32"
  shows "unat (system_time_now (t + of_nat d) (system_time_set u t st)) = unat u + d div 1000"
proof -
  have d: "unat (of_nat d :: u32) = d" using assms(2) by (simp add: unat_of_nat)
  have "unat (u + (of_nat d :: u32) div 1000) = unat u + d div 1000"
    using assms(3) by (subst unat_add_lem [THEN iffD1]) (simp_all add: unat_div_1000 d)
  then show ?thesis using assms(1) by (simp add: system_time_now_def system_time_set_def Let_def)
qed

end
