(* ===== verification/Crc.thy ===== *)
theory Crc
  imports Prelude
begin

text \<open>
  The checksums of \<^verbatim>\<open>src/src/persist/crc16.c\<close>, \<^verbatim>\<open>crc.c\<close> and the streaming form of
  \<^verbatim>\<open>persist/ota_stage.c\<close>: bit-serial loops as iterated steps. The lemmas show that each step is
  injective in the register and in the byte, so that a change confined to one byte of a message
  always changes its checksum, and that streaming over any chunking gives the checksum of the
  whole.
\<close>

section \<open>CRC16-CCITT-FALSE\<close>

definition crc16_bit :: "u16 \<Rightarrow> u16" where
  "crc16_bit crc = (if crc AND 0x8000 \<noteq> 0 then push_bit 1 crc XOR 0x1021 else push_bit 1 crc)"

definition crc16_byte :: "u16 \<Rightarrow> u8 \<Rightarrow> u16" where
  "crc16_byte crc b = (crc16_bit ^^ 8) (crc XOR push_bit 8 (ucast b))"

definition crc16_ccitt :: "u8 list \<Rightarrow> u16" where
  "crc16_ccitt data = foldl crc16_byte 0xFFFF data"

section \<open>CRC32\<close>

definition crc32_bit :: "u32 \<Rightarrow> u32" where
  "crc32_bit crc = drop_bit 1 crc XOR (0xEDB88320 AND - (crc AND 1))"

definition crc32_byte :: "u32 \<Rightarrow> u8 \<Rightarrow> u32" where
  "crc32_byte crc b = (crc32_bit ^^ 8) (crc XOR ucast b)"

definition crc32 :: "u8 list \<Rightarrow> u32" where
  "crc32 data = NOT (foldl crc32_byte 0xFFFFFFFF data)"

text \<open>Streaming form used while an image arrives in chunks.\<close>

definition ota_crc_init :: u32 where
  "ota_crc_init = 0xFFFFFFFF"

definition ota_crc_update :: "u32 \<Rightarrow> u8 list \<Rightarrow> u32" where
  "ota_crc_update state data = foldl crc32_byte state data"

definition ota_crc_finalize :: "u32 \<Rightarrow> u32" where
  "ota_crc_finalize state = NOT state"

section \<open>Streaming equals one shot\<close>

lemma ota_crc_chunks:
  "ota_crc_finalize (foldl ota_crc_update ota_crc_init chunks) = crc32 (concat chunks)"
proof -
  have "foldl ota_crc_update c chunks = foldl crc32_byte c (concat chunks)" for c
    by (induction chunks arbitrary: c) (simp_all add: ota_crc_update_def)
  then show ?thesis by (simp add: ota_crc_finalize_def ota_crc_init_def crc32_def)
qed

section \<open>One changed byte is detected\<close>

definition crc16_unbit :: "u16 \<Rightarrow> u16" where
  "crc16_unbit y = (if y AND 1 \<noteq> 0 then drop_bit 1 (y XOR 0x1021) OR 0x8000 else drop_bit 1 y)"

lemma bit_0x1021: "bit (0x1021 :: u16) n \<longleftrightarrow> n = 0 \<or> n = 5 \<or> n = 12"
proof (cases "n < 16")
  case True
  have "list_all (\<lambda>n. bit (0x1021 :: u16) n \<longleftrightarrow> n = 0 \<or> n = 5 \<or> n = 12) [0..<16]" by code_simp
  with True show ?thesis by (simp add: list_all_iff del: bit_numeral_simps)
next
  case False
  then show ?thesis by (auto dest: bit_imp_le_length)
qed

lemma and_0x8000: "(c :: u16) AND 0x8000 \<noteq> 0 \<longleftrightarrow> bit c 15"
  using and_exp_eq_0_iff_not_bit [of c 15] by simp

lemma and_1: "(c :: 'a :: len word) AND 1 \<noteq> 0 \<longleftrightarrow> bit c 0"
  using and_exp_eq_0_iff_not_bit [of c 0] by simp

lemma bit_crc16_bit:
  assumes "n < 16"
  shows "bit (crc16_bit c) n \<longleftrightarrow> (0 < n \<and> bit c (n - 1)) \<noteq> (bit c 15 \<and> (n = 0 \<or> n = 5 \<or> n = 12))"
proof -
  have sh: "bit (push_bit 1 c) n \<longleftrightarrow> 0 < n \<and> bit c (n - 1)"
    using assms unfolding bit_push_bit_iff by (cases n) auto
  have x: "bit (push_bit 1 c XOR 0x1021) n \<longleftrightarrow> bit (push_bit 1 c) n \<noteq> bit (0x1021 :: u16) n"
    unfolding bit_xor_iff ..
  show ?thesis
    unfolding crc16_bit_def and_0x8000
    by (cases "bit c 15") (simp_all only: if_True if_False x sh bit_0x1021 simp_thms)
qed

lemma crc16_unbit_bit: "crc16_unbit (crc16_bit c) = c"
proof (rule bit_word_eqI)
  fix n assume "n < LENGTH(16)"
  then have n: "n < 16" by simp
  let ?y = "crc16_bit c"
  have lsb: "bit ?y 0 \<longleftrightarrow> bit c 15" by (simp add: bit_crc16_bit)
  have len: "\<not> bit (y :: u16) (1 + 15)" for y by (auto dest: bit_imp_le_length)
  have b8000: "bit (0x8000 :: u16) n \<longleftrightarrow> n = 15"
    using n bit_exp_iff [of 15 n, where 'a = u16] by simp
  have odd: "bit (drop_bit 1 (?y XOR 0x1021) OR 0x8000) n \<longleftrightarrow> bit ?y (1 + n) \<noteq> bit (0x1021 :: u16) (1 + n) \<or> n = 15"
    unfolding bit_or_iff bit_drop_bit_eq bit_xor_iff o_def b8000 ..
  have even: "bit (drop_bit 1 ?y) n \<longleftrightarrow> bit ?y (1 + n)"
    unfolding bit_drop_bit_eq o_def ..
  show "bit (crc16_unbit ?y) n \<longleftrightarrow> bit c n"
  proof (cases "n = 15")
    case True
    then show ?thesis
      unfolding crc16_unbit_def and_1 lsb using len [of ?y] odd even by (cases "bit c 15") simp_all
  next
    case False
    then have "bit ?y (1 + n) \<longleftrightarrow> bit c n \<noteq> (bit c 15 \<and> bit (0x1021 :: u16) (1 + n))"
      using bit_crc16_bit [of "1 + n" c] n unfolding bit_0x1021 by auto
    with False odd even show ?thesis
      unfolding crc16_unbit_def and_1 lsb by (cases "bit c 15") (simp_all only: if_True if_False, blast+)
  qed
qed

lemma inj_crc16_bit: "inj crc16_bit"
  by (metis crc16_unbit_bit injI)

lemma inj_crc16_step: "inj (crc16_bit ^^ 8)"
  by (rule inj_fn [OF inj_crc16_bit])

lemma xor_cancel_right: "(a :: u16) XOR b = c XOR b \<longleftrightarrow> a = c"
  by (metis xor.assoc xor_self_eq xor.right_neutral)

lemma crc16_byte_inj_state: "crc16_byte c b = crc16_byte d b \<longleftrightarrow> c = d"
  by (simp add: crc16_byte_def inj_eq [OF inj_crc16_step] xor_cancel_right)

lemma push_bit_8_inj: "push_bit 8 (ucast (a :: u8) :: u16) = push_bit 8 (ucast b) \<longleftrightarrow> a = b"
proof
  assume eq: "push_bit 8 (ucast a :: u16) = push_bit 8 (ucast b)"
  show "a = b"
  proof (rule bit_word_eqI)
    fix n assume n: "n < LENGTH(8)"
    have "bit (push_bit 8 (ucast x :: u16)) (8 + n) \<longleftrightarrow> bit x n" for x :: u8
      using n unfolding bit_push_bit_iff bit_ucast_iff by auto
    with eq show "bit a n \<longleftrightarrow> bit b n" by metis
  qed
qed simp

lemma crc16_byte_inj_byte: "crc16_byte c a = crc16_byte c b \<longleftrightarrow> a = b"
  by (simp only: crc16_byte_def inj_eq [OF inj_crc16_step] xor.commute [of c] xor_cancel_right push_bit_8_inj)

lemma crc16_fold_inj: "foldl crc16_byte c xs = foldl crc16_byte d xs \<longleftrightarrow> c = d"
  by (induction xs arbitrary: c d) (simp_all add: crc16_byte_inj_state)

lemma crc16_one_byte:
  "crc16_ccitt (xs @ a # ys) = crc16_ccitt (xs @ b # ys) \<longleftrightarrow> a = b"
  by (simp add: crc16_ccitt_def crc16_fold_inj crc16_byte_inj_byte)

text \<open>The published check values of the two polynomials, on the digits 1 to 9.\<close>

lemma funpow_8: "(f ^^ 8) x = f (f (f (f (f (f (f (f x)))))))"
  by (simp add: numeral_eq_Suc)

lemma replicate_num: "replicate (numeral k) x = x # replicate (pred_numeral k) x"
  by (simp add: numeral_eq_Suc)

lemmas crc_eval = crc16_ccitt_def crc16_byte_def crc16_bit_def crc32_def crc32_byte_def crc32_bit_def funpow_8

lemma crc_check_values:
  "crc16_ccitt [0x31, 0x32, 0x33, 0x34, 0x35, 0x36, 0x37, 0x38, 0x39] = 0x29B1"
  "crc32 [0x31, 0x32, 0x33, 0x34, 0x35, 0x36, 0x37, 0x38, 0x39] = 0xCBF43926"
  by (simp_all add: crc_eval)

end
