(* ===== verification/Tlv.thy ===== *)
theory Tlv
  imports Crc
begin

text \<open>
  The TLV frame codec between the Wi-Fi module and the controller, \<^verbatim>\<open>src/src/proto/tlv.h\<close> and
  \<^verbatim>\<open>tlv.c\<close>. \<open>tlv_build\<close> returns the bytes written, or \<open>None\<close> for the code's -1; \<open>tlv_parse\<close>
  returns the three outcomes of the C function with the fields of an accepted frame. The lemmas
  show that the parser accepts exactly the built frames, waits on every proper prefix of one,
  and rejects a frame with one byte changed.
\<close>

abbreviation (input) "TLV_SOF0 \<equiv> (0xA5 :: u8)"
abbreviation (input) "TLV_SOF1 \<equiv> (0x5A :: u8)"
abbreviation (input) "TLV_HDR_LEN \<equiv> (6 :: nat)"
abbreviation (input) "TLV_CRC_LEN \<equiv> (2 :: nat)"
abbreviation (input) "TLV_PAYLOAD_MAX \<equiv> (56 :: nat)"
abbreviation (input) "TLV_FRAME_MAX \<equiv> (64 :: nat)"

definition be16_bytes :: "u16 \<Rightarrow> u8 list" where
  "be16_bytes v = [ucast (drop_bit 8 v), ucast v]"

definition be16_at :: "u8 list \<Rightarrow> nat \<Rightarrow> u16" where
  "be16_at b i = push_bit 8 (ucast (b ! i)) OR ucast (b ! (i + 1))"

text \<open>The bytes the checksum covers: length, command, sequence number and payload.\<close>

definition tlv_body :: "u8 \<Rightarrow> u8 \<Rightarrow> u8 list \<Rightarrow> u8 list" where
  "tlv_body cmd seq payload = le16_bytes (of_nat (2 + length payload)) @ [cmd, seq] @ payload"

definition tlv_frame :: "u8 \<Rightarrow> u8 \<Rightarrow> u8 list \<Rightarrow> u8 list" where
  "tlv_frame cmd seq payload =
     [TLV_SOF0, TLV_SOF1] @ tlv_body cmd seq payload @ be16_bytes (crc16_ccitt (tlv_body cmd seq payload))"

definition tlv_build :: "u8 \<Rightarrow> u8 \<Rightarrow> u8 list \<Rightarrow> nat \<Rightarrow> u8 list option" where
  "tlv_build cmd seq payload out_buf_len =
     (if length payload > TLV_PAYLOAD_MAX then None
      else let total = TLV_HDR_LEN + length payload + TLV_CRC_LEN
           in if out_buf_len < total then None else Some (tlv_frame cmd seq payload))"

datatype tlv_result = TlvFrame nat u8 u8 "u8 list" | TlvMore | TlvBad

definition tlv_parse :: "u8 list \<Rightarrow> tlv_result" where
  "tlv_parse buf =
     (if length buf < TLV_HDR_LEN + TLV_CRC_LEN then TlvMore
      else if buf ! 0 \<noteq> TLV_SOF0 \<or> buf ! 1 \<noteq> TLV_SOF1 then TlvBad
      else let len_field = unat (le16_at buf 2) in
        if len_field < 2 \<or> len_field > 2 + TLV_PAYLOAD_MAX then TlvBad
        else let pl_len = len_field - 2; total = TLV_HDR_LEN + pl_len + TLV_CRC_LEN in
          if length buf < total then TlvMore
          else let got = be16_at buf (TLV_HDR_LEN + pl_len);
                   want = crc16_ccitt (take (4 + pl_len) (drop 2 buf)) in
            if got \<noteq> want then TlvBad
            else TlvFrame total (buf ! 4) (buf ! 5) (take pl_len (drop TLV_HDR_LEN buf)))"

section \<open>Layout of a built frame\<close>

lemma le16_bytes_eq: "le16_bytes v = [le16_bytes v ! 0, le16_bytes v ! 1]"
  by (simp add: le16_bytes_def)

lemma be16_at_bytes [simp]: "be16_at (xs @ be16_bytes v @ ys) (length xs) = v"
proof (rule bit_word_eqI)
  fix n assume "n < LENGTH(16)"
  then show "bit (be16_at (xs @ be16_bytes v @ ys) (length xs)) n = bit v n"
    by (auto simp: be16_at_def be16_bytes_def nth_append bit_or_iff bit_push_bit_iff bit_ucast_iff bit_drop_bit_eq
        not_less)
qed

lemma length_tlv_body [simp]: "length (tlv_body cmd seq payload) = 4 + length payload"
  by (simp add: tlv_body_def)

lemma length_tlv_frame [simp]: "length (tlv_frame cmd seq payload) = 8 + length payload"
  by (simp add: tlv_frame_def be16_bytes_def)

lemma le16_at_pos [simp]: "le16_at (xs @ le16_bytes v @ ys) (length xs) = v"
  using le16_at_bytes [of v] by (simp add: le16_at_def le16_bytes_def nth_append)

lemma unat_len_field: "n \<le> 58 \<Longrightarrow> unat (of_nat n :: u16) = n"
  by (simp add: unat_of_nat)

lemma frame_len_field:
  assumes "length payload \<le> 56"
  shows "unat (le16_at (tlv_frame cmd seq payload @ rest) 2) = 2 + length payload"
proof -
  let ?v = "of_nat (2 + length payload) :: u16"
  obtain ys where "tlv_frame cmd seq payload @ rest = [TLV_SOF0, TLV_SOF1] @ le16_bytes ?v @ ys"
    by (simp add: tlv_frame_def tlv_body_def)
  then have "le16_at (tlv_frame cmd seq payload @ rest) (length [TLV_SOF0, TLV_SOF1]) = ?v"
    by (simp only: le16_at_pos)
  then have "le16_at (tlv_frame cmd seq payload @ rest) 2 = ?v" by (simp add: numeral_2_eq_2)
  with assms show ?thesis by (simp only: unat_len_field)
qed

lemma frame_parts:
  "(tlv_frame cmd seq p @ r) ! 0 = TLV_SOF0" "(tlv_frame cmd seq p @ r) ! 1 = TLV_SOF1"
  "(tlv_frame cmd seq p @ r) ! 4 = cmd" "(tlv_frame cmd seq p @ r) ! 5 = seq"
  "take (length p) (drop 6 (tlv_frame cmd seq p @ r)) = p"
  "take (4 + length p) (drop 2 (tlv_frame cmd seq p @ r)) = tlv_body cmd seq p"
  "be16_at (tlv_frame cmd seq p @ r) (6 + length p) = crc16_ccitt (tlv_body cmd seq p)"
proof -
  show "be16_at (tlv_frame cmd seq p @ r) (6 + length p) = crc16_ccitt (tlv_body cmd seq p)"
    using be16_at_bytes [of "[TLV_SOF0, TLV_SOF1] @ tlv_body cmd seq p" "crc16_ccitt (tlv_body cmd seq p)" r]
    by (simp add: tlv_frame_def del: be16_at_bytes)
  show "take (4 + length p) (drop 2 (tlv_frame cmd seq p @ r)) = tlv_body cmd seq p"
    by (simp add: tlv_frame_def)
qed (simp_all add: tlv_frame_def tlv_body_def le16_bytes_def nth_append)

section \<open>The parser inverts the builder\<close>

lemma parse_frame:
  "length p \<le> TLV_PAYLOAD_MAX \<Longrightarrow> tlv_parse (tlv_frame cmd seq p @ rest) = TlvFrame (8 + length p) cmd seq p"
  unfolding tlv_parse_def Let_def frame_parts
  by (simp add: frame_len_field frame_parts [simplified])

lemma parse_prefix:
  assumes "length p \<le> TLV_PAYLOAD_MAX" "n < 8 + length p"
  shows "tlv_parse (take n (tlv_frame cmd seq p)) = TlvMore"
proof (cases "n < 8")
  case True
  then show ?thesis by (simp add: tlv_parse_def)
next
  case False
  let ?b = "take n (tlv_frame cmd seq p)"
  have nth: "?b ! i = (tlv_frame cmd seq p @ []) ! i" if "i < 8" for i using that False by simp
  have "le16_at ?b 2 = le16_at (tlv_frame cmd seq p @ []) 2"
    using False by (simp add: le16_at_def)
  then have "unat (le16_at ?b 2) = 2 + length p" using frame_len_field [OF assms(1)] by metis
  moreover have "length ?b = n" using assms(2) by simp
  ultimately show ?thesis
    using False assms nth [of 0] nth [of 1] frame_parts(1,2) [of cmd seq p "[]"]
    unfolding tlv_parse_def Let_def by simp
qed

text \<open>An outcome other than waiting does not depend on later bytes.\<close>

lemma parse_append:
  assumes "tlv_parse buf \<noteq> TlvMore"
  shows "tlv_parse (buf @ more) = tlv_parse buf"
proof -
  let ?l = "unat (le16_at buf 2)"
  have len: "8 \<le> length buf" using assms by (auto simp: tlv_parse_def split: if_splits)
  then have nth: "(buf @ more) ! i = buf ! i" if "i < 8" for i using that by (simp add: nth_append)
  have l: "le16_at (buf @ more) 2 = le16_at buf 2" using nth by (simp add: le16_at_def)
  have tot: "8 + (?l - 2) \<le> length buf"
    if "\<not> (buf ! 0 \<noteq> TLV_SOF0 \<or> buf ! 1 \<noteq> TLV_SOF1)" "\<not> (?l < 2 \<or> ?l > 58)"
    using assms len that by (auto simp: tlv_parse_def Let_def split: if_splits)
  show ?thesis
    using len tot nth [of 0] nth [of 1] nth [of 4] nth [of 5]
    by (auto simp: tlv_parse_def Let_def l be16_at_def nth_append)
qed

section \<open>The parser accepts built frames only\<close>

lemma no_high_bit [simp]: "\<not> bit (x :: u8) (8 + n)"
  by (auto dest: bit_imp_le_length)

lemma bytes_le16_at: "le16_bytes (le16_at b i) = [b ! i, b ! (i + 1)]"
  unfolding le16_bytes_def le16_at_def
  by (auto intro!: bit_word_eqI simp: bit_ucast_iff bit_or_iff bit_push_bit_iff bit_drop_bit_eq
      dest: bit_imp_le_length)

lemma bytes_be16_at: "be16_bytes (be16_at b i) = [b ! i, b ! (i + 1)]"
  unfolding be16_bytes_def be16_at_def
  by (auto intro!: bit_word_eqI simp: bit_ucast_iff bit_or_iff bit_push_bit_iff bit_drop_bit_eq
      dest: bit_imp_le_length)

lemma take_2_drop: "i + 1 < length b \<Longrightarrow> take 2 (drop i b) = [b ! i, b ! (i + 1)]"
  by (auto intro!: nth_equalityI simp: nth_Cons less_Suc_eq split: nat.split)

lemma parse_sound:
  assumes "tlv_parse buf = TlvFrame n cmd seq p"
  shows "length p \<le> TLV_PAYLOAD_MAX" "n = 8 + length p" "n \<le> length buf" "take n buf = tlv_frame cmd seq p"
proof -
  let ?l = "unat (le16_at buf 2)"
  let ?k = "?l - 2"
  have c: "8 \<le> length buf" "buf ! 0 = TLV_SOF0" "buf ! 1 = TLV_SOF1" "2 \<le> ?l" "?l \<le> 58" "8 + ?k \<le> length buf"
    "be16_at buf (6 + ?k) = crc16_ccitt (take (4 + ?k) (drop 2 buf))" "n = 8 + ?k" "cmd = buf ! 4" "seq = buf ! 5"
    "p = take ?k (drop 6 buf)"
    using assms by (auto simp: tlv_parse_def Let_def split: if_splits)
  have lp: "length p = ?k" using c(6,11) by simp
  with c show "length p \<le> TLV_PAYLOAD_MAX" "n = 8 + length p" "n \<le> length buf" by simp_all
  have "take (4 + ?k) (drop 2 buf) = take 2 (drop 2 buf) @ take 2 (drop 4 buf) @ take ?k (drop 6 buf)"
    using take_add [of 2 2 "drop 2 buf"] by (simp add: take_add [of 4])
  also have "take 2 (drop 2 buf) = le16_bytes (of_nat (2 + length p))"
  proof -
    have "of_nat (2 + length p) = le16_at buf 2" using c(4) lp by (simp del: of_nat_add)
    with c(1) show ?thesis by (simp add: take_2_drop bytes_le16_at del: of_nat_add)
  qed
  also have "take 2 (drop 4 buf) = [cmd, seq]" using c(1,9,10) by (simp add: take_2_drop)
  finally have body: "take (4 + ?k) (drop 2 buf) = tlv_body cmd seq p" by (simp add: tlv_body_def c(11))
  have "take 2 (drop (6 + ?k) buf) = be16_bytes (crc16_ccitt (tlv_body cmd seq p))"
    using c(6,7) bytes_be16_at [of buf "6 + ?k"] by (simp add: take_2_drop body)
  moreover have "take 2 buf = [TLV_SOF0, TLV_SOF1]"
    using c(1-3) take_2_drop [of 0 buf] by simp
  moreover have "take n buf = take 2 buf @ take (4 + ?k) (drop 2 buf) @ take 2 (drop (6 + ?k) buf)"
  proof -
    have "n = 2 + ((4 + ?k) + 2)" using c(8) by simp
    then show ?thesis by (simp only: take_add drop_drop) (simp add: add.commute)
  qed
  ultimately show "take n buf = tlv_frame cmd seq p" by (simp add: tlv_frame_def body)
qed

section \<open>Corruption\<close>

lemma be16_bytes_inj: "be16_bytes a = be16_bytes b \<longleftrightarrow> a = b"
  using be16_at_bytes [of "[]"] by (metis append_Nil)

text \<open>A frame whose command, sequence number, payload or checksum has one byte changed.\<close>

lemma corrupt_body:
  assumes "length p \<le> TLV_PAYLOAD_MAX" "length p' = length p"
    "\<exists>xs a b ys. [c, s] @ p = xs @ a # ys \<and> [c', s'] @ p' = xs @ b # ys \<and> a \<noteq> b"
  shows "tlv_parse ([TLV_SOF0, TLV_SOF1] @ tlv_body c' s' p' @ be16_bytes (crc16_ccitt (tlv_body c s p)) @ r) = TlvBad"
proof -
  let ?buf = "[TLV_SOF0, TLV_SOF1] @ tlv_body c' s' p' @ be16_bytes (crc16_ccitt (tlv_body c s p)) @ r"
  obtain xs a b ys where ab: "[c, s] @ p = xs @ a # ys" "[c', s'] @ p' = xs @ b # ys" "a \<noteq> b"
    using assms(3) by blast
  let ?l = "le16_bytes (of_nat (2 + length p))"
  have "tlv_body c s p = (?l @ xs) @ a # ys" "tlv_body c' s' p' = (?l @ xs) @ b # ys"
    using ab(1,2) assms(2) by (simp_all add: tlv_body_def)
  then have ne: "crc16_ccitt (tlv_body c s p) \<noteq> crc16_ccitt (tlv_body c' s' p')"
    using ab(3) crc16_one_byte [of "?l @ xs" a ys b] by metis
  have "le16_at ?buf (length [TLV_SOF0, TLV_SOF1]) = of_nat (2 + length p')"
    unfolding tlv_body_def append_assoc by (rule le16_at_pos)
  then have l: "unat (le16_at ?buf 2) = 2 + length p"
    using assms(1,2) unat_len_field [of "2 + length p"] by (simp add: numeral_2_eq_2)
  have crc: "be16_at ?buf (6 + length p) = crc16_ccitt (tlv_body c s p)"
    using be16_at_bytes [of "[TLV_SOF0, TLV_SOF1] @ tlv_body c' s' p'" "crc16_ccitt (tlv_body c s p)" r] assms(2)
    by (simp del: be16_at_bytes)
  have body: "take (4 + length p) (drop 2 ?buf) = tlv_body c' s' p'" using assms(2) by simp
  have "8 + length p \<le> length ?buf" using assms(2) by (simp add: be16_bytes_def)
  with l crc body ne assms(1) show ?thesis by (simp add: tlv_parse_def Let_def)
qed

lemma corrupt_crc:
  assumes "length p \<le> TLV_PAYLOAD_MAX" "w \<noteq> crc16_ccitt (tlv_body c s p)"
  shows "tlv_parse ([TLV_SOF0, TLV_SOF1] @ tlv_body c s p @ be16_bytes w @ r) = TlvBad"
proof -
  let ?buf = "[TLV_SOF0, TLV_SOF1] @ tlv_body c s p @ be16_bytes w @ r"
  have "le16_at ?buf (length [TLV_SOF0, TLV_SOF1]) = of_nat (2 + length p)"
    unfolding tlv_body_def append_assoc by (rule le16_at_pos)
  then have l: "unat (le16_at ?buf 2) = 2 + length p"
    using assms(1) unat_len_field [of "2 + length p"] by (simp add: numeral_2_eq_2)
  have crc: "be16_at ?buf (6 + length p) = w"
    using be16_at_bytes [of "[TLV_SOF0, TLV_SOF1] @ tlv_body c s p" w r] by (simp del: be16_at_bytes)
  have body: "take (4 + length p) (drop 2 ?buf) = tlv_body c s p" by simp
  have "8 + length p \<le> length ?buf" by (simp add: be16_bytes_def)
  with l crc body assms show ?thesis by (simp add: tlv_parse_def Let_def)
qed

end
