(* ===== verification/Ring.thy ===== *)
theory Ring
  imports Prelude
begin

text \<open>
  The lockless receive ring that two serial drivers of the firmware share as a pattern: an interrupt
  pushes at the head and drops the byte when the ring is full, a task pops at the tail, and both
  indices are masked. \<open>byte_fifo\<close> is the contract a reader relies on; \<open>ring_geometry\<close> is a ring whose
  mask takes an index modulo its size, and the sublocale shows that it provides the contract for
  one byte less than the size.
\<close>

record rx_ring =
  s_rx_ring :: "u8 list"
  s_rx_head :: u16
  s_rx_tail :: u16

definition ring_push :: "u16 \<Rightarrow> u8 \<Rightarrow> rx_ring \<Rightarrow> rx_ring" where
  "ring_push msk c r =
     (let h = s_rx_head r; nxt = (h + 1) AND msk
      in if nxt \<noteq> s_rx_tail r
         then r\<lparr>s_rx_ring := (s_rx_ring r)[unat (h AND msk) := c], s_rx_head := nxt\<rparr>
         else r)"

fun ring_pull :: "u16 \<Rightarrow> nat \<Rightarrow> rx_ring \<Rightarrow> u8 list \<times> rx_ring" where
  "ring_pull msk 0 r = ([], r)"
| "ring_pull msk (Suc cap) r =
     (if s_rx_head r = s_rx_tail r then ([], r)
      else let b = s_rx_ring r ! unat (s_rx_tail r AND msk);
               (bs, r') = ring_pull msk cap (r\<lparr>s_rx_tail := (s_rx_tail r + 1) AND msk\<rparr>)
           in (b # bs, r'))"

section \<open>The contract of a byte queue\<close>

locale byte_fifo =
  fixes put :: "u8 \<Rightarrow> 's \<Rightarrow> 's"
    and get :: "nat \<Rightarrow> 's \<Rightarrow> u8 list \<times> 's"
    and contents :: "'s \<Rightarrow> u8 list"
    and ok :: "'s \<Rightarrow> bool"
    and limit :: nat
  assumes put_ok: "ok s \<Longrightarrow> ok (put c s)"
    and put_room: "ok s \<Longrightarrow> length (contents s) < limit \<Longrightarrow> contents (put c s) = contents s @ [c]"
    and put_full: "ok s \<Longrightarrow> \<not> length (contents s) < limit \<Longrightarrow> contents (put c s) = contents s"
    and get_ok: "ok s \<Longrightarrow> ok (snd (get n s))"
    and get_taken: "ok s \<Longrightarrow> fst (get n s) = take n (contents s)"
    and get_left: "ok s \<Longrightarrow> contents (snd (get n s)) = drop n (contents s)"
begin

lemma get_split: "ok s \<Longrightarrow> fst (get n s) @ contents (snd (get n s)) = contents s"
  by (simp add: get_taken get_left)

lemma get_empty_iff: "ok s \<Longrightarrow> fst (get (Suc n) s) = [] \<longleftrightarrow> contents s = []"
  by (simp add: get_taken)

lemma put_cases: "ok s \<Longrightarrow> contents (put c s) = contents s @ (if length (contents s) < limit then [c] else [])"
  by (simp add: put_room put_full)

lemma put_bound: "ok s \<Longrightarrow> length (contents s) \<le> limit \<Longrightarrow> length (contents (put c s)) \<le> limit"
  by (simp add: put_cases)

end

section \<open>A masked ring is a queue\<close>

definition used_in :: "nat \<Rightarrow> rx_ring \<Rightarrow> nat" where
  "used_in N r = (unat (s_rx_head r) + N - unat (s_rx_tail r)) mod N"

definition contents_in :: "nat \<Rightarrow> rx_ring \<Rightarrow> u8 list" where
  "contents_in N r = map (\<lambda>i. s_rx_ring r ! ((unat (s_rx_tail r) + i) mod N)) [0 ..< used_in N r]"

definition ok_in :: "nat \<Rightarrow> rx_ring \<Rightarrow> bool" where
  "ok_in N r \<longleftrightarrow> length (s_rx_ring r) = N \<and> unat (s_rx_head r) < N \<and> unat (s_rx_tail r) < N"

lemma length_contents_in [simp]: "length (contents_in N r) = used_in N r"
  by (simp add: contents_in_def)

locale ring_geometry =
  fixes msk :: u16 and N :: nat
  assumes and_mask: "unat (w AND msk) = unat w mod N"
    and size: "2 \<le> N" "N \<le> 32768"
begin

lemma unat_next: "unat (w :: u16) < N \<Longrightarrow> unat ((w + 1) AND msk) = (unat w + 1) mod N"
  using size by (simp add: and_mask unat_word_ariths)

lemma next_wrap: "t < N \<Longrightarrow> (t + 1) mod N = (if t + 1 = N then 0 else t + 1)" for t :: nat
  by auto

lemma wrap: "t < N \<Longrightarrow> i \<le> N \<Longrightarrow> (t + i) mod N = (if t + i < N then t + i else t + i - N)" for t :: nat
  using mod_if [of "t + i" N] by (simp add: mod_less)

lemma used_cases: "ok_in N r \<Longrightarrow> used_in N r =
    (if unat (s_rx_tail r) \<le> unat (s_rx_head r) then unat (s_rx_head r) - unat (s_rx_tail r)
     else unat (s_rx_head r) + N - unat (s_rx_tail r))"
  using mod_if [of "unat (s_rx_head r) + N - unat (s_rx_tail r)" N] unfolding ok_in_def used_in_def
  by (auto simp: mod_less)

lemma used_bound: "used_in N r \<le> N - 1"
proof -
  have "used_in N r < N" using size by (simp add: used_in_def)
  then show ?thesis by simp
qed

lemma next_full:
  assumes "ok_in N r"
  shows "(s_rx_head r + 1) AND msk \<noteq> s_rx_tail r \<longleftrightarrow> used_in N r < N - 1"
proof -
  have h: "unat (s_rx_head r) < N" and t: "unat (s_rx_tail r) < N" using assms by (simp_all add: ok_in_def)
  have "(s_rx_head r + 1) AND msk = s_rx_tail r \<longleftrightarrow> (unat (s_rx_head r) + 1) mod N = unat (s_rx_tail r)"
    using unat_next [OF h] word_unat_eq_iff by metis
  also have "\<dots> \<longleftrightarrow> \<not> used_in N r < N - 1"
    using h t unfolding used_cases [OF assms] next_wrap [OF h] by auto
  finally show ?thesis by blast
qed

lemma push_ok: "ok_in N r \<Longrightarrow> ok_in N (ring_push msk c r)"
  using size by (simp add: ring_push_def Let_def ok_in_def and_mask)

lemma push_room:
  assumes ok: "ok_in N r" and room: "used_in N r < N - 1"
  shows "contents_in N (ring_push msk c r) = contents_in N r @ [c]"
proof -
  let ?h = "unat (s_rx_head r)" and ?t = "unat (s_rx_tail r)" and ?u = "used_in N r"
  let ?r' = "ring_push msk c r"
  have h: "?h < N" and t: "?t < N" and len: "length (s_rx_ring r) = N"
    using ok by (simp_all add: ok_in_def)
  have r': "?r' = r\<lparr>s_rx_ring := (s_rx_ring r)[?h := c], s_rx_head := (s_rx_head r + 1) AND msk\<rparr>"
    using next_full [OF ok] room h by (simp add: ring_push_def Let_def and_mask)
  note u = used_cases [OF ok]
  have h': "unat (s_rx_head ?r') = (if ?h + 1 = N then 0 else ?h + 1)" and t': "s_rx_tail ?r' = s_rx_tail r"
    using unat_next [OF h] next_wrap [OF h] unfolding r' by simp_all
  have used: "used_in N ?r' = Suc ?u"
    using room h t unfolding used_cases [OF push_ok [OF ok]] u h' t' by (simp split: if_splits; arith)
  have at_h: "(?t + ?u) mod N = ?h"
    using h t wrap [OF t, of ?u] used_bound [of r] u by (simp split: if_splits)
  have ne: "(?t + i) mod N \<noteq> ?h" if "i < ?u" for i
  proof -
    have "i \<le> N" using that used_bound [of r] by linarith
    from wrap [OF t this] show ?thesis using that h t u by (auto split: if_splits)
  qed
  have old: "(s_rx_ring r)[?h := c] ! ((?t + i) mod N) = s_rx_ring r ! ((?t + i) mod N)" if "i < ?u" for i
    using ne [OF that] by simp
  have fresh: "(s_rx_ring r)[?h := c] ! ((?t + ?u) mod N) = c" using at_h len h by simp
  have "contents_in N ?r' = map (\<lambda>i. (s_rx_ring r)[?h := c] ! ((?t + i) mod N)) [0 ..< Suc ?u]"
    unfolding contents_in_def used by (simp add: r')
  also have "\<dots> = contents_in N r @ [c]" using old fresh by (simp add: contents_in_def)
  finally show ?thesis .
qed

lemma push_full: "ok_in N r \<Longrightarrow> \<not> used_in N r < N - 1 \<Longrightarrow> ring_push msk c r = r"
  using next_full [of r] by (simp add: ring_push_def Let_def)

lemma used_none: "ok_in N r \<Longrightarrow> used_in N r = 0 \<longleftrightarrow> s_rx_head r = s_rx_tail r"
  using used_cases [of r] by (auto simp: ok_in_def word_unat_eq_iff)

lemma pull_one:
  assumes ok: "ok_in N r" and ne: "s_rx_head r \<noteq> s_rx_tail r"
  defines "r' \<equiv> r\<lparr>s_rx_tail := (s_rx_tail r + 1) AND msk\<rparr>"
  shows "ok_in N r'" "contents_in N r = s_rx_ring r ! unat (s_rx_tail r AND msk) # contents_in N r'"
proof -
  let ?t = "unat (s_rx_tail r)"
  have t: "?t < N" and h: "unat (s_rx_head r) < N" using ok by (simp_all add: ok_in_def)
  have t': "unat (s_rx_tail r') = (?t + 1) mod N" using unat_next [OF t] by (simp add: r'_def)
  show ok': "ok_in N r'" using ok t' size by (simp add: ok_in_def r'_def)
  have ne': "unat (s_rx_head r) \<noteq> ?t" using ne by (simp add: word_unat_eq_iff)
  have h': "s_rx_head r' = s_rx_head r" by (simp add: r'_def)
  have used: "used_in N r = Suc (used_in N r')"
    unfolding used_cases [OF ok] used_cases [OF ok'] t' h' next_wrap [OF t]
    using t h ne' by (simp; arith)
  have idx: "(?t + Suc i) mod N = (unat (s_rx_tail r') + i) mod N" for i
    unfolding t' by (simp add: mod_add_left_eq)
  have "contents_in N r = map (\<lambda>i. s_rx_ring r ! ((?t + i) mod N)) (0 # map Suc [0 ..< used_in N r'])"
    unfolding contents_in_def used by (simp add: upt_conv_Cons map_Suc_upt del: upt_Suc)
  then show "contents_in N r = s_rx_ring r ! unat (s_rx_tail r AND msk) # contents_in N r'"
    using t idx by (simp add: contents_in_def and_mask comp_def) (simp add: r'_def)
qed

lemma pull_spec:
  "ok_in N r \<Longrightarrow> ok_in N (snd (ring_pull msk n r)) \<and> fst (ring_pull msk n r) = take n (contents_in N r) \<and>
    contents_in N (snd (ring_pull msk n r)) = drop n (contents_in N r)"
proof (induction n arbitrary: r)
  case (Suc n)
  show ?case
  proof (cases "s_rx_head r = s_rx_tail r")
    case True
    with Suc.prems used_none show ?thesis by (simp add: contents_in_def)
  next
    case False
    note one = pull_one [OF Suc.prems False]
    from Suc.IH [OF one(1)] one(2) False show ?thesis by (simp add: case_prod_unfold Let_def)
  qed
qed simp

end

sublocale ring_geometry \<subseteq> queue: byte_fifo "ring_push msk" "ring_pull msk" "contents_in N" "ok_in N" "N - 1"
  by unfold_locales (auto simp: push_ok push_room push_full pull_spec)

text \<open>A mask of ones below bit \<open>k\<close> is a geometry.\<close>

lemma mask_mod: "unat ((w :: u16) AND mask k) = unat w mod 2 ^ k"
proof -
  have "unat (take_bit k w) = take_bit k (unat w)" by (rule unsigned_take_bit_eq)
  then show ?thesis by (simp only: take_bit_eq_mask [symmetric]) (simp only: take_bit_eq_mod)
qed

end
