(* ===== verification/Rx_Ring.thy ===== *)
theory Rx_Ring
  imports Ring
begin

text \<open>
  The receive ring between the UART interrupt and the communications task,
  \<^verbatim>\<open>src/src/hal/gd32f205/uart5.c\<close>. The status flags of the interrupt are its arguments; the peripheral
  set-up and the blocking transmit are not modelled. It is a \<open>ring_geometry\<close> of 256 bytes, so a queue
  of at most 255.
\<close>

abbreviation (input) "UART5_RX_RING_LEN \<equiv> (256 :: nat)"
abbreviation (input) "UART5_RX_RING_MASK \<equiv> (255 :: u16)"

definition rx_ring_reset :: rx_ring where
  "rx_ring_reset = \<lparr>s_rx_ring = replicate UART5_RX_RING_LEN 0, s_rx_head = 0, s_rx_tail = 0\<rparr>"

definition UART4_IRQHandler :: "bool \<Rightarrow> bool \<Rightarrow> u8 \<Rightarrow> rx_ring \<Rightarrow> rx_ring" where
  "UART4_IRQHandler rbne errs c r =
     (if rbne \<and> \<not> errs
      then let h = s_rx_head r; nxt = (h + 1) AND UART5_RX_RING_MASK in
        if nxt \<noteq> s_rx_tail r
        then r\<lparr>s_rx_ring := (s_rx_ring r)[unat (h AND UART5_RX_RING_MASK) := c], s_rx_head := nxt\<rparr>
        else r
      else r)"

fun uart5_rx_pop :: "nat \<Rightarrow> rx_ring \<Rightarrow> u8 list \<times> rx_ring" where
  "uart5_rx_pop 0 r = ([], r)"
| "uart5_rx_pop (Suc cap) r =
     (if s_rx_head r = s_rx_tail r then ([], r)
      else let b = s_rx_ring r ! unat (s_rx_tail r AND UART5_RX_RING_MASK);
               (bs, r') = uart5_rx_pop cap (r\<lparr>s_rx_tail := (s_rx_tail r + 1) AND UART5_RX_RING_MASK\<rparr>)
           in (b # bs, r'))"

section \<open>The ring implements the queue\<close>

interpretation uart_ring: ring_geometry UART5_RX_RING_MASK UART5_RX_RING_LEN
  using mask_mod [of _ 8] by unfold_locales (simp_all add: mask_eq_exp_minus_1)

abbreviation ring_used :: "rx_ring \<Rightarrow> nat" where
  "ring_used \<equiv> used_in UART5_RX_RING_LEN"

abbreviation ring_contents :: "rx_ring \<Rightarrow> u8 list" where
  "ring_contents \<equiv> contents_in UART5_RX_RING_LEN"

abbreviation ring_ok :: "rx_ring \<Rightarrow> bool" where
  "ring_ok \<equiv> ok_in UART5_RX_RING_LEN"

definition rx_put :: "u8 \<Rightarrow> rx_ring \<Rightarrow> rx_ring" where
  "rx_put c r = UART4_IRQHandler True False c r"

lemma rx_put_push: "rx_put = ring_push UART5_RX_RING_MASK"
  by (intro ext) (simp add: rx_put_def UART4_IRQHandler_def ring_push_def)

lemma rx_pop_pull: "uart5_rx_pop = ring_pull UART5_RX_RING_MASK"
proof (intro ext)
  show "uart5_rx_pop n r = ring_pull UART5_RX_RING_MASK n r" for n r by (induction n arbitrary: r) simp_all
qed

interpretation rx: byte_fifo rx_put uart5_rx_pop ring_contents ring_ok 255
  using uart_ring.queue.byte_fifo_axioms by (simp add: rx_put_push rx_pop_pull)

lemma irq_error: "\<not> (rbne \<and> \<not> errs) \<Longrightarrow> UART4_IRQHandler rbne errs c r = r"
  by (auto simp: UART4_IRQHandler_def)

lemma irq_ok: "ring_ok r \<Longrightarrow> ring_ok (UART4_IRQHandler rbne errs c r)"
  using rx.put_ok [of r c] irq_error [of rbne errs c r] by (cases "rbne \<and> \<not> errs") (simp_all add: rx_put_def)

lemma irq_push: "ring_ok r \<Longrightarrow> ring_used r < 255 \<Longrightarrow> ring_contents (UART4_IRQHandler True False c r) = ring_contents r @ [c]"
  using rx.put_room [of r c] by (simp add: rx_put_def)

lemma pop_spec:
  "ring_ok r \<Longrightarrow> ring_ok (snd (uart5_rx_pop n r)) \<and> fst (uart5_rx_pop n r) = take n (ring_contents r) \<and>
    ring_contents (snd (uart5_rx_pop n r)) = drop n (ring_contents r)"
  using rx.get_ok rx.get_taken rx.get_left by blast

lemma length_ring_contents: "length (ring_contents r) = ring_used r"
  by simp

lemma ring_reset: "ring_ok rx_ring_reset" "ring_contents rx_ring_reset = []"
  by (simp_all add: rx_ring_reset_def ok_in_def contents_in_def used_in_def)

end
