(* ===== verification/Ui_Out.thy ===== *)
theory Ui_Out
  imports Prelude
begin

text \<open>
  The user-interface outputs that commands reach: the LED override of
  \<^verbatim>\<open>src/src/ui/led_patterns.c\<close> and the buzzer pattern player of \<^verbatim>\<open>src/src/ui/buzzer.c\<close>. The GPIO
  write is the returned level. The lemmas bound how long a one-shot beep sounds.
\<close>

record led_override =
  s_override_mode :: u8
  s_override_rgb :: "u8 \<times> u8 \<times> u8"

definition led_override_reset :: led_override where
  "led_override_reset = \<lparr>s_override_mode = 0, s_override_rgb = (0, 0, 0)\<rparr>"

definition led_override_set :: "u8 \<Rightarrow> u8 \<Rightarrow> u8 \<Rightarrow> u8 \<Rightarrow> led_override \<Rightarrow> led_override" where
  "led_override_set m r g b l = l\<lparr>s_override_rgb := (r, g, b), s_override_mode := m\<rparr>"

datatype buzzer_pattern =
    BUZ_OFF | BUZ_BOOT_PASS | BUZ_BOOT_FAIL | BUZ_SESSION_START | BUZ_SESSION_END
  | BUZ_FAULT_NON_GFCI | BUZ_FAULT_GFCI | BUZ_BUTTON | BUZ_ONESHOT

record buzzer =
  s_pattern :: buzzer_pattern
  s_pattern_start_ms :: u32
  s_oneshot_ms :: u16

definition buzzer_reset :: buzzer where
  "buzzer_reset = \<lparr>s_pattern = BUZ_OFF, s_pattern_start_ms = 0, s_oneshot_ms = 0\<rparr>"

definition buzzer_set_pattern :: "buzzer_pattern \<Rightarrow> buzzer \<Rightarrow> buzzer" where
  "buzzer_set_pattern p z =
     (if p = s_pattern z then z else z\<lparr>s_pattern := p, s_pattern_start_ms := 0\<rparr>)"

definition buzzer_set_oneshot :: "u16 \<Rightarrow> buzzer \<Rightarrow> buzzer" where
  "buzzer_set_oneshot ms z =
     (if ms = 0 then buzzer_set_pattern BUZ_OFF z
      else let capped = (if ms > 500 then 500 else ms)
           in z\<lparr>s_oneshot_ms := capped, s_pattern := BUZ_ONESHOT, s_pattern_start_ms := 0\<rparr>)"

text \<open>The level and whether the pattern ends, for a running pattern at time \<open>dt\<close>.\<close>

definition buzzer_level :: "buzzer_pattern \<Rightarrow> u16 \<Rightarrow> u32 \<Rightarrow> bool \<times> bool" where
  "buzzer_level p ms dt =
     (case p of
        BUZ_BOOT_PASS \<Rightarrow> (dt < 100, dt \<ge> 200)
      | BUZ_BOOT_FAIL \<Rightarrow>
          (let cyc = dt mod 2000
           in (if cyc < 100 then True else if cyc < 200 then False else if cyc < 300 then True
               else if cyc < 400 then False else if cyc < 500 then True else False, False))
      | BUZ_SESSION_START \<Rightarrow> (dt < 200, dt \<ge> 300)
      | BUZ_SESSION_END \<Rightarrow>
          (if dt < 100 then True else if dt < 200 then False else if dt < 300 then True else False, dt \<ge> 400)
      | BUZ_FAULT_NON_GFCI \<Rightarrow> ((dt div 1000) AND 1 = 0, False)
      | BUZ_FAULT_GFCI \<Rightarrow> (if dt < 5000 then True else ((dt - 5000) div 1000) AND 1 = 0, False)
      | BUZ_BUTTON \<Rightarrow> (dt < 30, dt \<ge> 50)
      | BUZ_ONESHOT \<Rightarrow> (dt < ucast ms, dt \<ge> ucast ms)
      | BUZ_OFF \<Rightarrow> (False, False))"

definition buzzer_tick :: "u32 \<Rightarrow> buzzer \<Rightarrow> bool \<times> buzzer" where
  "buzzer_tick now_ms z =
     (if s_pattern z = BUZ_OFF then (False, z)
      else
        let z1 = (if s_pattern_start_ms z = 0 then z\<lparr>s_pattern_start_ms := now_ms\<rparr> else z);
            dt = now_ms - s_pattern_start_ms z1;
            (on, done) = buzzer_level (s_pattern z1) (s_oneshot_ms z1) dt
        in (on, if done then z1\<lparr>s_pattern := BUZ_OFF\<rparr> else z1))"

fun buzzer_play :: "u32 list \<Rightarrow> buzzer \<Rightarrow> buzzer" where
  "buzzer_play [] z = z"
| "buzzer_play (t # ts) z = buzzer_play ts (snd (buzzer_tick t z))"

lemma buzzer_off_stays: "s_pattern z = BUZ_OFF \<Longrightarrow> buzzer_play ts z = z"
  by (induction ts) (simp_all add: buzzer_tick_def)

definition oneshot_ok :: "buzzer \<Rightarrow> bool" where
  "oneshot_ok z \<longleftrightarrow> s_oneshot_ms z \<le> 500"

lemma oneshot_ok_ops:
  "oneshot_ok buzzer_reset" "oneshot_ok z \<Longrightarrow> oneshot_ok (buzzer_set_pattern p z)"
  "oneshot_ok z \<Longrightarrow> oneshot_ok (buzzer_set_oneshot ms z)" "oneshot_ok z \<Longrightarrow> oneshot_ok (snd (buzzer_tick t z))"
  by (auto simp: oneshot_ok_def buzzer_reset_def buzzer_set_pattern_def buzzer_set_oneshot_def buzzer_tick_def
      Let_def case_prod_unfold)

lemma unat_ucast_u32: "unat (ucast (w :: u16) :: u32) = unat w"
  using unsigned_less [of w, where 'a = nat] by (simp add: unsigned_ucast_eq take_bit_nat_eq_self)

text \<open>A one-shot stamped at \<open>t0\<close> is silent from its length on, at most half a second later.\<close>

lemma oneshot_silent:
  assumes "oneshot_ok z" "s_pattern z = BUZ_ONESHOT" "s_pattern_start_ms z = t0" "t0 \<noteq> 0" "500 \<le> t - t0"
  shows "fst (buzzer_tick t z) = False \<and> s_pattern (snd (buzzer_tick t z)) = BUZ_OFF"
proof -
  have "ucast (s_oneshot_ms z) \<le> (500 :: u32)"
    using assms(1) by (simp add: oneshot_ok_def word_le_nat_alt unat_ucast_u32)
  with assms(5) have "ucast (s_oneshot_ms z) \<le> t - t0" by (rule order_trans [rotated])
  with assms show ?thesis by (simp add: buzzer_tick_def buzzer_level_def Let_def not_less)
qed

end
