(* ===== verification/Core_Spec.thy ===== *)
theory Core_Spec
  imports Fault J1772 Detectors Rfid_Frame Hal Records System_Time Tlv Rx_Ring Ui_Out
begin

text \<open>
  The guarantees of the pure components: the fault catalogue, the pilot classifier, the
  ground-fault and over-temperature detectors, the RFID re-framer, the metering cache, the
  pilot duty cycle, the clock, the checksums, the frame codec, the record layouts and the ring.
\<close>

section \<open>Reference models\<close>

text \<open>The fault catalogue as a set of ids.\<close>

fun fault_spec :: "nat set \<Rightarrow> fault_op \<Rightarrow> nat set" where
  "fault_spec A (Raise i) = (if FID_OK i then insert i A else A)"
| "fault_spec A (Clear i) = (if FID_OK i \<and> i \<noteq> FAULT_GFCI then A - {i} else A)"
| "fault_spec A ClearAll = A - (latched_ids - {FAULT_GFCI})"

lemma fault_apply_spec: "active_set (fault_apply s c) = fault_spec (active_set s) c"
proof (cases c)
  case (Raise i)
  then show ?thesis by (cases "FID_OK i") (auto simp: active_set_raise)
qed (simp_all add: active_set_clear active_set_clear_all)

text \<open>Over-temperature: while the detector is inactive its streak counts the trailing hot samples.\<close>

lemma hot_not_cool: "hot_sample x \<Longrightarrow> \<not> cool_sample x"
proof (cases x)
  case (fields r1 r2 m1 m2)
  have hi: "r < OT_GUARD_HI \<and> \<not> OT_CLEAR_RAW \<le> r" if "r \<le> OT_TRIP_RAW" for r :: u16
    using that by (auto simp: word_le_nat_alt word_less_nat_alt)
  show "hot_sample x \<Longrightarrow> \<not> cool_sample x"
    unfolding fields by (auto simp: over_temp_populated_def dest: hi)
qed

lemma ot_run_inv:
  "ot_trip_streak (fst (ot_run ot_ctx_init xs)) \<le> 5 \<and>
   (\<not> ot_fault_active (fst (ot_run ot_ctx_init xs)) \<longrightarrow>
      ot_trip_streak (fst (ot_run ot_ctx_init xs)) = trailing hot_sample xs \<and> trailing hot_sample xs < 5)"
proof (induction xs rule: rev_induct)
  case Nil
  then show ?case by (simp add: ot_ctx_init_def)
next
  case (snoc x xs)
  obtain r1 r2 m1 m2 where x: "x = (r1, r2, m1, m2)" by (cases x)
  let ?c = "fst (ot_run ot_ctx_init xs)"
  have run: "fst (ot_run ot_ctx_init (xs @ [x])) = fst (over_temp_step ?c r1 r2 m1 m2)"
    by (simp add: ot_run_snoc x case_prod_unfold Let_def)
  have "ot_trip_streak ?c \<le> 5" using snoc by simp
  note ctx = over_temp_step_ctx(1) [OF this, of r1 r2 m1 m2]
    over_temp_step_ctx(2) [of ?c r1 r2 m1 m2] over_temp_step_trip [of ?c r1 r2 m1 m2]
    over_temp_step_clear [of ?c r1 r2 m1 m2]
  show ?case
  proof (cases "hot_sample (r1, r2, m1, m2)")
    case True
    with snoc ctx hot_not_cool [OF True] show ?thesis unfolding run unfolding x trailing_snoc
      by (auto simp: min_def simp del: hot_sample.simps cool_sample.simps)
  next
    case False
    with snoc ctx show ?thesis unfolding run unfolding x trailing_snoc
      by (auto simp del: hot_sample.simps cool_sample.simps)
  qed
qed

lemma trailing_replicate: "P x \<Longrightarrow> trailing P (replicate n x) = n"
  by (simp add: trailing_def takeWhile_replicate)

lemma gfci_raise_prefix:
  "GFCI_ACT_RAISE_FAULT \<in> set (snd (gfci_run gfci_ctx_init xs)) \<longleftrightarrow>
    (\<exists>k < length xs. 3 \<le> trailing fst (take (Suc k) xs) \<and> snd (xs ! k) \<noteq> GFCI_POL_WARN)"
proof (induction xs rule: rev_induct)
  case (snoc x xs)
  obtain c as where r: "gfci_run gfci_ctx_init xs = (c, as)" by force
  obtain c' a where st: "gfci_policy_step c (fst x) (snd x) = (c', a)" by force
  have c: "trip_streak c = min 3 (trailing fst xs)" "gfci_fault_latched c \<longleftrightarrow> GFCI_ACT_RAISE_FAULT \<in> set as"
    using gfci_run_state [of xs] by (simp_all add: r)
  have a: "a = GFCI_ACT_RAISE_FAULT \<longleftrightarrow> fst x \<and> 2 \<le> trip_streak c \<and> snd x \<noteq> GFCI_POL_WARN \<and> \<not> gfci_fault_latched c"
    using gfci_step_cases(1) [of c "fst x" "snd x"] by (simp add: st)
  have last: "3 \<le> trailing fst (xs @ [x]) \<longleftrightarrow> fst x \<and> 2 \<le> trip_streak c"
    using c(1) by (auto simp: trailing_snoc)
  have "GFCI_ACT_RAISE_FAULT \<in> set (snd (gfci_run gfci_ctx_init (xs @ [x]))) \<longleftrightarrow>
      GFCI_ACT_RAISE_FAULT \<in> set as \<or> (3 \<le> trailing fst (xs @ [x]) \<and> snd x \<noteq> GFCI_POL_WARN)"
    using a c(2) last by (auto simp: gfci_run_snoc r st)
  moreover have "(\<exists>k < length (xs @ [x]). 3 \<le> trailing fst (take (Suc k) (xs @ [x])) \<and> snd ((xs @ [x]) ! k) \<noteq> GFCI_POL_WARN) \<longleftrightarrow>
      (\<exists>k < length xs. 3 \<le> trailing fst (take (Suc k) xs) \<and> snd (xs ! k) \<noteq> GFCI_POL_WARN) \<or>
      (3 \<le> trailing fst (xs @ [x]) \<and> snd x \<noteq> GFCI_POL_WARN)"
    by (simp add: Ex_less_Suc nth_append disj_commute cong: conj_cong)
  ultimately show ?case using snoc by (simp add: r)
qed (simp add: trailing_def)

section \<open>Guarantees\<close>

text \<open>C32: The fault bitmap is a set of fault ids: over every sequence of raises, clears and clear-alls,
  with arbitrary ids, the bits set are those of the set model, no bit outside the catalogue is
  ever set, and the first-raised id is an active fault, or none exactly when none is active.\<close>

theorem fault_refines_set:
  fixes ops :: "fault_op list"
  defines "s \<equiv> foldl fault_apply fault_init ops"
  shows "active_set s = foldl fault_spec {} ops \<and> active_set s \<subseteq> {1..<FAULT_COUNT} \<and>
    (if active_set s = {} then first_raised s = FAULT_NONE else first_raised s \<in> active_set s)"
proof -
  have "active_set s = foldl fault_spec {} ops \<and> fault_ok s \<and> first_tracks s"
    unfolding s_def
  proof (induction ops rule: rev_induct)
    case Nil
    then show ?case by (simp) (simp add: active_set_def fault_init_def)
  next
    case (snoc c ops)
    then show ?case by (simp add: fault_apply_spec fault_ok_apply first_tracks_apply)
  qed
  then show ?thesis by (auto simp: fault_ok_def first_tracks_def)
qed



text \<open>The ground-fault detector raises exactly when the line was low for three consecutive samples
  at the last of which the policy is not the WARN value (any other byte fails safe), and it raises
  at most once.\<close>

theorem gfci_raises_exactly:
  "(GFCI_ACT_RAISE_FAULT \<in> set (snd (gfci_run gfci_ctx_init xs)) \<longleftrightarrow>
     (\<exists>k < length xs. 3 \<le> trailing fst (take (Suc k) xs) \<and> snd (xs ! k) \<noteq> GFCI_POL_WARN)) \<and>
   count_list (snd (gfci_run gfci_ctx_init xs)) GFCI_ACT_RAISE_FAULT \<le> 1"
  using gfci_raise_prefix gfci_run_state by blast

text \<open>The over-temperature detector is active after five consecutive hot samples of either channel,
  trips only on a fifth one, and deactivates only on a sample that is cool on every populated
  channel.\<close>

theorem over_temp_hysteresis:
  fixes xs :: "ot_sample list" and r1 r2 :: u16
  defines "c \<equiv> fst (ot_run ot_ctx_init xs)"
  shows "(5 \<le> trailing hot_sample xs \<longrightarrow> ot_fault_active c) \<and>
    (ot_trip (snd (over_temp_step c r1 r2 m1 m2)) \<longrightarrow> \<not> ot_fault_active c \<and> 5 \<le> trailing hot_sample (xs @ [(r1, r2, m1, m2)])) \<and>
    (ot_fault_active c \<and> \<not> ot_fault_active (fst (over_temp_step c r1 r2 m1 m2)) \<longrightarrow> cool_sample (r1, r2, m1, m2))"
proof -
  note inv = ot_run_inv [of xs]
  have "ot_trip (snd (over_temp_step c r1 r2 m1 m2)) \<longrightarrow>
      \<not> ot_fault_active c \<and> 5 \<le> trailing hot_sample (xs @ [(r1, r2, m1, m2)])"
    using inv over_temp_step_trip [of c r1 r2 m1 m2] unfolding trailing_snoc by (auto simp: c_def)
  moreover have "5 \<le> trailing hot_sample xs \<longrightarrow> ot_fault_active c" using inv by (auto simp: c_def)
  moreover have "ot_fault_active c \<and> \<not> ot_fault_active (fst (over_temp_step c r1 r2 m1 m2)) \<longrightarrow> cool_sample (r1, r2, m1, m2)"
    using over_temp_step_ctx(2) [of c r1 r2 m1 m2] over_temp_step_clear [of c r1 r2 m1 m2] by auto
  ultimately show ?thesis by blast
qed

lemma over_temp_hysteresis_witness:
  "ot_fault_active (fst (ot_run ot_ctx_init (replicate 5 (350, 2000, True, True))))"
proof -
  let ?xs = "replicate 5 (350, 2000, True, True) :: ot_sample list"
  have "hot_sample (350, 2000, True, True)" by simp
  then have "5 \<le> trailing hot_sample ?xs" using trailing_replicate [of hot_sample _ 5] by simp
  with over_temp_hysteresis [of ?xs] show ?thesis by blast
qed

text \<open>One frame per feed, the RFID reader's edges are exactly the changes of what it shows: an edge
  per change of card, with the card's UID or its removal, and none for a repeated frame.\<close>

theorem rfid_edges_are_changes:
  assumes "length sts = length rs"
  shows "feed_all rfid_init_ctx (map2 reading_frame rs sts) = map reading_action (changes NoCard rs)"
  using feed_all_changes [OF assms, of NoCard] by (simp add: ctx_of_def rfid_init_ctx_def)

lemma rfid_edges_are_changes_witness:
  "feed_all rfid_init_ctx (map2 reading_frame [Card 7, Card 7, NoCard, Card 9] [0, 1, 2, 3]) =
    map reading_action [Card 7, NoCard, Card 9]"
proof -
  have "length [0, 1, 2, 3 :: u8] = length [Card 7, Card 7, NoCard, Card 9]" by simp
  from rfid_edges_are_changes [OF this] show ?thesis by simp
qed

text \<open>Whatever bytes the reader sends, in whatever chunks, the re-framer's buffer stays within its 16
  bytes and its context is well formed.\<close>

theorem rfid_buffer_bounded:
  "rfid_ok (foldl (\<lambda>c bs. fst (snd (rfid_feed c bs))) rfid_init_ctx chunks)"
proof (induction chunks rule: rev_induct)
  case Nil
  then show ?case by (simp add: rfid_ok_def rfid_init_ctx_def)
qed (simp add: rfid_feed_ok)

text \<open>The pilot duty cycle advertises a current by the J1772 rule: for 6 to 51 amps the compare value
  is within one percent of amps divided by 0.6, for 52 to 80 amps within one of amps divided by 2.5
  plus 64, and never outside 10 to 96 percent.\<close>

theorem pilot_duty:
  assumes "6 \<le> amps" "amps \<le> 80"
  shows "ccr_ch2 (cp_pwm_set_advertise_amps amps p) = 10 * duty_pct_of_amps amps \<and>
    10 \<le> duty_pct_of_amps amps \<and> duty_pct_of_amps amps \<le> 96 \<and>
    (amps \<le> 51 \<longrightarrow> 6 * duty_pct_of_amps amps \<le> 10 * amps \<and> 10 * amps < 6 * (duty_pct_of_amps amps + 1)) \<and>
    (51 < amps \<longrightarrow> 25 * (duty_pct_of_amps amps - 64) \<le> 10 * amps \<and> 10 * amps < 25 * (duty_pct_of_amps amps - 63))"
proof -
  have a: "duty_pct_of_amps amps = (amps * 10) div 6" if "amps \<le> 51" using that by (auto simp: duty_pct_of_amps_def Let_def)
  have b: "duty_pct_of_amps amps = (amps * 10) div 25 + 64" if "51 < amps"
    using that assms(2) by (auto simp: duty_pct_of_amps_def Let_def)
  show ?thesis
  proof (cases "amps \<le> 51")
    case True
    with a ccr_advertise [OF assms] duty_pct_bounds [OF assms] show ?thesis by auto
  next
    case False
    with b ccr_advertise [OF assms] duty_pct_bounds [OF assms] show ?thesis by auto
  qed
qed

lemma pilot_duty_witness: "ccr_ch2 (cp_pwm_set_advertise_amps 30 \<lparr>ccr_ch2 = 0, ccr_ch3 = 0\<rparr>) = 500"
proof -
  have "duty_pct_of_amps 30 = 50" by (simp add: duty_pct_of_amps_def)
  with pilot_duty [of 30] show ?thesis by simp
qed

text \<open>The software clock counts: after it is set, a reading \<open>d\<close> milliseconds later, across a wrap of
  the tick counter, shows the set time plus the whole seconds elapsed.\<close>

theorem clock_counts:
  assumes "u \<noteq> 0" "d < 2 ^ 32" "unat u + d div 1000 < 2 ^ 32"
  shows "unat (system_time_now (t + of_nat d) (system_time_set u t st)) = unat u + d div 1000"
  by (rule system_time_elapsed [OF assms])

lemma clock_counts_witness:
  "unat (system_time_now (0xFFFFFFFF + of_nat 5000) (system_time_set 1700000000 0xFFFFFFFF system_time_init)) = 1700000005"
  using clock_counts [of 1700000000 5000 "0xFFFFFFFF" system_time_init] by simp

text \<open>C36: The frame codec: the parser accepts exactly the frames the builder writes, whatever follows
  them, with their command, sequence number and payload.\<close>

theorem tlv_codec:
  "tlv_parse buf = TlvFrame n cmd seq p \<longleftrightarrow>
    n \<le> length buf \<and> tlv_build cmd seq p TLV_FRAME_MAX = Some (take n buf)"
proof
  assume "tlv_parse buf = TlvFrame n cmd seq p"
  from parse_sound [OF this] show "n \<le> length buf \<and> tlv_build cmd seq p TLV_FRAME_MAX = Some (take n buf)"
    by (simp add: tlv_build_def)
next
  assume b: "n \<le> length buf \<and> tlv_build cmd seq p TLV_FRAME_MAX = Some (take n buf)"
  then have p: "length p \<le> TLV_PAYLOAD_MAX" and f: "take n buf = tlv_frame cmd seq p"
    by (auto simp: tlv_build_def Let_def split: if_splits)
  from f b have "n = 8 + length p" using length_tlv_frame [of cmd seq p] by (metis length_take min.absorb2)
  moreover have "buf = tlv_frame cmd seq p @ drop n buf" using f by (metis append_take_drop_id)
  ultimately show "tlv_parse buf = TlvFrame n cmd seq p" using parse_frame [OF p] by metis
qed

text \<open>A frame that is still arriving is waited for: the parser asks for more bytes on every proper
  prefix of a built frame.\<close>

theorem tlv_prefix_waits:
  assumes "tlv_build cmd seq p TLV_FRAME_MAX = Some buf" "n < length buf"
  shows "tlv_parse (take n buf) = TlvMore"
  using assms parse_prefix [of p n cmd seq] by (auto simp: tlv_build_def Let_def split: if_splits)

lemma tlv_prefix_waits_witness: "tlv_parse (take 7 (tlv_frame 1 2 [])) = TlvMore"
  by (rule tlv_prefix_waits [of 1 2 "[]"]) (simp_all add: tlv_build_def)

text \<open>C37: A frame in which one byte of the command, sequence number or payload was changed, or its
  checksum bytes in any way, is rejected at its head, whatever follows it.\<close>

theorem tlv_detects_corruption:
  assumes "length p \<le> TLV_PAYLOAD_MAX"
    "(\<exists>xs a b ys. [c, s] @ p = xs @ a # ys \<and> [c', s'] @ p' = xs @ b # ys \<and> a \<noteq> b \<and> w = crc16_ccitt (tlv_body c s p)) \<or>
     ([c', s'] @ p' = [c, s] @ p \<and> w \<noteq> crc16_ccitt (tlv_body c s p))"
  shows "tlv_parse ([TLV_SOF0, TLV_SOF1] @ tlv_body c' s' p' @ be16_bytes w @ rest) = TlvBad"
  using assms(2)
proof
  assume "\<exists>xs a b ys. [c, s] @ p = xs @ a # ys \<and> [c', s'] @ p' = xs @ b # ys \<and> a \<noteq> b \<and> w = crc16_ccitt (tlv_body c s p)"
  then obtain xs a b ys where ab: "[c, s] @ p = xs @ a # ys" "[c', s'] @ p' = xs @ b # ys" "a \<noteq> b"
    "w = crc16_ccitt (tlv_body c s p)" by blast
  have "length ([c', s'] @ p') = length ([c, s] @ p)" by (simp only: ab) simp
  then have "length p' = length p" by simp
  with ab corrupt_body [OF assms(1)] show ?thesis by blast
next
  assume "[c', s'] @ p' = [c, s] @ p \<and> w \<noteq> crc16_ccitt (tlv_body c s p)"
  with corrupt_crc [OF assms(1)] show ?thesis by simp
qed

lemma tlv_detects_corruption_witness:
  "tlv_parse ([TLV_SOF0, TLV_SOF1] @ tlv_body 1 9 [5] @ be16_bytes (crc16_ccitt (tlv_body 1 2 [5])) @ []) = TlvBad"
proof (rule tlv_detects_corruption)
  show "length [5 :: u8] \<le> TLV_PAYLOAD_MAX" by simp
  show "(\<exists>xs a b ys. [1, 2 :: u8] @ [5] = xs @ a # ys \<and> [1, 9] @ [5] = xs @ b # ys \<and> a \<noteq> b \<and>
      crc16_ccitt (tlv_body 1 2 [5]) = crc16_ccitt (tlv_body 1 2 [5])) \<or>
    ([1, 9] @ [5] = [1, 2 :: u8] @ [5] \<and> crc16_ccitt (tlv_body 1 2 [5]) \<noteq> crc16_ccitt (tlv_body 1 2 [5]))"
    by (rule disjI1, rule exI [of _ "[1]"], rule exI [of _ 2], rule exI [of _ 9], rule exI [of _ "[5]"]) simp
qed

text \<open>The image checksum may be computed in any chunks: streaming gives the one-shot CRC32.\<close>

theorem ota_crc_streaming:
  "ota_crc_finalize (foldl ota_crc_update ota_crc_init chunks) = crc32 (concat chunks)"
  by (rule ota_crc_chunks)

text \<open>The two log records survive their packed 32-byte layout.\<close>

theorem log_records_roundtrip:
  assumes "length (ev_reserved r) = 10" "length (sr_reserved q) = 10"
  shows "event_of_bytes (event_bytes r) = r \<and> length (event_bytes r) = 32 \<and>
    session_of_bytes (session_bytes q) = q \<and> length (session_bytes q) = 32"
  using assms by (simp add: event_roundtrip session_roundtrip length_event_bytes length_session_bytes)

definition demo_event :: event_record where
  "demo_event = \<lparr>ev_timestamp = 0x12345678, ev_boot_count = 3, ev_fault_id = 1, ev_j1772_state = 3, ev_evse_state = 6,
     ev_cp_mv = 6000, ev_cc_amps = 0, ev_ntc1_dC = 0, ev_ntc2_dC = 0, ev_active_amps_x10 = 160,
     ev_reserved = replicate 10 0, ev_crc16 = 0xBEEF\<rparr>"

definition demo_session :: session_record where
  "demo_session = \<lparr>sr_start_ts = 1000, sr_end_ts = 9000, sr_mwh_delivered = 42, sr_end_reason = 0,
     sr_j1772_max_state_seen = 3, sr_fault_count = 0, sr_max_temp_dC = 0, sr_boot_count = 3,
     sr_reserved = replicate 10 0, sr_crc16 = 0xBEEF\<rparr>"

lemma log_records_roundtrip_witness: "event_of_bytes (event_bytes demo_event) = demo_event"
  using log_records_roundtrip [of demo_event demo_session] by (simp add: demo_event_def demo_session_def)

text \<open>The receive ring is a first-in first-out queue of at most 255 bytes: from reset, every sequence
  of interrupts and pops keeps it well formed; a clean byte is appended when there is room and
  dropped otherwise, a byte with a line error is dropped, and a pop takes the oldest bytes.\<close>

theorem ring_is_fifo:
  assumes "ring_ok r"
  shows "ring_ok (UART4_IRQHandler rbne errs b r) \<and>
    ring_contents (UART4_IRQHandler rbne errs b r) =
      ring_contents r @ (if rbne \<and> \<not> errs \<and> length (ring_contents r) < 255 then [b] else []) \<and>
    ring_ok (snd (uart5_rx_pop n r)) \<and> fst (uart5_rx_pop n r) = take n (ring_contents r) \<and>
    ring_contents (snd (uart5_rx_pop n r)) = drop n (ring_contents r)"
proof (cases "rbne \<and> \<not> errs")
  case True
  with rx.put_cases [OF assms, of b] rx.put_ok [OF assms, of b] pop_spec [OF assms, of n] show ?thesis
    by (simp add: rx_put_def)
next
  case False
  with pop_spec [OF assms, of n] show ?thesis by (auto simp: irq_error assms)
qed

lemma ring_is_fifo_witness: "fst (uart5_rx_pop 3 rx_ring_reset) = []"
  using ring_is_fifo [OF ring_reset(1), of True False 0 3] by (simp add: ring_reset)

text \<open>A one-shot beep ends: half a second after its start stamp the buzzer is silent and idle,
  whatever length the command asked for.\<close>

theorem beep_bounded:
  assumes "oneshot_ok z" "t0 \<noteq> 0" "500 \<le> t - t0" "ms \<noteq> 0" "t0 \<le> t"
  shows "fst (buzzer_tick t (snd (buzzer_tick t0 (buzzer_set_oneshot ms z)))) = False \<and>
    s_pattern (snd (buzzer_tick t (snd (buzzer_tick t0 (buzzer_set_oneshot ms z))))) = BUZ_OFF"
proof -
  let ?z = "snd (buzzer_tick t0 (buzzer_set_oneshot ms z))"
  have ok: "oneshot_ok ?z" by (simp add: assms(1) oneshot_ok_ops)
  have pos: "(ucast (if ms > 500 then 500 else ms) :: u32) \<noteq> 0"
    using assms(4) unat_ucast_u32 [of ms] by (auto simp: word_unat_eq_iff)
  then have "s_pattern ?z = BUZ_ONESHOT" "s_pattern_start_ms ?z = t0"
    using assms(4) by (auto simp: buzzer_set_oneshot_def buzzer_tick_def buzzer_level_def Let_def word_le_nat_alt
        word_unat_eq_iff)
  with oneshot_silent [OF ok _ _ assms(2,3)] show ?thesis by blast
qed

lemma beep_bounded_witness:
  "s_pattern (snd (buzzer_tick 2000 (snd (buzzer_tick 1000 (buzzer_set_oneshot 9999 buzzer_reset))))) = BUZ_OFF"
  using beep_bounded [OF oneshot_ok_ops(1), of 1000 2000 9999] by simp

end
