(* ===== verification/System_State.thy ===== *)
theory System_State
  imports Prelude
begin

text \<open>
  The snapshot that the supervisor publishes at the end of every tick, \<^verbatim>\<open>src/src/core/system_state.h\<close>
  and \<^verbatim>\<open>system_state.c\<close>, with its packed byte layout, which the state report carries. Signed
  fields are kept as their bits.
\<close>

record openevcharger_state =
  ss_j1772_state :: u8
  ss_evse_state :: u8
  ss_advertised_amps :: u8
  ss_contactor_cmd :: u8
  ss_cp_high_mv :: u16
  ss_cp_low_mv :: u16
  ss_active_amps_x10 :: u16
  ss_ntc1_dC :: u16
  ss_ntc2_dC :: u16
  ss_cc_max_amps :: u16
  ss_ac_present :: u8
  ss_pad :: u8
  ss_fault_active_bits :: u32
  ss_first_fault_id :: u32
  ss_session_mwh :: u32
  ss_ac_adc_raw :: u16
  ss_ntc1_adc_raw :: u16
  ss_ntc2_adc_raw :: u16
  ss_bl0939_v_rms :: u32
  ss_bl0939_ia_rms :: u32
  ss_bl0939_ib_rms :: u32
  ss_bl0939_a_watt :: u32
  ss_bl0939_valid :: u8
  ss_bl0939_pad :: u8
  ss_bl0939_freq_hz_x10 :: u16

definition state_zero :: openevcharger_state where
  "state_zero = \<lparr>ss_j1772_state = 0, ss_evse_state = 0, ss_advertised_amps = 0, ss_contactor_cmd = 0,
     ss_cp_high_mv = 0, ss_cp_low_mv = 0, ss_active_amps_x10 = 0, ss_ntc1_dC = 0, ss_ntc2_dC = 0,
     ss_cc_max_amps = 0, ss_ac_present = 0, ss_pad = 0, ss_fault_active_bits = 0, ss_first_fault_id = 0,
     ss_session_mwh = 0, ss_ac_adc_raw = 0, ss_ntc1_adc_raw = 0, ss_ntc2_adc_raw = 0, ss_bl0939_v_rms = 0,
     ss_bl0939_ia_rms = 0, ss_bl0939_ib_rms = 0, ss_bl0939_a_watt = 0, ss_bl0939_valid = 0,
     ss_bl0939_pad = 0, ss_bl0939_freq_hz_x10 = 0\<rparr>"

definition state_bytes :: "openevcharger_state \<Rightarrow> u8 list" where
  "state_bytes s =
     [ss_j1772_state s, ss_evse_state s, ss_advertised_amps s, ss_contactor_cmd s] @
     le16_bytes (ss_cp_high_mv s) @ le16_bytes (ss_cp_low_mv s) @ le16_bytes (ss_active_amps_x10 s) @
     le16_bytes (ss_ntc1_dC s) @ le16_bytes (ss_ntc2_dC s) @ le16_bytes (ss_cc_max_amps s) @
     [ss_ac_present s, ss_pad s] @
     le32_bytes (ss_fault_active_bits s) @ le32_bytes (ss_first_fault_id s) @ le32_bytes (ss_session_mwh s) @
     le16_bytes (ss_ac_adc_raw s) @ le16_bytes (ss_ntc1_adc_raw s) @ le16_bytes (ss_ntc2_adc_raw s) @
     le32_bytes (ss_bl0939_v_rms s) @ le32_bytes (ss_bl0939_ia_rms s) @ le32_bytes (ss_bl0939_ib_rms s) @
     le32_bytes (ss_bl0939_a_watt s) @ [ss_bl0939_valid s, ss_bl0939_pad s] @
     le16_bytes (ss_bl0939_freq_hz_x10 s)"

lemma length_state_bytes [simp]: "length (state_bytes s) = 56"
  by (simp add: state_bytes_def)

end
