(* ===== verification/Safety_State.thy ===== *)
theory Safety_State
  imports Fault J1772 Detectors Rfid_Frame Hal Records System_State
begin

text \<open>
  The state of \<^verbatim>\<open>src/src/tasks/safety_task.c\<close> and its basic operations. \<open>safety_state\<close> holds the
  locals of \<^verbatim>\<open>safety_task_run\<close> and the file's and its functions' static variables, the HAL state the task owns
  (contactor, pilot PWM, metering cache) and, in \<open>outs\<close>, the effects it sends to other tasks:
  published TLV events and persist requests, oldest first; \<open>snap\<close> is the published snapshot. \<open>tick_env\<close> holds what a tick reads from outside: the tick
  counter, ADC ranks, GFCI lines, DIP switch, the persisted configuration and calibration as
  the accessors return them, the RFID receive bytes and the build flags. Streak counters
  saturate at small bounds in the code and are naturals here; \<open>printk\<close> is not modelled.
\<close>

abbreviation (input) "SAFETY_TASK_PERIOD_MS \<equiv> (20 :: nat)"
abbreviation (input) "SAFETY_REPLUG_WINDOW_TICKS \<equiv> (150 :: nat)"
abbreviation (input) "SAFETY_INBOX_DEPTH \<equiv> (4 :: nat)"
abbreviation (input) "J1772_DEBOUNCE_N \<equiv> (3 :: nat)"
abbreviation (input) "WELD_PERSIST_TICKS \<equiv> (10 :: nat)"
abbreviation (input) "STUCK_OPEN_PERSIST_TICKS \<equiv> (10 :: nat)"
abbreviation (input) "CP_E_PERSIST_TICKS \<equiv> (3 :: nat)"
abbreviation (input) "BL0939_POLL_TICKS \<equiv> (20 :: nat)"
abbreviation (input) "RFID_KEEPALIVE_TICKS \<equiv> (17 :: nat)"
abbreviation (input) "RFID_LEARN_TICKS \<equiv> (1500 :: nat)"
abbreviation (input) "BL0939_DETECTOR_PERSIST \<equiv> (3 :: nat)"
abbreviation (input) "BL0939_STUCK_OPEN_PERSIST \<equiv> (75 :: nat)"
abbreviation (input) "BL0939_WELD_SETTLE_POLLS \<equiv> (8 :: nat)"
abbreviation (input) "BL0939_V_RMS_AC_PRESENT_RAW \<equiv> (0x00080000 :: u32)"
abbreviation (input) "BL0939_SOC_PERSIST_POLLS \<equiv> (75 :: nat)"
abbreviation (input) "SOC_DERATE_FLOOR_A \<equiv> (6 :: nat)"
abbreviation (input) "BL0939_HOC_PERSIST_POLLS \<equiv> (13 :: nat)"
abbreviation (input) "PE_OK_RAW_MAX \<equiv> (400 :: u16)"
abbreviation (input) "PE_PERSIST_TICKS \<equiv> (10 :: nat)"
abbreviation (input) "ADC_RUNTIME_PERSIST_TICKS \<equiv> (5 :: nat)"
abbreviation (input) "CC_PERSIST_TICKS \<equiv> (10 :: nat)"
abbreviation (input) "EVSE_C_DWELL_TICKS \<equiv> (50 :: nat)"
abbreviation (input) "SESSION_MIN_PERSIST_MS \<equiv> (2000 :: u32)"
abbreviation (input) "ST_ADC_MIN \<equiv> (100 :: u16)"
abbreviation (input) "ST_ADC_MAX \<equiv> (3995 :: u16)"
abbreviation (input) "ST_CP_PILOT_PRESENT_MV \<equiv> (1500 :: int)"
abbreviation (input) "HW_AMPS_MAX \<equiv> (48 :: nat)"
abbreviation (input) "DIP1_AMPS_CLOSED \<equiv> (48 :: nat)"
abbreviation (input) "DIP1_AMPS_OPEN \<equiv> (40 :: nat)"
abbreviation (input) "RFID_AUTHLIST_MAX \<equiv> (28 :: nat)"

abbreviation (input) "ADC_RANK_AC \<equiv> (0 :: nat)"
abbreviation (input) "ADC_RANK_NTC1 \<equiv> (1 :: nat)"
abbreviation (input) "ADC_RANK_CT \<equiv> (2 :: nat)"
abbreviation (input) "ADC_RANK_LCT \<equiv> (3 :: nat)"
abbreviation (input) "ADC_RANK_CP \<equiv> (4 :: nat)"
abbreviation (input) "ADC_RANK_CC \<equiv> (5 :: nat)"
abbreviation (input) "ADC_RANK_PE \<equiv> (6 :: nat)"
abbreviation (input) "ADC_RANK_NTC2 \<equiv> (7 :: nat)"

section \<open>State, inputs and effects\<close>

datatype safety_req_type =
    SAFETY_REQ_CLEAR_FAULT | SAFETY_REQ_USER_PAUSE | SAFETY_REQ_USER_RESUME
  | SAFETY_REQ_RFID_LEARN_ARM | SAFETY_REQ_PUBLISH_RFID_CONFIG | SAFETY_REQ_SIMULATE_REPLUG
  | SAFETY_REQ_RUN_GFCI_CAL_TEST | SAFETY_REQ_PUBLISH_GFCI_POLICY

record safety_req =
  req_type :: safety_req_type
  arg_u8 :: u8
  arg_u32 :: u32

datatype effect =
    Publish u8 "u8 list"
  | PostEvent event_record
  | PostSession session_record
  | PostAuthlistAdd u32
  | GfciSelfTest
  | SpawnGfciRefresh
  | RfidKeepalive

datatype session_end_reason = SESSION_END_NORMAL | SESSION_END_FAULT | SESSION_END_OTHER

fun end_reason_num :: "session_end_reason \<Rightarrow> u8" where
  "end_reason_num SESSION_END_NORMAL = 0"
| "end_reason_num SESSION_END_FAULT = 1"
| "end_reason_num SESSION_END_OTHER = 2"

record session =
  ses_active :: bool
  ses_start_ts :: u32
  ses_j1772_max :: u8
  ses_fault_count :: nat
  ses_max_temp_dC :: u16
  ses_mws_accum :: int

record build_flags =
  RELAY_FEEDBACK_KNOWN :: bool
  PE_CONTINUITY_DETECTOR :: bool
  CC_DETECTOR :: bool
  GFCI_CAL_SELF_TEST :: bool
  NTC1_PRESENT :: bool
  GUN_NTC_PRESENT :: bool

record tick_env =
  flags :: build_flags
  now :: u32
  cp_high_in :: int
  cp_low_in :: int
  adc :: "nat \<Rightarrow> u16"
  gfci_line_low :: bool
  gfci_handshake :: bool
  gfci_self_test_rc :: int
  refresh_task_ok :: bool
  dip1_low :: bool
  safe_fail :: bool
  bl_answers :: "u8 \<Rightarrow> bl_answer"
  rfid_rx :: "u8 list"
  cfg_amps :: nat
  cfg_require_auth :: bool
  cfg_gfci_policy :: u8
  cal_ia_na :: int
  cal_pa_uw :: int
  cal_freq_const :: int
  auth_count :: nat
  auth_contains :: "u32 \<Rightarrow> bool"

record safety_state =
  fs :: fault_state
  es :: evse_state
  cp :: j1772_ctx
  last_logged_j1772 :: j1772_state
  weld_streak :: nat
  stuck_open_streak :: nat
  cp_e_streak :: nat
  evse_c_streak :: nat
  gfci_ctx :: gfci_policy_ctx
  pe_streak :: nat
  pe_log_tick :: nat
  adc_runtime_streak :: nat
  cc_streak :: nat
  prev_js :: j1772_state
  prev_es :: evse_state
  ot_ctx :: over_temp_ctx
  rfid_c :: rfid_ctx
  rfid_keepalive_div :: nat
  bl0939_poll_div :: nat
  bl :: bl0939_readings
  ac_absent_streak :: nat
  weld_bl_streak :: nat
  weld_prev_commanded :: int
  weld_settle_polls :: nat
  stuck_open_bl_streak :: nat
  hoc_streak :: nat
  soc_streak :: nat
  s_rfid_learn_ticks :: nat
  s_replug_window_ticks :: nat
  s_session_authorized :: bool
  s_soc_derate_amps :: nat
  s_session :: session
  relay :: relay_hw
  pwm :: cp_pwm
  inbox :: "safety_req list"
  outs :: "effect list"
  snap :: openevcharger_state

definition emit :: "effect \<Rightarrow> safety_state \<Rightarrow> safety_state" where
  "emit out s = s\<lparr>outs := outs s @ [out]\<rparr>"

definition comms_publish :: "u8 \<Rightarrow> u8 list \<Rightarrow> safety_state \<Rightarrow> safety_state" where
  "comms_publish evt payload s = emit (Publish evt payload) s"

definition bool_byte :: "bool \<Rightarrow> u8" where
  "bool_byte b = (if b then 1 else 0)"

section \<open>Sessions, advertised current and supervisor transitions\<close>

definition session_start :: "tick_env \<Rightarrow> safety_state \<Rightarrow> safety_state" where
  "session_start e s =
     comms_publish EVT_SESSION_BEGAN (le32_bytes (now e))
       (s\<lparr>s_session := \<lparr>ses_active = True, ses_start_ts = now e, ses_j1772_max = j1772_num J1772_STATE_C,
                        ses_fault_count = 0, ses_max_temp_dC = 0, ses_mws_accum = 0\<rparr>\<rparr>)"

definition clear_soc_derate_for_session_end :: "safety_state \<Rightarrow> safety_state" where
  "clear_soc_derate_for_session_end s =
     (if s_soc_derate_amps s \<noteq> 0 then s\<lparr>s_soc_derate_amps := 0\<rparr> else s)"

definition mwh_of_mws :: "int \<Rightarrow> u32" where
  "mwh_of_mws mws =
     (let mwh64 = (if mws > 0 then mws div 3600 else 0)
      in word_of_int (if mwh64 > 0xFFFFFFFF then 0xFFFFFFFF else mwh64))"

definition session_end :: "tick_env \<Rightarrow> session_end_reason \<Rightarrow> safety_state \<Rightarrow> safety_state" where
  "session_end e reason s =
     (let ses = s_session s in
      if \<not> ses_active ses then s
      else
        let dur_ms = now e - ses_start_ts ses;
            persist = dur_ms \<ge> SESSION_MIN_PERSIST_MS \<or> ses_fault_count ses > 0 \<or> reason = SESSION_END_FAULT;
            session_mwh = mwh_of_mws (ses_mws_accum ses);
            rec = \<lparr>sr_start_ts = ses_start_ts ses, sr_end_ts = now e, sr_mwh_delivered = session_mwh,
                   sr_end_reason = end_reason_num reason, sr_j1772_max_state_seen = ses_j1772_max ses,
                   sr_fault_count = of_nat (ses_fault_count ses), sr_max_temp_dC = ses_max_temp_dC ses,
                   sr_boot_count = 0, sr_reserved = replicate 10 0, sr_crc16 = 0\<rparr>;
            s1 = (if persist then emit (PostSession rec) s else s);
            s2 = comms_publish EVT_SESSION_ENDED
                   (le32_bytes session_mwh @ le32_bytes (now e - ses_start_ts ses) @ [end_reason_num reason]) s1
        in clear_soc_derate_for_session_end (s2\<lparr>s_session := ses\<lparr>ses_active := False\<rparr>\<rparr>))"

definition effective_advertised_amps :: "tick_env \<Rightarrow> safety_state \<Rightarrow> nat" where
  "effective_advertised_amps e s =
     (let dip1_closed = dip1_low e;
          hw_cap = HW_AMPS_MAX;
          dip1_cap = (if dip1_closed then DIP1_AMPS_CLOSED else DIP1_AMPS_OPEN);
          cap = (if dip1_cap < hw_cap then dip1_cap else hw_cap);
          fc = cfg_amps e;
          base = (if fc = 0 then cap else if fc < cap then fc else cap);
          derate = s_soc_derate_amps s
      in if derate \<ge> base then SOC_DERATE_FLOOR_A
         else let derated = base - derate
              in if derated < SOC_DERATE_FLOOR_A then SOC_DERATE_FLOOR_A else derated)"

definition apply_cp_for_state :: "tick_env \<Rightarrow> j1772_state \<Rightarrow> safety_state \<Rightarrow> safety_state" where
  "apply_cp_for_state e js s =
     (if s_replug_window_ticks s > 0 then s\<lparr>pwm := cp_pwm_set_state_f (pwm s)\<rparr>
      else if es s = EVSE_FAULT then s\<lparr>pwm := cp_pwm_set_state_f (pwm s)\<rparr>
      else if es s = EVSE_COOLING_DOWN then s\<lparr>pwm := cp_pwm_set_idle_high (pwm s)\<rparr>
      else if es s = EVSE_USER_PAUSED then s\<lparr>pwm := cp_pwm_set_idle_high (pwm s)\<rparr>
      else if js = J1772_STATE_B \<or> js = J1772_STATE_C \<or> js = J1772_STATE_D
      then s\<lparr>pwm := cp_pwm_set_advertise_amps (effective_advertised_amps e s) (pwm s)\<rparr>
      else s\<lparr>pwm := cp_pwm_set_idle_high (pwm s)\<rparr>)"

definition evse_transition :: "tick_env \<Rightarrow> evse_state \<Rightarrow> safety_state \<Rightarrow> safety_state" where
  "evse_transition e nxt s =
     (if es s = nxt then s
      else
        let s1 = (if nxt = EVSE_CHARGING \<and> es s \<noteq> EVSE_CHARGING then session_start e s
                  else if es s = EVSE_CHARGING \<and> nxt \<noteq> EVSE_CHARGING
                  then session_end e (if nxt = EVSE_FAULT then SESSION_END_FAULT else SESSION_END_NORMAL) s
                  else s);
            s2 = s1\<lparr>es := nxt\<rparr>
        in if nxt = EVSE_FAULT
           then s2\<lparr>pwm := cp_pwm_set_state_f (pwm s2),
                   relay := relay_force_open_latch (relay_main_open (relay s2))\<rparr>
           else if relay_force_open_active (relay s2)
           then s2\<lparr>relay := relay_force_open_release (relay s2)\<rparr>
           else s2)"

definition post_fault_event ::
  "tick_env \<Rightarrow> nat \<Rightarrow> j1772_state \<Rightarrow> evse_state \<Rightarrow> int \<Rightarrow> safety_state \<Rightarrow> safety_state" where
  "post_fault_event e fid js ev cp_mv s =
     (let rec = \<lparr>ev_timestamp = now e, ev_boot_count = 0, ev_fault_id = of_nat fid,
                 ev_j1772_state = j1772_num js, ev_evse_state = evse_num ev, ev_cp_mv = word_of_int cp_mv,
                 ev_cc_amps = 0, ev_ntc1_dC = 0, ev_ntc2_dC = 0, ev_active_amps_x10 = 0,
                 ev_reserved = replicate 10 0, ev_crc16 = 0\<rparr>;
          s1 = emit (PostEvent rec) s;
          s2 = (if ses_active (s_session s1) \<and> ses_fault_count (s_session s1) < 0xFFFF
                then s1\<lparr>s_session := (s_session s1)\<lparr>ses_fault_count := ses_fault_count (s_session s1) + 1\<rparr>\<rparr>
                else s1)
      in comms_publish EVT_FAULT_RAISED
           (le32_bytes (of_nat fid) @ [j1772_num js, evse_num ev] @ le16_bytes (word_of_int cp_mv)) s2)"

text \<open>The raise that every detector performs: record the fault and, on a true edge, post it.\<close>

definition raise_fault :: "tick_env \<Rightarrow> nat \<Rightarrow> j1772_state \<Rightarrow> int \<Rightarrow> safety_state \<Rightarrow> safety_state" where
  "raise_fault e fid js cp_mv s =
     (let (rc, fs') = fault_raise (fs s) fid;
          s1 = s\<lparr>fs := fs'\<rparr>
      in if rc = 1 then post_fault_event e fid js (es s1) cp_mv s1 else s1)"

text \<open>Raise a latched fault and force the supervisor into \<open>EVSE_FAULT\<close>.\<close>

definition trip_fault :: "tick_env \<Rightarrow> nat \<Rightarrow> j1772_state \<Rightarrow> int \<Rightarrow> safety_state \<Rightarrow> safety_state" where
  "trip_fault e fid js cp_mv s = evse_transition e EVSE_FAULT (raise_fault e fid js cp_mv s)"

definition publish_rfid_config :: "tick_env \<Rightarrow> safety_state \<Rightarrow> safety_state" where
  "publish_rfid_config e s =
     comms_publish EVT_RFID_CONFIG [bool_byte (cfg_require_auth e), bool_byte (s_session_authorized s)] s"

definition publish_gfci_policy :: "tick_env \<Rightarrow> safety_state \<Rightarrow> safety_state" where
  "publish_gfci_policy e s = comms_publish EVT_GFCI_POLICY [cfg_gfci_policy e] s"

definition apply_relay_state :: "j1772_state \<Rightarrow> safety_state \<Rightarrow> safety_state" where
  "apply_relay_state js s =
     (let want_closed = es s = EVSE_CHARGING \<and> js = J1772_STATE_C \<and> \<not> fault_any_latched_active (fs s)
      in if want_closed \<and> \<not> relay_main_commanded (relay s)
         then s\<lparr>relay := relay_main_close (relay s)\<rparr>
         else if \<not> want_closed \<and> relay_main_commanded (relay s)
         then s\<lparr>relay := relay_main_open (relay s)\<rparr>
         else s)"

definition post_safety_req :: "safety_req_type \<Rightarrow> u8 \<Rightarrow> u32 \<Rightarrow> safety_state \<Rightarrow> int \<times> safety_state" where
  "post_safety_req ty a8 a32 s =
     (if length (inbox s) < SAFETY_INBOX_DEPTH
      then (0, s\<lparr>inbox := inbox s @ [\<lparr>req_type = ty, arg_u8 = a8, arg_u32 = a32\<rparr>]\<rparr>)
      else (-1, s))"

end
