(* ===== verification/Safety_Detectors.thy ===== *)
theory Safety_Detectors
  imports Safety_State
begin

text \<open>
  The fault detectors of \<^verbatim>\<open>src/src/tasks/safety_task.c\<close>, one definition per C function, each a
  function of the tick's inputs, the classified pilot state and the supervisor's state. A
  detector updates its streak and, when the streak is long enough, raises its fault and forces
  \<open>EVSE_FAULT\<close>; the over-temperature and mains detectors raise self-clearing faults instead.
\<close>

section \<open>Boot self-tests and the retired relay-feedback detectors\<close>

definition adc_out_of_band :: "tick_env \<Rightarrow> nat \<Rightarrow> bool" where
  "adc_out_of_band e r \<longleftrightarrow> adc e r < ST_ADC_MIN \<or> adc e r > ST_ADC_MAX"

definition self_test_adc_sanity :: "tick_env \<Rightarrow> nat" where
  "self_test_adc_sanity e =
     length (filter (adc_out_of_band e) [ADC_RANK_AC, ADC_RANK_CT, ADC_RANK_LCT, ADC_RANK_CP])"

definition self_test_relay_open :: "safety_state \<Rightarrow> nat" where
  "self_test_relay_open s = (if relay_main_sense_closed (relay s) then 1 else 0)"

definition self_test_cp_pilot_present :: "int \<Rightarrow> nat" where
  "self_test_cp_pilot_present cp_mv = (if cp_mv < ST_CP_PILOT_PRESENT_MV then 1 else 0)"

definition run_boot_self_test :: "tick_env \<Rightarrow> int \<Rightarrow> safety_state \<Rightarrow> nat" where
  "run_boot_self_test e cp_mv s =
     self_test_adc_sanity e + self_test_relay_open s + self_test_cp_pilot_present cp_mv"

definition self_test_gfci_cal :: "tick_env \<Rightarrow> safety_state \<Rightarrow> bool \<times> safety_state" where
  "self_test_gfci_cal e s =
     (if GFCI_CAL_SELF_TEST (flags e) then
        (let s1 = emit GfciSelfTest s
         in if gfci_self_test_rc e = 0
            then (if refresh_task_ok e then (True, emit SpawnGfciRefresh s1) else (False, s1))
            else (False, s1))
      else (True, s))"

definition check_safe_fail :: "tick_env \<Rightarrow> j1772_state \<Rightarrow> int \<Rightarrow> safety_state \<Rightarrow> safety_state" where
  "check_safe_fail e js cp_mv s =
     (if safe_fail e \<and> \<not> fault_is_active (fs s) FAULT_CRASH_LOOP_SAFE_FAIL
      then trip_fault e FAULT_CRASH_LOOP_SAFE_FAIL js cp_mv s else s)"

definition check_relay_weld :: "tick_env \<Rightarrow> j1772_state \<Rightarrow> int \<Rightarrow> safety_state \<Rightarrow> safety_state" where
  "check_relay_weld e js cp_mv s =
     (let sensed_closed = relay_main_sense_closed (relay s);
          n = (if sensed_closed \<and> \<not> relay_main_commanded (relay s)
               then (if weld_streak s < WELD_PERSIST_TICKS then weld_streak s + 1 else weld_streak s) else 0);
          s1 = s\<lparr>weld_streak := n\<rparr>
      in if n \<ge> WELD_PERSIST_TICKS \<and> \<not> fault_is_active (fs s1) FAULT_RELAY_WELD
         then trip_fault e FAULT_RELAY_WELD js cp_mv s1 else s1)"

definition check_relay_stuck_open :: "tick_env \<Rightarrow> j1772_state \<Rightarrow> int \<Rightarrow> safety_state \<Rightarrow> safety_state" where
  "check_relay_stuck_open e js cp_mv s =
     (if \<not> relay_main_commanded (relay s) \<or> relay_main_sense_closed (relay s)
      then s\<lparr>stuck_open_streak := 0\<rparr>
      else let n = (if stuck_open_streak s < STUCK_OPEN_PERSIST_TICKS
                    then stuck_open_streak s + 1 else stuck_open_streak s);
               s1 = s\<lparr>stuck_open_streak := n\<rparr>
           in if n \<ge> STUCK_OPEN_PERSIST_TICKS \<and> \<not> fault_is_active (fs s1) FAULT_RELAY_STUCK_OPEN
              then trip_fault e FAULT_RELAY_STUCK_OPEN js cp_mv s1 else s1)"

section \<open>Per-tick detectors\<close>

definition check_cp_e :: "tick_env \<Rightarrow> j1772_state \<Rightarrow> int \<Rightarrow> safety_state \<Rightarrow> safety_state" where
  "check_cp_e e js cp_mv s =
     (if es s = EVSE_FAULT \<or> s_replug_window_ticks s > 0 then s\<lparr>cp_e_streak := 0\<rparr>
      else let n = (if js = J1772_STATE_E
                    then (if cp_e_streak s < CP_E_PERSIST_TICKS then cp_e_streak s + 1 else cp_e_streak s)
                    else 0);
               s1 = s\<lparr>cp_e_streak := n\<rparr>
           in if n \<ge> CP_E_PERSIST_TICKS \<and> \<not> fault_is_active (fs s1) FAULT_CP_NO_PILOT
              then trip_fault e FAULT_CP_NO_PILOT js cp_mv s1 else s1)"

definition settling :: "safety_state \<Rightarrow> bool" where
  "settling s \<longleftrightarrow> es s = EVSE_BOOT \<or> es s = EVSE_SELF_TEST \<or> es s = EVSE_FAULT"

definition check_pe_continuity :: "tick_env \<Rightarrow> j1772_state \<Rightarrow> int \<Rightarrow> safety_state \<Rightarrow> safety_state" where
  "check_pe_continuity e js cp_mv s =
     (if settling s then s\<lparr>pe_streak := 0\<rparr>
      else
        let raw = adc e ADC_RANK_PE;
            tick = pe_log_tick s + 1;
            s1 = (if tick \<ge> 5000 div SAFETY_TASK_PERIOD_MS
                  then comms_publish EVT_DIAG_ADC (le16_bytes raw @ [j1772_num js, evse_num (es s), 0])
                         (s\<lparr>pe_log_tick := 0\<rparr>)
                  else s\<lparr>pe_log_tick := tick\<rparr>);
            n = (if raw > PE_OK_RAW_MAX
                 then (if pe_streak s1 < PE_PERSIST_TICKS then pe_streak s1 + 1 else pe_streak s1) else 0);
            s2 = s1\<lparr>pe_streak := n\<rparr>
        in if PE_CONTINUITY_DETECTOR (flags e) \<and> n \<ge> PE_PERSIST_TICKS \<and>
              \<not> fault_is_active (fs s2) FAULT_PE_CONTINUITY
           then trip_fault e FAULT_PE_CONTINUITY js cp_mv s2 else s2)"

definition check_cp_regression :: "tick_env \<Rightarrow> j1772_state \<Rightarrow> int \<Rightarrow> safety_state \<Rightarrow> safety_state" where
  "check_cp_regression e js cp_mv s =
     (if prev_js s = J1772_STATE_C \<and> js = J1772_STATE_B \<and> prev_es s = EVSE_CHARGING
      then post_fault_event e FAULT_CP_REGRESSION js (es s) cp_mv s else s)"

definition decode_cc_amps :: "u16 \<Rightarrow> u16" where
  "decode_cc_amps raw =
     (if raw \<ge> 3700 then 0 else if raw \<ge> 3060 then 13 else if raw \<ge> 2400 then 20
      else if raw \<ge> 1300 then 32 else if raw \<ge> 600 then 63 else 0)"

definition cc_raw_in_band :: "u16 \<Rightarrow> bool" where
  "cc_raw_in_band raw \<longleftrightarrow>
     (if raw \<ge> 3700 then True else if raw \<ge> 3060 then True else if raw \<ge> 2400 then True
      else if raw \<ge> 1300 then True else if raw \<ge> 600 then True else False)"

definition check_cc_out_of_range :: "tick_env \<Rightarrow> j1772_state \<Rightarrow> int \<Rightarrow> safety_state \<Rightarrow> safety_state" where
  "check_cc_out_of_range e js cp_mv s =
     (if \<not> CC_DETECTOR (flags e) then s
      else if settling s then s\<lparr>cc_streak := 0\<rparr>
      else let n = (if \<not> cc_raw_in_band (adc e ADC_RANK_CC)
                    then (if cc_streak s < CC_PERSIST_TICKS then cc_streak s + 1 else cc_streak s) else 0);
               s1 = s\<lparr>cc_streak := n\<rparr>
           in if n \<ge> CC_PERSIST_TICKS \<and> \<not> fault_is_active (fs s1) FAULT_CC_OUT_OF_RANGE
              then trip_fault e FAULT_CC_OUT_OF_RANGE js cp_mv s1 else s1)"

definition check_adc_runtime :: "tick_env \<Rightarrow> j1772_state \<Rightarrow> int \<Rightarrow> safety_state \<Rightarrow> safety_state" where
  "check_adc_runtime e js cp_mv s =
     (if settling s then s\<lparr>adc_runtime_streak := 0\<rparr>
      else let rail = list_ex (adc_out_of_band e) [ADC_RANK_AC, ADC_RANK_CT, ADC_RANK_LCT];
               n = (if rail then (if adc_runtime_streak s < ADC_RUNTIME_PERSIST_TICKS
                                  then adc_runtime_streak s + 1 else adc_runtime_streak s) else 0);
               s1 = s\<lparr>adc_runtime_streak := n\<rparr>
           in if n \<ge> ADC_RUNTIME_PERSIST_TICKS \<and> \<not> fault_is_active (fs s1) FAULT_ADC_OUT_OF_RANGE
              then trip_fault e FAULT_ADC_OUT_OF_RANGE js cp_mv s1 else s1)"

definition check_gfci :: "tick_env \<Rightarrow> j1772_state \<Rightarrow> int \<Rightarrow> safety_state \<Rightarrow> safety_state" where
  "check_gfci e js cp_mv s =
     (let pe2 = (if gfci_handshake e then False else gfci_line_low e);
          (c, act) = gfci_policy_step (gfci_ctx s) pe2 (cfg_gfci_policy e);
          s1 = s\<lparr>gfci_ctx := c\<rparr>
      in case act of
           GFCI_ACT_NONE \<Rightarrow> s1
         | GFCI_ACT_WARN_EMIT \<Rightarrow> post_fault_event e FAULT_GFCI js (es s1) cp_mv s1
         | GFCI_ACT_RAISE_FAULT \<Rightarrow> trip_fault e FAULT_GFCI js cp_mv s1)"

definition check_over_temp :: "tick_env \<Rightarrow> u16 \<Rightarrow> u16 \<Rightarrow> safety_state \<Rightarrow> safety_state" where
  "check_over_temp e ntc1_raw gun_raw s =
     (let ot = (ot_ctx s)\<lparr>ot_fault_active := fault_is_active (fs s) FAULT_OVER_TEMP\<rparr>;
          (ot', act) = over_temp_step ot ntc1_raw gun_raw (NTC1_PRESENT (flags e)) (GUN_NTC_PRESENT (flags e));
          s1 = s\<lparr>ot_ctx := ot'\<rparr>
      in if ot_trip act then
           (let s2 = raise_fault e FAULT_OVER_TEMP J1772_STATE_INVALID 0 s1
            in if es s2 \<noteq> EVSE_FAULT then evse_transition e EVSE_COOLING_DOWN s2 else s2)
         else if ot_clear act then
           (let s2 = s1\<lparr>fs := snd (fault_clear (fs s1) FAULT_OVER_TEMP)\<rparr>
            in if es s2 = EVSE_COOLING_DOWN then evse_transition e EVSE_READY s2 else s2)
         else s1)"

section \<open>Detectors on the metering chip's readings\<close>

definition check_ac_absent :: "tick_env \<Rightarrow> j1772_state \<Rightarrow> int \<Rightarrow> safety_state \<Rightarrow> safety_state" where
  "check_ac_absent e js cp_mv s =
     (if \<not> bl_valid (bl s) then s
      else if v_rms (bl s) < BL0939_V_RMS_AC_PRESENT_RAW then
        (let n = (if ac_absent_streak s < BL0939_DETECTOR_PERSIST
                  then ac_absent_streak s + 1 else ac_absent_streak s);
             s1 = s\<lparr>ac_absent_streak := n\<rparr>
         in if n \<ge> BL0939_DETECTOR_PERSIST \<and> \<not> fault_is_active (fs s1) FAULT_AC_ABSENT
            then raise_fault e FAULT_AC_ABSENT js cp_mv s1 else s1)
      else
        (let s1 = s\<lparr>ac_absent_streak := 0\<rparr>
         in if fault_is_active (fs s1) FAULT_AC_ABSENT
            then s1\<lparr>fs := snd (fault_clear (fs s1) FAULT_AC_ABSENT)\<rparr> else s1))"

text \<open>Current of channel A in milliamps: raw count times the nA-per-count scale.\<close>

definition ia_milliamps :: "tick_env \<Rightarrow> safety_state \<Rightarrow> int" where
  "ia_milliamps e s = (uint (ia_rms (bl s)) * cal_ia_na e) div 1000000"

definition check_relay_weld_bl0939 :: "tick_env \<Rightarrow> j1772_state \<Rightarrow> int \<Rightarrow> safety_state \<Rightarrow> safety_state" where
  "check_relay_weld_bl0939 e js cp_mv s =
     (if \<not> bl_valid (bl s) then s
      else if cal_ia_na e \<le> 0 then s\<lparr>weld_bl_streak := 0\<rparr>
      else
        let now_commanded = (if relay_main_commanded (relay s) then 1 else 0);
            settle = (if weld_prev_commanded s = 1 \<and> now_commanded = 0
                      then BL0939_WELD_SETTLE_POLLS else weld_settle_polls s);
            s1 = s\<lparr>weld_settle_polls := settle, weld_prev_commanded := now_commanded\<rparr>
        in if settle > 0 then s1\<lparr>weld_settle_polls := settle - 1, weld_bl_streak := 0\<rparr>
           else
             let sensing_flow = (ia_milliamps e s1 \<ge> 500);
                 n = (if sensing_flow \<and> \<not> relay_main_commanded (relay s1)
                      then (if weld_bl_streak s1 < BL0939_DETECTOR_PERSIST
                            then weld_bl_streak s1 + 1 else weld_bl_streak s1) else 0);
                 s2 = s1\<lparr>weld_bl_streak := n\<rparr>
             in if n \<ge> BL0939_DETECTOR_PERSIST \<and> \<not> fault_is_active (fs s2) FAULT_RELAY_WELD
                then trip_fault e FAULT_RELAY_WELD js cp_mv s2 else s2)"

definition check_relay_stuck_open_bl0939 ::
  "tick_env \<Rightarrow> j1772_state \<Rightarrow> int \<Rightarrow> safety_state \<Rightarrow> safety_state" where
  "check_relay_stuck_open_bl0939 e js cp_mv s =
     (if \<not> bl_valid (bl s) then s
      else if cal_ia_na e \<le> 0 then s\<lparr>stuck_open_bl_streak := 0\<rparr>
      else if es s \<noteq> EVSE_CHARGING \<or> \<not> relay_main_commanded (relay s)
      then s\<lparr>stuck_open_bl_streak := 0\<rparr>
      else
        let n = (if ia_milliamps e s < 500
                 then (if stuck_open_bl_streak s < BL0939_STUCK_OPEN_PERSIST
                       then stuck_open_bl_streak s + 1 else stuck_open_bl_streak s) else 0);
            s1 = s\<lparr>stuck_open_bl_streak := n\<rparr>
        in if n \<ge> BL0939_STUCK_OPEN_PERSIST \<and> \<not> fault_is_active (fs s1) FAULT_RELAY_STUCK_OPEN
           then trip_fault e FAULT_RELAY_STUCK_OPEN js cp_mv s1 else s1)"

definition hoc_threshold_ma :: "nat \<Rightarrow> int" where
  "hoc_threshold_ma adv =
     (let spec_threshold_ma = int adv * 1000 * 120 div 100;
          hw_ceiling_ma = int HW_AMPS_MAX * 1000 * 125 div 100
      in if spec_threshold_ma < hw_ceiling_ma then spec_threshold_ma else hw_ceiling_ma)"

definition check_hard_over_current :: "tick_env \<Rightarrow> j1772_state \<Rightarrow> int \<Rightarrow> safety_state \<Rightarrow> safety_state" where
  "check_hard_over_current e js cp_mv s =
     (if \<not> bl_valid (bl s) then s
      else if cal_ia_na e \<le> 0 then s\<lparr>hoc_streak := 0\<rparr>
      else let adv = effective_advertised_amps e s in
        if adv = 0 then s\<lparr>hoc_streak := 0\<rparr>
        else let n = (if ia_milliamps e s > hoc_threshold_ma adv
                      then (if hoc_streak s < BL0939_HOC_PERSIST_POLLS then hoc_streak s + 1 else hoc_streak s)
                      else 0);
                 s1 = s\<lparr>hoc_streak := n\<rparr>
             in if n \<ge> BL0939_HOC_PERSIST_POLLS \<and> \<not> fault_is_active (fs s1) FAULT_HARD_OVER_CURRENT
                then trip_fault e FAULT_HARD_OVER_CURRENT js cp_mv s1 else s1)"

definition soc_threshold_ma :: "nat \<Rightarrow> int" where
  "soc_threshold_ma adv = int adv * 1000 * 105 div 100"

definition check_soft_over_current :: "tick_env \<Rightarrow> j1772_state \<Rightarrow> int \<Rightarrow> safety_state \<Rightarrow> safety_state" where
  "check_soft_over_current e js cp_mv s =
     (if \<not> bl_valid (bl s) then s
      else if cal_ia_na e \<le> 0 then s\<lparr>soc_streak := 0\<rparr>
      else let adv = effective_advertised_amps e s in
        if adv = 0 then s\<lparr>soc_streak := 0\<rparr>
        else if ia_milliamps e s \<le> soc_threshold_ma adv then
          (let s1 = s\<lparr>soc_streak := 0\<rparr>
           in if fault_is_active (fs s1) FAULT_SOFT_OVER_CURRENT
              then (let (rc, f) = fault_clear (fs s1) FAULT_SOFT_OVER_CURRENT;
                        s2 = s1\<lparr>fs := f\<rparr>
                    in if rc = 1
                       then comms_publish EVT_FAULT_CLEARED (le32_bytes (of_nat FAULT_SOFT_OVER_CURRENT)) s2
                       else s2)
              else s1)
        else if soc_streak s < BL0939_SOC_PERSIST_POLLS then s\<lparr>soc_streak := soc_streak s + 1\<rparr>
        else if adv > SOC_DERATE_FLOOR_A then
          (let step = (if adv \<ge> 10 then adv div 10 else 1)
           in s\<lparr>s_soc_derate_amps := (s_soc_derate_amps s + step) mod 256, soc_streak := 0\<rparr>)
        else if \<not> fault_is_active (fs s) FAULT_SOFT_OVER_CURRENT
        then raise_fault e FAULT_SOFT_OVER_CURRENT js cp_mv s
        else s)"

end
