(* ===== verification/Safety_Tick.thy ===== *)
theory Safety_Tick
  imports Safety_Detectors
begin

text \<open>
  The supervisor's control flow in \<^verbatim>\<open>src/src/tasks/safety_task.c\<close>: the control inbox
  (\<open>process_request\<close>, \<open>drain_inbox\<close>), the pilot-driven transitions (\<open>update_evse_from_j1772\<close>), the
  blocks of the 20 ms loop body in their order, the tick that composes them, and the boot
  sequence before the loop. A run is a list of ticks, with requests posted between them.
\<close>

section \<open>Control inbox\<close>

text \<open>The clear of a CLEAR_FAULT request: \<open>None\<close> when the handler returns early.\<close>

definition clear_requested :: "u32 \<Rightarrow> fault_state \<Rightarrow> (bool \<times> fault_state) option" where
  "clear_requested fid f =
     (if fid = 0 then (let (n, f') = fault_clear_all_clearable f in Some (n \<noteq> 0, f'))
      else if fid < of_nat FAULT_COUNT then
        (let (rc, f') = fault_clear f (unat fid) in if rc < 0 then None else Some (rc = 1, f'))
      else None)"

definition leave_fault :: "tick_env \<Rightarrow> safety_state \<Rightarrow> safety_state" where
  "leave_fault e s =
     (if es s = EVSE_FAULT \<and> \<not> fault_any_latched_active (fs s)
      then (let s1 = evse_transition e EVSE_READY s
            in s1\<lparr>fs := (fs s1)\<lparr>first_raised := FAULT_NONE\<rparr>, cp_e_streak := 0, cp := j1772_init\<rparr>)
      else s)"

definition request_clear_fault :: "tick_env \<Rightarrow> u32 \<Rightarrow> safety_state \<Rightarrow> safety_state" where
  "request_clear_fault e fid s =
     (case clear_requested fid (fs s) of
        None \<Rightarrow> s
      | Some (cleared, f) \<Rightarrow>
          (let s1 = s\<lparr>fs := f\<rparr>;
               s2 = (if cleared
                     then (let p = comms_publish EVT_FAULT_CLEARED (le32_bytes fid) s1
                           in if fid = 0 \<or> fid = of_nat FAULT_CP_NO_PILOT then p\<lparr>cp_e_streak := 0\<rparr> else p)
                     else s1)
           in leave_fault e s2))"

definition request_simulate_replug :: "tick_env \<Rightarrow> safety_state \<Rightarrow> safety_state" where
  "request_simulate_replug e s =
     (let js = committed (cp s) in
      if js \<noteq> J1772_STATE_B \<and> js \<noteq> J1772_STATE_C \<and> js \<noteq> J1772_STATE_D then s
      else if es s = EVSE_READY \<or> es s = EVSE_CHARGING \<or> es s = EVSE_USER_PAUSED \<or> es s = EVSE_COOLING_DOWN
      then (let s1 = evse_transition e EVSE_USER_PAUSED s
            in s1\<lparr>s_replug_window_ticks := SAFETY_REPLUG_WINDOW_TICKS, pwm := cp_pwm_set_state_f (pwm s1)\<rparr>)
      else s)"

definition process_request :: "tick_env \<Rightarrow> safety_req \<Rightarrow> safety_state \<Rightarrow> safety_state" where
  "process_request e r s =
     (case req_type r of
        SAFETY_REQ_CLEAR_FAULT \<Rightarrow> request_clear_fault e (arg_u32 r) s
      | SAFETY_REQ_USER_PAUSE \<Rightarrow>
          (if es s = EVSE_READY \<or> es s = EVSE_CHARGING then evse_transition e EVSE_USER_PAUSED s else s)
      | SAFETY_REQ_USER_RESUME \<Rightarrow>
          (if es s = EVSE_USER_PAUSED then evse_transition e EVSE_READY s else s)
      | SAFETY_REQ_RFID_LEARN_ARM \<Rightarrow> s\<lparr>s_rfid_learn_ticks := RFID_LEARN_TICKS\<rparr>
      | SAFETY_REQ_PUBLISH_RFID_CONFIG \<Rightarrow> publish_rfid_config e s
      | SAFETY_REQ_PUBLISH_GFCI_POLICY \<Rightarrow> publish_gfci_policy e s
      | SAFETY_REQ_SIMULATE_REPLUG \<Rightarrow> request_simulate_replug e s
      | SAFETY_REQ_RUN_GFCI_CAL_TEST \<Rightarrow> (if es s \<noteq> EVSE_READY then s else emit GfciSelfTest s))"

fun drain_loop :: "nat \<Rightarrow> tick_env \<Rightarrow> safety_state \<Rightarrow> safety_state" where
  "drain_loop 0 e s = s"
| "drain_loop (Suc i) e s =
     (case inbox s of
        [] \<Rightarrow> s
      | r # rs \<Rightarrow> drain_loop i e (process_request e r (s\<lparr>inbox := rs\<rparr>)))"

definition drain_inbox :: "tick_env \<Rightarrow> safety_state \<Rightarrow> safety_state" where
  "drain_inbox e s = drain_loop 4 e s"

definition service_replug_window :: "tick_env \<Rightarrow> safety_state \<Rightarrow> safety_state" where
  "service_replug_window e s =
     (if s_replug_window_ticks s > 0 then
        (let s1 = s\<lparr>s_replug_window_ticks := s_replug_window_ticks s - 1\<rparr>
         in if s_replug_window_ticks s1 = 0
            then (let s2 = (if es s1 = EVSE_USER_PAUSED then evse_transition e EVSE_READY s1 else s1)
                  in s2\<lparr>cp_e_streak := 0, cp := j1772_init\<rparr>)
            else s1)
      else s)"

section \<open>Pilot-driven transitions\<close>

definition clear_authorization :: "tick_env \<Rightarrow> j1772_state \<Rightarrow> safety_state \<Rightarrow> safety_state" where
  "clear_authorization e js s =
     (if js = J1772_STATE_A \<and> s_session_authorized s
      then publish_rfid_config e (s\<lparr>s_session_authorized := False\<rparr>) else s)"

definition update_evse_from_j1772 :: "tick_env \<Rightarrow> j1772_state \<Rightarrow> safety_state \<Rightarrow> safety_state" where
  "update_evse_from_j1772 e js s =
     (if es s = EVSE_FAULT \<or> es s = EVSE_BOOT \<or> es s = EVSE_SELF_TEST \<or> es s = EVSE_COOLING_DOWN
      then s\<lparr>evse_c_streak := 0\<rparr>
      else
        let s1 = clear_authorization e js s in
        if es s1 = EVSE_USER_PAUSED then
          (let s2 = s1\<lparr>evse_c_streak := 0\<rparr>
           in if js = J1772_STATE_A then evse_transition e EVSE_READY s2 else s2)
        else
          let n = (if js = J1772_STATE_C
                   then (if evse_c_streak s1 < EVSE_C_DWELL_TICKS then evse_c_streak s1 + 1 else evse_c_streak s1)
                   else 0);
              s2 = s1\<lparr>evse_c_streak := n\<rparr>;
              authorized = (\<not> cfg_require_auth e \<or> s_session_authorized s2)
          in if es s2 = EVSE_READY \<and> n \<ge> EVSE_C_DWELL_TICKS \<and> authorized
             then evse_transition e EVSE_CHARGING s2
             else if es s2 = EVSE_CHARGING \<and> js \<noteq> J1772_STATE_C
             then evse_transition e EVSE_READY s2
             else s2)"

section \<open>The blocks of one tick\<close>

definition classify_pilot :: "tick_env \<Rightarrow> safety_state \<Rightarrow> safety_state" where
  "classify_pilot e s =
     (let c = j1772_step (cp s) (cp_high_in e) J1772_DEBOUNCE_N;
          js = committed c;
          s1 = s\<lparr>cp := c\<rparr>
      in if js \<noteq> last_logged_j1772 s1 \<and> js \<noteq> J1772_STATE_INVALID
         then comms_publish EVT_STATE_CHANGED [j1772_num js] (s1\<lparr>last_logged_j1772 := js\<rparr>)
         else s1)"

definition fault_checks :: "tick_env \<Rightarrow> j1772_state \<Rightarrow> int \<Rightarrow> safety_state \<Rightarrow> safety_state" where
  "fault_checks e js cp_mv s =
     (let s1 = check_safe_fail e js cp_mv s;
          s2 = (if RELAY_FEEDBACK_KNOWN (flags e)
                then check_relay_stuck_open e js cp_mv (check_relay_weld e js cp_mv s1) else s1);
          s3 = check_gfci e js cp_mv s2;
          s4 = check_pe_continuity e js cp_mv s3;
          s5 = check_adc_runtime e js cp_mv s4;
          s6 = check_cc_out_of_range e js cp_mv s5;
          s7 = check_cp_e e js cp_mv s6
      in check_over_temp e (adc e ADC_RANK_NTC1) (adc e ADC_RANK_AC) s7)"

definition apply_outputs :: "tick_env \<Rightarrow> j1772_state \<Rightarrow> int \<Rightarrow> safety_state \<Rightarrow> safety_state" where
  "apply_outputs e js cp_mv s =
     (let s1 = update_evse_from_j1772 e js s;
          s2 = check_cp_regression e js cp_mv s1;
          s3 = apply_relay_state js s2;
          s4 = apply_cp_for_state e js s3
      in s4\<lparr>prev_js := js, prev_es := es s4\<rparr>)"

definition integrate_energy :: "tick_env \<Rightarrow> safety_state \<Rightarrow> safety_state" where
  "integrate_energy e s =
     (if ses_active (s_session s) \<and> relay_main_commanded (relay s) then
        (if cal_pa_uw e \<noteq> 0 then
           (let uw = a_watt (bl s) * cal_pa_uw e
            in if uw > 0
               then s\<lparr>s_session := (s_session s)\<lparr>ses_mws_accum := ses_mws_accum (s_session s) +
                        (uw * int BL0939_POLL_TICKS * int SAFETY_TASK_PERIOD_MS) div 1000000\<rparr>\<rparr>
               else s)
         else s)
      else s)"

definition meter_checks :: "tick_env \<Rightarrow> j1772_state \<Rightarrow> int \<Rightarrow> safety_state \<Rightarrow> safety_state" where
  "meter_checks e js cp_mv s =
     (let s1 = check_ac_absent e js cp_mv s;
          s2 = check_relay_weld_bl0939 e js cp_mv s1;
          s3 = check_relay_stuck_open_bl0939 e js cp_mv s2;
          s4 = check_hard_over_current e js cp_mv s3
      in check_soft_over_current e js cp_mv s4)"

definition meter_poll :: "tick_env \<Rightarrow> j1772_state \<Rightarrow> int \<Rightarrow> safety_state \<Rightarrow> safety_state" where
  "meter_poll e js cp_mv s =
     (let d = bl0939_poll_div s + 1
      in if d \<ge> BL0939_POLL_TICKS
         then integrate_energy e
                (meter_checks e js cp_mv
                  (s\<lparr>bl0939_poll_div := 0, bl := bl0939_poll (cal_freq_const e) (bl_answers e) (bl s)\<rparr>))
         else s\<lparr>bl0939_poll_div := d\<rparr>)"

text \<open>What a card-present edge does: learn, start, stop or reject; with the result it reports.\<close>

definition authorized_swipe :: "tick_env \<Rightarrow> safety_state \<Rightarrow> u8 \<times> safety_state" where
  "authorized_swipe e s =
     (let prior_auth = s_session_authorized s;
          s1 = s\<lparr>s_session_authorized := True\<rparr>;
          (result, s2) =
            (if es s1 = EVSE_CHARGING \<or> es s1 = EVSE_READY then
               (if es s1 = EVSE_CHARGING
                then (RFID_AUTH_RESULT_STOP, snd (post_safety_req SAFETY_REQ_USER_PAUSE 0xFF 0 s1))
                else (RFID_AUTH_RESULT_START, s1))
             else if es s1 = EVSE_USER_PAUSED
             then (RFID_AUTH_RESULT_START, snd (post_safety_req SAFETY_REQ_USER_RESUME 0 0 s1))
             else (RFID_AUTH_RESULT_MATCHED_NOOP, s1))
      in (result, if \<not> prior_auth then publish_rfid_config e s2 else s2))"

definition card_swiped :: "tick_env \<Rightarrow> u32 \<Rightarrow> safety_state \<Rightarrow> u8 \<times> safety_state" where
  "card_swiped e uid s =
     (if s_rfid_learn_ticks s > 0 then
        (let s1 = s\<lparr>s_rfid_learn_ticks := 0\<rparr>
         in if auth_count e \<ge> RFID_AUTHLIST_MAX then (RFID_AUTH_RESULT_LIST_FULL, s1)
            else (RFID_AUTH_RESULT_LEARNED, emit (PostAuthlistAdd uid) s1))
      else if auth_contains e uid then authorized_swipe e s
      else (RFID_AUTH_RESULT_REJECTED, s))"

definition rfid_edge :: "tick_env \<Rightarrow> rfid_action \<Rightarrow> safety_state \<Rightarrow> safety_state" where
  "rfid_edge e a s =
     (if ra_edge a then
        (let s1 = comms_publish EVT_RFID_SWIPE (le32_bytes (ra_uid a) @ [bool_byte (ra_present a)]) s
         in if ra_present a \<and> ra_uid a \<noteq> 0
            then (let (result, s2) = card_swiped e (ra_uid a) s1
                  in comms_publish EVT_RFID_AUTH_RESULT (le32_bytes (ra_uid a) @ [result]) s2)
            else s1)
      else s)"

definition rfid_timers :: "safety_state \<Rightarrow> safety_state" where
  "rfid_timers s =
     (let s1 = (if s_rfid_learn_ticks s > 0 then s\<lparr>s_rfid_learn_ticks := s_rfid_learn_ticks s - 1\<rparr> else s);
          d = rfid_keepalive_div s1 + 1
      in if d \<ge> RFID_KEEPALIVE_TICKS then emit RfidKeepalive (s1\<lparr>rfid_keepalive_div := 0\<rparr>)
         else s1\<lparr>rfid_keepalive_div := d\<rparr>)"

definition rfid_block :: "tick_env \<Rightarrow> safety_state \<Rightarrow> safety_state" where
  "rfid_block e s =
     (let rx = take (2 * RFID_FRAME_MAX_LEN) (rfid_rx e);
          s1 = (if rx \<noteq> [] then
                  (let (n, c, a) = rfid_feed (rfid_c s) rx in rfid_edge e a (s\<lparr>rfid_c := c\<rparr>))
                else s)
      in rfid_timers s1)"

section \<open>Snapshot\<close>

definition active_amps_x10 :: "tick_env \<Rightarrow> safety_state \<Rightarrow> u16" where
  "active_amps_x10 e s =
     (if cal_ia_na e \<noteq> 0 \<and> bl_valid (bl s) then
        (let v = \<bar>uint (ia_rms (bl s)) * cal_ia_na e\<bar> div 100000000
         in if v > 65535 then 65535 else word_of_int v)
      else 0)"

definition snapshot_of :: "tick_env \<Rightarrow> j1772_state \<Rightarrow> int \<Rightarrow> safety_state \<Rightarrow> openevcharger_state" where
  "snapshot_of e js cp_mv s =
     \<lparr>ss_j1772_state = j1772_num js, ss_evse_state = evse_num (es s),
      ss_advertised_amps = of_nat (if cfg_amps e \<noteq> 0 then cfg_amps e else effective_advertised_amps e s),
      ss_contactor_cmd = bool_byte (relay_main_commanded (relay s)),
      ss_cp_high_mv = word_of_int cp_mv, ss_cp_low_mv = word_of_int (cp_low_in e),
      ss_active_amps_x10 = active_amps_x10 e s, ss_ntc1_dC = 0, ss_ntc2_dC = 0,
      ss_cc_max_amps = decode_cc_amps (adc e ADC_RANK_CC),
      ss_ac_present = bool_byte (bl_valid (bl s) \<and> v_rms (bl s) \<ge> BL0939_V_RMS_AC_PRESENT_RAW),
      ss_pad = 0, ss_fault_active_bits = active_bits (fs s), ss_first_fault_id = of_nat (first_raised (fs s)),
      ss_session_mwh = mwh_of_mws (ses_mws_accum (s_session s)),
      ss_ac_adc_raw = adc e ADC_RANK_AC, ss_ntc1_adc_raw = adc e ADC_RANK_NTC1,
      ss_ntc2_adc_raw = adc e ADC_RANK_NTC2, ss_bl0939_v_rms = v_rms (bl s), ss_bl0939_ia_rms = ia_rms (bl s),
      ss_bl0939_ib_rms = ib_rms (bl s), ss_bl0939_a_watt = word_of_int (a_watt (bl s)),
      ss_bl0939_valid = bool_byte (bl_valid (bl s)), ss_bl0939_pad = 0,
      ss_bl0939_freq_hz_x10 = v_freq_hz_x10 (bl s)\<rparr>"

section \<open>Tick, boot and runs\<close>

definition safety_tick :: "tick_env \<Rightarrow> safety_state \<Rightarrow> safety_state" where
  "safety_tick e s =
     (let s1 = service_replug_window e (drain_inbox e s);
          s2 = classify_pilot e s1;
          cp_mv = cp_high_in e;
          js = committed (cp s2);
          s3 = fault_checks e js cp_mv s2;
          s4 = apply_outputs e js cp_mv s3;
          s5 = meter_poll e js cp_mv s4;
          s6 = rfid_block e s5
      in s6\<lparr>snap := snapshot_of e js cp_mv s6\<rparr>)"

definition safety_init :: safety_state where
  "safety_init =
     \<lparr>fs = fault_init, es = EVSE_BOOT, cp = j1772_init, last_logged_j1772 = J1772_STATE_INVALID,
      weld_streak = 0, stuck_open_streak = 0, cp_e_streak = 0, evse_c_streak = 0, gfci_ctx = gfci_ctx_init,
      pe_streak = 0, pe_log_tick = 0, adc_runtime_streak = 0, cc_streak = 0, prev_js = J1772_STATE_INVALID,
      prev_es = EVSE_BOOT, ot_ctx = ot_ctx_init, rfid_c = rfid_init_ctx, rfid_keepalive_div = 0,
      bl0939_poll_div = 0, bl = bl0939_zero, ac_absent_streak = 0, weld_bl_streak = 0,
      weld_prev_commanded = -1, weld_settle_polls = 0, stuck_open_bl_streak = 0, hoc_streak = 0,
      soc_streak = 0, s_rfid_learn_ticks = 0, s_replug_window_ticks = 0, s_session_authorized = False,
      s_soc_derate_amps = 0,
      s_session = \<lparr>ses_active = False, ses_start_ts = 0, ses_j1772_max = 0, ses_fault_count = 0,
                   ses_max_temp_dC = 0, ses_mws_accum = 0\<rparr>,
      relay = relay_reset, pwm = cp_pwm_set_idle_high \<lparr>ccr_ch2 = 0, ccr_ch3 = 0\<rparr>, inbox = [], outs = [],
      snap = state_zero\<rparr>"

text \<open>The boot sequence before the loop: five pilot samples (\<open>mvs\<close>), the self-tests, the crash-loop
  gate, and the boot event.\<close>

definition boot_self_tests :: "tick_env \<Rightarrow> j1772_state \<Rightarrow> int \<Rightarrow> nat \<Rightarrow> safety_state \<Rightarrow> safety_state" where
  "boot_self_tests e js0 cp_mv0 st_fails s =
     (let s1 = (if st_fails > 0 \<and> \<not> fault_is_active (fs s) FAULT_BOOT_SELF_TEST
                then trip_fault e FAULT_BOOT_SELF_TEST js0 cp_mv0 s else s);
          (cal_ok, s2) = self_test_gfci_cal e s1
      in if \<not> cal_ok \<and> \<not> fault_is_active (fs s2) FAULT_GFCI_SELF_TEST
         then trip_fault e FAULT_GFCI_SELF_TEST js0 cp_mv0 s2 else s2)"

definition safety_boot :: "tick_env \<Rightarrow> int list \<Rightarrow> safety_state \<Rightarrow> safety_state" where
  "safety_boot e mvs s =
     (let s0 = evse_transition e EVSE_SELF_TEST s;
          s1 = s0\<lparr>cp := j1772_run J1772_DEBOUNCE_N (cp s0) (take 5 mvs)\<rparr>;
          cp_mv0 = last (take 5 mvs);
          js0 = committed (cp s1);
          st_fails = run_boot_self_test e cp_mv0 s1;
          s2 = check_safe_fail e js0 cp_mv0 (boot_self_tests e js0 cp_mv0 st_fails s1);
          s3 = (if es s2 \<noteq> EVSE_FAULT then evse_transition e EVSE_READY s2 else s2)
      in comms_publish EVT_BOOT_COMPLETE
           ([bool_byte (st_fails = 0), 0, 0, 0] @ le32_bytes (of_nat (first_raised (fs s3)))) s3)"

text \<open>What can happen to the supervisor once booted: a tick, or a request of another task.\<close>

datatype sup_event = Tick tick_env | Post safety_req_type u8 u32

fun sup_step :: "sup_event \<Rightarrow> safety_state \<Rightarrow> safety_state" where
  "sup_step (Tick e) s = safety_tick e s"
| "sup_step (Post ty a8 a32) s = snd (post_safety_req ty a8 a32 s)"

definition sup_run :: "sup_event list \<Rightarrow> safety_state \<Rightarrow> safety_state" where
  "sup_run evs s = fold sup_step evs s"

text \<open>The states the supervisor reaches from any boot; other tasks may have queued requests by then.\<close>

inductive reachable :: "safety_state \<Rightarrow> bool" where
  booted: "length mvs = 5 \<Longrightarrow> length q \<le> SAFETY_INBOX_DEPTH \<Longrightarrow>
     reachable (safety_boot e mvs (safety_init\<lparr>inbox := q\<rparr>))"
| stepped: "reachable s \<Longrightarrow> reachable (sup_step ev s)"

end
