(* ===== verification/Safety_Inv.thy ===== *)
theory Safety_Inv
  imports Safety_Tick
begin

text \<open>
  The supervisor's invariant \<open>sup_ok\<close> (\<open>EVSE_FAULT\<close> whenever a latched fault is active, the
  contactor force-opened and the pilot at state F there, sessions exactly while charging and their
  published events alternating, the derate and the inbox bounded) and the contracts of the code that runs inside a tick: \<open>sup_op\<close>
  for an operation on the supervisor's state, \<open>detector\<close> for a fault check. Both are interpreted
  on the model's own functions.
\<close>

text \<open>The published session events, replayed: \<open>Some b\<close> when begin and end alternate and \<open>b\<close> says
  whether the last one was a begin.\<close>

fun session_event :: "effect \<Rightarrow> bool" where
  "session_event (Publish evt p) \<longleftrightarrow> evt = EVT_SESSION_BEGAN \<or> evt = EVT_SESSION_ENDED"
| "session_event _ \<longleftrightarrow> False"

fun replay_session :: "bool option \<Rightarrow> effect \<Rightarrow> bool option" where
  "replay_session (Some b) (Publish evt p) =
     (if evt = EVT_SESSION_BEGAN then (if b then None else Some True)
      else if evt = EVT_SESSION_ENDED then (if b then Some False else None) else Some b)"
| "replay_session st _ = st"

definition sessions_alternate :: "effect list \<Rightarrow> bool option" where
  "sessions_alternate os = foldl replay_session (Some False) os"

definition base_ok :: "safety_state \<Rightarrow> bool" where
  "base_ok s \<longleftrightarrow> fault_ok (fs s) \<and> relay_pins_ok (relay s) \<and>
     (if es s = EVSE_FAULT
      then \<not> relay_main_commanded (relay s) \<and> relay_force_open_active (relay s) \<and> ccr_ch2 (pwm s) = 0
      else \<not> relay_force_open_active (relay s)) \<and>
     (ses_active (s_session s) \<longleftrightarrow> es s = EVSE_CHARGING) \<and>
     sessions_alternate (outs s) = Some (ses_active (s_session s)) \<and>
     s_soc_derate_amps s \<le> 42 \<and> length (inbox s) \<le> SAFETY_INBOX_DEPTH"

text \<open>The faults that force \<open>EVSE_FAULT\<close>: the latched ones, and the cable-rating fault of the
  gated detector, whose id lies in the self-clearing range.\<close>

definition halting_ids :: "nat set" where
  "halting_ids = latched_ids \<union> {FAULT_CC_OUT_OF_RANGE}"

definition latch_ok :: "safety_state \<Rightarrow> bool" where
  "latch_ok s \<longleftrightarrow> (fault_any_latched_active (fs s) \<longrightarrow> es s = EVSE_FAULT) \<and>
     (es s = EVSE_FAULT \<longrightarrow> active_set (fs s) \<inter> halting_ids \<noteq> {})"

definition sup_ok :: "safety_state \<Rightarrow> bool" where
  "sup_ok s \<longleftrightarrow> base_ok s \<and> latch_ok s"

definition gfci_ok :: "safety_state \<Rightarrow> bool" where
  "gfci_ok s \<longleftrightarrow> trip_streak (gfci_ctx s) \<le> GFCI_PERSIST_TICKS \<and>
     (gfci_fault_latched (gfci_ctx s) \<longrightarrow> FAULT_GFCI \<in> active_set (fs s))"

definition running :: "safety_state \<Rightarrow> bool" where
  "running s \<longleftrightarrow> es s \<noteq> EVSE_BOOT \<and> es s \<noteq> EVSE_SELF_TEST"

definition gfci_active :: "safety_state \<Rightarrow> bool" where
  "gfci_active s \<longleftrightarrow> FAULT_GFCI \<in> active_set (fs s)"

section \<open>Frame of the supervisor's building blocks\<close>

lemma emit_frame [simp]:
  "fs (emit out s) = fs s" "es (emit out s) = es s" "cp (emit out s) = cp s"
  "relay (emit out s) = relay s" "pwm (emit out s) = pwm s" "s_session (emit out s) = s_session s"
  "inbox (emit out s) = inbox s" "gfci_ctx (emit out s) = gfci_ctx s"
  "s_soc_derate_amps (emit out s) = s_soc_derate_amps s"
  "s_session_authorized (emit out s) = s_session_authorized s"
  "s_replug_window_ticks (emit out s) = s_replug_window_ticks s"
  "evse_c_streak (emit out s) = evse_c_streak s" "prev_js (emit out s) = prev_js s"
  "prev_es (emit out s) = prev_es s" "bl (emit out s) = bl s"
  "outs (emit out s) = outs s @ [out]"
  "s_rfid_learn_ticks (emit out s) = s_rfid_learn_ticks s"
  by (simp_all add: emit_def)

lemmas publish_frame [simp] = emit_frame [of "Publish evt p" for evt p, folded comms_publish_def]

lemmas transition_defs = session_start_def session_end_def clear_soc_derate_for_session_end_def

lemma session_start_frame [simp]:
  "fs (session_start e s) = fs s" "es (session_start e s) = es s" "cp (session_start e s) = cp s"
  "relay (session_start e s) = relay s" "pwm (session_start e s) = pwm s"
  "inbox (session_start e s) = inbox s" "gfci_ctx (session_start e s) = gfci_ctx s"
  "s_soc_derate_amps (session_start e s) = s_soc_derate_amps s"
  "s_session_authorized (session_start e s) = s_session_authorized s"
  "s_replug_window_ticks (session_start e s) = s_replug_window_ticks s"
  "evse_c_streak (session_start e s) = evse_c_streak s" "prev_js (session_start e s) = prev_js s"
  "prev_es (session_start e s) = prev_es s" "bl (session_start e s) = bl s"
  "s_rfid_learn_ticks (session_start e s) = s_rfid_learn_ticks s"
  "ses_active (s_session (session_start e s))"
  by (simp_all add: session_start_def)

lemma session_end_frame [simp]:
  "fs (session_end e r s) = fs s" "es (session_end e r s) = es s" "cp (session_end e r s) = cp s"
  "relay (session_end e r s) = relay s" "pwm (session_end e r s) = pwm s"
  "inbox (session_end e r s) = inbox s" "gfci_ctx (session_end e r s) = gfci_ctx s"
  "s_session_authorized (session_end e r s) = s_session_authorized s"
  "s_replug_window_ticks (session_end e r s) = s_replug_window_ticks s"
  "evse_c_streak (session_end e r s) = evse_c_streak s" "prev_js (session_end e r s) = prev_js s"
  "prev_es (session_end e r s) = prev_es s" "bl (session_end e r s) = bl s"
  "s_rfid_learn_ticks (session_end e r s) = s_rfid_learn_ticks s"
  "\<not> ses_active (s_session (session_end e r s))"
  "s_soc_derate_amps (session_end e r s) =
     (if ses_active (s_session s) then 0 else s_soc_derate_amps s)"
  by (simp_all add: session_end_def clear_soc_derate_for_session_end_def Let_def)

lemma evse_transition_frame [simp]:
  "fs (evse_transition e n s) = fs s" "cp (evse_transition e n s) = cp s"
  "inbox (evse_transition e n s) = inbox s" "gfci_ctx (evse_transition e n s) = gfci_ctx s"
  "s_session_authorized (evse_transition e n s) = s_session_authorized s"
  "s_replug_window_ticks (evse_transition e n s) = s_replug_window_ticks s"
  "evse_c_streak (evse_transition e n s) = evse_c_streak s"
  "prev_js (evse_transition e n s) = prev_js s" "prev_es (evse_transition e n s) = prev_es s"
  "bl (evse_transition e n s) = bl s"
  "s_rfid_learn_ticks (evse_transition e n s) = s_rfid_learn_ticks s"
  "es (evse_transition e n s) = n"
  by (simp_all add: evse_transition_def Let_def)

lemma commanded_transition:
  "relay_main_commanded (relay (evse_transition e n s)) \<Longrightarrow> relay_main_commanded (relay s)"
  by (auto simp: evse_transition_def Let_def relay_defs split: if_splits)

lemma replay_other: "\<not> session_event out \<Longrightarrow> replay_session st out = st"
  by (cases "(st, out)" rule: replay_session.cases) auto

lemma sessions_snoc: "sessions_alternate (os @ [out]) = replay_session (sessions_alternate os) out"
  by (simp add: sessions_alternate_def)

lemma alternate_start:
  "sessions_alternate (outs s) = Some (ses_active (s_session s)) \<Longrightarrow> \<not> ses_active (s_session s) \<Longrightarrow>
   sessions_alternate (outs (session_start e s)) = Some True"
  by (simp add: session_start_def sessions_snoc)

lemma alternate_end:
  "sessions_alternate (outs s) = Some (ses_active (s_session s)) \<Longrightarrow>
   sessions_alternate (outs (session_end e r s)) = Some False"
  by (auto simp: session_end_def clear_soc_derate_for_session_end_def Let_def sessions_snoc)

lemma base_ok_transition: "base_ok s \<Longrightarrow> base_ok (evse_transition e n s)"
  by (auto simp: evse_transition_def base_ok_def Let_def relay_pins_ok_def relay_defs alternate_start
      alternate_end)

lemma post_fault_frame [simp]:
  "fs (post_fault_event e f js ev mv s) = fs s" "es (post_fault_event e f js ev mv s) = es s"
  "cp (post_fault_event e f js ev mv s) = cp s" "relay (post_fault_event e f js ev mv s) = relay s"
  "pwm (post_fault_event e f js ev mv s) = pwm s" "inbox (post_fault_event e f js ev mv s) = inbox s"
  "gfci_ctx (post_fault_event e f js ev mv s) = gfci_ctx s"
  "s_soc_derate_amps (post_fault_event e f js ev mv s) = s_soc_derate_amps s"
  "s_session_authorized (post_fault_event e f js ev mv s) = s_session_authorized s"
  "s_replug_window_ticks (post_fault_event e f js ev mv s) = s_replug_window_ticks s"
  "evse_c_streak (post_fault_event e f js ev mv s) = evse_c_streak s"
  "prev_js (post_fault_event e f js ev mv s) = prev_js s"
  "prev_es (post_fault_event e f js ev mv s) = prev_es s" "bl (post_fault_event e f js ev mv s) = bl s"
  "s_rfid_learn_ticks (post_fault_event e f js ev mv s) = s_rfid_learn_ticks s"
  "ses_active (s_session (post_fault_event e f js ev mv s)) = ses_active (s_session s)"
  "ses_mws_accum (s_session (post_fault_event e f js ev mv s)) = ses_mws_accum (s_session s)"
  by (simp_all add: post_fault_event_def Let_def)

lemma post_fault_alternate [simp]:
  "sessions_alternate (outs (post_fault_event e f js ev mv s)) = sessions_alternate (outs s)"
  by (simp add: post_fault_event_def Let_def sessions_snoc replay_other)

lemma raise_fault_alternate [simp]:
  "sessions_alternate (outs (raise_fault e f js mv s)) = sessions_alternate (outs s)"
  by (simp add: raise_fault_def Let_def case_prod_unfold)

lemma raise_fault_frame [simp]:
  "fs (raise_fault e f js mv s) = snd (fault_raise (fs s) f)" "es (raise_fault e f js mv s) = es s"
  "cp (raise_fault e f js mv s) = cp s" "relay (raise_fault e f js mv s) = relay s"
  "pwm (raise_fault e f js mv s) = pwm s" "inbox (raise_fault e f js mv s) = inbox s"
  "gfci_ctx (raise_fault e f js mv s) = gfci_ctx s"
  "s_soc_derate_amps (raise_fault e f js mv s) = s_soc_derate_amps s"
  "s_session_authorized (raise_fault e f js mv s) = s_session_authorized s"
  "s_replug_window_ticks (raise_fault e f js mv s) = s_replug_window_ticks s"
  "evse_c_streak (raise_fault e f js mv s) = evse_c_streak s"
  "prev_js (raise_fault e f js mv s) = prev_js s" "prev_es (raise_fault e f js mv s) = prev_es s"
  "bl (raise_fault e f js mv s) = bl s"
  "s_rfid_learn_ticks (raise_fault e f js mv s) = s_rfid_learn_ticks s"
  "ses_active (s_session (raise_fault e f js mv s)) = ses_active (s_session s)"
  by (simp_all add: raise_fault_def Let_def split: prod.splits)

lemma trip_fault_frame [simp]:
  "fs (trip_fault e f js mv s) = snd (fault_raise (fs s) f)" "es (trip_fault e f js mv s) = EVSE_FAULT"
  "cp (trip_fault e f js mv s) = cp s" "inbox (trip_fault e f js mv s) = inbox s"
  "gfci_ctx (trip_fault e f js mv s) = gfci_ctx s"
  "s_session_authorized (trip_fault e f js mv s) = s_session_authorized s"
  "s_replug_window_ticks (trip_fault e f js mv s) = s_replug_window_ticks s"
  "evse_c_streak (trip_fault e f js mv s) = evse_c_streak s"
  "prev_js (trip_fault e f js mv s) = prev_js s" "prev_es (trip_fault e f js mv s) = prev_es s"
  "bl (trip_fault e f js mv s) = bl s"
  "s_rfid_learn_ticks (trip_fault e f js mv s) = s_rfid_learn_ticks s"
  by (simp_all add: trip_fault_def)

lemma base_ok_raise: "base_ok s \<Longrightarrow> base_ok (raise_fault e f js mv s)"
  by (simp add: base_ok_def fault_ok_raise)

lemma sup_ok_raise:
  "sup_ok s \<Longrightarrow> f \<notin> latched_ids \<Longrightarrow> sup_ok (raise_fault e f js mv s)"
  by (cases "FID_OK f") (auto simp: sup_ok_def base_ok_raise latch_ok_def fault_any_latched_iff active_set_raise)

lemma sup_ok_trip:
  assumes "sup_ok s" "f \<in> halting_ids"
  shows "sup_ok (trip_fault e f js mv s)"
proof -
  have "FID_OK f" using assms(2) by (auto simp: halting_ids_def latched_ids_def FID_OK_def)
  with assms show ?thesis
    by (auto simp: sup_ok_def trip_fault_def base_ok_transition base_ok_raise latch_ok_def
        fault_any_latched_iff active_set_raise)
qed

lemma sup_ok_transition:
  "sup_ok s \<Longrightarrow> n \<noteq> EVSE_FAULT \<Longrightarrow> es s \<noteq> EVSE_FAULT \<Longrightarrow> sup_ok (evse_transition e n s)"
  by (auto simp: sup_ok_def base_ok_transition latch_ok_def)

lemma gfci_active_raise: "FAULT_GFCI \<in> active_set f \<Longrightarrow> FAULT_GFCI \<in> active_set (snd (fault_raise f i))"
  using gfci_sticky_apply [of f "Raise i"] by simp

lemma gfci_active_clear: "FAULT_GFCI \<in> active_set f \<Longrightarrow> FAULT_GFCI \<in> active_set (snd (fault_clear f i))"
  using gfci_sticky_apply [of f "Clear i"] by simp

lemma trip_not_commanded: "sup_ok s \<Longrightarrow> f \<in> halting_ids \<Longrightarrow> \<not> relay_main_commanded (relay (trip_fault e f js mv s))"
  using sup_ok_trip [of s f e js mv] by (simp add: sup_ok_def base_ok_def)

text \<open>Updates of bookkeeping fields do not touch the invariant.\<close>

lemma sup_ok_upd [simp]:
  "sup_ok (s\<lparr>weld_streak := n\<rparr>) = sup_ok s" "sup_ok (s\<lparr>stuck_open_streak := n\<rparr>) = sup_ok s"
  "sup_ok (s\<lparr>cp_e_streak := n\<rparr>) = sup_ok s" "sup_ok (s\<lparr>pe_streak := n\<rparr>) = sup_ok s"
  "sup_ok (s\<lparr>pe_log_tick := n\<rparr>) = sup_ok s" "sup_ok (s\<lparr>cc_streak := n\<rparr>) = sup_ok s"
  "sup_ok (s\<lparr>adc_runtime_streak := n\<rparr>) = sup_ok s" "sup_ok (s\<lparr>gfci_ctx := g\<rparr>) = sup_ok s"
  "sup_ok (s\<lparr>ot_ctx := ot\<rparr>) = sup_ok s" "sup_ok (s\<lparr>ac_absent_streak := n\<rparr>) = sup_ok s"
  "sup_ok (s\<lparr>weld_bl_streak := n\<rparr>) = sup_ok s" "sup_ok (s\<lparr>weld_settle_polls := n\<rparr>) = sup_ok s"
  "sup_ok (s\<lparr>weld_prev_commanded := i\<rparr>) = sup_ok s" "sup_ok (s\<lparr>stuck_open_bl_streak := n\<rparr>) = sup_ok s"
  "sup_ok (s\<lparr>hoc_streak := n\<rparr>) = sup_ok s" "sup_ok (s\<lparr>soc_streak := n\<rparr>) = sup_ok s"
  "sup_ok (s\<lparr>evse_c_streak := n\<rparr>) = sup_ok s" "sup_ok (s\<lparr>cp := c\<rparr>) = sup_ok s"
  "sup_ok (s\<lparr>last_logged_j1772 := j\<rparr>) = sup_ok s" "sup_ok (s\<lparr>prev_js := j\<rparr>) = sup_ok s"
  "sup_ok (s\<lparr>prev_es := ev\<rparr>) = sup_ok s" "sup_ok (s\<lparr>bl := b\<rparr>) = sup_ok s"
  "sup_ok (s\<lparr>bl0939_poll_div := n\<rparr>) = sup_ok s" "sup_ok (s\<lparr>rfid_c := r\<rparr>) = sup_ok s"
  "sup_ok (s\<lparr>rfid_keepalive_div := n\<rparr>) = sup_ok s" "sup_ok (s\<lparr>s_rfid_learn_ticks := n\<rparr>) = sup_ok s"
  "sup_ok (s\<lparr>s_replug_window_ticks := n\<rparr>) = sup_ok s"
  "sup_ok (s\<lparr>s_session_authorized := b'\<rparr>) = sup_ok s"
  "\<not> session_event out \<Longrightarrow> sup_ok (emit out s) = sup_ok s"
  "\<not> session_event (Publish evt p) \<Longrightarrow> sup_ok (comms_publish evt p s) = sup_ok s"
  "sup_ok (post_fault_event e f js ev' mv s) = sup_ok s"
  by (simp_all add: sup_ok_def base_ok_def latch_ok_def comms_publish_def sessions_snoc replay_other)

section \<open>Contracts\<close>

locale sup_op =
  fixes f :: "safety_state \<Rightarrow> safety_state"
  assumes keeps_ok: "sup_ok s \<Longrightarrow> sup_ok (f s)"
    and keeps_gfci: "gfci_active s \<Longrightarrow> gfci_active (f s)"
    and keeps_gfci_ok: "gfci_ok s \<Longrightarrow> gfci_ok (f s)"
    and keeps_running: "running s \<Longrightarrow> running (f s)"

locale detector = sup_op +
  assumes never_closes: "relay_main_commanded (relay (f s)) \<Longrightarrow> relay_main_commanded (relay s)"
    and keeps_halting: "active_set (fs s) \<inter> halting_ids \<subseteq> active_set (fs (f s))"
    and fault_stays: "es s = EVSE_FAULT \<Longrightarrow> es (f s) = EVSE_FAULT"
    and keeps_pilot: "cp (f s) = cp s"
    and keeps_dwell: "evse_c_streak (f s) = evse_c_streak s"
    and keeps_auth: "s_session_authorized (f s) = s_session_authorized s"
    and keeps_replug: "s_replug_window_ticks (f s) = s_replug_window_ticks s"
    and never_starts: "es (f s) = EVSE_CHARGING \<Longrightarrow> es s = EVSE_CHARGING"

text \<open>A detector that only ever leaves the supervisor's state for \<open>EVSE_FAULT\<close>.\<close>

locale hard_detector = detector +
  assumes only_to_fault: "es (f s) = es s \<or> es (f s) = EVSE_FAULT"
    and keeps_hw: "es (f s) = es s \<Longrightarrow> relay (f s) = relay s \<and> pwm (f s) = pwm s"

lemma sup_op_comp: "sup_op f \<Longrightarrow> sup_op g \<Longrightarrow> sup_op (\<lambda>s. g (f s))"
  by (simp add: sup_op_def)

lemma detector_comp:
  assumes "detector f" "detector g"
  shows "detector (\<lambda>s. g (f s))"
proof (rule detector.intro [OF sup_op_comp [of f g] detector_axioms.intro])
  note f = detector.never_closes [OF assms(1)] detector.keeps_halting [OF assms(1)]
    detector.fault_stays [OF assms(1)] detector.never_starts [OF assms(1)]
  note g = detector.never_closes [OF assms(2)] detector.keeps_halting [OF assms(2)]
    detector.fault_stays [OF assms(2)] detector.never_starts [OF assms(2)]
  show "sup_op f" "sup_op g" using assms by (simp_all add: detector_def)
  show "active_set (fs s) \<inter> halting_ids \<subseteq> active_set (fs (g (f s)))" for s
    using f(2) [of s] g(2) [of "f s"] by blast
  show "relay_main_commanded (relay (g (f s))) \<Longrightarrow> relay_main_commanded (relay s)" for s
    using f(1) g(1) by blast
  show "es s = EVSE_FAULT \<Longrightarrow> es (g (f s)) = EVSE_FAULT" for s using f(3) g(3) by blast
  show "es (g (f s)) = EVSE_CHARGING \<Longrightarrow> es s = EVSE_CHARGING" for s using f(4) g(4) by blast
qed (simp_all only: detector.keeps_pilot [OF assms(1)] detector.keeps_pilot [OF assms(2)]
    detector.keeps_dwell [OF assms(1)] detector.keeps_dwell [OF assms(2)]
    detector.keeps_auth [OF assms(1)] detector.keeps_auth [OF assms(2)]
    detector.keeps_replug [OF assms(1)] detector.keeps_replug [OF assms(2)])

lemma hard_detector_comp:
  assumes "hard_detector f" "hard_detector g"
  shows "hard_detector (\<lambda>s. g (f s))"
proof (rule hard_detector.intro [OF detector_comp [of f g] hard_detector_axioms.intro])
  show "detector f" "detector g" using assms by (simp_all add: hard_detector_def)
  show "es (g (f s)) = es s \<or> es (g (f s)) = EVSE_FAULT" for s
    using hard_detector.only_to_fault [OF assms(1), of s] hard_detector.only_to_fault [OF assms(2), of "f s"]
    by auto
  show "relay (g (f s)) = relay s \<and> pwm (g (f s)) = pwm s" if "es (g (f s)) = es s" for s
  proof -
    have "es (f s) = es s"
      using that hard_detector.only_to_fault [OF assms(1), of s]
        detector.fault_stays [OF hard_detector.axioms(1) [OF assms(2)], of "f s"] by auto
    with that hard_detector.keeps_hw [OF assms(1), of s] hard_detector.keeps_hw [OF assms(2), of "f s"]
    show ?thesis by simp
  qed
qed

lemma detector_id: "hard_detector (\<lambda>s. s)"
  by unfold_locales auto

section \<open>The detectors keep the contract\<close>

lemma raise_keeps [simp]: "x \<in> active_set f \<Longrightarrow> x \<in> active_set (snd (fault_raise f i))"
  by (cases "FID_OK i") (auto simp: active_set_raise)

lemma not_closed_by_trip:
  "relay_main_commanded (relay (trip_fault e f js mv s)) \<Longrightarrow> relay_main_commanded (relay s)"
  by (auto simp: trip_fault_def dest: commanded_transition)

lemma trip_hw [simp]:
  "es s = EVSE_FAULT \<Longrightarrow> relay (trip_fault e f js mv s) = relay s"
  "es s = EVSE_FAULT \<Longrightarrow> pwm (trip_fault e f js mv s) = pwm s"
  "EVSE_FAULT = es s \<Longrightarrow> relay (trip_fault e f js mv s) = relay s"
  "EVSE_FAULT = es s \<Longrightarrow> pwm (trip_fault e f js mv s) = pwm s"
  by (auto simp: trip_fault_def evse_transition_def Let_def)

lemmas detector_simps = Let_def gfci_ok_def gfci_active_def running_def settling_def

lemma halting_member [simp]:
  "FAULT_CRASH_LOOP_SAFE_FAIL \<in> halting_ids" "FAULT_RELAY_WELD \<in> halting_ids"
  "FAULT_RELAY_STUCK_OPEN \<in> halting_ids" "FAULT_CP_NO_PILOT \<in> halting_ids"
  "FAULT_PE_CONTINUITY \<in> halting_ids" "FAULT_CC_OUT_OF_RANGE \<in> halting_ids"
  "FAULT_ADC_OUT_OF_RANGE \<in> halting_ids" "FAULT_GFCI \<in> halting_ids" "Suc 0 \<in> halting_ids"
  "FAULT_HARD_OVER_CURRENT \<in> halting_ids" "FAULT_BOOT_SELF_TEST \<in> halting_ids"
  "FAULT_GFCI_SELF_TEST \<in> halting_ids"
  by (simp_all add: halting_ids_def latched_ids_def)

interpretation safe_fail_det: hard_detector "check_safe_fail e js mv" for e js mv
  by unfold_locales
    (auto simp: check_safe_fail_def detector_simps intro!: sup_ok_trip dest!: not_closed_by_trip split: if_splits)

interpretation weld_det: hard_detector "check_relay_weld e js mv" for e js mv
  by unfold_locales
    (auto simp: check_relay_weld_def detector_simps intro!: sup_ok_trip dest!: not_closed_by_trip split: if_splits)

interpretation stuck_det: hard_detector "check_relay_stuck_open e js mv" for e js mv
  by unfold_locales
    (auto simp: check_relay_stuck_open_def detector_simps intro!: sup_ok_trip dest!: not_closed_by_trip split: if_splits)

interpretation cp_e_det: hard_detector "check_cp_e e js mv" for e js mv
  by unfold_locales
    (auto simp: check_cp_e_def detector_simps intro!: sup_ok_trip dest!: not_closed_by_trip split: if_splits)

interpretation pe_det: hard_detector "check_pe_continuity e js mv" for e js mv
  by unfold_locales
    (auto simp: check_pe_continuity_def detector_simps intro!: sup_ok_trip dest!: not_closed_by_trip split: if_splits)

interpretation cc_det: hard_detector "check_cc_out_of_range e js mv" for e js mv
  by unfold_locales
    (auto simp: check_cc_out_of_range_def detector_simps intro!: sup_ok_trip dest!: not_closed_by_trip split: if_splits)

interpretation adc_det: hard_detector "check_adc_runtime e js mv" for e js mv
  by unfold_locales
    (auto simp: check_adc_runtime_def detector_simps intro!: sup_ok_trip dest!: not_closed_by_trip split: if_splits)

end
