(* ===== verification/Safety_Contracts.thy ===== *)
theory Safety_Contracts
  imports Safety_Inv
begin

text \<open>
  The contracts of \<^verbatim>\<open>Safety_Inv\<close> for the remaining detectors and for the control flow: the ground
  fault, over-temperature and metering checks are detectors, their compositions are, and every
  block of the tick, the tick itself and the boot keep the supervisor's invariant.
\<close>

section \<open>Remaining detectors\<close>

lemma sup_ok_clear:
  "sup_ok s \<Longrightarrow> f \<notin> halting_ids \<Longrightarrow> fs s = g \<Longrightarrow> sup_ok (s\<lparr>fs := snd (fault_clear g f)\<rparr>)"
  by (auto simp: sup_ok_def base_ok_def latch_ok_def fault_any_latched_iff active_set_clear
      fault_clear_ok halting_ids_def)

lemma not_halting [simp]:
  "FAULT_OVER_TEMP \<notin> halting_ids" "FAULT_AC_ABSENT \<notin> halting_ids" "FAULT_SOFT_OVER_CURRENT \<notin> halting_ids"
  by (simp_all add: halting_ids_def latched_ids_def)

lemma not_latched [simp]:
  "FAULT_OVER_TEMP \<notin> latched_ids" "FAULT_AC_ABSENT \<notin> latched_ids" "FAULT_SOFT_OVER_CURRENT \<notin> latched_ids"
  by (simp_all add: latched_ids_def)

lemma clear_keeps [simp]:
  "x \<noteq> i \<Longrightarrow> x \<in> active_set (snd (fault_clear f i)) \<longleftrightarrow> x \<in> active_set f"
  by (simp add: active_set_clear)

lemma halting_cases: "x \<in> halting_ids \<Longrightarrow> x \<noteq> 16 \<and> x \<noteq> 17 \<and> x \<noteq> 19"
  by (auto simp: halting_ids_def latched_ids_def)

lemma gfci_step_streak:
  "trip_streak c \<le> 3 \<Longrightarrow> trip_streak (fst (gfci_policy_step c low pol)) \<le> 3"
  by (simp add: gfci_step_ctx)

lemma gfci_ok_check:
  assumes "gfci_ok s"
  shows "gfci_ok (check_gfci e js mv s)"
proof -
  let ?low = "if gfci_handshake e then False else gfci_line_low e"
  obtain c a where r: "gfci_policy_step (gfci_ctx s) ?low (cfg_gfci_policy e) = (c, a)" by force
  have "trip_streak c \<le> 3" "gfci_fault_latched c \<longleftrightarrow> gfci_fault_latched (gfci_ctx s) \<or> a = GFCI_ACT_RAISE_FAULT"
    using gfci_step_streak [of "gfci_ctx s" ?low "cfg_gfci_policy e"]
      gfci_step_ctx(2) [of "gfci_ctx s" ?low "cfg_gfci_policy e"] assms
    by (simp_all add: r gfci_ok_def)
  moreover have "FAULT_GFCI \<in> active_set (snd (fault_raise f FAULT_GFCI))" for f
    by (subst active_set_raise) (auto simp: FID_OK_def)
  ultimately show ?thesis
    using assms unfolding check_gfci_def Let_def r
    by (cases a) (auto simp: gfci_ok_def)
qed

interpretation gfci_det: hard_detector "check_gfci e js mv" for e js mv
  by unfold_locales
    (auto simp: gfci_ok_check, auto simp: check_gfci_def detector_simps intro!: sup_ok_trip
      dest!: not_closed_by_trip split: if_splits prod.splits gfci_policy_action.splits)

interpretation weld_bl_det: hard_detector "check_relay_weld_bl0939 e js mv" for e js mv
  by unfold_locales
    (auto simp: check_relay_weld_bl0939_def detector_simps intro!: sup_ok_trip dest!: not_closed_by_trip split: if_splits)

interpretation stuck_bl_det: hard_detector "check_relay_stuck_open_bl0939 e js mv" for e js mv
  by unfold_locales
    (auto simp: check_relay_stuck_open_bl0939_def detector_simps intro!: sup_ok_trip dest!: not_closed_by_trip split: if_splits)

interpretation hoc_det: hard_detector "check_hard_over_current e js mv" for e js mv
  by unfold_locales
    (auto simp: check_hard_over_current_def detector_simps intro!: sup_ok_trip dest!: not_closed_by_trip split: if_splits)

interpretation regression_det: hard_detector "check_cp_regression e js mv" for e js mv
  by unfold_locales (auto simp: check_cp_regression_def detector_simps split: if_splits)

interpretation ac_det: hard_detector "check_ac_absent e js mv" for e js mv
  by unfold_locales
    (auto simp: check_ac_absent_def detector_simps intro!: sup_ok_raise sup_ok_clear split: if_splits dest: halting_cases)

section \<open>Derating\<close>

lemma effective_bounds:
  "effective_advertised_amps e s \<le> 48" "SOC_DERATE_FLOOR_A \<le> effective_advertised_amps e s"
  by (auto simp: effective_advertised_amps_def Let_def)

lemma effective_room:
  "SOC_DERATE_FLOOR_A < effective_advertised_amps e s \<Longrightarrow>
   s_soc_derate_amps s + effective_advertised_amps e s \<le> 48"
  by (auto simp: effective_advertised_amps_def Let_def split: if_splits)

lemma derate_step:
  assumes "SOC_DERATE_FLOOR_A < effective_advertised_amps e s"
  defines "adv \<equiv> effective_advertised_amps e s"
  shows "s_soc_derate_amps s + (if adv \<ge> 10 then adv div 10 else 1) \<le> 42"
  using effective_room [OF assms(1)] assms(1) unfolding adv_def by auto

lemma base_ok_derate:
  "sup_ok s \<Longrightarrow> n \<le> 42 \<Longrightarrow> sup_ok (s\<lparr>s_soc_derate_amps := n\<rparr>)"
  by (simp add: sup_ok_def base_ok_def latch_ok_def)

lemma soc_keeps_ok: "sup_ok s \<Longrightarrow> sup_ok (check_soft_over_current e js mv s)"
  using derate_step [of e s]
  by (auto simp: check_soft_over_current_def Let_def case_prod_unfold
      intro!: sup_ok_raise sup_ok_clear base_ok_derate)

interpretation soc_det: hard_detector "check_soft_over_current e js mv" for e js mv
  by unfold_locales
    (auto simp: soc_keeps_ok, auto simp: check_soft_over_current_def detector_simps halting_cases
      case_prod_unfold split: if_splits)

section \<open>Over-temperature\<close>

lemma over_temp_trip_inactive:
  "ot_trip (snd (over_temp_step c r1 r2 m1 m2)) \<Longrightarrow> \<not> ot_fault_active c"
  by (simp add: over_temp_step_trip)

lemma over_temp_keeps_ok: "sup_ok s \<Longrightarrow> sup_ok (check_over_temp e r1 r2 s)"
  by (auto simp: check_over_temp_def Let_def case_prod_unfold
      intro!: sup_ok_transition sup_ok_raise sup_ok_clear)

interpretation over_temp_det: detector "check_over_temp e r1 r2" for e r1 r2
  by unfold_locales
    (auto simp: over_temp_keeps_ok, auto simp: check_over_temp_def detector_simps halting_cases
      case_prod_unfold dest!: commanded_transition split: if_splits)

interpretation fault_checks_det: detector "fault_checks e js mv" for e js mv
proof -
  have weld: "hard_detector (\<lambda>s. if RELAY_FEEDBACK_KNOWN (flags e)
      then check_relay_stuck_open e js mv (check_relay_weld e js mv s) else s)"
    using hard_detector_comp [OF weld_det.hard_detector_axioms stuck_det.hard_detector_axioms] detector_id
    by (cases "RELAY_FEEDBACK_KNOWN (flags e)") simp_all
  note c = hard_detector_comp
  have "hard_detector (\<lambda>s. check_cp_e e js mv (check_cc_out_of_range e js mv (check_adc_runtime e js mv
      (check_pe_continuity e js mv (check_gfci e js mv
        ((\<lambda>s. if RELAY_FEEDBACK_KNOWN (flags e)
          then check_relay_stuck_open e js mv (check_relay_weld e js mv s) else s)
          (check_safe_fail e js mv s)))))))"
    by (rule c [OF c [OF c [OF c [OF c [OF c [OF safe_fail_det.hard_detector_axioms weld]
      gfci_det.hard_detector_axioms] pe_det.hard_detector_axioms] adc_det.hard_detector_axioms]
      cc_det.hard_detector_axioms] cp_e_det.hard_detector_axioms])
  then have "detector (fault_checks e js mv)"
    unfolding fault_checks_def Let_def
    by (intro detector_comp [OF hard_detector.axioms(1) over_temp_det.detector_axioms])
  then show "detector (fault_checks e js mv)" .
qed

interpretation meter_checks_det: hard_detector "meter_checks e js mv" for e js mv
  unfolding meter_checks_def Let_def
  by (rule hard_detector_comp [OF hard_detector_comp [OF hard_detector_comp [OF hard_detector_comp
    [OF ac_det.hard_detector_axioms weld_bl_det.hard_detector_axioms]
    stuck_bl_det.hard_detector_axioms] hoc_det.hard_detector_axioms] soc_det.hard_detector_axioms])

end
