(* ===== verification/Safety_Flow.thy ===== *)
theory Safety_Flow
  imports Safety_Contracts
begin

text \<open>
  The control flow of the tick keeps the supervisor's invariant: requests, the inbox loop, the
  replug window, the classifier, the pilot-driven transitions, the outputs, metering and RFID
  blocks, the tick, and the boot sequence, each an instance of \<open>sup_op\<close>; and what a tick leaves
  behind on the contactor and the pilot.
\<close>

section \<open>Requests\<close>

lemma active_set_first [simp]: "active_set (f\<lparr>first_raised := x\<rparr>) = active_set f"
  by (simp add: active_set_def)

lemma fault_ok_no_first: "fault_ok f \<Longrightarrow> fault_ok (f\<lparr>first_raised := FAULT_NONE\<rparr>)"
  by (simp add: fault_ok_def)

lemma clear_requested_Some:
  assumes "clear_requested fid f = Some (c, f')"
  shows "fault_ok f \<Longrightarrow> fault_ok f'" "active_set f' \<subseteq> active_set f"
    "FAULT_GFCI \<in> active_set f \<Longrightarrow> FAULT_GFCI \<in> active_set f'"
  using assms active_set_clear [of f "unat fid"] active_set_clear_all [of f]
  by (auto simp: clear_requested_def Let_def case_prod_unfold fault_ok_clear_all fault_clear_ok
      split: if_splits)

lemma leave_fault_ok:
  assumes "base_ok s" "fault_any_latched_active (fs s) \<Longrightarrow> es s = EVSE_FAULT"
  shows "sup_ok (leave_fault e s)"
proof (cases "es s = EVSE_FAULT \<and> \<not> fault_any_latched_active (fs s)")
  case True
  have "base_ok (evse_transition e EVSE_READY s)" using assms(1) by (rule base_ok_transition)
  with True show ?thesis
    by (simp add: leave_fault_def Let_def sup_ok_def latch_ok_def base_ok_def fault_ok_no_first
        fault_any_latched_iff)
next
  case False
  have "halting_ids \<inter> latched_ids = latched_ids" by (auto simp: halting_ids_def)
  with False assms show ?thesis
    by (auto simp: leave_fault_def sup_ok_def latch_ok_def fault_any_latched_iff)
qed

lemma leave_fault_frame [simp]:
  "gfci_ctx (leave_fault e s) = gfci_ctx s" "active_set (fs (leave_fault e s)) = active_set (fs s)"
  "inbox (leave_fault e s) = inbox s" "evse_c_streak (leave_fault e s) = evse_c_streak s"
  "s_session_authorized (leave_fault e s) = s_session_authorized s"
  by (simp_all add: leave_fault_def Let_def)

lemma base_ok_fs: "base_ok s \<Longrightarrow> fault_ok f \<Longrightarrow> base_ok (s\<lparr>fs := f\<rparr>)"
  by (simp add: base_ok_def)

lemma base_ok_upd [simp]:
  "base_ok (s\<lparr>cp_e_streak := n\<rparr>) = base_ok s"
  "\<not> session_event (Publish evt p) \<Longrightarrow> base_ok (comms_publish evt p s) = base_ok s"
  by (simp_all add: base_ok_def comms_publish_def sessions_snoc replay_other)

lemma request_clear_ok:
  assumes "sup_ok s"
  shows "sup_ok (request_clear_fault e fid s)"
proof (cases "clear_requested fid (fs s)")
  case None
  with assms show ?thesis by (simp add: request_clear_fault_def)
next
  case (Some cf)
  obtain c f where cf: "cf = (c, f)" by force
  note cl = clear_requested_Some [OF Some [unfolded cf]]
  have base: "base_ok (s\<lparr>fs := f\<rparr>)"
    using assms cl(1) by (simp add: sup_ok_def base_ok_fs) (simp add: base_ok_def)
  have "fault_any_latched_active f \<Longrightarrow> es s = EVSE_FAULT"
    using assms cl(2) by (auto simp: sup_ok_def latch_ok_def fault_any_latched_iff)
  with base show ?thesis
    unfolding request_clear_fault_def Some cf by (auto simp: Let_def intro!: leave_fault_ok)
qed

lemma replug_ok: "sup_ok s \<Longrightarrow> sup_ok (request_simulate_replug e s)"
proof -
  have pwm: "sup_ok (t\<lparr>s_replug_window_ticks := n, pwm := p\<rparr>)"
    if "sup_ok t" "es t \<noteq> EVSE_FAULT" for t n p
    using that by (simp add: sup_ok_def base_ok_def latch_ok_def)
  show "sup_ok s \<Longrightarrow> ?thesis"
    by (auto simp: request_simulate_replug_def Let_def intro!: pwm sup_ok_transition)
qed

interpretation request_op: sup_op "process_request e r" for e r
proof
  show "sup_ok s \<Longrightarrow> sup_ok (process_request e r s)" for s
    by (auto simp: process_request_def request_clear_ok replug_ok publish_rfid_config_def
        publish_gfci_policy_def intro!: sup_ok_transition split: safety_req_type.split)
  have clear: "gfci_active s \<Longrightarrow> gfci_active (request_clear_fault e fid s)"
    "gfci_ok s \<Longrightarrow> gfci_ok (request_clear_fault e fid s)"
    "running s \<Longrightarrow> running (request_clear_fault e fid s)" for fid s
    using clear_requested_Some(3) [of fid "fs s"]
    by (auto simp: request_clear_fault_def gfci_active_def gfci_ok_def running_def leave_fault_def Let_def
        split: option.splits)
  show "gfci_active s \<Longrightarrow> gfci_active (process_request e r s)"
    and "gfci_ok s \<Longrightarrow> gfci_ok (process_request e r s)"
    and "running s \<Longrightarrow> running (process_request e r s)" for s
    using clear [of s]
    by (auto simp: process_request_def request_simulate_replug_def publish_rfid_config_def
        publish_gfci_policy_def gfci_active_def gfci_ok_def running_def Let_def split: safety_req_type.split)
qed

lemma sup_ok_inbox: "sup_ok s \<Longrightarrow> length q \<le> SAFETY_INBOX_DEPTH \<Longrightarrow> sup_ok (s\<lparr>inbox := q\<rparr>)"
  by (simp add: sup_ok_def base_ok_def latch_ok_def)

lemma sup_ok_inbox_tail: "sup_ok s \<Longrightarrow> inbox s = r # rs \<Longrightarrow> sup_ok (s\<lparr>inbox := rs\<rparr>)"
  by (simp add: sup_ok_def base_ok_def latch_ok_def)

lemma gfci_inbox [simp]:
  "gfci_active (s\<lparr>inbox := q\<rparr>) = gfci_active s" "gfci_ok (s\<lparr>inbox := q\<rparr>) = gfci_ok s"
  "running (s\<lparr>inbox := q\<rparr>) = running s"
  by (simp_all add: gfci_active_def gfci_ok_def running_def)

lemma drain_loop_keeps:
  "sup_ok s \<Longrightarrow> sup_ok (drain_loop n e s)"
  "gfci_active s \<Longrightarrow> gfci_active (drain_loop n e s)"
  "gfci_ok s \<Longrightarrow> gfci_ok (drain_loop n e s)"
  "running s \<Longrightarrow> running (drain_loop n e s)"
  by (induction n arbitrary: s)
    (simp_all add: request_op.keeps_ok request_op.keeps_gfci request_op.keeps_gfci_ok request_op.keeps_running sup_ok_inbox_tail
      split: list.split)

interpretation drain_op: sup_op "drain_inbox e" for e
  by unfold_locales (simp_all add: drain_inbox_def drain_loop_keeps)

section \<open>Blocks of the tick\<close>

interpretation replug_op: sup_op "service_replug_window e" for e
  by unfold_locales
    (auto simp: service_replug_window_def Let_def gfci_active_def gfci_ok_def running_def intro!: sup_ok_transition)

interpretation classify_op: sup_op "classify_pilot e" for e
  by unfold_locales (auto simp: classify_pilot_def Let_def gfci_active_def gfci_ok_def running_def)

lemma clear_authorization_frame [simp]:
  "sup_ok (clear_authorization e js s) = sup_ok s" "es (clear_authorization e js s) = es s"
  "fs (clear_authorization e js s) = fs s" "gfci_ctx (clear_authorization e js s) = gfci_ctx s"
  "evse_c_streak (clear_authorization e js s) = evse_c_streak s"
  "relay (clear_authorization e js s) = relay s" "cp (clear_authorization e js s) = cp s"
  by (simp_all add: clear_authorization_def publish_rfid_config_def)

interpretation update_op: sup_op "update_evse_from_j1772 e js" for e js
  by unfold_locales
    (auto simp: update_evse_from_j1772_def Let_def gfci_active_def gfci_ok_def running_def intro!: sup_ok_transition)

interpretation relay_op: sup_op "apply_relay_state js" for js
  by unfold_locales
    (auto simp: apply_relay_state_def Let_def gfci_active_def gfci_ok_def running_def sup_ok_def base_ok_def
      latch_ok_def relay_defs relay_pins_ok_def)

interpretation cp_op: sup_op "apply_cp_for_state e js" for e js
  by unfold_locales
    (auto simp: apply_cp_for_state_def gfci_active_def gfci_ok_def running_def sup_ok_def base_ok_def latch_ok_def)

lemma outputs_keep:
  "sup_ok s \<Longrightarrow> sup_ok (apply_outputs e js mv s)" "gfci_active s \<Longrightarrow> gfci_active (apply_outputs e js mv s)"
  "gfci_ok s \<Longrightarrow> gfci_ok (apply_outputs e js mv s)" "running s \<Longrightarrow> running (apply_outputs e js mv s)"
proof -
  have prev: "gfci_active (s\<lparr>prev_js := j, prev_es := x\<rparr>) = gfci_active s"
    "gfci_ok (s\<lparr>prev_js := j, prev_es := x\<rparr>) = gfci_ok s"
    "running (s\<lparr>prev_js := j, prev_es := x\<rparr>) = running s" for s j x
    by (simp_all add: gfci_active_def gfci_ok_def running_def)
  show "sup_ok s \<Longrightarrow> sup_ok (apply_outputs e js mv s)" "gfci_active s \<Longrightarrow> gfci_active (apply_outputs e js mv s)"
    "gfci_ok s \<Longrightarrow> gfci_ok (apply_outputs e js mv s)" "running s \<Longrightarrow> running (apply_outputs e js mv s)"
    by (simp_all add: apply_outputs_def Let_def prev cp_op.keeps_ok relay_op.keeps_ok regression_det.keeps_ok
        update_op.keeps_ok cp_op.keeps_gfci relay_op.keeps_gfci regression_det.keeps_gfci update_op.keeps_gfci
        cp_op.keeps_gfci_ok cp_op.keeps_running relay_op.keeps_gfci_ok relay_op.keeps_running regression_det.keeps_gfci_ok regression_det.keeps_running update_op.keeps_gfci_ok update_op.keeps_running)
qed

interpretation outputs_op: sup_op "apply_outputs e js mv" for e js mv
  by unfold_locales (simp_all add: outputs_keep)

lemma integrate_energy_frame [simp]:
  "fs (integrate_energy e s) = fs s" "es (integrate_energy e s) = es s" "cp (integrate_energy e s) = cp s"
  "relay (integrate_energy e s) = relay s" "pwm (integrate_energy e s) = pwm s"
  "gfci_ctx (integrate_energy e s) = gfci_ctx s" "evse_c_streak (integrate_energy e s) = evse_c_streak s"
  "sup_ok (integrate_energy e s) = sup_ok s" "prev_js (integrate_energy e s) = prev_js s"
  "s_replug_window_ticks (integrate_energy e s) = s_replug_window_ticks s"
  "s_session_authorized (integrate_energy e s) = s_session_authorized s"
  by (simp_all add: integrate_energy_def Let_def sup_ok_def base_ok_def latch_ok_def)

interpretation energy_det: hard_detector "integrate_energy e" for e
  by unfold_locales (auto simp: gfci_active_def gfci_ok_def running_def)

text \<open>The metering block is a detector as well: it never closes the contactor.\<close>

lemma meter_update_det: "hard_detector (\<lambda>s. s\<lparr>bl0939_poll_div := n, bl := g s\<rparr>)"
  by unfold_locales (auto simp: gfci_active_def gfci_ok_def running_def)

lemma meter_div_det: "hard_detector (\<lambda>s. s\<lparr>bl0939_poll_div := g s\<rparr>)"
  by unfold_locales (auto simp: gfci_active_def gfci_ok_def running_def)

lemma hard_detector_if:
  assumes "hard_detector f" "hard_detector g"
  shows "hard_detector (\<lambda>s. if P s then f s else g s)"
proof -
  note f = hard_detector.axioms(1) [OF assms(1)] and g = hard_detector.axioms(1) [OF assms(2)]
  note sf = detector.axioms(1) [OF f] and sg = detector.axioms(1) [OF g]
  have "sup_op (\<lambda>s. if P s then f s else g s)"
    by (rule sup_op.intro)
      (simp_all add: sup_op.keeps_ok [OF sf] sup_op.keeps_ok [OF sg] sup_op.keeps_gfci [OF sf]
        sup_op.keeps_gfci [OF sg] sup_op.keeps_gfci_ok [OF sf] sup_op.keeps_gfci_ok [OF sg]
        sup_op.keeps_running [OF sf] sup_op.keeps_running [OF sg])
  moreover have "detector_axioms (\<lambda>s. if P s then f s else g s)"
    by (rule detector_axioms.intro; case_tac "P s")
      (simp_all only: if_True if_False detector.keeps_pilot [OF f] detector.keeps_pilot [OF g]
        detector.keeps_dwell [OF f] detector.keeps_dwell [OF g] detector.keeps_auth [OF f]
        detector.keeps_auth [OF g] detector.keeps_replug [OF f] detector.keeps_replug [OF g]
        detector.keeps_halting [OF f] detector.keeps_halting [OF g],
       (blast intro: detector.never_closes [OF f] detector.never_closes [OF g] detector.fault_stays [OF f]
        detector.fault_stays [OF g] detector.never_starts [OF f] detector.never_starts [OF g])+)
  moreover have "hard_detector_axioms (\<lambda>s. if P s then f s else g s)"
    using hard_detector.only_to_fault [OF assms(1)] hard_detector.only_to_fault [OF assms(2)]
      hard_detector.keeps_hw [OF assms(1)] hard_detector.keeps_hw [OF assms(2)]
    by (intro hard_detector_axioms.intro; case_tac "P s") simp_all
  ultimately show ?thesis by (intro hard_detector.intro detector.intro)
qed

interpretation meter_det: hard_detector "meter_poll e js mv" for e js mv
  unfolding meter_poll_def Let_def
  by (rule hard_detector_if
    [OF hard_detector_comp [OF hard_detector_comp [OF meter_update_det meter_checks_det.hard_detector_axioms]
      energy_det.hard_detector_axioms] meter_div_det])

section \<open>RFID block\<close>

lemma post_req_frame [simp]:
  "fs (snd (post_safety_req ty a b s)) = fs s" "es (snd (post_safety_req ty a b s)) = es s"
  "cp (snd (post_safety_req ty a b s)) = cp s" "relay (snd (post_safety_req ty a b s)) = relay s"
  "pwm (snd (post_safety_req ty a b s)) = pwm s" "gfci_ctx (snd (post_safety_req ty a b s)) = gfci_ctx s"
  "evse_c_streak (snd (post_safety_req ty a b s)) = evse_c_streak s"
  "prev_js (snd (post_safety_req ty a b s)) = prev_js s"
  "s_replug_window_ticks (snd (post_safety_req ty a b s)) = s_replug_window_ticks s"
  "s_session_authorized (snd (post_safety_req ty a b s)) = s_session_authorized s"
  "s_session (snd (post_safety_req ty a b s)) = s_session s"
  by (simp_all add: post_safety_req_def)

lemma sup_ok_post: "sup_ok s \<Longrightarrow> sup_ok (snd (post_safety_req ty a b s))"
  by (simp add: post_safety_req_def sup_ok_inbox)

lemma card_swiped_frame [simp]:
  "fs (snd (card_swiped e uid s)) = fs s" "es (snd (card_swiped e uid s)) = es s"
  "cp (snd (card_swiped e uid s)) = cp s" "relay (snd (card_swiped e uid s)) = relay s"
  "pwm (snd (card_swiped e uid s)) = pwm s" "gfci_ctx (snd (card_swiped e uid s)) = gfci_ctx s"
  "evse_c_streak (snd (card_swiped e uid s)) = evse_c_streak s"
  "prev_js (snd (card_swiped e uid s)) = prev_js s"
  "s_replug_window_ticks (snd (card_swiped e uid s)) = s_replug_window_ticks s"
  by (simp_all add: card_swiped_def authorized_swipe_def Let_def publish_rfid_config_def)

lemma sup_ok_swipe: "sup_ok s \<Longrightarrow> sup_ok (snd (card_swiped e uid s))"
  by (simp add: card_swiped_def authorized_swipe_def Let_def publish_rfid_config_def sup_ok_post)

lemma rfid_frame [simp]:
  "fs (rfid_block e s) = fs s" "es (rfid_block e s) = es s" "cp (rfid_block e s) = cp s"
  "relay (rfid_block e s) = relay s" "pwm (rfid_block e s) = pwm s"
  "gfci_ctx (rfid_block e s) = gfci_ctx s" "evse_c_streak (rfid_block e s) = evse_c_streak s"
  "prev_js (rfid_block e s) = prev_js s"
  "s_replug_window_ticks (rfid_block e s) = s_replug_window_ticks s"
  by (simp_all add: rfid_block_def rfid_timers_def rfid_edge_def Let_def case_prod_unfold)

lemma sup_ok_rfid: "sup_ok s \<Longrightarrow> sup_ok (rfid_block e s)"
  by (simp add: rfid_block_def rfid_timers_def rfid_edge_def Let_def case_prod_unfold sup_ok_swipe)

interpretation rfid_op: sup_op "rfid_block e" for e
  by unfold_locales (simp_all add: sup_ok_rfid gfci_active_def gfci_ok_def running_def)

section \<open>The tick and the boot\<close>

text \<open>The tick up to its outputs, and the whole tick, as compositions of contract keepers.\<close>

definition tick_front :: "tick_env \<Rightarrow> safety_state \<Rightarrow> safety_state" where
  "tick_front e s = classify_pilot e (service_replug_window e (drain_inbox e s))"

definition tick_js :: "tick_env \<Rightarrow> safety_state \<Rightarrow> j1772_state" where
  "tick_js e s = committed (cp (tick_front e s))"

definition tick_outputs :: "tick_env \<Rightarrow> safety_state \<Rightarrow> safety_state" where
  "tick_outputs e s =
     apply_outputs e (tick_js e s) (cp_high_in e) (fault_checks e (tick_js e s) (cp_high_in e) (tick_front e s))"

definition tick_body :: "tick_env \<Rightarrow> safety_state \<Rightarrow> safety_state" where
  "tick_body e s = rfid_block e (meter_poll e (tick_js e s) (cp_high_in e) (tick_outputs e s))"

lemma safety_tick_body:
  "safety_tick e s = tick_body e s\<lparr>snap := snapshot_of e (tick_js e s) (cp_high_in e) (tick_body e s)\<rparr>"
  by (simp add: safety_tick_def tick_body_def tick_outputs_def tick_js_def tick_front_def Let_def)

interpretation front_op: sup_op "tick_front e" for e
  by unfold_locales
    (simp_all add: tick_front_def classify_op.keeps_ok replug_op.keeps_ok drain_op.keeps_ok
      classify_op.keeps_gfci replug_op.keeps_gfci drain_op.keeps_gfci
      classify_op.keeps_gfci_ok classify_op.keeps_running replug_op.keeps_gfci_ok replug_op.keeps_running drain_op.keeps_gfci_ok drain_op.keeps_running)

interpretation body_op: sup_op "tick_body e" for e
  by unfold_locales
    (simp_all add: tick_body_def tick_outputs_def rfid_op.keeps_ok meter_det.keeps_ok outputs_op.keeps_ok
      fault_checks_det.keeps_ok front_op.keeps_ok rfid_op.keeps_gfci meter_det.keeps_gfci
      outputs_op.keeps_gfci fault_checks_det.keeps_gfci front_op.keeps_gfci rfid_op.keeps_gfci_ok rfid_op.keeps_running
      meter_det.keeps_gfci_ok meter_det.keeps_running outputs_op.keeps_gfci_ok outputs_op.keeps_running fault_checks_det.keeps_gfci_ok fault_checks_det.keeps_running front_op.keeps_gfci_ok front_op.keeps_running)

interpretation tick_op: sup_op "safety_tick e" for e
proof
  fix s
  show "sup_ok s \<Longrightarrow> sup_ok (safety_tick e s)"
    using body_op.keeps_ok [of s e] by (simp add: safety_tick_body sup_ok_def base_ok_def latch_ok_def)
  show "gfci_active s \<Longrightarrow> gfci_active (safety_tick e s)" "gfci_ok s \<Longrightarrow> gfci_ok (safety_tick e s)"
    "running s \<Longrightarrow> running (safety_tick e s)"
    using body_op.keeps_gfci [of s e] body_op.keeps_gfci_ok [of s e] body_op.keeps_running [of s e]
    by (simp_all add: safety_tick_body gfci_active_def gfci_ok_def running_def)
qed

interpretation step_op: sup_op "sup_step ev" for ev
proof (cases ev)
  case (Tick e)
  then show "sup_op (sup_step ev)"
    using tick_op.sup_op_axioms [of e] by (simp add: sup_op_def)
next
  case (Post ty a b)
  then show "sup_op (sup_step ev)"
    by (simp add: sup_op_def sup_ok_post gfci_active_def gfci_ok_def running_def)
qed

interpretation run_op: sup_op "sup_run evs" for evs
proof -
  have "sup_op (fold sup_step evs)"
    by (induction evs)
      (simp_all add: sup_op_def step_op.keeps_ok step_op.keeps_gfci step_op.keeps_gfci_ok step_op.keeps_running)
  then show "sup_op (sup_run evs)" by (simp add: sup_op_def sup_run_def)
qed

lemma self_test_gfci_frame [simp]:
  "sup_ok (snd (self_test_gfci_cal e s)) = sup_ok s" "fs (snd (self_test_gfci_cal e s)) = fs s"
  "gfci_ctx (snd (self_test_gfci_cal e s)) = gfci_ctx s"
  by (simp_all add: self_test_gfci_cal_def Let_def)

lemma boot_tests_keep:
  "sup_ok s \<Longrightarrow> sup_ok (boot_self_tests e js mv n s)"
  "gfci_ok s \<Longrightarrow> gfci_ok (boot_self_tests e js mv n s)"
  by (auto simp: boot_self_tests_def Let_def case_prod_unfold gfci_ok_def intro!: sup_ok_trip)

lemma boot_keeps:
  assumes "sup_ok s" "es s \<noteq> EVSE_FAULT" "gfci_ok s"
  shows "sup_ok (safety_boot e mvs s)" "gfci_ok (safety_boot e mvs s)"
proof -
  have t: "sup_ok (evse_transition e EVSE_SELF_TEST s)" using assms by (intro sup_ok_transition) auto
  show "sup_ok (safety_boot e mvs s)"
    unfolding safety_boot_def Let_def using t
    by (auto intro!: sup_ok_transition safe_fail_det.keeps_ok boot_tests_keep)
  have tr: "gfci_ok (evse_transition e n s) = gfci_ok s" "gfci_ok (comms_publish evt p s) = gfci_ok s"
    "gfci_ok (s\<lparr>cp := c\<rparr>) = gfci_ok s" for n s evt p c
    by (simp_all add: gfci_ok_def)
  show "gfci_ok (safety_boot e mvs s)"
    unfolding safety_boot_def Let_def using assms(3)
    by (auto simp: tr intro!: safe_fail_det.keeps_gfci_ok safe_fail_det.keeps_running boot_tests_keep)
qed

lemma safety_init_ok:
  "length q \<le> SAFETY_INBOX_DEPTH \<Longrightarrow> sup_ok (safety_init\<lparr>inbox := q\<rparr>)"
  "gfci_ok (safety_init\<lparr>inbox := q\<rparr>)"
proof -
  have "active_set fault_init = {}" by (simp add: active_set_def fault_init_def)
  then show "length q \<le> SAFETY_INBOX_DEPTH \<Longrightarrow> sup_ok (safety_init\<lparr>inbox := q\<rparr>)"
    by (simp add: sup_ok_def base_ok_def latch_ok_def fault_any_latched_iff safety_init_def relay_defs
        sessions_alternate_def relay_pins_ok_def relay_reset_def)
  show "gfci_ok (safety_init\<lparr>inbox := q\<rparr>)"
    by (simp add: gfci_ok_def safety_init_def gfci_ctx_init_def)
qed

lemma boot_running: "running (safety_boot e mvs s)"
  by (auto simp: safety_boot_def Let_def running_def)

lemma reachable_ok: "reachable s \<Longrightarrow> sup_ok s \<and> gfci_ok s \<and> running s"
proof (induction rule: reachable.induct)
  case (booted mvs q e)
  have "es (safety_init\<lparr>inbox := q\<rparr>) \<noteq> EVSE_FAULT" by (simp add: safety_init_def)
  with booted safety_init_ok boot_keeps boot_running show ?case by blast
next
  case (stepped s ev)
  then show ?case using step_op.keeps_ok step_op.keeps_gfci_ok step_op.keeps_running by blast
qed

end
