(* ===== verification/Safety_Props.thy ===== *)
theory Safety_Props
  imports Safety_Flow
begin

text \<open>
  What the supervisor guarantees: the state a tick leaves on the contactor and the pilot, the
  permanence of a ground fault, how \<open>EVSE_FAULT\<close> is left, the dwell and the authorization before
  charging, and the response of the debounced detectors.
\<close>

section \<open>Tick-end state\<close>

lemma update_evse_frame [simp]:
  "fs (update_evse_from_j1772 e js s) = fs s" "cp (update_evse_from_j1772 e js s) = cp s"
  by (simp_all add: update_evse_from_j1772_def Let_def)

lemma update_charging_C:
  "es (update_evse_from_j1772 e js s) = EVSE_CHARGING \<Longrightarrow> js = J1772_STATE_C"
  by (auto simp: update_evse_from_j1772_def Let_def split: if_splits)

lemma apply_relay_frame [simp]:
  "fs (apply_relay_state js s) = fs s" "cp (apply_relay_state js s) = cp s"
  "es (apply_relay_state js s) = es s" "evse_c_streak (apply_relay_state js s) = evse_c_streak s"
  "s_session_authorized (apply_relay_state js s) = s_session_authorized s"
  by (simp_all add: apply_relay_state_def Let_def)

lemma apply_relay_commanded:
  "relay_main_commanded (relay (apply_relay_state js s)) \<longleftrightarrow>
     es s = EVSE_CHARGING \<and> js = J1772_STATE_C \<and> \<not> fault_any_latched_active (fs s)"
  by (auto simp: apply_relay_state_def Let_def relay_defs)

lemma apply_cp_frame [simp]:
  "fs (apply_cp_for_state e js s) = fs s" "cp (apply_cp_for_state e js s) = cp s"
  "es (apply_cp_for_state e js s) = es s" "relay (apply_cp_for_state e js s) = relay s"
  "evse_c_streak (apply_cp_for_state e js s) = evse_c_streak s"
  "s_session_authorized (apply_cp_for_state e js s) = s_session_authorized s"
  by (simp_all add: apply_cp_for_state_def)

lemma regression_frame [simp]:
  "fs (check_cp_regression e js mv s) = fs s" "es (check_cp_regression e js mv s) = es s"
  by (simp_all add: check_cp_regression_def)

lemma outputs_frame [simp]:
  "fs (apply_outputs e js mv s) = fs s" "cp (apply_outputs e js mv s) = cp s"
  "es (apply_outputs e js mv s) = es (update_evse_from_j1772 e js s)"
  "evse_c_streak (apply_outputs e js mv s) = evse_c_streak (update_evse_from_j1772 e js s)"
  "s_session_authorized (apply_outputs e js mv s) = s_session_authorized (update_evse_from_j1772 e js s)"
  by (simp_all add: apply_outputs_def Let_def regression_det.keeps_pilot regression_det.keeps_dwell
      regression_det.keeps_auth)

lemma outputs_commanded:
  "relay_main_commanded (relay (apply_outputs e js mv s)) \<longleftrightarrow>
     es (apply_outputs e js mv s) = EVSE_CHARGING \<and> js = J1772_STATE_C \<and> \<not> fault_any_latched_active (fs s)"
  by (simp add: apply_outputs_def Let_def apply_relay_commanded)

lemma outputs_commanded_iff:
  assumes "sup_ok s"
  shows "relay_main_commanded (relay (apply_outputs e js mv s)) \<longleftrightarrow>
    es (apply_outputs e js mv s) = EVSE_CHARGING"
proof -
  have "sup_ok (apply_outputs e js mv s)" using assms by (rule outputs_op.keeps_ok)
  then have "\<not> fault_any_latched_active (fs s)" if "es (apply_outputs e js mv s) = EVSE_CHARGING"
    using that by (auto simp: sup_ok_def latch_ok_def)
  then show ?thesis
    using update_charging_C [of e js s] by (auto simp: outputs_commanded)
qed

lemma tick_front_fault_checks_ok: "sup_ok s \<Longrightarrow> sup_ok (fault_checks e js mv (tick_front e s))"
  by (simp add: fault_checks_det.keeps_ok front_op.keeps_ok)

lemma tick_outputs_ok: "sup_ok s \<Longrightarrow> sup_ok (tick_outputs e s)"
  by (simp add: tick_outputs_def outputs_op.keeps_ok tick_front_fault_checks_ok)

lemma tick_committed [simp]: "cp (safety_tick e s) = cp (tick_front e s)"
  by (simp add: safety_tick_body tick_body_def tick_outputs_def meter_det.keeps_pilot
      fault_checks_det.keeps_pilot)

lemma meter_commanded_iff:
  assumes "sup_ok s" "relay_main_commanded (relay s) \<longleftrightarrow> es s = EVSE_CHARGING"
  shows "relay_main_commanded (relay (meter_poll e js mv s)) \<longleftrightarrow> es (meter_poll e js mv s) = EVSE_CHARGING"
proof
  let ?m = "meter_poll e js mv s"
  have ok: "sup_ok ?m" using assms(1) by (rule meter_det.keeps_ok)
  show "es ?m = EVSE_CHARGING" if "relay_main_commanded (relay ?m)"
  proof -
    have "es s = EVSE_CHARGING" using assms(2) meter_det.never_closes that by blast
    moreover have "es ?m \<noteq> EVSE_FAULT" using ok that by (auto simp: sup_ok_def base_ok_def)
    ultimately show ?thesis using meter_det.only_to_fault [of e js mv s] by simp
  qed
  show "relay_main_commanded (relay ?m)" if "es ?m = EVSE_CHARGING"
    using that meter_det.never_starts [of e js mv s] meter_det.keeps_hw [of e js mv s] assms(2) by simp
qed

lemma tick_commanded_iff:
  assumes "sup_ok s"
  shows "relay_main_commanded (relay (safety_tick e s)) \<longleftrightarrow> es (safety_tick e s) = EVSE_CHARGING"
  using meter_commanded_iff [OF tick_outputs_ok [OF assms], of e e "tick_js e s" "cp_high_in e"]
    outputs_commanded_iff [OF tick_front_fault_checks_ok [OF assms]]
  by (simp add: safety_tick_body tick_body_def tick_outputs_def)

lemma tick_charging_C:
  assumes "es (safety_tick e s) = EVSE_CHARGING"
  shows "committed (cp (safety_tick e s)) = J1772_STATE_C"
proof -
  let ?f = "fault_checks e (tick_js e s) (cp_high_in e) (tick_front e s)"
  have "es (meter_poll e (tick_js e s) (cp_high_in e) (tick_outputs e s)) = EVSE_CHARGING"
    using assms by (simp add: safety_tick_body tick_body_def)
  then have "es (tick_outputs e s) = EVSE_CHARGING" by (rule meter_det.never_starts)
  then have "tick_js e s = J1772_STATE_C"
    using update_charging_C [of e "tick_js e s" ?f] by (simp add: tick_outputs_def)
  then show ?thesis by (simp add: tick_js_def)
qed

lemma energised_commanded:
  assumes "sup_ok s"
  shows "contactor_energised (relay s) \<longleftrightarrow> relay_main_commanded (relay s)"
  using assms by (auto simp: contactor_energised_def sup_ok_def base_ok_def relay_pins_ok_def relay_defs
      split: if_splits)

lemma reachable_tick: "reachable s \<Longrightarrow> reachable (safety_tick e s)"
  using reachable.stepped [of s "Tick e"] by simp

lemma reachable_run: "reachable s \<Longrightarrow> reachable (sup_run evs s)"
  unfolding sup_run_def by (induction evs arbitrary: s) (auto intro: reachable.stepped)

lemma fault_hw:
  assumes "sup_ok s" "es s = EVSE_FAULT"
  shows "\<not> contactor_energised (relay s)" "ccr_ch2 (pwm s) = CP_PWM_CCR_LOW"
  using assms by (auto simp: energised_commanded sup_ok_def base_ok_def)

section \<open>Pilot output\<close>

text \<open>What the pilot has to carry, as a table over the supervisor's state, the running replug window
  and the committed pilot state: state F in a replug window and in \<open>EVSE_FAULT\<close>; the duty of the
  admissible current (its amps over 0.6 percent of the 1000-tick period) for a connected vehicle in
  READY or CHARGING; the idle level otherwise.\<close>

definition pilot_level :: "evse_state \<Rightarrow> bool \<Rightarrow> j1772_state \<Rightarrow> nat \<Rightarrow> nat" where
  "pilot_level ev replug js amps =
     (if replug \<or> ev = EVSE_FAULT then 0
      else if ev \<in> {EVSE_READY, EVSE_CHARGING} \<and> js \<in> {J1772_STATE_B, J1772_STATE_C, J1772_STATE_D}
      then 10 * (10 * amps div 6)
      else 1000)"

text \<open>The admissible current: the cap of the switch, the configured one where it is lower, less the
  derate, never below 6. One step of the soft over-current ramp is a tenth of it.\<close>

definition allowed_amps :: "tick_env \<Rightarrow> nat" where
  "allowed_amps e = (let cap = (if dip1_low e then 48 else 40) in if cfg_amps e = 0 then cap else min (cfg_amps e) cap)"

definition derated_amps :: "tick_env \<Rightarrow> nat \<Rightarrow> nat" where
  "derated_amps e d = max 6 (allowed_amps e - d)"

text \<open>The tick's output is that of the derate in force when it was set; the metering after it may have
  ramped the derate once.\<close>

definition pilot_follows :: "tick_env \<Rightarrow> safety_state \<Rightarrow> bool" where
  "pilot_follows e s \<longleftrightarrow> (\<exists>d. ccr_ch2 (pwm s) =
       pilot_level (es s) (0 < s_replug_window_ticks s) (committed (cp s)) (derated_amps e d) \<and>
     (s_soc_derate_amps s = d \<or>
      6 < derated_amps e d \<and> s_soc_derate_amps s = d + max 1 (derated_amps e d div 10)))"

lemma effective_derated: "effective_advertised_amps e s = derated_amps e (s_soc_derate_amps s)"
  by (auto simp: effective_advertised_amps_def derated_amps_def allowed_amps_def Let_def max_def min_def)

lemma derated_bounds: "6 \<le> derated_amps e d" "derated_amps e d \<le> 48"
  by (auto simp: derated_amps_def allowed_amps_def Let_def)

lemma advertise_level:
  "ccr_ch2 (cp_pwm_set_advertise_amps (derated_amps e d) p) = 10 * (10 * derated_amps e d div 6)"
  using derated_bounds [of e d] ccr_advertise [of "derated_amps e d" p]
  by (simp add: duty_pct_of_amps_def Let_def mult.commute)

lemma pilot_set:
  assumes "running s"
  shows "ccr_ch2 (pwm (apply_cp_for_state e js s)) =
    pilot_level (es s) (0 < s_replug_window_ticks s) js (derated_amps e (s_soc_derate_amps s))"
  using assms
  by (cases "es s") (simp_all add: apply_cp_for_state_def pilot_level_def running_def effective_derated advertise_level)

text \<open>A detector of the metering block that leaves the supervisor's state alone leaves the derate alone;
  the soft over-current ramp is the exception.\<close>

lemma trip_keeps_derate:
  "es (trip_fault e f js mv s) = es s \<Longrightarrow> s_soc_derate_amps (trip_fault e f js mv s) = s_soc_derate_amps s"
  by (cases "es s = EVSE_FAULT") (auto simp: trip_fault_def evse_transition_def Let_def)

lemma detectors_keep_derate:
  "s_soc_derate_amps (check_ac_absent e js mv s) = s_soc_derate_amps s"
  "es (check_relay_weld_bl0939 e js mv s) = es s \<Longrightarrow>
     s_soc_derate_amps (check_relay_weld_bl0939 e js mv s) = s_soc_derate_amps s"
  "es (check_relay_stuck_open_bl0939 e js mv s) = es s \<Longrightarrow>
     s_soc_derate_amps (check_relay_stuck_open_bl0939 e js mv s) = s_soc_derate_amps s"
  "es (check_hard_over_current e js mv s) = es s \<Longrightarrow>
     s_soc_derate_amps (check_hard_over_current e js mv s) = s_soc_derate_amps s"
  by (auto simp: check_ac_absent_def check_relay_weld_bl0939_def check_relay_stuck_open_bl0939_def
      check_hard_over_current_def Let_def case_prod_unfold comms_publish_def trip_keeps_derate split: if_splits)

definition ramped :: "tick_env \<Rightarrow> nat \<Rightarrow> nat \<Rightarrow> bool" where
  "ramped e d d' \<longleftrightarrow> d' = d \<or> 6 < derated_amps e d \<and> d' = d + max 1 (derated_amps e d div 10)"

lemma soc_ramps: "ramped e (s_soc_derate_amps s) (s_soc_derate_amps (check_soft_over_current e js mv s))"
  using derate_step [of e s]
  by (auto simp: check_soft_over_current_def ramped_def Let_def case_prod_unfold comms_publish_def
      effective_derated max_def split: if_splits)

lemma hard_stays:
  assumes "hard_detector f" "hard_detector g" "es (g (f s)) = es s"
  shows "es (f s) = es s" "es (g (f s)) = es (f s)"
proof -
  have "es (f s) = EVSE_FAULT \<Longrightarrow> es (g (f s)) = EVSE_FAULT"
    using detector.fault_stays [OF hard_detector.axioms(1) [OF assms(2)]] .
  with hard_detector.only_to_fault [OF assms(1), of s] assms(3)
  show "es (f s) = es s" by metis
  with assms(3) show "es (g (f s)) = es (f s)" by simp
qed

lemma meter_checks_ramp:
  assumes "es (meter_checks e js mv s) = es s"
  shows "ramped e (s_soc_derate_amps s) (s_soc_derate_amps (meter_checks e js mv s))"
proof -
  let ?a = "check_ac_absent e js mv"
  let ?w = "\<lambda>s. check_relay_weld_bl0939 e js mv (?a s)"
  let ?o = "\<lambda>s. check_relay_stuck_open_bl0939 e js mv (?w s)"
  let ?h = "\<lambda>s. check_hard_over_current e js mv (?o s)"
  note det = ac_det.hard_detector_axioms weld_bl_det.hard_detector_axioms stuck_bl_det.hard_detector_axioms
    hoc_det.hard_detector_axioms soc_det.hard_detector_axioms
  have w: "hard_detector ?w" by (rule hard_detector_comp [OF det(1,2)])
  have o: "hard_detector ?o" by (rule hard_detector_comp [OF w det(3)])
  have h: "hard_detector ?h" by (rule hard_detector_comp [OF o det(4)])
  have m: "meter_checks e js mv s = check_soft_over_current e js mv (?h s)" by (simp add: meter_checks_def Let_def)
  have h1: "es (?h s) = es s" by (rule hard_stays(1) [OF h det(5)]) (use assms m in simp)
  note o1 = hard_stays [OF o det(4) h1]
  note w1 = hard_stays [OF w det(3) o1(1)]
  note a1 = hard_stays [OF det(1,2) w1(1)]
  have "s_soc_derate_amps (?h s) = s_soc_derate_amps s"
    using detectors_keep_derate(4) [OF o1(2)] detectors_keep_derate(3) [OF w1(2)]
      detectors_keep_derate(2) [OF a1(2)] detectors_keep_derate(1) [of e js mv s] by simp
  then show ?thesis using soc_ramps [of e "?h s" js mv] by (simp add: m)
qed

lemma meter_ramp:
  assumes "es (meter_poll e js mv s) = es s"
  shows "ramped e (s_soc_derate_amps s) (s_soc_derate_amps (meter_poll e js mv s))"
proof -
  have energy: "s_soc_derate_amps (integrate_energy e x) = s_soc_derate_amps x" for x
    by (simp add: integrate_energy_def Let_def)
  show ?thesis
    using assms
      meter_checks_ramp [of e js mv "s\<lparr>bl0939_poll_div := 0, bl := bl0939_poll (cal_freq_const e) (bl_answers e) (bl s)\<rparr>"]
    by (simp add: meter_poll_def Let_def energy ramped_def split: if_splits)
qed

lemma rfid_keeps_derate: "s_soc_derate_amps (rfid_block e s) = s_soc_derate_amps s"
  by (simp add: rfid_block_def rfid_timers_def rfid_edge_def Let_def case_prod_unfold card_swiped_def
      authorized_swipe_def publish_rfid_config_def post_safety_req_def comms_publish_def emit_def)

lemma tick_pilot_follows:
  assumes "sup_ok s" "running s"
  shows "pilot_follows e (safety_tick e s)"
proof -
  let ?f = "fault_checks e (tick_js e s) (cp_high_in e) (tick_front e s)"
  let ?r = "apply_relay_state (tick_js e s) (check_cp_regression e (tick_js e s) (cp_high_in e)
    (update_evse_from_j1772 e (tick_js e s) ?f))"
  let ?t = "tick_outputs e s"
  let ?m = "meter_poll e (tick_js e s) (cp_high_in e) ?t"
  have cp: "committed (cp ?t) = tick_js e s" by (simp add: tick_outputs_def fault_checks_det.keeps_pilot tick_js_def)
  have "running ?r"
    using assms(2) by (simp add: relay_op.keeps_running regression_det.keeps_running update_op.keeps_running
        fault_checks_det.keeps_running front_op.keeps_running)
  then have out: "ccr_ch2 (pwm ?t) =
      pilot_level (es ?t) (0 < s_replug_window_ticks ?t) (committed (cp ?t)) (derated_amps e (s_soc_derate_amps ?t))"
    using pilot_set [of ?r e "tick_js e s"] unfolding cp
    by (simp add: tick_outputs_def apply_outputs_def Let_def) (simp add: apply_cp_for_state_def)
  have keep: "cp ?m = cp ?t" "s_replug_window_ticks ?m = s_replug_window_ticks ?t"
    by (simp_all add: meter_det.keeps_pilot meter_det.keeps_replug)
  have "pilot_follows e ?m"
  proof (cases "es ?m = es ?t")
    case True
    with meter_ramp [OF True] meter_det.keeps_hw [OF True] keep out show ?thesis
      unfolding pilot_follows_def ramped_def by metis
  next
    case False
    then have "es ?m = EVSE_FAULT" using meter_det.only_to_fault by blast
    moreover have "sup_ok ?m" by (rule meter_det.keeps_ok [OF tick_outputs_ok [OF assms(1)]])
    ultimately show ?thesis using fault_hw(2) [of ?m] by (auto simp: pilot_follows_def pilot_level_def)
  qed
  then show ?thesis by (simp add: safety_tick_body tick_body_def pilot_follows_def rfid_keeps_derate)
qed

section \<open>Ground fault\<close>

lemma gfci_ctx_frames [simp]:
  "gfci_ctx (check_safe_fail e js mv s) = gfci_ctx s" "gfci_ctx (check_relay_weld e js mv s) = gfci_ctx s"
  "gfci_ctx (check_relay_stuck_open e js mv s) = gfci_ctx s" "gfci_ctx (check_pe_continuity e js mv s) = gfci_ctx s"
  "gfci_ctx (check_adc_runtime e js mv s) = gfci_ctx s" "gfci_ctx (check_cc_out_of_range e js mv s) = gfci_ctx s"
  "gfci_ctx (check_cp_e e js mv s) = gfci_ctx s" "gfci_ctx (check_over_temp e r1 r2 s) = gfci_ctx s"
  "gfci_ctx (check_ac_absent e js mv s) = gfci_ctx s" "gfci_ctx (check_relay_weld_bl0939 e js mv s) = gfci_ctx s"
  "gfci_ctx (check_relay_stuck_open_bl0939 e js mv s) = gfci_ctx s"
  "gfci_ctx (check_hard_over_current e js mv s) = gfci_ctx s"
  "gfci_ctx (check_soft_over_current e js mv s) = gfci_ctx s"
  "gfci_ctx (check_cp_regression e js mv s) = gfci_ctx s"
  "gfci_ctx (service_replug_window e s) = gfci_ctx s" "gfci_ctx (classify_pilot e s) = gfci_ctx s"
  "gfci_ctx (update_evse_from_j1772 e js s) = gfci_ctx s" "gfci_ctx (apply_relay_state js s) = gfci_ctx s"
  "gfci_ctx (apply_cp_for_state e js s) = gfci_ctx s"
  by (simp_all add: check_safe_fail_def check_relay_weld_def check_relay_stuck_open_def check_pe_continuity_def
      check_adc_runtime_def check_cc_out_of_range_def check_cp_e_def check_over_temp_def check_ac_absent_def
      check_relay_weld_bl0939_def check_relay_stuck_open_bl0939_def check_hard_over_current_def
      check_soft_over_current_def check_cp_regression_def service_replug_window_def classify_pilot_def
      update_evse_from_j1772_def apply_relay_state_def apply_cp_for_state_def Let_def case_prod_unfold)

lemma gfci_ctx_request [simp]: "gfci_ctx (process_request e r s) = gfci_ctx s"
  by (simp add: process_request_def request_clear_fault_def request_simulate_replug_def publish_rfid_config_def
      publish_gfci_policy_def Let_def split: safety_req_type.split option.split prod.split)

lemma gfci_ctx_drain [simp]: "gfci_ctx (drain_loop n e s) = gfci_ctx s"
  by (induction n arbitrary: s) (simp_all split: list.split)

lemma gfci_ctx_check [simp]:
  "gfci_ctx (check_gfci e js mv s) =
     fst (gfci_policy_step (gfci_ctx s) (\<not> gfci_handshake e \<and> gfci_line_low e) (cfg_gfci_policy e))"
  by (auto simp: check_gfci_def Let_def case_prod_unfold split: gfci_policy_action.split)

lemma gfci_ctx_tick:
  "gfci_ctx (safety_tick e s) =
     fst (gfci_policy_step (gfci_ctx s) (\<not> gfci_handshake e \<and> gfci_line_low e) (cfg_gfci_policy e))"
  by (simp add: safety_tick_body tick_body_def tick_outputs_def tick_front_def fault_checks_def apply_outputs_def
      meter_poll_def meter_checks_def drain_inbox_def Let_def)

text \<open>A tick samples a ground fault that the policy acts on.\<close>

definition gfci_sampled :: "tick_env \<Rightarrow> bool" where
  "gfci_sampled e \<longleftrightarrow> gfci_line_low e \<and> \<not> gfci_handshake e"

lemma gfci_streak_tick:
  "gfci_sampled e \<Longrightarrow> trip_streak (gfci_ctx s) \<le> 3 \<Longrightarrow>
   trip_streak (gfci_ctx (safety_tick e s)) = min 3 (Suc (trip_streak (gfci_ctx s)))"
  by (simp add: gfci_ctx_tick gfci_sampled_def gfci_step_ctx)

lemma gfci_trip_active:
  assumes "gfci_ok s" "gfci_sampled e" "2 \<le> trip_streak (gfci_ctx s)" "cfg_gfci_policy e \<noteq> GFCI_POL_WARN"
  shows "gfci_active (safety_tick e s)"
proof -
  have "gfci_fault_latched (gfci_ctx (safety_tick e s))"
    using assms(2-) gfci_step_ctx(2) [of "gfci_ctx s" True "cfg_gfci_policy e"]
      gfci_step_cases(1) [of "gfci_ctx s" True "cfg_gfci_policy e"]
    by (auto simp: gfci_ctx_tick gfci_sampled_def)
  moreover have "gfci_ok (safety_tick e s)" using assms(1) by (rule tick_op.keeps_gfci_ok)
  ultimately show ?thesis by (simp add: gfci_ok_def gfci_active_def)
qed

lemma gfci_active_fault:
  assumes "sup_ok s" "gfci_active s"
  shows "es s = EVSE_FAULT"
proof -
  have "fault_any_latched_active (fs s)"
    using assms(2) by (auto simp: fault_any_latched_iff gfci_active_def latched_ids_def)
  with assms(1) show ?thesis by (simp add: sup_ok_def latch_ok_def)
qed

end
