(* ===== verification/Safety_Trace.thy ===== *)
theory Safety_Trace
  imports Safety_Props
begin

text \<open>
  Facts about runs of the supervisor: how \<open>EVSE_FAULT\<close> is left, the dwell in pilot state C and the
  authorization that precede charging, the over-temperature pause, and the progress of a healthy
  charge request.
\<close>

section \<open>Leaving the fault state\<close>

lemma request_inbox [simp]: "inbox (process_request e r s) = inbox s"
  by (simp add: process_request_def request_clear_fault_def request_simulate_replug_def publish_rfid_config_def
      publish_gfci_policy_def Let_def split: safety_req_type.split option.split prod.split)

lemma request_keeps_fault:
  "es s = EVSE_FAULT \<Longrightarrow> req_type r \<noteq> SAFETY_REQ_CLEAR_FAULT \<Longrightarrow> es (process_request e r s) = EVSE_FAULT"
  by (simp add: process_request_def request_simulate_replug_def publish_rfid_config_def
      publish_gfci_policy_def Let_def split: safety_req_type.split)

lemma drain_keeps_fault:
  "es s = EVSE_FAULT \<Longrightarrow> \<forall>r \<in> set (inbox s). req_type r \<noteq> SAFETY_REQ_CLEAR_FAULT \<Longrightarrow>
   es (drain_loop n e s) = EVSE_FAULT"
  by (induction n arbitrary: s) (simp_all add: request_keeps_fault split: list.split)

lemma front_keeps_fault:
  "es s = EVSE_FAULT \<Longrightarrow> \<forall>r \<in> set (inbox s). req_type r \<noteq> SAFETY_REQ_CLEAR_FAULT \<Longrightarrow>
   es (tick_front e s) = EVSE_FAULT"
  by (simp add: tick_front_def drain_inbox_def drain_keeps_fault service_replug_window_def classify_pilot_def
      Let_def)

lemma tick_keeps_fault:
  assumes "es (tick_front e s) = EVSE_FAULT"
  shows "es (safety_tick e s) = EVSE_FAULT"
proof -
  have "es (tick_outputs e s) = EVSE_FAULT"
    using fault_checks_det.fault_stays [OF assms]
    by (simp add: tick_outputs_def update_evse_from_j1772_def)
  then show ?thesis
    by (simp add: safety_tick_body tick_body_def meter_det.fault_stays)
qed

section \<open>Dwell and authorization\<close>

lemma request_dwell [simp]:
  "evse_c_streak (process_request e r s) = evse_c_streak s"
  "s_session_authorized (process_request e r s) = s_session_authorized s"
  by (simp_all add: process_request_def request_clear_fault_def request_simulate_replug_def publish_rfid_config_def
      publish_gfci_policy_def Let_def split: safety_req_type.split option.split prod.split)

lemma request_not_start: "es (process_request e r s) = EVSE_CHARGING \<Longrightarrow> es s = EVSE_CHARGING"
  by (auto simp: process_request_def request_clear_fault_def request_simulate_replug_def publish_rfid_config_def
      publish_gfci_policy_def leave_fault_def Let_def split: safety_req_type.splits option.splits if_splits)

lemma drain_dwell [simp]:
  "evse_c_streak (drain_loop n e s) = evse_c_streak s"
  "s_session_authorized (drain_loop n e s) = s_session_authorized s"
  by (induction n arbitrary: s) (simp_all split: list.split)

lemma drain_not_start: "es (drain_loop n e s) = EVSE_CHARGING \<Longrightarrow> es s = EVSE_CHARGING"
proof (induction n arbitrary: s)
  case (Suc n)
  then show ?case by (cases "inbox s") (auto dest!: Suc.IH request_not_start)
qed simp

lemma front_dwell [simp]:
  "evse_c_streak (tick_front e s) = evse_c_streak s"
  "s_session_authorized (tick_front e s) = s_session_authorized s"
  by (simp_all add: tick_front_def drain_inbox_def service_replug_window_def classify_pilot_def Let_def)

lemma front_not_start: "es (tick_front e s) = EVSE_CHARGING \<Longrightarrow> es s = EVSE_CHARGING"
  by (auto simp: tick_front_def drain_inbox_def service_replug_window_def classify_pilot_def Let_def
      split: if_splits dest: drain_not_start)

lemma update_dwell:
  "evse_c_streak (update_evse_from_j1772 e js s) \<le> (if js = J1772_STATE_C then Suc (evse_c_streak s) else 0)"
  by (simp add: update_evse_from_j1772_def Let_def)

lemma update_start:
  assumes "es s \<noteq> EVSE_CHARGING" "es (update_evse_from_j1772 e js s) = EVSE_CHARGING"
  shows "EVSE_C_DWELL_TICKS \<le> evse_c_streak (update_evse_from_j1772 e js s)"
    "cfg_require_auth e \<Longrightarrow> s_session_authorized s" "es s = EVSE_READY"
  using assms by (auto simp: update_evse_from_j1772_def clear_authorization_def publish_rfid_config_def Let_def
      split: if_splits)

lemma tick_dwell:
  "evse_c_streak (safety_tick e s) \<le>
     (if committed (cp (safety_tick e s)) = J1772_STATE_C then Suc (evse_c_streak s) else 0)"
proof -
  have a: "evse_c_streak (safety_tick e s) = evse_c_streak (update_evse_from_j1772 e (tick_js e s)
      (fault_checks e (tick_js e s) (cp_high_in e) (tick_front e s)))"
    by (simp add: safety_tick_body tick_body_def tick_outputs_def meter_det.keeps_dwell)
  have b: "committed (cp (safety_tick e s)) = tick_js e s" by (simp add: tick_js_def)
  show ?thesis
    using update_dwell [of e "tick_js e s" "fault_checks e (tick_js e s) (cp_high_in e) (tick_front e s)"]
    by (simp only: a b fault_checks_det.keeps_dwell front_dwell)
qed

lemma tick_start:
  assumes "es s \<noteq> EVSE_CHARGING" "es (safety_tick e s) = EVSE_CHARGING"
  shows "EVSE_C_DWELL_TICKS \<le> evse_c_streak (safety_tick e s)"
    "cfg_require_auth e \<Longrightarrow> s_session_authorized s"
proof -
  let ?f = "fault_checks e (tick_js e s) (cp_high_in e) (tick_front e s)"
  have "es (tick_outputs e s) = EVSE_CHARGING"
    by (rule meter_det.never_starts [of e "tick_js e s" "cp_high_in e"])
      (use assms(2) in \<open>simp add: safety_tick_body tick_body_def\<close>)
  then have up: "es (update_evse_from_j1772 e (tick_js e s) ?f) = EVSE_CHARGING"
    by (simp add: tick_outputs_def)
  have "es ?f \<noteq> EVSE_CHARGING"
    using assms(1) fault_checks_det.never_starts front_not_start by blast
  note st = update_start [OF this up]
  show "EVSE_C_DWELL_TICKS \<le> evse_c_streak (safety_tick e s)"
    using st(1) by (simp add: safety_tick_body tick_body_def tick_outputs_def meter_det.keeps_dwell)
  show "cfg_require_auth e \<Longrightarrow> s_session_authorized s"
    using st(2) by (simp add: fault_checks_det.keeps_auth)
qed

text \<open>The states after each tick of a run.\<close>

fun tick_states :: "sup_event list \<Rightarrow> safety_state \<Rightarrow> safety_state list" where
  "tick_states [] s = []"
| "tick_states (Tick e # evs) s = safety_tick e s # tick_states evs (safety_tick e s)"
| "tick_states (Post ty a b # evs) s = tick_states evs (sup_step (Post ty a b) s)"

definition pilot_C :: "safety_state \<Rightarrow> bool" where
  "pilot_C s \<longleftrightarrow> committed (cp s) = J1772_STATE_C"

lemma sup_run_snoc: "sup_run (evs @ [ev]) s = sup_step ev (sup_run evs s)"
  by (simp add: sup_run_def)

lemma tick_states_snoc:
  "tick_states (evs @ [ev]) s =
     tick_states evs s @ (case ev of Tick e \<Rightarrow> [safety_tick e (sup_run evs s)] | Post ty a b \<Rightarrow> [])"
  by (induction evs s rule: tick_states.induct) (auto simp: sup_run_def split: sup_event.split)

lemma dwell_trailing:
  assumes "evse_c_streak s = 0"
  shows "evse_c_streak (sup_run evs s) \<le> trailing pilot_C (tick_states evs s)"
proof (induction evs rule: rev_induct)
  case Nil
  then show ?case using assms by (simp add: sup_run_def)
next
  case (snoc ev evs)
  show ?case
  proof (cases ev)
    case (Tick e)
    then show ?thesis
      using snoc tick_dwell [of e "sup_run evs s"]
      by (auto simp: sup_run_snoc tick_states_snoc trailing_snoc pilot_C_def split: if_splits)
  next
    case (Post ty a b)
    with snoc show ?thesis by (simp add: sup_run_snoc tick_states_snoc)
  qed
qed

lemma boot_dwell: "evse_c_streak (safety_boot e mvs s) = evse_c_streak s"
  by (simp add: safety_boot_def boot_self_tests_def self_test_gfci_cal_def Let_def case_prod_unfold
      safe_fail_det.keeps_dwell)

lemma boot_auth: "s_session_authorized (safety_boot e mvs s) = s_session_authorized s"
  by (simp add: safety_boot_def boot_self_tests_def self_test_gfci_cal_def Let_def case_prod_unfold
      safe_fail_det.keeps_auth)

text \<open>Authorization is granted by an authorized card only.\<close>

definition accepted_card :: "tick_env \<Rightarrow> safety_state \<Rightarrow> bool" where
  "accepted_card e s \<longleftrightarrow> card_present (rfid_c s) \<and> last_uid (rfid_c s) \<noteq> 0 \<and> auth_contains e (last_uid (rfid_c s))"

lemma parse_edge:
  assumes "try_parse_one c out = (n, c', out')" "ra_edge out \<longrightarrow> ra_uid out = last_uid c \<and> ra_present out = card_present c"
  shows "ra_edge out' \<longrightarrow> ra_uid out' = last_uid c' \<and> ra_present out' = card_present c'"
  using assms by (auto simp: try_parse_one_def decode_frame_def Let_def split: if_splits prod.splits)

lemma drain_edge:
  assumes "ra_edge out \<longrightarrow> ra_uid out = last_uid c \<and> ra_present out = card_present c"
    "rfid_drain c out k = (n, c', out')" "ra_edge out'"
  shows "ra_uid out' = last_uid c' \<and> ra_present out' = card_present c'"
  using assms
proof (induction c out k rule: rfid_drain.induct)
  case (1 c out k)
  obtain m c1 o1 where p: "try_parse_one c out = (m, c1, o1)" by (metis prod_cases3)
  note e1 = parse_edge [OF p "1.prems"(1)]
  show ?case
  proof (cases m)
    case 0
    with p "1.prems"(2,3) e1 show ?thesis by (simp add: rfid_drain.simps [of c out k])
  next
    case (Suc j)
    with p "1.prems"(2) have "rfid_drain c1 o1 (if ra_edge o1 then k + 1 else k) = (n, c', out')"
      by (simp add: rfid_drain.simps [of c out k])
    with "1.IH" [OF p [symmetric] _ refl] Suc e1 "1.prems"(3) show ?thesis by blast
  qed
qed

lemma feed_edge:
  "rfid_feed c bs = (n, c', a) \<Longrightarrow> ra_edge a \<Longrightarrow> ra_uid a = last_uid c' \<and> ra_present a = card_present c'"
  by (auto simp: rfid_feed_def Let_def dest!: drain_edge [rotated])

lemma swipe_auth:
  "s_session_authorized (snd (card_swiped e uid s)) \<Longrightarrow> s_session_authorized s \<or> auth_contains e uid"
  by (auto simp: card_swiped_def authorized_swipe_def Let_def publish_rfid_config_def split: if_splits)

lemma rfid_c_swipe [simp]: "rfid_c (snd (card_swiped e uid s)) = rfid_c s"
  by (simp add: card_swiped_def authorized_swipe_def Let_def publish_rfid_config_def post_safety_req_def
      comms_publish_def emit_def)

lemma rfid_c_timers [simp]:
  "rfid_c (rfid_timers s) = rfid_c s" "s_session_authorized (rfid_timers s) = s_session_authorized s"
  by (simp_all add: rfid_timers_def Let_def emit_def)

lemma rfid_c_publish [simp]: "rfid_c (comms_publish evt p s) = rfid_c s"
  by (simp add: comms_publish_def emit_def)

lemma edge_auth:
  assumes "s_session_authorized (rfid_edge e a s)" "\<not> s_session_authorized s"
  shows "ra_edge a" "ra_present a" "ra_uid a \<noteq> 0" "auth_contains e (ra_uid a)"
  using assms by (auto simp: rfid_edge_def Let_def case_prod_unfold dest!: swipe_auth split: if_splits)

lemma rfid_c_edge [simp]: "rfid_c (rfid_edge e a s) = rfid_c s"
  by (simp add: rfid_edge_def Let_def case_prod_unfold)

lemma rfid_block_auth:
  assumes "s_session_authorized (rfid_block e s)" "\<not> s_session_authorized s"
  shows "accepted_card e (rfid_block e s)"
proof -
  obtain n c a where fd: "rfid_feed (rfid_c s) (take 32 (rfid_rx e)) = (n, c, a)" by (metis prod_cases3)
  from assms have rx: "take 32 (rfid_rx e) \<noteq> []"
    by (auto simp: rfid_block_def split: if_splits)
  with fd have blk: "rfid_block e s = rfid_timers (rfid_edge e a (s\<lparr>rfid_c := c\<rparr>))"
    by (simp add: rfid_block_def)
  have "s_session_authorized (rfid_edge e a (s\<lparr>rfid_c := c\<rparr>))" using assms(1) by (simp add: blk)
  from edge_auth [OF this] assms(2) feed_edge [OF fd] show ?thesis
    by (simp add: blk accepted_card_def)
qed

lemma update_auth:
  "s_session_authorized (update_evse_from_j1772 e js s) \<Longrightarrow> s_session_authorized s"
  by (auto simp: update_evse_from_j1772_def clear_authorization_def publish_rfid_config_def Let_def
      split: if_splits)

lemma tick_auth:
  assumes "s_session_authorized (safety_tick e s)" "\<not> s_session_authorized s"
  shows "accepted_card e (safety_tick e s)"
proof -
  let ?m = "meter_poll e (tick_js e s) (cp_high_in e) (tick_outputs e s)"
  have "\<not> s_session_authorized ?m"
    using assms(2)
    by (auto simp: meter_det.keeps_auth tick_outputs_def fault_checks_det.keeps_auth dest!: update_auth)
  moreover have "s_session_authorized (rfid_block e ?m)"
    using assms(1) by (simp add: safety_tick_body tick_body_def)
  ultimately have "accepted_card e (rfid_block e ?m)" by (intro rfid_block_auth)
  then show ?thesis by (simp add: accepted_card_def safety_tick_body tick_body_def)
qed

text \<open>Some tick of the run read an authorized card.\<close>

fun card_read :: "sup_event list \<Rightarrow> safety_state \<Rightarrow> bool" where
  "card_read [] s \<longleftrightarrow> False"
| "card_read (Tick e # evs) s \<longleftrightarrow> accepted_card e (safety_tick e s) \<or> card_read evs (safety_tick e s)"
| "card_read (Post ty a b # evs) s \<longleftrightarrow> card_read evs (sup_step (Post ty a b) s)"

lemma run_auth: "s_session_authorized (sup_run evs s) \<Longrightarrow> s_session_authorized s \<or> card_read evs s"
  by (induction evs s rule: card_read.induct) (auto simp: sup_run_def dest: tick_auth)

end
