(* ===== verification/Safety_Live.thy ===== *)
theory Safety_Live
  imports Safety_Trace
begin

text \<open>
  Progress: with healthy inputs a connected vehicle that asks for charge gets it. \<open>healthy\<close> lists the
  inputs that keep every detector silent; \<open>ready_tick\<close> is the effect of such a tick on a ready
  supervisor, and \<open>progress\<close> iterates it through the pilot debounce and the dwell.
\<close>

definition healthy :: "tick_env \<Rightarrow> bool" where
  "healthy e \<longleftrightarrow> \<not> safe_fail e \<and> \<not> RELAY_FEEDBACK_KNOWN (flags e) \<and> \<not> gfci_sampled e \<and>
     adc e ADC_RANK_PE \<le> PE_OK_RAW_MAX \<and>
     \<not> list_ex (adc_out_of_band e) [ADC_RANK_AC, ADC_RANK_CT, ADC_RANK_LCT] \<and>
     (CC_DETECTOR (flags e) \<longrightarrow> cc_raw_in_band (adc e ADC_RANK_CC)) \<and>
     \<not> hot_sample (adc e ADC_RANK_NTC1, adc e ADC_RANK_AC, NTC1_PRESENT (flags e), GUN_NTC_PRESENT (flags e)) \<and>
     cal_ia_na e \<le> 0"

text \<open>A ready supervisor at a tick boundary, with nothing queued.\<close>

definition ready_state :: "safety_state \<Rightarrow> bool" where
  "ready_state s \<longleftrightarrow> es s = EVSE_READY \<and> inbox s = [] \<and> s_replug_window_ticks s = 0"

section \<open>Silent detectors\<close>

lemma quiet_checks:
  "\<not> safe_fail e \<Longrightarrow> check_safe_fail e js mv s = s"
  "\<not> gfci_sampled e \<Longrightarrow> es (check_gfci e js mv s) = es s"
  "adc e ADC_RANK_PE \<le> PE_OK_RAW_MAX \<Longrightarrow> es (check_pe_continuity e js mv s) = es s"
  "\<not> list_ex (adc_out_of_band e) [ADC_RANK_AC, ADC_RANK_CT, ADC_RANK_LCT] \<Longrightarrow>
   es (check_adc_runtime e js mv s) = es s"
  "CC_DETECTOR (flags e) \<longrightarrow> cc_raw_in_band (adc e ADC_RANK_CC) \<Longrightarrow> es (check_cc_out_of_range e js mv s) = es s"
  "js \<noteq> J1772_STATE_E \<Longrightarrow> es (check_cp_e e js mv s) = es s"
proof -
  show "\<not> safe_fail e \<Longrightarrow> check_safe_fail e js mv s = s" by (simp add: check_safe_fail_def)
  show "\<not> gfci_sampled e \<Longrightarrow> es (check_gfci e js mv s) = es s"
    by (auto simp: gfci_sampled_def check_gfci_def gfci_policy_step_def gfci_sample_def Let_def)
  show "adc e ADC_RANK_PE \<le> PE_OK_RAW_MAX \<Longrightarrow> es (check_pe_continuity e js mv s) = es s"
    by (simp add: check_pe_continuity_def Let_def flip: not_less)
  show "\<not> list_ex (adc_out_of_band e) [ADC_RANK_AC, ADC_RANK_CT, ADC_RANK_LCT] \<Longrightarrow>
      es (check_adc_runtime e js mv s) = es s"
    by (simp add: check_adc_runtime_def Let_def)
  show "CC_DETECTOR (flags e) \<longrightarrow> cc_raw_in_band (adc e ADC_RANK_CC) \<Longrightarrow>
      es (check_cc_out_of_range e js mv s) = es s"
    by (simp add: check_cc_out_of_range_def Let_def)
  show "js \<noteq> J1772_STATE_E \<Longrightarrow> es (check_cp_e e js mv s) = es s"
    by (simp add: check_cp_e_def Let_def)
qed

lemma quiet_over_temp:
  "\<not> hot_sample (r1, r2, NTC1_PRESENT (flags e), GUN_NTC_PRESENT (flags e)) \<Longrightarrow> es s = EVSE_READY \<Longrightarrow>
   es (check_over_temp e r1 r2 s) = EVSE_READY"
  by (simp add: check_over_temp_def Let_def case_prod_unfold over_temp_step_trip del: hot_sample.simps)

lemma quiet_fault_checks:
  assumes "healthy e" "js \<noteq> J1772_STATE_E" "es s = EVSE_READY"
  shows "es (fault_checks e js mv s) = EVSE_READY"
  using assms unfolding fault_checks_def Let_def healthy_def
  by (intro quiet_over_temp) (simp_all add: quiet_checks del: hot_sample.simps)

lemma quiet_meter:
  assumes "cal_ia_na e \<le> 0"
  shows "es (meter_poll e js mv s) = es s"
proof -
  have "es (check_ac_absent e js mv t) = es t" for t by (simp add: check_ac_absent_def Let_def)
  then show ?thesis
    using assms by (simp add: meter_poll_def meter_checks_def check_relay_weld_bl0939_def
        check_relay_stuck_open_bl0939_def check_hard_over_current_def check_soft_over_current_def Let_def)
qed

section \<open>One tick of a ready supervisor\<close>

lemma front_ready:
  assumes "ready_state s"
  shows "es (tick_front e s) = EVSE_READY" "cp (tick_front e s) = j1772_step (cp s) (cp_high_in e) J1772_DEBOUNCE_N"
  using assms by (simp_all add: tick_front_def ready_state_def drain_inbox_def service_replug_window_def
      classify_pilot_def Let_def numeral_eq_Suc)

lemma inbox_frames [simp]:
  "inbox (check_safe_fail e js mv s) = inbox s" "inbox (check_gfci e js mv s) = inbox s"
  "inbox (check_relay_weld e js mv s) = inbox s" "inbox (check_relay_stuck_open e js mv s) = inbox s"
  "inbox (check_pe_continuity e js mv s) = inbox s" "inbox (check_adc_runtime e js mv s) = inbox s"
  "inbox (check_cc_out_of_range e js mv s) = inbox s" "inbox (check_cp_e e js mv s) = inbox s"
  "inbox (check_over_temp e r1 r2 s) = inbox s" "inbox (check_ac_absent e js mv s) = inbox s"
  "inbox (check_relay_weld_bl0939 e js mv s) = inbox s"
  "inbox (check_relay_stuck_open_bl0939 e js mv s) = inbox s"
  "inbox (check_hard_over_current e js mv s) = inbox s" "inbox (check_soft_over_current e js mv s) = inbox s"
  "inbox (check_cp_regression e js mv s) = inbox s" "inbox (integrate_energy e s) = inbox s"
  "inbox (update_evse_from_j1772 e js s) = inbox s" "inbox (apply_relay_state js s) = inbox s"
  "inbox (apply_cp_for_state e js s) = inbox s"
  by (simp_all add: check_safe_fail_def check_relay_weld_def check_relay_stuck_open_def check_pe_continuity_def
      check_adc_runtime_def check_cc_out_of_range_def check_cp_e_def check_over_temp_def check_ac_absent_def
      check_relay_weld_bl0939_def check_relay_stuck_open_bl0939_def check_hard_over_current_def
      check_soft_over_current_def check_cp_regression_def check_gfci_def integrate_energy_def
      update_evse_from_j1772_def clear_authorization_def publish_rfid_config_def apply_relay_state_def
      apply_cp_for_state_def Let_def case_prod_unfold split: gfci_policy_action.split)

lemma reader_base_frames [simp]:
  "rfid_c (emit out s) = rfid_c s" "rfid_c (evse_transition e n s) = rfid_c s"
  "rfid_c (post_fault_event e f js ev mv s) = rfid_c s" "rfid_c (raise_fault e f js mv s) = rfid_c s"
  "rfid_c (trip_fault e f js mv s) = rfid_c s"
  by (simp_all add: emit_def evse_transition_def transition_defs comms_publish_def trip_fault_def raise_fault_def
      post_fault_event_def Let_def case_prod_unfold)

lemma reader_frames [simp]:
  "rfid_c (check_safe_fail e js mv s) = rfid_c s" "rfid_c (check_gfci e js mv s) = rfid_c s"
  "rfid_c (check_relay_weld e js mv s) = rfid_c s" "rfid_c (check_relay_stuck_open e js mv s) = rfid_c s"
  "rfid_c (check_pe_continuity e js mv s) = rfid_c s" "rfid_c (check_adc_runtime e js mv s) = rfid_c s"
  "rfid_c (check_cc_out_of_range e js mv s) = rfid_c s" "rfid_c (check_cp_e e js mv s) = rfid_c s"
  "rfid_c (check_over_temp e r1 r2 s) = rfid_c s" "rfid_c (check_ac_absent e js mv s) = rfid_c s"
  "rfid_c (check_relay_weld_bl0939 e js mv s) = rfid_c s"
  "rfid_c (check_relay_stuck_open_bl0939 e js mv s) = rfid_c s"
  "rfid_c (check_hard_over_current e js mv s) = rfid_c s" "rfid_c (check_soft_over_current e js mv s) = rfid_c s"
  "rfid_c (check_cp_regression e js mv s) = rfid_c s" "rfid_c (integrate_energy e s) = rfid_c s"
  "rfid_c (update_evse_from_j1772 e js s) = rfid_c s" "rfid_c (apply_relay_state js s) = rfid_c s"
  "rfid_c (apply_cp_for_state e js s) = rfid_c s"
  by (simp_all add: check_safe_fail_def check_relay_weld_def check_relay_stuck_open_def check_pe_continuity_def
      check_adc_runtime_def check_cc_out_of_range_def check_cp_e_def check_over_temp_def check_ac_absent_def
      check_relay_weld_bl0939_def check_relay_stuck_open_bl0939_def check_hard_over_current_def
      check_soft_over_current_def check_cp_regression_def check_gfci_def integrate_energy_def
      update_evse_from_j1772_def clear_authorization_def publish_rfid_config_def apply_relay_state_def
      apply_cp_for_state_def Let_def case_prod_unfold split: gfci_policy_action.split)

lemma learn_frames [simp]:
  "s_rfid_learn_ticks (check_safe_fail e js mv s) = s_rfid_learn_ticks s"
  "s_rfid_learn_ticks (check_gfci e js mv s) = s_rfid_learn_ticks s"
  "s_rfid_learn_ticks (check_relay_weld e js mv s) = s_rfid_learn_ticks s"
  "s_rfid_learn_ticks (check_relay_stuck_open e js mv s) = s_rfid_learn_ticks s"
  "s_rfid_learn_ticks (check_pe_continuity e js mv s) = s_rfid_learn_ticks s"
  "s_rfid_learn_ticks (check_adc_runtime e js mv s) = s_rfid_learn_ticks s"
  "s_rfid_learn_ticks (check_cc_out_of_range e js mv s) = s_rfid_learn_ticks s"
  "s_rfid_learn_ticks (check_cp_e e js mv s) = s_rfid_learn_ticks s"
  "s_rfid_learn_ticks (check_over_temp e r1 r2 s) = s_rfid_learn_ticks s"
  "s_rfid_learn_ticks (check_ac_absent e js mv s) = s_rfid_learn_ticks s"
  "s_rfid_learn_ticks (check_relay_weld_bl0939 e js mv s) = s_rfid_learn_ticks s"
  "s_rfid_learn_ticks (check_relay_stuck_open_bl0939 e js mv s) = s_rfid_learn_ticks s"
  "s_rfid_learn_ticks (check_hard_over_current e js mv s) = s_rfid_learn_ticks s"
  "s_rfid_learn_ticks (check_soft_over_current e js mv s) = s_rfid_learn_ticks s"
  "s_rfid_learn_ticks (check_cp_regression e js mv s) = s_rfid_learn_ticks s"
  "s_rfid_learn_ticks (integrate_energy e s) = s_rfid_learn_ticks s"
  "s_rfid_learn_ticks (update_evse_from_j1772 e js s) = s_rfid_learn_ticks s"
  "s_rfid_learn_ticks (apply_relay_state js s) = s_rfid_learn_ticks s"
  "s_rfid_learn_ticks (apply_cp_for_state e js s) = s_rfid_learn_ticks s"
  by (simp_all add: check_safe_fail_def check_relay_weld_def check_relay_stuck_open_def check_pe_continuity_def
      check_adc_runtime_def check_cc_out_of_range_def check_cp_e_def check_over_temp_def check_ac_absent_def
      check_relay_weld_bl0939_def check_relay_stuck_open_bl0939_def check_hard_over_current_def
      check_soft_over_current_def check_cp_regression_def check_gfci_def integrate_energy_def
      update_evse_from_j1772_def clear_authorization_def publish_rfid_config_def apply_relay_state_def
      apply_cp_for_state_def Let_def case_prod_unfold split: gfci_policy_action.split)

text \<open>The reader's context and the learn countdown before the RFID block of a tick.\<close>

lemma reader_before_block:
  assumes "ready_state s"
  shows "rfid_c (meter_poll e (tick_js e s) (cp_high_in e) (tick_outputs e s)) = rfid_c s"
    "s_rfid_learn_ticks (meter_poll e (tick_js e s) (cp_high_in e) (tick_outputs e s)) = s_rfid_learn_ticks s"
proof -
  have "rfid_c (tick_front e s) = rfid_c s" "s_rfid_learn_ticks (tick_front e s) = s_rfid_learn_ticks s"
    using assms by (simp_all add: tick_front_def ready_state_def drain_inbox_def service_replug_window_def
        classify_pilot_def Let_def numeral_eq_Suc)
  then show "rfid_c (meter_poll e (tick_js e s) (cp_high_in e) (tick_outputs e s)) = rfid_c s"
    "s_rfid_learn_ticks (meter_poll e (tick_js e s) (cp_high_in e) (tick_outputs e s)) = s_rfid_learn_ticks s"
    by (simp_all add: tick_outputs_def meter_poll_def meter_checks_def apply_outputs_def fault_checks_def Let_def)
qed

lemma replug_frames [simp]:
  "s_replug_window_ticks (update_evse_from_j1772 e js s) = s_replug_window_ticks s"
  "s_replug_window_ticks (apply_relay_state js s) = s_replug_window_ticks s"
  "s_replug_window_ticks (apply_cp_for_state e js s) = s_replug_window_ticks s"
  by (simp_all add: update_evse_from_j1772_def clear_authorization_def publish_rfid_config_def apply_relay_state_def
      apply_cp_for_state_def Let_def)

lemma tick_inbox_quiet:
  assumes "ready_state s" "rfid_rx e = []"
  shows "inbox (safety_tick e s) = []" "s_replug_window_ticks (safety_tick e s) = 0"
proof -
  have timers: "inbox (rfid_timers t) = inbox t" "s_replug_window_ticks (rfid_timers t) = s_replug_window_ticks t" for t
    by (simp_all add: rfid_timers_def Let_def)
  have front: "inbox (tick_front e s) = []" "s_replug_window_ticks (tick_front e s) = 0"
    using assms(1) by (simp_all add: tick_front_def ready_state_def drain_inbox_def service_replug_window_def
        classify_pilot_def Let_def numeral_eq_Suc)
  show "inbox (safety_tick e s) = []"
    using assms(2) front(1) by (simp add: safety_tick_body tick_body_def tick_outputs_def rfid_block_def timers
        meter_poll_def meter_checks_def apply_outputs_def fault_checks_def Let_def)
  show "s_replug_window_ticks (safety_tick e s) = 0"
    using assms(2) front(2) by (simp add: safety_tick_body tick_body_def tick_outputs_def rfid_block_def timers
        meter_det.keeps_replug apply_outputs_def regression_det.keeps_replug fault_checks_det.keeps_replug Let_def)
qed

lemma ready_tick:
  assumes "ready_state s" "healthy e" "\<not> cfg_require_auth e \<or> s_session_authorized s"
    "committed (j1772_step (cp s) (cp_high_in e) J1772_DEBOUNCE_N) \<noteq> J1772_STATE_E"
  defines "js \<equiv> committed (j1772_step (cp s) (cp_high_in e) J1772_DEBOUNCE_N)"
  defines "n \<equiv> if js = J1772_STATE_C then (if evse_c_streak s < 50 then Suc (evse_c_streak s) else evse_c_streak s) else 0"
  shows "evse_c_streak (safety_tick e s) = n"
    "es (safety_tick e s) = (if 50 \<le> n then EVSE_CHARGING else EVSE_READY)"
    "cp (safety_tick e s) = j1772_step (cp s) (cp_high_in e) J1772_DEBOUNCE_N"
    "rfid_rx e = [] \<Longrightarrow> inbox (safety_tick e s) = []"
    "rfid_rx e = [] \<Longrightarrow> s_replug_window_ticks (safety_tick e s) = 0"
proof -
  let ?f = "fault_checks e js (cp_high_in e) (tick_front e s)"
  have js: "tick_js e s = js" by (simp add: tick_js_def front_ready(2) [OF assms(1)] js_def)
  have "es ?f = EVSE_READY"
    using assms(2,4) front_ready(1) [OF assms(1)] by (intro quiet_fault_checks) (simp_all add: js_def)
  moreover have "evse_c_streak ?f = evse_c_streak s" "s_session_authorized ?f = s_session_authorized s"
    by (simp_all add: fault_checks_det.keeps_dwell fault_checks_det.keeps_auth)
  ultimately have "evse_c_streak (update_evse_from_j1772 e js ?f) = n \<and>
    es (update_evse_from_j1772 e js ?f) = (if 50 \<le> n then EVSE_CHARGING else EVSE_READY)"
    using assms(3) by (auto simp: update_evse_from_j1772_def n_def clear_authorization_def publish_rfid_config_def)
  then show "evse_c_streak (safety_tick e s) = n"
    "es (safety_tick e s) = (if 50 \<le> n then EVSE_CHARGING else EVSE_READY)"
    using assms(2) by (simp_all add: safety_tick_body tick_body_def tick_outputs_def meter_det.keeps_dwell js
        quiet_meter healthy_def)
  show "cp (safety_tick e s) = j1772_step (cp s) (cp_high_in e) J1772_DEBOUNCE_N"
    using front_ready(2) [OF assms(1)] by simp
  show "rfid_rx e = [] \<Longrightarrow> inbox (safety_tick e s) = []"
    "rfid_rx e = [] \<Longrightarrow> s_replug_window_ticks (safety_tick e s) = 0"
    using tick_inbox_quiet [OF assms(1)] by simp_all
qed

text \<open>An authorization survives every tick whose pilot is not in state A.\<close>

lemma rfid_keeps_auth: "s_session_authorized s \<Longrightarrow> s_session_authorized (rfid_block e s)"
  by (simp add: rfid_block_def rfid_edge_def card_swiped_def authorized_swipe_def publish_rfid_config_def Let_def
      case_prod_unfold)

lemma tick_keeps_auth:
  assumes "s_session_authorized s" "committed (cp (safety_tick e s)) \<noteq> J1772_STATE_A"
  shows "s_session_authorized (safety_tick e s)"
proof -
  have "tick_js e s \<noteq> J1772_STATE_A" using assms(2) by (simp add: tick_js_def)
  then have "s_session_authorized (tick_outputs e s)"
    using assms(1) by (simp add: tick_outputs_def update_evse_from_j1772_def clear_authorization_def Let_def
        fault_checks_det.keeps_auth)
  then have "s_session_authorized (rfid_block e (meter_poll e (tick_js e s) (cp_high_in e) (tick_outputs e s)))"
    by (intro rfid_keeps_auth) (simp add: meter_det.keeps_auth)
  then show ?thesis by (simp add: safety_tick_body tick_body_def)
qed

section \<open>From a charge request to a closed contactor\<close>

text \<open>Ticks of a healthy run without a debounced state change: the streak counts them.\<close>

definition run_ticks :: "tick_env list \<Rightarrow> safety_state \<Rightarrow> safety_state" where
  "run_ticks envs s = fold safety_tick envs s"

lemma run_ticks_sup: "run_ticks envs s = sup_run (map Tick envs) s"
  unfolding run_ticks_def sup_run_def by (induction envs arbitrary: s) simp_all

lemma classify_C: "4500 \<le> mv \<Longrightarrow> mv < 7500 \<Longrightarrow> classify_strict mv = J1772_STATE_C"
  by (simp add: classify_strict_def)

definition wants_charge :: "tick_env \<Rightarrow> bool" where
  "wants_charge e \<longleftrightarrow> healthy e \<and> classify_strict (cp_high_in e) = J1772_STATE_C \<and> rfid_rx e = []"

definition allowed :: "tick_env list \<Rightarrow> safety_state \<Rightarrow> bool" where
  "allowed envs s \<longleftrightarrow> s_session_authorized s \<or> (\<forall>e \<in> set envs. \<not> cfg_require_auth e)"

lemma dwell_ticks:
  assumes "ready_state s" "committed (cp s) = J1772_STATE_C" "candidate (cp s) = J1772_STATE_C"
    "\<forall>e \<in> set envs. wants_charge e" "evse_c_streak s + length envs < 50" "allowed envs s"
  shows "ready_state (run_ticks envs s) \<and> evse_c_streak (run_ticks envs s) = evse_c_streak s + length envs \<and>
    committed (cp (run_ticks envs s)) = J1772_STATE_C \<and> candidate (cp (run_ticks envs s)) = J1772_STATE_C \<and>
    (s_session_authorized s \<longrightarrow> s_session_authorized (run_ticks envs s))"
  using assms
proof (induction envs arbitrary: s)
  case Nil
  then show ?case by (simp add: run_ticks_def)
next
  case (Cons e envs)
  let ?t = "safety_tick e s" and ?c = "j1772_step (cp s) (cp_high_in e) J1772_DEBOUNCE_N"
  have w: "wants_charge e" using Cons.prems(4) by simp
  have c: "committed ?c = J1772_STATE_C" "candidate ?c = J1772_STATE_C"
    using Cons.prems(2,3) w by (auto simp: j1772_step_def Let_def wants_charge_def)
  note t = ready_tick [OF Cons.prems(1), of e]
  have "ready_state ?t" "evse_c_streak ?t = Suc (evse_c_streak s)" "cp ?t = ?c"
    using t w c Cons.prems(5,6) by (auto simp: ready_state_def wants_charge_def allowed_def)
  moreover from this(3) have "s_session_authorized s \<longrightarrow> s_session_authorized ?t"
    using tick_keeps_auth [of s e] c(1) by simp
  ultimately show ?case
    using Cons.IH [of ?t] Cons.prems(4-6) c by (auto simp: run_ticks_def allowed_def)
qed

lemma not_ready_charging:
  assumes "ready_state s" "committed (cp s) = J1772_STATE_C" "candidate (cp s) = J1772_STATE_C" "wants_charge e"
    "evse_c_streak s = 49" "allowed [e] s"
  shows "es (safety_tick e s) = EVSE_CHARGING"
  using assms ready_tick(2) [OF assms(1), of e]
  by (auto simp: j1772_step_def Let_def wants_charge_def allowed_def)

lemma debounce_C:
  assumes "ready_state s" "committed (cp s) \<noteq> J1772_STATE_C" "committed (cp s) \<noteq> J1772_STATE_E"
    "candidate (cp s) \<noteq> J1772_STATE_C" "wants_charge a" "wants_charge b" "wants_charge c"
    "\<forall>e \<in> {a, b, c}. \<not> cfg_require_auth e"
  defines "t \<equiv> run_ticks [a, b, c] s"
  shows "ready_state t" "committed (cp t) = J1772_STATE_C" "candidate (cp t) = J1772_STATE_C" "evse_c_streak t = 1"
proof -
  let ?s1 = "safety_tick a s" and ?s2 = "safety_tick b (safety_tick a s)"
  have cl: "classify_strict (cp_high_in e) = J1772_STATE_C" "healthy e" "rfid_rx e = []"
    if "wants_charge e" for e using that by (simp_all add: wants_charge_def)
  note t1 = ready_tick [OF assms(1) cl(2) [OF assms(5)]]
  have s1: "ready_state ?s1" "committed (cp ?s1) = committed (cp s)" "candidate (cp ?s1) = J1772_STATE_C"
    "cp_streak (cp ?s1) = 1" "evse_c_streak ?s1 = 0"
    using t1 assms(2-4,8) cl [OF assms(5)] by (simp_all add: ready_state_def j1772_step_def Let_def)
  note t2 = ready_tick [OF s1(1) cl(2) [OF assms(6)]]
  have s2: "ready_state ?s2" "committed (cp ?s2) = committed (cp s)" "candidate (cp ?s2) = J1772_STATE_C"
    "cp_streak (cp ?s2) = 2" "evse_c_streak ?s2 = 0"
    using t2 assms(2,3,8) s1 cl [OF assms(6)] by (simp_all add: ready_state_def j1772_step_def Let_def)
  note t3 = ready_tick [OF s2(1) cl(2) [OF assms(7)]]
  show "ready_state t" "committed (cp t) = J1772_STATE_C" "candidate (cp t) = J1772_STATE_C" "evse_c_streak t = 1"
    using t3 assms(2,3,8) s2 cl [OF assms(7)]
    by (simp_all add: t_def run_ticks_def ready_state_def j1772_step_def Let_def)
qed

lemma run_ticks_append: "run_ticks (xs @ ys) s = run_ticks ys (run_ticks xs s)"
  by (simp add: run_ticks_def)

lemma progress:
  assumes "ready_state s" "committed (cp s) \<noteq> J1772_STATE_C" "committed (cp s) \<noteq> J1772_STATE_E"
    "candidate (cp s) \<noteq> J1772_STATE_C" "\<forall>e \<in> set envs. wants_charge e \<and> \<not> cfg_require_auth e" "length envs = 52"
  shows "es (run_ticks (take 51 envs) s) = EVSE_READY" "es (run_ticks envs s) = EVSE_CHARGING"
proof -
  let ?a = "envs ! 0" and ?b = "envs ! 1" and ?c = "envs ! 2" and ?mid = "take 48 (drop 3 envs)"
  have split: "take 51 envs = [?a, ?b, ?c] @ ?mid" "envs = take 51 envs @ [envs ! 51]"
    using assms(6) by (auto intro!: nth_equalityI simp: nth_append nth_Cons' less_Suc_eq numeral_eq_Suc)
  have w: "wants_charge (envs ! i)" "\<not> cfg_require_auth (envs ! i)" if "i < 52" for i
    using assms(5,6) that by simp_all
  have "\<forall>e \<in> {?a, ?b, ?c}. \<not> cfg_require_auth e" using w(2) by simp
  note d = debounce_C [OF assms(1-4) w(1) w(1) w(1) this]
  have mid: "\<forall>e \<in> set ?mid. wants_charge e" "length ?mid = 48" "\<forall>e \<in> set ?mid. \<not> cfg_require_auth e"
    using assms(5,6) by (auto dest!: in_set_takeD in_set_dropD)
  have dt: "ready_state (run_ticks (take 51 envs) s) \<and> evse_c_streak (run_ticks (take 51 envs) s) = 49 \<and>
    committed (cp (run_ticks (take 51 envs) s)) = J1772_STATE_C \<and> candidate (cp (run_ticks (take 51 envs) s)) = J1772_STATE_C"
    using dwell_ticks [OF d(1-3) mid(1)] d(4) mid(2,3) unfolding split(1) run_ticks_append by (simp add: allowed_def)
  then show "es (run_ticks (take 51 envs) s) = EVSE_READY" by (simp add: ready_state_def)
  have "es (safety_tick (envs ! 51) (run_ticks (take 51 envs) s)) = EVSE_CHARGING"
    using dt w [of 51] by (intro not_ready_charging) (auto simp: allowed_def)
  moreover have "run_ticks envs s = safety_tick (envs ! 51) (run_ticks (take 51 envs) s)"
    by (subst split(2)) (simp add: run_ticks_def)
  ultimately show "es (run_ticks envs s) = EVSE_CHARGING" by simp
qed

section \<open>A card presented while ready\<close>

lemma swipe_block:
  assumes "rfid_c s = ctx_of r" "rfid_rx e = reading_frame (Card uid) st" "r \<noteq> Card uid" "uid \<noteq> 0"
    "auth_contains e uid" "s_rfid_learn_ticks s = 0" "es s = EVSE_READY"
  shows "s_session_authorized (rfid_block e s)" "inbox (rfid_block e s) = inbox s"
proof -
  have "length (reading_frame (Card uid) st) = 11" by (simp add: card_frame_def)
  then have fd: "rfid_feed (rfid_c s) (take 32 (rfid_rx e)) = (1, ctx_of (Card uid), reading_action (Card uid))"
    and ne: "take 32 (rfid_rx e) \<noteq> []"
    using assms(1-3) feed_reading [of r "Card uid" st] by (auto simp del: reading_frame.simps)
  have timers: "inbox (rfid_timers t) = inbox t" for t
    by (simp add: rfid_timers_def Let_def)
  have blk: "rfid_block e s = rfid_timers (rfid_edge e (reading_action (Card uid)) (s\<lparr>rfid_c := ctx_of (Card uid)\<rparr>))"
    using fd ne by (simp add: rfid_block_def)
  show "s_session_authorized (rfid_block e s)" "inbox (rfid_block e s) = inbox s"
    unfolding blk timers using assms(4-7)
    by (simp_all add: rfid_edge_def card_swiped_def authorized_swipe_def publish_rfid_config_def Let_def)
qed

lemma swipe_tick:
  assumes "ready_state s" "rfid_c s = ctx_of r" "rfid_rx e = reading_frame (Card uid) st" "r \<noteq> Card uid"
    "uid \<noteq> 0" "auth_contains e uid" "s_rfid_learn_ticks s = 0" "es (safety_tick e s) = EVSE_READY"
  shows "s_session_authorized (safety_tick e s)" "ready_state (safety_tick e s)"
proof -
  let ?m = "meter_poll e (tick_js e s) (cp_high_in e) (tick_outputs e s)"
  have front: "inbox (tick_front e s) = []" "s_replug_window_ticks (tick_front e s) = 0"
    using assms(1) by (simp_all add: tick_front_def ready_state_def drain_inbox_def service_replug_window_def
        classify_pilot_def Let_def numeral_eq_Suc)
  have m: "rfid_c ?m = ctx_of r" "s_rfid_learn_ticks ?m = 0" "es ?m = EVSE_READY"
    using reader_before_block [OF assms(1), of e] assms(2,7,8) by (simp_all add: safety_tick_body tick_body_def)
  have "inbox ?m = []"
    using front by (simp add: tick_outputs_def meter_poll_def meter_checks_def apply_outputs_def
        fault_checks_def Let_def)
  moreover have "s_replug_window_ticks ?m = 0"
    using front by (simp add: meter_det.keeps_replug apply_outputs_def regression_det.keeps_replug
        fault_checks_det.keeps_replug tick_outputs_def Let_def)
  ultimately show "s_session_authorized (safety_tick e s)" "ready_state (safety_tick e s)"
    using swipe_block [OF m(1) assms(3-6) m(2,3)] m(3)
    by (simp_all add: safety_tick_body tick_body_def ready_state_def)
qed

end
