(* ===== verification/Safety_Spec.thy ===== *)
theory Safety_Spec
  imports Safety_Live
begin

text \<open>
  The guarantees of the supervisor, stated on the states that \<open>reachable\<close> describes: any boot, then
  any sequence of ticks with any inputs and of requests from other tasks. Each statement is a
  short consequence of the contracts proved in \<^verbatim>\<open>Safety_Flow\<close>, \<^verbatim>\<open>Safety_Props\<close>,
  \<^verbatim>\<open>Safety_Trace\<close> and \<^verbatim>\<open>Safety_Live\<close>. \<open>demo_env\<close> is a concrete healthy input used to instantiate them.
\<close>

section \<open>A concrete input\<close>

definition demo_env :: tick_env where
  "demo_env =
     \<lparr>flags = \<lparr>RELAY_FEEDBACK_KNOWN = False, PE_CONTINUITY_DETECTOR = False, CC_DETECTOR = False,
               GFCI_CAL_SELF_TEST = False, NTC1_PRESENT = True, GUN_NTC_PRESENT = True\<rparr>,
      now = 0, cp_high_in = 12000, cp_low_in = -12000, adc = (\<lambda>r. if r = ADC_RANK_PE then 0 else 2000), gfci_line_low = False,
      gfci_handshake = False, gfci_self_test_rc = 0, refresh_task_ok = True, dip1_low = True, safe_fail = False,
      bl_answers = (\<lambda>r. (0, 0, 0, 0)), rfid_rx = [], cfg_amps = 0, cfg_require_auth = False,
      cfg_gfci_policy = GFCI_POL_FAULT, cal_ia_na = 0, cal_pa_uw = 0, cal_freq_const = 0, auth_count = 0,
      auth_contains = (\<lambda>u. False)\<rparr>"

definition demo_boot :: safety_state where
  "demo_boot = safety_boot demo_env [12000, 12000, 12000, 12000, 12000] (safety_init\<lparr>inbox := []\<rparr>)"

lemma demo_reachable: "reachable demo_boot"
  unfolding demo_boot_def by (rule reachable.booted) simp_all

definition demo_C :: tick_env where
  "demo_C = demo_env\<lparr>cp_high_in := 6000\<rparr>"

lemma demo_boot_ready:
  "ready_state demo_boot" "committed (cp demo_boot) = J1772_STATE_A" "candidate (cp demo_boot) = J1772_STATE_A"
proof -
  have run: "j1772_run 3 j1772_init [12000, 12000, 12000, 12000, 12000] =
      \<lparr>committed = J1772_STATE_A, candidate = J1772_STATE_A, cp_streak = 5\<rparr>"
    by (simp add: j1772_step_def j1772_init_def classify_strict_def)
  have band: "\<not> adc_out_of_band demo_env r" if "r \<noteq> ADC_RANK_PE" for r
    using that by (simp add: adc_out_of_band_def demo_env_def)
  have st: "run_boot_self_test demo_env 12000 s = 0" for s
    by (simp add: run_boot_self_test_def self_test_adc_sanity_def self_test_relay_open_def
        self_test_cp_pilot_present_def relay_defs band)
  have env: "safe_fail demo_env = False" "GFCI_CAL_SELF_TEST (flags demo_env) = False"
    by (simp_all add: demo_env_def)
  show "ready_state demo_boot" "committed (cp demo_boot) = J1772_STATE_A" "candidate (cp demo_boot) = J1772_STATE_A"
    unfolding demo_boot_def safety_boot_def Let_def
    by (simp_all add: run st env del: j1772_run.simps add: boot_self_tests_def self_test_gfci_cal_def check_safe_fail_def ready_state_def
        safety_init_def)
qed

lemma demo_C_wants: "wants_charge demo_C \<and> \<not> cfg_require_auth demo_C"
proof -
  show ?thesis
    by (simp add: adc_out_of_band_def wants_charge_def healthy_def demo_C_def demo_env_def classify_strict_def gfci_sampled_def)
qed

definition demo_charging :: safety_state where
  "demo_charging = run_ticks (replicate 52 demo_C) demo_boot"

lemma demo_run:
  "es (run_ticks (replicate 51 demo_C) demo_boot) = EVSE_READY" "es demo_charging = EVSE_CHARGING"
  using progress [OF demo_boot_ready(1), of "replicate 52 demo_C"] demo_boot_ready demo_C_wants
  by (simp_all add: demo_charging_def)

lemma demo_charging_tick:
  "demo_charging = safety_tick demo_C (run_ticks (replicate 51 demo_C) demo_boot)"
proof -
  have "replicate 52 demo_C = replicate 51 demo_C @ [demo_C]"
    by (simp add: replicate_append_same flip: replicate_Suc)
  then show ?thesis by (simp only: demo_charging_def run_ticks_append) (simp add: run_ticks_def)
qed

lemma demo_charging_reachable: "reachable demo_charging"
  by (simp add: demo_charging_def run_ticks_sup reachable_run demo_reachable)

definition demo_gfci :: tick_env where
  "demo_gfci = demo_C\<lparr>gfci_line_low := True\<rparr>"

lemma demo_gfci_sampled: "gfci_sampled demo_gfci" "cfg_gfci_policy demo_gfci \<noteq> GFCI_POL_WARN"
  by (simp_all add: gfci_sampled_def demo_gfci_def demo_C_def demo_env_def)

lemma gfci_three:
  assumes "reachable s" "gfci_sampled e1" "gfci_sampled e2" "gfci_sampled e3"
    "cfg_gfci_policy e3 \<noteq> GFCI_POL_WARN"
  shows "gfci_active (run_ticks [e1, e2, e3] s)"
proof -
  let ?s1 = "safety_tick e1 s" and ?s2 = "safety_tick e2 (safety_tick e1 s)"
  have ok: "gfci_ok s" using reachable_ok [OF assms(1)] by simp
  then have ok2: "gfci_ok ?s2" by (simp add: tick_op.keeps_gfci_ok)
  have "2 \<le> trip_streak (gfci_ctx ?s2)"
    using gfci_streak_tick [OF assms(2), of s] gfci_streak_tick [OF assms(3), of ?s1] ok
    by (simp add: gfci_ok_def min_def)
  with gfci_trip_active [OF ok2 assms(4) _ assms(5)] show ?thesis by (simp add: run_ticks_def)
qed

definition demo_tripped :: safety_state where
  "demo_tripped = run_ticks [demo_gfci, demo_gfci, demo_gfci] demo_charging"

lemma demo_tripped: "reachable demo_tripped" "gfci_active demo_tripped" "es demo_tripped = EVSE_FAULT"
proof -
  show r: "reachable demo_tripped"
    by (simp add: demo_tripped_def run_ticks_sup reachable_run demo_charging_reachable)
  show a: "gfci_active demo_tripped"
    unfolding demo_tripped_def by (rule gfci_three) (simp_all add: demo_charging_reachable demo_gfci_sampled)
  show "es demo_tripped = EVSE_FAULT" using gfci_active_fault a reachable_ok [OF r] by blast
qed

section \<open>Guarantees\<close>

text \<open>C1: At the end of every tick, whatever the inputs and the requests before it, the contactor is
  energised exactly when the supervisor is charging; and charging means that the debounced pilot
  is in state C, that no latched fault is active and that a session is open.\<close>

theorem contactor_iff_charging:
  assumes "reachable s"
  shows "(contactor_energised (relay (safety_tick e s)) \<longleftrightarrow> es (safety_tick e s) = EVSE_CHARGING) \<and>
    (es (safety_tick e s) = EVSE_CHARGING \<longrightarrow>
      committed (cp (safety_tick e s)) = J1772_STATE_C \<and> \<not> fault_any_latched_active (fs (safety_tick e s)) \<and>
      ses_active (s_session (safety_tick e s)))"
proof -
  have ok: "sup_ok s" and ok': "sup_ok (safety_tick e s)"
    using reachable_ok [OF assms] by (simp_all add: tick_op.keeps_ok)
  have "contactor_energised (relay (safety_tick e s)) \<longleftrightarrow> es (safety_tick e s) = EVSE_CHARGING"
    by (simp add: energised_commanded [OF ok'] tick_commanded_iff [OF ok])
  moreover have "committed (cp (safety_tick e s)) = J1772_STATE_C \<and>
      \<not> fault_any_latched_active (fs (safety_tick e s)) \<and> ses_active (s_session (safety_tick e s))"
    if ch: "es (safety_tick e s) = EVSE_CHARGING"
    using tick_charging_C [OF ch] ok' ch by (auto simp: sup_ok_def latch_ok_def base_ok_def)
  ultimately show ?thesis by blast
qed

lemma contactor_iff_charging_witness:
  "contactor_energised (relay demo_charging) \<and> committed (cp demo_charging) = J1772_STATE_C"
proof -
  let ?s = "run_ticks (replicate 51 demo_C) demo_boot"
  have r: "reachable ?s" by (simp add: run_ticks_sup reachable_run demo_reachable)
  with contactor_iff_charging [OF r, of demo_C] demo_run(2) show ?thesis by (simp add: demo_charging_tick)
qed

text \<open>C2: A ground fault is permanent: once it is raised no sequence of ticks, inputs and requests
  (clear requests included) clears it, closes the contactor, or leaves the fault state.\<close>

theorem gfci_permanent:
  assumes "reachable s" "FAULT_GFCI \<in> active_set (fs s)"
  shows "FAULT_GFCI \<in> active_set (fs (sup_run evs s)) \<and> es (sup_run evs s) = EVSE_FAULT \<and>
    \<not> contactor_energised (relay (sup_run evs s)) \<and> ccr_ch2 (pwm (sup_run evs s)) = CP_PWM_CCR_LOW"
proof -
  have ok: "sup_ok (sup_run evs s)" using reachable_ok [OF reachable_run [OF assms(1)]] by simp
  have act: "gfci_active (sup_run evs s)" using assms(2) by (intro run_op.keeps_gfci) (simp add: gfci_active_def)
  note flt = gfci_active_fault [OF ok act]
  with fault_hw [OF ok flt] act show ?thesis by (simp add: gfci_active_def)
qed

lemma gfci_permanent_witness:
  "es (sup_run [Post SAFETY_REQ_CLEAR_FAULT 0 0, Tick demo_C] demo_tripped) = EVSE_FAULT"
  using gfci_permanent [of demo_tripped "[Post SAFETY_REQ_CLEAR_FAULT 0 0, Tick demo_C]"] demo_tripped
  by (simp add: gfci_active_def)

text \<open>C3: A ground fault sampled in three consecutive ticks outside the chip's handshake window,
  with any policy but WARN at the third, opens the contactor by the end of the third tick.\<close>

theorem gfci_trips_in_three_ticks:
  assumes "reachable s" "gfci_sampled e1" "gfci_sampled e2" "gfci_sampled e3"
    "cfg_gfci_policy e3 \<noteq> GFCI_POL_WARN"
  shows "es (run_ticks [e1, e2, e3] s) = EVSE_FAULT \<and> \<not> contactor_energised (relay (run_ticks [e1, e2, e3] s)) \<and>
    fault_is_active (fs (run_ticks [e1, e2, e3] s)) FAULT_GFCI"
proof -
  have ok: "sup_ok (run_ticks [e1, e2, e3] s)"
    using reachable_ok reachable_run [OF assms(1)] by (simp add: run_ticks_sup)
  note act = gfci_three [OF assms]
  note flt = gfci_active_fault [OF ok act]
  with fault_hw [OF ok flt] act show ?thesis by (simp add: gfci_active_def FID_OK_def)
qed

lemma gfci_trips_in_three_ticks_witness:
  "contactor_energised (relay demo_charging) \<and>
   \<not> contactor_energised (relay (run_ticks [demo_gfci, demo_gfci, demo_gfci] demo_charging))"
proof -
  have ok: "sup_ok (run_ticks (replicate 51 demo_C) demo_boot)"
    using reachable_ok reachable_run [OF demo_reachable] by (simp add: run_ticks_sup)
  have "relay_main_commanded (relay demo_charging)"
    using demo_run(2) tick_commanded_iff [OF ok, of demo_C] by (simp add: demo_charging_tick)
  then show ?thesis
    using gfci_trips_in_three_ticks [OF demo_charging_reachable demo_gfci_sampled(1) demo_gfci_sampled(1)
        demo_gfci_sampled] reachable_ok [OF demo_charging_reachable]
    by (simp add: energised_commanded)
qed

text \<open>C6: Whenever a latched fault is active, in any reachable state between two steps, the supervisor is in
  \<open>EVSE_FAULT\<close> with the contactor commanded open and open, the redundant force-open latch armed and the
  pilot driven to state F.\<close>

theorem latched_fault_halts:
  assumes "reachable s" "fault_any_latched_active (fs s)"
  shows "es s = EVSE_FAULT \<and> \<not> relay_main_commanded (relay s) \<and> \<not> contactor_energised (relay s) \<and>
    relay_force_open_active (relay s) \<and> ccr_ch2 (pwm s) = CP_PWM_CCR_LOW"
proof -
  have ok: "sup_ok s" using reachable_ok [OF assms(1)] by simp
  with assms(2) have flt: "es s = EVSE_FAULT" by (simp add: sup_ok_def latch_ok_def)
  with fault_hw [OF ok flt] ok show ?thesis by (simp add: sup_ok_def base_ok_def)
qed

lemma latched_fault_halts_witness: "relay_force_open_active (relay demo_tripped)"
proof -
  have "fault_any_latched_active (fs demo_tripped)"
    using demo_tripped(2) by (auto simp: fault_any_latched_iff gfci_active_def latched_ids_def)
  with latched_fault_halts [OF demo_tripped(1)] show ?thesis by simp
qed

text \<open>C7: The supervisor leaves \<open>EVSE_FAULT\<close> only through a CLEAR_FAULT request: in a tick whose inbox
  holds none it stays there, whatever the inputs.\<close>

theorem fault_exit_needs_clear:
  assumes "es s = EVSE_FAULT" "es (safety_tick e s) \<noteq> EVSE_FAULT"
  shows "\<exists>r \<in> set (inbox s). req_type r = SAFETY_REQ_CLEAR_FAULT"
  using assms front_keeps_fault tick_keeps_fault by blast

text \<open>A boot into the crash-loop safe state, then a clear of all faults and a healthy tick.\<close>

definition demo_safe :: safety_state where
  "demo_safe = safety_boot (demo_env\<lparr>safe_fail := True\<rparr>) [12000, 12000, 12000, 12000, 12000]
     (safety_init\<lparr>inbox := []\<rparr>)"

lemma clear_all_leaves:
  assumes "sup_ok s" "es s = EVSE_FAULT" "FAULT_GFCI \<notin> active_set (fs s)"
  shows "es (request_clear_fault e 0 s) = EVSE_READY" "cp (request_clear_fault e 0 s) = j1772_init"
    "\<not> fault_any_latched_active (fs (request_clear_fault e 0 s))"
    "s_replug_window_ticks (request_clear_fault e 0 s) = s_replug_window_ticks s"
proof -
  have "\<not> fault_any_latched_active (snd (fault_clear_all_clearable (fs s)))"
    using assms(3) by (auto simp: fault_any_latched_iff active_set_clear_all)
  then show "es (request_clear_fault e 0 s) = EVSE_READY"
    "cp (request_clear_fault e 0 s) = j1772_init"
    "\<not> fault_any_latched_active (fs (request_clear_fault e 0 s))"
    "s_replug_window_ticks (request_clear_fault e 0 s) = s_replug_window_ticks s"
    using assms(2) by (simp_all add: request_clear_fault_def clear_requested_def leave_fault_def Let_def
        case_prod_unfold fault_any_latched_iff)
qed

lemma demo_safe:
  "reachable demo_safe" "es demo_safe = EVSE_FAULT" "FAULT_GFCI \<notin> active_set (fs demo_safe)" "inbox demo_safe = []"
  "s_replug_window_ticks demo_safe = 0"
  "FAULT_BOOT_SELF_TEST \<notin> active_set (fs demo_safe)" "FAULT_GFCI_SELF_TEST \<notin> active_set (fs demo_safe)"
proof -
  let ?e = "demo_env\<lparr>safe_fail := True\<rparr>"
  show "reachable demo_safe" unfolding demo_safe_def by (rule reachable.booted) simp_all
  have run: "j1772_run 3 j1772_init [12000, 12000, 12000, 12000, 12000] =
      \<lparr>committed = J1772_STATE_A, candidate = J1772_STATE_A, cp_streak = 5\<rparr>"
    by (simp add: j1772_step_def j1772_init_def classify_strict_def)
  have st: "run_boot_self_test ?e 12000 s = 0" for s
    by (simp add: run_boot_self_test_def self_test_adc_sanity_def self_test_relay_open_def
        self_test_cp_pilot_present_def relay_defs adc_out_of_band_def demo_env_def)
  have env: "safe_fail ?e" "GFCI_CAL_SELF_TEST (flags ?e) = False" "GFCI_CAL_SELF_TEST (flags demo_env) = False"
    by (simp_all add: demo_env_def)
  have none: "active_set fault_init = {}" by (simp add: active_set_def fault_init_def)
  show "es demo_safe = EVSE_FAULT" "FAULT_GFCI \<notin> active_set (fs demo_safe)" "inbox demo_safe = []"
    "s_replug_window_ticks demo_safe = 0"
    "FAULT_BOOT_SELF_TEST \<notin> active_set (fs demo_safe)" "FAULT_GFCI_SELF_TEST \<notin> active_set (fs demo_safe)"
    unfolding demo_safe_def safety_boot_def Let_def
    by (simp_all add: run st env none del: j1772_run.simps add: boot_self_tests_def self_test_gfci_cal_def
        check_safe_fail_def safety_init_def FID_OK_def active_set_raise)
qed

lemma front_of_clear:
  assumes "reachable s" "es s = EVSE_FAULT" "FAULT_GFCI \<notin> active_set (fs s)" "inbox s = []"
    "s_replug_window_ticks s = 0" "healthy e"
  shows "es (safety_tick e (sup_step (Post SAFETY_REQ_CLEAR_FAULT a 0) s)) = EVSE_READY"
proof -
  let ?r = "\<lparr>req_type = SAFETY_REQ_CLEAR_FAULT, arg_u8 = a, arg_u32 = 0\<rparr>"
  let ?s = "s\<lparr>inbox := [?r]\<rparr>" and ?t = "request_clear_fault e 0 (s\<lparr>inbox := []\<rparr>)"
  have "sup_ok (s\<lparr>inbox := []\<rparr>)" using reachable_ok [OF assms(1)] by (simp add: sup_ok_inbox)
  note cl = clear_all_leaves [OF this, of e] assms(2,3)
  have inb: "inbox ?t = []" using request_inbox [of e ?r "s\<lparr>inbox := []\<rparr>"] by (simp add: process_request_def)
  have "drain_inbox e ?s = ?t"
    using inb by (simp add: drain_inbox_def numeral_eq_Suc process_request_def)
  then have front: "tick_front e ?s = classify_pilot e ?t"
    using cl assms(5) by (simp add: tick_front_def service_replug_window_def)
  have es1: "es (tick_front e ?s) = EVSE_READY" using cl by (simp add: front classify_pilot_def Let_def)
  have js: "tick_js e ?s = J1772_STATE_INVALID"
    using cl by (simp add: tick_js_def front classify_pilot_def Let_def j1772_step_def j1772_init_def)
  then have fc: "es (fault_checks e (tick_js e ?s) (cp_high_in e) (tick_front e ?s)) = EVSE_READY"
    by (intro quiet_fault_checks [OF assms(6) _ es1]) simp
  then have "es (safety_tick e ?s) = EVSE_READY"
    using assms(6) by (simp add: safety_tick_body tick_body_def tick_outputs_def quiet_meter healthy_def js
        update_evse_from_j1772_def clear_authorization_def)
  moreover have "sup_step (Post SAFETY_REQ_CLEAR_FAULT a 0) s = ?s"
    using assms(4) by (simp add: post_safety_req_def)
  ultimately show ?thesis by simp
qed

lemma fault_exit_needs_clear_witness:
  "\<exists>r \<in> set (inbox (sup_step (Post SAFETY_REQ_CLEAR_FAULT 0 0) demo_safe)). req_type r = SAFETY_REQ_CLEAR_FAULT"
proof (rule fault_exit_needs_clear)
  show "es (sup_step (Post SAFETY_REQ_CLEAR_FAULT 0 0) demo_safe) = EVSE_FAULT" using demo_safe(2) by simp
  have "healthy demo_C" using demo_C_wants by (simp add: wants_charge_def)
  then show "es (safety_tick demo_C (sup_step (Post SAFETY_REQ_CLEAR_FAULT 0 0) demo_safe)) \<noteq> EVSE_FAULT"
    using front_of_clear [OF demo_safe(1-5), of demo_C 0] by simp
qed

text \<open>C8: Charging starts only after the pilot was in state C at the end of fifty consecutive ticks,
  the starting one included.\<close>

theorem charging_needs_dwell:
  fixes e0 :: tick_env and mvs :: "int list" and q :: "safety_req list"
  defines "b \<equiv> safety_boot e0 mvs (safety_init\<lparr>inbox := q\<rparr>)"
  assumes "es (sup_run evs b) \<noteq> EVSE_CHARGING" "es (safety_tick e (sup_run evs b)) = EVSE_CHARGING"
  shows "EVSE_C_DWELL_TICKS \<le> trailing pilot_C (tick_states (evs @ [Tick e]) b)"
proof -
  have "evse_c_streak b = 0" by (simp add: b_def boot_dwell safety_init_def)
  from dwell_trailing [OF this, of "evs @ [Tick e]"] tick_start(1) [OF assms(2,3)] show ?thesis
    by (simp add: sup_run_snoc)
qed

lemma charging_needs_dwell_witness:
  "50 \<le> trailing pilot_C (tick_states (map Tick (replicate 51 demo_C) @ [Tick demo_C]) demo_boot)"
proof -
  let ?evs = "map Tick (replicate 51 demo_C)"
  have "sup_run ?evs demo_boot = run_ticks (replicate 51 demo_C) demo_boot" by (simp add: run_ticks_sup)
  then show ?thesis
    using demo_charging_tick charging_needs_dwell [of ?evs demo_env "[12000, 12000, 12000, 12000, 12000]" "[]" demo_C] demo_run
    by (simp add: demo_boot_def)
qed

text \<open>C9: While the persisted configuration requires RFID authorization, charging starts only if the
  session is authorized, and since boot that takes a tick in which the reader showed a card of
  the authorized list.\<close>

theorem charging_needs_authorization:
  fixes e0 :: tick_env and mvs :: "int list" and q :: "safety_req list"
  defines "b \<equiv> safety_boot e0 mvs (safety_init\<lparr>inbox := q\<rparr>)"
  assumes "es (sup_run evs b) \<noteq> EVSE_CHARGING" "es (safety_tick e (sup_run evs b)) = EVSE_CHARGING"
    "cfg_require_auth e"
  shows "s_session_authorized (sup_run evs b) \<and> card_read evs b"
proof -
  have "s_session_authorized (sup_run evs b)" using tick_start(2) [OF assms(2,3)] assms(4) by simp
  moreover have "\<not> s_session_authorized b" by (simp add: b_def boot_auth safety_init_def)
  ultimately show ?thesis using run_auth by blast
qed

text \<open>A boot with a vehicle already in state C, whose driver presents a listed card in the first tick;
  the configuration requires authorization from the next tick on.\<close>

definition demo_auth_env :: tick_env where
  "demo_auth_env = demo_C\<lparr>cfg_require_auth := True, auth_contains := (\<lambda>u. u = 7)\<rparr>"

definition demo_swipe_env :: tick_env where
  "demo_swipe_env = demo_auth_env\<lparr>cfg_require_auth := False, rfid_rx := card_frame 7 0\<rparr>"

definition demo_boot_C :: safety_state where
  "demo_boot_C = safety_boot demo_auth_env [6000, 6000, 6000, 6000, 6000] (safety_init\<lparr>inbox := []\<rparr>)"

lemma demo_boot_C:
  "ready_state demo_boot_C" "committed (cp demo_boot_C) = J1772_STATE_C" "candidate (cp demo_boot_C) = J1772_STATE_C"
  "evse_c_streak demo_boot_C = 0" "rfid_c demo_boot_C = rfid_init_ctx" "s_rfid_learn_ticks demo_boot_C = 0"
proof -
  have run: "j1772_run 3 j1772_init [6000, 6000, 6000, 6000, 6000] =
      \<lparr>committed = J1772_STATE_C, candidate = J1772_STATE_C, cp_streak = 5\<rparr>"
    by (simp add: j1772_step_def j1772_init_def classify_strict_def)
  have st: "run_boot_self_test demo_auth_env 6000 s = 0" for s
    by (simp add: run_boot_self_test_def self_test_adc_sanity_def self_test_relay_open_def demo_auth_env_def
        self_test_cp_pilot_present_def relay_defs adc_out_of_band_def demo_env_def demo_C_def)
  have env: "safe_fail demo_auth_env = False" "GFCI_CAL_SELF_TEST (flags demo_auth_env) = False"
    by (simp_all add: demo_env_def demo_auth_env_def demo_C_def)
  show "ready_state demo_boot_C" "committed (cp demo_boot_C) = J1772_STATE_C"
    "candidate (cp demo_boot_C) = J1772_STATE_C" "evse_c_streak demo_boot_C = 0" "rfid_c demo_boot_C = rfid_init_ctx"
    "s_rfid_learn_ticks demo_boot_C = 0"
    unfolding demo_boot_C_def safety_boot_def Let_def
    by (simp_all add: run st env del: j1772_run.simps add: boot_self_tests_def self_test_gfci_cal_def
        check_safe_fail_def ready_state_def safety_init_def)
qed

lemma demo_auth_wants: "wants_charge demo_auth_env" "cfg_require_auth demo_auth_env"
  by (simp_all add: adc_out_of_band_def wants_charge_def healthy_def demo_auth_env_def demo_C_def demo_env_def
      classify_strict_def gfci_sampled_def)

lemma demo_swiped:
  defines "t \<equiv> safety_tick demo_swipe_env demo_boot_C"
  shows "ready_state t" "s_session_authorized t" "evse_c_streak t = 1" "committed (cp t) = J1772_STATE_C"
    "candidate (cp t) = J1772_STATE_C"
proof -
  have h: "healthy demo_swipe_env" "\<not> cfg_require_auth demo_swipe_env" "cp_high_in demo_swipe_env = 6000"
    using demo_auth_wants by (simp_all add: adc_out_of_band_def wants_charge_def healthy_def demo_swipe_env_def
        demo_auth_env_def demo_C_def demo_env_def gfci_sampled_def)
  have c: "committed (j1772_step (cp demo_boot_C) 6000 3) = J1772_STATE_C"
    "candidate (j1772_step (cp demo_boot_C) 6000 3) = J1772_STATE_C"
    using demo_boot_C by (simp_all add: j1772_step_def classify_strict_def Let_def)
  note r = ready_tick [OF demo_boot_C(1) h(1)]
  have es: "es t = EVSE_READY" and st: "evse_c_streak t = 1" and cp: "cp t = j1772_step (cp demo_boot_C) 6000 3"
    using r h c demo_boot_C(4) by (simp_all add: t_def)
  have rx: "rfid_rx demo_swipe_env = reading_frame (Card 7) 0" "auth_contains demo_swipe_env 7"
    by (simp_all add: demo_swipe_env_def demo_auth_env_def)
  have "rfid_c demo_boot_C = ctx_of NoCard"
    using demo_boot_C(5) by (simp add: ctx_of_def rfid_init_ctx_def)
  note sw = swipe_tick [OF demo_boot_C(1) this rx(1) _ _ rx(2) demo_boot_C(6)]
  show "ready_state t" "s_session_authorized t" using sw es by (simp_all add: t_def)
  show "evse_c_streak t = 1" "committed (cp t) = J1772_STATE_C" "candidate (cp t) = J1772_STATE_C"
    using st cp c by simp_all
qed

lemma charging_needs_authorization_witness:
  "card_read (Tick demo_swipe_env # map Tick (replicate 48 demo_auth_env)) demo_boot_C"
proof -
  let ?t = "safety_tick demo_swipe_env demo_boot_C"
  let ?evs = "Tick demo_swipe_env # map Tick (replicate 48 demo_auth_env)"
  have run: "sup_run ?evs demo_boot_C = run_ticks (replicate 48 demo_auth_env) ?t"
    by (simp add: run_ticks_sup) (simp add: sup_run_def)
  have "allowed (replicate 48 demo_auth_env) ?t" using demo_swiped(2) by (simp add: allowed_def)
  then have d: "ready_state (run_ticks (replicate 48 demo_auth_env) ?t)"
    "evse_c_streak (run_ticks (replicate 48 demo_auth_env) ?t) = 49"
    "committed (cp (run_ticks (replicate 48 demo_auth_env) ?t)) = J1772_STATE_C"
    "candidate (cp (run_ticks (replicate 48 demo_auth_env) ?t)) = J1772_STATE_C"
    "s_session_authorized (run_ticks (replicate 48 demo_auth_env) ?t)"
    using dwell_ticks [OF demo_swiped(1,4,5), of "replicate 48 demo_auth_env"] demo_auth_wants demo_swiped(2,3)
    by simp_all
  have "es (safety_tick demo_auth_env (run_ticks (replicate 48 demo_auth_env) ?t)) = EVSE_CHARGING"
    using d demo_auth_wants(1) by (intro not_ready_charging) (simp_all add: allowed_def)
  with d(1) show ?thesis
    using charging_needs_authorization [of ?evs demo_auth_env "[6000, 6000, 6000, 6000, 6000]" "[]" demo_auth_env]
      demo_auth_wants(2) unfolding demo_boot_C_def [symmetric] run by (simp add: ready_state_def)
qed



text \<open>C12: A healthy charge request succeeds: from a reachable supervisor in READY with an empty inbox and
  no replug window, whose pilot classifier has committed neither C nor E and has not C as its
  candidate, 52 ticks that read the pilot in state C, no card, no authorization required, and silent
  detectors (\<open>healthy\<close>: no safe-fail flag, no sampled ground fault, protective earth, converters and
  cable rating in band, nothing hot, relay feedback compiled out and the metering uncalibrated)
  close the contactor: three of debounce and fifty of dwell, one shared. 51 do not.\<close>

theorem charge_request_succeeds:
  assumes "reachable s" "ready_state s" "committed (cp s) \<notin> {J1772_STATE_C, J1772_STATE_E}"
    "candidate (cp s) \<noteq> J1772_STATE_C" "\<forall>e \<in> set envs. wants_charge e \<and> \<not> cfg_require_auth e" "length envs = 52"
  shows "contactor_energised (relay (run_ticks envs s)) \<and>
    es (run_ticks (take 51 envs) s) = EVSE_READY"
proof -
  let ?t = "run_ticks (take 51 envs) s"
  have "envs = take 51 envs @ [envs ! 51]"
    using assms(6) by (auto intro!: nth_equalityI simp: nth_append nth_Cons' less_Suc_eq numeral_eq_Suc)
  then have last: "run_ticks envs s = safety_tick (envs ! 51) ?t"
    by (metis run_ticks_append run_ticks_def fold_simps(1) fold_simps(2))
  have ok: "sup_ok ?t" "sup_ok (run_ticks envs s)"
    using reachable_ok reachable_run [OF assms(1)] by (simp_all add: run_ticks_sup)
  show ?thesis
    using progress [OF assms(2) _ _ assms(4,5,6)] assms(3) tick_commanded_iff [OF ok(1), of "envs ! 51"]
      energised_commanded [OF ok(2)]
    by (simp add: last)
qed

lemma charge_request_succeeds_witness:
  "contactor_energised (relay (run_ticks (replicate 52 demo_C) demo_boot))"
  using charge_request_succeeds [OF demo_reachable demo_boot_ready(1), of "replicate 52 demo_C"]
    demo_boot_ready demo_C_wants by simp

text \<open>C23: The published session events of every run alternate between begin and end, and a session
  is open exactly while the supervisor is charging.\<close>

theorem sessions_alternate_always:
  assumes "reachable s"
  shows "sessions_alternate (outs s) = Some (es s = EVSE_CHARGING) \<and>
    (ses_active (s_session s) \<longleftrightarrow> es s = EVSE_CHARGING)"
  using reachable_ok [OF assms] by (simp add: sup_ok_def base_ok_def)

lemma sessions_alternate_always_witness: "sessions_alternate (outs demo_charging) = Some True"
  using sessions_alternate_always [OF demo_charging_reachable] demo_run(2) by simp

text \<open>The in-session derate never exceeds 42 amps, so its byte never wraps; the advertised current
  stays between 6 and 48 amps; the inbox holds at most four requests.\<close>

theorem derate_bounded:
  assumes "reachable s"
  shows "s_soc_derate_amps s \<le> 42 \<and> SOC_DERATE_FLOOR_A \<le> effective_advertised_amps e s \<and>
    effective_advertised_amps e s \<le> HW_AMPS_MAX \<and> length (inbox s) \<le> SAFETY_INBOX_DEPTH"
  using reachable_ok [OF assms] effective_bounds [of e s] by (simp add: sup_ok_def base_ok_def)

lemma derate_bounded_witness: "s_soc_derate_amps demo_charging \<le> 42"
  using derate_bounded [OF demo_charging_reachable] by simp

end
