(* ===== verification/Persist_Req.thy ===== *)
theory Persist_Req
  imports Records
begin

text \<open>
  The requests of the persist task's queue and the functions that post them,
  \<^verbatim>\<open>src/src/tasks/persist_task.c\<close> and \<^verbatim>\<open>persist_task.h\<close>. The C union with its tag is a datatype; a queue
  is the list of the waiting requests, oldest first, with the once-per-drain overflow flag.
\<close>

abbreviation (input) "OTA_CHUNK_MAX_DATA \<equiv> (48 :: nat)"
abbreviation (input) "PERSIST_QUEUE_DEPTH \<equiv> (8 :: nat)"

record cal_args =
  anchor_raw :: u16
  slope_num :: u16
  slope_den :: u16

record bl0939_cal_args =
  v_uv_per_raw :: u16
  ia_na_per_raw :: u16
  ib_ua_per_raw :: u16
  pa_uw_per_raw :: u16
  freq_const :: u32

record ota_begin_args =
  ob_image_size :: u32
  ob_image_crc32 :: u32
  ob_session_id :: u32
  ob_seq :: u8

record ota_chunk_args =
  oc_session_id :: u32
  oc_offset :: u32
  oc_seq :: u8
  oc_data :: "u8 list"

record ota_abort_args =
  oa_session_id :: u32
  oa_seq :: u8

datatype persist_req =
    PERSIST_REQ_EVENT event_record
  | PERSIST_REQ_SESSION session_record
  | PERSIST_REQ_CRASH_STATE_RESET
  | PERSIST_REQ_BOOT_CONFIG_AMPS u8
  | PERSIST_REQ_CALIBRATION cal_args
  | PERSIST_REQ_BL0939_CAL bl0939_cal_args
  | PERSIST_REQ_GET_FAULT_LOG u8 u8
  | PERSIST_REQ_GET_LIFETIME_KWH u8
  | PERSIST_REQ_RFID_AUTHLIST_ADD u32
  | PERSIST_REQ_RFID_AUTHLIST_REMOVE u32
  | PERSIST_REQ_RFID_AUTHLIST_CLEAR
  | PERSIST_REQ_RFID_AUTHLIST_GET_LIST u8
  | PERSIST_REQ_REQUIRE_RFID_AUTH u8
  | PERSIST_REQ_GFCI_POLICY u8
  | PERSIST_REQ_OTA_BEGIN ota_begin_args
  | PERSIST_REQ_OTA_CHUNK ota_chunk_args
  | PERSIST_REQ_OTA_COMMIT ota_abort_args
  | PERSIST_REQ_OTA_ABORT ota_abort_args

record persist_queue =
  waiting :: "persist_req list"
  s_overflow_warned :: bool

definition post_persist :: "persist_req \<Rightarrow> persist_queue \<Rightarrow> int \<times> persist_queue" where
  "post_persist r q =
     (if length (waiting q) < PERSIST_QUEUE_DEPTH then (0, q\<lparr>waiting := waiting q @ [r]\<rparr>)
      else if \<not> s_overflow_warned q then (-1, q\<lparr>s_overflow_warned := True\<rparr>)
      else (-1, q))"

definition persist_post_event :: "event_record \<Rightarrow> persist_queue \<Rightarrow> int \<times> persist_queue" where
  "persist_post_event rec q = post_persist (PERSIST_REQ_EVENT rec) q"

definition persist_post_session :: "session_record \<Rightarrow> persist_queue \<Rightarrow> int \<times> persist_queue" where
  "persist_post_session rec q = post_persist (PERSIST_REQ_SESSION rec) q"

definition persist_post_crash_state_reset :: "persist_queue \<Rightarrow> int \<times> persist_queue" where
  "persist_post_crash_state_reset q = post_persist PERSIST_REQ_CRASH_STATE_RESET q"

definition persist_post_boot_config_amps :: "u8 \<Rightarrow> persist_queue \<Rightarrow> int \<times> persist_queue" where
  "persist_post_boot_config_amps amps q = post_persist (PERSIST_REQ_BOOT_CONFIG_AMPS amps) q"

definition persist_post_require_rfid_auth :: "u8 \<Rightarrow> persist_queue \<Rightarrow> int \<times> persist_queue" where
  "persist_post_require_rfid_auth enable q =
     post_persist (PERSIST_REQ_REQUIRE_RFID_AUTH (if enable \<noteq> 0 then 1 else 0)) q"

definition persist_post_gfci_policy :: "u8 \<Rightarrow> persist_queue \<Rightarrow> int \<times> persist_queue" where
  "persist_post_gfci_policy policy q = post_persist (PERSIST_REQ_GFCI_POLICY policy) q"

definition persist_post_calibration :: "u16 \<Rightarrow> u16 \<Rightarrow> u16 \<Rightarrow> persist_queue \<Rightarrow> int \<times> persist_queue" where
  "persist_post_calibration a n d q =
     post_persist (PERSIST_REQ_CALIBRATION \<lparr>anchor_raw = a, slope_num = n, slope_den = d\<rparr>) q"

definition persist_post_bl0939_cal ::
  "u16 \<Rightarrow> u16 \<Rightarrow> u16 \<Rightarrow> u16 \<Rightarrow> u32 \<Rightarrow> persist_queue \<Rightarrow> int \<times> persist_queue" where
  "persist_post_bl0939_cal v ia ib pa fc q =
     post_persist (PERSIST_REQ_BL0939_CAL \<lparr>v_uv_per_raw = v, ia_na_per_raw = ia, ib_ua_per_raw = ib,
       pa_uw_per_raw = pa, freq_const = fc\<rparr>) q"

definition persist_post_get_fault_log :: "u8 \<Rightarrow> u8 \<Rightarrow> persist_queue \<Rightarrow> int \<times> persist_queue" where
  "persist_post_get_fault_log max_count seq q = post_persist (PERSIST_REQ_GET_FAULT_LOG max_count seq) q"

definition persist_post_get_lifetime_kwh :: "u8 \<Rightarrow> persist_queue \<Rightarrow> int \<times> persist_queue" where
  "persist_post_get_lifetime_kwh seq q = post_persist (PERSIST_REQ_GET_LIFETIME_KWH seq) q"

definition persist_post_rfid_authlist_add :: "u32 \<Rightarrow> persist_queue \<Rightarrow> int \<times> persist_queue" where
  "persist_post_rfid_authlist_add uid q = post_persist (PERSIST_REQ_RFID_AUTHLIST_ADD uid) q"

definition persist_post_rfid_authlist_remove :: "u32 \<Rightarrow> persist_queue \<Rightarrow> int \<times> persist_queue" where
  "persist_post_rfid_authlist_remove uid q = post_persist (PERSIST_REQ_RFID_AUTHLIST_REMOVE uid) q"

definition persist_post_rfid_authlist_clear :: "persist_queue \<Rightarrow> int \<times> persist_queue" where
  "persist_post_rfid_authlist_clear q = post_persist PERSIST_REQ_RFID_AUTHLIST_CLEAR q"

definition persist_post_rfid_authlist_get_list :: "u8 \<Rightarrow> persist_queue \<Rightarrow> int \<times> persist_queue" where
  "persist_post_rfid_authlist_get_list seq q = post_persist (PERSIST_REQ_RFID_AUTHLIST_GET_LIST seq) q"

definition persist_post_ota_begin :: "u32 \<Rightarrow> u32 \<Rightarrow> u32 \<Rightarrow> u8 \<Rightarrow> persist_queue \<Rightarrow> int \<times> persist_queue" where
  "persist_post_ota_begin img_len crc sid seq q =
     post_persist (PERSIST_REQ_OTA_BEGIN \<lparr>ob_image_size = img_len, ob_image_crc32 = crc, ob_session_id = sid,
       ob_seq = seq\<rparr>) q"

text \<open>The C slot carries 48 bytes, zero filled past \<open>data_len\<close>; the list is its first \<open>data_len\<close> bytes.\<close>

definition persist_post_ota_chunk ::
  "u32 \<Rightarrow> u32 \<Rightarrow> u8 list \<Rightarrow> u8 \<Rightarrow> persist_queue \<Rightarrow> int \<times> persist_queue" where
  "persist_post_ota_chunk sid off data seq q =
     (if data = [] \<or> length data > OTA_CHUNK_MAX_DATA then (-1, q)
      else post_persist (PERSIST_REQ_OTA_CHUNK \<lparr>oc_session_id = sid, oc_offset = off, oc_seq = seq,
             oc_data = data\<rparr>) q)"

definition persist_post_ota_commit :: "u32 \<Rightarrow> u8 \<Rightarrow> persist_queue \<Rightarrow> int \<times> persist_queue" where
  "persist_post_ota_commit sid seq q =
     post_persist (PERSIST_REQ_OTA_COMMIT \<lparr>oa_session_id = sid, oa_seq = seq\<rparr>) q"

definition persist_post_ota_abort :: "u32 \<Rightarrow> u8 \<Rightarrow> persist_queue \<Rightarrow> int \<times> persist_queue" where
  "persist_post_ota_abort sid seq q =
     post_persist (PERSIST_REQ_OTA_ABORT \<lparr>oa_session_id = sid, oa_seq = seq\<rparr>) q"

lemmas persist_post_defs = persist_post_event_def persist_post_session_def persist_post_crash_state_reset_def
  persist_post_boot_config_amps_def persist_post_require_rfid_auth_def persist_post_gfci_policy_def
  persist_post_calibration_def persist_post_bl0939_cal_def persist_post_get_fault_log_def
  persist_post_get_lifetime_kwh_def persist_post_rfid_authlist_add_def persist_post_rfid_authlist_remove_def
  persist_post_rfid_authlist_clear_def persist_post_rfid_authlist_get_list_def persist_post_ota_begin_def
  persist_post_ota_chunk_def persist_post_ota_commit_def persist_post_ota_abort_def

definition queue_ok :: "persist_queue \<Rightarrow> bool" where
  "queue_ok q \<longleftrightarrow> length (waiting q) \<le> PERSIST_QUEUE_DEPTH"

lemma queue_ok_post: "queue_ok q \<Longrightarrow> queue_ok (snd (post_persist r q))"
  by (simp add: queue_ok_def post_persist_def)

lemma post_persist_rc: "fst (post_persist r q) = 0 \<longleftrightarrow> length (waiting q) < PERSIST_QUEUE_DEPTH"
  by (simp add: post_persist_def)

end
