(* ===== verification/Comms_Task.thy ===== *)
theory Comms_Task
  imports Tlv Rx_Ring Ui_Out System_Time Persist_Req Safety_Tick
begin

text \<open>
  The communications task, \<^verbatim>\<open>src/src/tasks/comms_task.c\<close>: every command handler, the dispatch
  switch, and the receive accumulator with its resynchronisation. \<open>comms_state\<close> holds what the
  handlers touch: the frames sent, the wall clock, the RTC stores, the LED and buzzer requests,
  the persist queue, the supervisor (whose inbox the handlers post to and whose published
  snapshot they read), the receive ring and the accumulator. \<open>handled\<close> is a history of the
  commands dispatched and \<open>resetting\<close> says that the restart handler has been entered, which
  does not return. \<open>comms_env\<close> is what one pass reads: the tick, the build strings, the chip
  identity, the cached boot configuration and whether the transmit mutex was obtained.
\<close>

abbreviation (input) "COMMS_HW_AMPS_MAX \<equiv> (48 :: u8)"
abbreviation (input) "ACCUM_BUF_BYTES \<equiv> (64 :: nat)"

abbreviation (input) "CMD_PING \<equiv> (0x01 :: u8)"
abbreviation (input) "CMD_GET_STATE \<equiv> (0x02 :: u8)"
abbreviation (input) "CMD_SET_ADVERTISED_AMPS \<equiv> (0x03 :: u8)"
abbreviation (input) "CMD_REQUEST_STOP \<equiv> (0x04 :: u8)"
abbreviation (input) "CMD_REQUEST_START_RESUME \<equiv> (0x05 :: u8)"
abbreviation (input) "CMD_CLEAR_FAULT \<equiv> (0x06 :: u8)"
abbreviation (input) "CMD_GET_FAULT_LOG \<equiv> (0x07 :: u8)"
abbreviation (input) "CMD_GET_LIFETIME_KWH \<equiv> (0x08 :: u8)"
abbreviation (input) "CMD_WRITE_CALIBRATION \<equiv> (0x09 :: u8)"
abbreviation (input) "CMD_SET_LED_OVERRIDE \<equiv> (0x0A :: u8)"
abbreviation (input) "CMD_BUZZER_BEEP \<equiv> (0x0B :: u8)"
abbreviation (input) "CMD_GET_BUILD_INFO \<equiv> (0x0C :: u8)"
abbreviation (input) "CMD_GET_DEVICE_ID \<equiv> (0x0D :: u8)"
abbreviation (input) "CMD_WRITE_BL0939_CAL \<equiv> (0x0E :: u8)"
abbreviation (input) "CMD_RFID_LEARN_NEXT \<equiv> (0x0F :: u8)"
abbreviation (input) "CMD_RFID_REMOVE_UID \<equiv> (0x10 :: u8)"
abbreviation (input) "CMD_RFID_CLEAR_LIST \<equiv> (0x11 :: u8)"
abbreviation (input) "CMD_RFID_GET_LIST \<equiv> (0x12 :: u8)"
abbreviation (input) "CMD_SET_REQUIRE_RFID_AUTH \<equiv> (0x13 :: u8)"
abbreviation (input) "CMD_GET_RFID_CONFIG \<equiv> (0x14 :: u8)"
abbreviation (input) "CMD_OTA_BEGIN \<equiv> (0x15 :: u8)"
abbreviation (input) "CMD_OTA_CHUNK \<equiv> (0x16 :: u8)"
abbreviation (input) "CMD_OTA_COMMIT \<equiv> (0x17 :: u8)"
abbreviation (input) "CMD_OTA_ABORT \<equiv> (0x18 :: u8)"
abbreviation (input) "CMD_SET_TIME \<equiv> (0x19 :: u8)"
abbreviation (input) "CMD_GET_TIME \<equiv> (0x1A :: u8)"
abbreviation (input) "CMD_RESTART \<equiv> (0x1B :: u8)"
abbreviation (input) "CMD_SIMULATE_REPLUG \<equiv> (0x1C :: u8)"
abbreviation (input) "CMD_RUN_GFCI_CAL_TEST \<equiv> (0x1E :: u8)"
abbreviation (input) "CMD_SET_GFCI_POLICY \<equiv> (0x1F :: u8)"
abbreviation (input) "CMD_GET_GFCI_POLICY \<equiv> (0x20 :: u8)"

section \<open>State and transmission\<close>

record comms_env =
  now_ms :: u32
  version_str :: "u8 list"
  git_sha :: "u8 list"
  uid96 :: "u8 list"
  cached_amps :: u8
  tx_mutex_ok :: bool

record comms_state =
  sent :: "u8 list list"
  clock :: sys_time
  rtc_stores :: "u32 list"
  led :: led_override
  buz :: buzzer
  pq :: persist_queue
  sup :: safety_state
  ring :: rx_ring
  accum :: "u8 list"
  handled :: "(u8 \<times> u8 \<times> u8 list) list"
  resetting :: bool

definition send_frame :: "comms_env \<Rightarrow> u8 \<Rightarrow> u8 \<Rightarrow> u8 list \<Rightarrow> comms_state \<Rightarrow> int \<times> comms_state" where
  "send_frame e cmd seq payload c =
     (case tlv_build cmd seq payload TLV_FRAME_MAX of
        None \<Rightarrow> (-1, c)
      | Some buf \<Rightarrow> if \<not> tx_mutex_ok e then (-2, c) else (0, c\<lparr>sent := sent c @ [buf]\<rparr>))"

definition comms_publish_event :: "comms_env \<Rightarrow> u8 \<Rightarrow> u8 list \<Rightarrow> comms_state \<Rightarrow> int \<times> comms_state" where
  "comms_publish_event e cmd payload c = send_frame e cmd 0 payload c"

definition comms_publish_event_seq ::
  "comms_env \<Rightarrow> u8 \<Rightarrow> u8 \<Rightarrow> u8 list \<Rightarrow> comms_state \<Rightarrow> int \<times> comms_state" where
  "comms_publish_event_seq e cmd seq payload c = send_frame e cmd seq payload c"

text \<open>The posts to the two other tasks; the handlers only log a refusal.\<close>

definition post_safety :: "safety_req_type \<Rightarrow> u8 \<Rightarrow> u32 \<Rightarrow> comms_state \<Rightarrow> comms_state" where
  "post_safety ty a8 a32 c = c\<lparr>sup := snd (post_safety_req ty a8 a32 (sup c))\<rparr>"

definition to_persist :: "(persist_queue \<Rightarrow> int \<times> persist_queue) \<Rightarrow> comms_state \<Rightarrow> comms_state" where
  "to_persist post c = c\<lparr>pq := snd (post (pq c))\<rparr>"

section \<open>Command handlers\<close>

definition handle_ping :: "comms_env \<Rightarrow> u8 \<Rightarrow> comms_state \<Rightarrow> comms_state" where
  "handle_ping e seq c = snd (send_frame e EVT_PING_ACK seq [] c)"

definition handle_get_state :: "comms_env \<Rightarrow> u8 \<Rightarrow> comms_state \<Rightarrow> comms_state" where
  "handle_get_state e seq c = snd (send_frame e EVT_STATE_REPORT seq (state_bytes (snap (sup c))) c)"

text \<open>The two build strings are C strings: their bytes up to the terminating zero.\<close>

definition build_info_bytes :: "u8 list \<Rightarrow> u8 list \<Rightarrow> u8 list" where
  "build_info_bytes v g =
     (let a = take 23 v @ [0x7C]; b = a @ take (46 - length a) g in b @ [0])"

definition handle_get_build_info :: "comms_env \<Rightarrow> u8 \<Rightarrow> comms_state \<Rightarrow> comms_state" where
  "handle_get_build_info e seq c =
     snd (send_frame e EVT_BUILD_INFO seq (build_info_bytes (version_str e) (git_sha e)) c)"

definition handle_get_device_id :: "comms_env \<Rightarrow> u8 \<Rightarrow> comms_state \<Rightarrow> comms_state" where
  "handle_get_device_id e seq c = snd (send_frame e EVT_DEVICE_ID seq (take 12 (uid96 e)) c)"

definition handle_set_led_override :: "u8 list \<Rightarrow> comms_state \<Rightarrow> comms_state" where
  "handle_set_led_override p c =
     (if length p < 4 then c else c\<lparr>led := led_override_set (p ! 0) (p ! 1) (p ! 2) (p ! 3) (led c)\<rparr>)"

definition handle_buzzer_beep :: "u8 list \<Rightarrow> comms_state \<Rightarrow> comms_state" where
  "handle_buzzer_beep p c =
     (if length p < 2 then c else c\<lparr>buz := buzzer_set_oneshot (le16_at p 0) (buz c)\<rparr>)"

definition handle_set_advertised_amps :: "comms_env \<Rightarrow> u8 list \<Rightarrow> comms_state \<Rightarrow> comms_state" where
  "handle_set_advertised_amps e p c =
     (if length p < 1 then c
      else let amps = (if p ! 0 > COMMS_HW_AMPS_MAX then COMMS_HW_AMPS_MAX else p ! 0)
           in if amps = cached_amps e then c else to_persist (persist_post_boot_config_amps amps) c)"

definition handle_clear_fault :: "u8 list \<Rightarrow> comms_state \<Rightarrow> comms_state" where
  "handle_clear_fault p c =
     (if length p < 4 then c else post_safety SAFETY_REQ_CLEAR_FAULT 0 (le32_at p 0) c)"

definition handle_get_fault_log :: "u8 list \<Rightarrow> u8 \<Rightarrow> comms_state \<Rightarrow> comms_state" where
  "handle_get_fault_log p seq c =
     to_persist (persist_post_get_fault_log (if length p \<ge> 1 then p ! 0 else 16) seq) c"

definition handle_get_lifetime_kwh :: "u8 \<Rightarrow> comms_state \<Rightarrow> comms_state" where
  "handle_get_lifetime_kwh seq c = to_persist (persist_post_get_lifetime_kwh seq) c"

definition handle_write_calibration :: "u8 list \<Rightarrow> comms_state \<Rightarrow> comms_state" where
  "handle_write_calibration p c =
     (if length p < 6 then c
      else let anchor = le16_at p 0; snum = le16_at p 2; sden = le16_at p 4 in
        if sden = 0 then c
        else if sint anchor < 0 \<or> sint anchor > 4095 then c
        else to_persist (persist_post_calibration anchor snum sden) c)"

definition handle_write_bl0939_cal :: "u8 list \<Rightarrow> comms_state \<Rightarrow> comms_state" where
  "handle_write_bl0939_cal p c =
     (if length p < 8 then c
      else let fc = (if length p \<ge> 12 then le32_at p 8 else 0)
           in to_persist (persist_post_bl0939_cal (le16_at p 0) (le16_at p 2) (le16_at p 4) (le16_at p 6) fc) c)"

definition handle_rfid_learn_next :: "comms_state \<Rightarrow> comms_state" where
  "handle_rfid_learn_next c = post_safety SAFETY_REQ_RFID_LEARN_ARM 0 0 c"

definition handle_rfid_remove_uid :: "u8 list \<Rightarrow> comms_state \<Rightarrow> comms_state" where
  "handle_rfid_remove_uid p c =
     (if length p < 4 then c else to_persist (persist_post_rfid_authlist_remove (le32_at p 0)) c)"

definition handle_rfid_clear_list :: "comms_state \<Rightarrow> comms_state" where
  "handle_rfid_clear_list c = to_persist persist_post_rfid_authlist_clear c"

definition handle_rfid_get_list :: "u8 \<Rightarrow> comms_state \<Rightarrow> comms_state" where
  "handle_rfid_get_list seq c = to_persist (persist_post_rfid_authlist_get_list seq) c"

definition handle_set_require_rfid_auth :: "u8 list \<Rightarrow> comms_state \<Rightarrow> comms_state" where
  "handle_set_require_rfid_auth p c =
     (if length p < 1 then c else to_persist (persist_post_require_rfid_auth (p ! 0)) c)"

definition handle_get_rfid_config :: "comms_state \<Rightarrow> comms_state" where
  "handle_get_rfid_config c = post_safety SAFETY_REQ_PUBLISH_RFID_CONFIG 0 0 c"

definition handle_ota_begin :: "u8 list \<Rightarrow> u8 \<Rightarrow> comms_state \<Rightarrow> comms_state" where
  "handle_ota_begin p seq c =
     (if length p < 12 then c
      else to_persist (persist_post_ota_begin (le32_at p 0) (le32_at p 4) (le32_at p 8) seq) c)"

definition handle_ota_chunk :: "u8 list \<Rightarrow> u8 \<Rightarrow> comms_state \<Rightarrow> comms_state" where
  "handle_ota_chunk p seq c =
     (if length p < 8 \<or> length p > 8 + 48 then c
      else if length p - 8 = 0 then c
      else to_persist (persist_post_ota_chunk (le32_at p 0) (le32_at p 4) (drop 8 p) seq) c)"

definition handle_ota_commit :: "u8 list \<Rightarrow> u8 \<Rightarrow> comms_state \<Rightarrow> comms_state" where
  "handle_ota_commit p seq c =
     (if length p < 4 then c else to_persist (persist_post_ota_commit (le32_at p 0) seq) c)"

definition handle_ota_abort :: "u8 list \<Rightarrow> u8 \<Rightarrow> comms_state \<Rightarrow> comms_state" where
  "handle_ota_abort p seq c =
     (if length p < 4 then c else to_persist (persist_post_ota_abort (le32_at p 0) seq) c)"

definition publish_time :: "comms_env \<Rightarrow> u8 \<Rightarrow> comms_state \<Rightarrow> comms_state" where
  "publish_time e seq c =
     snd (send_frame e EVT_TIME seq
       (le32_bytes (system_time_now (now_ms e) (clock c)) @ [bool_byte (system_time_is_set (clock c))]) c)"

definition handle_set_time :: "comms_env \<Rightarrow> u8 list \<Rightarrow> u8 \<Rightarrow> comms_state \<Rightarrow> comms_state" where
  "handle_set_time e p seq c =
     (if length p < 4 then c
      else let unix_s = le32_at p 0;
               c1 = c\<lparr>clock := system_time_set unix_s (now_ms e) (clock c)\<rparr>;
               c2 = (if unix_s \<noteq> 0 then c1\<lparr>rtc_stores := rtc_stores c1 @ [unix_s]\<rparr> else c1)
           in publish_time e seq c2)"

definition handle_get_time :: "comms_env \<Rightarrow> u8 \<Rightarrow> comms_state \<Rightarrow> comms_state" where
  "handle_get_time e seq c = publish_time e seq c"

definition handle_restart :: "comms_state \<Rightarrow> comms_state" where
  "handle_restart c = c\<lparr>resetting := True\<rparr>"

definition handle_request_stop :: "u8 list \<Rightarrow> comms_state \<Rightarrow> comms_state" where
  "handle_request_stop p c = post_safety SAFETY_REQ_USER_PAUSE (if length p \<ge> 1 then p ! 0 else 0) 0 c"

definition handle_request_start_resume :: "comms_state \<Rightarrow> comms_state" where
  "handle_request_start_resume c = post_safety SAFETY_REQ_USER_RESUME 0 0 c"

definition handle_simulate_replug :: "comms_state \<Rightarrow> comms_state" where
  "handle_simulate_replug c = post_safety SAFETY_REQ_SIMULATE_REPLUG 0 0 c"

definition handle_run_gfci_cal_test :: "comms_state \<Rightarrow> comms_state" where
  "handle_run_gfci_cal_test c = post_safety SAFETY_REQ_RUN_GFCI_CAL_TEST 0 0 c"

definition handle_set_gfci_policy :: "u8 list \<Rightarrow> comms_state \<Rightarrow> comms_state" where
  "handle_set_gfci_policy p c =
     (if length p < 1 then c else to_persist (persist_post_gfci_policy (p ! 0)) c)"

definition handle_get_gfci_policy :: "comms_state \<Rightarrow> comms_state" where
  "handle_get_gfci_policy c = post_safety SAFETY_REQ_PUBLISH_GFCI_POLICY 0 0 c"

section \<open>Dispatch\<close>

definition dispatch :: "comms_env \<Rightarrow> u8 \<Rightarrow> u8 \<Rightarrow> u8 list \<Rightarrow> comms_state \<Rightarrow> comms_state" where
  "dispatch e cmd seq p c =
     (if cmd = CMD_PING then handle_ping e seq c
      else if cmd = CMD_GET_STATE then handle_get_state e seq c
      else if cmd = CMD_GET_BUILD_INFO then handle_get_build_info e seq c
      else if cmd = CMD_GET_DEVICE_ID then handle_get_device_id e seq c
      else if cmd = CMD_SET_LED_OVERRIDE then handle_set_led_override p c
      else if cmd = CMD_BUZZER_BEEP then handle_buzzer_beep p c
      else if cmd = CMD_SET_ADVERTISED_AMPS then handle_set_advertised_amps e p c
      else if cmd = CMD_CLEAR_FAULT then handle_clear_fault p c
      else if cmd = CMD_GET_FAULT_LOG then handle_get_fault_log p seq c
      else if cmd = CMD_GET_LIFETIME_KWH then handle_get_lifetime_kwh seq c
      else if cmd = CMD_WRITE_CALIBRATION then handle_write_calibration p c
      else if cmd = CMD_WRITE_BL0939_CAL then handle_write_bl0939_cal p c
      else if cmd = CMD_REQUEST_STOP then handle_request_stop p c
      else if cmd = CMD_REQUEST_START_RESUME then handle_request_start_resume c
      else if cmd = CMD_RFID_LEARN_NEXT then handle_rfid_learn_next c
      else if cmd = CMD_RFID_REMOVE_UID then handle_rfid_remove_uid p c
      else if cmd = CMD_RFID_CLEAR_LIST then handle_rfid_clear_list c
      else if cmd = CMD_RFID_GET_LIST then handle_rfid_get_list seq c
      else if cmd = CMD_SET_REQUIRE_RFID_AUTH then handle_set_require_rfid_auth p c
      else if cmd = CMD_GET_RFID_CONFIG then handle_get_rfid_config c
      else if cmd = CMD_OTA_BEGIN then handle_ota_begin p seq c
      else if cmd = CMD_OTA_CHUNK then handle_ota_chunk p seq c
      else if cmd = CMD_OTA_COMMIT then handle_ota_commit p seq c
      else if cmd = CMD_OTA_ABORT then handle_ota_abort p seq c
      else if cmd = CMD_SET_TIME then handle_set_time e p seq c
      else if cmd = CMD_GET_TIME then handle_get_time e seq c
      else if cmd = CMD_RESTART then handle_restart c
      else if cmd = CMD_SIMULATE_REPLUG then handle_simulate_replug c
      else if cmd = CMD_RUN_GFCI_CAL_TEST then handle_run_gfci_cal_test c
      else if cmd = CMD_SET_GFCI_POLICY then handle_set_gfci_policy p c
      else if cmd = CMD_GET_GFCI_POLICY then handle_get_gfci_policy c
      else c)"

definition dispatch_logged :: "comms_env \<Rightarrow> u8 \<Rightarrow> u8 \<Rightarrow> u8 list \<Rightarrow> comms_state \<Rightarrow> comms_state" where
  "dispatch_logged e cmd seq p c = dispatch e cmd seq p (c\<lparr>handled := handled c @ [(cmd, seq, p)]\<rparr>)"

section \<open>Receive accumulator\<close>

lemma parse_bad_length: "tlv_parse b = TlvBad \<Longrightarrow> 8 \<le> length b"
  by (auto simp: tlv_parse_def split: if_splits)

lemma parse_frame_length: "tlv_parse b = TlvFrame n cmd seq p \<Longrightarrow> 8 \<le> n \<and> n \<le> length b"
  using parse_sound by fastforce

function parse_loop :: "comms_env \<Rightarrow> u8 list \<Rightarrow> comms_state \<Rightarrow> u8 list \<times> comms_state" where
  "parse_loop e b c =
     (if resetting c then (b, c)
      else case tlv_parse b of
        TlvFrame n cmd seq p \<Rightarrow> parse_loop e (drop n b) (dispatch_logged e cmd seq p c)
      | TlvBad \<Rightarrow> parse_loop e (drop 1 b) c
      | TlvMore \<Rightarrow> (b, c))"
  by pat_completeness auto
termination
  by (relation "measure (\<lambda>(e, b, c). length b)")
    (auto dest: parse_frame_length parse_bad_length)

text \<open>One pass of the task's loop: pop, append, parse, and the defensive reset.\<close>

definition comms_pass :: "comms_env \<Rightarrow> comms_state \<Rightarrow> comms_state" where
  "comms_pass e c =
     (if resetting c then c
      else let (got, r) = uart5_rx_pop (ACCUM_BUF_BYTES - length (accum c)) (ring c);
               c1 = c\<lparr>ring := r\<rparr>
           in if got = [] then c1
              else let (b, c2) = parse_loop e (accum c1 @ got) c1
                   in if length b = ACCUM_BUF_BYTES \<and> \<not> resetting c2 then c2\<lparr>accum := []\<rparr>
                      else c2\<lparr>accum := b\<rparr>)"

datatype comms_event = Isr bool bool u8 | Pass comms_env

fun comms_step :: "comms_event \<Rightarrow> comms_state \<Rightarrow> comms_state" where
  "comms_step (Isr rbne errs b) c = c\<lparr>ring := UART4_IRQHandler rbne errs b (ring c)\<rparr>"
| "comms_step (Pass e) c = comms_pass e c"

fun comms_run :: "comms_event list \<Rightarrow> comms_state \<Rightarrow> comms_state" where
  "comms_run [] c = c"
| "comms_run (ev # evs) c = comms_run evs (comms_step ev c)"

definition comms_boot :: "safety_state \<Rightarrow> comms_state" where
  "comms_boot s = \<lparr>sent = [], clock = system_time_init, rtc_stores = [], led = led_override_reset,
     buz = buzzer_reset, pq = \<lparr>waiting = [], s_overflow_warned = False\<rparr>, sup = s, ring = rx_ring_reset,
     accum = [], handled = [], resetting = False\<rparr>"

declare parse_loop.simps [simp del]

end
