(* ===== verification/Comms_Link.thy ===== *)
theory Comms_Link
  imports Comms_Task Safety_Props
begin

text \<open>
  What the receive path of \<^verbatim>\<open>src/src/tasks/comms_task.c\<close> does to a byte stream. \<open>scan\<close> is the
  reference reading of a whole stream: the frames it holds and the bytes left over. The lemmas
  show that \<open>scan\<close> may be cut at any point, that a run of the task, however the bytes are split
  over interrupts and passes, dispatches the frames of the scan in order, and that no command
  touches the supervisor otherwise than by posting to its inbox.
\<close>

section \<open>The reference reading of a stream\<close>

function scan :: "u8 list \<Rightarrow> (u8 \<times> u8 \<times> u8 list) list \<times> u8 list" where
  "scan b =
     (case tlv_parse b of
        TlvFrame n cmd seq p \<Rightarrow> ((cmd, seq, p) # fst (scan (drop n b)), snd (scan (drop n b)))
      | TlvBad \<Rightarrow> scan (drop 1 b)
      | TlvMore \<Rightarrow> ([], b))"
  by pat_completeness auto
termination
  by (relation "measure length") (auto dest: parse_frame_length parse_bad_length)

declare scan.simps [simp del]

lemma scan_more: "tlv_parse b = TlvMore \<Longrightarrow> scan b = ([], b)"
  by (simp add: scan.simps [of b])

lemma scan_bad: "tlv_parse b = TlvBad \<Longrightarrow> scan b = scan (drop 1 b)"
  by (simp add: scan.simps [of b])

lemma scan_hit:
  "tlv_parse b = TlvFrame n cmd seq p \<Longrightarrow>
    scan b = ((cmd, seq, p) # fst (scan (drop n b)), snd (scan (drop n b)))"
  by (simp add: scan.simps [of b])

lemma scan_append:
  "scan (xs @ ys) = (fst (scan xs) @ fst (scan (snd (scan xs) @ ys)), snd (scan (snd (scan xs) @ ys)))"
proof (induction xs rule: scan.induct)
  case (1 b)
  show ?case
  proof (cases "tlv_parse b")
    case (TlvFrame n cmd seq p)
    then have "tlv_parse (b @ ys) = TlvFrame n cmd seq p" using parse_append [of b ys] by simp
    with parse_frame_length [OF TlvFrame] 1(1) [OF TlvFrame] show ?thesis
      by (simp add: scan_hit [OF TlvFrame] scan_hit)
  next
    case TlvMore
    then show ?thesis by (simp add: scan_more)
  next
    case TlvBad
    then have "tlv_parse (b @ ys) = TlvBad" using parse_append [of b ys] by simp
    moreover have "drop 1 (b @ ys) = drop 1 b @ ys" using parse_bad_length [OF TlvBad] by simp
    ultimately show ?thesis using 1(3) [OF TlvBad] by (simp add: scan_bad [OF TlvBad] scan_bad)
  qed
qed

lemma more_length: "tlv_parse b = TlvMore \<Longrightarrow> length b < 64"
  by (auto simp: tlv_parse_def Let_def split: if_splits)

lemma scan_rest: "tlv_parse (snd (scan b)) = TlvMore"
proof (induction b rule: scan.induct)
  case (1 b)
  then show ?case by (cases "tlv_parse b") (simp_all add: scan_hit scan_bad scan_more)
qed

lemma scan_rest_length: "length (snd (scan b)) < 64"
  using scan_rest more_length by blast

lemma scan_nil [simp]: "scan [] = ([], [])"
  by (rule scan_more) (simp add: tlv_parse_def)

type_synonym command = "u8 \<times> u8 \<times> u8 list"

fun frame_of :: "command \<Rightarrow> u8 list" where
  "frame_of (cmd, seq, p) = tlv_frame cmd seq p"

fun fits :: "command \<Rightarrow> bool" where
  "fits (cmd, seq, p) \<longleftrightarrow> length p \<le> TLV_PAYLOAD_MAX"

lemma scan_frame: "fits f \<Longrightarrow> scan (frame_of f @ ys) = (f # fst (scan ys), snd (scan ys))"
  by (cases f) (simp add: scan_hit [OF parse_frame])

lemma scan_frames: "\<forall>f \<in> set cmds. fits f \<Longrightarrow> scan (concat (map frame_of cmds) @ ys) = (cmds @ fst (scan ys), snd (scan ys))"
  by (induction cmds) (simp_all add: scan_frame)

text \<open>Bytes that hold no start byte are skipped, whatever follows.\<close>

lemma scan_junk:
  assumes "TLV_SOF0 \<notin> set junk" "8 \<le> length ys"
  shows "scan (junk @ ys) = scan ys"
  using assms(1)
proof (induction junk)
  case (Cons a junk)
  then have "tlv_parse ((a # junk) @ ys) = TlvBad" using assms(2) by (simp add: tlv_parse_def)
  with Cons show ?case by (simp add: scan_bad)
qed simp

section \<open>Frames of the handlers\<close>

lemma send_frame_frame [simp]:
  "handled (snd (send_frame e cmd seq p c)) = handled c" "resetting (snd (send_frame e cmd seq p c)) = resetting c"
  "ring (snd (send_frame e cmd seq p c)) = ring c" "accum (snd (send_frame e cmd seq p c)) = accum c"
  "sup (snd (send_frame e cmd seq p c)) = sup c" "pq (snd (send_frame e cmd seq p c)) = pq c"
  by (simp_all add: send_frame_def split: option.split)

lemma to_persist_frame [simp]:
  "handled (to_persist f c) = handled c" "resetting (to_persist f c) = resetting c"
  "ring (to_persist f c) = ring c" "accum (to_persist f c) = accum c" "sup (to_persist f c) = sup c"
  by (simp_all add: to_persist_def)

lemma post_safety_frame [simp]:
  "handled (post_safety ty a b c) = handled c" "resetting (post_safety ty a b c) = resetting c"
  "ring (post_safety ty a b c) = ring c" "accum (post_safety ty a b c) = accum c" "pq (post_safety ty a b c) = pq c"
  "sup (post_safety ty a b c) = sup_step (Post ty a b) (sup c)"
  by (simp_all add: post_safety_def)

lemmas handler_defs = handle_ping_def handle_get_state_def handle_get_build_info_def handle_get_device_id_def
  handle_set_led_override_def handle_buzzer_beep_def handle_set_advertised_amps_def handle_clear_fault_def
  handle_get_fault_log_def handle_get_lifetime_kwh_def handle_write_calibration_def handle_write_bl0939_cal_def
  handle_rfid_learn_next_def handle_rfid_remove_uid_def handle_rfid_clear_list_def handle_rfid_get_list_def
  handle_set_require_rfid_auth_def handle_get_rfid_config_def handle_ota_begin_def handle_ota_chunk_def
  handle_ota_commit_def handle_ota_abort_def handle_set_time_def handle_get_time_def publish_time_def
  handle_request_stop_def handle_request_start_resume_def handle_simulate_replug_def
  handle_run_gfci_cal_test_def handle_set_gfci_policy_def handle_get_gfci_policy_def

text \<open>What holds of every handler's result, and of the unchanged state, holds after dispatch.\<close>

lemma if_rule: "P x \<Longrightarrow> P y \<Longrightarrow> P (if b then x else y)"
  by simp

lemma dispatch_rule:
  assumes "cmd = CMD_RESTART \<Longrightarrow> P (handle_restart c)" "P c"
    "P (handle_ping e seq c)" "P (handle_get_state e seq c)" "P (handle_get_build_info e seq c)"
    "P (handle_get_device_id e seq c)" "P (handle_set_led_override p c)" "P (handle_buzzer_beep p c)"
    "P (handle_set_advertised_amps e p c)" "P (handle_clear_fault p c)" "P (handle_get_fault_log p seq c)"
    "P (handle_get_lifetime_kwh seq c)" "P (handle_write_calibration p c)" "P (handle_write_bl0939_cal p c)"
    "P (handle_request_stop p c)" "P (handle_request_start_resume c)" "P (handle_rfid_learn_next c)"
    "P (handle_rfid_remove_uid p c)" "P (handle_rfid_clear_list c)" "P (handle_rfid_get_list seq c)"
    "P (handle_set_require_rfid_auth p c)" "P (handle_get_rfid_config c)" "P (handle_ota_begin p seq c)"
    "P (handle_ota_chunk p seq c)" "P (handle_ota_commit p seq c)" "P (handle_ota_abort p seq c)"
    "P (handle_set_time e p seq c)" "P (handle_get_time e seq c)" "P (handle_simulate_replug c)"
    "P (handle_run_gfci_cal_test c)" "P (handle_set_gfci_policy p c)" "P (handle_get_gfci_policy c)"
  shows "P (dispatch e cmd seq p c)"
proof (cases "cmd = CMD_RESTART")
  case True
  with assms(1) show ?thesis by (simp add: dispatch_def)
next
  case False
  then show ?thesis unfolding dispatch_def if_not_P [OF False] by (intro if_rule [of P] assms(2-))
qed

lemma dispatch_frame [simp]:
  "handled (dispatch e cmd seq p c) = handled c" "ring (dispatch e cmd seq p c) = ring c"
  "accum (dispatch e cmd seq p c) = accum c"
  by (rule dispatch_rule; simp add: handler_defs handle_restart_def Let_def)+

lemma dispatch_resetting: "resetting (dispatch e cmd seq p c) \<Longrightarrow> resetting c \<or> cmd = CMD_RESTART"
  by (rule dispatch_rule [where P = "\<lambda>x. resetting x \<longrightarrow> resetting c \<or> cmd = CMD_RESTART", THEN mp])
    (simp_all add: handler_defs Let_def)

lemma dispatch_still_resetting: "resetting c \<Longrightarrow> resetting (dispatch e cmd seq p c)"
  by (rule dispatch_rule; simp add: handler_defs handle_restart_def Let_def)

text \<open>A command reaches the supervisor as at most one post to its inbox.\<close>

lemma dispatch_sup: "sup (dispatch e cmd seq p c) = sup c \<or> (\<exists>ty a b. sup (dispatch e cmd seq p c) = sup_step (Post ty a b) (sup c))"
  by (rule dispatch_rule; simp add: handler_defs handle_restart_def Let_def; blast)

lemma queue_ok_chunk: "queue_ok q \<Longrightarrow> queue_ok (snd (persist_post_ota_chunk sid off data seq q))"
  by (simp add: persist_post_ota_chunk_def queue_ok_post)

lemma to_persist_queue:
  "(\<And>q. queue_ok q \<Longrightarrow> queue_ok (snd (f q))) \<Longrightarrow> queue_ok (pq c) \<Longrightarrow> queue_ok (pq (to_persist f c))"
  by (simp add: to_persist_def)

lemma dispatch_queue: "queue_ok (pq c) \<Longrightarrow> queue_ok (pq (dispatch e cmd seq p c))"
  by (rule dispatch_rule)
    (simp_all add: handler_defs handle_restart_def Let_def persist_post_defs to_persist_def queue_ok_post)

lemma logged_frame [simp]:
  "handled (dispatch_logged e cmd seq p c) = handled c @ [(cmd, seq, p)]"
  "ring (dispatch_logged e cmd seq p c) = ring c" "accum (dispatch_logged e cmd seq p c) = accum c"
  "resetting c \<Longrightarrow> resetting (dispatch_logged e cmd seq p c)"
  by (simp_all add: dispatch_logged_def dispatch_still_resetting)

lemma logged_resetting: "resetting (dispatch_logged e cmd seq p c) \<Longrightarrow> resetting c \<or> cmd = CMD_RESTART"
  using dispatch_resetting by (fastforce simp: dispatch_logged_def)

end
