(* ===== verification/Comms_Run.thy ===== *)
theory Comms_Run
  imports Comms_Link
begin

text \<open>
  Runs of the communications task: interrupts and passes in any order. The invariant
  \<open>link_ok\<close> relates the bytes the ring has accepted to what was dispatched: a prefix of them has
  been scanned, its frames are the commands handled and its rest is the accumulator, and the
  other bytes wait in the ring.
\<close>

section \<open>One pass\<close>

lemma parse_loop_resetting: "resetting c \<Longrightarrow> parse_loop e b c = (b, c)"
  by (simp add: parse_loop.simps)

lemma loop_hit:
  "\<not> resetting c \<Longrightarrow> tlv_parse b = TlvFrame n cmd seq p \<Longrightarrow>
    parse_loop e b c = parse_loop e (drop n b) (dispatch_logged e cmd seq p c)"
  by (simp add: parse_loop.simps [of e b c])

lemma loop_bad: "\<not> resetting c \<Longrightarrow> tlv_parse b = TlvBad \<Longrightarrow> parse_loop e b c = parse_loop e (drop 1 b) c"
  by (simp add: parse_loop.simps [of e b c])

lemma loop_more: "tlv_parse b = TlvMore \<Longrightarrow> parse_loop e b c = (b, c)"
  by (simp add: parse_loop.simps [of e b c])

lemma loop_invariant:
  assumes step: "\<And>cmd seq p c. P c \<Longrightarrow> P (dispatch_logged e cmd seq p c)"
  shows "P c \<Longrightarrow> P (snd (parse_loop e b c))"
proof (induction b arbitrary: c rule: measure_induct_rule [of length])
  case (less b)
  show ?case
  proof (cases "resetting c \<or> tlv_parse b = TlvMore")
    case True
    with less.prems show ?thesis by (auto simp: parse_loop_resetting loop_more)
  next
    case False
    then have live: "\<not> resetting c" by simp
    from False consider n cmd seq p where "tlv_parse b = TlvFrame n cmd seq p" | "tlv_parse b = TlvBad"
      by (cases "tlv_parse b") auto
    then show ?thesis
    proof cases
      case 1
      have "P (snd (parse_loop e (drop n b) (dispatch_logged e cmd seq p c)))"
        using parse_frame_length [OF 1] by (intro less.IH [OF _ step [OF less.prems]]) (simp; linarith)
      then show ?thesis by (simp only: loop_hit [OF live 1])
    next
      case 2
      have "P (snd (parse_loop e (drop 1 b) c))"
        using parse_bad_length [OF 2] by (intro less.IH [OF _ less.prems]) simp
      then show ?thesis by (simp only: loop_bad [OF live 2])
    qed
  qed
qed

lemma loop_frame: "ring (snd (parse_loop e b c)) = ring c"
  by (rule loop_invariant [where P = "\<lambda>x. ring x = ring c"]) simp_all

lemma loop_handled:
  "\<exists>hits rest. scan b = (hits @ fst (scan rest), snd (scan rest)) \<and> fst (parse_loop e b c) = rest \<and>
     handled (snd (parse_loop e b c)) = handled c @ hits \<and>
     (if resetting (snd (parse_loop e b c)) then resetting c \<or> CMD_RESTART \<in> fst ` set hits
      else scan rest = ([], rest))"
proof (induction e b c rule: parse_loop.induct)
  case (1 e b c)
  show ?case
  proof (cases "resetting c")
    case True
    then show ?thesis by (simp add: parse_loop_resetting)
  next
    case False
    show ?thesis
    proof (cases "tlv_parse b")
      case (TlvFrame n cmd seq p)
      let ?c = "dispatch_logged e cmd seq p c"
      from 1(1) [OF False TlvFrame] obtain hits rest where ih:
        "scan (drop n b) = (hits @ fst (scan rest), snd (scan rest))" "fst (parse_loop e (drop n b) ?c) = rest"
        "handled (snd (parse_loop e (drop n b) ?c)) = handled ?c @ hits"
        "if resetting (snd (parse_loop e (drop n b) ?c)) then resetting ?c \<or> CMD_RESTART \<in> fst ` set hits
         else scan rest = ([], rest)"
        by blast
      have eq: "parse_loop e b c = parse_loop e (drop n b) ?c"
        by (rule loop_hit [OF False TlvFrame])
      have "resetting ?c \<Longrightarrow> cmd = CMD_RESTART" using logged_resetting False by blast
      with ih show ?thesis unfolding eq
        by (intro exI [of _ "(cmd, seq, p) # hits"] exI [of _ rest])
          (auto simp: scan_hit [OF TlvFrame] split: if_splits)
    next
      case TlvMore
      with False show ?thesis by (auto simp: scan_more loop_more)
    next
      case TlvBad
      have eq: "parse_loop e b c = parse_loop e (drop 1 b) c"
        by (rule loop_bad [OF False TlvBad])
      from 1(2) [OF False TlvBad] show ?thesis unfolding eq scan_bad [OF TlvBad] by blast
    qed
  qed
qed

text \<open>The loop never leaves a full accumulator, so the defensive reset is not taken.\<close>

lemma loop_rest_short: "\<not> resetting (snd (parse_loop e b c)) \<Longrightarrow> length (fst (parse_loop e b c)) < 64"
  using loop_handled [of b e c] scan_rest_length by (metis snd_conv)

lemma pass_eq:
  "comms_pass e c =
    (if resetting c then c
     else let got = fst (uart5_rx_pop (64 - length (accum c)) (ring c));
              c1 = c\<lparr>ring := snd (uart5_rx_pop (64 - length (accum c)) (ring c))\<rparr>
          in if got = [] then c1
             else (snd (parse_loop e (accum c @ got) c1))\<lparr>accum := fst (parse_loop e (accum c @ got) c1)\<rparr>)"
proof -
  let ?got = "fst (uart5_rx_pop (64 - length (accum c)) (ring c))"
  let ?l = "parse_loop e (accum c @ ?got) (c\<lparr>ring := snd (uart5_rx_pop (64 - length (accum c)) (ring c))\<rparr>)"
  have "\<not> (length (fst ?l) = 64 \<and> \<not> resetting (snd ?l))" using loop_rest_short [of e _ _] by fastforce
  moreover have "accum (c\<lparr>ring := r\<rparr>) = accum c" for r by simp
  ultimately show ?thesis unfolding comms_pass_def Let_def case_prod_unfold by (simp only: if_False)
qed

section \<open>The link invariant\<close>

definition link_ok :: "u8 list \<Rightarrow> comms_state \<Rightarrow> bool" where
  "link_ok bytes c \<longleftrightarrow> ring_ok (ring c) \<and>
     (\<exists>read. bytes = read @ ring_contents (ring c) \<and>
       (if resetting c then CMD_RESTART \<in> fst ` set (handled c) \<and> (\<exists>later. fst (scan read) = handled c @ later)
        else length (accum c) < 64 \<and> scan read = (handled c, accum c)))"

lemma link_boot: "link_ok [] (comms_boot s)"
  by (simp add: link_ok_def comms_boot_def ring_reset)

fun accepted :: "comms_event \<Rightarrow> comms_state \<Rightarrow> u8 list" where
  "accepted (Isr rbne errs b) c = (if rbne \<and> \<not> errs \<and> ring_used (ring c) < 255 then [b] else [])"
| "accepted (Pass e) c = []"

fun bytes_in :: "comms_event list \<Rightarrow> comms_state \<Rightarrow> u8 list" where
  "bytes_in [] c = []"
| "bytes_in (ev # evs) c = accepted ev c @ bytes_in evs (comms_step ev c)"

lemma irq_contents:
  "ring_ok r \<Longrightarrow> ring_contents (UART4_IRQHandler rbne errs b r) =
    ring_contents r @ (if rbne \<and> \<not> errs \<and> ring_used r < 255 then [b] else [])"
proof (cases "rbne \<and> \<not> errs")
  case True
  assume "ring_ok r"
  with True rx.put_cases [of r b] show ?thesis by (simp add: rx_put_def)
next
  case False
  then show ?thesis by (auto simp: irq_error)
qed

lemma link_isr: "link_ok bytes c \<Longrightarrow> link_ok (bytes @ accepted (Isr rbne errs b) c) (comms_step (Isr rbne errs b) c)"
  unfolding link_ok_def accepted.simps comms_step.simps
  by (elim conjE exE, intro conjI exI) (auto simp: irq_ok irq_contents split: if_splits)

lemma link_pass:
  assumes "link_ok bytes c"
  shows "link_ok bytes (comms_pass e c)"
proof (cases "resetting c")
  case True
  with assms show ?thesis by (simp add: comms_pass_def)
next
  case False
  let ?n = "64 - length (accum c)"
  let ?got = "fst (uart5_rx_pop ?n (ring c))" and ?r = "snd (uart5_rx_pop ?n (ring c))"
  let ?c1 = "c\<lparr>ring := ?r\<rparr>"
  from assms False obtain read where ok: "ring_ok (ring c)" and bytes: "bytes = read @ ring_contents (ring c)"
    and len: "length (accum c) < 64" and sc: "scan read = (handled c, accum c)"
    by (auto simp: link_ok_def)
  have split: "bytes = (read @ ?got) @ ring_contents ?r" using rx.get_split [OF ok, of ?n] bytes by simp
  have okr: "ring_ok ?r" using rx.get_ok [OF ok] by simp
  show ?thesis
  proof (cases "?got = []")
    case True
    with False split okr len sc show ?thesis by (auto simp: pass_eq link_ok_def)
  next
    case got: False
    let ?l = "parse_loop e (accum c @ ?got) ?c1"
    obtain hits rest where l: "scan (accum c @ ?got) = (hits @ fst (scan rest), snd (scan rest))" "fst ?l = rest"
      "handled (snd ?l) = handled ?c1 @ hits"
      "if resetting (snd ?l) then resetting ?c1 \<or> CMD_RESTART \<in> fst ` set hits else scan rest = ([], rest)"
      using loop_handled [of "accum c @ ?got" e ?c1] by blast
    have sc': "scan (read @ ?got) = (handled c @ hits @ fst (scan rest), snd (scan rest))"
      using scan_append [of read ?got] by (simp add: sc l(1))
    have fr: "ring (snd ?l) = ?r" using loop_frame by simp
    have short: "\<not> resetting (snd ?l) \<Longrightarrow> length rest < 64" using loop_rest_short l(2) by blast
    have p: "comms_pass e c = (snd ?l)\<lparr>accum := rest\<rparr>" using False got l(2) by (simp add: pass_eq Let_def)
    show ?thesis unfolding link_ok_def
    proof (intro conjI exI [of _ "read @ ?got"])
      show "ring_ok (ring (comms_pass e c))" using okr by (simp add: p fr)
      show "bytes = (read @ ?got) @ ring_contents (ring (comms_pass e c))" using split by (simp add: p fr)
      show "if resetting (comms_pass e c)
        then CMD_RESTART \<in> fst ` set (handled (comms_pass e c)) \<and> (\<exists>later. fst (scan (read @ ?got)) = handled (comms_pass e c) @ later)
        else length (accum (comms_pass e c)) < 64 \<and> scan (read @ ?got) = (handled (comms_pass e c), accum (comms_pass e c))"
        using l(3,4) short False unfolding sc' by (auto simp: p image_Un split: if_splits)
    qed
  qed
qed

lemma link_run: "link_ok bytes c \<Longrightarrow> link_ok (bytes @ bytes_in evs c) (comms_run evs c)"
proof (induction evs arbitrary: bytes c)
  case (Cons ev evs)
  have "link_ok (bytes @ accepted ev c) (comms_step ev c)"
    using Cons.prems link_isr link_pass by (cases ev) simp_all
  from Cons.IH [OF this] show ?case by simp
qed simp

section \<open>The supervisor under the link\<close>

lemma logged_sup: "reachable (sup c) \<Longrightarrow> reachable (sup (dispatch_logged e cmd seq p c))"
  using dispatch_sup [of e cmd seq p "c\<lparr>handled := handled c @ [(cmd, seq, p)]\<rparr>"] reachable.stepped
  by (auto simp: dispatch_logged_def simp del: sup_step.simps)

lemma loop_sup: "reachable (sup c) \<Longrightarrow> reachable (sup (snd (parse_loop e b c)))"
  by (rule loop_invariant [where P = "\<lambda>x. reachable (sup x)"]) (simp_all add: logged_sup)

text \<open>The outputs and the faults of the supervisor.\<close>

definition hw_view :: "safety_state \<Rightarrow> evse_state \<times> relay_hw \<times> cp_pwm \<times> fault_state" where
  "hw_view s = (es s, relay s, pwm s, fs s)"

lemma logged_hw: "hw_view (sup (dispatch_logged e cmd seq p c)) = hw_view (sup c)"
  using dispatch_sup [of e cmd seq p "c\<lparr>handled := handled c @ [(cmd, seq, p)]\<rparr>"]
  by (auto simp: dispatch_logged_def post_safety_req_def hw_view_def)

lemma loop_hw: "hw_view (sup (snd (parse_loop e b c))) = hw_view (sup c)"
  by (rule loop_invariant [where P = "\<lambda>x. hw_view (sup x) = hw_view (sup c)"]) (simp_all add: logged_hw)

lemma pass_sup: "reachable (sup c) \<Longrightarrow> reachable (sup (comms_pass e c))"
  by (simp add: pass_eq Let_def loop_sup)

lemma pass_hw: "hw_view (sup (comms_pass e c)) = hw_view (sup c)"
  by (simp add: pass_eq Let_def loop_hw)

lemma logged_queue: "queue_ok (pq c) \<Longrightarrow> queue_ok (pq (dispatch_logged e cmd seq p c))"
  by (simp add: dispatch_logged_def dispatch_queue)

lemma loop_queue: "queue_ok (pq c) \<Longrightarrow> queue_ok (pq (snd (parse_loop e b c)))"
  by (rule loop_invariant [where P = "\<lambda>x. queue_ok (pq x)"]) (simp_all add: logged_queue)

lemma pass_queue: "queue_ok (pq c) \<Longrightarrow> queue_ok (pq (comms_pass e c))"
  by (simp add: pass_eq Let_def loop_queue)

end
