(* ===== verification/Link_Spec.thy ===== *)
theory Link_Spec
  imports Comms_Run Safety_Spec
begin

text \<open>
  The controller as seen from the Wi-Fi module: supervisor ticks interleaved with the UART
  interrupts and passes of the communications task (\<open>sys_run\<close>), and the guarantees that hold
  for every byte stream on the wire.
\<close>

section \<open>The two tasks together\<close>

datatype sys_event = Wire comms_event | Super tick_env

fun sys_step :: "sys_event \<Rightarrow> comms_state \<Rightarrow> comms_state" where
  "sys_step (Wire ev) c = comms_step ev c"
| "sys_step (Super te) c = c\<lparr>sup := safety_tick te (sup c)\<rparr>"

definition sys_run :: "sys_event list \<Rightarrow> comms_state \<Rightarrow> comms_state" where
  "sys_run evs c = fold sys_step evs c"

lemma sys_run_simps [simp]: "sys_run [] c = c" "sys_run (ev # evs) c = sys_run evs (sys_step ev c)"
  by (simp_all add: sys_run_def)

lemma step_reachable: "reachable (sup c) \<Longrightarrow> reachable (sup (sys_step ev c))"
proof (cases ev)
  case (Wire x1)
  then show "reachable (sup c) \<Longrightarrow> ?thesis" by (cases x1) (simp_all add: pass_sup)
next
  case (Super x2)
  then show "reachable (sup c) \<Longrightarrow> ?thesis" by (simp add: reachable_tick)
qed

lemma run_reachable: "reachable (sup c) \<Longrightarrow> reachable (sup (sys_run evs c))"
  by (induction evs arbitrary: c) (simp_all add: step_reachable)

lemma wire_hw: "hw_view (sup (sys_run (map Wire evs) c)) = hw_view (sup c)"
proof (induction evs arbitrary: c)
  case (Cons ev evs)
  then show ?case by (cases ev) (simp_all add: pass_hw)
qed simp

lemma wire_run: "sys_run (map Wire evs) c = comms_run evs c"
  by (induction evs arbitrary: c) simp_all

section \<open>What the handlers may queue\<close>

text \<open>The range checks of the handlers, as a predicate on requests.\<close>

fun request_valid :: "persist_req \<Rightarrow> bool" where
  "request_valid (PERSIST_REQ_BOOT_CONFIG_AMPS a) \<longleftrightarrow> a \<le> 48"
| "request_valid (PERSIST_REQ_CALIBRATION k) \<longleftrightarrow> slope_den k \<noteq> 0 \<and> 0 \<le> sint (anchor_raw k) \<and> sint (anchor_raw k) \<le> 4095"
| "request_valid (PERSIST_REQ_REQUIRE_RFID_AUTH b) \<longleftrightarrow> b \<le> 1"
| "request_valid (PERSIST_REQ_OTA_CHUNK k) \<longleftrightarrow> oc_data k \<noteq> [] \<and> length (oc_data k) \<le> OTA_CHUNK_MAX_DATA"
| "request_valid _ \<longleftrightarrow> True"

definition queue_valid :: "comms_state \<Rightarrow> bool" where
  "queue_valid c \<longleftrightarrow> queue_ok (pq c) \<and> (\<forall>r \<in> set (waiting (pq c)). request_valid r)"

lemma post_valid: "queue_valid c \<Longrightarrow> request_valid r \<Longrightarrow> queue_valid (to_persist (post_persist r) c)"
  by (auto simp: queue_valid_def to_persist_def post_persist_def queue_ok_def)

lemma queue_valid_frame [simp]:
  "queue_valid (snd (send_frame e cmd seq p c)) = queue_valid c" "queue_valid (post_safety ty a b c) = queue_valid c"
  "queue_valid (c\<lparr>led := l\<rparr>) = queue_valid c" "queue_valid (c\<lparr>buz := z\<rparr>) = queue_valid c"
  "queue_valid (c\<lparr>clock := k\<rparr>) = queue_valid c" "queue_valid (c\<lparr>rtc_stores := rs\<rparr>) = queue_valid c"
  "queue_valid (c\<lparr>resetting := rb\<rparr>) = queue_valid c" "queue_valid (c\<lparr>handled := hs\<rparr>) = queue_valid c"
  "queue_valid (c\<lparr>ring := r\<rparr>) = queue_valid c" "queue_valid (c\<lparr>accum := ac\<rparr>) = queue_valid c"
  "queue_valid (c\<lparr>sup := s\<rparr>) = queue_valid c"
  by (simp_all add: queue_valid_def)

lemma chunk_valid:
  "queue_valid c \<Longrightarrow> queue_valid (to_persist (persist_post_ota_chunk sid off data seq) c)"
proof (cases "data = [] \<or> length data > OTA_CHUNK_MAX_DATA")
  case True
  moreover assume "queue_valid c"
  ultimately show ?thesis by (auto simp: persist_post_ota_chunk_def to_persist_def queue_valid_def)
next
  case False
  moreover assume "queue_valid c"
  ultimately show ?thesis
    using post_valid [of c "PERSIST_REQ_OTA_CHUNK \<lparr>oc_session_id = sid, oc_offset = off, oc_seq = seq, oc_data = data\<rparr>"]
    by (simp add: persist_post_ota_chunk_def to_persist_def)
qed

lemma post_valid_defs:
  "queue_valid c \<Longrightarrow> request_valid r \<Longrightarrow> (\<And>q. f q = post_persist r q) \<Longrightarrow> queue_valid (to_persist f c)"
  using post_valid [of c r] by (simp add: to_persist_def)

lemma dispatch_valid: "queue_valid c \<Longrightarrow> queue_valid (dispatch e cmd seq p c)"
  by (rule dispatch_rule [where P = queue_valid];
    (simp add: handler_defs handle_restart_def Let_def chunk_valid not_less)?;
    (intro impI conjI)?; (rule post_valid_defs, assumption, simp_all add: persist_post_defs)?)

lemma pass_valid: "queue_valid c \<Longrightarrow> queue_valid (comms_pass e c)"
  using loop_invariant [of queue_valid] dispatch_valid
  by (simp add: pass_eq Let_def dispatch_logged_def)

lemma step_valid: "queue_valid c \<Longrightarrow> queue_valid (sys_step ev c)"
proof (cases ev)
  case (Wire x1)
  then show "queue_valid c \<Longrightarrow> ?thesis" by (cases x1) (simp_all add: pass_valid)
qed simp

lemma run_valid: "queue_valid c \<Longrightarrow> queue_valid (sys_run evs c)"
  by (induction evs arbitrary: c) (simp_all add: step_valid)

section \<open>What is sent\<close>

definition frame_ok :: "u8 list \<Rightarrow> bool" where
  "frame_ok buf \<longleftrightarrow> (\<exists>cmd seq p. length p \<le> TLV_PAYLOAD_MAX \<and> tlv_parse buf = TlvFrame (length buf) cmd seq p)"

definition sent_ok :: "comms_state \<Rightarrow> bool" where
  "sent_ok c \<longleftrightarrow> (\<forall>buf \<in> set (sent c). frame_ok buf)"

lemma build_ok: "tlv_build cmd seq p n = Some buf \<Longrightarrow> frame_ok buf"
  using parse_frame [of p cmd seq "[]"] by (auto simp: tlv_build_def frame_ok_def Let_def split: if_splits)

lemma send_ok: "sent_ok c \<Longrightarrow> sent_ok (snd (send_frame e cmd seq p c))"
  by (auto simp: sent_ok_def send_frame_def build_ok split: option.split)

lemma sent_ok_frame [simp]:
  "sent_ok (to_persist f c) = sent_ok c" "sent_ok (post_safety ty a b c) = sent_ok c"
  "sent_ok (c\<lparr>led := l\<rparr>) = sent_ok c" "sent_ok (c\<lparr>buz := z\<rparr>) = sent_ok c"
  "sent_ok (c\<lparr>clock := k\<rparr>) = sent_ok c" "sent_ok (c\<lparr>rtc_stores := rs\<rparr>) = sent_ok c"
  "sent_ok (c\<lparr>resetting := rb\<rparr>) = sent_ok c" "sent_ok (c\<lparr>handled := hs\<rparr>) = sent_ok c"
  "sent_ok (c\<lparr>ring := r\<rparr>) = sent_ok c" "sent_ok (c\<lparr>accum := ac\<rparr>) = sent_ok c" "sent_ok (c\<lparr>sup := s\<rparr>) = sent_ok c"
  by (simp_all add: sent_ok_def to_persist_def post_safety_def)

lemma dispatch_sent: "sent_ok c \<Longrightarrow> sent_ok (dispatch e cmd seq p c)"
  by (rule dispatch_rule [where P = sent_ok]; simp add: handler_defs handle_restart_def Let_def send_ok)

lemma pass_sent: "sent_ok c \<Longrightarrow> sent_ok (comms_pass e c)"
  using loop_invariant [of sent_ok] dispatch_sent by (simp add: pass_eq Let_def dispatch_logged_def)

lemma step_sent: "sent_ok c \<Longrightarrow> sent_ok (sys_step ev c)"
proof (cases ev)
  case (Wire x1)
  then show "sent_ok c \<Longrightarrow> ?thesis" by (cases x1) (simp_all add: pass_sent)
qed simp

lemma run_sent: "sent_ok c \<Longrightarrow> sent_ok (sys_run evs c)"
  by (induction evs arbitrary: c) (simp_all add: step_sent)

lemma boot_link_ok: "queue_valid (comms_boot s)" "sent_ok (comms_boot s)"
  by (simp_all add: comms_boot_def queue_valid_def queue_ok_def sent_ok_def)

end
