(* ===== verification/Link_Props.thy ===== *)
theory Link_Props
  imports Link_Spec
begin

text \<open>
  The properties of the link between the Wi-Fi module and the controller: the stream of
  commands, what a byte stream can and cannot do to the supervisor and to the persist queue,
  and a command followed from its bytes to the supervisor.
\<close>

section \<open>Bursts\<close>

definition burst :: "u8 list \<Rightarrow> comms_env \<Rightarrow> comms_event list" where
  "burst bs e = map (Isr True False) bs @ [Pass e]"

lemma run_append: "comms_run (xs @ ys) c = comms_run ys (comms_run xs c)"
  by (induction xs arbitrary: c) simp_all

lemma bytes_append: "bytes_in (xs @ ys) c = bytes_in xs c @ bytes_in ys (comms_run xs c)"
  by (induction xs arbitrary: c) simp_all

lemma isr_bytes:
  "ring_ok (ring c) \<Longrightarrow> ring_used (ring c) + length bs \<le> 255 \<Longrightarrow>
    bytes_in (map (Isr True False) bs) c = bs \<and>
    ring_ok (ring (comms_run (map (Isr True False) bs) c)) \<and>
    ring_contents (ring (comms_run (map (Isr True False) bs) c)) = ring_contents (ring c) @ bs \<and>
    comms_run (map (Isr True False) bs) c = c\<lparr>ring := ring (comms_run (map (Isr True False) bs) c)\<rparr>"
proof (induction bs arbitrary: c)
  case (Cons b bs)
  let ?c = "comms_step (Isr True False b) c"
  have room: "ring_used (ring c) < 255" using Cons.prems by simp
  have con: "ring_contents (ring ?c) = ring_contents (ring c) @ [b]"
    using irq_push [OF Cons.prems(1) room] by simp
  then have "ring_used (ring ?c) = Suc (ring_used (ring c))"
    using length_ring_contents [of "ring ?c"] length_ring_contents [of "ring c"] by simp
  with Cons.prems Cons.IH [of ?c] con room show ?case by (simp add: irq_ok)
qed simp

lemma burst_run:
  assumes "ring_ok (ring c)" "ring_contents (ring c) = []" "accum c = []" "\<not> resetting c" "length bs \<le> 64" "bs \<noteq> []"
  shows "bytes_in (burst bs e) c = bs" "ring_contents (ring (comms_run (burst bs e) c)) = []"
    "\<exists>r. comms_run (burst bs e) c = (snd (parse_loop e bs (c\<lparr>ring := r\<rparr>)))\<lparr>accum := fst (parse_loop e bs (c\<lparr>ring := r\<rparr>))\<rparr>"
proof -
  let ?c = "comms_run (map (Isr True False) bs) c"
  have used: "ring_used (ring c) = 0" using assms(2) length_ring_contents [of "ring c"] by simp
  have "ring_used (ring c) + length bs \<le> 255" using used assms(5) by simp
  note j = isr_bytes [OF assms(1) this]
  have i: "bytes_in (map (Isr True False) bs) c = bs" "ring_ok (ring ?c)" "ring_contents (ring ?c) = bs"
    "?c = c\<lparr>ring := ring ?c\<rparr>"
    using j assms(2) by (simp_all only: append_Nil)
  have "accum ?c = accum (c\<lparr>ring := ring ?c\<rparr>)" "resetting ?c = resetting (c\<lparr>ring := ring ?c\<rparr>)"
    by (simp_all only: i(4) [symmetric])
  then have c: "accum ?c = []" "\<not> resetting ?c" using assms(3,4) by simp_all
  have got: "fst (uart5_rx_pop 64 (ring ?c)) = bs" "ring_contents (snd (uart5_rx_pop 64 (ring ?c))) = []"
    using pop_spec [OF i(2), of 64] i(3) assms(5) by auto
  have upd: "?c\<lparr>ring := r\<rparr> = c\<lparr>ring := r\<rparr>" for r
    using arg_cong [OF i(4), of "\<lambda>x. x\<lparr>ring := r\<rparr>"] by simp
  have pass: "comms_run (burst bs e) c =
      (snd (parse_loop e bs (c\<lparr>ring := snd (uart5_rx_pop 64 (ring ?c))\<rparr>)))
        \<lparr>accum := fst (parse_loop e bs (c\<lparr>ring := snd (uart5_rx_pop 64 (ring ?c))\<rparr>))\<rparr>"
    using assms(6) c got(1) by (simp add: burst_def run_append pass_eq Let_def upd)
  show "bytes_in (burst bs e) c = bs" by (simp add: burst_def bytes_append i(1))
  show "ring_contents (ring (comms_run (burst bs e) c)) = []" using got(2) by (simp add: pass loop_frame)
  show "\<exists>r. comms_run (burst bs e) c = (snd (parse_loop e bs (c\<lparr>ring := r\<rparr>)))\<lparr>accum := fst (parse_loop e bs (c\<lparr>ring := r\<rparr>))\<rparr>"
    using pass by blast
qed

lemma boot_ring: "ring_ok (ring (comms_boot s))" "ring_contents (ring (comms_boot s)) = []"
  "accum (comms_boot s) = []" "\<not> resetting (comms_boot s)"
  by (simp_all add: comms_boot_def ring_reset)

definition demo_comms_env :: comms_env where
  "demo_comms_env = \<lparr>now_ms = 1000, version_str = [0x31], git_sha = [0x61], uid96 = replicate 12 7,
     cached_amps = 0, tx_mutex_ok = True\<rparr>"

section \<open>Guarantees\<close>

text \<open>C10: The commands dispatched are the frames of the byte stream: after any interleaving of
  interrupts and passes from boot, if the bytes the ring accepted are a sequence of built frames
  (none a restart), optionally preceded by bytes without a start byte, and all of them have been
  read, then exactly those frames were dispatched, in order and once.\<close>

theorem link_stream:
  fixes cmds :: "command list"
  assumes "bytes_in evs (comms_boot s) = junk @ concat (map frame_of cmds)" "\<forall>f \<in> set cmds. fits f"
    "CMD_RESTART \<notin> fst ` set cmds" "TLV_SOF0 \<notin> set junk" "cmds \<noteq> []"
    "ring_contents (ring (comms_run evs (comms_boot s))) = []"
  shows "handled (comms_run evs (comms_boot s)) = cmds \<and> accum (comms_run evs (comms_boot s)) = []"
proof -
  let ?c = "comms_run evs (comms_boot s)"
  obtain f rest where cs: "cmds = f # rest" using assms(5) by (cases cmds) auto
  have "8 \<le> length (concat (map frame_of cmds))" by (cases f) (simp add: cs)
  then have sc: "scan (bytes_in evs (comms_boot s)) = (cmds, [])"
    using scan_junk [OF assms(4)] scan_frames [OF assms(2), of "[]"] by (simp add: assms(1))
  have "link_ok ([] @ bytes_in evs (comms_boot s)) ?c" by (rule link_run [OF link_boot])
  with assms(6) sc have alt: "if resetting ?c then CMD_RESTART \<in> fst ` set (handled ?c) \<and> (\<exists>later. cmds = handled ?c @ later)
      else (cmds, []) = (handled ?c, accum ?c)"
    by (auto simp: link_ok_def split: if_splits)
  have "\<not> resetting ?c"
  proof
    assume "resetting ?c"
    with alt obtain later where "CMD_RESTART \<in> fst ` set (handled ?c)" "cmds = handled ?c @ later" by auto
    with assms(3) show False by auto
  qed
  with alt show ?thesis by simp
qed

lemma link_stream_witness:
  "handled (comms_run (burst ([0x00, 0x5A] @ frame_of (CMD_PING, 7, []) @ frame_of (CMD_GET_TIME, 8, [])) demo_comms_env)
     (comms_boot demo_boot)) = [(CMD_PING, 7, []), (CMD_GET_TIME, 8, [])]"
proof -
  let ?cmds = "[(CMD_PING, 7, []), (CMD_GET_TIME, 8, [])] :: command list"
  let ?bs = "[0x00, 0x5A] @ concat (map frame_of ?cmds)"
  have "length ?bs \<le> 64" "?bs \<noteq> []" by simp_all
  note b = burst_run [OF boot_ring this, where e = demo_comms_env]
  have "fst ` set ?cmds = {CMD_PING, CMD_GET_TIME}" by auto
  with link_stream [of "burst ?bs demo_comms_env" demo_boot "[0x00, 0x5A]" ?cmds] b show ?thesis by simp
qed

text \<open>C24: Whatever bytes arrive, in whatever timing: a prefix of the accepted bytes has been scanned,
  the commands dispatched are that scan's frames in order, the unread bytes wait in the ring,
  and the accumulator keeps less than a frame, so its defensive reset is never taken.\<close>

theorem link_refines_scan:
  assumes "\<not> resetting (comms_run evs (comms_boot s))"
  shows "\<exists>read. bytes_in evs (comms_boot s) = read @ ring_contents (ring (comms_run evs (comms_boot s))) \<and>
    scan read = (handled (comms_run evs (comms_boot s)), accum (comms_run evs (comms_boot s))) \<and>
    length (accum (comms_run evs (comms_boot s))) < ACCUM_BUF_BYTES"
  using link_run [OF link_boot [of s], of evs] assms by (auto simp: link_ok_def)

lemma link_refines_scan_witness:
  "\<exists>read. bytes_in [Isr True False 0xA5, Pass demo_comms_env] (comms_boot demo_boot) =
     read @ ring_contents (ring (comms_run [Isr True False 0xA5, Pass demo_comms_env] (comms_boot demo_boot)))"
proof -
  let ?evs = "burst [0xA5] demo_comms_env"
  obtain r where run: "comms_run ?evs (comms_boot demo_boot) =
      (snd (parse_loop demo_comms_env [0xA5] ((comms_boot demo_boot)\<lparr>ring := r\<rparr>)))
        \<lparr>accum := fst (parse_loop demo_comms_env [0xA5] ((comms_boot demo_boot)\<lparr>ring := r\<rparr>))\<rparr>"
    using burst_run(3) [OF boot_ring [of demo_boot], of "[0xA5]" demo_comms_env] by auto
  have "tlv_parse [0xA5] = TlvMore" by (simp add: tlv_parse_def)
  then have "\<not> resetting (comms_run ?evs (comms_boot demo_boot))"
    using boot_ring(4) by (simp add: run loop_more)
  from link_refines_scan [OF this] show ?thesis by (auto simp: burst_def)
qed

text \<open>No byte stream actuates anything: between two supervisor ticks the contactor, the pilot
  output, the supervisor state and the faults stay what the last tick made them, so the contactor
  is energised exactly when the supervisor is charging, whatever arrived in between.\<close>

theorem wire_cannot_actuate:
  assumes "reachable (sup c)"
  shows "hw_view (sup (sys_run (Super te # map Wire evs) c)) = hw_view (safety_tick te (sup c)) \<and>
    (contactor_energised (relay (sup (sys_run (Super te # map Wire evs) c))) \<longleftrightarrow>
      es (sup (sys_run (Super te # map Wire evs) c)) = EVSE_CHARGING)"
proof -
  let ?d = "sys_run (Super te # map Wire evs) c"
  have h: "hw_view (sup ?d) = hw_view (safety_tick te (sup c))" using wire_hw by simp
  have ok: "sup_ok (sup c)" "sup_ok (safety_tick te (sup c))"
    using reachable_ok assms reachable_tick by blast+
  have "contactor_energised (relay (safety_tick te (sup c))) \<longleftrightarrow> es (safety_tick te (sup c)) = EVSE_CHARGING"
    by (simp add: energised_commanded [OF ok(2)] tick_commanded_iff [OF ok(1)])
  moreover have "relay (sup ?d) = relay (safety_tick te (sup c))" "es (sup ?d) = es (safety_tick te (sup c))"
    using h by (simp_all only: hw_view_def prod.inject)
  ultimately show ?thesis using h by (simp only:)
qed

lemma wire_cannot_actuate_witness:
  "hw_view (sup (sys_run (Super demo_C # map Wire (burst [0xA5, 0x5A] demo_comms_env)) (comms_boot demo_boot))) =
    hw_view (safety_tick demo_C demo_boot)"
  using wire_cannot_actuate [of "comms_boot demo_boot" demo_C] demo_reachable by (simp add: comms_boot_def)

text \<open>The bytes of a CLEAR_FAULT 0 frame and one pass post the request; the tick after them serves it.\<close>

lemma clear_over_wire:
  assumes "ring_ok (ring c)" "ring_contents (ring c) = []" "accum c = []" "\<not> resetting c"
  shows "sup (sys_run (map Wire (burst (frame_of (CMD_CLEAR_FAULT, seq, [0, 0, 0, 0])) e) @ [Super te]) c) =
    safety_tick te (sup_step (Post SAFETY_REQ_CLEAR_FAULT 0 0) (sup c))"
proof -
  let ?p = "[0, 0, 0, 0] :: u8 list"
  let ?bs = "tlv_frame CMD_CLEAR_FAULT seq ?p"
  have "length ?bs \<le> 64" by simp
  moreover have "?bs \<noteq> []" by (simp add: tlv_frame_def)
  moreover note burst_run(3) [OF assms, of ?bs e]
  ultimately obtain r where
    run: "comms_run (burst ?bs e) c =
      (snd (parse_loop e ?bs (c\<lparr>ring := r\<rparr>)))\<lparr>accum := fst (parse_loop e ?bs (c\<lparr>ring := r\<rparr>))\<rparr>" by blast
  let ?c = "c\<lparr>ring := r\<rparr>"
  have hit: "tlv_parse ?bs = TlvFrame 12 CMD_CLEAR_FAULT seq ?p"
    using parse_frame [of ?p CMD_CLEAR_FAULT seq "[]"] by simp
  have "parse_loop e ?bs ?c = parse_loop e [] (dispatch_logged e CMD_CLEAR_FAULT seq ?p ?c)"
    using assms(4) by (simp add: loop_hit [OF _ hit])
  also have "\<dots> = ([], dispatch_logged e CMD_CLEAR_FAULT seq ?p ?c)" by (rule loop_more) (simp add: tlv_parse_def)
  finally have "sup (comms_run (burst ?bs e) c) = sup_step (Post SAFETY_REQ_CLEAR_FAULT 0 0) (sup c)"
    by (simp add: run dispatch_logged_def dispatch_def handle_clear_fault_def le32_at_def post_safety_def)
  moreover have "sys_run (map Wire (burst ?bs e) @ [Super te]) c = sys_step (Super te) (comms_run (burst ?bs e) c)"
    using wire_run [of "burst ?bs e" c] by (simp add: sys_run_def)
  ultimately show ?thesis by simp
qed

text \<open>C11: A fault clear over the wire works: from a reachable supervisor in EVSE_FAULT whose active faults
  include neither GFCI nor a boot self-test failure, with an empty inbox and no replug window, and a
  communications task with an empty ring and accumulator that is not resetting, the bytes of a
  CLEAR_FAULT 0 frame, one pass of the communications task and one tick whose detectors are silent
  (\<open>healthy\<close>: no safe-fail flag, no sampled ground fault, protective earth, converters and cable rating
  in band, nothing hot, relay feedback compiled out and the metering uncalibrated) end with no latched
  fault active, out of EVSE_FAULT and with the contactor still open. The state it goes to is left open.\<close>

theorem wire_clear_fault:
  assumes "reachable (sup c)" "es (sup c) = EVSE_FAULT"
    and "active_set (fs (sup c)) \<inter> {FAULT_GFCI, FAULT_BOOT_SELF_TEST, FAULT_GFCI_SELF_TEST} = {}"
    and "inbox (sup c) = []" "s_replug_window_ticks (sup c) = 0" "ring_ok (ring c)" "ring_contents (ring c) = []"
    and "accum c = []" "\<not> resetting c" "healthy te"
  shows "let s' = sup (sys_run (map Wire (burst (frame_of (CMD_CLEAR_FAULT, seq, [0, 0, 0, 0])) e) @ [Super te]) c)
    in \<not> fault_any_latched_active (fs s') \<and> es s' \<noteq> EVSE_FAULT \<and> \<not> contactor_energised (relay s')"
proof -
  let ?s = "sup_step (Post SAFETY_REQ_CLEAR_FAULT 0 0) (sup c)"
  have "FAULT_GFCI \<notin> active_set (fs (sup c))" using assms(3) by blast
  from front_of_clear [OF assms(1,2) this assms(4,5,10), of 0] have ready: "es (safety_tick te ?s) = EVSE_READY" .
  have reach: "reachable ?s" by (rule reachable.stepped [OF assms(1)])
  then have ok: "sup_ok ?s" "sup_ok (safety_tick te ?s)" using reachable_ok reachable_tick by blast+
  then show ?thesis
    using ready tick_commanded_iff [OF ok(1), of te] energised_commanded [OF ok(2)]
    unfolding Let_def clear_over_wire [OF assms(6-9)] by (simp add: sup_ok_def latch_ok_def)
qed

lemma wire_clear_fault_witness:
  "\<not> fault_any_latched_active (fs (sup (sys_run (map Wire (burst (frame_of (CMD_CLEAR_FAULT, 9, [0, 0, 0, 0]))
     demo_comms_env) @ [Super demo_C]) (comms_boot demo_safe))))"
proof -
  have "healthy demo_C" using demo_C_wants by (simp add: wants_charge_def)
  with demo_safe wire_clear_fault [OF _ _ _ _ _ boot_ring, of demo_safe demo_C 9 demo_comms_env]
  show ?thesis by (simp add: comms_boot_def Let_def)
qed

end
