(* ===== verification/W25q.thy ===== *)
theory W25q
  imports Prelude
begin

text \<open>
  The serial flash driver, \<^verbatim>\<open>src/src/drivers/w25q.c\<close>. The chip is not part of the repository: it is
  the parameter \<open>X\<close>, one chip-select framed SPI transaction that takes the bytes sent and gives the
  bytes received. The locale \<open>w25q_chip\<close> states what the W25Q data sheet documents of it (reads,
  write enable, sector erase, page program, the busy bit); \<open>nor_flash\<close> is the contract the
  persistence modules rely on, and the driver over a documented chip provides it. Addresses are
  naturals below 2^24. A device that is still busy when the driver gives up returns -1.
\<close>

abbreviation (input) "W25Q_PAGE_SIZE \<equiv> (256 :: nat)"
abbreviation (input) "W25Q_SECTOR_SIZE \<equiv> (4096 :: nat)"
abbreviation (input) "W25Q_CMD_READ_JEDEC \<equiv> (0x9F :: u8)"
abbreviation (input) "W25Q_CMD_READ_STATUS_1 \<equiv> (0x05 :: u8)"
abbreviation (input) "W25Q_CMD_WRITE_ENABLE \<equiv> (0x06 :: u8)"
abbreviation (input) "W25Q_CMD_READ_DATA \<equiv> (0x03 :: u8)"
abbreviation (input) "W25Q_CMD_SECTOR_ERASE \<equiv> (0x20 :: u8)"
abbreviation (input) "W25Q_CMD_PAGE_PROGRAM \<equiv> (0x02 :: u8)"
abbreviation (input) "STATUS_BUSY \<equiv> (0x01 :: u8)"
abbreviation (input) "ERASE_TIMEOUT_LOOPS \<equiv> (5000000 :: nat)"
abbreviation (input) "PROGRAM_TIMEOUT_LOOPS \<equiv> (100000 :: nat)"
abbreviation (input) "FLASH_END \<equiv> (16777216 :: nat)"

type_synonym 'c spi = "u8 list \<Rightarrow> 'c \<Rightarrow> u8 list \<times> 'c"

section \<open>The driver\<close>

definition addr_bytes :: "nat \<Rightarrow> u8 list" where
  "addr_bytes a = [of_nat (a div 65536), of_nat (a div 256), of_nat a]"

definition read_status1 :: "'c spi \<Rightarrow> 'c \<Rightarrow> u8 \<times> 'c" where
  "read_status1 X c = (let (rx, c') = X [W25Q_CMD_READ_STATUS_1, 0xFF] c in (rx ! 1, c'))"

fun wait_not_busy :: "'c spi \<Rightarrow> nat \<Rightarrow> 'c \<Rightarrow> int \<times> 'c" where
  "wait_not_busy X max_loops c =
     (if max_loops = 0 then (-1, c)
      else let (st, c') = read_status1 X c
           in if st AND STATUS_BUSY = 0 then (0, c') else wait_not_busy X (max_loops - 1) c')"

declare wait_not_busy.simps [simp del]

definition write_enable :: "'c spi \<Rightarrow> 'c \<Rightarrow> 'c" where
  "write_enable X c = snd (X [W25Q_CMD_WRITE_ENABLE] c)"

text \<open>The result and the cached identity; an all-zero or all-one identity is refused.\<close>

definition w25q_init :: "'c spi \<Rightarrow> 'c \<Rightarrow> int \<times> u32 \<times> 'c" where
  "w25q_init X c =
     (let (rx, c') = X [W25Q_CMD_READ_JEDEC, 0xFF, 0xFF, 0xFF] c;
          jid = push_bit 16 (ucast (rx ! 1)) OR push_bit 8 (ucast (rx ! 2)) OR ucast (rx ! 3)
      in if jid = 0 \<or> jid = 0xFFFFFF then (-1, 0, c') else (0, jid, c'))"

definition w25q_read :: "'c spi \<Rightarrow> nat \<Rightarrow> nat \<Rightarrow> 'c \<Rightarrow> u8 list \<times> 'c" where
  "w25q_read X addr len c =
     (let (rx, c') = X ([W25Q_CMD_READ_DATA] @ addr_bytes addr @ replicate len 0xFF) c in (drop 4 rx, c'))"

definition w25q_erase_sector :: "'c spi \<Rightarrow> nat \<Rightarrow> 'c \<Rightarrow> int \<times> 'c" where
  "w25q_erase_sector X addr c =
     wait_not_busy X ERASE_TIMEOUT_LOOPS (snd (X ([W25Q_CMD_SECTOR_ERASE] @ addr_bytes addr) (write_enable X c)))"

definition w25q_program :: "'c spi \<Rightarrow> nat \<Rightarrow> u8 list \<Rightarrow> 'c \<Rightarrow> int \<times> 'c" where
  "w25q_program X addr buf c =
     (if length buf = 0 \<or> length buf > W25Q_PAGE_SIZE then (-1, c)
      else wait_not_busy X PROGRAM_TIMEOUT_LOOPS
             (snd (X ([W25Q_CMD_PAGE_PROGRAM] @ addr_bytes addr @ buf) (write_enable X c))))"

section \<open>Contracts\<close>

text \<open>Status reads in a row, and whether the next one shows the device idle.\<close>

fun polls :: "'c spi \<Rightarrow> nat \<Rightarrow> 'c \<Rightarrow> 'c" where
  "polls X 0 c = c"
| "polls X (Suc k) c = snd (read_status1 X (polls X k c))"

definition ready :: "'c spi \<Rightarrow> 'c \<Rightarrow> bool" where
  "ready X c \<longleftrightarrow> fst (read_status1 X c) AND STATUS_BUSY = 0"

definition blank_at :: "(nat \<Rightarrow> u8) \<Rightarrow> nat \<Rightarrow> nat \<Rightarrow> bool" where
  "blank_at mem a n \<longleftrightarrow> (\<forall>i < n. mem (a + i) = 0xFF)"

text \<open>What the persistence modules rely on. \<open>cells\<close> is the content of the array and \<open>idle\<close> that no
  operation is in progress.\<close>

lemma and_blank: "(0xFF :: u8) AND b = b"
proof -
  have "(0xFF :: u8) = -1" by simp
  then show ?thesis by (simp only: and.left_neutral)
qed

locale nor_flash =
  fixes rd :: "nat \<Rightarrow> nat \<Rightarrow> 'c \<Rightarrow> u8 list \<times> 'c"
    and er :: "nat \<Rightarrow> 'c \<Rightarrow> int \<times> 'c"
    and pr :: "nat \<Rightarrow> u8 list \<Rightarrow> 'c \<Rightarrow> int \<times> 'c"
    and cells :: "'c \<Rightarrow> nat \<Rightarrow> u8"
    and idle :: "'c \<Rightarrow> bool"
  assumes rd_data: "idle c \<Longrightarrow> a + n \<le> FLASH_END \<Longrightarrow> fst (rd a n c) = map (cells c) [a ..< a + n]"
    and rd_idle: "idle c \<Longrightarrow> a + n \<le> FLASH_END \<Longrightarrow> idle (snd (rd a n c))"
    and rd_keeps: "idle c \<Longrightarrow> a + n \<le> FLASH_END \<Longrightarrow> cells (snd (rd a n c)) = cells c"
    and er_rc: "fst (er a c) = 0 \<or> fst (er a c) = -1"
    and er_idle: "idle c \<Longrightarrow> a < FLASH_END \<Longrightarrow> fst (er a c) = 0 \<Longrightarrow> idle (snd (er a c))"
    and er_blank: "idle c \<Longrightarrow> a < FLASH_END \<Longrightarrow> fst (er a c) = 0 \<Longrightarrow> x div 4096 = a div 4096 \<Longrightarrow>
      cells (snd (er a c)) x = 0xFF"
    and er_frame: "idle c \<Longrightarrow> a < FLASH_END \<Longrightarrow> x div 4096 \<noteq> a div 4096 \<Longrightarrow>
      cells (snd (er a c)) x = cells c x"
    and pr_rc: "fst (pr a bs c) = 0 \<or> fst (pr a bs c) = -1"
    and pr_idle: "idle c \<Longrightarrow> a mod 256 + length bs \<le> 256 \<Longrightarrow> a < FLASH_END \<Longrightarrow> fst (pr a bs c) = 0 \<Longrightarrow>
      idle (snd (pr a bs c))"
    and pr_data: "idle c \<Longrightarrow> a mod 256 + length bs \<le> 256 \<Longrightarrow> a < FLASH_END \<Longrightarrow> fst (pr a bs c) = 0 \<Longrightarrow>
      i < length bs \<Longrightarrow> cells (snd (pr a bs c)) (a + i) = cells c (a + i) AND bs ! i"
    and pr_frame: "idle c \<Longrightarrow> a mod 256 + length bs \<le> 256 \<Longrightarrow> a < FLASH_END \<Longrightarrow> x < a \<or> a + length bs \<le> x \<Longrightarrow>
      cells (snd (pr a bs c)) x = cells c x"
begin

lemma pr_blank:
  assumes "idle c" "a mod 256 + length bs \<le> 256" "a < FLASH_END" "fst (pr a bs c) = 0" "blank_at (cells c) a (length bs)"
  shows "map (cells (snd (pr a bs c))) [a ..< a + length bs] = bs"
proof (rule nth_equalityI)
  fix i assume "i < length (map (cells (snd (pr a bs c))) [a ..< a + length bs])"
  then have i: "i < length bs" by simp
  then have "cells c (a + i) AND bs ! i = bs ! i" using assms(5) by (simp add: blank_at_def and_blank [simplified])
  with pr_data [OF assms(1-4) i] i show "map (cells (snd (pr a bs c))) [a ..< a + length bs] ! i = bs ! i" by simp
qed simp

end

text \<open>What the data sheet documents of the chip; \<open>armed\<close> is the write enable latch. An erase or program
  command may leave the device busy: the frame holds at every poll, the effect once it is idle.\<close>

locale w25q_chip =
  fixes X :: "'c spi" and cells :: "'c \<Rightarrow> nat \<Rightarrow> u8" and idle :: "'c \<Rightarrow> bool" and armed :: "'c \<Rightarrow> bool"
  assumes chip_read: "idle c \<Longrightarrow> a + n \<le> FLASH_END \<Longrightarrow>
      drop 4 (fst (X ([W25Q_CMD_READ_DATA] @ addr_bytes a @ replicate n 0xFF) c)) = map (cells c) [a ..< a + n]"
    and chip_read_keeps: "idle c \<Longrightarrow> a + n \<le> FLASH_END \<Longrightarrow>
      idle (snd (X ([W25Q_CMD_READ_DATA] @ addr_bytes a @ replicate n 0xFF) c)) \<and>
      cells (snd (X ([W25Q_CMD_READ_DATA] @ addr_bytes a @ replicate n 0xFF) c)) = cells c"
    and chip_enable: "idle c \<Longrightarrow> armed (snd (X [W25Q_CMD_WRITE_ENABLE] c)) \<and> idle (snd (X [W25Q_CMD_WRITE_ENABLE] c)) \<and>
      cells (snd (X [W25Q_CMD_WRITE_ENABLE] c)) = cells c"
    and chip_erase_frame: "idle c \<Longrightarrow> armed c \<Longrightarrow> a < FLASH_END \<Longrightarrow> x div 4096 \<noteq> a div 4096 \<Longrightarrow>
      cells (polls X k (snd (X ([W25Q_CMD_SECTOR_ERASE] @ addr_bytes a) c))) x = cells c x"
    and chip_erase: "idle c \<Longrightarrow> armed c \<Longrightarrow> a < FLASH_END \<Longrightarrow>
      ready X (polls X k (snd (X ([W25Q_CMD_SECTOR_ERASE] @ addr_bytes a) c))) \<Longrightarrow>
      idle (polls X (Suc k) (snd (X ([W25Q_CMD_SECTOR_ERASE] @ addr_bytes a) c))) \<and>
      (\<forall>x. x div 4096 = a div 4096 \<longrightarrow>
        cells (polls X (Suc k) (snd (X ([W25Q_CMD_SECTOR_ERASE] @ addr_bytes a) c))) x = 0xFF)"
    and chip_program_frame: "idle c \<Longrightarrow> armed c \<Longrightarrow> a < FLASH_END \<Longrightarrow> a mod 256 + length bs \<le> 256 \<Longrightarrow>
      x < a \<or> a + length bs \<le> x \<Longrightarrow>
      cells (polls X k (snd (X ([W25Q_CMD_PAGE_PROGRAM] @ addr_bytes a @ bs) c))) x = cells c x"
    and chip_program: "idle c \<Longrightarrow> armed c \<Longrightarrow> a < FLASH_END \<Longrightarrow> a mod 256 + length bs \<le> 256 \<Longrightarrow> bs \<noteq> [] \<Longrightarrow>
      ready X (polls X k (snd (X ([W25Q_CMD_PAGE_PROGRAM] @ addr_bytes a @ bs) c))) \<Longrightarrow>
      idle (polls X (Suc k) (snd (X ([W25Q_CMD_PAGE_PROGRAM] @ addr_bytes a @ bs) c))) \<and>
      (\<forall>i < length bs. cells (polls X (Suc k) (snd (X ([W25Q_CMD_PAGE_PROGRAM] @ addr_bytes a @ bs) c))) (a + i) =
        cells c (a + i) AND bs ! i)"

section \<open>The driver provides the flash contract\<close>

lemma polls_shift: "polls X k (snd (read_status1 X c)) = polls X (Suc k) c"
  by (induction k) simp_all

lemma wait_polls:
  "\<exists>k. snd (wait_not_busy X n c) = polls X k c \<and>
     (if fst (wait_not_busy X n c) = 0 then \<exists>j. k = Suc j \<and> ready X (polls X j c)
      else fst (wait_not_busy X n c) = -1)"
proof (induction n arbitrary: c)
  case 0
  then show ?case by (intro exI [of _ 0]) (simp add: wait_not_busy.simps [of X 0])
next
  case (Suc n)
  let ?c = "snd (read_status1 X c)"
  show ?case
  proof (cases "ready X c")
    case True
    then have "wait_not_busy X (Suc n) c = (0, ?c)"
      by (simp add: wait_not_busy.simps [of X "Suc n"] ready_def case_prod_unfold Let_def)
    with True show ?thesis by (intro exI [of _ "Suc 0"]) auto
  next
    case False
    then have eq: "wait_not_busy X (Suc n) c = wait_not_busy X n ?c"
      by (simp add: wait_not_busy.simps [of X "Suc n"] ready_def case_prod_unfold Let_def)
    from Suc.IH [of ?c] obtain k where k: "snd (wait_not_busy X n ?c) = polls X k ?c"
      "if fst (wait_not_busy X n ?c) = 0 then \<exists>j. k = Suc j \<and> ready X (polls X j ?c)
       else fst (wait_not_busy X n ?c) = -1" by blast
    show ?thesis unfolding eq
      using k polls_shift [of X _ c] by (intro exI [of _ "Suc k"]) (auto split: if_splits)
  qed
qed

lemma wait_rc: "fst (wait_not_busy X n c) = 0 \<or> fst (wait_not_busy X n c) = -1"
  using wait_polls [of X n c] by (auto split: if_splits)

sublocale w25q_chip \<subseteq> nor_flash "w25q_read X" "w25q_erase_sector X" "w25q_program X" cells idle
proof
  fix c a n
  assume i: "idle c" and b: "a + n \<le> FLASH_END"
  show "fst (w25q_read X a n c) = map (cells c) [a ..< a + n]"
    using chip_read [OF i b] by (simp add: w25q_read_def case_prod_unfold Let_def)
  show "idle (snd (w25q_read X a n c))" "cells (snd (w25q_read X a n c)) = cells c"
    using chip_read_keeps [OF i b] by (simp_all add: w25q_read_def case_prod_unfold Let_def)
next
  fix a c show "fst (w25q_erase_sector X a c) = 0 \<or> fst (w25q_erase_sector X a c) = -1"
    by (simp only: w25q_erase_sector_def wait_rc)
next
  fix a bs c show "fst (w25q_program X a bs c) = 0 \<or> fst (w25q_program X a bs c) = -1"
    by (simp add: w25q_program_def wait_rc)
next
  fix c a x
  assume i: "idle c" and a: "a < FLASH_END"
  let ?c = "snd (X ([W25Q_CMD_SECTOR_ERASE] @ addr_bytes a) (write_enable X c))"
  have en: "idle (write_enable X c)" "armed (write_enable X c)" "cells (write_enable X c) = cells c"
    using chip_enable [OF i] by (simp_all add: write_enable_def)
  obtain k where k: "snd (w25q_erase_sector X a c) = polls X k ?c"
    "if fst (w25q_erase_sector X a c) = 0 then \<exists>j. k = Suc j \<and> ready X (polls X j ?c)
     else fst (w25q_erase_sector X a c) = -1"
    using wait_polls [of X ERASE_TIMEOUT_LOOPS ?c] unfolding w25q_erase_sector_def by blast
  show "x div 4096 \<noteq> a div 4096 \<Longrightarrow> cells (snd (w25q_erase_sector X a c)) x = cells c x"
    using chip_erase_frame [OF en(1,2) a] by (simp only: k(1) en(3))
  assume "fst (w25q_erase_sector X a c) = 0"
  with k obtain j where j: "k = Suc j" "ready X (polls X j ?c)" by auto
  note e = chip_erase [OF en(1,2) a j(2)]
  show "idle (snd (w25q_erase_sector X a c))" using e by (simp only: k(1) j(1))
  show "x div 4096 = a div 4096 \<Longrightarrow> cells (snd (w25q_erase_sector X a c)) x = 0xFF"
    using e by (simp only: k(1) j(1))
next
  fix c and a :: nat and bs :: "u8 list" and i x :: nat
  assume d: "idle c" and p: "a mod 256 + length bs \<le> 256" and a: "a < FLASH_END"
  let ?c = "snd (X ([W25Q_CMD_PAGE_PROGRAM] @ addr_bytes a @ bs) (write_enable X c))"
  have en: "idle (write_enable X c)" "armed (write_enable X c)" "cells (write_enable X c) = cells c"
    using chip_enable [OF d] by (simp_all add: write_enable_def)
  have short: "\<not> W25Q_PAGE_SIZE < length bs" using p by simp
  have eq: "bs \<noteq> [] \<Longrightarrow> w25q_program X a bs c = wait_not_busy X PROGRAM_TIMEOUT_LOOPS ?c"
    using short by (simp add: w25q_program_def)
  obtain k where k: "bs \<noteq> [] \<Longrightarrow> snd (w25q_program X a bs c) = polls X k ?c"
    "bs \<noteq> [] \<Longrightarrow> if fst (w25q_program X a bs c) = 0 then \<exists>j. k = Suc j \<and> ready X (polls X j ?c)
     else fst (w25q_program X a bs c) = -1"
    using wait_polls [of X PROGRAM_TIMEOUT_LOOPS ?c] eq by (metis (no_types, lifting))
  show "x < a \<or> a + length bs \<le> x \<Longrightarrow> cells (snd (w25q_program X a bs c)) x = cells c x"
    using chip_program_frame [OF en(1,2) a p] k(1) en(3)
    by (cases "bs = []") (simp_all add: w25q_program_def)
  assume rc: "fst (w25q_program X a bs c) = 0"
  then have ne: "bs \<noteq> []" by (auto simp: w25q_program_def)
  with k(2) rc obtain j where j: "k = Suc j" "ready X (polls X j ?c)" by auto
  note e = chip_program [OF en(1,2) a p ne j(2)]
  show "idle (snd (w25q_program X a bs c))" using e k(1) [OF ne] by (simp only: j(1))
  show "i < length bs \<Longrightarrow> cells (snd (w25q_program X a bs c)) (a + i) = cells c (a + i) AND bs ! i"
    using e k(1) [OF ne] en(3) by (simp only: j(1))
qed

end
