(* ===== verification/Pingpong.thy ===== *)
theory Pingpong
  imports Crc W25q
begin

text \<open>
  The two-slot record store, \<^verbatim>\<open>src/src/persist/pingpong.c\<close>: a record of 12 to 256 bytes with its
  counter at offset 4 and its CRC32 in the last four bytes lives in one of two flash sectors.
  \<open>slot_rec\<close> is what a slot holds, \<open>current\<close> the record the two slots stand for. The lemmas show
  that a load returns the current record, that a store which reports success makes its record
  current, and that until the new copy is verified nothing touches the old one.
\<close>

abbreviation (input) "COUNTER_OFF \<equiv> (4 :: nat)"

datatype pp_load = PP_ARG_ERROR | PP_LOADED "u8 list" nat u32 | PP_NONE
datatype pp_store = PP_STORED nat u32 | PP_FAIL int

definition record_ok :: "u8 list \<Rightarrow> bool" where
  "record_ok buf \<longleftrightarrow> le32_at buf (length buf - 4) = crc32 (take (length buf - 4) buf)"

definition read_and_validate :: "'c spi \<Rightarrow> nat \<Rightarrow> nat \<Rightarrow> 'c \<Rightarrow> u32 option \<times> u8 list \<times> 'c" where
  "read_and_validate X addr n c =
     (let (buf, c') = w25q_read X addr n c;
          stored_crc = le32_at buf (n - 4);
          expected = crc32 (take (n - 4) buf)
      in if stored_crc \<noteq> expected then (None, buf, c') else (Some (le32_at buf COUNTER_OFF), buf, c'))"

definition pingpong_load :: "'c spi \<Rightarrow> nat \<Rightarrow> nat \<Rightarrow> nat \<Rightarrow> 'c \<Rightarrow> pp_load \<times> 'c" where
  "pingpong_load X addr_a addr_b record_size c =
     (if record_size < 12 \<or> record_size > 256 then (PP_ARG_ERROR, c)
      else let (va, buf_a, c1) = read_and_validate X addr_a record_size c;
               (vb, buf_b, c2) = read_and_validate X addr_b record_size c1
           in (case va of
                 Some cnt_a \<Rightarrow>
                   (case vb of
                      None \<Rightarrow> (PP_LOADED buf_a 0 cnt_a, c2)
                    | Some cnt_b \<Rightarrow> if cnt_a \<ge> cnt_b then (PP_LOADED buf_a 0 cnt_a, c2)
                                   else (PP_LOADED buf_b 1 cnt_b, c2))
               | None \<Rightarrow> (case vb of Some cnt_b \<Rightarrow> (PP_LOADED buf_b 1 cnt_b, c2) | None \<Rightarrow> (PP_NONE, c2))))"

text \<open>Which slot is current, with its counter, from the two validity results.\<close>

fun newer :: "u32 option \<Rightarrow> u32 option \<Rightarrow> (nat \<times> u32) option" where
  "newer (Some a) (Some b) = (if a \<ge> b then Some (0, a) else Some (1, b))"
| "newer (Some a) None = Some (0, a)"
| "newer None (Some b) = Some (1, b)"
| "newer None None = None"

text \<open>The caller's buffer with the counter and the checksum stamped in.\<close>

definition stamp :: "u32 \<Rightarrow> u8 list \<Rightarrow> u8 list" where
  "stamp cnt r =
     (let r1 = put_bytes r COUNTER_OFF (le32_bytes cnt)
      in put_bytes r1 (length r - 4) (le32_bytes (crc32 (take (length r - 4) r1))))"

definition pingpong_store :: "'c spi \<Rightarrow> nat \<Rightarrow> nat \<Rightarrow> u8 list \<Rightarrow> 'c \<Rightarrow> pp_store \<times> u8 list \<times> 'c" where
  "pingpong_store X addr_a addr_b record c =
     (let record_size = length record in
      if record_size < 12 \<or> record_size > 256 then (PP_FAIL (-1), record, c)
      else
        let (va, _, c1) = read_and_validate X addr_a record_size c;
            (vb, _, c2) = read_and_validate X addr_b record_size c1;
            cur = newer va vb;
            cur_counter = (case cur of None \<Rightarrow> 0 | Some (_, n) \<Rightarrow> n);
            target_slot = (case cur of None \<Rightarrow> 0 | Some (s, _) \<Rightarrow> if s = 0 then 1 else 0);
            target_addr = (if target_slot = 0 then addr_a else addr_b);
            other_addr = (if target_slot = 0 then addr_b else addr_a);
            new_counter = cur_counter + 1;
            r = stamp new_counter record;
            (rc1, c3) = w25q_erase_sector X target_addr c2
        in if rc1 \<noteq> 0 then (PP_FAIL (-2), r, c3)
           else let (rc2, c4) = w25q_program X target_addr r c3
             in if rc2 \<noteq> 0 then (PP_FAIL (-3), r, c4)
                else let (scratch, c5) = w25q_read X target_addr record_size c4
                  in if scratch \<noteq> r then (PP_FAIL (-5), r, c5)
                     else if cur \<noteq> None
                     then let (rc3, c6) = w25q_erase_sector X other_addr c5
                          in if rc3 \<noteq> 0 then (PP_FAIL (-6), r, c6) else (PP_STORED target_slot new_counter, r, c6)
                     else (PP_STORED target_slot new_counter, r, c5))"

section \<open>What the two slots stand for\<close>

definition slot_rec :: "(nat \<Rightarrow> u8) \<Rightarrow> nat \<Rightarrow> nat \<Rightarrow> u8 list option" where
  "slot_rec mem addr n = (let buf = map mem [addr ..< addr + n] in if record_ok buf then Some buf else None)"

definition rec_counter :: "u8 list \<Rightarrow> u32" where
  "rec_counter buf = le32_at buf COUNTER_OFF"

definition current :: "(nat \<Rightarrow> u8) \<Rightarrow> nat \<Rightarrow> nat \<Rightarrow> nat \<Rightarrow> (u8 list \<times> nat) option" where
  "current mem a b n =
     (case slot_rec mem a n of
        Some ra \<Rightarrow> (case slot_rec mem b n of
            Some rb \<Rightarrow> if rec_counter ra \<ge> rec_counter rb then Some (ra, 0) else Some (rb, 1)
          | None \<Rightarrow> Some (ra, 0))
      | None \<Rightarrow> (case slot_rec mem b n of Some rb \<Rightarrow> Some (rb, 1) | None \<Rightarrow> None))"

text \<open>An erased slot is no record; this holds of the sizes in use.\<close>

definition blank_invalid :: "nat \<Rightarrow> bool" where
  "blank_invalid n \<longleftrightarrow> crc32 (replicate (n - 4) 0xFF) \<noteq> 0xFFFFFFFF"

text \<open>Two slots, each at the start of its own sector.\<close>

definition slots_ok :: "nat \<Rightarrow> nat \<Rightarrow> bool" where
  "slots_ok a b \<longleftrightarrow> a mod 4096 = 0 \<and> b mod 4096 = 0 \<and> a \<noteq> b \<and> a < FLASH_END \<and> b < FLASH_END"

lemma length_stamp: "12 \<le> length r \<Longrightarrow> length (stamp cnt r) = length r"
  by (simp add: stamp_def Let_def length_put_bytes)

lemma stamp_fields:
  assumes "12 \<le> length r"
  shows "record_ok (stamp cnt r)" "rec_counter (stamp cnt r) = cnt"
proof -
  let ?n = "length r"
  let ?r1 = "put_bytes r 4 (le32_bytes cnt)"
  have l1: "length ?r1 = ?n" using assms by (simp add: length_put_bytes)
  have st: "stamp cnt r = put_bytes ?r1 (?n - 4) (le32_bytes (crc32 (take (?n - 4) ?r1)))"
    by (simp add: stamp_def Let_def)
  have tk: "take (?n - 4) (stamp cnt r) = take (?n - 4) ?r1"
    using l1 unfolding st by (simp add: take_put_bytes_before)
  have "le32_at (stamp cnt r) (?n - 4) = crc32 (take (?n - 4) ?r1)"
    using le32_at_put_bytes [of "?n - 4" ?r1] l1 unfolding st by simp
  then show "record_ok (stamp cnt r)" using length_stamp [OF assms] tk by (simp add: record_ok_def)
  have e8: "8 \<le> ?n - 4" using assms by arith
  have "take 8 (stamp cnt r) = take 8 (take (?n - 4) (stamp cnt r))" by (simp add: min_absorb1 [OF e8])
  also have "\<dots> = take 8 (take (?n - 4) ?r1)" by (simp only: tk)
  also have "\<dots> = take 8 ?r1" by (simp add: min_absorb1 [OF e8])
  finally have eight: "take 8 (stamp cnt r) = take 8 ?r1" .
  have "le32_at (stamp cnt r) 4 = le32_at ?r1 4"
  proof (rule le32_at_cong)
    show "take 4 (drop 4 (stamp cnt r)) = take 4 (drop 4 ?r1)"
      using eight by (simp add: take_drop)
    show "4 + 4 \<le> length (stamp cnt r)" "4 + 4 \<le> length ?r1" using assms l1 length_stamp [OF assms] by simp_all
  qed
  also have "\<dots> = cnt" using assms by (intro le32_at_put_bytes) simp
  finally show "rec_counter (stamp cnt r) = cnt" by (simp add: rec_counter_def)
qed

lemma slot_rec_cong: "(\<And>x. addr \<le> x \<Longrightarrow> x < addr + n \<Longrightarrow> mem x = mem' x) \<Longrightarrow> slot_rec mem addr n = slot_rec mem' addr n"
proof -
  assume "\<And>x. addr \<le> x \<Longrightarrow> x < addr + n \<Longrightarrow> mem x = mem' x"
  then have "map mem [addr ..< addr + n] = map mem' [addr ..< addr + n]" by simp
  then show ?thesis by (simp only: slot_rec_def)
qed

lemma le32_at_blank: "le32_at (replicate n 0xFF) i = 0xFFFFFFFF" if "i + 4 \<le> n"
  using that by (simp add: le32_at_def)

lemma slot_blank:
  assumes "blank_at mem addr n" "12 \<le> n" "blank_invalid n"
  shows "slot_rec mem addr n = None"
proof -
  have "map mem [addr ..< addr + n] = replicate n 0xFF"
    using assms(1) by (auto intro!: nth_equalityI simp: blank_at_def)
  moreover have "\<not> record_ok (replicate n 0xFF)"
    using assms(2,3) le32_at_blank [of "n - 4" n] by (simp add: record_ok_def blank_invalid_def min_def)
  ultimately show ?thesis by (simp add: slot_rec_def)
qed

lemma sector_of_slot:
  fixes a x :: nat
  assumes "a mod 4096 = 0" "a \<le> x" "x < a + 256"
  shows "x div 4096 = a div 4096"
proof -
  obtain k where k: "a = 4096 * k" using assms(1) by auto
  obtain i where "x = a + i" "i < 256" using assms(2,3) by (metis add_less_cancel_left le_Suc_ex)
  with k show ?thesis by simp
qed

lemma sectors_differ: "slots_ok a b \<Longrightarrow> a div 4096 \<noteq> b div 4096"
  unfolding slots_ok_def by (metis div_mult_mod_eq add.right_neutral)

lemma sector_end:
  fixes a n :: nat
  assumes "a mod 4096 = 0" "a < FLASH_END" "n \<le> 4096"
  shows "a + n \<le> FLASH_END"
proof -
  obtain k where k: "a = 4096 * k" using assms(1) by auto
  with assms(2) have "k \<le> 4095" by simp
  with k assms(3) show ?thesis by simp
qed

lemma slots_end: "slots_ok a b \<Longrightarrow> n \<le> 256 \<Longrightarrow> a + n \<le> FLASH_END" "slots_ok a b \<Longrightarrow> n \<le> 256 \<Longrightarrow> b + n \<le> FLASH_END"
  by (auto simp: slots_ok_def intro!: sector_end)

section \<open>Loads and stores over a documented chip\<close>

definition counter_of :: "u8 list option \<Rightarrow> u32 option" where
  "counter_of r = map_option rec_counter r"

context w25q_chip
begin

lemma validate_spec:
  assumes "idle c" "a + n \<le> FLASH_END" "12 \<le> n"
  shows "fst (read_and_validate X a n c) = counter_of (slot_rec (cells c) a n)"
    "fst (snd (read_and_validate X a n c)) = map (cells c) [a ..< a + n]"
    "idle (snd (snd (read_and_validate X a n c)))" "cells (snd (snd (read_and_validate X a n c))) = cells c"
  using rd_data [OF assms(1,2)] rd_idle [OF assms(1,2)] rd_keeps [OF assms(1,2)] assms(3)
  by (auto simp: read_and_validate_def case_prod_unfold Let_def slot_rec_def record_ok_def counter_of_def rec_counter_def)

text \<open>A load returns the current record, and changes nothing.\<close>

lemma load_current:
  assumes "idle c" "slots_ok a b" "12 \<le> n" "n \<le> 256"
  shows "fst (pingpong_load X a b n c) =
      (case current (cells c) a b n of None \<Rightarrow> PP_NONE | Some (r, s) \<Rightarrow> PP_LOADED r s (rec_counter r))"
    "idle (snd (pingpong_load X a b n c))" "cells (snd (pingpong_load X a b n c)) = cells c"
proof -
  note ends = slots_end [OF assms(2,4)]
  obtain va ba c1 where r1: "read_and_validate X a n c = (va, ba, c1)" by (cases "read_and_validate X a n c")
  obtain vb bb c2 where r2: "read_and_validate X b n c1 = (vb, bb, c2)" by (cases "read_and_validate X b n c1")
  note v1 = validate_spec [OF assms(1) ends(1) assms(3), unfolded r1 fst_conv snd_conv]
  note v2 = validate_spec [OF v1(3) ends(2) assms(3), unfolded r2 fst_conv snd_conv v1(4)]
  have ld: "pingpong_load X a b n c =
      (case va of
         Some cnt_a \<Rightarrow> (case vb of None \<Rightarrow> (PP_LOADED ba 0 cnt_a, c2)
            | Some cnt_b \<Rightarrow> if cnt_a \<ge> cnt_b then (PP_LOADED ba 0 cnt_a, c2) else (PP_LOADED bb 1 cnt_b, c2))
       | None \<Rightarrow> (case vb of Some cnt_b \<Rightarrow> (PP_LOADED bb 1 cnt_b, c2) | None \<Rightarrow> (PP_NONE, c2)))"
    using assms(3,4) by (simp add: pingpong_load_def r1 r2)
  have sa: "slot_rec (cells c) a n = Some ra \<Longrightarrow> ba = ra" for ra
    using v1(2) by (auto simp: slot_rec_def Let_def split: if_splits)
  have sb: "slot_rec (cells c) b n = Some rb \<Longrightarrow> bb = rb" for rb
    using v2(2) by (auto simp: slot_rec_def Let_def split: if_splits)
  show "fst (pingpong_load X a b n c) =
      (case current (cells c) a b n of None \<Rightarrow> PP_NONE | Some (r, s) \<Rightarrow> PP_LOADED r s (rec_counter r))"
    using v1(1) v2(1) sa sb unfolding ld
    by (auto simp: current_def counter_of_def split: option.splits)
  show "idle (snd (pingpong_load X a b n c))" "cells (snd (pingpong_load X a b n c)) = cells c"
    using v2(3,4) unfolding ld by (auto split: option.splits)
qed

end

text \<open>The slot the next store writes and the counter it stamps.\<close>

definition next_slot :: "(u8 list \<times> nat) option \<Rightarrow> nat" where
  "next_slot cur = (case cur of None \<Rightarrow> 0 | Some (_, s) \<Rightarrow> if s = 0 then 1 else 0)"

definition next_counter :: "(u8 list \<times> nat) option \<Rightarrow> u32" where
  "next_counter cur = (case cur of None \<Rightarrow> 0 | Some (r, _) \<Rightarrow> rec_counter r) + 1"

lemma newer_current:
  "newer (counter_of (slot_rec mem a n)) (counter_of (slot_rec mem b n)) =
     map_option (\<lambda>(r, s). (s, rec_counter r)) (current mem a b n)"
  by (auto simp: current_def counter_of_def split: option.split)

lemma current_slots:
  "current mem a b n = Some (r, s) \<Longrightarrow> (s = 0 \<and> slot_rec mem a n = Some r) \<or> (s = 1 \<and> slot_rec mem b n = Some r)"
  by (auto simp: current_def split: option.splits if_splits)

lemma current_some: "current mem a b n \<noteq> None \<longleftrightarrow> slot_rec mem a n \<noteq> None \<or> slot_rec mem b n \<noteq> None"
  by (auto simp: current_def split: option.split)

definition slot_addr :: "nat \<Rightarrow> nat \<Rightarrow> nat \<Rightarrow> nat" where
  "slot_addr a b s = (if s = 0 then a else b)"

text \<open>What a store leaves, by its result: \<open>t\<close> is the target slot, \<open>s'\<close> the stamped record.\<close>

definition store_post :: "(nat \<Rightarrow> u8) \<Rightarrow> (nat \<Rightarrow> u8) \<Rightarrow> nat \<Rightarrow> nat \<Rightarrow> u8 list \<Rightarrow> pp_store \<Rightarrow> bool" where
  "store_post mem mem' a b r' res \<longleftrightarrow>
     (let cur = current mem a b (length r'); t = slot_addr a b (next_slot cur); u = slot_addr b a (next_slot cur)
      in (case res of
            PP_STORED s cnt \<Rightarrow> s = next_slot cur \<and> cnt = next_counter cur \<and> slot_rec mem' t (length r') = Some r' \<and>
              slot_rec mem' u (length r') = None
          | PP_FAIL rc \<Rightarrow>
              if rc = -6 then slot_rec mem' t (length r') = Some r'
              else rc \<in> {-2, -3, -5} \<and> slot_rec mem' u (length r') = slot_rec mem u (length r')))"

context w25q_chip
begin

lemma erase_slot:
  assumes "idle c" "slots_ok a b" "n \<le> 256" "12 \<le> n" "blank_invalid n"
  shows "slot_rec (cells (snd (w25q_erase_sector X a c))) b n = slot_rec (cells c) b n"
    "fst (w25q_erase_sector X a c) = 0 \<Longrightarrow> slot_rec (cells (snd (w25q_erase_sector X a c))) a n = None"
proof -
  have a: "a < FLASH_END" "a mod 4096 = 0" "b mod 4096 = 0" using assms(2) by (simp_all add: slots_ok_def)
  show "slot_rec (cells (snd (w25q_erase_sector X a c))) b n = slot_rec (cells c) b n"
  proof (rule slot_rec_cong)
    fix x assume "b \<le> x" "x < b + n"
    then have "x div 4096 = b div 4096" using a(3) assms(3) by (intro sector_of_slot) simp_all
    then show "cells (snd (w25q_erase_sector X a c)) x = cells c x"
      using er_frame [OF assms(1) a(1)] sectors_differ [OF assms(2)] by simp
  qed
  assume rc: "fst (w25q_erase_sector X a c) = 0"
  have "blank_at (cells (snd (w25q_erase_sector X a c))) a n"
    unfolding blank_at_def
  proof (intro allI impI)
    fix i assume "i < n"
    then have "(a + i) div 4096 = a div 4096" using a(2) assms(3) by (intro sector_of_slot) simp_all
    then show "cells (snd (w25q_erase_sector X a c)) (a + i) = 0xFF"
      by (rule er_blank [OF assms(1) a(1) rc])
  qed
  then show "slot_rec (cells (snd (w25q_erase_sector X a c))) a n = None"
    using assms(4,5) by (rule slot_blank)
qed

lemma program_slot:
  assumes "idle c" "slots_ok a b" "length r \<le> 256"
  shows "slot_rec (cells (snd (w25q_program X a r c))) b (length r) = slot_rec (cells c) b (length r)"
proof (rule slot_rec_cong)
  fix x assume x: "b \<le> x" "x < b + length r"
  have a: "a < FLASH_END" "a mod 256 = 0" "a mod 4096 = 0" "b mod 4096 = 0"
    using assms(2) by (auto simp: slots_ok_def)
  have "x div 4096 = b div 4096" using x a(4) assms(3) by (intro sector_of_slot) simp_all
  then have "\<not> (a \<le> x \<and> x < a + 256)" using sector_of_slot [of a x] a(3) sectors_differ [OF assms(2)] by auto
  then have out: "x < a \<or> a + length r \<le> x" using assms(3) by auto
  show "cells (snd (w25q_program X a r c)) x = cells c x"
    by (rule pr_frame [OF assms(1) _ a(1) out]) (simp add: a(2) assms(3))
qed

text \<open>The body of a store, once the two slots have been read.\<close>

lemma store_unfold:
  assumes "idle c" "slots_ok a b" "12 \<le> length r" "length r \<le> 256"
  defines "cur \<equiv> current (cells c) a b (length r)"
  defines "t \<equiv> slot_addr a b (next_slot cur)" and "u \<equiv> slot_addr b a (next_slot cur)"
  defines "r' \<equiv> stamp (next_counter cur) r"
  obtains c2 where "idle c2" "cells c2 = cells c" "pingpong_store X a b r c =
     (let (rc1, c3) = w25q_erase_sector X t c2
      in if rc1 \<noteq> 0 then (PP_FAIL (-2), r', c3)
         else let (rc2, c4) = w25q_program X t r' c3
           in if rc2 \<noteq> 0 then (PP_FAIL (-3), r', c4)
              else let (scratch, c5) = w25q_read X t (length r) c4
                in if scratch \<noteq> r' then (PP_FAIL (-5), r', c5)
                   else if cur \<noteq> None
                   then let (rc3, c6) = w25q_erase_sector X u c5
                        in if rc3 \<noteq> 0 then (PP_FAIL (-6), r', c6)
                           else (PP_STORED (next_slot cur) (next_counter cur), r', c6)
                   else (PP_STORED (next_slot cur) (next_counter cur), r', c5))"
proof -
  let ?n = "length r"
  note ends = slots_end [OF assms(2,4)]
  obtain va ba c1 where r1: "read_and_validate X a ?n c = (va, ba, c1)" by (cases "read_and_validate X a ?n c")
  obtain vb bb c2 where r2: "read_and_validate X b ?n c1 = (vb, bb, c2)" by (cases "read_and_validate X b ?n c1")
  note v1 = validate_spec [OF assms(1) ends(1) assms(3), unfolded r1 fst_conv snd_conv]
  note v2 = validate_spec [OF v1(3) ends(2) assms(3), unfolded r2 fst_conv snd_conv v1(4)]
  have nw: "newer va vb = map_option (\<lambda>(r, s). (s, rec_counter r)) cur"
    unfolding cur_def v1(1) v2(1) by (rule newer_current)
  show thesis
    by (rule that [OF v2(3) v2(4)])
      (cases cur, use assms(3,4) in \<open>auto simp: pingpong_store_def r1 r2 nw t_def u_def r'_def slot_addr_def
         next_slot_def next_counter_def Let_def case_prod_unfold\<close>)
qed

lemma store_spec:
  assumes "idle c" "slots_ok a b" "12 \<le> length r" "length r \<le> 256" "blank_invalid (length r)"
    and st: "pingpong_store X a b r c = (res, r', c')"
  shows "r' = stamp (next_counter (current (cells c) a b (length r))) r"
    "store_post (cells c) (cells c') a b r' res" "res = PP_STORED s k \<Longrightarrow> idle c'"
proof -
  let ?n = "length r"
  define cur where "cur = current (cells c) a b ?n"
  define t where "t = slot_addr a b (next_slot cur)"
  define u where "u = slot_addr b a (next_slot cur)"
  define q where "q = stamp (next_counter cur) r"
  have tu: "slots_ok t u" "slots_ok u t" using assms(2) by (auto simp: t_def u_def slot_addr_def slots_ok_def)
  have t: "t < FLASH_END" "t mod 256 = 0" using tu(1) by (auto simp: slots_ok_def)
  have q: "length q = ?n" "record_ok q" using assms(3) by (simp_all add: q_def length_stamp stamp_fields)
  note ends = slots_end [OF tu(1) assms(4)]
  obtain c2 where c2: "idle c2" "cells c2 = cells c" and eq: "pingpong_store X a b r c =
     (let (rc1, c3) = w25q_erase_sector X t c2
      in if rc1 \<noteq> 0 then (PP_FAIL (-2), q, c3)
         else let (rc2, c4) = w25q_program X t q c3
           in if rc2 \<noteq> 0 then (PP_FAIL (-3), q, c4)
              else let (scratch, c5) = w25q_read X t ?n c4
                in if scratch \<noteq> q then (PP_FAIL (-5), q, c5)
                   else if cur \<noteq> None
                   then let (rc3, c6) = w25q_erase_sector X u c5
                        in if rc3 \<noteq> 0 then (PP_FAIL (-6), q, c6)
                           else (PP_STORED (next_slot cur) (next_counter cur), q, c6)
                   else (PP_STORED (next_slot cur) (next_counter cur), q, c5))"
    using store_unfold [OF assms(1-4)] unfolding cur_def t_def u_def q_def by blast
  obtain rc1 c3 where e1: "w25q_erase_sector X t c2 = (rc1, c3)" by (cases "w25q_erase_sector X t c2")
  obtain rc2 c4 where p2: "w25q_program X t q c3 = (rc2, c4)" by (cases "w25q_program X t q c3")
  obtain scratch c5 where r3: "w25q_read X t ?n c4 = (scratch, c5)" by (cases "w25q_read X t ?n c4")
  obtain rc3 c6 where e4: "w25q_erase_sector X u c5 = (rc3, c6)" by (cases "w25q_erase_sector X u c5")
  note run = st [unfolded eq e1 Let_def prod.case p2 r3 e4]
  have r': "r' = q" using run by (auto split: if_splits)
  then show "r' = stamp (next_counter (current (cells c) a b (length r))) r" by (simp add: q_def cur_def)
  have k1: "slot_rec (cells c3) u ?n = slot_rec (cells c) u ?n"
    using erase_slot(1) [OF c2(1) tu(1) assms(4,3,5)] by (simp add: e1 c2(2))
  have i3: "rc1 = 0 \<Longrightarrow> idle c3" using er_idle [OF c2(1) t(1)] by (simp add: e1)
  have k2: "rc1 = 0 \<Longrightarrow> slot_rec (cells c4) u ?n = slot_rec (cells c) u ?n"
    using program_slot [OF i3 tu(1), of q] assms(4) k1 by (simp add: p2 q(1))
  have i4: "rc1 = 0 \<Longrightarrow> rc2 = 0 \<Longrightarrow> idle c4"
    using pr_idle [OF i3 _ t(1)] assms(4) t(2) q(1) p2 by (metis add_0 fst_conv snd_conv)
  have k3: "rc1 = 0 \<Longrightarrow> rc2 = 0 \<Longrightarrow> cells c5 = cells c4 \<and> idle c5 \<and> scratch = map (cells c4) [t ..< t + ?n]"
    using rd_keeps [OF i4 ends(1)] rd_idle [OF i4 ends(1)] rd_data [OF i4 ends(1)] by (simp add: r3)
  have k4: "rc1 = 0 \<Longrightarrow> rc2 = 0 \<Longrightarrow> scratch = q \<Longrightarrow> slot_rec (cells c5) t ?n = Some q"
    using k3 q(2) by (simp add: slot_rec_def)
  have k5: "rc1 = 0 \<Longrightarrow> rc2 = 0 \<Longrightarrow> slot_rec (cells c6) t ?n = slot_rec (cells c5) t ?n"
    using erase_slot(1) [OF _ tu(2) assms(4,3,5)] k3 e4 by (metis snd_conv)
  have k6: "rc1 = 0 \<Longrightarrow> rc2 = 0 \<Longrightarrow> rc3 = 0 \<Longrightarrow> slot_rec (cells c6) u ?n = None \<and> idle c6"
    using erase_slot(2) [OF _ tu(2) assms(4,3,5)] er_idle [of c5 u] tu(2) k3 e4
    by (metis fst_conv snd_conv slots_ok_def)
  have none: "cur = None \<Longrightarrow> slot_rec (cells c) u ?n = None"
    using current_some [of "cells c" a b ?n] unfolding cur_def u_def slot_addr_def by (auto split: if_splits)
  have len: "length r' = ?n" by (simp add: r' q(1))
  show "store_post (cells c) (cells c') a b r' res"
    unfolding store_post_def Let_def len cur_def [symmetric] t_def [symmetric] u_def [symmetric]
    using run k1 k2 k3 k4 k5 k6 none r' by (cases cur) (auto split: if_splits)
  assume "res = PP_STORED s k"
  then show "idle c'" using run k3 k6 by (auto split: if_splits)
qed

text \<open>A store touches no sector but its two, whatever its result.\<close>

lemma store_frame:
  assumes "idle c" "slots_ok a b" "12 \<le> length r" "length r \<le> 256" "pingpong_store X a b r c = (res, r', c')"
    and "x div 4096 \<noteq> a div 4096" "x div 4096 \<noteq> b div 4096"
  shows "cells c' x = cells c x"
proof -
  let ?n = "length r"
  define cur where "cur = current (cells c) a b ?n"
  define t where "t = slot_addr a b (next_slot cur)"
  define u where "u = slot_addr b a (next_slot cur)"
  define q where "q = stamp (next_counter cur) r"
  have tu: "slots_ok t u" "slots_ok u t" using assms(2) by (auto simp: t_def u_def slot_addr_def slots_ok_def)
  have t: "t < FLASH_END" "u < FLASH_END" "t mod 256 = 0" "t mod 4096 = 0" using tu(1) by (auto simp: slots_ok_def)
  have q: "length q = ?n" using assms(3) by (simp add: q_def length_stamp)
  have x: "x div 4096 \<noteq> t div 4096" "x div 4096 \<noteq> u div 4096" using assms(6,7) by (simp_all add: t_def u_def slot_addr_def)
  have out: "x < t \<or> t + ?n \<le> x" using sector_of_slot [OF t(4), of x] x(1) assms(4) by linarith
  note ends = slots_end [OF tu(1) assms(4)]
  from store_unfold [OF assms(1-4)] obtain c2 where c2: "idle c2" "cells c2 = cells c" and eq: "pingpong_store X a b r c =
     (let (rc1, c3) = w25q_erase_sector X t c2
      in if rc1 \<noteq> 0 then (PP_FAIL (-2), q, c3)
         else let (rc2, c4) = w25q_program X t q c3
           in if rc2 \<noteq> 0 then (PP_FAIL (-3), q, c4)
              else let (scratch, c5) = w25q_read X t ?n c4
                in if scratch \<noteq> q then (PP_FAIL (-5), q, c5)
                   else if cur \<noteq> None
                   then let (rc3, c6) = w25q_erase_sector X u c5
                        in if rc3 \<noteq> 0 then (PP_FAIL (-6), q, c6)
                           else (PP_STORED (next_slot cur) (next_counter cur), q, c6)
                   else (PP_STORED (next_slot cur) (next_counter cur), q, c5))"
    unfolding cur_def t_def u_def q_def by blast
  obtain rc1 c3 where e1: "w25q_erase_sector X t c2 = (rc1, c3)" by (cases "w25q_erase_sector X t c2")
  obtain rc2 c4 where p2: "w25q_program X t q c3 = (rc2, c4)" by (cases "w25q_program X t q c3")
  obtain scratch c5 where r3: "w25q_read X t ?n c4 = (scratch, c5)" by (cases "w25q_read X t ?n c4")
  obtain rc3 c6 where e4: "w25q_erase_sector X u c5 = (rc3, c6)" by (cases "w25q_erase_sector X u c5")
  note run = assms(5) [unfolded eq e1 Let_def prod.case p2 r3 e4]
  have k3: "cells c3 x = cells c x" using er_frame [OF c2(1) t(1) x(1)] by (simp add: e1 c2(2))
  have i3: "rc1 = 0 \<Longrightarrow> idle c3" using er_idle [OF c2(1) t(1)] by (simp add: e1)
  have pg: "t mod 256 + length q \<le> 256" using assms(4) t(3) q by simp
  have k4: "rc1 = 0 \<Longrightarrow> cells c4 x = cells c x"
    using pr_frame [OF i3 pg t(1), of x] out k3 by (simp add: p2 q)
  have i4: "rc1 = 0 \<Longrightarrow> rc2 = 0 \<Longrightarrow> idle c4" using pr_idle [OF i3 pg t(1)] by (simp add: p2)
  have k5: "rc1 = 0 \<Longrightarrow> rc2 = 0 \<Longrightarrow> cells c5 x = cells c x \<and> idle c5"
    using rd_keeps [OF i4 ends(1)] rd_idle [OF i4 ends(1)] k4 by (simp add: r3)
  have k6: "rc1 = 0 \<Longrightarrow> rc2 = 0 \<Longrightarrow> cells c6 x = cells c x"
    using er_frame [of c5 u x] t(2) x(2) k5 by (simp add: e4)
  show ?thesis using run k3 k4 k5 k6 by (auto split: if_splits)
qed

text \<open>A store that reports success is what the next load returns.\<close>

lemma store_load:
  assumes "idle c" "slots_ok a b" "12 \<le> length r" "length r \<le> 256" "blank_invalid (length r)"
    and st: "pingpong_store X a b r c = (PP_STORED s k, r', c')"
  shows "fst (pingpong_load X a b (length r) c') = PP_LOADED r' s k" "idle c'"
    "r' = stamp k r" "k = next_counter (current (cells c) a b (length r))"
    "current (cells c') a b (length r) = Some (r', s)"
proof -
  note sp = store_spec [OF assms]
  show i: "idle c'" using sp(3) by simp
  have len: "length r' = length r" using sp(1) assms(3) by (simp add: length_stamp)
  have post: "s = next_slot (current (cells c) a b (length r))" "k = next_counter (current (cells c) a b (length r))"
    "slot_rec (cells c') (slot_addr a b s) (length r) = Some r'" "slot_rec (cells c') (slot_addr b a s) (length r) = None"
    using sp(2) unfolding store_post_def len Let_def by auto
  show k: "k = next_counter (current (cells c) a b (length r))" by (rule post(2))
  show r': "r' = stamp k r" using sp(1) by (simp add: k)
  have "s = 0 \<or> s = 1" using post(1) by (auto simp: next_slot_def split: option.split)
  then show cur: "current (cells c') a b (length r) = Some (r', s)"
    using post(3,4) by (auto simp: current_def slot_addr_def)
  show "fst (pingpong_load X a b (length r) c') = PP_LOADED r' s k"
    using load_current(1) [OF i assms(2-4)] stamp_fields(2) [OF assms(3)] by (simp add: cur r')
qed

text \<open>On a device that completes its operations a store succeeds.\<close>

lemma program_verifies:
  assumes "idle c" "a < FLASH_END" "a mod 256 = 0" "length r \<le> 256" "fst (w25q_program X a r c) = 0"
    "blank_at (cells c) a (length r)"
  shows "map (cells (snd (w25q_program X a r c))) [a ..< a + length r] = r"
  using pr_blank [OF assms(1) _ assms(2,5,6)] assms(3,4) by simp

lemma store_succeeds:
  assumes "idle c" "slots_ok a b" "12 \<le> length r" "length r \<le> 256" "blank_invalid (length r)"
    and er: "\<And>t d. idle d \<Longrightarrow> fst (w25q_erase_sector X t d) = 0"
    and pr: "\<And>t q d. idle d \<Longrightarrow> 0 < length q \<Longrightarrow> length q \<le> 256 \<Longrightarrow> fst (w25q_program X t q d) = 0"
  shows "\<exists>s k r' c'. pingpong_store X a b r c = (PP_STORED s k, r', c')"
proof -
  let ?n = "length r"
  define cur where "cur = current (cells c) a b ?n"
  define t where "t = slot_addr a b (next_slot cur)"
  define u where "u = slot_addr b a (next_slot cur)"
  define q where "q = stamp (next_counter cur) r"
  have tu: "slots_ok t u" "slots_ok u t" using assms(2) by (auto simp: t_def u_def slot_addr_def slots_ok_def)
  have t: "t < FLASH_END" "t mod 256 = 0" "t mod 4096 = 0" using tu(1) by (auto simp: slots_ok_def)
  have q: "length q = ?n" using assms(3) by (simp_all add: q_def length_stamp)
  note ends = slots_end [OF tu(1) assms(4)]
  from store_unfold [OF assms(1-4)]
  obtain c2 where c2: "idle c2" "cells c2 = cells c" and eq: "pingpong_store X a b r c =
     (let (rc1, c3) = w25q_erase_sector X t c2
      in if rc1 \<noteq> 0 then (PP_FAIL (-2), q, c3)
         else let (rc2, c4) = w25q_program X t q c3
           in if rc2 \<noteq> 0 then (PP_FAIL (-3), q, c4)
              else let (scratch, c5) = w25q_read X t ?n c4
                in if scratch \<noteq> q then (PP_FAIL (-5), q, c5)
                   else if cur \<noteq> None
                   then let (rc3, c6) = w25q_erase_sector X u c5
                        in if rc3 \<noteq> 0 then (PP_FAIL (-6), q, c6)
                           else (PP_STORED (next_slot cur) (next_counter cur), q, c6)
                   else (PP_STORED (next_slot cur) (next_counter cur), q, c5))"
    unfolding cur_def t_def u_def q_def by blast
  obtain c3 where e1: "w25q_erase_sector X t c2 = (0, c3)"
    using er [OF c2(1), of t] by (metis prod.collapse)
  have i3: "idle c3" using er_idle [OF c2(1) t(1)] by (simp add: e1)
  have blank: "blank_at (cells c3) t ?n"
    unfolding blank_at_def
  proof (intro allI impI)
    fix i assume "i < ?n"
    then have "(t + i) div 4096 = t div 4096" using t(3) assms(4) by (intro sector_of_slot) simp_all
    then show "cells c3 (t + i) = 0xFF" using er_blank [OF c2(1) t(1)] by (simp add: e1)
  qed
  obtain c4 where p2: "w25q_program X t q c3 = (0, c4)"
    using pr [OF i3, of q t] assms(3,4) q by (metis prod.collapse le_trans not_numeral_le_zero not_gr_zero)
  have i4: "idle c4" using pr_idle [OF i3 _ t(1), of q] assms(4) t(2) q p2 by simp
  have ver: "map (cells c4) [t ..< t + ?n] = q"
    using program_verifies [OF i3 t(1,2), of q] blank assms(4) q p2 by simp
  obtain c5 where r3: "w25q_read X t ?n c4 = (q, c5)" "idle c5"
    using rd_data [OF i4 ends(1)] rd_idle [OF i4 ends(1)] ver by (metis prod.collapse)
  obtain c6 where e4: "w25q_erase_sector X u c5 = (0, c6)"
    using er [OF r3(2), of u] by (metis prod.collapse)
  show ?thesis unfolding eq by (cases cur) (simp_all add: e1 p2 r3(1) e4)
qed

end

text \<open>The sizes of the records that live in a slot pair.\<close>

lemma blank_invalid_32: "blank_invalid 32"
  by (simp add: blank_invalid_def crc_eval replicate_num)

lemma blank_invalid_128: "blank_invalid 128"
  by (simp add: blank_invalid_def crc_eval replicate_num)

definition pp_rc :: "pp_store \<Rightarrow> int" where
  "pp_rc res = (case res of PP_STORED _ _ \<Rightarrow> 0 | PP_FAIL rc \<Rightarrow> rc)"

text \<open>The stamp changes the counter and checksum fields only.\<close>

lemma stamp_nth:
  assumes "12 \<le> length r" "i < 4 \<or> 8 \<le> i" "i < length r - 4"
  shows "stamp cnt r ! i = r ! i"
  using assms by (auto simp: stamp_def Let_def put_bytes_def nth_append length_put_bytes min_def)

text \<open>All records share the envelope: four bytes, the counter, the body, the checksum.\<close>

lemma stamp_layout:
  assumes "length h = 4"
  shows "stamp k (h @ le32_bytes x @ b @ le32_bytes y) =
    h @ le32_bytes k @ b @ le32_bytes (crc32 (h @ le32_bytes k @ b))"
proof -
  have "put_bytes (h @ le32_bytes x @ b @ le32_bytes y) 4 (le32_bytes k) = h @ le32_bytes k @ b @ le32_bytes y"
    using assms by (simp add: put_bytes_def)
  then show ?thesis using assms by (simp add: stamp_def Let_def put_bytes_def)
qed

end
