(* ===== verification/Slot_Record.thy ===== *)
theory Slot_Record
  imports Pingpong Records
begin

text \<open>
  A typed record in a slot pair: what boot_config.c, crash_state.c, calibration.c and rfid_authlist.c
  have in common. \<open>slot_codec\<close> is the interface of a packed struct (its bytes, the view of bytes as
  the struct, and the struct with counter and checksum stamped in); \<open>record_store\<close> puts it over a
  documented flash device and gives each module the same three facts: what a store leaves in RAM and
  in flash, that it succeeds on a device that completes its operations, and what a load returns.
\<close>

definition rec_put :: "'c spi \<Rightarrow> nat \<Rightarrow> nat \<Rightarrow> ('r \<Rightarrow> u8 list) \<Rightarrow> (u8 list \<Rightarrow> 'r) \<Rightarrow> 'r \<Rightarrow> 'c \<Rightarrow> int \<times> 'r \<times> 'c" where
  "rec_put X a b enc dec r c = (let (res, r', c') = pingpong_store X a b (enc r) c in (pp_rc res, dec r', c'))"

definition in_flash :: "(u8 list \<Rightarrow> 'r) \<Rightarrow> nat \<Rightarrow> nat \<Rightarrow> nat \<Rightarrow> (nat \<Rightarrow> u8) \<Rightarrow> 'r option" where
  "in_flash dec a b n mem = map_option (\<lambda>(r, _). dec r) (current mem a b n)"

text \<open>The device completes its erases and programs.\<close>

definition completes :: "'c spi \<Rightarrow> ('c \<Rightarrow> bool) \<Rightarrow> bool" where
  "completes X idle \<longleftrightarrow> (\<forall>t d. idle d \<longrightarrow> fst (w25q_erase_sector X t d) = 0) \<and>
     (\<forall>t q d. idle d \<longrightarrow> 0 < length q \<longrightarrow> length q \<le> 256 \<longrightarrow> fst (w25q_program X t q d) = 0)"

text \<open>An operation changes the content of the given sectors only.\<close>

definition only_touches :: "('c \<Rightarrow> nat \<Rightarrow> u8) \<Rightarrow> nat set \<Rightarrow> 'c \<Rightarrow> 'c \<Rightarrow> bool" where
  "only_touches cells S c c' \<longleftrightarrow> (\<forall>x. x div 4096 \<notin> S \<longrightarrow> cells c' x = cells c x)"

lemma touches_refl: "only_touches cells S c c"
  by (simp add: only_touches_def)

lemma touches_same: "cells c' = cells c \<Longrightarrow> only_touches cells S c c'"
  by (simp add: only_touches_def)

lemma touches_trans: "only_touches cells S c c' \<Longrightarrow> only_touches cells S c' c'' \<Longrightarrow> only_touches cells S c c''"
  by (simp add: only_touches_def)

lemma touches_mono: "only_touches cells S c c' \<Longrightarrow> S \<subseteq> T \<Longrightarrow> only_touches cells T c c'"
  by (auto simp: only_touches_def)

locale slot_codec =
  fixes enc :: "'r \<Rightarrow> u8 list" and dec :: "u8 list \<Rightarrow> 'r" and wf :: "'r \<Rightarrow> bool" and seal :: "u32 \<Rightarrow> 'r \<Rightarrow> 'r"
    and a b n :: nat
  assumes slots: "slots_ok a b"
    and bounds: "12 \<le> n" "n \<le> 256"
    and blank: "blank_invalid n"
    and enc_length: "wf r \<Longrightarrow> length (enc r) = n"
    and dec_enc: "wf r \<Longrightarrow> dec (enc r) = r"
    and dec_wf: "length p = n \<Longrightarrow> wf (dec p)"
    and enc_stamp: "wf r \<Longrightarrow> stamp k (enc r) = enc (seal k r)"
    and seal_wf: "wf r \<Longrightarrow> wf (seal k r)"

locale record_store = w25q_chip X cells idle armed + slot_codec enc dec wf seal a b n
  for X :: "'c spi" and cells :: "'c \<Rightarrow> nat \<Rightarrow> u8" and idle armed :: "'c \<Rightarrow> bool"
    and enc :: "'r \<Rightarrow> u8 list" and dec :: "u8 list \<Rightarrow> 'r" and wf :: "'r \<Rightarrow> bool" and seal :: "u32 \<Rightarrow> 'r \<Rightarrow> 'r"
    and a b n :: nat
begin

lemma put_spec:
  assumes "idle c" "wf r" "rec_put X a b enc dec r c = (rc, r', c')"
  shows "\<exists>k. r' = seal k r" "wf r'" "rc = 0 \<Longrightarrow> idle c' \<and> in_flash dec a b n (cells c') = Some r'"
    "rc \<in> {0, -2, -3, -5, -6}"
proof -
  obtain res q where st: "pingpong_store X a b (enc r) c = (res, q, c')" and rc: "rc = pp_rc res" and r': "r' = dec q"
    using assms(3) by (auto simp: rec_put_def Let_def split: prod.splits)
  have len: "length (enc r) = n" by (rule enc_length [OF assms(2)])
  have bd: "12 \<le> length (enc r)" "length (enc r) \<le> 256" "blank_invalid (length (enc r))"
    using bounds blank by (simp_all add: len)
  note sp = store_spec [OF assms(1) slots bd st]
  have q: "q = enc (seal (next_counter (current (cells c) a b n)) r)"
    using sp(1) by (simp add: len enc_stamp [OF assms(2)])
  then have eq: "r' = seal (next_counter (current (cells c) a b n)) r"
    by (simp add: r' dec_enc [OF seal_wf [OF assms(2)]])
  then show "\<exists>k. r' = seal k r" "wf r'" using seal_wf [OF assms(2)] by auto
  show "rc \<in> {0, -2, -3, -5, -6}"
    using sp(2) by (auto simp: rc store_post_def pp_rc_def Let_def split: pp_store.splits if_splits)
  assume "rc = 0"
  then obtain s k where "res = PP_STORED s k"
    using sp(2) by (auto simp: rc store_post_def pp_rc_def Let_def split: pp_store.splits if_splits)
  with st have st: "pingpong_store X a b (enc r) c = (PP_STORED s k, q, c')" by simp
  show "idle c' \<and> in_flash dec a b n (cells c') = Some r'"
    using store_load(2,5) [OF assms(1) slots bd st] by (simp add: in_flash_def len r')
qed

lemma put_frame:
  assumes "idle c" "wf r" "rec_put X a b enc dec r c = (rc, r', c')" "x div 4096 \<noteq> a div 4096" "x div 4096 \<noteq> b div 4096"
  shows "cells c' x = cells c x"
proof -
  obtain res q where st: "pingpong_store X a b (enc r) c = (res, q, c')"
    using assms(3) by (auto simp: rec_put_def Let_def split: prod.splits)
  have "12 \<le> length (enc r)" "length (enc r) \<le> 256" using bounds by (simp_all add: enc_length [OF assms(2)])
  from store_frame [OF assms(1) slots this st assms(4,5)] show ?thesis .
qed

text \<open>What is in flash depends on the two sectors only.\<close>

lemma in_flash_cong:
  assumes "\<And>x. x div 4096 = a div 4096 \<or> x div 4096 = b div 4096 \<Longrightarrow> mem x = mem' x"
  shows "in_flash dec a b n mem = in_flash dec a b n mem'"
proof -
  have ab: "a mod 4096 = 0" "b mod 4096 = 0" using slots by (simp_all add: slots_ok_def)
  have "slot_rec mem a n = slot_rec mem' a n"
  proof (rule slot_rec_cong)
    fix x assume "a \<le> x" "x < a + n"
    then show "mem x = mem' x" using assms sector_of_slot [OF ab(1), of x] bounds(2) by simp
  qed
  moreover have "slot_rec mem b n = slot_rec mem' b n"
  proof (rule slot_rec_cong)
    fix x assume "b \<le> x" "x < b + n"
    then show "mem x = mem' x" using assms sector_of_slot [OF ab(2), of x] bounds(2) by simp
  qed
  ultimately show ?thesis by (simp add: in_flash_def current_def cong: option.case_cong)
qed

lemma put_completes:
  assumes "idle c" "wf r" "completes X idle"
  shows "fst (rec_put X a b enc dec r c) = 0"
proof -
  have len: "length (enc r) = n" by (rule enc_length [OF assms(2)])
  have "\<exists>s k r' c'. pingpong_store X a b (enc r) c = (PP_STORED s k, r', c')"
    using assms(3) bounds blank unfolding completes_def
    by (intro store_succeeds [OF assms(1) slots]) (simp_all add: len)
  then show ?thesis by (auto simp: rec_put_def Let_def pp_rc_def)
qed

lemma put_ok:
  assumes "idle c" "wf r" "completes X idle" "rec_put X a b enc dec r c = (rc, r', c')"
  shows "rc = 0 \<and> idle c' \<and> wf r' \<and> (\<exists>k. r' = seal k r) \<and> in_flash dec a b n (cells c') = Some r' \<and>
    only_touches cells {a div 4096, b div 4096} c c'"
proof -
  have rc: "rc = 0" using put_completes [OF assms(1-3)] assms(4) by simp
  show ?thesis
    using rc put_spec [OF assms(1,2,4)] put_frame [OF assms(1,2,4)] by (simp add: only_touches_def)
qed

text \<open>Operations elsewhere leave the record in flash alone.\<close>

lemma in_flash_touches:
  "only_touches cells S c c' \<Longrightarrow> a div 4096 \<notin> S \<Longrightarrow> b div 4096 \<notin> S \<Longrightarrow>
   in_flash dec a b n (cells c') = in_flash dec a b n (cells c)"
  by (rule in_flash_cong) (auto simp: only_touches_def)

lemma get_spec:
  assumes "idle c" "pingpong_load X a b n c = (res, c')"
  shows "idle c'" "cells c' = cells c" "res \<noteq> PP_ARG_ERROR"
    "(\<exists>buf s k. res = PP_LOADED buf s k \<and> length buf = n \<and> in_flash dec a b n (cells c) = Some (dec buf)) \<or>
     (res = PP_NONE \<and> in_flash dec a b n (cells c) = None)"
proof -
  note lc = load_current [OF assms(1) slots bounds, unfolded assms(2) fst_conv snd_conv]
  have len: "current (cells c) a b n = Some (r, s) \<Longrightarrow> length r = n" for r s
    by (auto simp: slot_rec_def Let_def dest!: current_slots split: if_splits)
  show "idle c'" "cells c' = cells c" using lc(2,3) .
  show "res \<noteq> PP_ARG_ERROR" using lc(1) by (auto split: option.splits)
  show "(\<exists>buf s k. res = PP_LOADED buf s k \<and> length buf = n \<and> in_flash dec a b n (cells c) = Some (dec buf)) \<or>
     (res = PP_NONE \<and> in_flash dec a b n (cells c) = None)"
    using lc(1) len by (cases "current (cells c) a b n") (auto simp: in_flash_def)
qed

end

end
