(* ===== verification/Calibration.thy ===== *)
theory Calibration
  imports Slot_Record Persist_Req
begin

text \<open>
  The calibration record, \<^verbatim>\<open>src/src/persist/calibration.c\<close> and \<^verbatim>\<open>calibration.h\<close>: the packed record
  (signed 16-bit and 32-bit fields as their bits), the copy of the control pilot line published to the
  ADC interrupt, the load with its defaults and its migration from versions 1 and 2, and the setters.
  The lemmas show that the published line never has a zero denominator unless flash holds one, that
  migration is applied once, and that a setter that succeeds leaves record, flash and published line
  equal.
\<close>

abbreviation (input) "CALIBRATION_SLOT_A \<equiv> (0x002000 :: nat)"
abbreviation (input) "CALIBRATION_SLOT_B \<equiv> (0x003000 :: nat)"
abbreviation (input) "CALIBRATION_VERSION \<equiv> (3 :: u8)"
abbreviation (input) "CAL_DEFAULT_BL0939_FREQ_CONST \<equiv> (271900 :: u32)"
abbreviation (input) "CAL_DEFAULT_CP_ANCHOR_RAW \<equiv> (1462 :: u16)"
abbreviation (input) "CAL_DEFAULT_CP_SLOPE_NUM \<equiv> (3540 :: u16)"
abbreviation (input) "CAL_DEFAULT_CP_SLOPE_DEN \<equiv> (459 :: u16)"

record calibration =
  cal_version :: u8
  cal_pad0 :: "u8 list"
  cal_counter :: u32
  cp_anchor_raw :: u16
  cp_slope_num :: u16
  cp_slope_den :: u16
  bl0939_v_uv_per_raw :: u16
  bl0939_ia_na_per_raw :: u16
  bl0939_ib_ua_per_raw :: u16
  bl0939_pa_uw_per_raw :: u16
  bl0939_freq_const :: u32
  cal_reserved :: "u8 list"
  cal_crc32 :: u32

definition cal_fields :: "calibration \<Rightarrow> u8 list" where
  "cal_fields r =
     le16_bytes (cp_anchor_raw r) @ le16_bytes (cp_slope_num r) @ le16_bytes (cp_slope_den r) @
     le16_bytes (bl0939_v_uv_per_raw r) @ le16_bytes (bl0939_ia_na_per_raw r) @
     le16_bytes (bl0939_ib_ua_per_raw r) @ le16_bytes (bl0939_pa_uw_per_raw r) @
     le32_bytes (bl0939_freq_const r) @ cal_reserved r"

definition cal_bytes :: "calibration \<Rightarrow> u8 list" where
  "cal_bytes r = (cal_version r # cal_pad0 r) @ le32_bytes (cal_counter r) @ cal_fields r @ le32_bytes (cal_crc32 r)"

definition cal_of_bytes :: "u8 list \<Rightarrow> calibration" where
  "cal_of_bytes p =
     \<lparr>cal_version = p ! 0, cal_pad0 = take 3 (drop 1 p), cal_counter = le32_at p 4,
      cp_anchor_raw = le16_at p 8, cp_slope_num = le16_at p 10, cp_slope_den = le16_at p 12,
      bl0939_v_uv_per_raw = le16_at p 14, bl0939_ia_na_per_raw = le16_at p 16, bl0939_ib_ua_per_raw = le16_at p 18,
      bl0939_pa_uw_per_raw = le16_at p 20, bl0939_freq_const = le32_at p 22, cal_reserved = take 2 (drop 26 p),
      cal_crc32 = le32_at p 28\<rparr>"

definition cal_wf :: "calibration \<Rightarrow> bool" where
  "cal_wf r \<longleftrightarrow> length (cal_pad0 r) = 3 \<and> length (cal_reserved r) = 2"

definition cal_zero :: calibration where
  "cal_zero = cal_of_bytes (replicate 32 0)"

definition cal_seal :: "u32 \<Rightarrow> calibration \<Rightarrow> calibration" where
  "cal_seal k r = r\<lparr>cal_counter := k,
     cal_crc32 := crc32 ((cal_version r # cal_pad0 r) @ le32_bytes k @ cal_fields r)\<rparr>"

interpretation cal_codec: slot_codec cal_bytes cal_of_bytes cal_wf cal_seal CALIBRATION_SLOT_A CALIBRATION_SLOT_B 32
proof
  show "slots_ok CALIBRATION_SLOT_A CALIBRATION_SLOT_B" by (simp add: slots_ok_def)
  fix r k
  assume wf: "cal_wf r"
  then show "length (cal_bytes r) = 32" by (simp add: cal_wf_def cal_bytes_def cal_fields_def)
  show "cal_of_bytes (cal_bytes r) = r"
    using wf by (cases r) (simp add: cal_of_bytes_def cal_bytes_def cal_fields_def cal_wf_def record_le)
  have "length (cal_version r # cal_pad0 r) = 4" using wf by (simp add: cal_wf_def)
  from stamp_layout [OF this, of k "cal_counter r" "cal_fields r" "cal_crc32 r"]
  show "stamp k (cal_bytes r) = cal_bytes (cal_seal k r)" by (simp add: cal_bytes_def cal_seal_def cal_fields_def)
  show "cal_wf (cal_seal k r)" using wf by (simp add: cal_wf_def cal_seal_def)
qed (simp_all add: blank_invalid_32 cal_wf_def cal_of_bytes_def)

sublocale w25q_chip \<subseteq> cal: record_store X cells idle armed cal_bytes cal_of_bytes cal_wf cal_seal
    CALIBRATION_SLOT_A CALIBRATION_SLOT_B 32 ..

abbreviation cal_in_flash :: "(nat \<Rightarrow> u8) \<Rightarrow> calibration option" where
  "cal_in_flash \<equiv> in_flash cal_of_bytes CALIBRATION_SLOT_A CALIBRATION_SLOT_B 32"

abbreviation cal_put :: "'c spi \<Rightarrow> calibration \<Rightarrow> 'c \<Rightarrow> int \<times> calibration \<times> 'c" where
  "cal_put X \<equiv> rec_put X CALIBRATION_SLOT_A CALIBRATION_SLOT_B cal_bytes cal_of_bytes"

section \<open>Operations\<close>

text \<open>The cached record and the line the interrupt reads (sign-extended to 32 bits).\<close>

record cal_mod =
  s_cal :: calibration
  s_anchor_raw :: u32
  s_slope_num :: u32
  s_slope_den :: u32

definition cal_mod_reset :: cal_mod where
  "cal_mod_reset = \<lparr>s_cal = cal_zero, s_anchor_raw = scast CAL_DEFAULT_CP_ANCHOR_RAW,
     s_slope_num = scast CAL_DEFAULT_CP_SLOPE_NUM, s_slope_den = scast CAL_DEFAULT_CP_SLOPE_DEN\<rparr>"

definition publish_to_isr :: "cal_mod \<Rightarrow> cal_mod" where
  "publish_to_isr m = m\<lparr>s_anchor_raw := scast (cp_anchor_raw (s_cal m)), s_slope_num := scast (cp_slope_num (s_cal m)),
     s_slope_den := scast (cp_slope_den (s_cal m))\<rparr>"

definition calibration_bl0939_freq_const :: "cal_mod \<Rightarrow> u32" where
  "calibration_bl0939_freq_const m =
     (if bl0939_freq_const (s_cal m) \<noteq> 0 then bl0939_freq_const (s_cal m) else CAL_DEFAULT_BL0939_FREQ_CONST)"

definition ua_to_na :: "u16 \<Rightarrow> u16" where
  "ua_to_na ua =
     (let na = sint ua * 1000;
          na1 = (if na > 32767 then 32767 else na);
          na2 = (if na1 < -32768 then -32768 else na1)
      in word_of_int na2)"

definition migrate_v1 :: "calibration \<Rightarrow> calibration" where
  "migrate_v1 r = (if cal_version r = 1
     then r\<lparr>bl0939_ia_na_per_raw := ua_to_na (bl0939_ia_na_per_raw r), cal_version := 2\<rparr> else r)"

definition migrate_v2 :: "calibration \<Rightarrow> calibration" where
  "migrate_v2 r = (if cal_version r = 2 then r\<lparr>bl0939_freq_const := 0, cal_version := CALIBRATION_VERSION\<rparr> else r)"

definition cal_defaults :: calibration where
  "cal_defaults = cal_zero\<lparr>cal_version := CALIBRATION_VERSION, cp_anchor_raw := CAL_DEFAULT_CP_ANCHOR_RAW,
     cp_slope_num := CAL_DEFAULT_CP_SLOPE_NUM, cp_slope_den := CAL_DEFAULT_CP_SLOPE_DEN\<rparr>"

definition calibration_load :: "'c spi \<Rightarrow> cal_mod \<Rightarrow> 'c \<Rightarrow> int \<times> cal_mod \<times> 'c" where
  "calibration_load X m c =
     (case pingpong_load X CALIBRATION_SLOT_A CALIBRATION_SLOT_B 32 c of
        (PP_ARG_ERROR, c1) \<Rightarrow> (-1, m, c1)
      | (PP_NONE, c1) \<Rightarrow>
          (let (rc, r, c2) = cal_put X cal_defaults c1
           in if rc < 0 then (rc, m\<lparr>s_cal := r\<rparr>, c2) else (0, publish_to_isr (m\<lparr>s_cal := r\<rparr>), c2))
      | (PP_LOADED buf _ _, c1) \<Rightarrow>
          (let r0 = cal_of_bytes buf;
               migrated = (cal_version r0 = 1 \<or> cal_version (migrate_v1 r0) = 2);
               r2 = migrate_v2 (migrate_v1 r0);
               (r3, c2) = (if migrated then snd (cal_put X r2 c1) else (r2, c1))
           in (0, publish_to_isr (m\<lparr>s_cal := r3\<rparr>), c2)))"

definition calibration_set_cp :: "'c spi \<Rightarrow> cal_args \<Rightarrow> cal_mod \<Rightarrow> 'c \<Rightarrow> int \<times> cal_mod \<times> 'c" where
  "calibration_set_cp X args m c =
     (if slope_den args = 0 then (-1, m, c)
      else if cp_anchor_raw (s_cal m) = anchor_raw args \<and> cp_slope_num (s_cal m) = slope_num args \<and>
              cp_slope_den (s_cal m) = slope_den args then (0, m, c)
      else let (rc, r, c') = cal_put X ((s_cal m)\<lparr>cal_version := CALIBRATION_VERSION,
                 cp_anchor_raw := anchor_raw args, cp_slope_num := slope_num args, cp_slope_den := slope_den args\<rparr>) c
           in if rc < 0 then (rc, m\<lparr>s_cal := r\<rparr>, c') else (0, publish_to_isr (m\<lparr>s_cal := r\<rparr>), c'))"

definition calibration_set_bl0939 :: "'c spi \<Rightarrow> bl0939_cal_args \<Rightarrow> cal_mod \<Rightarrow> 'c \<Rightarrow> int \<times> cal_mod \<times> 'c" where
  "calibration_set_bl0939 X args m c =
     (if bl0939_v_uv_per_raw (s_cal m) = v_uv_per_raw args \<and> bl0939_ia_na_per_raw (s_cal m) = ia_na_per_raw args \<and>
         bl0939_ib_ua_per_raw (s_cal m) = ib_ua_per_raw args \<and> bl0939_pa_uw_per_raw (s_cal m) = pa_uw_per_raw args \<and>
         bl0939_freq_const (s_cal m) = freq_const args then (0, m, c)
      else let (rc, r, c') = cal_put X ((s_cal m)\<lparr>cal_version := CALIBRATION_VERSION,
                 bl0939_v_uv_per_raw := v_uv_per_raw args, bl0939_ia_na_per_raw := ia_na_per_raw args,
                 bl0939_ib_ua_per_raw := ib_ua_per_raw args, bl0939_pa_uw_per_raw := pa_uw_per_raw args,
                 bl0939_freq_const := freq_const args\<rparr>) c
           in if rc < 0 then (rc, m\<lparr>s_cal := r\<rparr>, c') else (0, m\<lparr>s_cal := r\<rparr>, c'))"

section \<open>Facts\<close>

text \<open>The migrated current scale is the old one times 1000, saturated.\<close>

lemma ua_to_na_sat: "sint (ua_to_na ua) = max (-32768) (min 32767 (sint ua * 1000))"
proof -
  have "sint (word_of_int i :: u16) = i" if "-32768 \<le> i" "i \<le> 32767" for i
    using that by (simp add: sint_sbintrunc' signed_take_bit_int_eq_self)
  then show ?thesis by (auto simp: ua_to_na_def Let_def max_def min_def)
qed

definition migrate :: "calibration \<Rightarrow> calibration" where
  "migrate r = migrate_v2 (migrate_v1 r)"

lemma migrate_version: "cal_version (migrate r) \<notin> {1, 2}" "migrate (migrate r) = migrate r"
  by (auto simp: migrate_def migrate_v1_def migrate_v2_def)

lemma migrate_id: "cal_version r \<noteq> 1 \<Longrightarrow> cal_version r \<noteq> 2 \<Longrightarrow> migrate r = r"
  by (simp add: migrate_def migrate_v1_def migrate_v2_def)

lemma migrated_iff: "cal_version r = 1 \<or> cal_version (migrate_v1 r) = 2 \<longleftrightarrow> cal_version r = 1 \<or> cal_version r = 2"
  by (auto simp: migrate_v1_def)

lemma cal_wf_migrate: "cal_wf r \<Longrightarrow> cal_wf (migrate r)"
  by (simp add: cal_wf_def migrate_def migrate_v1_def migrate_v2_def)

text \<open>The values a record stands for, without what a store manages.\<close>

definition cal_values :: "calibration \<Rightarrow> (u16 \<times> u16 \<times> u16) \<times> (u16 \<times> u16 \<times> u16 \<times> u16 \<times> u32)" where
  "cal_values r = ((cp_anchor_raw r, cp_slope_num r, cp_slope_den r),
     (bl0939_v_uv_per_raw r, bl0939_ia_na_per_raw r, bl0939_ib_ua_per_raw r, bl0939_pa_uw_per_raw r,
      bl0939_freq_const r))"

lemma cal_values_seal: "cal_values (cal_seal k r) = cal_values r" "cal_version (cal_seal k r) = cal_version r"
  by (simp_all add: cal_values_def cal_seal_def)

text \<open>Record, flash and published line agree.\<close>

definition cal_synced :: "cal_mod \<Rightarrow> (nat \<Rightarrow> u8) \<Rightarrow> bool" where
  "cal_synced m mem \<longleftrightarrow> cal_wf (s_cal m) \<and> cal_in_flash mem = Some (s_cal m) \<and> m = publish_to_isr m"

lemma publish_idem: "publish_to_isr (publish_to_isr m) = publish_to_isr m" "s_cal (publish_to_isr m) = s_cal m"
  by (simp_all add: publish_to_isr_def)

context w25q_chip
begin

lemma cal_put_spec:
  assumes "idle c" "cal_wf r" "cal_put X r c = (rc, r', c')"
  shows "cal_values r' = cal_values r \<and> cal_version r' = cal_version r" "cal_wf r'"
    "\<not> rc < 0 \<Longrightarrow> idle c' \<and> cal_in_flash (cells c') = Some r'"
  using cal.put_spec [OF assms] cal_values_seal by auto

text \<open>A load of a valid record migrates it, publishes it and, if it was migrated, writes it back.\<close>

lemma cal_load_spec:
  assumes "idle c" "cal_in_flash (cells c) = Some r" "calibration_load X m c = (rc, m', c')"
  shows "rc = 0" "m' = publish_to_isr m'" "cal_values (s_cal m') = cal_values (migrate r)"
    "cal_version (s_cal m') = cal_version (migrate r)"
    "cal_version r \<notin> {1, 2} \<Longrightarrow> idle c' \<and> cells c' = cells c \<and> s_cal m' = r"
proof -
  obtain res c1 where ld: "pingpong_load X CALIBRATION_SLOT_A CALIBRATION_SLOT_B 32 c = (res, c1)"
    by (cases "pingpong_load X CALIBRATION_SLOT_A CALIBRATION_SLOT_B 32 c")
  note gs = cal.get_spec [OF assms(1) ld]
  obtain buf s k where res: "res = PP_LOADED buf s k" and r: "cal_of_bytes buf = r" and len: "length buf = 32"
    using gs(4) assms(2) by auto
  have wf: "cal_wf (migrate r)" using cal_codec.dec_wf [OF len] cal_wf_migrate by (simp add: r)
  obtain rc0 r3 c3 where put: "cal_put X (migrate r) c1 = (rc0, r3, c3)" by (cases "cal_put X (migrate r) c1")
  note pt = cal_put_spec [OF gs(1) wf put]
  show "rc = 0" "m' = publish_to_isr m'" "cal_values (s_cal m') = cal_values (migrate r)"
    "cal_version (s_cal m') = cal_version (migrate r)"
    "cal_version r \<notin> {1, 2} \<Longrightarrow> idle c' \<and> cells c' = cells c \<and> s_cal m' = r"
    using assms(3) pt put gs(1,2) publish_idem migrate_id [of r]
    by (auto simp: calibration_load_def ld res r Let_def migrated_iff migrate_def [symmetric] split: if_splits)
qed

lemma cal_load_blank:
  assumes "idle c" "cal_in_flash (cells c) = None" "calibration_load X m c = (rc, m', c')" "rc = 0"
  shows "idle c'" "cal_synced m' (cells c')" "cal_values (s_cal m') = cal_values cal_defaults"
proof -
  obtain res c1 where ld: "pingpong_load X CALIBRATION_SLOT_A CALIBRATION_SLOT_B 32 c = (res, c1)"
    by (cases "pingpong_load X CALIBRATION_SLOT_A CALIBRATION_SLOT_B 32 c")
  note gs = cal.get_spec [OF assms(1) ld]
  have res: "res = PP_NONE" using gs(4) assms(2) by auto
  have wf: "cal_wf cal_defaults" by (simp add: cal_defaults_def cal_wf_def cal_zero_def cal_of_bytes_def)
  obtain rc0 r3 c3 where put: "cal_put X cal_defaults c1 = (rc0, r3, c3)" by (cases "cal_put X cal_defaults c1")
  note pt = cal_put_spec [OF gs(1) wf put]
  show "idle c'" "cal_synced m' (cells c')" "cal_values (s_cal m') = cal_values cal_defaults"
    using assms(3,4) pt put publish_idem
    by (auto simp: calibration_load_def ld res Let_def cal_synced_def split: if_splits)
qed

text \<open>The setters.\<close>

lemma cal_set_cp_spec:
  assumes "idle c" "cal_synced m (cells c)" "calibration_set_cp X args m c = (rc, m', c')" "rc = 0"
  shows "idle c' \<and> cal_synced m' (cells c')" "slope_den args \<noteq> 0"
    "cal_values (s_cal m') = ((anchor_raw args, slope_num args, slope_den args), snd (cal_values (s_cal m)))"
proof -
  let ?r = "(s_cal m)\<lparr>cal_version := CALIBRATION_VERSION, cp_anchor_raw := anchor_raw args,
    cp_slope_num := slope_num args, cp_slope_den := slope_den args\<rparr>"
  have wf: "cal_wf ?r" using assms(2) by (simp add: cal_synced_def cal_wf_def)
  obtain rc0 r3 c3 where put: "cal_put X ?r c = (rc0, r3, c3)" by (cases "cal_put X ?r c")
  note pt = cal_put_spec [OF assms(1) wf put]
  show "idle c' \<and> cal_synced m' (cells c')" "slope_den args \<noteq> 0"
    "cal_values (s_cal m') = ((anchor_raw args, slope_num args, slope_den args), snd (cal_values (s_cal m)))"
    using assms pt put publish_idem
    by (auto simp: calibration_set_cp_def Let_def cal_synced_def cal_values_def split: if_splits)
qed

lemma cal_set_bl0939_spec:
  assumes "idle c" "cal_synced m (cells c)" "calibration_set_bl0939 X args m c = (rc, m', c')" "rc = 0"
  shows "idle c' \<and> cal_synced m' (cells c')"
    "cal_values (s_cal m') = (fst (cal_values (s_cal m)), (v_uv_per_raw args, ia_na_per_raw args, ib_ua_per_raw args,
       pa_uw_per_raw args, freq_const args))"
proof -
  let ?r = "(s_cal m)\<lparr>cal_version := CALIBRATION_VERSION, bl0939_v_uv_per_raw := v_uv_per_raw args,
    bl0939_ia_na_per_raw := ia_na_per_raw args, bl0939_ib_ua_per_raw := ib_ua_per_raw args,
    bl0939_pa_uw_per_raw := pa_uw_per_raw args, bl0939_freq_const := freq_const args\<rparr>"
  have wf: "cal_wf ?r" using assms(2) by (simp add: cal_synced_def cal_wf_def)
  obtain rc0 r3 c3 where put: "cal_put X ?r c = (rc0, r3, c3)" by (cases "cal_put X ?r c")
  note pt = cal_put_spec [OF assms(1) wf put]
  have line: "cp_anchor_raw r3 = cp_anchor_raw (s_cal m)" "cp_slope_num r3 = cp_slope_num (s_cal m)"
    "cp_slope_den r3 = cp_slope_den (s_cal m)"
    using pt(1) by (simp_all add: cal_values_def)
  then have keep: "m = publish_to_isr m \<Longrightarrow> m\<lparr>s_cal := r3\<rparr> = publish_to_isr (m\<lparr>s_cal := r3\<rparr>)"
    by (cases m) (simp add: publish_to_isr_def)
  have run: "(m', c') = (m, c) \<and> cal_values (s_cal m) = cal_values ?r \<or> (m', c') = (m\<lparr>s_cal := r3\<rparr>, c3) \<and> \<not> rc0 < 0"
    using assms(3,4) put by (auto simp: calibration_set_bl0939_def Let_def cal_values_def split: if_splits)
  then show "idle c' \<and> cal_synced m' (cells c')"
    using assms(1,2) pt(2,3) keep unfolding cal_synced_def by auto
  show "cal_values (s_cal m') = (fst (cal_values (s_cal m)), (v_uv_per_raw args, ia_na_per_raw args, ib_ua_per_raw args,
       pa_uw_per_raw args, freq_const args))"
    using run pt(1) by (auto simp: cal_values_def)
qed

end

end
