(* ===== verification/Crash_State.thy ===== *)
theory Crash_State
  imports Slot_Record
begin

text \<open>
  The crash-loop counter, \<^verbatim>\<open>src/src/persist/crash_state.c\<close>, with the reset-cause decode of
  \<^verbatim>\<open>hal/gd32f205/reset_cause.c\<close> and the plain boot counter of \<^verbatim>\<open>persist/boot_count.c\<close>. The module's
  state is the cached record and the safe-fail flag. The lemmas show that over any sequence of boots
  and alive marks the stored count is the number of crash boots since the last deliberate boot or
  alive mark.
\<close>

section \<open>Reset cause\<close>

datatype reset_cause = RESET_CAUSE_UNKNOWN | RESET_CAUSE_POWER_ON | RESET_CAUSE_PIN | RESET_CAUSE_SOFTWARE
  | RESET_CAUSE_WATCHDOG | RESET_CAUSE_LOW_POWER

text \<open>The flags of the reset-source register, in the order the code tests them.\<close>

record rstsck =
  fwdgtrstf :: bool
  wwdgtrstf :: bool
  lprstf :: bool
  swrstf :: bool
  eprstf :: bool
  porrstf :: bool

definition reset_cause_get_and_clear :: "rstsck \<Rightarrow> reset_cause \<times> rstsck" where
  "reset_cause_get_and_clear f =
     (let cause = (if fwdgtrstf f then RESET_CAUSE_WATCHDOG
                   else if wwdgtrstf f then RESET_CAUSE_WATCHDOG
                   else if lprstf f then RESET_CAUSE_LOW_POWER
                   else if swrstf f then RESET_CAUSE_SOFTWARE
                   else if eprstf f then RESET_CAUSE_PIN
                   else if porrstf f then RESET_CAUSE_POWER_ON
                   else RESET_CAUSE_UNKNOWN)
      in (cause, \<lparr>fwdgtrstf = False, wwdgtrstf = False, lprstf = False, swrstf = False, eprstf = False,
           porrstf = False\<rparr>))"

definition read_and_clear_reset_was_crash :: "reset_cause \<Rightarrow> bool" where
  "read_and_clear_reset_was_crash cause \<longleftrightarrow> cause = RESET_CAUSE_WATCHDOG \<or> cause = RESET_CAUSE_LOW_POWER"

section \<open>The record\<close>

abbreviation (input) "CRASH_STATE_SLOT_A \<equiv> (0x04D000 :: nat)"
abbreviation (input) "CRASH_STATE_SLOT_B \<equiv> (0x04E000 :: nat)"
abbreviation (input) "CRASH_STATE_VERSION \<equiv> (1 :: u8)"
abbreviation (input) "CRASH_LOOP_THRESHOLD \<equiv> (5 :: u8)"

record crash_state =
  cs_version :: u8
  cs_pad0 :: "u8 list"
  cs_counter :: u32
  fast_restart_count :: u8
  cs_rest :: "u8 list"
  cs_crc32 :: u32

definition cs_bytes :: "crash_state \<Rightarrow> u8 list" where
  "cs_bytes r = (cs_version r # cs_pad0 r) @ le32_bytes (cs_counter r) @ (fast_restart_count r # cs_rest r) @
     le32_bytes (cs_crc32 r)"

definition cs_of_bytes :: "u8 list \<Rightarrow> crash_state" where
  "cs_of_bytes p =
     \<lparr>cs_version = p ! 0, cs_pad0 = take 3 (drop 1 p), cs_counter = le32_at p 4, fast_restart_count = p ! 8,
      cs_rest = take 19 (drop 9 p), cs_crc32 = le32_at p 28\<rparr>"

definition cs_wf :: "crash_state \<Rightarrow> bool" where
  "cs_wf r \<longleftrightarrow> length (cs_pad0 r) = 3 \<and> length (cs_rest r) = 19"

definition cs_zero :: crash_state where
  "cs_zero = cs_of_bytes (replicate 32 0)"

definition cs_seal :: "u32 \<Rightarrow> crash_state \<Rightarrow> crash_state" where
  "cs_seal k r = r\<lparr>cs_counter := k,
     cs_crc32 := crc32 ((cs_version r # cs_pad0 r) @ le32_bytes k @ (fast_restart_count r # cs_rest r))\<rparr>"

interpretation cs_codec: slot_codec cs_bytes cs_of_bytes cs_wf cs_seal CRASH_STATE_SLOT_A CRASH_STATE_SLOT_B 32
proof
  show "slots_ok CRASH_STATE_SLOT_A CRASH_STATE_SLOT_B" by (simp add: slots_ok_def)
  fix r k
  assume wf: "cs_wf r"
  then show "length (cs_bytes r) = 32" by (simp add: cs_wf_def cs_bytes_def)
  show "cs_of_bytes (cs_bytes r) = r"
    using wf by (cases r) (simp add: cs_of_bytes_def cs_bytes_def cs_wf_def record_le)
  have "length (cs_version r # cs_pad0 r) = 4" using wf by (simp add: cs_wf_def)
  from stamp_layout [OF this, of k "cs_counter r" "fast_restart_count r # cs_rest r" "cs_crc32 r"]
  show "stamp k (cs_bytes r) = cs_bytes (cs_seal k r)" by (simp add: cs_bytes_def cs_seal_def)
  show "cs_wf (cs_seal k r)" using wf by (simp add: cs_wf_def cs_seal_def)
qed (simp_all add: blank_invalid_32 cs_wf_def cs_of_bytes_def)

sublocale w25q_chip \<subseteq> cs: record_store X cells idle armed cs_bytes cs_of_bytes cs_wf cs_seal
    CRASH_STATE_SLOT_A CRASH_STATE_SLOT_B 32 ..

abbreviation cs_in_flash :: "(nat \<Rightarrow> u8) \<Rightarrow> crash_state option" where
  "cs_in_flash \<equiv> in_flash cs_of_bytes CRASH_STATE_SLOT_A CRASH_STATE_SLOT_B 32"

section \<open>Operations\<close>

record crash_mod =
  s_cs :: crash_state
  s_safe_fail :: bool

definition crash_state_boot_increment :: "'c spi \<Rightarrow> reset_cause \<Rightarrow> crash_mod \<Rightarrow> 'c \<Rightarrow> int \<times> crash_mod \<times> 'c" where
  "crash_state_boot_increment X cause m c =
     (let was_crash = read_and_clear_reset_was_crash cause in
      case pingpong_load X CRASH_STATE_SLOT_A CRASH_STATE_SLOT_B 32 c of
        (PP_ARG_ERROR, c1) \<Rightarrow> (-1, m, c1)
      | (res, c1) \<Rightarrow>
          (let cs0 = (case res of PP_LOADED buf _ _ \<Rightarrow> cs_of_bytes buf
                      | _ \<Rightarrow> cs_zero\<lparr>cs_version := CRASH_STATE_VERSION, fast_restart_count := 0\<rparr>);
               cs1 = (if was_crash
                      then if fast_restart_count cs0 < 0xFF
                           then cs0\<lparr>fast_restart_count := fast_restart_count cs0 + 1\<rparr> else cs0
                      else cs0\<lparr>fast_restart_count := 0\<rparr>);
               safe = (fast_restart_count cs1 \<ge> CRASH_LOOP_THRESHOLD);
               (rc, cs2, c2) = rec_put X CRASH_STATE_SLOT_A CRASH_STATE_SLOT_B cs_bytes cs_of_bytes
                                 (cs1\<lparr>cs_version := CRASH_STATE_VERSION\<rparr>) c1
           in (if rc < 0 then rc else 0, m\<lparr>s_cs := cs2, s_safe_fail := safe\<rparr>, c2)))"

definition crash_state_reset_alive :: "'c spi \<Rightarrow> crash_mod \<Rightarrow> 'c \<Rightarrow> int \<times> crash_mod \<times> 'c" where
  "crash_state_reset_alive X m c =
     (if fast_restart_count (s_cs m) = 0 \<and> \<not> s_safe_fail m then (0, m, c)
      else let (rc, cs1, c1) = rec_put X CRASH_STATE_SLOT_A CRASH_STATE_SLOT_B cs_bytes cs_of_bytes
                 ((s_cs m)\<lparr>cs_version := CRASH_STATE_VERSION, fast_restart_count := 0\<rparr>) c
           in if rc < 0 then (rc, m\<lparr>s_cs := cs1\<rparr>, c1)
              else (0, m\<lparr>s_cs := cs1, s_safe_fail := False\<rparr>, c1))"

definition crash_mod_reset :: crash_mod where
  "crash_mod_reset = \<lparr>s_cs = cs_zero, s_safe_fail = False\<rparr>"

section \<open>A life of the charger as a sequence of boots and alive marks\<close>

datatype life_event = Boot reset_cause | Alive

text \<open>Every boot starts from cleared RAM.\<close>

fun life_step :: "'c spi \<Rightarrow> life_event \<Rightarrow> crash_mod \<times> 'c \<Rightarrow> crash_mod \<times> 'c" where
  "life_step X (Boot cause) (m, c) = snd (crash_state_boot_increment X cause crash_mod_reset c)"
| "life_step X Alive (m, c) = snd (crash_state_reset_alive X m c)"

fun crash_count :: "nat \<Rightarrow> life_event \<Rightarrow> nat" where
  "crash_count k (Boot cause) = (if read_and_clear_reset_was_crash cause then min 255 (k + 1) else 0)"
| "crash_count k Alive = 0"

definition life_inv :: "(nat \<Rightarrow> u8) \<Rightarrow> crash_mod \<Rightarrow> nat \<Rightarrow> bool" where
  "life_inv mem m k \<longleftrightarrow> cs_wf (s_cs m) \<and> cs_in_flash mem = Some (s_cs m) \<and> unat (fast_restart_count (s_cs m)) = k \<and>
     (s_safe_fail m \<longleftrightarrow> 5 \<le> k)"

lemma count_up: "unat (if (n :: u8) < 0xFF then n + 1 else n) = min 255 (unat n + 1)"
proof -
  have "n < 0xFF \<longleftrightarrow> unat n < 255" by (simp add: word_less_nat_alt)
  moreover have "unat n < 256" using unsigned_less [of n, where 'a = nat] by simp
  moreover have "unat n < 255 \<Longrightarrow> unat (n + 1) = unat n + 1"
    by (simp add: unat_word_ariths)
  ultimately show ?thesis by auto
qed

lemma threshold_iff: "(n :: u8) \<ge> CRASH_LOOP_THRESHOLD \<longleftrightarrow> 5 \<le> unat n"
  by (simp add: word_le_nat_alt)

context w25q_chip
begin

lemma cs_boot:
  assumes "idle c" "completes X idle" "crash_state_boot_increment X cause m c = (rc, m', c')"
  shows "rc = 0" "idle c'"
    "life_inv (cells c') m' (crash_count (case cs_in_flash (cells c) of None \<Rightarrow> 0 | Some r \<Rightarrow> unat (fast_restart_count r)) (Boot cause))"
proof -
  obtain res c1 where ld: "pingpong_load X CRASH_STATE_SLOT_A CRASH_STATE_SLOT_B 32 c = (res, c1)"
    by (cases "pingpong_load X CRASH_STATE_SLOT_A CRASH_STATE_SLOT_B 32 c")
  note gs = cs.get_spec [OF assms(1) ld]
  define cs0 where "cs0 = (case res of PP_LOADED buf _ _ \<Rightarrow> cs_of_bytes buf
     | _ \<Rightarrow> cs_zero\<lparr>cs_version := CRASH_STATE_VERSION, fast_restart_count := 0\<rparr>)"
  define cs1 where "cs1 = (if read_and_clear_reset_was_crash cause
     then if fast_restart_count cs0 < 0xFF then cs0\<lparr>fast_restart_count := fast_restart_count cs0 + 1\<rparr> else cs0
     else cs0\<lparr>fast_restart_count := 0\<rparr>)"
  let ?r = "cs1\<lparr>cs_version := CRASH_STATE_VERSION\<rparr>"
  obtain rc0 cs2 c2 where put: "rec_put X CRASH_STATE_SLOT_A CRASH_STATE_SLOT_B cs_bytes cs_of_bytes ?r c1 = (rc0, cs2, c2)"
    by (cases "rec_put X CRASH_STATE_SLOT_A CRASH_STATE_SLOT_B cs_bytes cs_of_bytes ?r c1")
  have run: "rc = (if rc0 < 0 then rc0 else 0)" "m' = m\<lparr>s_cs := cs2, s_safe_fail := (fast_restart_count cs1 \<ge> CRASH_LOOP_THRESHOLD)\<rparr>" "c' = c2"
    using assms(3) put gs(3) unfolding crash_state_boot_increment_def ld cs1_def cs0_def Let_def
    by (auto split: pp_load.splits)
  have wf0: "cs_wf cs0" using gs(4) cs_codec.dec_wf by (auto simp: cs0_def cs_zero_def cs_wf_def cs_of_bytes_def)
  then have wf: "cs_wf ?r" by (simp add: cs1_def cs_wf_def)
  note sp = cs.put_spec [OF gs(1) wf put]
  have rc0: "rc0 = 0" using cs.put_completes [OF gs(1) wf assms(2)] by (simp add: put)
  have k0: "unat (fast_restart_count cs0) = (case cs_in_flash (cells c) of None \<Rightarrow> 0 | Some r \<Rightarrow> unat (fast_restart_count r))"
    using gs(4) by (auto simp: cs0_def)
  have k1: "unat (fast_restart_count cs1) = crash_count (unat (fast_restart_count cs0)) (Boot cause)"
    using count_up [of "fast_restart_count cs0"] by (auto simp: cs1_def)
  obtain k where "cs2 = cs_seal k ?r" using sp(1) by blast
  then have cnt: "fast_restart_count cs2 = fast_restart_count cs1" by (simp add: cs_seal_def)
  show "rc = 0" "idle c'" using run rc0 sp(3) by simp_all
  show "life_inv (cells c') m' (crash_count (case cs_in_flash (cells c) of None \<Rightarrow> 0 | Some r \<Rightarrow> unat (fast_restart_count r)) (Boot cause))"
    using sp(2,3) rc0 k1 k0 cnt by (simp add: run life_inv_def threshold_iff del: crash_count.simps)
qed

lemma cs_alive:
  assumes "idle c" "completes X idle" "life_inv (cells c) m k" "crash_state_reset_alive X m c = (rc, m', c')"
  shows "rc = 0" "idle c'" "life_inv (cells c') m' 0"
proof -
  let ?r = "(s_cs m)\<lparr>cs_version := CRASH_STATE_VERSION, fast_restart_count := 0\<rparr>"
  have wf: "cs_wf ?r" using assms(3) by (simp add: life_inv_def cs_wf_def)
  obtain rc0 cs1 c1 where put: "rec_put X CRASH_STATE_SLOT_A CRASH_STATE_SLOT_B cs_bytes cs_of_bytes ?r c = (rc0, cs1, c1)"
    by (cases "rec_put X CRASH_STATE_SLOT_A CRASH_STATE_SLOT_B cs_bytes cs_of_bytes ?r c")
  note sp = cs.put_spec [OF assms(1) wf put]
  have rc0: "rc0 = 0" using cs.put_completes [OF assms(1) wf assms(2)] by (simp add: put)
  obtain j where "cs1 = cs_seal j ?r" using sp(1) by blast
  then have cnt: "fast_restart_count cs1 = 0" by (simp add: cs_seal_def)
  show "rc = 0" "idle c'" "life_inv (cells c') m' 0"
    using assms(1,3,4) put rc0 sp(2,3) cnt
    by (auto simp: crash_state_reset_alive_def life_inv_def split: if_splits)
qed

lemma cs_life_step:
  assumes "idle c" "completes X idle" "life_inv (cells c) m k" "life_step X ev (m, c) = (m', c')"
  shows "idle c' \<and> life_inv (cells c') m' (crash_count k ev)"
proof (cases ev)
  case (Boot cause)
  obtain rc where st: "crash_state_boot_increment X cause crash_mod_reset c = (rc, m', c')"
    using assms(4) Boot by (cases "crash_state_boot_increment X cause crash_mod_reset c") simp
  from cs_boot [OF assms(1,2) st] assms(3) show ?thesis by (simp add: Boot life_inv_def del: crash_count.simps)
next
  case Alive
  obtain rc where st: "crash_state_reset_alive X m c = (rc, m', c')"
    using assms(4) Alive by (cases "crash_state_reset_alive X m c") simp
  from cs_alive [OF assms(1-3) st] show ?thesis by (simp add: Alive)
qed

lemma cs_life:
  assumes "idle c" "completes X idle" "life_inv (cells c) m k" "fold (life_step X) hist (m, c) = (m', c')"
  shows "idle c' \<and> life_inv (cells c') m' (foldl crash_count k hist)"
  using assms
proof (induction hist arbitrary: m c k)
  case (Cons ev hist)
  obtain m1 c1 where st: "life_step X ev (m, c) = (m1, c1)" by (cases "life_step X ev (m, c)")
  from cs_life_step [OF Cons.prems(1-3) st] Cons.prems(4) show ?case
    using Cons.IH [of c1 m1 "crash_count k ev"] Cons.prems(2) by (simp add: st)
qed simp

end

section \<open>Boot counter\<close>

abbreviation (input) "BOOT_COUNT_SECTOR \<equiv> (0x04C000 :: nat)"

definition boot_count_record :: "u32 \<Rightarrow> u8 list" where
  "boot_count_record k =
     (let body = [1, 0, 0, 0] @ le32_bytes k @ replicate 20 0 in body @ le32_bytes (crc32 body))"

text \<open>The count in a record read back, zero when it does not validate.\<close>

definition boot_count_value :: "u8 list \<Rightarrow> u32" where
  "boot_count_value rec =
     (let computed = crc32 (take 28 rec) in if rec ! 0 = 1 \<and> le32_at rec 28 = computed then le32_at rec 4 else 0)"

definition boot_count_increment :: "'c spi \<Rightarrow> 'c \<Rightarrow> u32 \<times> 'c" where
  "boot_count_increment X c =
     (let (rec, c1) = w25q_read X BOOT_COUNT_SECTOR 32 c;
          cur = boot_count_value rec;
          rec' = boot_count_record (cur + 1);
          (rc1, c2) = w25q_erase_sector X BOOT_COUNT_SECTOR c1
      in if rc1 \<noteq> 0 then (0xFFFFFFFF, c2)
         else let (rc2, c3) = w25q_program X BOOT_COUNT_SECTOR rec' c2
           in if rc2 \<noteq> 0 then (0xFFFFFFFF, c3) else (cur + 1, c3))"

text \<open>The count flash stands for.\<close>

definition boot_count_in :: "(nat \<Rightarrow> u8) \<Rightarrow> u32" where
  "boot_count_in mem = boot_count_value (map mem [BOOT_COUNT_SECTOR ..< BOOT_COUNT_SECTOR + 32])"

lemma boot_count_record_facts:
  "length (boot_count_record k) = 32" "boot_count_record k ! 0 = 1" "le32_at (boot_count_record k) 4 = k"
  "le32_at (boot_count_record k) 28 = crc32 (take 28 (boot_count_record k))"
  by (simp_all add: boot_count_record_def Let_def record_le)

lemma boot_count_value_record: "boot_count_value (boot_count_record k) = k"
  by (simp only: boot_count_value_def Let_def boot_count_record_facts simp_thms if_True)

context w25q_chip
begin

lemma boot_count_spec:
  assumes "idle c" "completes X idle"
  shows "fst (boot_count_increment X c) = boot_count_in (cells c) + 1"
    "idle (snd (boot_count_increment X c))"
    "boot_count_in (cells (snd (boot_count_increment X c))) = boot_count_in (cells c) + 1"
proof -
  let ?a = "BOOT_COUNT_SECTOR"
  have fe: "?a + 32 \<le> FLASH_END" "?a < FLASH_END" by simp_all
  obtain rec c1 where r: "w25q_read X ?a 32 c = (rec, c1)" by (cases "w25q_read X ?a 32 c")
  have rd: "rec = map (cells c) [?a ..< ?a + 32]" "idle c1" "cells c1 = cells c"
    using rd_data [OF assms(1) fe(1)] rd_idle [OF assms(1) fe(1)] rd_keeps [OF assms(1) fe(1)] by (simp_all only: r fst_conv snd_conv)
  have cur: "boot_count_value rec = boot_count_in (cells c)"
    by (simp only: boot_count_in_def rd(1))
  let ?q = "boot_count_record (boot_count_in (cells c) + 1)"
  obtain c2 where e: "w25q_erase_sector X ?a c1 = (0, c2)"
    using assms(2) rd(2) unfolding completes_def by (metis prod.collapse)
  have i2: "idle c2" using er_idle [OF rd(2) fe(2)] by (simp add: e)
  have len: "length ?q = 32" by (rule boot_count_record_facts)
  have "?q \<noteq> []" using len by (metis list.size(3) zero_neq_numeral)
  then have "fst (w25q_program X ?a ?q c2) = 0"
    using assms(2) i2 len unfolding completes_def by simp
  then obtain c3 where p: "w25q_program X ?a ?q c2 = (0, c3)" by (metis prod.collapse)
  have "blank_at (cells c2) ?a (length ?q)"
    using er_blank [OF rd(2) fe(2)] by (simp add: blank_at_def len e)
  then have m: "map (cells c3) [?a ..< ?a + 32] = ?q"
    using pr_blank [OF i2 _ fe(2), of ?q] len p by simp
  have run: "boot_count_increment X c = (boot_count_in (cells c) + 1, c3)"
    unfolding boot_count_increment_def r Let_def prod.case cur e p by simp
  show "fst (boot_count_increment X c) = boot_count_in (cells c) + 1" by (simp add: run)
  show "idle (snd (boot_count_increment X c))" using pr_idle [OF i2 _ fe(2), of ?q] len p by (simp add: run)
  show "boot_count_in (cells (snd (boot_count_increment X c))) = boot_count_in (cells c) + 1"
    unfolding run snd_conv boot_count_in_def m boot_count_value_record ..
qed

end

end
