(* ===== verification/Rfid_Authlist.thy ===== *)
theory Rfid_Authlist
  imports Slot_Record
begin

text \<open>
  The list of authorised tags, \<^verbatim>\<open>src/src/persist/rfid_authlist.c\<close>: a 128-byte slot record with up to 28
  tag numbers. The lemmas show that the list in RAM stays duplicate free, without zero and within its
  capacity, that each operation is the matching operation on a set of tags, and that an operation
  that reports success has that set in flash.
\<close>

abbreviation (input) "RFID_AUTHLIST_SLOT_A \<equiv> (0x005000 :: nat)"
abbreviation (input) "RFID_AUTHLIST_SLOT_B \<equiv> (0x006000 :: nat)"
abbreviation (input) "RFID_AUTHLIST_VERSION \<equiv> (1 :: u8)"
abbreviation (input) "RFID_AUTHLIST_RECORD_MAX \<equiv> (28 :: u8)"

record rfid_authlist_record =
  al_version :: u8
  al_pad0 :: "u8 list"
  al_counter :: u32
  al_count :: u8
  al_pad1 :: "u8 list"
  al_uids :: "u32 list"
  al_crc32 :: u32

definition al_fields :: "rfid_authlist_record \<Rightarrow> u8 list" where
  "al_fields r = (al_count r # al_pad1 r) @ concat (map le32_bytes (al_uids r))"

definition al_bytes :: "rfid_authlist_record \<Rightarrow> u8 list" where
  "al_bytes r = (al_version r # al_pad0 r) @ le32_bytes (al_counter r) @ al_fields r @ le32_bytes (al_crc32 r)"

definition al_of_bytes :: "u8 list \<Rightarrow> rfid_authlist_record" where
  "al_of_bytes p =
     \<lparr>al_version = p ! 0, al_pad0 = take 3 (drop 1 p), al_counter = le32_at p 4, al_count = p ! 8,
      al_pad1 = take 3 (drop 9 p), al_uids = map (\<lambda>i. le32_at p (12 + 4 * i)) [0 ..< 28], al_crc32 = le32_at p 124\<rparr>"

definition al_wf :: "rfid_authlist_record \<Rightarrow> bool" where
  "al_wf r \<longleftrightarrow> length (al_pad0 r) = 3 \<and> length (al_pad1 r) = 3 \<and> length (al_uids r) = 28"

definition al_zero :: rfid_authlist_record where
  "al_zero = al_of_bytes (replicate 128 0)"

definition al_seal :: "u32 \<Rightarrow> rfid_authlist_record \<Rightarrow> rfid_authlist_record" where
  "al_seal k r = r\<lparr>al_counter := k, al_crc32 := crc32 ((al_version r # al_pad0 r) @ le32_bytes k @ al_fields r)\<rparr>"

lemma length_words: "length (concat (map le32_bytes us)) = 4 * length us"
  by (induction us) simp_all

lemma le32_at_words: "i < length us \<Longrightarrow> le32_at (concat (map le32_bytes us) @ xs) (4 * i) = us ! i"
proof (induction us arbitrary: i)
  case (Cons u us)
  then show ?case
    by (cases i) (simp_all add: le32_at_bytes_append le32_at_skip_list)
qed simp

lemma al_roundtrip:
  assumes "al_wf r"
  shows "al_of_bytes (al_bytes r) = r"
proof -
  let ?h = "(al_version r # al_pad0 r) @ le32_bytes (al_counter r) @ (al_count r # al_pad1 r)"
  let ?t = "concat (map le32_bytes (al_uids r)) @ le32_bytes (al_crc32 r)"
  have len: "length ?h = 12" "length (concat (map le32_bytes (al_uids r))) = 112" "length (al_uids r) = 28"
    using assms by (simp_all add: al_wf_def length_words)
  have eq: "al_bytes r = ?h @ ?t" by (simp add: al_bytes_def al_fields_def)
  have "le32_at (al_bytes r) (12 + 4 * i) = al_uids r ! i" if "i < 28" for i
    unfolding eq using le32_at_append_right [of ?h ?t "4 * i"] le32_at_words that len by metis
  then have uids: "map (\<lambda>i. le32_at (al_bytes r) (12 + 4 * i)) [0 ..< 28] = al_uids r"
    using len(3) by (intro nth_equalityI) simp_all
  have "le32_at (al_bytes r) 124 = le32_at ?t 112"
    unfolding eq using le32_at_append_right [of ?h ?t 112] len(1) by simp
  also have "\<dots> = le32_at (le32_bytes (al_crc32 r)) 0"
    using le32_at_append_right [of "concat (map le32_bytes (al_uids r))" "le32_bytes (al_crc32 r)" 0] len(2) by simp
  finally have "le32_at (al_bytes r) 124 = al_crc32 r" by (simp add: le32_at_bytes)
  moreover have "al_bytes r ! 0 = al_version r" "take 3 (drop 1 (al_bytes r)) = al_pad0 r"
    "le32_at (al_bytes r) 4 = al_counter r" "al_bytes r ! 8 = al_count r" "take 3 (drop 9 (al_bytes r)) = al_pad1 r"
    using assms by (simp_all add: al_bytes_def al_fields_def al_wf_def record_le)
  ultimately show ?thesis unfolding al_of_bytes_def uids by (cases r) simp
qed

interpretation al_codec: slot_codec al_bytes al_of_bytes al_wf al_seal RFID_AUTHLIST_SLOT_A RFID_AUTHLIST_SLOT_B 128
proof
  show "slots_ok RFID_AUTHLIST_SLOT_A RFID_AUTHLIST_SLOT_B" by (simp add: slots_ok_def)
  fix r k
  assume wf: "al_wf r"
  then show "length (al_bytes r) = 128" by (simp add: al_wf_def al_bytes_def al_fields_def length_words)
  show "al_of_bytes (al_bytes r) = r" by (rule al_roundtrip [OF wf])
  have "length (al_version r # al_pad0 r) = 4" using wf by (simp add: al_wf_def)
  from stamp_layout [OF this, of k "al_counter r" "al_fields r" "al_crc32 r"]
  show "stamp k (al_bytes r) = al_bytes (al_seal k r)" by (simp add: al_bytes_def al_seal_def al_fields_def)
  show "al_wf (al_seal k r)" using wf by (simp add: al_wf_def al_seal_def)
qed (simp_all add: blank_invalid_128 al_wf_def al_of_bytes_def)

sublocale w25q_chip \<subseteq> al: record_store X cells idle armed al_bytes al_of_bytes al_wf al_seal
    RFID_AUTHLIST_SLOT_A RFID_AUTHLIST_SLOT_B 128 ..

abbreviation al_in_flash :: "(nat \<Rightarrow> u8) \<Rightarrow> rfid_authlist_record option" where
  "al_in_flash \<equiv> in_flash al_of_bytes RFID_AUTHLIST_SLOT_A RFID_AUTHLIST_SLOT_B 128"

section \<open>Operations\<close>

text \<open>The version, the clamped count and zeroed unused slots, then the store.\<close>

definition al_normal :: "rfid_authlist_record \<Rightarrow> rfid_authlist_record" where
  "al_normal r =
     (let r1 = r\<lparr>al_version := RFID_AUTHLIST_VERSION\<rparr>;
          r2 = (if al_count r1 > RFID_AUTHLIST_RECORD_MAX then r1\<lparr>al_count := RFID_AUTHLIST_RECORD_MAX\<rparr> else r1)
      in r2\<lparr>al_uids := take (unat (al_count r2)) (al_uids r2) @ replicate (28 - unat (al_count r2)) 0\<rparr>)"

definition al_store :: "'c spi \<Rightarrow> rfid_authlist_record \<Rightarrow> 'c \<Rightarrow> int \<times> rfid_authlist_record \<times> 'c" where
  "al_store X r c =
     (let (rc, r', c') = rec_put X RFID_AUTHLIST_SLOT_A RFID_AUTHLIST_SLOT_B al_bytes al_of_bytes (al_normal r) c
      in (if rc < 0 then rc else 0, r', c'))"

definition rfid_authlist_load :: "'c spi \<Rightarrow> rfid_authlist_record \<Rightarrow> 'c \<Rightarrow> int \<times> rfid_authlist_record \<times> 'c" where
  "rfid_authlist_load X r c =
     (case pingpong_load X RFID_AUTHLIST_SLOT_A RFID_AUTHLIST_SLOT_B 128 c of
        (PP_ARG_ERROR, c1) \<Rightarrow> (-1, r, c1)
      | (PP_NONE, c1) \<Rightarrow> al_store X (al_zero\<lparr>al_version := RFID_AUTHLIST_VERSION, al_count := 0\<rparr>) c1
      | (PP_LOADED buf _ _, c1) \<Rightarrow>
          (let r1 = al_of_bytes buf
           in (0, if al_count r1 > RFID_AUTHLIST_RECORD_MAX then r1\<lparr>al_count := RFID_AUTHLIST_RECORD_MAX\<rparr> else r1, c1)))"

definition rfid_authlist_get_nth :: "u8 \<Rightarrow> rfid_authlist_record \<Rightarrow> u32 option" where
  "rfid_authlist_get_nth idx r = (if idx \<ge> al_count r then None else Some (al_uids r ! unat idx))"

definition rfid_authlist_contains :: "u32 \<Rightarrow> rfid_authlist_record \<Rightarrow> bool" where
  "rfid_authlist_contains uid r =
     (if uid = 0 then False else list_ex (\<lambda>i. al_uids r ! i = uid) [0 ..< unat (al_count r)])"

definition rfid_authlist_add :: "'c spi \<Rightarrow> u32 \<Rightarrow> rfid_authlist_record \<Rightarrow> 'c \<Rightarrow> int \<times> rfid_authlist_record \<times> 'c" where
  "rfid_authlist_add X uid r c =
     (if uid = 0 then (-3, r, c)
      else if rfid_authlist_contains uid r then (0, r, c)
      else if al_count r \<ge> RFID_AUTHLIST_RECORD_MAX then (-1, r, c)
      else let (rc, r', c') = al_store X (r\<lparr>al_uids := (al_uids r)[unat (al_count r) := uid], al_count := al_count r + 1\<rparr>) c
           in if rc < 0 then (-2, r'\<lparr>al_count := al_count r' - 1\<rparr>, c') else (1, r', c'))"

text \<open>The removal moves the entries after the first match down by one.\<close>

definition shift_down :: "nat \<Rightarrow> nat \<Rightarrow> u32 list \<Rightarrow> u32 list" where
  "shift_down found n us = fold (\<lambda>i us. us[i - 1 := us ! i]) [found + 1 ..< n] us"

definition rfid_authlist_remove :: "'c spi \<Rightarrow> u32 \<Rightarrow> rfid_authlist_record \<Rightarrow> 'c \<Rightarrow> int \<times> rfid_authlist_record \<times> 'c" where
  "rfid_authlist_remove X uid r c =
     (if uid = 0 then (0, r, c)
      else case find (\<lambda>i. al_uids r ! i = uid) [0 ..< unat (al_count r)] of
             None \<Rightarrow> (0, r, c)
           | Some found \<Rightarrow>
               let (rc, r', c') = al_store X (r\<lparr>al_uids := shift_down found (unat (al_count r)) (al_uids r),
                     al_count := al_count r - 1\<rparr>) c
               in if rc < 0 then (rc, r', c') else (1, r', c'))"

definition rfid_authlist_clear :: "'c spi \<Rightarrow> rfid_authlist_record \<Rightarrow> 'c \<Rightarrow> int \<times> rfid_authlist_record \<times> 'c" where
  "rfid_authlist_clear X r c = (if al_count r = 0 then (0, r, c) else al_store X (r\<lparr>al_count := 0\<rparr>) c)"

section \<open>The list as a set of tags\<close>

definition al_list :: "rfid_authlist_record \<Rightarrow> u32 list" where
  "al_list r = take (unat (al_count r)) (al_uids r)"

definition al_tags :: "rfid_authlist_record \<Rightarrow> u32 set" where
  "al_tags r = set (al_list r)"

definition al_inv :: "rfid_authlist_record \<Rightarrow> bool" where
  "al_inv r \<longleftrightarrow> al_wf r \<and> al_count r \<le> RFID_AUTHLIST_RECORD_MAX \<and> distinct (al_list r) \<and> 0 \<notin> al_tags r"

lemma al_count_le: "al_inv r \<Longrightarrow> unat (al_count r) \<le> 28"
  by (simp add: al_inv_def word_le_nat_alt)

lemma al_list_nth: "al_inv r \<Longrightarrow> length (al_list r) = unat (al_count r)"
  "al_inv r \<Longrightarrow> i < unat (al_count r) \<Longrightarrow> al_list r ! i = al_uids r ! i"
  using al_count_le [of r] by (simp_all add: al_list_def al_inv_def al_wf_def)

lemma contains_iff: "al_inv r \<Longrightarrow> rfid_authlist_contains uid r \<longleftrightarrow> uid \<in> al_tags r"
proof -
  assume inv: "al_inv r"
  have "uid \<in> al_tags r \<longleftrightarrow> (\<exists>i < unat (al_count r). al_uids r ! i = uid)"
    unfolding al_tags_def in_set_conv_nth al_list_nth(1) [OF inv] using al_list_nth(2) [OF inv] by metis
  moreover have "0 \<notin> al_tags r" using inv by (simp add: al_inv_def)
  ultimately show ?thesis by (auto simp: rfid_authlist_contains_def list_ex_iff)
qed

lemma fold_shift:
  "found < n \<Longrightarrow> n \<le> length us \<Longrightarrow>
   shift_down found n us = take found us @ drop (found + 1) (take n us) @ drop (n - 1) us"
proof (induction n)
  case (Suc n)
  show ?case
  proof (cases "found = n")
    case True
    then show ?thesis using Suc.prems by (simp add: shift_down_def)
  next
    case False
    then have lt: "found < n" using Suc.prems(1) by simp
    then obtain m where m: "n = Suc m" by (cases n) simp_all
    let ?B = "drop (found + 1) (take n us)"
    let ?P = "take found us @ ?B"
    have len: "length ?P = m" using Suc.prems lt by (simp add: m)
    have n: "n < length us" using Suc.prems(2) by simp
    have tail: "drop m us = us ! m # drop n us" using n by (simp add: m Cons_nth_drop_Suc)
    have IH: "shift_down found n us = ?P @ us ! m # drop n us"
      using Suc.IH [OF lt] Suc.prems(2) by (simp add: m tail)
    have "(?P @ us ! m # drop n us) ! n = us ! n"
      using nth_append_length_plus [of ?P "us ! m # drop n us" 1, unfolded len] n by (simp add: m)
    then have "shift_down found (Suc n) us = (?P @ us ! m # drop n us)[m := us ! n]"
      using IH lt by (simp add: shift_down_def m)
    also have "\<dots> = ?P @ us ! n # drop n us"
      using list_update_length [of ?P "us ! m" "drop n us" "us ! n"] by (simp only: len)
    also have "\<dots> = take found us @ drop (found + 1) (take (Suc n) us) @ drop n us"
      using n lt by (simp add: take_Suc_conv_app_nth)
    finally show ?thesis by simp
  qed
qed simp

lemma shift_down_list:
  assumes "found < n" "n \<le> length us" "us ! found = x" "\<forall>i < found. us ! i \<noteq> x"
  shows "take (n - 1) (shift_down found n us) = remove1 x (take n us)"
proof -
  have split: "take n us = take found us @ x # drop (found + 1) (take n us)"
    using assms(1-3) id_take_nth_drop [of found "take n us"] by (simp add: min_def)
  have "x \<notin> set (take found us)" using assms(1,2,4) by (auto simp: in_set_conv_nth)
  then have "remove1 x (take n us) = take found us @ drop (found + 1) (take n us)"
    by (subst split) (simp add: remove1_append)
  moreover have "length (take found us @ drop (found + 1) (take n us)) = n - 1" using assms(1,2) by simp
  ultimately show ?thesis using fold_shift [OF assms(1,2)] by (metis append_assoc append_eq_conv_conj)
qed

section \<open>What the operations do\<close>

lemma al_seal_list: "al_list (al_seal k r) = al_list r" "al_count (al_seal k r) = al_count r" "al_wf (al_seal k r) = al_wf r"
  by (simp_all add: al_list_def al_seal_def al_wf_def)

lemma al_normal_facts:
  assumes "al_wf r" "al_count r \<le> RFID_AUTHLIST_RECORD_MAX"
  shows "al_wf (al_normal r)" "al_list (al_normal r) = al_list r" "al_count (al_normal r) = al_count r"
proof -
  have lt: "\<not> RFID_AUTHLIST_RECORD_MAX < al_count r" and le: "unat (al_count r) \<le> 28"
    using assms(2) by (simp_all add: word_le_nat_alt word_less_nat_alt)
  show "al_wf (al_normal r)" "al_list (al_normal r) = al_list r" "al_count (al_normal r) = al_count r"
    using assms(1) lt le by (simp_all add: al_normal_def Let_def al_wf_def al_list_def)
qed

lemma al_inv_cong: "al_list r' = al_list r \<Longrightarrow> al_count r' = al_count r \<Longrightarrow> al_wf r' \<Longrightarrow> al_inv r \<Longrightarrow> al_inv r'"
  by (simp add: al_inv_def al_tags_def)

definition al_synced :: "rfid_authlist_record \<Rightarrow> (nat \<Rightarrow> u8) \<Rightarrow> bool" where
  "al_synced r mem \<longleftrightarrow> al_inv r \<and> al_in_flash mem = Some r"

text \<open>The two changes of the list, before the store.\<close>

lemma al_push:
  assumes "al_inv r" "uid \<noteq> 0" "uid \<notin> al_tags r" "unat (al_count r) < 28"
  defines "r1 \<equiv> r\<lparr>al_uids := (al_uids r)[unat (al_count r) := uid], al_count := al_count r + 1\<rparr>"
  shows "al_inv r1" "al_list r1 = al_list r @ [uid]" "unat (al_count r + 1) = unat (al_count r) + 1"
proof -
  show up: "unat (al_count r + 1) = unat (al_count r) + 1" using assms(4) by (simp add: unat_word_ariths)
  have len: "length (al_uids r) = 28" using assms(1) by (simp add: al_inv_def al_wf_def)
  show l: "al_list r1 = al_list r @ [uid]"
    using assms(4) len by (simp add: r1_def al_list_def up take_Suc_conv_app_nth)
  show "al_inv r1"
    using assms(1-4) up len
    by (auto simp: al_inv_def al_tags_def l al_wf_def word_le_nat_alt) (auto simp: r1_def)
qed

lemma al_pull:
  assumes "al_inv r" "find (\<lambda>i. al_uids r ! i = uid) [0 ..< unat (al_count r)] = Some found"
  defines "r1 \<equiv> r\<lparr>al_uids := shift_down found (unat (al_count r)) (al_uids r), al_count := al_count r - 1\<rparr>"
  shows "al_inv r1" "al_list r1 = remove1 uid (al_list r)"
proof -
  let ?n = "unat (al_count r)"
  have n: "?n \<le> 28" by (rule al_count_le [OF assms(1)])
  have len: "length (al_uids r) = 28" using assms(1) by (simp add: al_inv_def al_wf_def)
  have f: "found < ?n" "al_uids r ! found = uid" "\<forall>i < found. al_uids r ! i \<noteq> uid"
    using assms(2) by (auto simp: find_Some_iff)
  have down: "unat (al_count r - 1) = ?n - 1" using f(1) by (intro unat_minus_one) auto
  have ls: "length (shift_down found ?n (al_uids r)) = 28"
    using fold_shift [OF f(1), of "al_uids r"] f(1) n by (simp add: len)
  show l: "al_list r1 = remove1 uid (al_list r)"
    using shift_down_list [OF f(1) _ f(2,3)] n by (simp add: r1_def al_list_def down len)
  have "set (remove1 uid (al_list r)) \<subseteq> al_tags r" using set_remove1_subset by (simp add: al_tags_def)
  moreover have "0 \<notin> al_tags r" "distinct (al_list r)" using assms(1) by (simp_all add: al_inv_def)
  moreover have "al_wf r1" "al_count r1 \<le> RFID_AUTHLIST_RECORD_MAX"
    using assms(1) n ls by (auto simp: al_inv_def r1_def al_wf_def word_le_nat_alt down)
  ultimately show "al_inv r1" by (auto simp: al_inv_def al_tags_def l)
qed

context w25q_chip
begin

lemma al_store_spec:
  assumes "idle c" "al_inv r" "al_store X r c = (rc, r', c')"
  shows "al_inv r'" "al_list r' = al_list r" "al_count r' = al_count r" "rc \<le> 0"
    "rc = 0 \<Longrightarrow> idle c' \<and> al_synced r' (cells c')"
proof -
  note nf = al_normal_facts [of r]
  have wf: "al_wf (al_normal r)" and n: "al_list (al_normal r) = al_list r" "al_count (al_normal r) = al_count r"
    using assms(2) nf by (simp_all add: al_inv_def)
  obtain rc0 where put: "rec_put X RFID_AUTHLIST_SLOT_A RFID_AUTHLIST_SLOT_B al_bytes al_of_bytes (al_normal r) c = (rc0, r', c')"
    and rc: "rc = (if rc0 < 0 then rc0 else 0)"
    using assms(3) by (auto simp: al_store_def Let_def split: prod.splits)
  note sp = al.put_spec [OF assms(1) wf put]
  obtain k where k: "r' = al_seal k (al_normal r)" using sp(1) by blast
  show l: "al_list r' = al_list r" and ct: "al_count r' = al_count r" by (simp_all add: k al_seal_list n)
  show inv: "al_inv r'" by (rule al_inv_cong [OF l ct sp(2) assms(2)])
  show "rc \<le> 0" by (simp add: rc)
  assume "rc = 0"
  then have "rc0 = 0" using sp(4) by (auto simp: rc split: if_splits)
  with sp(3) inv show "idle c' \<and> al_synced r' (cells c')" by (simp add: al_synced_def)
qed

lemma al_store_touches:
  assumes "idle c" "al_inv r" "al_store X r c = (rc, r', c')"
  shows "only_touches cells {5, 6} c c'"
proof -
  have wf: "al_wf (al_normal r)" using assms(2) al_normal_facts [of r] by (simp add: al_inv_def)
  obtain rc0 where put: "rec_put X RFID_AUTHLIST_SLOT_A RFID_AUTHLIST_SLOT_B al_bytes al_of_bytes (al_normal r) c = (rc0, r', c')"
    using assms(3) by (auto simp: al_store_def Let_def split: prod.splits)
  show ?thesis using al.put_frame [OF assms(1) wf put] by (simp add: only_touches_def)
qed

lemma al_store_completes: "idle c \<Longrightarrow> al_inv r \<Longrightarrow> completes X idle \<Longrightarrow> fst (al_store X r c) = 0"
  using al.put_completes [of c "al_normal r"] al_normal_facts [of r]
  by (auto simp: al_store_def Let_def al_inv_def case_prod_unfold)

text \<open>Each operation on the list of tags.\<close>

lemma al_add_spec:
  assumes "idle c" "al_inv r" "rfid_authlist_add X uid r c = (rc, r', c')"
  shows "al_inv r'"
    "rc = (if uid = 0 then -3 else if uid \<in> al_tags r then 0 else if 28 \<le> length (al_list r) then -1
       else if fst (al_store X (r\<lparr>al_uids := (al_uids r)[unat (al_count r) := uid], al_count := al_count r + 1\<rparr>) c) < 0
       then -2 else 1)"
    "rc = 1 \<Longrightarrow> al_list r' = al_list r @ [uid] \<and> idle c' \<and> al_synced r' (cells c')"
    "rc \<noteq> 1 \<Longrightarrow> al_list r' = al_list r"
proof -
  have full: "al_count r \<ge> RFID_AUTHLIST_RECORD_MAX \<longleftrightarrow> 28 \<le> length (al_list r)"
    using al_list_nth(1) [OF assms(2)] by (simp add: word_le_nat_alt)
  have ct: "rfid_authlist_contains uid r \<longleftrightarrow> uid \<in> al_tags r" by (rule contains_iff [OF assms(2)])
  let ?r = "r\<lparr>al_uids := (al_uids r)[unat (al_count r) := uid], al_count := al_count r + 1\<rparr>"
  obtain rc0 r0 c0 where st: "al_store X ?r c = (rc0, r0, c0)" by (cases "al_store X ?r c")
  show "rc = (if uid = 0 then -3 else if uid \<in> al_tags r then 0 else if 28 \<le> length (al_list r) then -1
       else if fst (al_store X ?r c) < 0 then -2 else 1)"
    using assms(3) by (auto simp: rfid_authlist_add_def ct full st Let_def split: if_splits)
  consider (same) "rc \<noteq> 1" "r' = r"
    | (stored) "uid \<noteq> 0" "uid \<notin> al_tags r" "length (al_list r) < 28"
        "if rc0 < 0 then rc = -2 \<and> r' = r0\<lparr>al_count := al_count r0 - 1\<rparr> else rc = 1 \<and> r' = r0" "c' = c0"
    using assms(3) by (auto simp: rfid_authlist_add_def ct full st Let_def not_le split: if_splits)
  then have "al_inv r' \<and> (rc = 1 \<longrightarrow> al_list r' = al_list r @ [uid] \<and> idle c' \<and> al_synced r' (cells c')) \<and>
    (rc \<noteq> 1 \<longrightarrow> al_list r' = al_list r)"
  proof cases
    case same
    then show ?thesis using assms(2) by simp
  next
    case stored
    have n: "unat (al_count r) < 28" using stored(3) al_list_nth(1) [OF assms(2)] by simp
    note push = al_push [OF assms(2) stored(1,2) n]
    note inv = push(1) and l = push(2) and up = push(3)
    note sp = al_store_spec [OF assms(1) inv st]
    have undone: "al_inv (r0\<lparr>al_count := al_count r0 - 1\<rparr>) \<and> al_list (r0\<lparr>al_count := al_count r0 - 1\<rparr>) = al_list r"
    proof -
      have c: "al_count r0 - 1 = al_count r" by (simp add: sp(3))
      have "take (unat (al_count r)) (al_list r0) = al_list r"
        using al_list_nth(1) [OF assms(2)] by (simp add: sp(2) l)
      then have li: "al_list (r0\<lparr>al_count := al_count r0 - 1\<rparr>) = al_list r"
        using n by (simp add: al_list_def c sp(3) up)
      have wf: "al_wf (r0\<lparr>al_count := al_count r0 - 1\<rparr>)" using sp(1) by (simp add: al_inv_def al_wf_def)
      have "al_inv (r0\<lparr>al_count := al_count r0 - 1\<rparr>)"
        by (rule al_inv_cong [OF li _ wf assms(2)]) (simp add: c)
      with li show ?thesis by simp
    qed
    show ?thesis using stored(4,5) undone sp(1,2,4,5) l by (auto split: if_splits)
  qed
  then show "al_inv r'" "rc = 1 \<Longrightarrow> al_list r' = al_list r @ [uid] \<and> idle c' \<and> al_synced r' (cells c')"
    "rc \<noteq> 1 \<Longrightarrow> al_list r' = al_list r" by simp_all
qed

lemma al_remove_spec:
  assumes "idle c" "al_inv r" "rfid_authlist_remove X uid r c = (rc, r', c')"
  shows "al_inv r'" "al_list r' = remove1 uid (al_list r)"
    "rc = 1 \<Longrightarrow> uid \<in> al_tags r \<and> idle c' \<and> al_synced r' (cells c')"
    "rc = 0 \<longleftrightarrow> uid \<notin> al_tags r"
proof -
  let ?n = "unat (al_count r)"
  have n: "?n \<le> 28" by (rule al_count_le [OF assms(2)])
  have len: "length (al_uids r) = 28" using assms(2) by (simp add: al_inv_def al_wf_def)
  have tags: "uid \<in> al_tags r \<longleftrightarrow> (\<exists>i < ?n. al_uids r ! i = uid)"
    unfolding al_tags_def in_set_conv_nth al_list_nth(1) [OF assms(2)] using al_list_nth(2) [OF assms(2)] by metis
  have zero: "0 \<notin> al_tags r" using assms(2) by (simp add: al_inv_def)
  have "al_inv r' \<and> al_list r' = remove1 uid (al_list r) \<and>
    (rc = 1 \<longrightarrow> uid \<in> al_tags r \<and> idle c' \<and> al_synced r' (cells c')) \<and> (rc = 0 \<longleftrightarrow> uid \<notin> al_tags r)"
  proof (cases "uid \<in> al_tags r")
    case False
    then have "find (\<lambda>i. al_uids r ! i = uid) [0 ..< ?n] = None" using tags by (auto simp: find_None_iff)
    then have "rc = 0" "r' = r" using assms(3) by (auto simp: rfid_authlist_remove_def split: if_splits)
    moreover have "uid \<notin> set (al_list r)" using False by (simp add: al_tags_def)
    ultimately show ?thesis using False assms(2) by (simp add: remove1_idem)
  next
    case True
    have nz: "uid \<noteq> 0" using True zero by auto
    have "find (\<lambda>i. al_uids r ! i = uid) [0 ..< ?n] \<noteq> None" using True tags by (auto simp: find_None_iff)
    then obtain found where fd: "find (\<lambda>i. al_uids r ! i = uid) [0 ..< ?n] = Some found" by auto
    let ?r = "r\<lparr>al_uids := shift_down found ?n (al_uids r), al_count := al_count r - 1\<rparr>"
    note pull = al_pull [OF assms(2) fd]
    note inv = pull(1) and l = pull(2)
    obtain rc0 r0 c0 where st: "al_store X ?r c = (rc0, r0, c0)" by (cases "al_store X ?r c")
    note sp = al_store_spec [OF assms(1) inv st]
    have run: "r' = r0" "c' = c0" "rc = (if rc0 < 0 then rc0 else 1)"
      using assms(3) by (auto simp: rfid_authlist_remove_def nz fd st Let_def split: if_splits)
    show ?thesis using sp(1,2,4,5) l True by (auto simp: run split: if_splits)
  qed
  then show "al_inv r'" "al_list r' = remove1 uid (al_list r)"
    "rc = 1 \<Longrightarrow> uid \<in> al_tags r \<and> idle c' \<and> al_synced r' (cells c')" "rc = 0 \<longleftrightarrow> uid \<notin> al_tags r" by simp_all
qed

lemma al_clear_spec:
  assumes "idle c" "al_synced r (cells c)" "rfid_authlist_clear X r c = (rc, r', c')"
  shows "al_inv r'" "al_list r' = []" "rc = 0 \<Longrightarrow> idle c' \<and> al_synced r' (cells c')"
proof -
  have inv: "al_inv r" using assms(2) by (simp add: al_synced_def)
  have inv0: "al_inv (r\<lparr>al_count := 0\<rparr>)" using inv by (simp add: al_inv_def al_wf_def al_list_def al_tags_def)
  show "al_inv r'" "al_list r' = []" "rc = 0 \<Longrightarrow> idle c' \<and> al_synced r' (cells c')"
    using assms(3) inv assms(1,2) al_store_spec [OF assms(1) inv0, of rc r' c']
    by (auto simp: rfid_authlist_clear_def al_list_def split: if_splits)
qed

lemma al_load_spec:
  assumes "idle c" "al_synced r (cells c)" "rfid_authlist_load X old c = (rc, r', c')"
  shows "rc = 0 \<and> r' = r \<and> idle c' \<and> cells c' = cells c"
proof -
  obtain res c1 where ld: "pingpong_load X RFID_AUTHLIST_SLOT_A RFID_AUTHLIST_SLOT_B 128 c = (res, c1)"
    by (cases "pingpong_load X RFID_AUTHLIST_SLOT_A RFID_AUTHLIST_SLOT_B 128 c")
  note gs = al.get_spec [OF assms(1) ld]
  obtain buf s k where "res = PP_LOADED buf s k" "al_of_bytes buf = r"
    using gs(4) assms(2) by (auto simp: al_synced_def)
  moreover have "\<not> RFID_AUTHLIST_RECORD_MAX < al_count r" using assms(2) by (simp add: al_synced_def al_inv_def leD)
  ultimately have "rfid_authlist_load X old c = (0, r, c1)" by (simp add: rfid_authlist_load_def ld)
  with assms(3) gs(1,2) show ?thesis by simp
qed

text \<open>On a device that completes its operations.\<close>

lemma al_changes_ok:
  assumes "idle c" "al_inv r" "completes X idle"
    and "rfid_authlist_add X uid r c = (rc, r', c') \<or> rfid_authlist_remove X uid r c = (rc, r', c') \<or>
      rfid_authlist_clear X r c = (rc, r', c')"
  shows "idle c' \<and> al_inv r' \<and> only_touches cells {5, 6} c c'"
proof -
  have "c' = c \<and> r' = r \<or> (\<exists>r1 rc1 r2. al_inv r1 \<and> al_store X r1 c = (rc1, r2, c') \<and> (rc1 < 0 \<or> r' = r2))"
    using assms(4)
  proof (elim disjE)
    assume "rfid_authlist_add X uid r c = (rc, r', c')"
    then show ?thesis
      using al_push(1) [OF assms(2), of uid] contains_iff [OF assms(2), of uid]
      by (cases "al_store X (r\<lparr>al_uids := (al_uids r)[unat (al_count r) := uid], al_count := al_count r + 1\<rparr>) c")
        (auto simp: rfid_authlist_add_def Let_def word_le_nat_alt not_le split: if_splits)
  next
    assume "rfid_authlist_remove X uid r c = (rc, r', c')"
    then show ?thesis
      using al_pull(1) [OF assms(2), of uid]
      by (auto simp: rfid_authlist_remove_def Let_def split: if_splits option.splits prod.splits)
  next
    assume "rfid_authlist_clear X r c = (rc, r', c')"
    moreover have "al_inv (r\<lparr>al_count := 0\<rparr>)" using assms(2) by (simp add: al_inv_def al_wf_def al_list_def al_tags_def)
    ultimately show ?thesis by (auto simp: rfid_authlist_clear_def split: if_splits)
  qed
  then show ?thesis
  proof (elim disjE exE conjE)
    assume "c' = c" "r' = r" then show ?thesis using assms(1,2) touches_refl by simp
  next
    fix r1 rc1 r2
    assume inv: "al_inv r1" and st: "al_store X r1 c = (rc1, r2, c')" and "rc1 < 0"
    then show ?thesis using al_store_completes [OF assms(1) inv assms(3)] by simp
  next
    fix r1 rc1 r2
    assume inv: "al_inv r1" and st: "al_store X r1 c = (rc1, r2, c')" and r': "r' = r2"
    have "rc1 = 0" using al_store_completes [OF assms(1) inv assms(3)] by (simp add: st)
    then show ?thesis
      using al_store_spec(1,5) [OF assms(1) inv st] al_store_touches [OF assms(1) inv st] r' by simp
  qed
qed

end

end
