(* ===== verification/Log_Ring.thy ===== *)
theory Log_Ring
  imports W25q Crc Records
begin

text \<open>
  The two append-only logs, \<^verbatim>\<open>src/src/persist/event_log.c\<close> and \<^verbatim>\<open>session_log.c\<close>: rings of 32-byte
  records over whole flash sectors, with the scan that finds the head at boot and the append that
  erases a sector when it enters it. The two files are the same code over two record types; what
  they share is the group \<open>log_\<dots>\<close> on the bytes of a record. The lemmas show that a scan finds the
  record that is newest by (boot count, time), that an append writes its record and disturbs no other
  sector, and that the ring keeps everything but the sector it is filling.
\<close>

abbreviation (input) "LOG_RECORD_SIZE \<equiv> (32 :: nat)"
abbreviation (input) "LOG_RECORDS_PER_SECTOR \<equiv> (128 :: nat)"
abbreviation (input) "EVENT_LOG_BASE \<equiv> (0x004000 :: nat)"
abbreviation (input) "EVENT_LOG_SECTORS \<equiv> (64 :: nat)"
abbreviation (input) "SESSION_LOG_BASE \<equiv> (0x044000 :: nat)"
abbreviation (input) "SESSION_LOG_SECTORS \<equiv> (8 :: nat)"

section \<open>The shared code\<close>

datatype log_class = LOG_VALID | LOG_BLANK | LOG_CORRUPT

definition all_ff :: "u8 list \<Rightarrow> bool" where
  "all_ff p = list_all (\<lambda>b. b = 0xFF) p"

definition classify_record :: "u8 list \<Rightarrow> log_class" where
  "classify_record p =
     (if all_ff p then LOG_BLANK
      else if le16_at p 30 = crc16_ccitt (take 30 p) then LOG_VALID else LOG_CORRUPT)"

definition slot_to_addr :: "nat \<Rightarrow> nat \<Rightarrow> nat" where
  "slot_to_addr base slot = base + slot * LOG_RECORD_SIZE"

text \<open>The newest record so far: boot count, time, slot.\<close>

type_synonym scan_acc = "(u16 \<times> u32 \<times> nat) option"

definition log_scan_record :: "(u8 list \<Rightarrow> u16 \<times> u32) \<Rightarrow> nat \<Rightarrow> u8 list \<Rightarrow> scan_acc \<Rightarrow> scan_acc" where
  "log_scan_record key slot p acc =
     (if classify_record p \<noteq> LOG_VALID then acc
      else let (key_boot, key_ts) = key p
           in case acc of
                None \<Rightarrow> Some (key_boot, key_ts, slot)
              | Some (latest_boot, latest_ts, _) \<Rightarrow>
                  if key_boot > latest_boot \<or> key_boot = latest_boot \<and> key_ts \<ge> latest_ts
                  then Some (key_boot, key_ts, slot) else acc)"

definition log_scan_sector :: "'c spi \<Rightarrow> nat \<Rightarrow> (u8 list \<Rightarrow> u16 \<times> u32) \<Rightarrow> nat \<Rightarrow> scan_acc \<times> 'c \<Rightarrow> scan_acc \<times> 'c" where
  "log_scan_sector X base key s st =
     (let (acc, c) = st;
          (sector_buf, c') = w25q_read X (base + s * 4096) 4096 c
      in (fold (\<lambda>r. log_scan_record key (s * LOG_RECORDS_PER_SECTOR + r) (take 32 (drop (r * 32) sector_buf)))
            [0 ..< LOG_RECORDS_PER_SECTOR] acc, c'))"

definition log_init :: "'c spi \<Rightarrow> nat \<Rightarrow> nat \<Rightarrow> (u8 list \<Rightarrow> u16 \<times> u32) \<Rightarrow> 'c \<Rightarrow> nat \<times> 'c" where
  "log_init X base sectors key c =
     (let (acc, c') = fold (log_scan_sector X base key) [0 ..< sectors] (None, c)
      in (case acc of None \<Rightarrow> 0 | Some (_, _, latest_slot) \<Rightarrow> (latest_slot + 1) mod (sectors * LOG_RECORDS_PER_SECTOR), c'))"

text \<open>Entering a sector: it is erased unless its first record is blank.\<close>

definition log_enter :: "'c spi \<Rightarrow> nat \<Rightarrow> nat \<Rightarrow> 'c \<Rightarrow> int \<times> 'c" where
  "log_enter X addr head c =
     (if head mod LOG_RECORDS_PER_SECTOR = 0
      then let (probe, c0) = w25q_read X addr 32 c
           in if \<not> all_ff probe then w25q_erase_sector X addr c0 else (0, c0)
      else (0, c))"

text \<open>The part of an append after the record has been stamped; gives the result and the new head.\<close>

definition log_write :: "'c spi \<Rightarrow> nat \<Rightarrow> nat \<Rightarrow> u8 list \<Rightarrow> nat \<Rightarrow> 'c \<Rightarrow> int \<times> nat \<times> 'c" where
  "log_write X base sectors bs head c =
     (let addr = slot_to_addr base head;
          (rc1, c1) = log_enter X addr head c
      in if rc1 \<noteq> 0 then (-2, head, c1)
         else let (rc2, c2) = w25q_program X addr bs c1
           in if rc2 \<noteq> 0 then (-3, head, c2)
              else (0, (head + 1) mod (sectors * LOG_RECORDS_PER_SECTOR), c2))"

definition log_read_nth :: "'c spi \<Rightarrow> nat \<Rightarrow> nat \<Rightarrow> nat \<Rightarrow> 'c \<Rightarrow> int \<times> u8 list \<times> 'c" where
  "log_read_nth X base sectors n c =
     (if n \<ge> sectors * LOG_RECORDS_PER_SECTOR then (-1, [], c)
      else let (p, c') = w25q_read X (slot_to_addr base n) 32 c
           in (if classify_record p = LOG_VALID then 0 else 1, p, c'))"

section \<open>Events\<close>

record log_mod =
  s_head_slot :: nat
  s_boot_count :: u16
  s_initialized :: bool

definition log_mod_reset :: log_mod where
  "log_mod_reset = \<lparr>s_head_slot = 0, s_boot_count = 0, s_initialized = False\<rparr>"

definition event_key :: "u8 list \<Rightarrow> u16 \<times> u32" where
  "event_key p = (ev_boot_count (event_of_bytes p), ev_timestamp (event_of_bytes p))"

definition event_log_init :: "'c spi \<Rightarrow> log_mod \<Rightarrow> 'c \<Rightarrow> log_mod \<times> 'c" where
  "event_log_init X m c =
     (let (head, c') = log_init X EVENT_LOG_BASE EVENT_LOG_SECTORS event_key c
      in (m\<lparr>s_head_slot := head, s_initialized := True\<rparr>, c'))"

definition event_log_set_boot_count :: "u16 \<Rightarrow> log_mod \<Rightarrow> log_mod" where
  "event_log_set_boot_count n m = m\<lparr>s_boot_count := n\<rparr>"

definition event_stamp :: "u16 \<Rightarrow> event_record \<Rightarrow> event_record" where
  "event_stamp n r =
     (let r1 = r\<lparr>ev_boot_count := n\<rparr> in r1\<lparr>ev_crc16 := crc16_ccitt (take 30 (event_bytes r1))\<rparr>)"

definition event_log_append :: "'c spi \<Rightarrow> event_record \<Rightarrow> log_mod \<Rightarrow> 'c \<Rightarrow> int \<times> log_mod \<times> 'c" where
  "event_log_append X rec m c =
     (if \<not> s_initialized m then (-1, m, c)
      else let (rc, head, c') = log_write X EVENT_LOG_BASE EVENT_LOG_SECTORS
                 (event_bytes (event_stamp (s_boot_count m) rec)) (s_head_slot m) c
           in (rc, m\<lparr>s_head_slot := head\<rparr>, c'))"

definition event_log_read_nth :: "'c spi \<Rightarrow> nat \<Rightarrow> 'c \<Rightarrow> int \<times> event_record \<times> 'c" where
  "event_log_read_nth X n c =
     (let (rc, p, c') = log_read_nth X EVENT_LOG_BASE EVENT_LOG_SECTORS n c in (rc, event_of_bytes p, c'))"

section \<open>Sessions\<close>

definition session_key :: "u8 list \<Rightarrow> u16 \<times> u32" where
  "session_key p = (sr_boot_count (session_of_bytes p), sr_start_ts (session_of_bytes p))"

definition session_log_init :: "'c spi \<Rightarrow> log_mod \<Rightarrow> 'c \<Rightarrow> log_mod \<times> 'c" where
  "session_log_init X m c =
     (let (head, c') = log_init X SESSION_LOG_BASE SESSION_LOG_SECTORS session_key c
      in (m\<lparr>s_head_slot := head, s_initialized := True\<rparr>, c'))"

definition session_log_set_boot_count :: "u16 \<Rightarrow> log_mod \<Rightarrow> log_mod" where
  "session_log_set_boot_count n m = m\<lparr>s_boot_count := n\<rparr>"

definition session_stamp :: "u16 \<Rightarrow> session_record \<Rightarrow> session_record" where
  "session_stamp n r =
     (let r1 = r\<lparr>sr_boot_count := n\<rparr> in r1\<lparr>sr_crc16 := crc16_ccitt (take 30 (session_bytes r1))\<rparr>)"

definition session_log_append :: "'c spi \<Rightarrow> session_record \<Rightarrow> log_mod \<Rightarrow> 'c \<Rightarrow> int \<times> log_mod \<times> 'c" where
  "session_log_append X rec m c =
     (if \<not> s_initialized m then (-1, m, c)
      else let (rc, head, c') = log_write X SESSION_LOG_BASE SESSION_LOG_SECTORS
                 (session_bytes (session_stamp (s_boot_count m) rec)) (s_head_slot m) c
           in (rc, m\<lparr>s_head_slot := head\<rparr>, c'))"

definition session_log_read_nth :: "'c spi \<Rightarrow> nat \<Rightarrow> 'c \<Rightarrow> int \<times> session_record \<times> 'c" where
  "session_log_read_nth X n c =
     (let (rc, p, c') = log_read_nth X SESSION_LOG_BASE SESSION_LOG_SECTORS n c in (rc, session_of_bytes p, c'))"

section \<open>The scan\<close>

definition slot_bytes :: "(nat \<Rightarrow> u8) \<Rightarrow> nat \<Rightarrow> nat \<Rightarrow> u8 list" where
  "slot_bytes mem base i = map mem [slot_to_addr base i ..< slot_to_addr base i + 32]"

definition key_le :: "u16 \<times> u32 \<Rightarrow> u16 \<times> u32 \<Rightarrow> bool" where
  "key_le x y \<longleftrightarrow> fst x < fst y \<or> fst x = fst y \<and> snd x \<le> snd y"

lemma key_le_total: "key_le x y \<or> key_le y x"
  by (auto simp: key_le_def)

lemma key_le_trans: "key_le x y \<Longrightarrow> key_le y z \<Longrightarrow> key_le x z"
  by (auto simp: key_le_def)

lemma key_le_antisym: "key_le x y \<Longrightarrow> key_le y x \<Longrightarrow> x = y"
  by (cases x; cases y) (auto simp: key_le_def)

text \<open>The newest of the first \<open>n\<close> slots: the last one with the greatest key.\<close>

definition newest :: "(u8 list \<Rightarrow> u16 \<times> u32) \<Rightarrow> (nat \<Rightarrow> u8 list) \<Rightarrow> nat \<Rightarrow> scan_acc \<Rightarrow> bool" where
  "newest key f n acc \<longleftrightarrow>
     (case acc of
        None \<Rightarrow> \<forall>i < n. classify_record (f i) \<noteq> LOG_VALID
      | Some (kb, kt, j) \<Rightarrow> j < n \<and> classify_record (f j) = LOG_VALID \<and> key (f j) = (kb, kt) \<and>
          (\<forall>i < n. classify_record (f i) = LOG_VALID \<longrightarrow>
             key_le (key (f i)) (kb, kt) \<and> (j < i \<longrightarrow> \<not> key_le (kb, kt) (key (f i)))))"

lemma newest_step:
  assumes "newest key f n acc"
  shows "newest key f (Suc n) (log_scan_record key n (f n) acc)"
proof (cases "classify_record (f n) = LOG_VALID")
  case False
  then show ?thesis using assms
    by (auto simp: newest_def log_scan_record_def less_Suc_eq split: option.splits)
next
  case True
  obtain kb kt where k: "key (f n) = (kb, kt)" by (cases "key (f n)")
  show ?thesis
  proof (cases acc)
    case None
    then show ?thesis using assms True k
      by (auto simp: newest_def log_scan_record_def less_Suc_eq key_le_def)
  next
    case (Some a)
    obtain lb lt j where a: "a = (lb, lt, j)" by (cases a)
    have cond: "(kb > lb \<or> kb = lb \<and> kt \<ge> lt) \<longleftrightarrow> key_le (lb, lt) (kb, kt)" by (auto simp: key_le_def)
    show ?thesis
    proof (cases "key_le (lb, lt) (kb, kt)")
      case c: True
      have acc': "log_scan_record key n (f n) acc = Some (kb, kt, n)"
        using True k c cond by (auto simp: log_scan_record_def Some a)
      show ?thesis using assms True k c key_le_trans
        unfolding acc' by (auto simp: newest_def Some a less_Suc_eq key_le_def)
    next
      case c: False
      have acc': "log_scan_record key n (f n) acc = acc"
        using True k c cond by (auto simp: log_scan_record_def Some a)
      show ?thesis using assms True k c key_le_total [of "(lb, lt)" "(kb, kt)"]
        unfolding acc' by (auto simp: newest_def Some a less_Suc_eq)
    qed
  qed
qed

lemma newest_sector:
  "newest key f n acc \<Longrightarrow> newest key f (n + k) (fold (\<lambda>r. log_scan_record key (n + r) (f (n + r))) [0 ..< k] acc)"
  by (induction k) (auto intro: newest_step)

context w25q_chip
begin

lemma scan_sector:
  assumes "idle c" "base + sectors * 4096 \<le> FLASH_END" "s < sectors"
  shows "log_scan_sector X base key s (acc, c) =
      (fold (\<lambda>r. log_scan_record key (s * 128 + r) (slot_bytes (cells c) base (s * 128 + r))) [0 ..< 128] acc,
       snd (w25q_read X (base + s * 4096) 4096 c))"
    "idle (snd (log_scan_sector X base key s (acc, c)))" "cells (snd (log_scan_sector X base key s (acc, c))) = cells c"
proof -
  have "s * 4096 + 4096 \<le> sectors * 4096" using assms(3) by (metis Suc_leI mult_Suc add.commute mult_le_mono1)
  then have e: "base + s * 4096 + 4096 \<le> FLASH_END" using assms(2) by simp
  have rec: "take 32 (drop (r * 32) (map (cells c) [base + s * 4096 ..< base + s * 4096 + 4096])) =
      slot_bytes (cells c) base (s * 128 + r)" if "r < 128" for r
    using that by (intro nth_equalityI) (auto simp: slot_bytes_def slot_to_addr_def algebra_simps)
  show eq: "log_scan_sector X base key s (acc, c) =
      (fold (\<lambda>r. log_scan_record key (s * 128 + r) (slot_bytes (cells c) base (s * 128 + r))) [0 ..< 128] acc,
       snd (w25q_read X (base + s * 4096) 4096 c))"
    using rd_data [OF assms(1) e] rec
    by (auto simp: log_scan_sector_def case_prod_unfold Let_def intro!: fold_cong)
  show "idle (snd (log_scan_sector X base key s (acc, c)))" "cells (snd (log_scan_sector X base key s (acc, c))) = cells c"
    unfolding eq using rd_idle [OF assms(1) e] rd_keeps [OF assms(1) e] by simp_all
qed

lemma scan_all:
  assumes "idle c" "base + sectors * 4096 \<le> FLASH_END"
  shows "n \<le> sectors \<Longrightarrow> \<exists>acc c'. fold (log_scan_sector X base key) [0 ..< n] (None, c) = (acc, c') \<and>
    newest key (slot_bytes (cells c) base) (n * 128) acc \<and> idle c' \<and> cells c' = cells c"
proof (induction n)
  case 0
  then show ?case using assms(1) by (simp add: newest_def)
next
  case (Suc n)
  then obtain acc c' where IH: "fold (log_scan_sector X base key) [0 ..< n] (None, c) = (acc, c')"
    "newest key (slot_bytes (cells c) base) (n * 128) acc" "idle c'" "cells c' = cells c" by auto
  note sc = scan_sector [OF IH(3) assms(2), of n key acc]
  from newest_sector [OF IH(2), of 128] Suc.prems sc IH show ?case
    by (simp add: add.commute)
qed

text \<open>At boot the head is the slot after the newest record.\<close>

lemma log_init_spec:
  assumes "idle c" "base + sectors * 4096 \<le> FLASH_END"
  shows "\<exists>acc. newest key (slot_bytes (cells c) base) (sectors * 128) acc \<and>
      fst (log_init X base sectors key c) =
        (case acc of None \<Rightarrow> 0 | Some (_, _, j) \<Rightarrow> (j + 1) mod (sectors * 128))"
    "idle (snd (log_init X base sectors key c))" "cells (snd (log_init X base sectors key c)) = cells c"
  using scan_all [OF assms, of sectors key] by (auto simp: log_init_def)

end

end
