(* ===== verification/Log_Props.thy ===== *)
theory Log_Props
  imports Log_Ring
begin

text \<open>
  What an append does to the ring of \<open>Log_Ring\<close>: the invariant (the unwritten part of the sector being
  filled is blank, and a sector whose first record is blank is blank), the effect and the frame of one
  append, and the records a run of appends leaves.
\<close>

section \<open>Slots and sectors\<close>

lemma div_cases:
  fixes i d :: nat
  assumes "0 < d" "\<And>q r. i = d * q + r \<Longrightarrow> r < d \<Longrightarrow> i div d = q \<Longrightarrow> thesis"
  shows thesis
  by (rule assms(2) [of "i div d" "i mod d"]) (simp_all add: assms(1))

lemma slot_sector:
  fixes base i x :: nat
  assumes "base mod 4096 = 0" "slot_to_addr base i \<le> x" "x < slot_to_addr base i + 32"
  shows "x div 4096 = base div 4096 + i div 128"
proof -
  obtain b where b: "base = 4096 * b" using assms(1) by auto
  obtain q r where i: "i = 128 * q + r" "r < 128" "i div 128 = q" by (rule div_cases [of 128 i]) simp
  obtain d where d: "x = slot_to_addr base i + d" "d < 32" using assms(2,3) by (metis add_less_cancel_left le_Suc_ex)
  then have "x = 4096 * (b + q) + (32 * r + d)" using i(1) b by (simp add: slot_to_addr_def)
  moreover have "32 * r + d < 4096" using i(2) d(2) by simp
  ultimately show ?thesis using b i(3) by simp
qed

lemma slot_page:
  fixes base i :: nat
  assumes "base mod 4096 = 0"
  shows "slot_to_addr base i mod 256 + 32 \<le> 256"
proof -
  obtain b where b: "base = 4096 * b" using assms by auto
  obtain q r where i: "i = 8 * q + r" "r < 8" by (rule div_cases [of 8 i]) simp
  then have "slot_to_addr base i = 256 * (16 * b + q) + 32 * r"
    using b by (simp add: slot_to_addr_def)
  then have "slot_to_addr base i mod 256 = (32 * r) mod 256" by (simp only: mod_mult_self4 mod_mult_self2 add.commute)
  with i(2) show ?thesis by simp
qed

lemma slot_end:
  assumes "base + sectors * 4096 \<le> FLASH_END" "i < sectors * 128"
  shows "slot_to_addr base i + 32 \<le> FLASH_END" "slot_to_addr base i < FLASH_END"
proof -
  have "Suc i * 32 \<le> sectors * 128 * 32" using assms(2) by (intro mult_le_mono1) simp
  then have "i * 32 + 32 \<le> sectors * 4096" by simp
  with assms(1) show "slot_to_addr base i + 32 \<le> FLASH_END" by (simp add: slot_to_addr_def)
  then show "slot_to_addr base i < FLASH_END" by simp
qed

lemma slot_bytes_cong:
  "(\<And>x. slot_to_addr base i \<le> x \<Longrightarrow> x < slot_to_addr base i + 32 \<Longrightarrow> mem x = mem' x) \<Longrightarrow>
   slot_bytes mem base i = slot_bytes mem' base i"
  by (simp add: slot_bytes_def)

lemma slot_blank_at: "all_ff (slot_bytes mem base i) \<longleftrightarrow> blank_at mem (slot_to_addr base i) 32"
proof -
  have "(\<forall>x \<in> set [a ..< a + 32]. mem x = 0xFF) \<longleftrightarrow> (\<forall>j < 32. mem (a + j) = 0xFF)" for a
  proof (intro iffI ballI allI impI)
    fix x assume "\<forall>j < 32. mem (a + j) = 0xFF" "x \<in> set [a ..< a + 32]"
    then show "mem x = 0xFF" by (auto dest!: spec [of _ "x - a"])
  qed auto
  then show ?thesis unfolding all_ff_def slot_bytes_def list_all_iff blank_at_def by auto
qed

section \<open>The invariant\<close>

definition sector_tidy :: "(nat \<Rightarrow> u8) \<Rightarrow> nat \<Rightarrow> nat \<Rightarrow> bool" where
  "sector_tidy mem base s \<longleftrightarrow>
     (all_ff (slot_bytes mem base (s * 128)) \<longrightarrow> (\<forall>i. i div 128 = s \<longrightarrow> all_ff (slot_bytes mem base i)))"

definition log_inv :: "(nat \<Rightarrow> u8) \<Rightarrow> nat \<Rightarrow> nat \<Rightarrow> nat \<Rightarrow> bool" where
  "log_inv mem base sectors head \<longleftrightarrow>
     head < sectors * 128 \<and> (\<forall>s < sectors. sector_tidy mem base s) \<and>
     (head mod 128 \<noteq> 0 \<longrightarrow> \<not> all_ff (slot_bytes mem base (head div 128 * 128))) \<and>
     (head mod 128 \<noteq> 0 \<longrightarrow> (\<forall>i. head \<le> i \<longrightarrow> i div 128 = head div 128 \<longrightarrow> all_ff (slot_bytes mem base i)))"

definition log_region :: "nat \<Rightarrow> nat \<Rightarrow> bool" where
  "log_region base sectors \<longleftrightarrow> base mod 4096 = 0 \<and> base + sectors * 4096 \<le> FLASH_END"

context w25q_chip
begin

lemma enter_spec:
  assumes "idle c" "log_region base sectors" "log_inv (cells c) base sectors head"
    and "log_enter X (slot_to_addr base head) head c = (rc, c1)"
  shows "x div 4096 \<noteq> base div 4096 + head div 128 \<Longrightarrow> cells c1 x = cells c x"
    "head mod 128 \<noteq> 0 \<Longrightarrow> cells c1 = cells c"
    "rc = 0 \<Longrightarrow> idle c1 \<and> (\<forall>i. head \<le> i \<longrightarrow> i div 128 = head div 128 \<longrightarrow> all_ff (slot_bytes (cells c1) base i))"
proof -
  let ?a = "slot_to_addr base head"
  have h: "head < sectors * 128" using assms(3) by (simp add: log_inv_def)
  have b: "base mod 4096 = 0" "base + sectors * 4096 \<le> FLASH_END" using assms(2) by (simp_all add: log_region_def)
  note e = slot_end [OF b(2) h]
  have sec: "?a div 4096 = base div 4096 + head div 128" by (rule slot_sector [OF b(1)]) simp_all
  obtain probe c0 where r: "w25q_read X ?a 32 c = (probe, c0)" by (cases "w25q_read X ?a 32 c")
  have rd: "probe = slot_bytes (cells c) base head" "idle c0" "cells c0 = cells c"
    using rd_data [OF assms(1) e(1)] rd_idle [OF assms(1) e(1)] rd_keeps [OF assms(1) e(1)]
    by (simp_all only: r fst_conv snd_conv slot_bytes_def)
  obtain rc0 c2 where er: "w25q_erase_sector X ?a c0 = (rc0, c2)" by (cases "w25q_erase_sector X ?a c0")
  consider (mid) "head mod 128 \<noteq> 0" "rc = 0" "c1 = c"
    | (blank) "head mod 128 = 0" "all_ff (slot_bytes (cells c) base head)" "rc = 0" "c1 = c0"
    | (erased) "head mod 128 = 0" "rc = rc0" "c1 = c2"
    using assms(4) by (auto simp: log_enter_def r er rd(1) Let_def split: if_splits)
  then have "(x div 4096 \<noteq> base div 4096 + head div 128 \<longrightarrow> cells c1 x = cells c x) \<and>
      (head mod 128 \<noteq> 0 \<longrightarrow> cells c1 = cells c) \<and> (rc = 0 \<longrightarrow> idle c1 \<and>
      (\<forall>i. head \<le> i \<longrightarrow> i div 128 = head div 128 \<longrightarrow> all_ff (slot_bytes (cells c1) base i)))"
  proof cases
    case mid
    then show ?thesis using assms(1,3) by (simp add: log_inv_def)
  next
    case blank
    have "head div 128 < sectors" using h by (simp add: less_mult_imp_div_less)
    then have "sector_tidy (cells c) base (head div 128)" using assms(3) by (simp add: log_inv_def)
    moreover have "head div 128 * 128 = head" using blank(1) by auto
    ultimately show ?thesis using blank rd(2,3) by (simp add: sector_tidy_def)
  next
    case erased
    have "all_ff (slot_bytes (cells c2) base i)" if "rc0 = 0" "i div 128 = head div 128" for i
      unfolding slot_blank_at blank_at_def
    proof (intro allI impI)
      fix j :: nat assume "j < 32"
      then have "(slot_to_addr base i + j) div 4096 = ?a div 4096"
        using slot_sector [OF b(1), of i "slot_to_addr base i + j"] that(2) sec by simp
      then show "cells c2 (slot_to_addr base i + j) = 0xFF"
        using er_blank [OF rd(2) e(2)] that(1) by (simp add: er)
    qed
    then show ?thesis using erased er_frame [OF rd(2) e(2), of x] er_idle [OF rd(2) e(2)] rd(3) sec by (simp add: er)
  qed
  then show "x div 4096 \<noteq> base div 4096 + head div 128 \<Longrightarrow> cells c1 x = cells c x"
    "head mod 128 \<noteq> 0 \<Longrightarrow> cells c1 = cells c"
    "rc = 0 \<Longrightarrow> idle c1 \<and> (\<forall>i. head \<le> i \<longrightarrow> i div 128 = head div 128 \<longrightarrow> all_ff (slot_bytes (cells c1) base i))"
    by blast+
qed

text \<open>One append.\<close>

lemma write_spec:
  assumes "idle c" "log_region base sectors" "log_inv (cells c) base sectors head" "length bs = 32"
    and "log_write X base sectors bs head c = (rc, head', c')"
  shows "x div 4096 \<noteq> base div 4096 + head div 128 \<Longrightarrow> cells c' x = cells c x" "rc \<in> {0, -2, -3}"
    "rc = 0 \<Longrightarrow> head' = (head + 1) mod (sectors * 128) \<and> idle c' \<and> slot_bytes (cells c') base head = bs"
    "rc = 0 \<Longrightarrow> i div 128 \<noteq> head div 128 \<or> head mod 128 \<noteq> 0 \<and> i \<noteq> head \<Longrightarrow>
      slot_bytes (cells c') base i = slot_bytes (cells c) base i"
    "rc = 0 \<Longrightarrow> head < i \<Longrightarrow> i div 128 = head div 128 \<Longrightarrow> all_ff (slot_bytes (cells c') base i)"
proof -
  let ?a = "slot_to_addr base head"
  have h: "head < sectors * 128" using assms(3) by (simp add: log_inv_def)
  have b: "base mod 4096 = 0" "base + sectors * 4096 \<le> FLASH_END" using assms(2) by (simp_all add: log_region_def)
  note e = slot_end [OF b(2) h]
  have pg: "?a mod 256 + length bs \<le> 256" using slot_page [OF b(1), of head] by (simp add: assms(4))
  obtain rc1 c1 where en: "log_enter X ?a head c = (rc1, c1)" by (cases "log_enter X ?a head c")
  note es = enter_spec [OF assms(1-3) en]
  obtain rc2 c2 where pr: "w25q_program X ?a bs c1 = (rc2, c2)" by (cases "w25q_program X ?a bs c1")
  note run = assms(5) [unfolded log_write_def Let_def en prod.case pr]
  have out: "rc1 = 0 \<Longrightarrow> y < ?a \<or> ?a + 32 \<le> y \<Longrightarrow> cells c2 y = cells c1 y" for y
    using pr_frame [OF _ pg e(2), of c1 y] es(3) by (simp add: pr assms(4))
  show "rc \<in> {0, -2, -3}" using run by (auto split: if_splits)
  show fr: "x div 4096 \<noteq> base div 4096 + head div 128 \<Longrightarrow> cells c' x = cells c x" for x
  proof -
    assume ne: "x div 4096 \<noteq> base div 4096 + head div 128"
    then have "x < ?a \<or> ?a + 32 \<le> x" using slot_sector [OF b(1), of head x] by linarith
    then have "rc1 = 0 \<Longrightarrow> cells c2 x = cells c x" using out [of x] es(1) [OF ne] by simp
    then show "cells c' x = cells c x" using run es(1) [OF ne] by (auto split: if_splits)
  qed
  assume "rc = 0"
  then have rcs: "rc1 = 0" "rc2 = 0" "c' = c2" "head' = (head + 1) mod (sectors * 128)" using run by (auto split: if_splits)
  note es3 = es(3) [OF rcs(1)]
  have bl: "blank_at (cells c1) ?a (length bs)" using es3 by (simp add: assms(4) slot_blank_at [symmetric])
  have "slot_bytes (cells c2) base head = bs"
    using pr_blank [OF _ pg e(2) _ bl] es3 rcs(2) by (simp add: pr slot_bytes_def assms(4))
  moreover have "idle c2" using pr_idle [OF _ pg e(2), of c1] es3 rcs(2) by (simp add: pr)
  ultimately show "head' = (head + 1) mod (sectors * 128) \<and> idle c' \<and> slot_bytes (cells c') base head = bs"
    using rcs by simp
  have apart: "slot_bytes (cells c') base i = slot_bytes (cells c1) base i" if "i \<noteq> head" for i
  proof (rule slot_bytes_cong)
    fix x assume x: "slot_to_addr base i \<le> x" "x < slot_to_addr base i + 32"
    have "i < head \<or> head < i" using that by auto
    then have "x < ?a \<or> ?a + 32 \<le> x"
    proof
      assume "i < head"
      then have "Suc i * 32 \<le> head * 32" by (intro mult_le_mono1) simp
      then show ?thesis using x by (simp add: slot_to_addr_def)
    next
      assume "head < i"
      then have "Suc head * 32 \<le> i * 32" by (intro mult_le_mono1) simp
      then show ?thesis using x by (simp add: slot_to_addr_def)
    qed
    then show "cells c' x = cells c1 x" using out [OF rcs(1)] rcs(3) by simp
  qed
  show "slot_bytes (cells c') base i = slot_bytes (cells c) base i"
    if "i div 128 \<noteq> head div 128 \<or> head mod 128 \<noteq> 0 \<and> i \<noteq> head"
  proof (cases "i div 128 = head div 128")
    case True
    then show ?thesis using that apart [of i] es(2) by simp
  next
    case False
    then show ?thesis using fr slot_sector [OF b(1), of i] by (intro slot_bytes_cong) simp
  qed
  show "all_ff (slot_bytes (cells c') base i)" if "head < i" "i div 128 = head div 128"
    using apart [of i] es3 that by simp
qed

text \<open>The invariant is kept.\<close>

lemma write_inv:
  assumes "idle c" "log_region base sectors" "log_inv (cells c) base sectors head" "length bs = 32" "\<not> all_ff bs"
    and "log_write X base sectors bs head c = (0, head', c')"
  shows "log_inv (cells c') base sectors head'"
proof -
  note ws = write_spec [OF assms(1-4,6)]
  have h: "head < sectors * 128" using assms(3) by (simp add: log_inv_def)
  have h': "head' = (head + 1) mod (sectors * 128)" using ws(3) by simp
  have bs: "slot_bytes (cells c') base head = bs" using ws(3) by simp
  have first: "\<not> all_ff (slot_bytes (cells c') base (head div 128 * 128))"
  proof (cases "head mod 128 = 0")
    case True
    then have "head div 128 * 128 = head" by auto
    then show ?thesis using bs assms(5) by simp
  next
    case False
    then have "head div 128 * 128 \<noteq> head" by (metis mod_mult_self2_is_0)
    then show ?thesis using ws(4) [of "head div 128 * 128"] False assms(3) by (simp add: log_inv_def)
  qed
  have tidy: "sector_tidy (cells c') base s" if "s < sectors" for s
  proof (cases "s = head div 128")
    case True
    then show ?thesis using first by (simp add: sector_tidy_def)
  next
    case False
    then have "slot_bytes (cells c') base i = slot_bytes (cells c) base i" if "i div 128 = s" for i
      using that ws(4) [of i] by simp
    moreover have "sector_tidy (cells c) base s" using that assms(3) by (simp add: log_inv_def)
    ultimately show ?thesis by (simp add: sector_tidy_def)
  qed
  have next_ne: "head' mod 128 \<noteq> 0 \<Longrightarrow> head' = head + 1 \<and> head' div 128 = head div 128"
  proof -
    assume ne: "head' mod 128 \<noteq> 0"
    have "head + 1 \<noteq> sectors * 128" using ne h' by auto
    then have eq: "head' = head + 1" using h h' by simp
    then have "Suc head mod 128 \<noteq> 0" using ne by simp
    then have "Suc head div 128 = head div 128" by (simp add: div_Suc)
    then show ?thesis using eq by simp
  qed
  have lt: "head' < sectors * 128" using h h' by simp
  show ?thesis unfolding log_inv_def
  proof (intro conjI allI impI)
    assume "head' mod 128 \<noteq> 0"
    then have "head' div 128 = head div 128" using next_ne by blast
    then show "\<not> all_ff (slot_bytes (cells c') base (head' div 128 * 128))" using first by (simp only: not_False_eq_True)
  next
    fix i assume "head' mod 128 \<noteq> 0" "head' \<le> i" "i div 128 = head' div 128"
    then show "all_ff (slot_bytes (cells c') base i)" using next_ne ws(5) [of i] by simp
  qed (use lt tidy in simp_all)
qed

end

section \<open>The ring as a list of recent records\<close>

definition recent :: "(nat \<Rightarrow> u8) \<Rightarrow> nat \<Rightarrow> nat \<Rightarrow> nat \<Rightarrow> nat \<Rightarrow> u8 list list" where
  "recent mem base cap head k = map (\<lambda>d. slot_bytes mem base ((head + cap - d) mod cap)) [1 ..< Suc k]"

lemma behind_step:
  fixes head cap d :: nat
  assumes "head < cap" "d < cap"
  shows "((head + 1) mod cap + cap - Suc d) mod cap = (head + cap - d) mod cap"
proof (cases "head + 1 = cap")
  case True
  then have "head + cap - d = (cap - Suc d) + cap" using assms by simp
  then have "(head + cap - d) mod cap = (cap - Suc d) mod cap" by simp
  with True show ?thesis by simp
next
  case False
  then show ?thesis using assms by simp
qed

lemma behind_apart:
  fixes head cap d :: nat
  assumes "head < cap" "cap mod 128 = 0" "1 \<le> d" "d + 128 \<le> cap"
  shows "(head + cap - d) mod cap div 128 \<noteq> head div 128 \<or> head mod 128 \<noteq> 0 \<and> (head + cap - d) mod cap \<noteq> head"
proof (cases "d \<le> head")
  case True
  then have i: "(head + cap - d) mod cap = head - d"
    using assms(1) by (simp add: mod_if)
  show ?thesis
  proof (cases "head mod 128 = 0")
    case h: True
    then obtain q where q: "head = 128 * q" by auto
    then have "head - d < 128 * q" using assms(3) True by simp
    then have "(head - d) div 128 < q" by (simp add: less_mult_imp_div_less mult.commute)
    then show ?thesis using i q by simp
  next
    case False
    have "head - d \<noteq> head" using assms(3) True by arith
    then show ?thesis using i False by simp
  qed
next
  case False
  then have i: "(head + cap - d) mod cap = head + cap - d" using assms(1) by simp
  have "head + 128 \<le> head + cap - d" using assms(4) by simp
  then have "(head + 128) div 128 \<le> (head + cap - d) div 128" by (rule div_le_mono)
  then show ?thesis using i by simp
qed

context w25q_chip
begin

lemma write_recent:
  assumes "idle c" "log_region base sectors" "log_inv (cells c) base sectors head" "length bs = 32"
    and "log_write X base sectors bs head c = (0, head', c')" "k + 128 \<le> sectors * 128"
  shows "recent (cells c') base (sectors * 128) head' (Suc k) = bs # recent (cells c) base (sectors * 128) head k"
proof -
  let ?T = "sectors * 128"
  note ws = write_spec [OF assms(1-5)]
  have h: "head < ?T" using assms(3) by (simp add: log_inv_def)
  have h': "head' = (head + 1) mod ?T" using ws(3) by simp
  have first: "slot_bytes (cells c') base ((head' + ?T - 1) mod ?T) = bs"
    using behind_step [OF h, of 0] h ws(3) by (simp add: h')
  have rest: "slot_bytes (cells c') base ((head' + ?T - Suc d) mod ?T) = slot_bytes (cells c) base ((head + ?T - d) mod ?T)"
    if "1 \<le> d" "d \<le> k" for d
    using behind_step [OF h, of d] behind_apart [OF h _ that(1)] ws(4) [of "(head + ?T - d) mod ?T"] that assms(6)
    by (simp add: h')
  have "[1 ..< Suc (Suc k)] = 1 # map Suc [1 ..< Suc k]" by (simp add: map_Suc_upt upt_conv_Cons del: upt_Suc)
  then show ?thesis unfolding recent_def using first rest by (simp del: upt_Suc)
qed

end

section \<open>Runs of appends\<close>

fun log_writes :: "'c spi \<Rightarrow> nat \<Rightarrow> nat \<Rightarrow> u8 list list \<Rightarrow> nat \<Rightarrow> 'c \<Rightarrow> (nat \<times> 'c) option" where
  "log_writes X base sectors [] head c = Some (head, c)"
| "log_writes X base sectors (bs # bss) head c =
     (let (rc, head', c') = log_write X base sectors bs head c
      in if rc \<noteq> 0 then None else log_writes X base sectors bss head' c')"

context w25q_chip
begin

lemma writes_recent:
  assumes "log_region base sectors" "\<forall>bs \<in> set bss. length bs = 32 \<and> \<not> all_ff bs" "k + 127 \<le> sectors * 128"
    and "idle c" "log_inv (cells c) base sectors head" "log_writes X base sectors bss head c = Some (head', c')"
  shows "idle c' \<and> log_inv (cells c') base sectors head' \<and>
    recent (cells c') base (sectors * 128) head' k = take k (rev bss @ recent (cells c) base (sectors * 128) head k)"
  using assms(2,4-6)
proof (induction bss arbitrary: head c)
  case Nil
  then show ?case by (simp add: recent_def)
next
  case (Cons bs bss)
  obtain rc h1 c1 where w: "log_write X base sectors bs head c = (rc, h1, c1)" by (cases "log_write X base sectors bs head c")
  with Cons.prems(4) have rc: "rc = 0" by (auto split: if_splits)
  note w = w [unfolded rc]
  have bs: "length bs = 32" "\<not> all_ff bs" using Cons.prems(1) by simp_all
  have st: "idle c1" "log_inv (cells c1) base sectors h1"
    using write_spec(3) [OF Cons.prems(2) assms(1) Cons.prems(3) bs(1) w]
      write_inv [OF Cons.prems(2) assms(1) Cons.prems(3) bs w] by simp_all
  have IH: "idle c' \<and> log_inv (cells c') base sectors head' \<and>
    recent (cells c') base (sectors * 128) head' k = take k (rev bss @ recent (cells c1) base (sectors * 128) h1 k)"
    using Cons.IH [OF _ st] Cons.prems(1,4) w by simp
  have "take k (rev bss @ recent (cells c1) base (sectors * 128) h1 k) =
      take k (rev bss @ bs # recent (cells c) base (sectors * 128) head k)"
  proof (cases k)
    case 0
    then show ?thesis by simp
  next
    case (Suc j)
    have r: "recent (cells c1) base (sectors * 128) h1 (Suc j) = bs # recent (cells c) base (sectors * 128) head j"
      using assms(3) Suc by (intro write_recent [OF Cons.prems(2) assms(1) Cons.prems(3) bs(1) w]) simp
    have l: "take j (recent (cells c) base (sectors * 128) head (Suc j)) = recent (cells c) base (sectors * 128) head j"
      by (simp add: recent_def take_map)
    have "take n (bs # recent (cells c) base (sectors * 128) head (Suc j)) = take n (bs # recent (cells c) base (sectors * 128) head j)"
      if "n \<le> Suc j" for n
    proof (cases n)
      case (Suc i)
      then have "take i (recent (cells c) base (sectors * 128) head (Suc j)) =
          take i (take j (recent (cells c) base (sectors * 128) head (Suc j)))" using that by (simp add: min_def)
      then show ?thesis by (simp add: Suc l)
    qed simp
    then show ?thesis unfolding Suc r by simp
  qed
  then show ?case using IH by simp
qed

end

section \<open>Records\<close>

text \<open>A record with its checksum is never taken for a blank slot.\<close>

lemma crc16_blank: "crc16_ccitt (replicate 30 0xFF) \<noteq> 0xFFFF"
  by (simp add: crc_eval replicate_num)

lemma valid_not_ff:
  assumes "length p = 32" "le16_at p 30 = crc16_ccitt (take 30 p)"
  shows "\<not> all_ff p" "classify_record p = LOG_VALID"
proof -
  show n: "\<not> all_ff p"
  proof
    assume "all_ff p"
    then have "p = replicate 32 0xFF" using assms(1) by (auto simp: all_ff_def list_all_iff intro!: replicate_eqI)
    then have "take 30 p = replicate 30 0xFF" "le16_at p 30 = 0xFFFF" by (simp_all add: le16_at_def)
    then show False using assms(2) crc16_blank by simp
  qed
  then show "classify_record p = LOG_VALID" by (simp add: classify_record_def assms(2))
qed

lemma event_stamp_facts:
  assumes "length (ev_reserved r) = 10"
  shows "length (event_bytes (event_stamp n r)) = 32" "\<not> all_ff (event_bytes (event_stamp n r))"
    "classify_record (event_bytes (event_stamp n r)) = LOG_VALID"
    "event_of_bytes (event_bytes (event_stamp n r)) = event_stamp n r" "ev_boot_count (event_stamp n r) = n"
proof -
  let ?r = "event_stamp n r"
  show len: "length (event_bytes ?r) = 32" using assms by (intro length_event_bytes) (simp add: event_stamp_def Let_def)
  have body: "length (event_body ?r) = 30" using len by (simp add: event_bytes_def)
  have "take 30 (event_bytes ?r) = event_body ?r" using body by (simp add: event_bytes_def)
  moreover have "event_body ?r = event_body (r\<lparr>ev_boot_count := n\<rparr>)"
    by (simp add: event_stamp_def Let_def event_body_def)
  moreover have "take 30 (event_bytes (r\<lparr>ev_boot_count := n\<rparr>)) = event_body (r\<lparr>ev_boot_count := n\<rparr>)"
    using body calculation(2) by (simp add: event_bytes_def)
  moreover have "le16_at (event_bytes ?r) 30 = ev_crc16 ?r"
    using body by (simp add: event_bytes_def record_le)
  ultimately have "le16_at (event_bytes ?r) 30 = crc16_ccitt (take 30 (event_bytes ?r))"
    by (simp add: event_stamp_def Let_def)
  from valid_not_ff [OF len this]
  show "\<not> all_ff (event_bytes ?r)" "classify_record (event_bytes ?r) = LOG_VALID" .
  show "event_of_bytes (event_bytes ?r) = ?r" using assms by (intro event_roundtrip) (simp add: event_stamp_def Let_def)
  show "ev_boot_count ?r = n" by (simp add: event_stamp_def Let_def)
qed

lemma session_stamp_facts:
  assumes "length (sr_reserved r) = 10"
  shows "length (session_bytes (session_stamp n r)) = 32" "\<not> all_ff (session_bytes (session_stamp n r))"
    "classify_record (session_bytes (session_stamp n r)) = LOG_VALID"
    "session_of_bytes (session_bytes (session_stamp n r)) = session_stamp n r" "sr_boot_count (session_stamp n r) = n"
proof -
  let ?r = "session_stamp n r"
  show len: "length (session_bytes ?r) = 32" using assms by (intro length_session_bytes) (simp add: session_stamp_def Let_def)
  have body: "length (session_body ?r) = 30" using len by (simp add: session_bytes_def)
  have "take 30 (session_bytes ?r) = session_body ?r" using body by (simp add: session_bytes_def)
  moreover have "session_body ?r = session_body (r\<lparr>sr_boot_count := n\<rparr>)"
    by (simp add: session_stamp_def Let_def session_body_def)
  moreover have "take 30 (session_bytes (r\<lparr>sr_boot_count := n\<rparr>)) = session_body (r\<lparr>sr_boot_count := n\<rparr>)"
    using body calculation(2) by (simp add: session_bytes_def)
  moreover have "le16_at (session_bytes ?r) 30 = sr_crc16 ?r"
    using body by (simp add: session_bytes_def record_le)
  ultimately have "le16_at (session_bytes ?r) 30 = crc16_ccitt (take 30 (session_bytes ?r))"
    by (simp add: session_stamp_def Let_def)
  from valid_not_ff [OF len this]
  show "\<not> all_ff (session_bytes ?r)" "classify_record (session_bytes ?r) = LOG_VALID" .
  show "session_of_bytes (session_bytes ?r) = ?r" using assms by (intro session_roundtrip) (simp add: session_stamp_def Let_def)
  show "sr_boot_count ?r = n" by (simp add: session_stamp_def Let_def)
qed

lemma log_regions: "log_region EVENT_LOG_BASE EVENT_LOG_SECTORS" "log_region SESSION_LOG_BASE SESSION_LOG_SECTORS"
  by (simp_all add: log_region_def)

text \<open>The scan is deterministic in what it looks for.\<close>

lemma newest_unique:
  assumes "newest key f n acc" "j < n" "classify_record (f j) = LOG_VALID"
    and "\<And>i. i < n \<Longrightarrow> classify_record (f i) = LOG_VALID \<Longrightarrow> key_le (key (f i)) (key (f j)) \<and> (j < i \<longrightarrow> key (f i) \<noteq> key (f j))"
  shows "\<exists>kb kt. acc = Some (kb, kt, j)"
proof -
  have "acc \<noteq> None"
  proof
    assume "acc = None"
    then show False using assms(1-3) by (simp add: newest_def)
  qed
  then obtain kb kt m where acc: "acc = Some (kb, kt, m)" by (cases acc) auto
  have m: "m < n" "classify_record (f m) = LOG_VALID" "key (f m) = (kb, kt)"
    "key_le (key (f j)) (key (f m))" "m < j \<Longrightarrow> \<not> key_le (key (f m)) (key (f j))"
    using assms(1-3) by (auto simp: newest_def acc)
  have "key_le (key (f m)) (key (f j))" "j < m \<Longrightarrow> key (f m) \<noteq> key (f j)" using assms(4) [OF m(1,2)] by auto
  then have "m = j" using m(4,5) key_le_antisym by (metis linorder_neqE_nat)
  with acc show ?thesis by blast
qed

context w25q_chip
begin

lemma init_recovers:
  assumes "idle c" "log_region base sectors" "head < sectors * 128"
  defines "j \<equiv> (head + sectors * 128 - 1) mod (sectors * 128)" and "f \<equiv> slot_bytes (cells c) base"
  assumes "classify_record (f j) = LOG_VALID"
    and "\<And>i. i < sectors * 128 \<Longrightarrow> classify_record (f i) = LOG_VALID \<Longrightarrow>
      key_le (key (f i)) (key (f j)) \<and> (j < i \<longrightarrow> key (f i) \<noteq> key (f j))"
  shows "fst (log_init X base sectors key c) = head"
proof -
  let ?T = "sectors * 128"
  have b: "base + sectors * 4096 \<le> FLASH_END" using assms(2) by (simp add: log_region_def)
  obtain acc where acc: "newest key f ?T acc" "fst (log_init X base sectors key c) =
      (case acc of None \<Rightarrow> 0 | Some (_, _, j) \<Rightarrow> (j + 1) mod ?T)"
    using log_init_spec(1) [OF assms(1) b, of key] unfolding f_def by blast
  have "j < ?T" using assms(3) by (simp add: j_def)
  with newest_unique [OF acc(1) _ assms(6,7)] obtain kb kt where "acc = Some (kb, kt, j)" by blast
  then have "fst (log_init X base sectors key c) = (j + 1) mod ?T" using acc(2) by simp
  also have "\<dots> = head"
  proof (cases head)
    case 0
    then show ?thesis using assms(3) by (simp add: j_def)
  next
    case (Suc h)
    then have "head + ?T - 1 = h + ?T" by simp
    then show ?thesis using assms(3) Suc by (simp add: j_def)
  qed
  finally show ?thesis .
qed

end

end
