(* ===== verification/Boot_Config.thy ===== *)
theory Boot_Config
  imports Slot_Record
begin

text \<open>
  The persistent configuration, \<^verbatim>\<open>src/src/persist/boot_config.c\<close> and \<^verbatim>\<open>boot_config.h\<close>: the 32-byte packed
  record, the cached copy in RAM, the load with its defaults and the setters. Every operation threads
  the cached record and the flash device; \<open>X\<close> is the SPI transaction of \<open>W25q\<close>. The lemmas show that a
  setter which stores leaves flash and cache equal, and what each setter changes.
\<close>

abbreviation (input) "BOOT_CONFIG_SLOT_A \<equiv> (0x000000 :: nat)"
abbreviation (input) "BOOT_CONFIG_SLOT_B \<equiv> (0x001000 :: nat)"
abbreviation (input) "BOOT_CONFIG_VERSION \<equiv> (1 :: u8)"

record boot_config =
  bc_version :: u8
  bc_pad0 :: "u8 list"
  bc_counter :: u32
  fc41d_advertised_amps :: u8
  require_rfid_auth :: u8
  pending_ota_flag :: u8
  bc_pad1 :: u8
  staged_image_size :: u32
  staged_image_crc32 :: u32
  gfci_fault_policy :: u8
  bc_reserved :: "u8 list"
  bc_crc32 :: u32

definition bc_fields :: "boot_config \<Rightarrow> u8 list" where
  "bc_fields r =
     [fc41d_advertised_amps r, require_rfid_auth r, pending_ota_flag r, bc_pad1 r] @
     le32_bytes (staged_image_size r) @ le32_bytes (staged_image_crc32 r) @ [gfci_fault_policy r] @ bc_reserved r"

definition bc_bytes :: "boot_config \<Rightarrow> u8 list" where
  "bc_bytes r = (bc_version r # bc_pad0 r) @ le32_bytes (bc_counter r) @ bc_fields r @ le32_bytes (bc_crc32 r)"

definition bc_of_bytes :: "u8 list \<Rightarrow> boot_config" where
  "bc_of_bytes p =
     \<lparr>bc_version = p ! 0, bc_pad0 = take 3 (drop 1 p), bc_counter = le32_at p 4,
      fc41d_advertised_amps = p ! 8, require_rfid_auth = p ! 9, pending_ota_flag = p ! 10, bc_pad1 = p ! 11,
      staged_image_size = le32_at p 12, staged_image_crc32 = le32_at p 16, gfci_fault_policy = p ! 20,
      bc_reserved = take 7 (drop 21 p), bc_crc32 = le32_at p 28\<rparr>"

definition bc_zero :: boot_config where
  "bc_zero = bc_of_bytes (replicate 32 0)"

definition bc_wf :: "boot_config \<Rightarrow> bool" where
  "bc_wf r \<longleftrightarrow> length (bc_pad0 r) = 3 \<and> length (bc_reserved r) = 7"

section \<open>Operations\<close>

definition bc_store :: "'c spi \<Rightarrow> boot_config \<Rightarrow> 'c \<Rightarrow> int \<times> boot_config \<times> 'c" where
  "bc_store X cfg c =
     (let cfg1 = cfg\<lparr>bc_version := BOOT_CONFIG_VERSION\<rparr>;
          (rc, cfg', c') = rec_put X BOOT_CONFIG_SLOT_A BOOT_CONFIG_SLOT_B bc_bytes bc_of_bytes cfg1 c
      in (if rc < 0 then rc else 0, cfg', c'))"

definition boot_config_load :: "'c spi \<Rightarrow> boot_config \<Rightarrow> 'c \<Rightarrow> int \<times> boot_config \<times> 'c" where
  "boot_config_load X cfg c =
     (case pingpong_load X BOOT_CONFIG_SLOT_A BOOT_CONFIG_SLOT_B 32 c of
        (PP_ARG_ERROR, c1) \<Rightarrow> (-1, cfg, c1)
      | (PP_NONE, c1) \<Rightarrow>
          (let cfg1 = bc_zero\<lparr>bc_version := BOOT_CONFIG_VERSION, fc41d_advertised_amps := 0\<rparr>;
               (rc, cfg', c2) = rec_put X BOOT_CONFIG_SLOT_A BOOT_CONFIG_SLOT_B bc_bytes bc_of_bytes cfg1 c1
           in (if rc < 0 then rc else 0, cfg', c2))
      | (PP_LOADED buf _ _, c1) \<Rightarrow> (0, bc_of_bytes buf, c1))"

definition boot_config_set_advertised_amps :: "'c spi \<Rightarrow> u8 \<Rightarrow> boot_config \<Rightarrow> 'c \<Rightarrow> int \<times> boot_config \<times> 'c" where
  "boot_config_set_advertised_amps X amps cfg c =
     (if fc41d_advertised_amps cfg = amps then (0, cfg, c)
      else bc_store X (cfg\<lparr>fc41d_advertised_amps := amps\<rparr>) c)"

definition boot_config_set_require_rfid_auth :: "'c spi \<Rightarrow> u8 \<Rightarrow> boot_config \<Rightarrow> 'c \<Rightarrow> int \<times> boot_config \<times> 'c" where
  "boot_config_set_require_rfid_auth X enable0 cfg c =
     (let enable = (if enable0 \<noteq> 0 then 1 else 0)
      in if require_rfid_auth cfg = enable then (0, cfg, c)
         else bc_store X (cfg\<lparr>require_rfid_auth := enable\<rparr>) c)"

definition boot_config_set_gfci_fault_policy :: "'c spi \<Rightarrow> u8 \<Rightarrow> boot_config \<Rightarrow> 'c \<Rightarrow> int \<times> boot_config \<times> 'c" where
  "boot_config_set_gfci_fault_policy X policy cfg c =
     (if policy > 1 then (-1, cfg, c)
      else if gfci_fault_policy cfg = policy then (0, cfg, c)
      else bc_store X (cfg\<lparr>gfci_fault_policy := policy\<rparr>) c)"

definition boot_config_set_pending_ota ::
  "'c spi \<Rightarrow> u8 \<Rightarrow> u32 \<Rightarrow> u32 \<Rightarrow> boot_config \<Rightarrow> 'c \<Rightarrow> int \<times> boot_config \<times> 'c" where
  "boot_config_set_pending_ota X pending0 image_size0 image_crc0 cfg c =
     (let pending = (if pending0 \<noteq> 0 then 1 else 0);
          image_size = (if pending = 0 then 0 else image_size0);
          image_crc = (if pending = 0 then 0 else image_crc0)
      in if pending_ota_flag cfg = pending \<and> staged_image_size cfg = image_size \<and> staged_image_crc32 cfg = image_crc
         then (0, cfg, c)
         else bc_store X (cfg\<lparr>pending_ota_flag := pending, staged_image_size := image_size,
                staged_image_crc32 := image_crc\<rparr>) c)"

section \<open>Layout\<close>

lemma bc_lengths: "bc_wf r \<Longrightarrow> length (bc_bytes r) = 32"
  by (simp add: bc_wf_def bc_bytes_def bc_fields_def)

lemma bc_roundtrip: "bc_wf r \<Longrightarrow> bc_of_bytes (bc_bytes r) = r"
  by (cases r) (simp add: bc_of_bytes_def bc_bytes_def bc_fields_def bc_wf_def record_le)

lemma bc_wf_of_bytes: "length p = 32 \<Longrightarrow> bc_wf (bc_of_bytes p)"
  by (simp add: bc_wf_def bc_of_bytes_def)

text \<open>The record with the counter and checksum a store gives it.\<close>

definition bc_seal :: "u32 \<Rightarrow> boot_config \<Rightarrow> boot_config" where
  "bc_seal k r = r\<lparr>bc_counter := k, bc_crc32 := crc32 ((bc_version r # bc_pad0 r) @ le32_bytes k @ bc_fields r)\<rparr>"

interpretation bc_codec: slot_codec bc_bytes bc_of_bytes bc_wf bc_seal BOOT_CONFIG_SLOT_A BOOT_CONFIG_SLOT_B 32
proof
  show "slots_ok BOOT_CONFIG_SLOT_A BOOT_CONFIG_SLOT_B" by (simp add: slots_ok_def)
  fix r k
  assume wf: "bc_wf r"
  then have h: "length (bc_version r # bc_pad0 r) = 4" by (simp add: bc_wf_def)
  show "stamp k (bc_bytes r) = bc_bytes (bc_seal k r)"
    using stamp_layout [OF h, of k "bc_counter r" "bc_fields r" "bc_crc32 r"]
    by (simp add: bc_bytes_def bc_seal_def bc_fields_def)
  show "bc_wf (bc_seal k r)" using wf by (simp add: bc_wf_def bc_seal_def)
qed (simp_all add: bc_lengths bc_roundtrip bc_wf_of_bytes blank_invalid_32)

text \<open>What a setter can change besides the fields the store manages.\<close>

definition bc_settings :: "boot_config \<Rightarrow> u8 \<times> u8 \<times> u8 \<times> u32 \<times> u32 \<times> u8" where
  "bc_settings r = (fc41d_advertised_amps r, require_rfid_auth r, pending_ota_flag r, staged_image_size r,
     staged_image_crc32 r, gfci_fault_policy r)"

lemma bc_settings_seal: "bc_settings (bc_seal k r) = bc_settings r"
  by (simp add: bc_settings_def bc_seal_def)

section \<open>Flash and cache\<close>

abbreviation bc_in_flash :: "(nat \<Rightarrow> u8) \<Rightarrow> boot_config option" where
  "bc_in_flash \<equiv> in_flash bc_of_bytes BOOT_CONFIG_SLOT_A BOOT_CONFIG_SLOT_B 32"

sublocale w25q_chip \<subseteq> bc: record_store X cells idle armed bc_bytes bc_of_bytes bc_wf bc_seal
    BOOT_CONFIG_SLOT_A BOOT_CONFIG_SLOT_B 32 ..

text \<open>Cache and flash agree: the invariant of the cached record, up to a store that failed.\<close>

definition bc_synced :: "boot_config \<Rightarrow> (nat \<Rightarrow> u8) \<Rightarrow> bool" where
  "bc_synced cfg mem \<longleftrightarrow> bc_wf cfg \<and> bc_in_flash mem = Some cfg"

context w25q_chip
begin

lemma bc_store_spec:
  assumes "idle c" "bc_wf cfg" "bc_store X cfg c = (rc, cfg', c')"
  shows "bc_settings cfg' = bc_settings cfg" "bc_wf cfg'" "rc \<le> 0" "rc = 0 \<Longrightarrow> idle c' \<and> bc_synced cfg' (cells c')"
proof -
  let ?cfg = "cfg\<lparr>bc_version := BOOT_CONFIG_VERSION\<rparr>"
  have wf: "bc_wf ?cfg" using assms(2) by (simp add: bc_wf_def)
  obtain rc' where put: "rec_put X BOOT_CONFIG_SLOT_A BOOT_CONFIG_SLOT_B bc_bytes bc_of_bytes ?cfg c = (rc', cfg', c')"
    and rc: "rc = (if rc' < 0 then rc' else 0)"
    using assms(3) by (auto simp: bc_store_def Let_def split: prod.splits)
  note sp = bc.put_spec [OF assms(1) wf put]
  obtain k where "cfg' = bc_seal k ?cfg" using sp(1) by blast
  then have "bc_settings cfg' = bc_settings ?cfg" by (simp only: bc_settings_seal)
  then show "bc_settings cfg' = bc_settings cfg" by (simp add: bc_settings_def)
  show "bc_wf cfg'" by (rule sp(2))
  show "rc \<le> 0" by (simp add: rc)
  assume "rc = 0"
  then have "rc' = 0" using sp(4) by (auto simp: rc split: if_splits)
  then show "idle c' \<and> bc_synced cfg' (cells c')" using sp(2,3) by (simp add: bc_synced_def)
qed

text \<open>Every setter keeps cache and flash equal when it reports success.\<close>

lemma bc_setter_spec:
  assumes "idle c" "bc_synced cfg (cells c)" "bc_wf cfg1"
    and "(rc, cfg', c') = (0, cfg, c) \<and> bc_settings cfg = bc_settings cfg1 \<or> bc_store X cfg1 c = (rc, cfg', c')"
  shows "bc_settings cfg' = bc_settings cfg1" "bc_wf cfg'" "rc = 0 \<Longrightarrow> idle c' \<and> bc_synced cfg' (cells c')"
  using assms(4) bc_store_spec [OF assms(1,3), of rc cfg' c'] assms(1,2) by (auto simp: bc_synced_def)

text \<open>A reload gives the record in flash, and nothing else.\<close>

lemma bc_load_spec:
  assumes "idle c" "bc_in_flash (cells c) = Some cfg" "boot_config_load X old c = (rc, cfg', c')"
  shows "rc = 0" "cfg' = cfg" "idle c'" "cells c' = cells c"
proof -
  obtain res c1 where ld: "pingpong_load X BOOT_CONFIG_SLOT_A BOOT_CONFIG_SLOT_B 32 c = (res, c1)"
    by (cases "pingpong_load X BOOT_CONFIG_SLOT_A BOOT_CONFIG_SLOT_B 32 c")
  note gs = bc.get_spec [OF assms(1) ld]
  obtain buf s k where "res = PP_LOADED buf s k" "bc_of_bytes buf = cfg" using gs(4) assms(2) by auto
  then have "boot_config_load X old c = (0, cfg, c1)" by (simp add: boot_config_load_def ld)
  then show "rc = 0" "cfg' = cfg" "idle c'" "cells c' = cells c" using gs(1,2) assms(3) by simp_all
qed

text \<open>A boot leaves the cache equal to flash, also on a blank device.\<close>

lemma bc_boot_spec:
  assumes "idle c" "boot_config_load X old c = (rc, cfg', c')" "rc = 0"
  shows "idle c' \<and> bc_synced cfg' (cells c')"
proof (cases "bc_in_flash (cells c)")
  case None
  obtain res c1 where ld: "pingpong_load X BOOT_CONFIG_SLOT_A BOOT_CONFIG_SLOT_B 32 c = (res, c1)"
    by (cases "pingpong_load X BOOT_CONFIG_SLOT_A BOOT_CONFIG_SLOT_B 32 c")
  note gs = bc.get_spec [OF assms(1) ld]
  have res: "res = PP_NONE" using gs(4) None by auto
  let ?cfg = "bc_zero\<lparr>bc_version := BOOT_CONFIG_VERSION, fc41d_advertised_amps := 0\<rparr>"
  have wf: "bc_wf ?cfg" by (simp add: bc_wf_def bc_zero_def bc_of_bytes_def)
  obtain rc' cfg2 c2 where put:
    "rec_put X BOOT_CONFIG_SLOT_A BOOT_CONFIG_SLOT_B bc_bytes bc_of_bytes ?cfg c1 = (rc', cfg2, c2)"
    by (cases "rec_put X BOOT_CONFIG_SLOT_A BOOT_CONFIG_SLOT_B bc_bytes bc_of_bytes ?cfg c1")
  have "boot_config_load X old c = (if rc' < 0 then rc' else 0, cfg2, c2)"
    using put by (simp add: boot_config_load_def ld res Let_def)
  with assms(2,3) have eqs: "\<not> rc' < 0" "cfg' = cfg2" "c' = c2" by (auto split: if_splits)
  note sp = bc.put_spec [OF gs(1) wf put]
  have "rc' = 0" using sp(4) eqs(1) by auto
  then show ?thesis using sp(2,3) by (simp add: bc_synced_def eqs(2,3))
next
  case (Some cfg)
  then have "bc_wf cfg"
    by (auto simp: in_flash_def slot_rec_def Let_def intro!: bc_wf_of_bytes dest!: current_slots split: if_splits)
  with Some bc_load_spec [OF assms(1) Some assms(2)] show ?thesis by (simp add: bc_synced_def)
qed

end

end
