(* ===== verification/Ota_Stage.thy ===== *)
theory Ota_Stage
  imports Boot_Config
begin

text \<open>
  The staging area of a firmware update, \<^verbatim>\<open>src/src/persist/ota_stage.c\<close> (its streaming checksum is in
  \<open>Crc\<close>): erase of the sectors an image needs, writes split at page boundaries, the checksum read back
  from flash and the pending mark in the configuration. The lemmas show that a completed erase leaves
  the image's room blank, that a completed write into blank cells stores exactly its data and nothing
  else, and that the checksum is that of the bytes in flash.
\<close>

abbreviation (input) "OTA_STAGE_REGION_BASE \<equiv> (0x400000 :: nat)"
abbreviation (input) "OTA_STAGE_REGION_SIZE \<equiv> (0x100000 :: nat)"
abbreviation (input) "OTA_STAGE_MAX_IMAGE_SIZE \<equiv> (0x100000 :: u32)"

function stage_erase :: "'c spi \<Rightarrow> nat \<Rightarrow> nat \<Rightarrow> 'c \<Rightarrow> int \<times> 'c" where
  "stage_erase X addr end_aligned c =
     (if addr < end_aligned
      then let (rc, c') = w25q_erase_sector X addr c
           in if rc < 0 then (-1, c') else stage_erase X (addr + W25Q_SECTOR_SIZE) end_aligned c'
      else (0, c))"
  by auto
termination by (relation "measure (\<lambda>(_, addr, stop, _). stop - addr)") auto

declare stage_erase.simps [simp del]

definition sector_up :: "nat \<Rightarrow> nat" where
  "sector_up e = (e + 4095) div 4096 * 4096"

definition ota_stage_begin :: "'c spi \<Rightarrow> u32 \<Rightarrow> 'c \<Rightarrow> int \<times> 'c" where
  "ota_stage_begin X image_size c =
     (if image_size = 0 then (-3, c)
      else if image_size > OTA_STAGE_MAX_IMAGE_SIZE then (-2, c)
      else stage_erase X OTA_STAGE_REGION_BASE (sector_up (OTA_STAGE_REGION_BASE + unat image_size)) c)"

text \<open>The write loop over the remaining data.\<close>

function stage_program :: "'c spi \<Rightarrow> nat \<Rightarrow> u8 list \<Rightarrow> 'c \<Rightarrow> int \<times> 'c" where
  "stage_program X flash_addr src c =
     (if src = [] then (0, c)
      else let in_page = W25Q_PAGE_SIZE - flash_addr mod W25Q_PAGE_SIZE;
               this_prog = min (length src) in_page;
               (rc, c') = w25q_program X flash_addr (take this_prog src) c
           in if rc < 0 then (-1, c') else stage_program X (flash_addr + this_prog) (drop this_prog src) c')"
  by auto
termination
proof (relation "measure (\<lambda>(_, _, src, _). length src)")
  fix X :: "'c spi" and a :: nat and src :: "u8 list" and c :: 'c and in_page this_prog and p :: "int \<times> 'c" and rc c'
  assume "src \<noteq> []" "in_page = W25Q_PAGE_SIZE - a mod W25Q_PAGE_SIZE" "this_prog = min (length src) in_page"
  moreover have "a mod 256 < 256" by simp
  ultimately show "((X, a + this_prog, drop this_prog src, c'), X, a, src, c) \<in> measure (\<lambda>(_, _, src, _). length src)"
    by simp
qed simp

declare stage_program.simps [simp del]

definition ota_stage_write :: "'c spi \<Rightarrow> u32 \<Rightarrow> u8 list \<Rightarrow> 'c \<Rightarrow> int \<times> 'c" where
  "ota_stage_write X offset data c =
     (if data = [] then (-4, c)
      else if unat offset + length data > OTA_STAGE_REGION_SIZE then (-3, c)
      else stage_program X (OTA_STAGE_REGION_BASE + unat offset) data c)"

function stage_crc :: "'c spi \<Rightarrow> nat \<Rightarrow> nat \<Rightarrow> u32 \<Rightarrow> 'c \<Rightarrow> u32 \<times> 'c" where
  "stage_crc X addr remaining ctx c =
     (if remaining = 0 then (ctx, c)
      else let this_chunk = min remaining 256;
               (buf, c') = w25q_read X addr this_chunk c
           in stage_crc X (addr + this_chunk) (remaining - this_chunk) (ota_crc_update ctx buf) c')"
  by auto
termination by (relation "measure (\<lambda>(_, _, remaining, _). remaining)") auto

declare stage_crc.simps [simp del]

definition ota_stage_compute_crc :: "'c spi \<Rightarrow> u32 \<Rightarrow> 'c \<Rightarrow> u32 \<times> 'c" where
  "ota_stage_compute_crc X image_size c =
     (let (ctx, c') = stage_crc X OTA_STAGE_REGION_BASE (unat image_size) ota_crc_init c in (ota_crc_finalize ctx, c'))"

definition ota_stage_verify :: "'c spi \<Rightarrow> u32 \<Rightarrow> u32 \<Rightarrow> 'c \<Rightarrow> int \<times> 'c" where
  "ota_stage_verify X image_size expected_crc32 c =
     (let (crc, c') = ota_stage_compute_crc X image_size c in (if crc = expected_crc32 then 0 else -1, c'))"

definition ota_stage_mark_pending :: "'c spi \<Rightarrow> u32 \<Rightarrow> u32 \<Rightarrow> boot_config \<Rightarrow> 'c \<Rightarrow> int \<times> boot_config \<times> 'c" where
  "ota_stage_mark_pending X image_size image_crc cfg c = boot_config_set_pending_ota X 1 image_size image_crc cfg c"

definition ota_stage_clear_pending :: "'c spi \<Rightarrow> boot_config \<Rightarrow> 'c \<Rightarrow> int \<times> boot_config \<times> 'c" where
  "ota_stage_clear_pending X cfg c = boot_config_set_pending_ota X 0 0 0 cfg c"

section \<open>Facts\<close>

lemma sector_up_bounds: "e \<le> sector_up e" "sector_up e < e + 4096" "sector_up e mod 4096 = 0"
proof -
  obtain q r where i: "e + 4095 = 4096 * q + r" "r < 4096" "(e + 4095) div 4096 = q"
    using mult_div_mod_eq [of 4096 "e + 4095"] mod_less_divisor [of 4096 "e + 4095"] by (metis zero_less_numeral)
  then show "e \<le> sector_up e" "sector_up e < e + 4096" "sector_up e mod 4096 = 0" by (simp_all add: sector_up_def)
qed

lemma sector_up_le: "e \<le> 4096 * n \<Longrightarrow> sector_up e \<le> 4096 * n"
proof -
  assume "e \<le> 4096 * n"
  then have "(e + 4095) div 4096 \<le> (4096 * n + 4095) div 4096" by (intro div_le_mono) simp
  also have "\<dots> = n" by simp
  finally show ?thesis by (simp add: sector_up_def)
qed

lemma next_sector:
  fixes a s :: nat
  assumes "a < s" "a mod 4096 = 0" "s mod 4096 = 0"
  shows "a + 4096 \<le> s"
proof -
  obtain k where k: "a = 4096 * k" using assms(2) by auto
  obtain j where j: "s = 4096 * j" using assms(3) by auto
  from assms(1) have "k + 1 \<le> j" by (simp add: k j)
  then have "4096 * (k + 1) \<le> 4096 * j" by (rule mult_le_mono2)
  then show ?thesis by (simp add: k j)
qed

lemma sector_iff:
  fixes a x :: nat
  assumes "a mod 4096 = 0"
  shows "x div 4096 = a div 4096 \<longleftrightarrow> a \<le> x \<and> x < a + 4096"
proof -
  obtain k where k: "a = 4096 * k" using assms by auto
  then show ?thesis using div_nat_eqI [of 4096 k x] div_less_iff_less_mult [of 4096 x "Suc k"] less_eq_div_iff_mult_less_eq [of 4096 k x]
    by (auto simp: mult.commute)
qed

definition stage_cells :: "(nat \<Rightarrow> u8) \<Rightarrow> nat \<Rightarrow> u8 list" where
  "stage_cells mem n = map mem [OTA_STAGE_REGION_BASE ..< OTA_STAGE_REGION_BASE + n]"

context w25q_chip
begin

lemma stage_erase_spec:
  assumes "idle c" "addr mod 4096 = 0" "stop mod 4096 = 0" "stop \<le> FLASH_END" "stage_erase X addr stop c = (rc, c')"
  shows "rc = 0 \<or> rc = -1" "x < addr \<or> stop \<le> x \<Longrightarrow> cells c' x = cells c x"
    "rc = 0 \<Longrightarrow> idle c' \<and> (\<forall>x. addr \<le> x \<longrightarrow> x < stop \<longrightarrow> cells c' x = 0xFF)"
proof -
  have "(rc = 0 \<or> rc = -1) \<and> (\<forall>x. x < addr \<or> stop \<le> x \<longrightarrow> cells c' x = cells c x) \<and>
    (rc = 0 \<longrightarrow> idle c' \<and> (\<forall>x. addr \<le> x \<longrightarrow> x < stop \<longrightarrow> cells c' x = 0xFF))"
    using assms
  proof (induction "stop - addr" arbitrary: addr c rule: less_induct)
    case less
    show ?case
    proof (cases "addr < stop")
      case False
      then show ?thesis using less.prems(1,5) by (simp add: stage_erase.simps)
    next
      case True
      have le: "addr + 4096 \<le> stop" using True less.prems(2,3) by (rule next_sector)
      have fe: "addr < FLASH_END" using True less.prems(4) by simp
      obtain rc1 c1 where e: "w25q_erase_sector X addr c = (rc1, c1)" by (cases "w25q_erase_sector X addr c")
      have fr: "x < addr \<or> addr + 4096 \<le> x \<Longrightarrow> cells c1 x = cells c x" for x
        using er_frame [OF less.prems(1) fe, of x] sector_iff [OF less.prems(2), of x] by (auto simp: e)
      show ?thesis
      proof (cases "rc1 = 0")
        case False
        then have "rc1 = -1" using er_rc [of addr c] by (simp add: e)
        then have "(rc, c') = (-1, c1)" using less.prems(5) True by (simp add: stage_erase.simps [of X addr] e)
        then show ?thesis using fr le by auto
      next
        case ok: True
        have id1: "idle c1" using er_idle [OF less.prems(1) fe] by (simp add: e ok)
        have bl: "addr \<le> x \<Longrightarrow> x < addr + 4096 \<Longrightarrow> cells c1 x = 0xFF" for x
          using er_blank [OF less.prems(1) fe] sector_iff [OF less.prems(2), of x] by (simp add: e ok)
        have "stage_erase X (addr + 4096) stop c1 = (rc, c')"
          using less.prems(5) True by (simp add: stage_erase.simps [of X addr] e ok)
        from less.hyps [OF _ id1 _ less.prems(3,4) this] True less.prems(2)
        have IH: "rc = 0 \<or> rc = -1" "\<And>x. x < addr + 4096 \<or> stop \<le> x \<Longrightarrow> cells c' x = cells c1 x"
          "rc = 0 \<Longrightarrow> idle c' \<and> (\<forall>x. addr + 4096 \<le> x \<longrightarrow> x < stop \<longrightarrow> cells c' x = 0xFF)" by auto
        have "cells c' x = 0xFF" if "rc = 0" "addr \<le> x" "x < stop" for x
          using that IH bl by (cases "x < addr + 4096") auto
        moreover have "cells c' x = cells c x" if "x < addr \<or> stop \<le> x" for x
          using that IH(2) [of x] fr [of x] le by auto
        ultimately show ?thesis using IH by simp
      qed
    qed
  qed
  then show "rc = 0 \<or> rc = -1" "x < addr \<or> stop \<le> x \<Longrightarrow> cells c' x = cells c x"
    "rc = 0 \<Longrightarrow> idle c' \<and> (\<forall>x. addr \<le> x \<longrightarrow> x < stop \<longrightarrow> cells c' x = 0xFF)" by auto
qed

text \<open>A write goes where it should, page by page.\<close>

lemma stage_program_spec:
  assumes "idle c" "addr + length src \<le> FLASH_END" "blank_at (cells c) addr (length src)" "stage_program X addr src c = (rc, c')"
  shows "rc = 0 \<or> rc = -1" "x < addr \<or> addr + length src \<le> x \<Longrightarrow> cells c' x = cells c x"
    "rc = 0 \<Longrightarrow> idle c' \<and> map (cells c') [addr ..< addr + length src] = src"
proof -
  have "(rc = 0 \<or> rc = -1) \<and> (\<forall>x. x < addr \<or> addr + length src \<le> x \<longrightarrow> cells c' x = cells c x) \<and>
    (rc = 0 \<longrightarrow> idle c' \<and> map (cells c') [addr ..< addr + length src] = src)"
    using assms
  proof (induction "length src" arbitrary: addr src c rule: less_induct)
    case less
    show ?case
    proof (cases "src = []")
      case True
      then show ?thesis using less.prems(1,4) by (simp add: stage_program.simps)
    next
      case False
      define n where "n = min (length src) (256 - addr mod 256)"
      have pos: "0 < 256 - addr mod 256" by simp
      have n: "0 < n" "n \<le> length src" "addr mod 256 + n \<le> 256" using False pos by (auto simp: n_def)
      have ln: "length (take n src) = n" using n by simp
      have fe: "addr < FLASH_END" using less.prems(2) False by (cases src) simp_all
      have pg: "addr mod 256 + length (take n src) \<le> 256" using n ln by simp
      obtain rc1 c1 where p: "w25q_program X addr (take n src) c = (rc1, c1)" by (cases "w25q_program X addr (take n src) c")
      have fr: "x < addr \<or> addr + n \<le> x \<Longrightarrow> cells c1 x = cells c x" for x
        using pr_frame [OF less.prems(1) pg fe, of x] by (simp only: p ln snd_conv)
      have step: "stage_program X addr src c =
          (if rc1 < 0 then (-1, c1) else stage_program X (addr + n) (drop n src) c1)"
        using False by (subst stage_program.simps) (simp add: Let_def n_def [symmetric] p)
      show ?thesis
      proof (cases "rc1 = 0")
        case False
        then have "rc1 = -1" using pr_rc [of addr "take n src" c] by (simp add: p)
        then have "(rc, c') = (-1, c1)" using less.prems(4) by (simp add: step)
        then show ?thesis using fr n(2) by auto
      next
        case ok: True
        have id1: "idle c1" using pr_idle [OF less.prems(1) pg fe] by (simp add: p ok)
        have "blank_at (cells c) addr (length (take n src))"
          using less.prems(3) n by (simp add: blank_at_def)
        from pr_blank [OF less.prems(1) pg fe _ this] have dat: "map (cells c1) [addr ..< addr + n] = take n src"
          using ln by (simp add: p ok)
        have bl: "blank_at (cells c1) (addr + n) (length (drop n src))"
          using less.prems(3) fr n(2) by (simp add: blank_at_def add.assoc)
        have rest: "stage_program X (addr + n) (drop n src) c1 = (rc, c')" using less.prems(4) by (simp add: step ok)
        have e: "addr + n + length (drop n src) = addr + length src" using n(2) by simp
        have lt: "length (drop n src) < length src" using n by simp
        from less.hyps [OF lt id1 _ bl rest] less.prems(2) e
        have IH: "rc = 0 \<or> rc = -1" "\<And>x. x < addr + n \<or> addr + length src \<le> x \<Longrightarrow> cells c' x = cells c1 x"
          "rc = 0 \<Longrightarrow> idle c' \<and> map (cells c') [addr + n ..< addr + length src] = drop n src" by auto
        have "map (cells c') [addr ..< addr + n] = map (cells c1) [addr ..< addr + n]" using IH(2) by simp
        then have "map (cells c') [addr ..< addr + length src] = take n src @ drop n src" if "rc = 0"
          using IH(3) [OF that] dat n(2) upt_add_eq_append [of addr "addr + n" "length src - n"] by simp
        moreover have "cells c' x = cells c x" if "x < addr \<or> addr + length src \<le> x" for x
          using that IH(2) [of x] fr [of x] n(2) by auto
        ultimately show ?thesis using IH by simp
      qed
    qed
  qed
  then show "rc = 0 \<or> rc = -1" "x < addr \<or> addr + length src \<le> x \<Longrightarrow> cells c' x = cells c x"
    "rc = 0 \<Longrightarrow> idle c' \<and> map (cells c') [addr ..< addr + length src] = src" by auto
qed

lemma stage_crc_spec:
  assumes "idle c" "addr + n \<le> FLASH_END"
  shows "fst (stage_crc X addr n ctx c) = ota_crc_update ctx (map (cells c) [addr ..< addr + n]) \<and>
    idle (snd (stage_crc X addr n ctx c)) \<and> cells (snd (stage_crc X addr n ctx c)) = cells c"
  using assms
proof (induction n arbitrary: addr ctx c rule: less_induct)
  case (less n)
  show ?case
  proof (cases "n = 0")
    case True
    then show ?thesis using less.prems by (simp add: stage_crc.simps ota_crc_update_def)
  next
    case False
    define k where "k = min n 256"
    have k: "0 < k" "k \<le> n" using False by (auto simp: k_def)
    obtain buf c1 where r: "w25q_read X addr k c = (buf, c1)" by (cases "w25q_read X addr k c")
    have fe: "addr + k \<le> FLASH_END" using less.prems(2) k by simp
    have rd: "buf = map (cells c) [addr ..< addr + k]" "idle c1" "cells c1 = cells c"
      using rd_data [OF less.prems(1) fe] rd_idle [OF less.prems(1) fe] rd_keeps [OF less.prems(1) fe] by (simp_all add: r)
    have step: "stage_crc X addr n ctx c = stage_crc X (addr + k) (n - k) (ota_crc_update ctx buf) c1"
      using False by (subst stage_crc.simps) (simp add: Let_def k_def [symmetric] r)
    have lt: "n - k < n" using k by simp
    have b: "addr + k + (n - k) \<le> FLASH_END" using less.prems(2) k by simp
    note IH = less.IH [OF lt rd(2) b, of "ota_crc_update ctx buf"]
    have sp: "[addr ..< addr + n] = [addr ..< addr + k] @ [addr + k ..< addr + n]"
      using upt_add_eq_append [of addr "addr + k" "n - k"] k by simp
    show ?thesis using IH k unfolding step sp by (simp add: rd ota_crc_update_def)
  qed
qed

lemma ota_crc_of_stage:
  assumes "idle c" "n \<le> OTA_STAGE_MAX_IMAGE_SIZE"
  shows "fst (ota_stage_compute_crc X n c) = crc32 (stage_cells (cells c) (unat n))"
    "idle (snd (ota_stage_compute_crc X n c))" "cells (snd (ota_stage_compute_crc X n c)) = cells c"
proof -
  have "unat n \<le> 0x100000" using assms(2) by (simp add: word_le_nat_alt)
  then have "OTA_STAGE_REGION_BASE + unat n \<le> FLASH_END" by simp
  note sp = stage_crc_spec [OF assms(1) this, of ota_crc_init]
  show "fst (ota_stage_compute_crc X n c) = crc32 (stage_cells (cells c) (unat n))"
    "idle (snd (ota_stage_compute_crc X n c))" "cells (snd (ota_stage_compute_crc X n c)) = cells c"
    using sp by (simp_all add: ota_stage_compute_crc_def case_prod_unfold Let_def stage_cells_def crc32_def
        ota_crc_finalize_def ota_crc_init_def ota_crc_update_def)
qed

lemma ota_begin_spec:
  assumes "idle c" "ota_stage_begin X n c = (rc, c')"
  shows "rc \<in> {0, -1, -2, -3}" "x < OTA_STAGE_REGION_BASE \<or> OTA_STAGE_REGION_BASE + OTA_STAGE_REGION_SIZE \<le> x \<Longrightarrow> cells c' x = cells c x"
    "rc = 0 \<Longrightarrow> idle c' \<and> 0 < n \<and> n \<le> OTA_STAGE_MAX_IMAGE_SIZE \<and> blank_at (cells c') OTA_STAGE_REGION_BASE (unat n)"
proof -
  let ?e = "sector_up (OTA_STAGE_REGION_BASE + unat n)"
  have "rc \<in> {0, -1, -2, -3} \<and>
    (x < OTA_STAGE_REGION_BASE \<or> OTA_STAGE_REGION_BASE + OTA_STAGE_REGION_SIZE \<le> x \<longrightarrow> cells c' x = cells c x) \<and>
    (rc = 0 \<longrightarrow> idle c' \<and> 0 < n \<and> n \<le> OTA_STAGE_MAX_IMAGE_SIZE \<and> blank_at (cells c') OTA_STAGE_REGION_BASE (unat n))"
  proof (cases "n = 0 \<or> n > OTA_STAGE_MAX_IMAGE_SIZE")
    case True
    then show ?thesis using assms(2) by (auto simp: ota_stage_begin_def split: if_splits)
  next
    case False
    then have le: "unat n \<le> 0x100000" by (simp add: not_less word_le_nat_alt)
    then have up: "?e \<le> 4096 * 1280" by (intro sector_up_le) simp
    have se: "stage_erase X OTA_STAGE_REGION_BASE ?e c = (rc, c')"
      using assms(2) False by (simp add: ota_stage_begin_def)
    have fe: "?e \<le> FLASH_END" using up by simp
    have base: "OTA_STAGE_REGION_BASE mod 4096 = 0" by simp
    note sp = stage_erase_spec [OF assms(1) base sector_up_bounds(3) fe se]
    have "OTA_STAGE_REGION_BASE + i < ?e" if "i < unat n" for i
      using that sector_up_bounds(1) [of "OTA_STAGE_REGION_BASE + unat n"] by simp
    then have bl: "rc = 0 \<Longrightarrow> blank_at (cells c') OTA_STAGE_REGION_BASE (unat n)"
      using sp(3) by (simp add: blank_at_def)
    have "0 < n \<and> n \<le> OTA_STAGE_MAX_IMAGE_SIZE" using False by (auto simp: word_gt_0)
    then show ?thesis using sp(1,3) sp(2) [of x] bl up by auto
  qed
  then show "rc \<in> {0, -1, -2, -3}" "x < OTA_STAGE_REGION_BASE \<or> OTA_STAGE_REGION_BASE + OTA_STAGE_REGION_SIZE \<le> x \<Longrightarrow> cells c' x = cells c x"
    "rc = 0 \<Longrightarrow> idle c' \<and> 0 < n \<and> n \<le> OTA_STAGE_MAX_IMAGE_SIZE \<and> blank_at (cells c') OTA_STAGE_REGION_BASE (unat n)" by blast+
qed

text \<open>On a device that completes its operations both succeed.\<close>

lemma stage_erase_completes:
  assumes "completes X idle"
  shows "idle c \<Longrightarrow> addr mod 4096 = 0 \<Longrightarrow> stop mod 4096 = 0 \<Longrightarrow> stop \<le> FLASH_END \<Longrightarrow> fst (stage_erase X addr stop c) = 0"
proof (induction "stop - addr" arbitrary: addr c rule: less_induct)
  case less
  show ?case
  proof (cases "addr < stop")
    case True
    obtain rc c1 where e: "w25q_erase_sector X addr c = (rc, c1)" by (cases "w25q_erase_sector X addr c")
    have rc: "rc = 0" using assms less.prems(1) e unfolding completes_def by (metis fst_conv)
    have fe: "addr < FLASH_END" using True less.prems(4) by simp
    have id1: "idle c1" using er_idle [OF less.prems(1) fe] by (simp add: e rc)
    have "fst (stage_erase X (addr + 4096) stop c1) = 0"
      using less.prems True by (intro less.hyps id1) auto
    then show ?thesis using True by (simp add: stage_erase.simps [of X addr] e rc)
  qed (simp add: stage_erase.simps)
qed

lemma stage_program_completes:
  assumes "completes X idle"
  shows "idle c \<Longrightarrow> addr + length src \<le> FLASH_END \<Longrightarrow> fst (stage_program X addr src c) = 0"
proof (induction "length src" arbitrary: addr src c rule: less_induct)
  case less
  show ?case
  proof (cases "src = []")
    case False
    define n where "n = min (length src) (256 - addr mod 256)"
    have pos: "0 < 256 - addr mod 256" by simp
    have n: "0 < n" "n \<le> length src" "addr mod 256 + n \<le> 256" using False pos by (auto simp: n_def)
    have ln: "length (take n src) = n" using n by simp
    have pg: "addr mod 256 + length (take n src) \<le> 256" using n ln by simp
    have fe: "addr < FLASH_END" using less.prems(2) False by (cases src) simp_all
    obtain rc c1 where p: "w25q_program X addr (take n src) c = (rc, c1)" by (cases "w25q_program X addr (take n src) c")
    have "0 < length (take n src)" "length (take n src) \<le> 256" using n ln by linarith+
    then have rc: "rc = 0" using assms less.prems(1) p unfolding completes_def by (metis fst_conv)
    have id1: "idle c1" using pr_idle [OF less.prems(1) pg fe] by (simp add: p rc)
    have "length (drop n src) < length src" "addr + n + length (drop n src) \<le> FLASH_END" using n less.prems(2) by simp_all
    then have "fst (stage_program X (addr + n) (drop n src) c1) = 0" by (rule less.hyps [OF _ id1])
    then show ?thesis using False by (subst stage_program.simps) (simp add: Let_def n_def [symmetric] p rc)
  qed (simp add: stage_program.simps)
qed

lemma ota_begin_completes:
  assumes "completes X idle" "idle c" "0 < n" "n \<le> OTA_STAGE_MAX_IMAGE_SIZE"
  shows "fst (ota_stage_begin X n c) = 0"
proof -
  have "unat n \<le> 0x100000" using assms(4) by (simp add: word_le_nat_alt)
  then have "sector_up (OTA_STAGE_REGION_BASE + unat n) \<le> 4096 * 1280" by (intro sector_up_le) simp
  then have "fst (stage_erase X OTA_STAGE_REGION_BASE (sector_up (OTA_STAGE_REGION_BASE + unat n)) c) = 0"
    using sector_up_bounds(3) by (intro stage_erase_completes [OF assms(1,2)]) simp_all
  then show ?thesis using assms(3,4) by (simp add: ota_stage_begin_def leD word_gt_0)
qed

end

end
