(* ===== verification/Persist_Task.thy ===== *)
theory Persist_Task
  imports Calibration Crash_State Rfid_Authlist Log_Props Ota_Stage
begin

text \<open>
  The persist task, \<^verbatim>\<open>src/src/tasks/persist_task.c\<close>: the only owner of the flash device, serving the
  queue of \<open>Persist_Req\<close> one request at a time. Its state gathers the caches of the persistence
  modules, the update session and the device; the frames it publishes and the republish requests it
  sends to the supervisor are appended to lists. Log lines are left out.
\<close>

section \<open>State\<close>

abbreviation (input) "OTA_STATUS_OK \<equiv> (0 :: u8)"
abbreviation (input) "OTA_STATUS_SESSION_INVALID \<equiv> (1 :: u8)"
abbreviation (input) "OTA_STATUS_OFFSET_MISMATCH \<equiv> (2 :: u8)"
abbreviation (input) "OTA_STATUS_WRITE_ERROR \<equiv> (3 :: u8)"
abbreviation (input) "OTA_STATUS_OVERSIZE \<equiv> (4 :: u8)"
abbreviation (input) "OTA_STATUS_TOO_LARGE \<equiv> (5 :: u8)"
abbreviation (input) "OTA_STATUS_ERASE_FAIL \<equiv> (6 :: u8)"
abbreviation (input) "OTA_STATUS_INVALID_PAYLOAD \<equiv> (7 :: u8)"
abbreviation (input) "OTA_STATUS_NO_SESSION \<equiv> (8 :: u8)"
abbreviation (input) "OTA_STATUS_CRC_MISMATCH \<equiv> (9 :: u8)"
abbreviation (input) "OTA_STATUS_PERSIST_FAIL \<equiv> (10 :: u8)"

record ota_session =
  o_session_id :: u32
  o_expected_size :: u32
  o_expected_crc32 :: u32
  o_next_offset :: u32
  o_running_crc :: u32

datatype persist_ask = ASK_RFID_CONFIG | ASK_GFCI_POLICY

type_synonym frame = "u8 \<times> u8 \<times> u8 list"

record 'c persist_state =
  p_cfg :: boot_config
  p_cal :: cal_mod
  p_crash :: crash_mod
  p_auth :: rfid_authlist_record
  p_events :: log_mod
  p_sessions :: log_mod
  p_ota :: ota_session
  p_chip :: 'c
  p_frames :: "frame list"
  p_asks :: "persist_ask list"

definition ota_in_session :: "ota_session \<Rightarrow> bool" where
  "ota_in_session s \<longleftrightarrow> o_session_id s \<noteq> 0"

definition ota_session_reset :: ota_session where
  "ota_session_reset = \<lparr>o_session_id = 0, o_expected_size = 0, o_expected_crc32 = 0, o_next_offset = 0,
     o_running_crc = ota_crc_init\<rparr>"

definition publish :: "u8 \<Rightarrow> u8 \<Rightarrow> u8 list \<Rightarrow> 'c persist_state \<Rightarrow> 'c persist_state" where
  "publish ev seq payload st = st\<lparr>p_frames := p_frames st @ [(ev, seq, payload)]\<rparr>"

section \<open>Queries\<close>

definition handle_rfid_get_list_persist :: "u8 \<Rightarrow> 'c persist_state \<Rightarrow> 'c persist_state" where
  "handle_rfid_get_list_persist seq st =
     (let count = al_count (p_auth st);
          st1 = fold (\<lambda>i st. case rfid_authlist_get_nth (of_nat i) (p_auth st) of
                   None \<Rightarrow> st
                 | Some uid \<Rightarrow> publish EVT_RFID_LIST_ENTRY seq ([of_nat i, count] @ le32_bytes uid) st)
               [0 ..< unat count] st
      in publish EVT_RFID_LIST_END seq [count] st1)"

text \<open>The walk back from the head, over the slots still to visit.\<close>

fun fault_log_walk :: "'c spi \<Rightarrow> nat \<Rightarrow> u8 \<Rightarrow> nat list \<Rightarrow> nat \<Rightarrow> 'c persist_state \<Rightarrow> nat \<times> 'c persist_state" where
  "fault_log_walk X max_count seq [] emitted st = (emitted, st)"
| "fault_log_walk X max_count seq (slot # slots) emitted st =
     (if emitted < max_count
      then let (rc, rec, c') = event_log_read_nth X slot (p_chip st);
               st1 = st\<lparr>p_chip := c'\<rparr>
           in if rc \<noteq> 0 then fault_log_walk X max_count seq slots emitted st1
              else fault_log_walk X max_count seq slots (emitted + 1)
                     (publish EVT_FAULT_LOG_ENTRY seq (event_bytes rec) st1)
      else (emitted, st))"

definition log_slots_back :: "nat \<Rightarrow> nat \<Rightarrow> nat list" where
  "log_slots_back n head = map (\<lambda>i. (head + n - 1 - i) mod n) [0 ..< n]"

definition handle_get_fault_log_persist :: "'c spi \<Rightarrow> u8 \<Rightarrow> u8 \<Rightarrow> 'c persist_state \<Rightarrow> 'c persist_state" where
  "handle_get_fault_log_persist X max_count0 seq st =
     (let m1 = (if max_count0 = 0 then 1 else max_count0);
          max_count = (if m1 > 32 then 32 else m1);
          (emitted, st1) = fault_log_walk X (unat max_count) seq
             (log_slots_back (EVENT_LOG_SECTORS * LOG_RECORDS_PER_SECTOR) (s_head_slot (p_events st))) 0 st
      in publish EVT_FAULT_LOG_END seq [of_nat emitted, max_count] st1)"

definition handle_get_lifetime_kwh_persist :: "'c spi \<Rightarrow> u8 \<Rightarrow> 'c persist_state \<Rightarrow> 'c persist_state" where
  "handle_get_lifetime_kwh_persist X seq st =
     (let (total_mwh, c') = fold (\<lambda>s (t, c).
             let (rc, rec, c1) = session_log_read_nth X s c
             in (if rc = 0 then t + unat (sr_mwh_delivered rec) else t, c1))
           [0 ..< SESSION_LOG_SECTORS * LOG_RECORDS_PER_SECTOR] (0 :: nat, p_chip st);
          mwh32 = (if total_mwh > 0xFFFFFFFF then 0xFFFFFFFF else total_mwh)
      in publish EVT_LIFETIME_KWH seq (le32_bytes (of_nat mwh32)) (st\<lparr>p_chip := c'\<rparr>))"

section \<open>Firmware update\<close>

definition handle_ota_begin_persist :: "'c spi \<Rightarrow> ota_begin_args \<Rightarrow> 'c persist_state \<Rightarrow> 'c persist_state" where
  "handle_ota_begin_persist X a st =
     (let (status, st1) =
        (if ob_session_id a = 0 \<or> ob_image_size a = 0 then (OTA_STATUS_INVALID_PAYLOAD, st)
         else if ob_image_size a > OTA_STAGE_MAX_IMAGE_SIZE then (OTA_STATUS_TOO_LARGE, st)
         else let (rc, c') = ota_stage_begin X (ob_image_size a) (p_chip st);
                  st' = st\<lparr>p_chip := c'\<rparr>
              in if rc \<noteq> 0 then (OTA_STATUS_ERASE_FAIL, st'\<lparr>p_ota := ota_session_reset\<rparr>)
                 else (OTA_STATUS_OK, st'\<lparr>p_ota := ota_session_reset\<lparr>o_session_id := ob_session_id a,
                         o_expected_size := ob_image_size a, o_expected_crc32 := ob_image_crc32 a\<rparr>\<rparr>))
      in publish EVT_OTA_BEGIN_ACK (ob_seq a)
           (le32_bytes (ob_session_id a) @ [status, of_nat OTA_CHUNK_MAX_DATA] @ le16_bytes 0) st1)"

definition handle_ota_chunk_persist :: "'c spi \<Rightarrow> ota_chunk_args \<Rightarrow> 'c persist_state \<Rightarrow> 'c persist_state" where
  "handle_ota_chunk_persist X k st =
     (let s = p_ota st;
          ack = (\<lambda>next_offset running status. le32_bytes (oc_session_id k) @ le32_bytes next_offset @
                   le32_bytes running @ [status]);
          same = ack (o_next_offset s) (ota_crc_finalize (o_running_crc s));
          (payload, st1) =
            (if \<not> ota_in_session s then (same OTA_STATUS_NO_SESSION, st)
             else if oc_session_id k \<noteq> o_session_id s then (same OTA_STATUS_SESSION_INVALID, st)
             else if oc_offset k \<noteq> o_next_offset s then (same OTA_STATUS_OFFSET_MISMATCH, st)
             else if unat (oc_offset k) + length (oc_data k) > unat (o_expected_size s) then (same OTA_STATUS_OVERSIZE, st)
             else let (rc, c') = ota_stage_write X (oc_offset k) (oc_data k) (p_chip st);
                      st' = st\<lparr>p_chip := c'\<rparr>
                  in if rc \<noteq> 0 then (same OTA_STATUS_WRITE_ERROR, st')
                     else let s' = s\<lparr>o_running_crc := ota_crc_update (o_running_crc s) (oc_data k),
                                 o_next_offset := oc_offset k + of_nat (length (oc_data k))\<rparr>
                          in (ack (o_next_offset s') (ota_crc_finalize (o_running_crc s')) OTA_STATUS_OK,
                              st'\<lparr>p_ota := s'\<rparr>))
      in publish EVT_OTA_CHUNK_ACK (oc_seq k) payload st1)"

definition handle_ota_commit_persist :: "'c spi \<Rightarrow> ota_abort_args \<Rightarrow> 'c persist_state \<Rightarrow> 'c persist_state" where
  "handle_ota_commit_persist X a st =
     (let s = p_ota st;
          (status, st1) =
            (if \<not> ota_in_session s then (OTA_STATUS_NO_SESSION, st)
             else if oa_session_id a \<noteq> o_session_id s then (OTA_STATUS_SESSION_INVALID, st)
             else if o_next_offset s \<noteq> o_expected_size s then (OTA_STATUS_OFFSET_MISMATCH, st)
             else let (staged_crc, c1) = ota_stage_compute_crc X (o_expected_size s) (p_chip st);
                      st' = st\<lparr>p_chip := c1\<rparr>
                  in if staged_crc \<noteq> o_expected_crc32 s then (OTA_STATUS_CRC_MISMATCH, st')
                     else let (rc, cfg', c2) = ota_stage_mark_pending X (o_expected_size s) (o_expected_crc32 s) (p_cfg st) c1;
                              st'' = st\<lparr>p_cfg := cfg', p_chip := c2\<rparr>
                          in if rc \<noteq> 0 then (OTA_STATUS_PERSIST_FAIL, st'') else (OTA_STATUS_OK, st''))
      in publish EVT_OTA_COMMITTED (oa_seq a) (le32_bytes (oa_session_id a) @ [status]) st1)"

definition handle_ota_abort_persist :: "ota_abort_args \<Rightarrow> 'c persist_state \<Rightarrow> 'c persist_state" where
  "handle_ota_abort_persist a st =
     (let st1 = (if ota_in_session (p_ota st) \<and> oa_session_id a = o_session_id (p_ota st)
                 then st\<lparr>p_ota := ota_session_reset\<rparr> else st)
      in publish EVT_OTA_ABORTED (oa_seq a) (le32_bytes (oa_session_id a)) st1)"

section \<open>The task\<close>

definition persist_request :: "'c spi \<Rightarrow> persist_req \<Rightarrow> 'c persist_state \<Rightarrow> 'c persist_state" where
  "persist_request X req st =
     (case req of
        PERSIST_REQ_EVENT rec \<Rightarrow>
          (let (_, m, c) = event_log_append X rec (p_events st) (p_chip st) in st\<lparr>p_events := m, p_chip := c\<rparr>)
      | PERSIST_REQ_SESSION rec \<Rightarrow>
          (let (_, m, c) = session_log_append X rec (p_sessions st) (p_chip st) in st\<lparr>p_sessions := m, p_chip := c\<rparr>)
      | PERSIST_REQ_CRASH_STATE_RESET \<Rightarrow>
          (let (_, m, c) = crash_state_reset_alive X (p_crash st) (p_chip st) in st\<lparr>p_crash := m, p_chip := c\<rparr>)
      | PERSIST_REQ_BOOT_CONFIG_AMPS amps \<Rightarrow>
          (let (_, m, c) = boot_config_set_advertised_amps X amps (p_cfg st) (p_chip st) in st\<lparr>p_cfg := m, p_chip := c\<rparr>)
      | PERSIST_REQ_CALIBRATION args \<Rightarrow>
          (let (_, m, c) = calibration_set_cp X args (p_cal st) (p_chip st) in st\<lparr>p_cal := m, p_chip := c\<rparr>)
      | PERSIST_REQ_BL0939_CAL args \<Rightarrow>
          (let (_, m, c) = calibration_set_bl0939 X args (p_cal st) (p_chip st) in st\<lparr>p_cal := m, p_chip := c\<rparr>)
      | PERSIST_REQ_GET_FAULT_LOG max_count seq \<Rightarrow> handle_get_fault_log_persist X max_count seq st
      | PERSIST_REQ_GET_LIFETIME_KWH seq \<Rightarrow> handle_get_lifetime_kwh_persist X seq st
      | PERSIST_REQ_RFID_AUTHLIST_ADD uid \<Rightarrow>
          (let (_, r, c) = rfid_authlist_add X uid (p_auth st) (p_chip st) in st\<lparr>p_auth := r, p_chip := c\<rparr>)
      | PERSIST_REQ_RFID_AUTHLIST_REMOVE uid \<Rightarrow>
          (let (_, r, c) = rfid_authlist_remove X uid (p_auth st) (p_chip st) in st\<lparr>p_auth := r, p_chip := c\<rparr>)
      | PERSIST_REQ_RFID_AUTHLIST_CLEAR \<Rightarrow>
          (let (_, r, c) = rfid_authlist_clear X (p_auth st) (p_chip st) in st\<lparr>p_auth := r, p_chip := c\<rparr>)
      | PERSIST_REQ_RFID_AUTHLIST_GET_LIST seq \<Rightarrow> handle_rfid_get_list_persist seq st
      | PERSIST_REQ_REQUIRE_RFID_AUTH enable \<Rightarrow>
          (let (rc, m, c) = boot_config_set_require_rfid_auth X enable (p_cfg st) (p_chip st);
               st1 = st\<lparr>p_cfg := m, p_chip := c\<rparr>
           in if rc < 0 then st1 else st1\<lparr>p_asks := p_asks st1 @ [ASK_RFID_CONFIG]\<rparr>)
      | PERSIST_REQ_GFCI_POLICY policy \<Rightarrow>
          (let (_, m, c) = boot_config_set_gfci_fault_policy X policy (p_cfg st) (p_chip st)
           in st\<lparr>p_cfg := m, p_chip := c, p_asks := p_asks st @ [ASK_GFCI_POLICY]\<rparr>)
      | PERSIST_REQ_OTA_BEGIN a \<Rightarrow> handle_ota_begin_persist X a st
      | PERSIST_REQ_OTA_CHUNK a \<Rightarrow> handle_ota_chunk_persist X a st
      | PERSIST_REQ_OTA_COMMIT a \<Rightarrow> handle_ota_commit_persist X a st
      | PERSIST_REQ_OTA_ABORT a \<Rightarrow> handle_ota_abort_persist a st)"

text \<open>One pass of the task: the oldest request is served and the overflow warning rearmed.\<close>

definition persist_task_pass :: "'c spi \<Rightarrow> persist_queue \<times> 'c persist_state \<Rightarrow> persist_queue \<times> 'c persist_state" where
  "persist_task_pass X qs =
     (let (q, st) = qs
      in case waiting q of
           [] \<Rightarrow> (q, st)
         | req # rest \<Rightarrow> (q\<lparr>waiting := rest, s_overflow_warned := False\<rparr>, persist_request X req st))"

definition persist_run :: "'c spi \<Rightarrow> persist_req list \<Rightarrow> 'c persist_state \<Rightarrow> 'c persist_state" where
  "persist_run X reqs st = fold (persist_request X) reqs st"

end
