(* ===== verification/Persist_Inv.thy ===== *)
theory Persist_Inv
  imports Persist_Task
begin

text \<open>
  The invariant of the persist task on a device that completes its operations: caches and flash agree
  for the configuration, the calibration and the crash counter, the lists and logs are well formed, and
  the staging area holds the bytes the update session has accepted. Every request keeps it; the lemmas
  say for each request which sectors it may touch.
\<close>

section \<open>Footprints\<close>

abbreviation (input) "bc_sectors \<equiv> {0, 1 :: nat}"
abbreviation (input) "cal_sectors \<equiv> {2, 3 :: nat}"
abbreviation (input) "auth_sectors \<equiv> {5, 6 :: nat}"
abbreviation (input) "event_sectors \<equiv> {4 ..< 68 :: nat}"
abbreviation (input) "session_sectors \<equiv> {68 ..< 76 :: nat}"
abbreviation (input) "crash_sectors \<equiv> {77, 78 :: nat}"
abbreviation (input) "stage_sectors \<equiv> {1024 ..< 1280 :: nat}"

context w25q_chip
begin

lemma bc_store_ok:
  assumes "idle c" "bc_wf cfg" "completes X idle" "bc_store X cfg c = (rc, cfg', c')"
  shows "rc = 0 \<and> idle c' \<and> bc_synced cfg' (cells c') \<and> bc_settings cfg' = bc_settings cfg \<and> only_touches cells bc_sectors c c'"
proof -
  let ?cfg = "cfg\<lparr>bc_version := BOOT_CONFIG_VERSION\<rparr>"
  have wf: "bc_wf ?cfg" using assms(2) by (simp add: bc_wf_def)
  obtain rc' where put: "rec_put X BOOT_CONFIG_SLOT_A BOOT_CONFIG_SLOT_B bc_bytes bc_of_bytes ?cfg c = (rc', cfg', c')"
    and rc: "rc = (if rc' < 0 then rc' else 0)"
    using assms(4) by (auto simp: bc_store_def Let_def split: prod.splits)
  note ok = bc.put_ok [OF assms(1) wf assms(3) put]
  have "rc = 0" using ok rc by simp
  then show ?thesis using bc_store_spec [OF assms(1,2,4)] ok by simp
qed

lemma bc_setter_ok:
  assumes "idle c" "bc_synced cfg (cells c)" "completes X idle" "bc_wf cfg1"
    and "(if same then (0, cfg, c) else bc_store X cfg1 c) = (rc, cfg', c')" "same \<Longrightarrow> bc_settings cfg = bc_settings cfg1"
  shows "rc = 0 \<and> idle c' \<and> bc_synced cfg' (cells c') \<and> only_touches cells bc_sectors c c' \<and> bc_settings cfg' = bc_settings cfg1"
proof (cases same)
  case True
  then show ?thesis using assms(1,2,5,6) touches_refl by simp
next
  case False
  then show ?thesis using bc_store_ok [OF assms(1,4,3), of rc cfg' c'] assms(5) by simp
qed

lemma bc_setters_ok:
  assumes "idle c" "bc_synced cfg (cells c)" "completes X idle"
  shows "boot_config_set_advertised_amps X amps cfg c = (rc, cfg', c') \<Longrightarrow>
      rc = 0 \<and> idle c' \<and> bc_synced cfg' (cells c') \<and> only_touches cells bc_sectors c c' \<and>
      bc_settings cfg' = bc_settings (cfg\<lparr>fc41d_advertised_amps := amps\<rparr>)"
    "boot_config_set_require_rfid_auth X b cfg c = (rc, cfg', c') \<Longrightarrow>
      rc = 0 \<and> idle c' \<and> bc_synced cfg' (cells c') \<and> only_touches cells bc_sectors c c' \<and>
      bc_settings cfg' = bc_settings (cfg\<lparr>require_rfid_auth := if b \<noteq> 0 then 1 else 0\<rparr>)"
    "boot_config_set_gfci_fault_policy X pol cfg c = (rc, cfg', c') \<Longrightarrow>
      rc = (if pol > 1 then -1 else 0) \<and> idle c' \<and> bc_synced cfg' (cells c') \<and> only_touches cells bc_sectors c c' \<and>
      bc_settings cfg' = bc_settings (if pol > 1 then cfg else cfg\<lparr>gfci_fault_policy := pol\<rparr>)"
    "boot_config_set_pending_ota X 1 sz crc cfg c = (rc, cfg', c') \<Longrightarrow>
      rc = 0 \<and> idle c' \<and> bc_synced cfg' (cells c') \<and> only_touches cells bc_sectors c c' \<and>
      bc_settings cfg' = bc_settings (cfg\<lparr>pending_ota_flag := 1, staged_image_size := sz, staged_image_crc32 := crc\<rparr>)"
    "boot_config_set_pending_ota X 0 sz crc cfg c = (rc, cfg', c') \<Longrightarrow>
      rc = 0 \<and> idle c' \<and> bc_synced cfg' (cells c') \<and> only_touches cells bc_sectors c c' \<and>
      bc_settings cfg' = bc_settings (cfg\<lparr>pending_ota_flag := 0, staged_image_size := 0, staged_image_crc32 := 0\<rparr>)"
proof -
  have wf: "bc_wf cfg" using assms(2) by (simp add: bc_synced_def)
  note st = bc_store_ok [OF assms(1) _ assms(3)]
  show "boot_config_set_advertised_amps X amps cfg c = (rc, cfg', c') \<Longrightarrow>
      rc = 0 \<and> idle c' \<and> bc_synced cfg' (cells c') \<and> only_touches cells bc_sectors c c' \<and>
      bc_settings cfg' = bc_settings (cfg\<lparr>fc41d_advertised_amps := amps\<rparr>)"
    using assms(1,2) wf st [of "cfg\<lparr>fc41d_advertised_amps := amps\<rparr>"] touches_refl
    by (auto simp: boot_config_set_advertised_amps_def bc_settings_def bc_wf_def split: if_splits)
  show "boot_config_set_require_rfid_auth X b cfg c = (rc, cfg', c') \<Longrightarrow>
      rc = 0 \<and> idle c' \<and> bc_synced cfg' (cells c') \<and> only_touches cells bc_sectors c c' \<and>
      bc_settings cfg' = bc_settings (cfg\<lparr>require_rfid_auth := if b \<noteq> 0 then 1 else 0\<rparr>)"
    using assms(1,2) wf st [of "cfg\<lparr>require_rfid_auth := if b \<noteq> 0 then 1 else 0\<rparr>"] touches_refl
    by (auto simp: boot_config_set_require_rfid_auth_def bc_settings_def bc_wf_def Let_def split: if_splits)
  show "boot_config_set_gfci_fault_policy X pol cfg c = (rc, cfg', c') \<Longrightarrow>
      rc = (if pol > 1 then -1 else 0) \<and> idle c' \<and> bc_synced cfg' (cells c') \<and> only_touches cells bc_sectors c c' \<and>
      bc_settings cfg' = bc_settings (if pol > 1 then cfg else cfg\<lparr>gfci_fault_policy := pol\<rparr>)"
    using assms(1,2) wf st [of "cfg\<lparr>gfci_fault_policy := pol\<rparr>"] touches_refl
    by (auto simp: boot_config_set_gfci_fault_policy_def bc_settings_def bc_wf_def split: if_splits)
  show "rc = 0 \<and> idle c' \<and> bc_synced cfg' (cells c') \<and> only_touches cells bc_sectors c c' \<and>
      bc_settings cfg' = bc_settings (cfg\<lparr>pending_ota_flag := 1, staged_image_size := sz, staged_image_crc32 := crc\<rparr>)"
    if "boot_config_set_pending_ota X 1 sz crc cfg c = (rc, cfg', c')"
  proof (rule bc_setter_ok [OF assms])
    show "(if pending_ota_flag cfg = 1 \<and> staged_image_size cfg = sz \<and> staged_image_crc32 cfg = crc then (0, cfg, c)
      else bc_store X (cfg\<lparr>pending_ota_flag := 1, staged_image_size := sz, staged_image_crc32 := crc\<rparr>) c) = (rc, cfg', c')"
      using that by (simp only: boot_config_set_pending_ota_def Let_def simp_thms zero_neq_one one_neq_zero if_True if_False)
  qed (use wf in \<open>simp_all add: bc_settings_def bc_wf_def\<close>)
  show "rc = 0 \<and> idle c' \<and> bc_synced cfg' (cells c') \<and> only_touches cells bc_sectors c c' \<and>
      bc_settings cfg' = bc_settings (cfg\<lparr>pending_ota_flag := 0, staged_image_size := 0, staged_image_crc32 := 0\<rparr>)"
    if "boot_config_set_pending_ota X 0 sz crc cfg c = (rc, cfg', c')"
  proof (rule bc_setter_ok [OF assms])
    show "(if pending_ota_flag cfg = 0 \<and> staged_image_size cfg = 0 \<and> staged_image_crc32 cfg = 0 then (0, cfg, c)
      else bc_store X (cfg\<lparr>pending_ota_flag := 0, staged_image_size := 0, staged_image_crc32 := 0\<rparr>) c) = (rc, cfg', c')"
      using that by (simp only: boot_config_set_pending_ota_def Let_def simp_thms zero_neq_one one_neq_zero if_True if_False)
  qed (use wf in \<open>simp_all add: bc_settings_def bc_wf_def\<close>)
qed

lemma cal_changes_ok:
  assumes "idle c" "cal_synced m (cells c)" "completes X idle"
    and "calibration_set_cp X args m c = (rc, m', c') \<or> calibration_set_bl0939 X bargs m c = (rc, m', c')"
  shows "idle c' \<and> cal_synced m' (cells c') \<and> only_touches cells cal_sectors c c'"
proof -
  have wf: "cal_wf (s_cal m)" using assms(2) by (simp add: cal_synced_def)
  have "c' = c \<and> m' = m \<or> rc = 0 \<and> (\<exists>r1 rc1 r2. cal_wf r1 \<and> cal_put X r1 c = (rc1, r2, c')) \<or>
    (\<exists>r1 rc1 r2. cal_wf r1 \<and> cal_put X r1 c = (rc1, r2, c') \<and> rc1 < 0)"
    using assms(4)
  proof
    assume st: "calibration_set_cp X args m c = (rc, m', c')"
    let ?r = "(s_cal m)\<lparr>cal_version := CALIBRATION_VERSION, cp_anchor_raw := anchor_raw args,
      cp_slope_num := slope_num args, cp_slope_den := slope_den args\<rparr>"
    have w: "cal_wf ?r" using wf by (simp add: cal_wf_def)
    obtain rc1 r2 c2 where put: "cal_put X ?r c = (rc1, r2, c2)" by (cases "cal_put X ?r c")
    have "c' = c \<and> m' = m \<or> c' = c2 \<and> (rc = 0 \<or> rc1 < 0)"
      using st put by (auto simp: calibration_set_cp_def Let_def split: if_splits)
    then show ?thesis using w put by blast
  next
    assume st: "calibration_set_bl0939 X bargs m c = (rc, m', c')"
    let ?r = "(s_cal m)\<lparr>cal_version := CALIBRATION_VERSION, bl0939_v_uv_per_raw := v_uv_per_raw bargs,
      bl0939_ia_na_per_raw := ia_na_per_raw bargs, bl0939_ib_ua_per_raw := ib_ua_per_raw bargs,
      bl0939_pa_uw_per_raw := pa_uw_per_raw bargs, bl0939_freq_const := freq_const bargs\<rparr>"
    have w: "cal_wf ?r" using wf by (simp add: cal_wf_def)
    obtain rc1 r2 c2 where put: "cal_put X ?r c = (rc1, r2, c2)" by (cases "cal_put X ?r c")
    have "c' = c \<and> m' = m \<or> c' = c2 \<and> (rc = 0 \<or> rc1 < 0)"
      using st put by (auto simp: calibration_set_bl0939_def Let_def split: if_splits)
    then show ?thesis using w put by blast
  qed
  then show ?thesis
  proof (elim disjE exE conjE)
    assume "c' = c" "m' = m" then show ?thesis using assms(1,2) touches_refl by simp
  next
    fix r1 rc1 r2
    assume rc: "rc = 0" and w: "cal_wf r1" and put: "cal_put X r1 c = (rc1, r2, c')"
    have "idle c' \<and> cal_synced m' (cells c')"
      using assms(4) cal_set_cp_spec(1) [OF assms(1,2) _ rc] cal_set_bl0939_spec(1) [OF assms(1,2) _ rc] by blast
    then show ?thesis using cal.put_ok [OF assms(1) w assms(3) put] by simp
  next
    fix r1 rc1 r2
    assume w: "cal_wf r1" and put: "cal_put X r1 c = (rc1, r2, c')" and "rc1 < 0"
    then show ?thesis using cal.put_ok [OF assms(1) w assms(3) put] by simp
  qed
qed

lemma crash_alive_ok:
  assumes "idle c" "life_inv (cells c) m k" "completes X idle" "crash_state_reset_alive X m c = (rc, m', c')"
  shows "idle c' \<and> life_inv (cells c') m' 0 \<and> only_touches cells crash_sectors c c'"
proof -
  let ?r = "(s_cs m)\<lparr>cs_version := CRASH_STATE_VERSION, fast_restart_count := 0\<rparr>"
  have wf: "cs_wf ?r" using assms(2) by (simp add: life_inv_def cs_wf_def)
  obtain rc1 r1 c1 where put: "rec_put X CRASH_STATE_SLOT_A CRASH_STATE_SLOT_B cs_bytes cs_of_bytes ?r c = (rc1, r1, c1)"
    by (cases "rec_put X CRASH_STATE_SLOT_A CRASH_STATE_SLOT_B cs_bytes cs_of_bytes ?r c")
  have "c' = c \<or> c' = c1" using assms(4) put by (auto simp: crash_state_reset_alive_def split: if_splits)
  then have "only_touches cells crash_sectors c c'"
    using cs.put_ok [OF assms(1) wf assms(3) put] touches_refl by auto
  then show ?thesis using cs_alive [OF assms(1,3,2,4)] by simp
qed

lemma log_write_ok:
  assumes "idle c" "log_region base sectors" "head < sectors * 128" "length bs = 32" "completes X idle"
    and "log_write X base sectors bs head c = (rc, head', c')"
  shows "rc = 0 \<and> head' = (head + 1) mod (sectors * 128) \<and> idle c' \<and>
    only_touches cells {base div 4096 ..< base div 4096 + sectors} c c'"
proof -
  let ?a = "slot_to_addr base head"
  have b: "base mod 4096 = 0" "base + sectors * 4096 \<le> FLASH_END" using assms(2) by (simp_all add: log_region_def)
  note e = slot_end [OF b(2) assms(3)]
  have sec: "?a div 4096 = base div 4096 + head div 128" by (rule slot_sector [OF b(1)]) simp_all
  have hd: "head div 128 < sectors" using assms(3) by (simp add: less_mult_imp_div_less)
  have pg: "?a mod 256 + length bs \<le> 256" using slot_page [OF b(1), of head] by (simp add: assms(4))
  obtain probe c0 where r: "w25q_read X ?a 32 c = (probe, c0)" by (cases "w25q_read X ?a 32 c")
  have rd: "idle c0" "cells c0 = cells c"
    using rd_idle [OF assms(1) e(1)] rd_keeps [OF assms(1) e(1)] by (simp_all add: r)
  obtain rc0 c2 where er: "w25q_erase_sector X ?a c0 = (rc0, c2)" by (cases "w25q_erase_sector X ?a c0")
  have rc0: "rc0 = 0" using assms(5) rd(1) er unfolding completes_def by (metis fst_conv)
  have c2: "idle c2" "x div 4096 \<noteq> ?a div 4096 \<Longrightarrow> cells c2 x = cells c x" for x
    using er_idle [OF rd(1) e(2)] er_frame [OF rd(1) e(2)] rd(2) by (simp_all add: er rc0)
  obtain rc1 c1 where en: "log_enter X ?a head c = (rc1, c1)" by (cases "log_enter X ?a head c")
  have c1: "rc1 = 0" "idle c1" "x div 4096 \<noteq> ?a div 4096 \<Longrightarrow> cells c1 x = cells c x" for x
    using en assms(1) rd c2 rc0 by (auto simp: log_enter_def r er split: if_splits)
  obtain rc2 c3 where pr: "w25q_program X ?a bs c1 = (rc2, c3)" by (cases "w25q_program X ?a bs c1")
  have "0 < length bs" "length bs \<le> 256" by (simp_all add: assms(4))
  then have rc2: "rc2 = 0" using assms(5) c1(2) pr unfolding completes_def by (metis fst_conv)
  have c3: "idle c3" using pr_idle [OF c1(2) pg e(2)] by (simp add: pr rc2)
  have fr: "cells c3 x = cells c x" if "x div 4096 \<noteq> ?a div 4096" for x
  proof -
    have "x < ?a \<or> ?a + length bs \<le> x"
    proof -
      have "\<not> (?a \<le> x \<and> x < ?a + 32)" using that slot_sector [OF b(1), of head x] sec by auto
      then show ?thesis using assms(4) by linarith
    qed
    then show ?thesis using pr_frame [OF c1(2) pg e(2), of x] c1(3) [OF that] by (simp add: pr)
  qed
  have "only_touches cells {base div 4096 ..< base div 4096 + sectors} c c3"
    unfolding only_touches_def using fr sec hd by auto
  then show ?thesis using assms(6) c3 by (simp add: log_write_def en c1(1) pr rc2)
qed

lemma log_read_ok:
  assumes "idle c" "log_region base sectors" "log_read_nth X base sectors n c = (rc, p, c')"
  shows "idle c' \<and> cells c' = cells c"
proof -
  have b: "base + sectors * 4096 \<le> FLASH_END" using assms(2) by (simp add: log_region_def)
  show ?thesis
  proof (cases "n < sectors * 128")
    case True
    note e = slot_end [OF b True]
    show ?thesis using assms(3) True rd_idle [OF assms(1) e(1)] rd_keeps [OF assms(1) e(1)]
      by (auto simp: log_read_nth_def case_prod_unfold Let_def)
  next
    case False
    then show ?thesis using assms(1,3) by (simp add: log_read_nth_def)
  qed
qed

end

section \<open>The invariant of the task\<close>

definition ota_ok :: "ota_session \<Rightarrow> (nat \<Rightarrow> u8) \<Rightarrow> bool" where
  "ota_ok s mem \<longleftrightarrow> (ota_in_session s \<longrightarrow>
     o_expected_size s \<le> OTA_STAGE_MAX_IMAGE_SIZE \<and> o_next_offset s \<le> o_expected_size s \<and>
     o_running_crc s = ota_crc_update ota_crc_init (stage_cells mem (unat (o_next_offset s))) \<and>
     blank_at mem (OTA_STAGE_REGION_BASE + unat (o_next_offset s)) (unat (o_expected_size s) - unat (o_next_offset s)))"

definition persist_inv :: "('c \<Rightarrow> nat \<Rightarrow> u8) \<Rightarrow> ('c \<Rightarrow> bool) \<Rightarrow> 'c persist_state \<Rightarrow> bool" where
  "persist_inv cells idle st \<longleftrightarrow>
     (let mem = cells (p_chip st) in
      idle (p_chip st) \<and> bc_synced (p_cfg st) mem \<and> cal_synced (p_cal st) mem \<and> (\<exists>k. life_inv mem (p_crash st) k) \<and>
      al_inv (p_auth st) \<and> s_head_slot (p_events st) < EVENT_LOG_SECTORS * 128 \<and>
      s_head_slot (p_sessions st) < SESSION_LOG_SECTORS * 128 \<and> ota_ok (p_ota st) mem)"

text \<open>The reserved bytes of a posted log record are the ten of the C struct.\<close>

fun request_wf :: "persist_req \<Rightarrow> bool" where
  "request_wf (PERSIST_REQ_EVENT r) \<longleftrightarrow> length (ev_reserved r) = 10"
| "request_wf (PERSIST_REQ_SESSION r) \<longleftrightarrow> length (sr_reserved r) = 10"
| "request_wf _ \<longleftrightarrow> True"

lemma stage_sector: "OTA_STAGE_REGION_BASE \<le> x \<Longrightarrow> x < OTA_STAGE_REGION_BASE + OTA_STAGE_REGION_SIZE \<Longrightarrow> x div 4096 \<in> stage_sectors"
  by (simp add: less_mult_imp_div_less less_eq_div_iff_mult_less_eq)

lemma ota_ok_cong:
  assumes "\<And>x. OTA_STAGE_REGION_BASE \<le> x \<Longrightarrow> x < OTA_STAGE_REGION_BASE + OTA_STAGE_REGION_SIZE \<Longrightarrow> mem' x = mem x"
    and "ota_ok s mem"
  shows "ota_ok s mem'"
proof (cases "ota_in_session s")
  case True
  then have o: "o_expected_size s \<le> OTA_STAGE_MAX_IMAGE_SIZE" "o_next_offset s \<le> o_expected_size s" using assms(2) by (simp_all add: ota_ok_def)
  then have n: "unat (o_expected_size s) \<le> 0x100000" "unat (o_next_offset s) \<le> unat (o_expected_size s)"
    by (simp_all add: word_le_nat_alt)
  have "stage_cells mem' (unat (o_next_offset s)) = stage_cells mem (unat (o_next_offset s))"
    using assms(1) n by (simp add: stage_cells_def)
  moreover have "blank_at mem' (OTA_STAGE_REGION_BASE + unat (o_next_offset s)) (unat (o_expected_size s) - unat (o_next_offset s)) =
    blank_at mem (OTA_STAGE_REGION_BASE + unat (o_next_offset s)) (unat (o_expected_size s) - unat (o_next_offset s))"
    using assms(1) n by (simp add: blank_at_def add.assoc)
  ultimately show ?thesis using assms(2) by (simp add: ota_ok_def)
qed (simp add: ota_ok_def)

context w25q_chip
begin

text \<open>What operations on other sectors keep.\<close>

lemma keeps_bc: "only_touches cells S c c' \<Longrightarrow> 0 \<notin> S \<Longrightarrow> 1 \<notin> S \<Longrightarrow> bc_synced cfg (cells c') = bc_synced cfg (cells c)"
  using bc.in_flash_touches [of S c c'] by (simp add: bc_synced_def)

lemma keeps_cal: "only_touches cells S c c' \<Longrightarrow> 2 \<notin> S \<Longrightarrow> 3 \<notin> S \<Longrightarrow> cal_synced m (cells c') = cal_synced m (cells c)"
  using cal.in_flash_touches [of S c c'] by (simp add: cal_synced_def)

lemma keeps_crash: "only_touches cells S c c' \<Longrightarrow> 77 \<notin> S \<Longrightarrow> 78 \<notin> S \<Longrightarrow> life_inv (cells c') m k = life_inv (cells c) m k"
  using cs.in_flash_touches [of S c c'] by (simp add: life_inv_def)

lemma keeps_ota:
  assumes "only_touches cells S c c'" "S \<inter> stage_sectors = {}" "ota_ok s (cells c)"
  shows "ota_ok s (cells c')"
proof (rule ota_ok_cong [OF _ assms(3)])
  fix x assume "OTA_STAGE_REGION_BASE \<le> x" "x < OTA_STAGE_REGION_BASE + OTA_STAGE_REGION_SIZE"
  then have "x div 4096 \<in> stage_sectors" by (rule stage_sector)
  then show "cells c' x = cells c x" using assms(1,2) by (auto simp: only_touches_def)
qed

lemmas keeps = keeps_bc keeps_cal keeps_crash keeps_ota

end

text \<open>A query changes only the device's reading position and appends frames of its own kinds.\<close>

definition query_ext :: "('c \<Rightarrow> nat \<Rightarrow> u8) \<Rightarrow> ('c \<Rightarrow> bool) \<Rightarrow> u8 set \<Rightarrow> 'c persist_state \<Rightarrow> 'c persist_state \<Rightarrow> bool" where
  "query_ext cells idle E st st' \<longleftrightarrow>
     idle (p_chip st') \<and> cells (p_chip st') = cells (p_chip st) \<and>
     (\<exists>frs. st' = st\<lparr>p_chip := p_chip st', p_frames := p_frames st @ frs\<rparr> \<and> (\<forall>f \<in> set frs. fst f \<in> E))"

lemma query_refl: "idle (p_chip st) \<Longrightarrow> query_ext cells idle E st st"
  unfolding query_ext_def by (intro conjI exI [of _ "[]"]) simp_all

lemma query_trans:
  assumes "query_ext cells idle E st st1" "query_ext cells idle E st1 st2"
  shows "query_ext cells idle E st st2"
proof -
  obtain f1 where 1: "st1 = st\<lparr>p_chip := p_chip st1, p_frames := p_frames st @ f1\<rparr>" "\<forall>f \<in> set f1. fst f \<in> E"
    using assms(1) by (auto simp: query_ext_def)
  obtain f2 where 2: "st2 = st1\<lparr>p_chip := p_chip st2, p_frames := p_frames st1 @ f2\<rparr>" "\<forall>f \<in> set f2. fst f \<in> E"
    using assms(2) by (auto simp: query_ext_def)
  have "st2 = st\<lparr>p_chip := p_chip st2, p_frames := p_frames st @ f1 @ f2\<rparr>"
    by (subst 2(1), subst 1(1), subst (2) 1(1)) simp
  then show ?thesis using assms 1(2) 2(2) unfolding query_ext_def by (intro conjI exI [of _ "f1 @ f2"]) auto
qed

lemma query_publish: "idle (p_chip st) \<Longrightarrow> ev \<in> E \<Longrightarrow> query_ext cells idle E st (publish ev seq p st)"
  unfolding query_ext_def publish_def by (intro conjI exI [of _ "[(ev, seq, p)]"]) simp_all

lemma query_chip: "idle c \<Longrightarrow> cells c = cells (p_chip st) \<Longrightarrow> query_ext cells idle E st (st\<lparr>p_chip := c\<rparr>)"
  unfolding query_ext_def by (intro conjI exI [of _ "[]"]) simp_all

end
