(* ===== verification/Persist_Steps.thy ===== *)
theory Persist_Steps
  imports Persist_Inv
begin

text \<open>
  Every request of the persist task keeps the invariant of \<open>Persist_Inv\<close>, over a device that completes
  its operations; the queries only read.
\<close>

context w25q_chip
begin

section \<open>Queries\<close>

lemma event_read_ok:
  "idle c \<Longrightarrow> event_log_read_nth X n c = (rc, r, c') \<Longrightarrow> idle c' \<and> cells c' = cells c"
  using log_read_ok [OF _ log_regions(1)] by (auto simp: event_log_read_nth_def split: prod.splits)

lemma session_read_ok:
  "idle c \<Longrightarrow> session_log_read_nth X n c = (rc, r, c') \<Longrightarrow> idle c' \<and> cells c' = cells c"
  using log_read_ok [OF _ log_regions(2)] by (auto simp: session_log_read_nth_def split: prod.splits)

lemma walk_query:
  "idle (p_chip st) \<Longrightarrow> fault_log_walk X mx seq slots em st = (em', st') \<Longrightarrow>
   query_ext cells idle {EVT_FAULT_LOG_ENTRY} st st'"
proof (induction slots arbitrary: em st)
  case Nil
  then show ?case by (simp add: query_refl)
next
  case (Cons slot slots)
  show ?case
  proof (cases "em < mx")
    case False
    then show ?thesis using Cons.prems by (simp add: query_refl)
  next
    case True
    obtain rc rec c' where r: "event_log_read_nth X slot (p_chip st) = (rc, rec, c')"
      by (cases "event_log_read_nth X slot (p_chip st)")
    note rd = event_read_ok [OF Cons.prems(1) r]
    let ?st1 = "st\<lparr>p_chip := c'\<rparr>"
    let ?st2 = "publish EVT_FAULT_LOG_ENTRY seq (event_bytes rec) ?st1"
    have q1: "query_ext cells idle {EVT_FAULT_LOG_ENTRY} st ?st1" using rd by (intro query_chip) simp_all
    have q2: "query_ext cells idle {EVT_FAULT_LOG_ENTRY} ?st1 ?st2" using rd by (intro query_publish) simp_all
    show ?thesis
    proof (cases "rc = 0")
      case True
      have "query_ext cells idle {EVT_FAULT_LOG_ENTRY} ?st2 st'"
        using Cons.IH [of ?st2 "em + 1"] Cons.prems(2) rd \<open>em < mx\<close> True by (simp add: r publish_def)
      then show ?thesis using query_trans [OF q1 query_trans [OF q2]] by simp
    next
      case False
      have "query_ext cells idle {EVT_FAULT_LOG_ENTRY} ?st1 st'"
        using Cons.IH [of ?st1 em] Cons.prems(2) rd \<open>em < mx\<close> False by (simp add: r)
      then show ?thesis using query_trans [OF q1] by simp
    qed
  qed
qed

lemma query_mono: "query_ext cells idle E st st' \<Longrightarrow> E \<subseteq> F \<Longrightarrow> query_ext cells idle F st st'"
  unfolding query_ext_def by blast

lemma query_idle: "query_ext cells idle E st st' \<Longrightarrow> idle (p_chip st')"
  by (simp add: query_ext_def)

abbreviation query_events :: "u8 set" where
  "query_events \<equiv> {EVT_FAULT_LOG_ENTRY, EVT_FAULT_LOG_END, EVT_LIFETIME_KWH, EVT_RFID_LIST_ENTRY, EVT_RFID_LIST_END}"

lemma fault_log_query: "idle (p_chip st) \<Longrightarrow> query_ext cells idle query_events st (handle_get_fault_log_persist X mx seq st)"
proof -
  assume i: "idle (p_chip st)"
  let ?mx = "if (if mx = 0 then 1 else mx) > 32 then 32 else (if mx = 0 then 1 else mx)"
  let ?slots = "log_slots_back (EVENT_LOG_SECTORS * LOG_RECORDS_PER_SECTOR) (s_head_slot (p_events st))"
  obtain em st1 where w: "fault_log_walk X (unat ?mx) seq ?slots 0 st = (em, st1)"
    by (cases "fault_log_walk X (unat ?mx) seq ?slots 0 st")
  have q: "query_ext cells idle query_events st st1" by (rule query_mono [OF walk_query [OF i w]]) simp
  have "handle_get_fault_log_persist X mx seq st = publish EVT_FAULT_LOG_END seq [of_nat em, ?mx] st1"
    unfolding handle_get_fault_log_persist_def Let_def w by simp
  then show ?thesis using query_trans [OF q query_publish [where idle = idle, OF query_idle [OF q]]] by simp
qed

lemma rfid_list_query: "idle (p_chip st) \<Longrightarrow> query_ext cells idle query_events st (handle_rfid_get_list_persist seq st)"
proof -
  assume i: "idle (p_chip st)"
  let ?f = "\<lambda>count i st. case rfid_authlist_get_nth (of_nat i) (p_auth st) of None \<Rightarrow> st
    | Some uid \<Rightarrow> publish EVT_RFID_LIST_ENTRY seq ([of_nat i, count] @ le32_bytes uid) st"
  have "query_ext cells idle query_events st (fold (?f count) is st)" for "is" count
    using i
  proof (induction "is" arbitrary: st)
    case (Cons i "is")
    have q: "query_ext cells idle query_events st (?f count i st)"
      using query_refl [where idle = idle, OF Cons.prems] query_publish [where idle = idle, OF Cons.prems] by (auto split: option.split)
    then show ?case using query_trans [OF q Cons.IH [OF query_idle [OF q]]] by simp
  qed (simp add: query_refl)
  note q = this [of "al_count (p_auth st)" "[0 ..< unat (al_count (p_auth st))]"]
  from query_trans [OF q query_publish [where idle = idle, OF query_idle [OF q]]] show ?thesis
    by (simp add: handle_rfid_get_list_persist_def Let_def)
qed

lemma lifetime_query: "idle (p_chip st) \<Longrightarrow> query_ext cells idle query_events st (handle_get_lifetime_kwh_persist X seq st)"
proof -
  assume i: "idle (p_chip st)"
  let ?f = "\<lambda>s (t, c). case session_log_read_nth X s c of (rc, rec, c1) \<Rightarrow>
      (if rc = 0 then t + unat (sr_mwh_delivered rec) else t, c1)"
  have fold: "idle c \<Longrightarrow> fold ?f ss (t, c) = (t', c') \<Longrightarrow> idle c' \<and> cells c' = cells c" for ss t c t' c'
  proof (induction ss arbitrary: t c)
    case (Cons s ss)
    obtain rc rec c1 where r: "session_log_read_nth X s c = (rc, rec, c1)" by (cases "session_log_read_nth X s c")
    note rd = session_read_ok [OF Cons.prems(1) r]
    show ?case using Cons.IH [OF conjunct1 [OF rd], of "if rc = 0 then t + unat (sr_mwh_delivered rec) else t"] Cons.prems(2) rd
      by (simp add: r)
  qed simp
  let ?ss = "[0 ..< SESSION_LOG_SECTORS * LOG_RECORDS_PER_SECTOR]"
  obtain t c' where f: "fold ?f ?ss (0 :: nat, p_chip st) = (t, c')" by (cases "fold ?f ?ss (0 :: nat, p_chip st)")
  have q: "query_ext cells idle query_events st (st\<lparr>p_chip := c'\<rparr>)"
    using fold [OF i f] by (intro query_chip) simp_all
  let ?m = "if t > 0xFFFFFFFF then 0xFFFFFFFF else t"
  have "handle_get_lifetime_kwh_persist X seq st = publish EVT_LIFETIME_KWH seq (le32_bytes (of_nat ?m)) (st\<lparr>p_chip := c'\<rparr>)"
    unfolding handle_get_lifetime_kwh_persist_def Let_def f prod.case ..
  then show ?thesis using query_trans [OF q query_publish [where idle = idle, OF query_idle [OF q]]] by simp
qed

lemma query_inv: "query_ext cells idle E st st' \<Longrightarrow> persist_inv cells idle st \<Longrightarrow> persist_inv cells idle st'"
proof -
  assume q: "query_ext cells idle E st st'" and inv: "persist_inv cells idle st"
  obtain frs where st': "st' = st\<lparr>p_chip := p_chip st', p_frames := p_frames st @ frs\<rparr>"
    using q by (auto simp: query_ext_def)
  have "p_cfg st' = p_cfg st" "p_cal st' = p_cal st" "p_crash st' = p_crash st" "p_auth st' = p_auth st"
    "p_events st' = p_events st" "p_sessions st' = p_sessions st" "p_ota st' = p_ota st"
    by (subst st', simp)+
  then show ?thesis using q inv by (simp add: persist_inv_def query_ext_def Let_def)
qed

end

end
