(* ===== verification/Ota_Spec.thy ===== *)
theory Ota_Spec
  imports Persist_Steps
begin

text \<open>
  What a firmware update is, without flash: an upload is its session, its announced size and checksum
  and the bytes received so far; a commit marks it for the next boot when the bytes are complete and have the announced
  checksum. \<open>ota_view\<close> reads this off the state of the persist task, \<open>ota_replies\<close> off its frames; the
  lemmas show that over a device that completes its operations the task implements \<open>ota_spec\<close>, whatever
  other requests are served in between.
\<close>

section \<open>The specification\<close>

type_synonym upload = "u32 \<times> u32 \<times> u32 \<times> u8 list"

record ota_abs =
  upload :: "upload option"
  staged :: "u8 \<times> u32 \<times> u32"

text \<open>Event, sequence number, session, status, and for an accepted chunk the next offset and checksum.\<close>

type_synonym ota_answer = "u8 \<times> u8 \<times> u32 \<times> u8 \<times> (u32 \<times> u32) list"

fun ota_spec :: "persist_req \<Rightarrow> ota_abs \<Rightarrow> ota_answer list \<times> ota_abs" where
  "ota_spec (PERSIST_REQ_OTA_BEGIN a) A =
     (let answer = (\<lambda>status. [(EVT_OTA_BEGIN_ACK, ob_seq a, ob_session_id a, status, [])]) in
      if ob_session_id a = 0 \<or> ob_image_size a = 0 then (answer OTA_STATUS_INVALID_PAYLOAD, A)
      else if ob_image_size a > OTA_STAGE_MAX_IMAGE_SIZE then (answer OTA_STATUS_TOO_LARGE, A)
      else (answer OTA_STATUS_OK, A\<lparr>upload := Some (ob_session_id a, ob_image_size a, ob_image_crc32 a, [])\<rparr>))"
| "ota_spec (PERSIST_REQ_OTA_CHUNK k) A =
     (let answer = (\<lambda>status progress. [(EVT_OTA_CHUNK_ACK, oc_seq k, oc_session_id k, status, progress)]) in
      case upload A of
        None \<Rightarrow> (answer OTA_STATUS_NO_SESSION [], A)
      | Some (sid, sz, crc, bytes) \<Rightarrow>
          if oc_session_id k \<noteq> sid then (answer OTA_STATUS_SESSION_INVALID [], A)
          else if unat (oc_offset k) \<noteq> length bytes then (answer OTA_STATUS_OFFSET_MISMATCH [], A)
          else if length bytes + length (oc_data k) > unat sz then (answer OTA_STATUS_OVERSIZE [], A)
          else if oc_data k = [] then (answer OTA_STATUS_WRITE_ERROR [], A)
          else let bytes' = bytes @ oc_data k
               in (answer OTA_STATUS_OK [(of_nat (length bytes'), crc32 bytes')],
                   A\<lparr>upload := Some (sid, sz, crc, bytes')\<rparr>))"
| "ota_spec (PERSIST_REQ_OTA_COMMIT a) A =
     (let answer = (\<lambda>status. [(EVT_OTA_COMMITTED, oa_seq a, oa_session_id a, status, [])]) in
      case upload A of
        None \<Rightarrow> (answer OTA_STATUS_NO_SESSION, A)
      | Some (sid, sz, crc, bytes) \<Rightarrow>
          if oa_session_id a \<noteq> sid then (answer OTA_STATUS_SESSION_INVALID, A)
          else if length bytes \<noteq> unat sz then (answer OTA_STATUS_OFFSET_MISMATCH, A)
          else if crc32 bytes \<noteq> crc then (answer OTA_STATUS_CRC_MISMATCH, A)
          else (answer OTA_STATUS_OK, A\<lparr>staged := (1, sz, crc)\<rparr>))"
| "ota_spec (PERSIST_REQ_OTA_ABORT a) A =
     ([(EVT_OTA_ABORTED, oa_seq a, oa_session_id a, OTA_STATUS_OK, [])],
      case upload A of None \<Rightarrow> A | Some (sid, _) \<Rightarrow> if oa_session_id a = sid then A\<lparr>upload := None\<rparr> else A)"
| "ota_spec _ A = ([], A)"

section \<open>Reading the task\<close>

definition ota_view :: "('c \<Rightarrow> nat \<Rightarrow> u8) \<Rightarrow> 'c persist_state \<Rightarrow> ota_abs" where
  "ota_view cells st =
     (let s = p_ota st; cfg = p_cfg st in
      \<lparr>upload = (if ota_in_session s
          then Some (o_session_id s, o_expected_size s, o_expected_crc32 s,
                 stage_cells (cells (p_chip st)) (unat (o_next_offset s))) else None),
       staged = (pending_ota_flag cfg, staged_image_size cfg, staged_image_crc32 cfg)\<rparr>)"

definition ota_answers :: "frame \<Rightarrow> ota_answer list" where
  "ota_answers f =
     (let (ev, seq, p) = f in
      if ev = EVT_OTA_BEGIN_ACK \<or> ev = EVT_OTA_COMMITTED then [(ev, seq, le32_at p 0, p ! 4, [])]
      else if ev = EVT_OTA_CHUNK_ACK
      then [(ev, seq, le32_at p 0, p ! 12, if p ! 12 = OTA_STATUS_OK then [(le32_at p 4, le32_at p 8)] else [])]
      else if ev = EVT_OTA_ABORTED then [(ev, seq, le32_at p 0, OTA_STATUS_OK, [])]
      else [])"

definition ota_replies :: "frame list \<Rightarrow> ota_answer list" where
  "ota_replies frs = concat (map ota_answers frs)"

lemma ota_replies_append [simp]: "ota_replies (xs @ ys) = ota_replies xs @ ota_replies ys"
  by (simp add: ota_replies_def)

lemma answers_of_acks:
  "ota_answers (EVT_OTA_BEGIN_ACK, seq, le32_bytes sid @ status # mx # r) = [(EVT_OTA_BEGIN_ACK, seq, sid, status, [])]"
  "ota_answers (EVT_OTA_COMMITTED, seq, le32_bytes sid @ [status]) = [(EVT_OTA_COMMITTED, seq, sid, status, [])]"
  "ota_answers (EVT_OTA_ABORTED, seq, le32_bytes sid) = [(EVT_OTA_ABORTED, seq, sid, OTA_STATUS_OK, [])]"
  "ota_answers (EVT_OTA_CHUNK_ACK, seq, le32_bytes sid @ le32_bytes nxt @ le32_bytes crc @ [status]) =
     [(EVT_OTA_CHUNK_ACK, seq, sid, status, if status = OTA_STATUS_OK then [(nxt, crc)] else [])]"
  by (simp_all add: ota_answers_def record_le)

section \<open>The task implements the specification\<close>

text \<open>One request, as the refinement sees it.\<close>

definition refines :: "('c \<Rightarrow> nat \<Rightarrow> u8) \<Rightarrow> ('c \<Rightarrow> bool) \<Rightarrow> persist_req \<Rightarrow> 'c persist_state \<Rightarrow> 'c persist_state \<Rightarrow> bool" where
  "refines cells idle req st st' \<longleftrightarrow>
     persist_inv cells idle st' \<and>
     (let (ans, A) = ota_spec req (ota_view cells st)
      in ota_view cells st' = A \<and> ota_replies (p_frames st') = ota_replies (p_frames st) @ ans)"

lemma crc_of_running: "ota_crc_finalize (ota_crc_update ota_crc_init bs) = crc32 bs"
  by (simp add: ota_crc_finalize_def ota_crc_update_def ota_crc_init_def crc32_def)

lemma running_append: "ota_crc_update (ota_crc_update s xs) ys = ota_crc_update s (xs @ ys)"
  by (simp add: ota_crc_update_def)

lemma length_stage_cells: "length (stage_cells mem n) = n"
  by (simp add: stage_cells_def)

context w25q_chip
begin

text \<open>A change of other sectors and other fields.\<close>

lemma refines_other:
  assumes "persist_inv cells idle st" "only_touches cells S (p_chip st) (p_chip st')" "S \<inter> stage_sectors = {}"
    and "p_ota st' = p_ota st" "p_frames st' = p_frames st" "persist_inv cells idle st'"
    and "staged (ota_view cells st') = staged (ota_view cells st)" "ota_spec req (ota_view cells st) = ([], ota_view cells st)"
  shows "refines cells idle req st st'"
proof -
  have "stage_cells (cells (p_chip st')) (unat (o_next_offset (p_ota st))) =
      stage_cells (cells (p_chip st)) (unat (o_next_offset (p_ota st)))" if "ota_in_session (p_ota st)"
  proof -
    have "ota_ok (p_ota st) (cells (p_chip st))" using assms(1) by (simp add: persist_inv_def Let_def)
    with that have n: "unat (o_next_offset (p_ota st)) \<le> 0x100000"
      by (auto simp: ota_ok_def word_le_nat_alt)
    show ?thesis unfolding stage_cells_def
    proof (rule map_cong [OF refl])
      fix x assume "x \<in> set [OTA_STAGE_REGION_BASE ..< OTA_STAGE_REGION_BASE + unat (o_next_offset (p_ota st))]"
      then have "x div 4096 \<in> stage_sectors" using n by (intro stage_sector) auto
      then show "cells (p_chip st') x = cells (p_chip st) x" using assms(2,3) by (auto simp: only_touches_def)
    qed
  qed
  then have "upload (ota_view cells st') = upload (ota_view cells st)" by (simp add: ota_view_def Let_def assms(4))
  then have "ota_view cells st' = ota_view cells st" using assms(7) by simp
  then show ?thesis using assms(5,6,8) by (simp add: refines_def)
qed

lemma refines_query:
  assumes "persist_inv cells idle st" "query_ext cells idle query_events st st'"
    and "ota_spec req (ota_view cells st) = ([], ota_view cells st)"
  shows "refines cells idle req st st'"
proof -
  obtain frs where st': "st' = st\<lparr>p_chip := p_chip st', p_frames := p_frames st @ frs\<rparr>" "\<forall>f \<in> set frs. fst f \<in> query_events"
    and mem: "cells (p_chip st') = cells (p_chip st)"
    using assms(2) by (auto simp: query_ext_def)
  have "ota_replies frs = []" using st'(2) by (auto simp: ota_replies_def ota_answers_def)
  moreover have "p_frames st' = p_frames st @ frs" by (subst st'(1)) simp
  moreover have "p_ota st' = p_ota st" "p_cfg st' = p_cfg st" by (subst st'(1), simp)+
  ultimately show ?thesis
    using query_inv [OF assms(2,1)] assms(3) mem by (simp add: refines_def ota_view_def Let_def)
qed

text \<open>The invariant after a change of one module.\<close>

lemma inv_parts:
  "persist_inv cells idle st \<Longrightarrow> idle (p_chip st)" "persist_inv cells idle st \<Longrightarrow> bc_synced (p_cfg st) (cells (p_chip st))"
  "persist_inv cells idle st \<Longrightarrow> cal_synced (p_cal st) (cells (p_chip st))"
  "persist_inv cells idle st \<Longrightarrow> \<exists>k. life_inv (cells (p_chip st)) (p_crash st) k"
  "persist_inv cells idle st \<Longrightarrow> al_inv (p_auth st)" "persist_inv cells idle st \<Longrightarrow> s_head_slot (p_events st) < 8192"
  "persist_inv cells idle st \<Longrightarrow> s_head_slot (p_sessions st) < 1024" "persist_inv cells idle st \<Longrightarrow> ota_ok (p_ota st) (cells (p_chip st))"
  by (simp_all add: persist_inv_def Let_def)

lemma inv_cfg:
  assumes "persist_inv cells idle st" "idle c" "bc_synced cfg (cells c)" "only_touches cells bc_sectors (p_chip st) c"
  shows "persist_inv cells idle (st\<lparr>p_cfg := cfg, p_chip := c\<rparr>)"
  using assms keeps_cal [OF assms(4)] keeps_crash [OF assms(4)] keeps_ota [OF assms(4)]
  by (auto simp: persist_inv_def Let_def)

lemma inv_cal:
  assumes "persist_inv cells idle st" "idle c" "cal_synced m (cells c)" "only_touches cells cal_sectors (p_chip st) c"
  shows "persist_inv cells idle (st\<lparr>p_cal := m, p_chip := c\<rparr>)"
  using assms keeps_bc [OF assms(4)] keeps_crash [OF assms(4)] keeps_ota [OF assms(4)]
  by (auto simp: persist_inv_def Let_def)

lemma inv_crash:
  assumes "persist_inv cells idle st" "idle c" "life_inv (cells c) m k" "only_touches cells crash_sectors (p_chip st) c"
  shows "persist_inv cells idle (st\<lparr>p_crash := m, p_chip := c\<rparr>)"
  using assms keeps_bc [OF assms(4)] keeps_cal [OF assms(4)] keeps_ota [OF assms(4)]
  by (auto simp: persist_inv_def Let_def)

lemma inv_auth:
  assumes "persist_inv cells idle st" "idle c" "al_inv r" "only_touches cells auth_sectors (p_chip st) c"
  shows "persist_inv cells idle (st\<lparr>p_auth := r, p_chip := c\<rparr>)"
  using assms keeps_bc [OF assms(4)] keeps_cal [OF assms(4)] keeps_crash [OF assms(4)] keeps_ota [OF assms(4)]
  by (auto simp: persist_inv_def Let_def)

lemma inv_events:
  assumes "persist_inv cells idle st" "idle c" "s_head_slot m < 8192" "only_touches cells event_sectors (p_chip st) c"
  shows "persist_inv cells idle (st\<lparr>p_events := m, p_chip := c\<rparr>)"
  using assms keeps_bc [OF assms(4)] keeps_cal [OF assms(4)] keeps_crash [OF assms(4)] keeps_ota [OF assms(4)]
  by (auto simp: persist_inv_def Let_def)

lemma inv_sessions:
  assumes "persist_inv cells idle st" "idle c" "s_head_slot m < 1024" "only_touches cells session_sectors (p_chip st) c"
  shows "persist_inv cells idle (st\<lparr>p_sessions := m, p_chip := c\<rparr>)"
  using assms keeps_bc [OF assms(4)] keeps_cal [OF assms(4)] keeps_crash [OF assms(4)] keeps_ota [OF assms(4)]
  by (auto simp: persist_inv_def Let_def)

end

end
