(* ===== verification/Ota_Refine.thy ===== *)
theory Ota_Refine
  imports Ota_Spec
begin

text \<open>
  The simulation of \<open>Ota_Spec\<close>, request by request, and its lift to any sequence of requests.
\<close>

context w25q_chip
begin

section \<open>Requests of the other modules\<close>

lemma staged_settings: "bc_settings cfg = bc_settings cfg' \<Longrightarrow>
  (pending_ota_flag cfg, staged_image_size cfg, staged_image_crc32 cfg) =
  (pending_ota_flag cfg', staged_image_size cfg', staged_image_crc32 cfg')"
  by (simp add: bc_settings_def)

lemma step_event:
  assumes "persist_inv cells idle st" "completes X idle" "length (ev_reserved r) = 10"
  shows "refines cells idle (PERSIST_REQ_EVENT r) st (persist_request X (PERSIST_REQ_EVENT r) st)"
proof -
  note p = inv_parts [OF assms(1)]
  obtain rc m c where st: "event_log_append X r (p_events st) (p_chip st) = (rc, m, c)"
    by (cases "event_log_append X r (p_events st) (p_chip st)")
  have ok: "idle c \<and> s_head_slot m < 8192 \<and> only_touches cells event_sectors (p_chip st) c"
  proof (cases "s_initialized (p_events st)")
    case False
    then show ?thesis using st p(1,6) touches_refl by (simp add: event_log_append_def)
  next
    case True
    let ?bs = "event_bytes (event_stamp (s_boot_count (p_events st)) r)"
    obtain rc h c' where w: "log_write X EVENT_LOG_BASE EVENT_LOG_SECTORS ?bs (s_head_slot (p_events st)) (p_chip st) = (rc, h, c')"
      by (cases "log_write X EVENT_LOG_BASE EVENT_LOG_SECTORS ?bs (s_head_slot (p_events st)) (p_chip st)")
    have hd: "s_head_slot (p_events st) < EVENT_LOG_SECTORS * 128" using p(6) by simp
    note ok = log_write_ok [OF p(1) log_regions(1) hd event_stamp_facts(1) [OF assms(3)] assms(2) w]
    have "m = (p_events st)\<lparr>s_head_slot := h\<rparr>" "c = c'" using st True w by (simp_all add: event_log_append_def)
    then show ?thesis using ok by simp
  qed
  have eq: "persist_request X (PERSIST_REQ_EVENT r) st = st\<lparr>p_events := m, p_chip := c\<rparr>"
    by (simp add: persist_request_def st)
  show ?thesis unfolding eq
    using inv_events [OF assms(1)] ok by (intro refines_other [OF assms(1), of event_sectors]) (auto simp: ota_view_def Let_def)
qed

lemma step_session:
  assumes "persist_inv cells idle st" "completes X idle" "length (sr_reserved r) = 10"
  shows "refines cells idle (PERSIST_REQ_SESSION r) st (persist_request X (PERSIST_REQ_SESSION r) st)"
proof -
  note p = inv_parts [OF assms(1)]
  obtain rc m c where st: "session_log_append X r (p_sessions st) (p_chip st) = (rc, m, c)"
    by (cases "session_log_append X r (p_sessions st) (p_chip st)")
  have ok: "idle c \<and> s_head_slot m < 1024 \<and> only_touches cells session_sectors (p_chip st) c"
  proof (cases "s_initialized (p_sessions st)")
    case False
    then show ?thesis using st p(1,7) touches_refl by (simp add: session_log_append_def)
  next
    case True
    let ?bs = "session_bytes (session_stamp (s_boot_count (p_sessions st)) r)"
    obtain rc h c' where w: "log_write X SESSION_LOG_BASE SESSION_LOG_SECTORS ?bs (s_head_slot (p_sessions st)) (p_chip st) = (rc, h, c')"
      by (cases "log_write X SESSION_LOG_BASE SESSION_LOG_SECTORS ?bs (s_head_slot (p_sessions st)) (p_chip st)")
    have hd: "s_head_slot (p_sessions st) < SESSION_LOG_SECTORS * 128" using p(7) by simp
    note ok = log_write_ok [OF p(1) log_regions(2) hd session_stamp_facts(1) [OF assms(3)] assms(2) w]
    have "m = (p_sessions st)\<lparr>s_head_slot := h\<rparr>" "c = c'" using st True w by (simp_all add: session_log_append_def)
    then show ?thesis using ok by simp
  qed
  have eq: "persist_request X (PERSIST_REQ_SESSION r) st = st\<lparr>p_sessions := m, p_chip := c\<rparr>"
    by (simp add: persist_request_def st)
  show ?thesis unfolding eq
    using inv_sessions [OF assms(1)] ok by (intro refines_other [OF assms(1), of session_sectors]) (auto simp: ota_view_def Let_def)
qed

lemma step_crash:
  assumes "persist_inv cells idle st" "completes X idle"
  shows "refines cells idle PERSIST_REQ_CRASH_STATE_RESET st (persist_request X PERSIST_REQ_CRASH_STATE_RESET st)"
proof -
  note p = inv_parts [OF assms(1)]
  obtain k where k: "life_inv (cells (p_chip st)) (p_crash st) k" using p(4) by blast
  obtain rc m c where st: "crash_state_reset_alive X (p_crash st) (p_chip st) = (rc, m, c)"
    by (cases "crash_state_reset_alive X (p_crash st) (p_chip st)")
  note ok = crash_alive_ok [OF p(1) k assms(2) st]
  have eq: "persist_request X PERSIST_REQ_CRASH_STATE_RESET st = st\<lparr>p_crash := m, p_chip := c\<rparr>"
    by (simp add: persist_request_def st)
  show ?thesis unfolding eq
    using inv_crash [OF assms(1)] ok by (intro refines_other [OF assms(1), of crash_sectors]) (auto simp: ota_view_def Let_def)
qed

lemma step_cal:
  assumes "persist_inv cells idle st" "completes X idle" "req = PERSIST_REQ_CALIBRATION a \<or> req = PERSIST_REQ_BL0939_CAL b"
  shows "refines cells idle req st (persist_request X req st)"
proof -
  note p = inv_parts [OF assms(1)]
  have "\<exists>rc m c. (calibration_set_cp X a (p_cal st) (p_chip st) = (rc, m, c) \<or>
      calibration_set_bl0939 X b (p_cal st) (p_chip st) = (rc, m, c)) \<and> persist_request X req st = st\<lparr>p_cal := m, p_chip := c\<rparr>"
    using assms(3) by (auto simp: persist_request_def split: prod.splits; blast)
  then obtain rc m c where st: "calibration_set_cp X a (p_cal st) (p_chip st) = (rc, m, c) \<or>
      calibration_set_bl0939 X b (p_cal st) (p_chip st) = (rc, m, c)" and
    eq: "persist_request X req st = st\<lparr>p_cal := m, p_chip := c\<rparr>" by blast
  note ok = cal_changes_ok [OF p(1,3) assms(2) st]
  show ?thesis unfolding eq
    using inv_cal [OF assms(1)] ok assms(3)
    by (intro refines_other [OF assms(1), of cal_sectors]) (auto simp: ota_view_def Let_def)
qed

lemma step_auth:
  assumes "persist_inv cells idle st" "completes X idle"
    and "req = PERSIST_REQ_RFID_AUTHLIST_ADD uid \<or> req = PERSIST_REQ_RFID_AUTHLIST_REMOVE uid \<or> req = PERSIST_REQ_RFID_AUTHLIST_CLEAR"
  shows "refines cells idle req st (persist_request X req st)"
proof -
  note p = inv_parts [OF assms(1)]
  have "\<exists>rc r c. (rfid_authlist_add X uid (p_auth st) (p_chip st) = (rc, r, c) \<or>
      rfid_authlist_remove X uid (p_auth st) (p_chip st) = (rc, r, c) \<or> rfid_authlist_clear X (p_auth st) (p_chip st) = (rc, r, c)) \<and>
      persist_request X req st = st\<lparr>p_auth := r, p_chip := c\<rparr>"
    using assms(3) by (auto simp: persist_request_def split: prod.splits; blast)
  then obtain rc r c where st: "rfid_authlist_add X uid (p_auth st) (p_chip st) = (rc, r, c) \<or>
      rfid_authlist_remove X uid (p_auth st) (p_chip st) = (rc, r, c) \<or> rfid_authlist_clear X (p_auth st) (p_chip st) = (rc, r, c)"
    and eq: "persist_request X req st = st\<lparr>p_auth := r, p_chip := c\<rparr>" by blast
  note ok = al_changes_ok [OF p(1,5) assms(2) st]
  show ?thesis unfolding eq
    using inv_auth [OF assms(1)] ok assms(3)
    by (intro refines_other [OF assms(1), of auth_sectors]) (auto simp: ota_view_def Let_def)
qed

text \<open>Settings of the configuration other than the pending mark.\<close>

lemma refines_cfg:
  assumes "persist_inv cells idle st" "idle c" "bc_synced cfg (cells c)" "only_touches cells bc_sectors (p_chip st) c"
    and "bc_settings cfg = bc_settings target" "pending_ota_flag target = pending_ota_flag (p_cfg st)"
    "staged_image_size target = staged_image_size (p_cfg st)" "staged_image_crc32 target = staged_image_crc32 (p_cfg st)"
    and "ota_spec req (ota_view cells st) = ([], ota_view cells st)"
  shows "refines cells idle req st (st\<lparr>p_cfg := cfg, p_chip := c, p_asks := asks\<rparr>)"
proof -
  have inv: "persist_inv cells idle (st\<lparr>p_cfg := cfg, p_chip := c, p_asks := asks\<rparr>)"
    using inv_cfg [OF assms(1-4)] by (simp add: persist_inv_def)
  show ?thesis
    using staged_settings [OF assms(5)] assms(4,6-9) inv
    by (intro refines_other [OF assms(1), of bc_sectors]) (auto simp: ota_view_def Let_def)
qed

lemma step_config:
  assumes "persist_inv cells idle st" "completes X idle"
    and "req = PERSIST_REQ_BOOT_CONFIG_AMPS v \<or> req = PERSIST_REQ_REQUIRE_RFID_AUTH v \<or> req = PERSIST_REQ_GFCI_POLICY v"
  shows "refines cells idle req st (persist_request X req st)"
  using assms(3)
proof (elim disjE)
  note p = inv_parts [OF assms(1)]
  note ok = bc_setters_ok [OF p(1,2) assms(2)]
  assume req: "req = PERSIST_REQ_BOOT_CONFIG_AMPS v"
  obtain rc m c where st: "boot_config_set_advertised_amps X v (p_cfg st) (p_chip st) = (rc, m, c)"
    by (cases "boot_config_set_advertised_amps X v (p_cfg st) (p_chip st)")
  have eq: "persist_request X req st = st\<lparr>p_cfg := m, p_chip := c, p_asks := p_asks st\<rparr>"
    by (simp add: persist_request_def req st)
  show ?thesis unfolding eq using ok(1) [OF st]
    by (intro refines_cfg [OF assms(1), where target = "(p_cfg st)\<lparr>fc41d_advertised_amps := v\<rparr>"]) (auto simp: req)
next
  note p = inv_parts [OF assms(1)]
  note ok = bc_setters_ok [OF p(1,2) assms(2)]
  assume req: "req = PERSIST_REQ_REQUIRE_RFID_AUTH v"
  obtain rc m c where st: "boot_config_set_require_rfid_auth X v (p_cfg st) (p_chip st) = (rc, m, c)"
    by (cases "boot_config_set_require_rfid_auth X v (p_cfg st) (p_chip st)")
  have eq: "persist_request X req st =
      st\<lparr>p_cfg := m, p_chip := c, p_asks := p_asks st @ (if rc < 0 then [] else [ASK_RFID_CONFIG])\<rparr>"
    by (simp add: persist_request_def req st Let_def)
  show ?thesis unfolding eq using ok(2) [OF st]
    by (intro refines_cfg [OF assms(1), where target = "(p_cfg st)\<lparr>require_rfid_auth := if v \<noteq> 0 then 1 else 0\<rparr>"]) (auto simp: req)
next
  note p = inv_parts [OF assms(1)]
  note ok = bc_setters_ok [OF p(1,2) assms(2)]
  assume req: "req = PERSIST_REQ_GFCI_POLICY v"
  obtain rc m c where st: "boot_config_set_gfci_fault_policy X v (p_cfg st) (p_chip st) = (rc, m, c)"
    by (cases "boot_config_set_gfci_fault_policy X v (p_cfg st) (p_chip st)")
  have eq: "persist_request X req st = st\<lparr>p_cfg := m, p_chip := c, p_asks := p_asks st @ [ASK_GFCI_POLICY]\<rparr>"
    by (simp add: persist_request_def req st)
  show ?thesis unfolding eq using ok(3) [OF st]
    by (intro refines_cfg [OF assms(1), where target = "if v > 1 then p_cfg st else (p_cfg st)\<lparr>gfci_fault_policy := v\<rparr>"]) (auto simp: req)
qed

section \<open>Update requests\<close>

lemma view_publish: "ota_view cells (publish ev seq p st) = ota_view cells st" "p_frames (publish ev seq p st) = p_frames st @ [(ev, seq, p)]"
  "persist_inv cells idle (publish ev seq p st) = persist_inv cells idle st"
  by (simp_all add: publish_def ota_view_def persist_inv_def Let_def)

text \<open>A reply that changes nothing else.\<close>

lemma refines_reply:
  assumes "persist_inv cells idle st'" "ota_view cells st' = snd (ota_spec req (ota_view cells st))" "p_frames st' = p_frames st"
    and "ota_answers (ev, seq, p) = fst (ota_spec req (ota_view cells st))"
  shows "refines cells idle req st (publish ev seq p st')"
  using assms by (simp add: refines_def view_publish case_prod_unfold Let_def ota_replies_def)

lemma inv_ota:
  assumes "persist_inv cells idle st" "idle c" "only_touches cells stage_sectors (p_chip st) c" "ota_ok s (cells c)"
  shows "persist_inv cells idle (st\<lparr>p_chip := c, p_ota := s\<rparr>)"
  using assms keeps_bc [OF assms(3)] keeps_cal [OF assms(3)] keeps_crash [OF assms(3)]
  by (auto simp: persist_inv_def Let_def)

lemma touches_stage:
  "(\<And>x. x < OTA_STAGE_REGION_BASE \<or> OTA_STAGE_REGION_BASE + OTA_STAGE_REGION_SIZE \<le> x \<Longrightarrow> cells c' x = cells c x) \<Longrightarrow>
   only_touches cells stage_sectors c c'"
  unfolding only_touches_def using stage_sector by (meson not_less)

lemma step_begin:
  assumes "persist_inv cells idle st" "completes X idle"
  shows "refines cells idle (PERSIST_REQ_OTA_BEGIN a) st (persist_request X (PERSIST_REQ_OTA_BEGIN a) st)"
proof -
  let ?pl = "\<lambda>status :: u8. le32_bytes (ob_session_id a) @ [status, of_nat OTA_CHUNK_MAX_DATA] @ le16_bytes 0"
  have eq: "persist_request X (PERSIST_REQ_OTA_BEGIN a) st = handle_ota_begin_persist X a st" by (simp add: persist_request_def)
  note p = inv_parts [OF assms(1)]
  consider (bad) "ob_session_id a = 0 \<or> ob_image_size a = 0"
    | (big) "ob_session_id a \<noteq> 0" "ob_image_size a \<noteq> 0" "ob_image_size a > OTA_STAGE_MAX_IMAGE_SIZE"
    | (ok) "ob_session_id a \<noteq> 0" "ob_image_size a \<noteq> 0" "\<not> ob_image_size a > OTA_STAGE_MAX_IMAGE_SIZE" by blast
  then show ?thesis
  proof cases
    case bad
    then have "handle_ota_begin_persist X a st = publish EVT_OTA_BEGIN_ACK (ob_seq a) (?pl OTA_STATUS_INVALID_PAYLOAD) st"
      by (simp add: handle_ota_begin_persist_def)
    with bad assms(1) show ?thesis unfolding eq by (auto intro!: refines_reply simp: answers_of_acks)
  next
    case big
    then have "handle_ota_begin_persist X a st = publish EVT_OTA_BEGIN_ACK (ob_seq a) (?pl OTA_STATUS_TOO_LARGE) st"
      by (simp add: handle_ota_begin_persist_def)
    with big assms(1) show ?thesis unfolding eq by (auto intro!: refines_reply simp: answers_of_acks)
  next
    case ok
    obtain rc c where b: "ota_stage_begin X (ob_image_size a) (p_chip st) = (rc, c)"
      by (cases "ota_stage_begin X (ob_image_size a) (p_chip st)")
    have le: "0 < ob_image_size a" "ob_image_size a \<le> OTA_STAGE_MAX_IMAGE_SIZE" using ok by (auto simp: word_gt_0)
    have rc: "rc = 0" using ota_begin_completes [OF assms(2) p(1) le] by (simp add: b)
    note bs = ota_begin_spec [OF p(1) b]
    let ?s = "ota_session_reset\<lparr>o_session_id := ob_session_id a, o_expected_size := ob_image_size a,
      o_expected_crc32 := ob_image_crc32 a\<rparr>"
    let ?st = "st\<lparr>p_chip := c, p_ota := ?s\<rparr>"
    have h: "handle_ota_begin_persist X a st = publish EVT_OTA_BEGIN_ACK (ob_seq a) (?pl OTA_STATUS_OK) ?st"
      using ok by (simp add: handle_ota_begin_persist_def b rc)
    have "ota_ok ?s (cells c)"
      using bs(3) [OF rc] by (simp add: ota_ok_def ota_session_reset_def stage_cells_def ota_crc_update_def)
    then have "persist_inv cells idle ?st"
      using inv_ota [OF assms(1)] bs(2,3) rc touches_stage by simp
    then show ?thesis unfolding eq h using ok le
      by (intro refines_reply) (auto simp: answers_of_acks ota_view_def Let_def ota_in_session_def ota_session_reset_def stage_cells_def)
  qed
qed

lemma step_abort:
  assumes "persist_inv cells idle st"
  shows "refines cells idle (PERSIST_REQ_OTA_ABORT a) st (persist_request X (PERSIST_REQ_OTA_ABORT a) st)"
proof -
  let ?c = "ota_in_session (p_ota st) \<and> oa_session_id a = o_session_id (p_ota st)"
  let ?st = "if ?c then st\<lparr>p_ota := ota_session_reset\<rparr> else st"
  have eq: "persist_request X (PERSIST_REQ_OTA_ABORT a) st =
      publish EVT_OTA_ABORTED (oa_seq a) (le32_bytes (oa_session_id a)) ?st"
    by (simp add: persist_request_def handle_ota_abort_persist_def)
  have "persist_inv cells idle ?st"
    using assms by (auto simp: persist_inv_def Let_def ota_ok_def ota_in_session_def ota_session_reset_def)
  then show ?thesis unfolding eq
    by (intro refines_reply) (auto simp: answers_of_acks ota_view_def Let_def ota_in_session_def ota_session_reset_def)
qed

lemma step_chunk:
  assumes "persist_inv cells idle st" "completes X idle"
  shows "refines cells idle (PERSIST_REQ_OTA_CHUNK k) st (persist_request X (PERSIST_REQ_OTA_CHUNK k) st)"
proof -
  let ?s = "p_ota st"
  let ?pl = "\<lambda>nxt crc (status :: u8). le32_bytes (oc_session_id k) @ le32_bytes nxt @ le32_bytes crc @ [status]"
  let ?same = "?pl (o_next_offset ?s) (ota_crc_finalize (o_running_crc ?s))"
  have eq: "persist_request X (PERSIST_REQ_OTA_CHUNK k) st = handle_ota_chunk_persist X k st" by (simp add: persist_request_def)
  note p = inv_parts [OF assms(1)]
  have up: "upload (ota_view cells st) = (if ota_in_session ?s then Some (o_session_id ?s, o_expected_size ?s, o_expected_crc32 ?s,
      stage_cells (cells (p_chip st)) (unat (o_next_offset ?s))) else None)"
    by (simp add: ota_view_def Let_def)
  have word: "oc_offset k = o_next_offset ?s \<longleftrightarrow> unat (oc_offset k) = unat (o_next_offset ?s)" by (simp add: word_unat_eq_iff)
  show ?thesis
  proof (cases "ota_in_session ?s \<and> oc_session_id k = o_session_id ?s \<and> oc_offset k = o_next_offset ?s \<and>
      unat (oc_offset k) + length (oc_data k) \<le> unat (o_expected_size ?s) \<and> oc_data k \<noteq> []")
    case False
    show ?thesis
    proof (cases "ota_in_session ?s \<and> oc_session_id k = o_session_id ?s \<and> oc_offset k = o_next_offset ?s \<and>
        unat (oc_offset k) + length (oc_data k) \<le> unat (o_expected_size ?s)")
      case True
      then have d: "oc_data k = []" using False by blast
      then have "handle_ota_chunk_persist X k st = publish EVT_OTA_CHUNK_ACK (oc_seq k) (?same OTA_STATUS_WRITE_ERROR) st"
        using True by (auto simp: handle_ota_chunk_persist_def Let_def ota_stage_write_def)
      then show ?thesis unfolding eq using True d assms(1)
        by (auto intro!: refines_reply simp: answers_of_acks up length_stage_cells)
    next
      case bad: False
      then have "\<exists>status. status \<noteq> OTA_STATUS_OK \<and>
          handle_ota_chunk_persist X k st = publish EVT_OTA_CHUNK_ACK (oc_seq k) (?same status) st \<and>
          ota_spec (PERSIST_REQ_OTA_CHUNK k) (ota_view cells st) = ([(EVT_OTA_CHUNK_ACK, oc_seq k, oc_session_id k, status, [])], ota_view cells st)"
        unfolding word by (auto simp: handle_ota_chunk_persist_def Let_def up length_stage_cells word not_le)
      then show ?thesis unfolding eq using assms(1) by (auto intro!: refines_reply simp: answers_of_acks)
    qed
  next
    case True
    note t = conjunct1 [OF True] conjunct1 [OF conjunct2 [OF True]] conjunct1 [OF conjunct2 [OF conjunct2 [OF True]]]
    have t4: "unat (o_next_offset ?s) + length (oc_data k) \<le> unat (o_expected_size ?s)" "oc_data k \<noteq> []" using True by auto
    let ?n = "unat (o_next_offset ?s)" and ?d = "oc_data k" and ?c = "p_chip st"
    let ?n1 = "o_next_offset ?s + of_nat (length ?d)"
    have o: "o_expected_size ?s \<le> OTA_STAGE_MAX_IMAGE_SIZE" "o_running_crc ?s = ota_crc_update ota_crc_init (stage_cells (cells ?c) ?n)"
      "blank_at (cells ?c) (OTA_STAGE_REGION_BASE + ?n) (unat (o_expected_size ?s) - ?n)"
      using p(8) t(1) by (simp_all add: ota_ok_def)
    have mx: "unat (o_expected_size ?s) \<le> 0x100000" using o(1) by (simp add: word_le_nat_alt)
    have n1: "unat ?n1 = ?n + length ?d" using t4(1) mx by (simp add: unat_word_ariths unat_of_nat)
    obtain rc c where w: "stage_program X (OTA_STAGE_REGION_BASE + ?n) ?d ?c = (rc, c)"
      by (cases "stage_program X (OTA_STAGE_REGION_BASE + ?n) ?d ?c")
    have fe: "OTA_STAGE_REGION_BASE + ?n + length ?d \<le> FLASH_END" using t4(1) mx by simp
    have rc: "rc = 0" using stage_program_completes [OF assms(2) p(1) fe] by (simp add: w)
    have bl: "blank_at (cells ?c) (OTA_STAGE_REGION_BASE + ?n) (length ?d)" using o(3) t4(1) by (simp add: blank_at_def)
    note ws = stage_program_spec [OF p(1) fe bl w]
    let ?s1 = "?s\<lparr>o_running_crc := ota_crc_update (o_running_crc ?s) ?d, o_next_offset := ?n1\<rparr>"
    let ?st = "st\<lparr>p_chip := c, p_ota := ?s1\<rparr>"
    have "\<not> OTA_STAGE_REGION_SIZE < ?n + length ?d" using t4(1) mx by simp
    then have wr: "ota_stage_write X (oc_offset k) ?d ?c = (0, c)" using t4(2) t(3) w rc by (simp add: ota_stage_write_def)
    have h: "handle_ota_chunk_persist X k st = publish EVT_OTA_CHUNK_ACK (oc_seq k) (?pl ?n1 (ota_crc_finalize (o_running_crc ?s1)) OTA_STATUS_OK) ?st"
      using t t4 wr by (simp add: handle_ota_chunk_persist_def Let_def)
    have cells1: "stage_cells (cells c) (?n + length ?d) = stage_cells (cells ?c) ?n @ ?d"
    proof -
      have "map (cells c) [OTA_STAGE_REGION_BASE ..< OTA_STAGE_REGION_BASE + ?n] =
          map (cells ?c) [OTA_STAGE_REGION_BASE ..< OTA_STAGE_REGION_BASE + ?n]" using ws(2) by simp
      moreover have "[OTA_STAGE_REGION_BASE ..< OTA_STAGE_REGION_BASE + ?n + length ?d] =
          [OTA_STAGE_REGION_BASE ..< OTA_STAGE_REGION_BASE + ?n] @ [OTA_STAGE_REGION_BASE + ?n ..< OTA_STAGE_REGION_BASE + ?n + length ?d]"
        by (rule upt_add_eq_append) simp
      ultimately show ?thesis using ws(3) [OF rc] by (simp add: stage_cells_def add.assoc)
    qed
    have rest: "blank_at (cells c) (OTA_STAGE_REGION_BASE + unat ?n1) (unat (o_expected_size ?s) - unat ?n1)"
      using o(3) ws(2) by (simp add: blank_at_def n1 add.assoc)
    have le1: "?n1 \<le> o_expected_size ?s" using t4(1) n1 by (simp add: word_le_nat_alt)
    have "ota_ok ?s1 (cells c)" using o cells1 rest le1 by (simp add: ota_ok_def running_append n1)
    moreover have "only_touches cells stage_sectors ?c c" 
    proof (rule touches_stage)
      fix x assume "x < OTA_STAGE_REGION_BASE \<or> OTA_STAGE_REGION_BASE + OTA_STAGE_REGION_SIZE \<le> x"
      then have "x < OTA_STAGE_REGION_BASE + ?n \<or> OTA_STAGE_REGION_BASE + ?n + length ?d \<le> x" using t4(1) mx by auto
      then show "cells c x = cells ?c x" by (rule ws(2))
    qed
    ultimately have "persist_inv cells idle ?st" using inv_ota [OF assms(1)] ws(3) [OF rc] by simp
    moreover have "ota_view cells ?st = snd (ota_spec (PERSIST_REQ_OTA_CHUNK k) (ota_view cells st))"
      using t t4 by (simp add: up length_stage_cells Let_def) (simp add: ota_view_def Let_def ota_in_session_def n1 cells1)
    moreover have "ota_answers (EVT_OTA_CHUNK_ACK, oc_seq k, ?pl ?n1 (ota_crc_finalize (o_running_crc ?s1)) OTA_STATUS_OK) =
        fst (ota_spec (PERSIST_REQ_OTA_CHUNK k) (ota_view cells st))"
      using t t4 o(2) by (simp only: answers_of_acks) (simp add: up length_stage_cells Let_def running_append crc_of_running)
    ultimately show ?thesis unfolding eq h by (intro refines_reply) simp_all
  qed
qed

lemma step_commit:
  assumes "persist_inv cells idle st" "completes X idle"
  shows "refines cells idle (PERSIST_REQ_OTA_COMMIT a) st (persist_request X (PERSIST_REQ_OTA_COMMIT a) st)"
proof -
  let ?s = "p_ota st" and ?c = "p_chip st"
  let ?pl = "\<lambda>status :: u8. le32_bytes (oa_session_id a) @ [status]"
  have eq: "persist_request X (PERSIST_REQ_OTA_COMMIT a) st = handle_ota_commit_persist X a st" by (simp add: persist_request_def)
  note p = inv_parts [OF assms(1)]
  have up: "upload (ota_view cells st) = (if ota_in_session ?s then Some (o_session_id ?s, o_expected_size ?s, o_expected_crc32 ?s,
      stage_cells (cells ?c) (unat (o_next_offset ?s))) else None)"
    by (simp add: ota_view_def Let_def)
  have word: "o_next_offset ?s = o_expected_size ?s \<longleftrightarrow> unat (o_next_offset ?s) = unat (o_expected_size ?s)" by (simp add: word_unat_eq_iff)
  show ?thesis
  proof (cases "ota_in_session ?s \<and> oa_session_id a = o_session_id ?s \<and> o_next_offset ?s = o_expected_size ?s")
    case False
    then have "\<exists>status. handle_ota_commit_persist X a st = publish EVT_OTA_COMMITTED (oa_seq a) (?pl status) st \<and>
        ota_spec (PERSIST_REQ_OTA_COMMIT a) (ota_view cells st) = ([(EVT_OTA_COMMITTED, oa_seq a, oa_session_id a, status, [])], ota_view cells st)"
      unfolding word by (auto simp: handle_ota_commit_persist_def Let_def up length_stage_cells word)
    then show ?thesis unfolding eq using assms(1) by (auto intro!: refines_reply simp: answers_of_acks)
  next
    case True
    then have o: "o_expected_size ?s \<le> OTA_STAGE_MAX_IMAGE_SIZE" using p(8) by (simp add: ota_ok_def)
    obtain crc c1 where r: "ota_stage_compute_crc X (o_expected_size ?s) ?c = (crc, c1)"
      by (cases "ota_stage_compute_crc X (o_expected_size ?s) ?c")
    have cr: "crc = crc32 (stage_cells (cells ?c) (unat (o_expected_size ?s)))" "idle c1" "cells c1 = cells ?c"
      using ota_crc_of_stage [OF p(1) o] by (simp_all add: r)
    have inv1: "persist_inv cells idle (st\<lparr>p_chip := c1\<rparr>)" using assms(1) cr(2,3) by (simp add: persist_inv_def Let_def)
    show ?thesis
    proof (cases "crc = o_expected_crc32 ?s")
      case False
      then have "handle_ota_commit_persist X a st = publish EVT_OTA_COMMITTED (oa_seq a) (?pl OTA_STATUS_CRC_MISMATCH) (st\<lparr>p_chip := c1\<rparr>)"
        using True by (simp add: handle_ota_commit_persist_def Let_def r)
      then show ?thesis unfolding eq using True False inv1 cr
        by (auto intro!: refines_reply simp: answers_of_acks up length_stage_cells) (simp_all add: ota_view_def Let_def)
    next
      case ok: True
      have sy: "bc_synced (p_cfg st) (cells c1)" using p(2) by (simp add: cr(3))
      obtain rc cfg c2 where m: "boot_config_set_pending_ota X 1 (o_expected_size ?s) (o_expected_crc32 ?s) (p_cfg st) c1 = (rc, cfg, c2)"
        by (cases "boot_config_set_pending_ota X 1 (o_expected_size ?s) (o_expected_crc32 ?s) (p_cfg st) c1")
      note mk = bc_setters_ok(4) [OF cr(2) sy assms(2) m]
      let ?st = "st\<lparr>p_cfg := cfg, p_chip := c2\<rparr>"
      have h: "handle_ota_commit_persist X a st = publish EVT_OTA_COMMITTED (oa_seq a) (?pl OTA_STATUS_OK) ?st"
        using True ok mk m by (simp add: handle_ota_commit_persist_def Let_def r ota_stage_mark_pending_def)
      have tc: "only_touches cells bc_sectors ?c c2" using mk cr(3) by (simp add: only_touches_def)
      then have inv: "persist_inv cells idle ?st"
        using inv_cfg [OF assms(1), of c2 cfg] mk by simp
      have "stage_cells (cells c2) (unat (o_next_offset ?s)) = stage_cells (cells ?c) (unat (o_next_offset ?s))"
      proof -
        have "unat (o_next_offset ?s) \<le> 0x100000" using o True by (simp add: word_le_nat_alt)
        then have "cells c2 x = cells ?c x" if "x \<in> set [OTA_STAGE_REGION_BASE ..< OTA_STAGE_REGION_BASE + unat (o_next_offset ?s)]" for x
          using that tc stage_sector [of x] by (auto simp: only_touches_def)
        then show ?thesis by (simp add: stage_cells_def)
      qed
      then have "ota_view cells ?st = snd (ota_spec (PERSIST_REQ_OTA_COMMIT a) (ota_view cells st))"
        using True ok cr(1) staged_settings [of cfg] mk
        by (simp add: up length_stage_cells) (simp add: ota_view_def Let_def bc_settings_def)
      moreover have "ota_answers (EVT_OTA_COMMITTED, oa_seq a, ?pl OTA_STATUS_OK) = fst (ota_spec (PERSIST_REQ_OTA_COMMIT a) (ota_view cells st))"
        using True ok cr(1) by (simp add: answers_of_acks up length_stage_cells)
      ultimately show ?thesis unfolding eq h using inv by (intro refines_reply) simp_all
    qed
  qed
qed

section \<open>All requests\<close>

lemma step_query:
  assumes "persist_inv cells idle st"
  shows "refines cells idle (PERSIST_REQ_GET_FAULT_LOG mx seq) st (persist_request X (PERSIST_REQ_GET_FAULT_LOG mx seq) st)"
    "refines cells idle (PERSIST_REQ_GET_LIFETIME_KWH seq) st (persist_request X (PERSIST_REQ_GET_LIFETIME_KWH seq) st)"
    "refines cells idle (PERSIST_REQ_RFID_AUTHLIST_GET_LIST seq) st (persist_request X (PERSIST_REQ_RFID_AUTHLIST_GET_LIST seq) st)"
  using refines_query [OF assms] fault_log_query [OF inv_parts(1) [OF assms]] lifetime_query [OF inv_parts(1) [OF assms]]
    rfid_list_query [OF inv_parts(1) [OF assms]]
  by (simp_all add: persist_request_def)

lemma request_refines:
  assumes "persist_inv cells idle st" "completes X idle" "request_wf req"
  shows "refines cells idle req st (persist_request X req st)"
  using assms step_event [OF assms(1,2)] step_session [OF assms(1,2)] step_crash [OF assms(1,2)]
    step_cal [OF assms(1,2)] step_auth [OF assms(1,2)] step_config [OF assms(1,2)] step_begin [OF assms(1,2)]
    step_chunk [OF assms(1,2)] step_commit [OF assms(1,2)] step_abort [OF assms(1)] step_query [OF assms(1)]
  by (cases req) auto

end

section \<open>Runs\<close>

fun ota_specs :: "persist_req list \<Rightarrow> ota_abs \<Rightarrow> ota_answer list \<times> ota_abs" where
  "ota_specs [] A = ([], A)"
| "ota_specs (req # reqs) A =
     (let (ans, A1) = ota_spec req A; (rest, A2) = ota_specs reqs A1 in (ans @ rest, A2))"

context w25q_chip
begin

lemma run_refines:
  assumes "completes X idle"
  shows "persist_inv cells idle st \<Longrightarrow> \<forall>req \<in> set reqs. request_wf req \<Longrightarrow>
    persist_inv cells idle (persist_run X reqs st) \<and>
    ota_view cells (persist_run X reqs st) = snd (ota_specs reqs (ota_view cells st)) \<and>
    ota_replies (p_frames (persist_run X reqs st)) = ota_replies (p_frames st) @ fst (ota_specs reqs (ota_view cells st))"
proof (induction reqs arbitrary: st)
  case (Cons req reqs)
  have "refines cells idle req st (persist_request X req st)"
    using request_refines [OF Cons.prems(1) assms] Cons.prems(2) by simp
  then show ?case using Cons.IH [of "persist_request X req st"] Cons.prems(2)
    by (simp add: persist_run_def refines_def case_prod_unfold Let_def)
qed (simp add: persist_run_def)

end

end
