(* ===== verification/Flash_Apply.thy ===== *)
theory Flash_Apply
  imports Ota_Stage
begin

text \<open>
  The boot-time application of a staged firmware image, \<^verbatim>\<open>src/src/hal/gd32f205/flash.c\<close>: the checks of
  the pending mark, the copy of the image to RAM, the erase and word-by-word programming of bank 0, and
  the reset. The flash controller is the parameter \<open>F\<close> (status read, unlock, page erase, word store,
  word read); \<open>fmc_ok\<close> says that an operation changes nothing but its page or word. A call either
  returns a code, or ends in a reset, or halts. The lemmas show that a call that returns has left the
  running image alone, and that a reset is reached only with the whole staged image in place.
\<close>

abbreviation (input) "FLASH_BANK0_BASE \<equiv> (0x08000000 :: nat)"
abbreviation (input) "FLASH_BANK0_SIZE \<equiv> (0x00080000 :: nat)"
abbreviation (input) "FLASH_PAGE_SIZE \<equiv> (0x800 :: nat)"
abbreviation (input) "FLASH_OTA_APPLY_MAX_SIZE \<equiv> (0x10000 :: u32)"

record 'm fmc =
  fmc_stat :: "'m \<Rightarrow> (bool \<times> bool) \<times> 'm"
  fmc_unlock :: "'m \<Rightarrow> bool \<times> 'm"
  start_erase :: "nat \<Rightarrow> 'm \<Rightarrow> 'm"
  store_word :: "nat \<Rightarrow> u32 \<Rightarrow> 'm \<Rightarrow> 'm"
  word_at :: "'m \<Rightarrow> nat \<Rightarrow> u32"

section \<open>Primitives\<close>

text \<open>The busy loop: the status is read until idle or the count runs out, then twice more.\<close>

fun busy_loop :: "'m fmc \<Rightarrow> nat \<Rightarrow> 'm \<Rightarrow> 'm" where
  "busy_loop F timeout m =
     (let ((busy, _), m') = fmc_stat F m
      in if busy \<and> timeout \<noteq> 0 then busy_loop F (timeout - 1) m' else m')"

declare busy_loop.simps [simp del]

definition flash_wait_idle_ram :: "'m fmc \<Rightarrow> 'm \<Rightarrow> int \<times> 'm" where
  "flash_wait_idle_ram F m =
     (let m1 = busy_loop F 5000000 m;
          ((busy, _), m2) = fmc_stat F m1
      in if busy then (-1, m2)
         else let ((_, err), m3) = fmc_stat F m2 in if err then (-2, m3) else (0, m3))"

definition flash_erase_page_ram :: "'m fmc \<Rightarrow> nat \<Rightarrow> 'm \<Rightarrow> int \<times> 'm" where
  "flash_erase_page_ram F page_addr m = flash_wait_idle_ram F (start_erase F page_addr m)"

definition flash_program_word_ram :: "'m fmc \<Rightarrow> nat \<Rightarrow> u32 \<Rightarrow> 'm \<Rightarrow> int \<times> 'm" where
  "flash_program_word_ram F addr data m =
     (let (rc, m') = flash_wait_idle_ram F (store_word F addr data m)
      in (if rc = 0 \<and> word_at F m' addr \<noteq> data then -3 else rc, m'))"

function erase_pages :: "'m fmc \<Rightarrow> nat \<Rightarrow> nat \<Rightarrow> 'm \<Rightarrow> int \<times> 'm" where
  "erase_pages F page end_aligned m =
     (if page < end_aligned
      then let (rc, m') = flash_erase_page_ram F page m
           in if rc \<noteq> 0 then (rc, m') else erase_pages F (page + FLASH_PAGE_SIZE) end_aligned m'
      else (0, m))"
  by auto
termination by (relation "measure (\<lambda>(_, page, stop, _). stop - page)") auto

declare erase_pages.simps [simp del]

fun program_words :: "'m fmc \<Rightarrow> nat \<Rightarrow> u32 list \<Rightarrow> 'm \<Rightarrow> int \<times> 'm" where
  "program_words F addr [] m = (0, m)"
| "program_words F addr (w # ws) m =
     (let (rc, m') = flash_program_word_ram F addr w m
      in if rc \<noteq> 0 then (rc, m') else program_words F (addr + 4) ws m')"

datatype overwrite = OW_RC int | OW_RESET | OW_HALT

definition page_up :: "nat \<Rightarrow> nat" where
  "page_up e = (e + 2047) div 2048 * 2048"

definition flash_overwrite_bank0_from_ram :: "'m fmc \<Rightarrow> u32 list \<Rightarrow> nat \<Rightarrow> 'm \<Rightarrow> overwrite \<times> 'm" where
  "flash_overwrite_bank0_from_ram F src size_bytes m =
     (if size_bytes = 0 \<or> size_bytes > FLASH_BANK0_SIZE then (OW_RC (-10), m)
      else if size_bytes mod 4 \<noteq> 0 then (OW_RC (-11), m)
      else let (unlocked, m1) = fmc_unlock F m
        in if \<not> unlocked then (OW_RC (-1), m1)
           else let (rc, m2) = flash_wait_idle_ram F m1
             in if rc \<noteq> 0 then (OW_HALT, m2)
                else let (rc, m3) = erase_pages F FLASH_BANK0_BASE (page_up (FLASH_BANK0_BASE + size_bytes)) m2
                  in if rc \<noteq> 0 then (OW_HALT, m3)
                     else let (rc, m4) = program_words F FLASH_BANK0_BASE (take (size_bytes div 4) src) m3
                       in if rc \<noteq> 0 then (OW_HALT, m4) else (OW_RESET, m4))"

section \<open>The orchestrator\<close>

datatype apply_result = APPLY_RC int | APPLY_RESET | APPLY_HALT

text \<open>Bytes of the running image and the words of a byte buffer.\<close>

definition bank_bytes :: "'m fmc \<Rightarrow> 'm \<Rightarrow> nat \<Rightarrow> u8 list" where
  "bank_bytes F m n = take n (concat (map (\<lambda>i. le32_bytes (word_at F m (FLASH_BANK0_BASE + 4 * i))) [0 ..< (n + 3) div 4]))"

definition words_of :: "u8 list \<Rightarrow> u32 list" where
  "words_of buf = map (\<lambda>i. le32_at buf (4 * i)) [0 ..< length buf div 4]"

text \<open>The copy of the staged image into RAM, 256 bytes at a time.\<close>

function read_stage :: "'c spi \<Rightarrow> nat \<Rightarrow> nat \<Rightarrow> 'c \<Rightarrow> u8 list \<times> 'c" where
  "read_stage X src_addr remaining c =
     (if remaining = 0 then ([], c)
      else let this_chunk = min remaining 256;
               (p, c') = w25q_read X src_addr this_chunk c;
               (rest, c'') = read_stage X (src_addr + this_chunk) (remaining - this_chunk) c'
           in (p @ rest, c''))"
  by auto
termination by (relation "measure (\<lambda>(_, _, remaining, _). remaining)") auto

declare read_stage.simps [simp del]

definition flash_apply_pending_ota_image ::
  "'c spi \<Rightarrow> 'm fmc \<Rightarrow> boot_config \<Rightarrow> 'c \<Rightarrow> 'm \<Rightarrow> apply_result \<times> boot_config \<times> 'c \<times> 'm" where
  "flash_apply_pending_ota_image X F cfg c m =
     (if pending_ota_flag cfg = 0 then (APPLY_RC (-1), cfg, c, m)
      else
        let img_size = staged_image_size cfg;
            img_crc = staged_image_crc32 cfg;
            clear = (\<lambda>rc c. let (_, cfg', c') = ota_stage_clear_pending X cfg c in (APPLY_RC rc, cfg', c', m))
        in if img_size = 0 \<or> img_size > FLASH_OTA_APPLY_MAX_SIZE then clear (-2) c
           else if crc32 (bank_bytes F m (unat img_size)) = img_crc then clear 0 c
           else let (staged_crc, c1) = ota_stage_compute_crc X img_size c
             in if staged_crc \<noteq> img_crc then clear (-3) c1
                else let padded_size = (unat img_size + 3) div 4 * 4;
                         (img, c2) = read_stage X OTA_STAGE_REGION_BASE (unat img_size) c1;
                         buf = img @ replicate (padded_size - unat img_size) 0xFF
                  in if crc32 (take (unat img_size) buf) \<noteq> img_crc then clear (-3) c2
                     else case flash_overwrite_bank0_from_ram F (words_of buf) padded_size m of
                            (OW_RESET, m') \<Rightarrow> (APPLY_RESET, cfg, c2, m')
                          | (OW_HALT, m') \<Rightarrow> (APPLY_HALT, cfg, c2, m')
                          | (OW_RC _, m') \<Rightarrow> (APPLY_HALT, cfg, c2, m'))"

section \<open>Facts\<close>

definition fmc_ok :: "'m fmc \<Rightarrow> bool" where
  "fmc_ok F \<longleftrightarrow>
     (\<forall>m. word_at F (snd (fmc_stat F m)) = word_at F m) \<and>
     (\<forall>m. word_at F (snd (fmc_unlock F m)) = word_at F m) \<and>
     (\<forall>p m a. a < p \<or> p + FLASH_PAGE_SIZE \<le> a \<longrightarrow> word_at F (start_erase F p m) a = word_at F m a) \<and>
     (\<forall>p d m a. a \<noteq> p \<longrightarrow> word_at F (store_word F p d m) a = word_at F m a)"

lemma busy_keeps: "fmc_ok F \<Longrightarrow> word_at F (busy_loop F n m) = word_at F m"
proof (induction n arbitrary: m)
  case (Suc n)
  then have "word_at F (snd (fmc_stat F m)) = word_at F m" by (simp add: fmc_ok_def)
  then show ?case using Suc by (auto simp: busy_loop.simps [of F "Suc n"] case_prod_unfold Let_def)
qed (auto simp: busy_loop.simps [of F 0] fmc_ok_def case_prod_unfold Let_def)

lemma wait_keeps: "fmc_ok F \<Longrightarrow> word_at F (snd (flash_wait_idle_ram F m)) = word_at F m"
  using busy_keeps [of F 5000000 m] by (auto simp: flash_wait_idle_ram_def fmc_ok_def case_prod_unfold Let_def)

lemma program_words_spec:
  assumes "fmc_ok F"
  shows "program_words F addr ws m = (0, m') \<Longrightarrow>
    (\<forall>i < length ws. word_at F m' (addr + 4 * i) = ws ! i) \<and> (\<forall>a. a < addr \<longrightarrow> word_at F m' a = word_at F m a)"
proof (induction ws arbitrary: addr m)
  case (Cons w ws)
  obtain rc m1 where p: "flash_program_word_ram F addr w m = (rc, m1)" by (cases "flash_program_word_ram F addr w m")
  with Cons.prems have rc: "rc = 0" by (auto split: if_splits)
  obtain rc1 m2 where wt: "flash_wait_idle_ram F (store_word F addr w m) = (rc1, m2)"
    by (cases "flash_wait_idle_ram F (store_word F addr w m)")
  have m1: "word_at F m1 addr = w" "m2 = m1" using p rc by (auto simp: flash_program_word_ram_def wt Let_def split: if_splits)
  have fr: "a \<noteq> addr \<Longrightarrow> word_at F m1 a = word_at F m a" for a
    using wait_keeps [OF assms, of "store_word F addr w m"] assms m1(2) by (simp add: wt fmc_ok_def)
  have "program_words F (addr + 4) ws m1 = (0, m')" using Cons.prems by (simp add: p rc)
  note IH = Cons.IH [OF this]
  have "word_at F m' (addr + 4 * i) = (w # ws) ! i" if "i < length (w # ws)" for i
  proof (cases i)
    case 0
    then show ?thesis using IH m1(1) by simp
  next
    case (Suc j)
    then show ?thesis using IH that by (simp add: add.assoc)
  qed
  then show ?case using IH fr by simp
qed simp

text \<open>A reset is reached only with every word in place.\<close>

lemma overwrite_reset:
  assumes "fmc_ok F" "flash_overwrite_bank0_from_ram F src sz m = (OW_RESET, m')"
  shows "\<forall>i < length (take (sz div 4) src). word_at F m' (FLASH_BANK0_BASE + 4 * i) = src ! i"
proof -
  have "\<exists>m3. program_words F FLASH_BANK0_BASE (take (sz div 4) src) m3 = (0, m')"
    using assms(2)
    by (auto simp: flash_overwrite_bank0_from_ram_def Let_def split: if_splits prod.splits; blast)
  then obtain m3 where "program_words F FLASH_BANK0_BASE (take (sz div 4) src) m3 = (0, m')" by blast
  from program_words_spec [OF assms(1) this] show ?thesis by simp
qed

lemma overwrite_rc:
  assumes "fmc_ok F" "flash_overwrite_bank0_from_ram F src sz m = (OW_RC rc, m')"
  shows "word_at F m' = word_at F m"
  using assms by (auto simp: flash_overwrite_bank0_from_ram_def case_prod_unfold Let_def fmc_ok_def split: if_splits)

lemma le32_bytes_at:
  assumes "length p = 4"
  shows "le32_bytes (le32_at p 0) = p"
proof -
  obtain a b c d where p: "p = [a, b, c, d]"
    using assms by (auto simp: length_Suc_conv numeral_eq_Suc)
  have v: "le32_at p 0 = ucast a OR push_bit 8 (ucast b) OR push_bit 16 (ucast c) OR push_bit 24 (ucast d)"
    by (simp add: p le32_at_def)
  let ?v = "ucast a OR push_bit 8 (ucast b) OR push_bit 16 (ucast c) OR push_bit 24 (ucast d) :: u32"
  have "ucast (?v AND 0xFF) = a" "ucast (drop_bit 8 ?v AND 0xFF) = b"
    "ucast (drop_bit 16 ?v AND 0xFF) = c" "ucast (drop_bit 24 ?v AND 0xFF) = d"
    by (rule bit_word_eqI, simp only: bit_ucast_iff bit_and_iff bit_drop_bit_eq bit_or_iff bit_push_bit_iff bit_0xFF_u32 o_def,
        auto dest: bit_imp_le_length)+
  then show ?thesis unfolding v le32_bytes_def by (simp only: p)
qed

lemma words_bytes:
  "length buf = 4 * k \<Longrightarrow> concat (map (\<lambda>i. le32_bytes (le32_at buf (4 * i))) [0 ..< k]) = buf"
proof (induction k arbitrary: buf)
  case (Suc k)
  have "map (\<lambda>i. le32_bytes (le32_at buf (4 * i))) [0 ..< Suc k] =
      le32_bytes (le32_at buf 0) # map (\<lambda>i. le32_bytes (le32_at (drop 4 buf) (4 * i))) [0 ..< k]"
    using Suc.prems le32_at_drop [of 4 _ buf]
    by (simp add: upt_conv_Cons map_Suc_upt [symmetric] del: upt_Suc)
  moreover have "le32_at buf 0 = le32_at (take 4 buf) 0"
    using Suc.prems by (intro le32_at_cong) simp_all
  then have "le32_bytes (le32_at buf 0) = take 4 buf" using le32_bytes_at [of "take 4 buf"] Suc.prems by simp
  moreover have "concat (map (\<lambda>i. le32_bytes (le32_at (drop 4 buf) (4 * i))) [0 ..< k]) = drop 4 buf"
    using Suc.prems by (intro Suc.IH) simp
  ultimately show ?case by simp
qed simp

text \<open>The bytes of the bank after the words of a padded buffer have been programmed.\<close>

lemma bank_of_words:
  assumes "length buf = (n + 3) div 4 * 4" "\<forall>i < (n + 3) div 4. word_at F m (FLASH_BANK0_BASE + 4 * i) = words_of buf ! i"
  shows "bank_bytes F m n = take n buf"
proof -
  let ?k = "(n + 3) div 4"
  have "map (\<lambda>i. le32_bytes (word_at F m (FLASH_BANK0_BASE + 4 * i))) [0 ..< ?k] =
      map (\<lambda>i. le32_bytes (le32_at buf (4 * i))) [0 ..< ?k]"
    using assms by (simp add: words_of_def)
  moreover have "length buf = 4 * ?k" using assms(1) by simp
  ultimately show ?thesis by (simp only: bank_bytes_def words_bytes)
qed

lemma bank_cong: "word_at F m' = word_at F m \<Longrightarrow> bank_bytes F m' n = bank_bytes F m n"
  by (simp add: bank_bytes_def)

context w25q_chip
begin

lemma read_stage_spec:
  assumes "idle c" "addr + n \<le> FLASH_END"
  shows "fst (read_stage X addr n c) = map (cells c) [addr ..< addr + n]" "idle (snd (read_stage X addr n c))"
    "cells (snd (read_stage X addr n c)) = cells c"
proof -
  have "fst (read_stage X addr n c) = map (cells c) [addr ..< addr + n] \<and> idle (snd (read_stage X addr n c)) \<and>
    cells (snd (read_stage X addr n c)) = cells c"
    using assms
  proof (induction n arbitrary: addr c rule: less_induct)
    case (less n)
    show ?case
    proof (cases "n = 0")
      case True
      then show ?thesis using less.prems by (simp add: read_stage.simps)
    next
      case False
      define k where "k = min n 256"
      have k: "0 < k" "k \<le> n" using False by (auto simp: k_def)
      obtain p c1 where r: "w25q_read X addr k c = (p, c1)" by (cases "w25q_read X addr k c")
      have fe: "addr + k \<le> FLASH_END" using less.prems(2) k by simp
      have rd: "p = map (cells c) [addr ..< addr + k]" "idle c1" "cells c1 = cells c"
        using rd_data [OF less.prems(1) fe] rd_idle [OF less.prems(1) fe] rd_keeps [OF less.prems(1) fe] by (simp_all add: r)
      obtain rest c2 where q: "read_stage X (addr + k) (n - k) c1 = (rest, c2)" by (cases "read_stage X (addr + k) (n - k) c1")
      have step: "read_stage X addr n c = (p @ rest, c2)"
        using False by (subst read_stage.simps) (simp add: Let_def k_def [symmetric] r q)
      have lt: "n - k < n" using k by simp
      have b: "addr + k + (n - k) \<le> FLASH_END" using less.prems(2) k by simp
      note IH = less.IH [OF lt rd(2) b, unfolded q fst_conv snd_conv]
      have sp: "[addr ..< addr + n] = [addr ..< addr + k] @ [addr + k ..< addr + n]"
        using upt_add_eq_append [of addr "addr + k" "n - k"] k by simp
      show ?thesis using IH k unfolding step sp by (simp add: rd)
    qed
  qed
  then show "fst (read_stage X addr n c) = map (cells c) [addr ..< addr + n]" "idle (snd (read_stage X addr n c))"
    "cells (snd (read_stage X addr n c)) = cells c" by simp_all
qed

text \<open>What one boot does with a pending image.\<close>

lemma apply_spec:
  assumes "idle c" "fmc_ok F" "flash_apply_pending_ota_image X F cfg c m = (res, cfg', c', m')"
  shows "case res of
      APPLY_RC rc \<Rightarrow> m' = m
    | APPLY_RESET \<Rightarrow> cfg' = cfg \<and> pending_ota_flag cfg \<noteq> 0 \<and>
        bank_bytes F m' (unat (staged_image_size cfg)) = stage_cells (cells c) (unat (staged_image_size cfg)) \<and>
        crc32 (bank_bytes F m' (unat (staged_image_size cfg))) = staged_image_crc32 cfg
    | APPLY_HALT \<Rightarrow> cfg' = cfg \<and> pending_ota_flag cfg \<noteq> 0"
proof (cases "pending_ota_flag cfg = 0")
  case True
  then show ?thesis using assms(3) by (auto simp: flash_apply_pending_ota_image_def)
next
  case pend: False
  let ?n = "staged_image_size cfg" and ?crc = "staged_image_crc32 cfg"
  obtain rc0 cfg0 c0 where cl: "ota_stage_clear_pending X cfg c = (rc0, cfg0, c0)" by (cases "ota_stage_clear_pending X cfg c")
  show ?thesis
  proof (cases "?n = 0 \<or> ?n > FLASH_OTA_APPLY_MAX_SIZE \<or> crc32 (bank_bytes F m (unat ?n)) = ?crc")
    case True
    then show ?thesis using assms(3) pend by (auto simp: flash_apply_pending_ota_image_def Let_def cl split: if_splits)
  next
    case False
    then have le: "unat ?n \<le> 0x10000" by (simp add: not_less word_le_nat_alt)
    then have mx: "?n \<le> OTA_STAGE_MAX_IMAGE_SIZE" by (simp add: word_le_nat_alt)
    obtain sc c1 where r: "ota_stage_compute_crc X ?n c = (sc, c1)" by (cases "ota_stage_compute_crc X ?n c")
    have c1: "idle c1" "cells c1 = cells c" using ota_crc_of_stage [OF assms(1) mx] by (simp_all add: r)
    have fe: "OTA_STAGE_REGION_BASE + unat ?n \<le> FLASH_END" using le by simp
    obtain img c2 where rs: "read_stage X OTA_STAGE_REGION_BASE (unat ?n) c1 = (img, c2)"
      by (cases "read_stage X OTA_STAGE_REGION_BASE (unat ?n) c1")
    have img: "img = stage_cells (cells c) (unat ?n)" "length img = unat ?n"
      using read_stage_spec(1) [OF c1(1) fe] c1(2) by (simp_all add: rs stage_cells_def)
    let ?k = "(unat ?n + 3) div 4"
    let ?buf = "img @ replicate (?k * 4 - unat ?n) 0xFF"
    have up: "unat ?n \<le> ?k * 4" by linarith
    have buf: "length ?buf = ?k * 4" "take (unat ?n) ?buf = img" using img(2) up by simp_all
    obtain ow m1 where ov: "flash_overwrite_bank0_from_ram F (words_of ?buf) (?k * 4) m = (ow, m1)"
      by (cases "flash_overwrite_bank0_from_ram F (words_of ?buf) (?k * 4) m")
    have run: "flash_apply_pending_ota_image X F cfg c m =
        (if sc \<noteq> ?crc then (let (_, cfg', c') = ota_stage_clear_pending X cfg c1 in (APPLY_RC (-3), cfg', c', m))
         else if crc32 img \<noteq> ?crc then (let (_, cfg', c') = ota_stage_clear_pending X cfg c2 in (APPLY_RC (-3), cfg', c', m))
         else (case ow of OW_RESET \<Rightarrow> APPLY_RESET | _ \<Rightarrow> APPLY_HALT, cfg, c2, m1))"
      using pend False
      by (simp add: flash_apply_pending_ota_image_def Let_def r rs ov buf(2) [simplified] split: overwrite.split)
    have "bank_bytes F m1 (unat ?n) = img" if "ow = OW_RESET"
    proof -
      have lw: "length (words_of ?buf) = ?k" using buf(1) by (simp add: words_of_def)
      then have "\<forall>i < ?k. word_at F m1 (FLASH_BANK0_BASE + 4 * i) = words_of ?buf ! i"
        using overwrite_reset [OF assms(2), of "words_of ?buf" "?k * 4" m m1] ov that by simp
      from bank_of_words [OF buf(1) this] show ?thesis by (simp only: buf(2))
    qed
    then show ?thesis using assms(3) pend img(1) unfolding run
      by (auto simp: Let_def split: if_splits overwrite.splits prod.splits)
  qed
qed

end

end
