(* ===== verification/Persist_Boot.thy ===== *)
theory Persist_Boot
  imports Ota_Refine Flash_Apply
begin

text \<open>
  The persistence part of the boot, \<^verbatim>\<open>src/src/main.c\<close>: from the probe of the flash device to the crash
  counter, before the tasks start. A boot runs on, or ends in the reset or the halt of a firmware
  update. The lemmas show that on a device that completes its operations a boot that runs on hands the
  persist task a state that satisfies its invariant.
\<close>

definition boot_reset :: "'c \<Rightarrow> 'c persist_state" where
  "boot_reset c =
     \<lparr>p_cfg = bc_zero, p_cal = cal_mod_reset, p_crash = crash_mod_reset, p_auth = al_zero,
      p_events = log_mod_reset, p_sessions = log_mod_reset, p_ota = ota_session_reset\<lparr>o_running_crc := 0\<rparr>,
      p_chip = c, p_frames = [], p_asks = []\<rparr>"

datatype ('c, 'm) boot_outcome = BOOT_RUNS "'c persist_state" 'm | BOOT_RESETS 'c 'm | BOOT_HALTS 'c 'm

text \<open>The logs and the crash counter, once no update is pending.\<close>

definition boot_logs :: "'c spi \<Rightarrow> reset_cause \<Rightarrow> u32 \<Rightarrow> 'c persist_state \<Rightarrow> 'c persist_state" where
  "boot_logs X cause boots st =
     (let (ev, c1) = event_log_init X (p_events st) (p_chip st);
          ev' = event_log_set_boot_count (ucast boots) ev;
          (ses, c2) = session_log_init X (p_sessions st) c1;
          ses' = session_log_set_boot_count (ucast boots) ses;
          (_, cr, c3) = crash_state_boot_increment X cause (p_crash st) c2
      in st\<lparr>p_crash := cr, p_events := ev', p_sessions := ses', p_chip := c3\<rparr>)"

definition persist_boot :: "'c spi \<Rightarrow> 'm fmc \<Rightarrow> reset_cause \<Rightarrow> 'c \<Rightarrow> 'm \<Rightarrow> ('c, 'm) boot_outcome" where
  "persist_boot X F cause c m =
     (let (rc, _, c0) = w25q_init X c; st = boot_reset c0
      in if rc \<noteq> 0 then BOOT_RUNS st m
         else let (boots, c1) = boot_count_increment X c0;
                  (_, cfg, c2) = boot_config_load X (p_cfg st) c1;
                  (_, cal, c3) = calibration_load X (p_cal st) c2;
                  (_, auth, c4) = rfid_authlist_load X (p_auth st) c3;
                  st4 = st\<lparr>p_cfg := cfg, p_cal := cal, p_auth := auth, p_chip := c4\<rparr>
              in if pending_ota_flag cfg = 0 then BOOT_RUNS (boot_logs X cause boots st4) m
                 else case flash_apply_pending_ota_image X F cfg c4 m of
                        (APPLY_RC _, cfg', c5, m') \<Rightarrow>
                          BOOT_RUNS (boot_logs X cause boots (st4\<lparr>p_cfg := cfg', p_chip := c5\<rparr>)) m'
                      | (APPLY_RESET, _, c5, m') \<Rightarrow> BOOT_RESETS c5 m'
                      | (APPLY_HALT, _, c5, m') \<Rightarrow> BOOT_HALTS c5 m')"

text \<open>A list record in flash, if there is one, is a set of at most 28 tags.\<close>

definition al_flash_ok :: "(nat \<Rightarrow> u8) \<Rightarrow> bool" where
  "al_flash_ok mem \<longleftrightarrow> (case al_in_flash mem of None \<Rightarrow> True | Some r \<Rightarrow> al_inv r)"

context w25q_chip
begin

lemma boot_count_touches:
  assumes "idle c" "completes X idle"
  shows "only_touches cells {76} c (snd (boot_count_increment X c))"
proof -
  let ?a = "BOOT_COUNT_SECTOR"
  have fe: "?a + 32 \<le> FLASH_END" "?a < FLASH_END" by simp_all
  obtain rec c1 where r: "w25q_read X ?a 32 c = (rec, c1)" by (cases "w25q_read X ?a 32 c")
  have rd: "idle c1" "cells c1 = cells c"
    using rd_idle [OF assms(1) fe(1)] rd_keeps [OF assms(1) fe(1)] by (simp_all only: r fst_conv snd_conv)
  let ?q = "boot_count_record (boot_count_value rec + 1)"
  obtain c2 where e: "w25q_erase_sector X ?a c1 = (0, c2)"
    using assms(2) rd(1) unfolding completes_def by (metis prod.collapse)
  have c2: "idle c2" "x div 4096 \<noteq> 76 \<Longrightarrow> cells c2 x = cells c x" for x
    using er_idle [OF rd(1) fe(2)] er_frame [OF rd(1) fe(2)] rd(2) by (simp_all add: e)
  obtain rc2 c3 where p: "w25q_program X ?a ?q c2 = (rc2, c3)" by (cases "w25q_program X ?a ?q c2")
  have run: "snd (boot_count_increment X c) = c3" by (simp add: boot_count_increment_def r Let_def e p)
  have len: "length ?q = 32" by (rule boot_count_record_facts)
  have "cells c3 x = cells c x" if "x div 4096 \<noteq> 76" for x
  proof -
    have "\<not> (?a \<le> x \<and> x < ?a + 256)" using sector_of_slot [of ?a x] that by auto
    then have out: "x < ?a \<or> ?a + length ?q \<le> x" using len by auto
    show ?thesis using pr_frame [OF c2(1) _ fe(2) out] len c2(2) [OF that] by (simp add: p)
  qed
  then show ?thesis unfolding run by (simp add: only_touches_def)
qed

lemma bc_load_ok:
  assumes "idle c" "completes X idle" "boot_config_load X old c = (rc, cfg, c')"
  shows "rc = 0 \<and> idle c' \<and> bc_synced cfg (cells c') \<and> only_touches cells bc_sectors c c' \<and>
    bc_settings cfg = (case bc_in_flash (cells c) of None \<Rightarrow> bc_settings bc_zero | Some r \<Rightarrow> bc_settings r)"
proof (cases "bc_in_flash (cells c)")
  case None
  obtain res c1 where ld: "pingpong_load X BOOT_CONFIG_SLOT_A BOOT_CONFIG_SLOT_B 32 c = (res, c1)"
    by (cases "pingpong_load X BOOT_CONFIG_SLOT_A BOOT_CONFIG_SLOT_B 32 c")
  note gs = bc.get_spec [OF assms(1) ld]
  have res: "res = PP_NONE" using gs(4) None by auto
  let ?cfg = "bc_zero\<lparr>bc_version := BOOT_CONFIG_VERSION, fc41d_advertised_amps := 0\<rparr>"
  have wf: "bc_wf ?cfg" by (simp add: bc_wf_def bc_zero_def bc_of_bytes_def)
  obtain rc' cfg2 c2 where put: "rec_put X BOOT_CONFIG_SLOT_A BOOT_CONFIG_SLOT_B bc_bytes bc_of_bytes ?cfg c1 = (rc', cfg2, c2)"
    by (cases "rec_put X BOOT_CONFIG_SLOT_A BOOT_CONFIG_SLOT_B bc_bytes bc_of_bytes ?cfg c1")
  note ok = bc.put_ok [OF gs(1) wf assms(2) put]
  have "boot_config_load X old c = (if rc' < 0 then rc' else 0, cfg2, c2)"
    by (simp add: boot_config_load_def ld res put)
  then have eq: "rc = 0" "cfg = cfg2" "c' = c2" using ok assms(3) by auto
  obtain k where k: "cfg2 = bc_seal k ?cfg" using ok by blast
  have "bc_settings cfg2 = bc_settings bc_zero"
    unfolding k bc_settings_seal by (simp add: bc_settings_def bc_zero_def bc_of_bytes_def le32_at_def)
  then show ?thesis using ok gs(2) None by (simp add: eq bc_synced_def only_touches_def)
next
  case (Some r)
  obtain res c1 where ld: "pingpong_load X BOOT_CONFIG_SLOT_A BOOT_CONFIG_SLOT_B 32 c = (res, c1)"
    by (cases "pingpong_load X BOOT_CONFIG_SLOT_A BOOT_CONFIG_SLOT_B 32 c")
  note gs = bc.get_spec [OF assms(1) ld]
  have "bc_wf r" using gs(4) Some bc_codec.dec_wf by auto
  then show ?thesis using bc_load_spec [OF assms(1) Some assms(3)] Some touches_same by (simp add: bc_synced_def)
qed

lemma cal_load_ok:
  assumes "idle c" "completes X idle" "calibration_load X m c = (rc, m', c')"
  shows "rc = 0 \<and> idle c' \<and> cal_synced m' (cells c') \<and> only_touches cells cal_sectors c c'"
proof -
  obtain res c1 where ld: "pingpong_load X CALIBRATION_SLOT_A CALIBRATION_SLOT_B 32 c = (res, c1)"
    by (cases "pingpong_load X CALIBRATION_SLOT_A CALIBRATION_SLOT_B 32 c")
  note gs = cal.get_spec [OF assms(1) ld]
  show ?thesis
  proof (cases "cal_in_flash (cells c)")
    case None
    then have res: "res = PP_NONE" using gs(4) by auto
    have wf: "cal_wf cal_defaults" by (simp add: cal_defaults_def cal_wf_def cal_zero_def cal_of_bytes_def)
    obtain rc0 r3 c3 where put: "cal_put X cal_defaults c1 = (rc0, r3, c3)" by (cases "cal_put X cal_defaults c1")
    note ok = cal.put_ok [OF gs(1) wf assms(2) put]
    have "rc = 0" "c' = c3" using assms(3) ok by (simp_all add: calibration_load_def ld res put)
    then show ?thesis using cal_load_blank [OF assms(1) None assms(3)] ok gs(2) by (simp add: only_touches_def)
  next
    case (Some r)
    then obtain buf s k where res: "res = PP_LOADED buf s k" and r: "cal_of_bytes buf = r" and len: "length buf = 32"
      using gs(4) by auto
    have wfr: "cal_wf r" using cal_codec.dec_wf [OF len] by (simp add: r)
    have wf: "cal_wf (migrate r)" by (rule cal_wf_migrate [OF wfr])
    obtain rc0 r3 c3 where put: "cal_put X (migrate r) c1 = (rc0, r3, c3)" by (cases "cal_put X (migrate r) c1")
    note ok = cal.put_ok [OF gs(1) wf assms(2) put]
    let ?moved = "cal_version r = 1 \<or> cal_version (migrate_v1 r) = 2"
    have run: "calibration_load X m c = (0, publish_to_isr (m\<lparr>s_cal := if ?moved then r3 else r\<rparr>), if ?moved then c3 else c1)"
      using put by (auto simp: calibration_load_def ld res Let_def r migrate_def [symmetric])
        (auto simp: migrate_def migrate_v1_def migrate_v2_def)
    show ?thesis using assms(3) ok gs(1,2) Some wfr publish_idem unfolding run
      by (auto simp: cal_synced_def only_touches_def)
  qed
qed

lemma al_load_ok:
  assumes "idle c" "completes X idle" "al_flash_ok (cells c)" "rfid_authlist_load X old c = (rc, r', c')"
  shows "rc = 0 \<and> idle c' \<and> al_synced r' (cells c') \<and> only_touches cells {5, 6} c c' \<and>
    al_list r' = (case al_in_flash (cells c) of None \<Rightarrow> [] | Some r0 \<Rightarrow> al_list r0)"
proof (cases "al_in_flash (cells c)")
  case None
  obtain res c1 where ld: "pingpong_load X RFID_AUTHLIST_SLOT_A RFID_AUTHLIST_SLOT_B 128 c = (res, c1)"
    by (cases "pingpong_load X RFID_AUTHLIST_SLOT_A RFID_AUTHLIST_SLOT_B 128 c")
  note gs = al.get_spec [OF assms(1) ld]
  let ?r = "al_zero\<lparr>al_version := RFID_AUTHLIST_VERSION, al_count := 0\<rparr>"
  have res: "res = PP_NONE" using gs(4) None by auto
  have inv: "al_inv ?r"
    by (simp add: al_inv_def al_wf_def al_zero_def al_of_bytes_def al_list_def al_tags_def)
  have st: "al_store X ?r c1 = (rc, r', c')" using assms(4) by (simp add: rfid_authlist_load_def ld res)
  have "rc = 0" using al_store_completes [OF gs(1) inv assms(2)] by (simp add: st)
  moreover have "al_list ?r = []" by (simp add: al_list_def)
  ultimately show ?thesis using al_store_spec(2,5) [OF gs(1) inv st] al_store_touches [OF gs(1) inv st] gs(2) None
    by (simp add: only_touches_def)
next
  case (Some r)
  then have "al_synced r (cells c)" using assms(3) by (simp add: al_flash_ok_def al_synced_def)
  from al_load_spec [OF assms(1) this assms(4)] show ?thesis using \<open>al_synced r (cells c)\<close> Some by (simp add: only_touches_def)
qed

lemma cs_boot_touches:
  assumes "idle c" "completes X idle" "crash_state_boot_increment X cause m c = (rc, m', c')"
  shows "only_touches cells crash_sectors c c'"
proof -
  obtain res c1 where ld: "pingpong_load X CRASH_STATE_SLOT_A CRASH_STATE_SLOT_B 32 c = (res, c1)"
    by (cases "pingpong_load X CRASH_STATE_SLOT_A CRASH_STATE_SLOT_B 32 c")
  note gs = cs.get_spec [OF assms(1) ld]
  define cs0 where "cs0 = (case res of PP_LOADED buf _ _ \<Rightarrow> cs_of_bytes buf
     | _ \<Rightarrow> cs_zero\<lparr>cs_version := CRASH_STATE_VERSION, fast_restart_count := 0\<rparr>)"
  define cs1 where "cs1 = (if read_and_clear_reset_was_crash cause
     then if fast_restart_count cs0 < 0xFF then cs0\<lparr>fast_restart_count := fast_restart_count cs0 + 1\<rparr> else cs0
     else cs0\<lparr>fast_restart_count := 0\<rparr>)"
  let ?r = "cs1\<lparr>cs_version := CRASH_STATE_VERSION\<rparr>"
  obtain rc0 cs2 c2 where put: "rec_put X CRASH_STATE_SLOT_A CRASH_STATE_SLOT_B cs_bytes cs_of_bytes ?r c1 = (rc0, cs2, c2)"
    by (cases "rec_put X CRASH_STATE_SLOT_A CRASH_STATE_SLOT_B cs_bytes cs_of_bytes ?r c1")
  have "c' = c2"
    using assms(3) put gs(3) unfolding crash_state_boot_increment_def ld cs1_def cs0_def Let_def
    by (auto split: pp_load.splits)
  moreover have "cs_wf cs0" using gs(4) cs_codec.dec_wf by (auto simp: cs0_def cs_zero_def cs_wf_def cs_of_bytes_def)
  then have "cs_wf ?r" by (simp add: cs1_def cs_wf_def)
  ultimately show ?thesis using cs.put_ok [OF gs(1) _ assms(2) put] gs(2) by (simp add: only_touches_def)
qed

lemma log_inits_ok:
  assumes "idle c"
  shows "idle (snd (event_log_init X m c))" "cells (snd (event_log_init X m c)) = cells c"
    "s_head_slot (fst (event_log_init X m c)) < EVENT_LOG_SECTORS * 128"
    "idle (snd (session_log_init X m c))" "cells (snd (session_log_init X m c)) = cells c"
    "s_head_slot (fst (session_log_init X m c)) < SESSION_LOG_SECTORS * 128"
proof -
  have b: "EVENT_LOG_BASE + EVENT_LOG_SECTORS * 4096 \<le> FLASH_END" "SESSION_LOG_BASE + SESSION_LOG_SECTORS * 4096 \<le> FLASH_END" by simp_all
  note ev = log_init_spec [OF assms b(1), of event_key] and se = log_init_spec [OF assms b(2), of session_key]
  show "idle (snd (event_log_init X m c))" "cells (snd (event_log_init X m c)) = cells c"
    using ev(2,3) by (simp_all add: event_log_init_def case_prod_unfold Let_def)
  show "idle (snd (session_log_init X m c))" "cells (snd (session_log_init X m c)) = cells c"
    using se(2,3) by (simp_all add: session_log_init_def case_prod_unfold Let_def)
  show "s_head_slot (fst (event_log_init X m c)) < EVENT_LOG_SECTORS * 128"
    using ev(1) by (auto simp: event_log_init_def case_prod_unfold Let_def split: option.splits)
  show "s_head_slot (fst (session_log_init X m c)) < SESSION_LOG_SECTORS * 128"
    using se(1) by (auto simp: session_log_init_def case_prod_unfold Let_def split: option.splits)
qed

text \<open>The update: what a return leaves, beside the running image.\<close>

lemma apply_returns:
  assumes "idle c" "completes X idle" "bc_synced cfg (cells c)" "pending_ota_flag cfg \<noteq> 0"
    and "flash_apply_pending_ota_image X F cfg c m = (APPLY_RC rc, cfg', c', m')"
  shows "idle c' \<and> bc_synced cfg' (cells c') \<and> only_touches cells bc_sectors c c' \<and> pending_ota_flag cfg' = 0"
proof -
  let ?n = "staged_image_size cfg"
  have clear: "idle c' \<and> bc_synced cfg' (cells c') \<and> only_touches cells bc_sectors c c' \<and> pending_ota_flag cfg' = 0"
    if "idle d" "cells d = cells c" "ota_stage_clear_pending X cfg d = (rc0, cfg', c')" for rc0 d
  proof -
    have "bc_synced cfg (cells d)" using assms(3) that(2) by simp
    from bc_setters_ok(5) [OF that(1) this assms(2) that(3) [unfolded ota_stage_clear_pending_def]] that(2)
    show ?thesis by (auto simp: bc_settings_def only_touches_def)
  qed
  show ?thesis
  proof (cases "?n = 0 \<or> ?n > FLASH_OTA_APPLY_MAX_SIZE \<or> crc32 (bank_bytes F m (unat ?n)) = staged_image_crc32 cfg")
    case True
    then show ?thesis using assms(1,4,5) clear [of c]
      by (auto simp: flash_apply_pending_ota_image_def Let_def case_prod_unfold split: if_splits) (metis prod.collapse)+
  next
    case False
    then have le: "unat ?n \<le> 0x10000" by (simp add: not_less word_le_nat_alt)
    then have mx: "?n \<le> OTA_STAGE_MAX_IMAGE_SIZE" by (simp add: word_le_nat_alt)
    obtain sc c1 where r: "ota_stage_compute_crc X ?n c = (sc, c1)" by (cases "ota_stage_compute_crc X ?n c")
    have c1: "idle c1" "cells c1 = cells c" using ota_crc_of_stage [OF assms(1) mx] by (simp_all add: r)
    have fe: "OTA_STAGE_REGION_BASE + unat ?n \<le> FLASH_END" using le by simp
    obtain img c2 where rs: "read_stage X OTA_STAGE_REGION_BASE (unat ?n) c1 = (img, c2)"
      by (cases "read_stage X OTA_STAGE_REGION_BASE (unat ?n) c1")
    have c2: "idle c2" "cells c2 = cells c" using read_stage_spec(2,3) [OF c1(1) fe] c1(2) by (simp_all add: rs)
    have "\<exists>d rc0. d \<in> {c1, c2} \<and> ota_stage_clear_pending X cfg d = (rc0, cfg', c')"
      using assms(4,5) False
      by (auto simp: flash_apply_pending_ota_image_def Let_def r rs split: if_splits overwrite.splits prod.splits; blast)
    then show ?thesis using clear c1 c2 by blast
  qed
qed

lemma boot_logs_inv:
  assumes "completes X idle" "idle (p_chip st)" "bc_synced (p_cfg st) (cells (p_chip st))"
    and "cal_synced (p_cal st) (cells (p_chip st))" "al_inv (p_auth st)" "o_session_id (p_ota st) = 0"
  shows "persist_inv cells idle (boot_logs X cause boots st)"
    "p_cfg (boot_logs X cause boots st) = p_cfg st" "p_frames (boot_logs X cause boots st) = p_frames st"
    "p_ota (boot_logs X cause boots st) = p_ota st"
proof -
  obtain ev c1 where e: "event_log_init X (p_events st) (p_chip st) = (ev, c1)" by (cases "event_log_init X (p_events st) (p_chip st)")
  note l1 = log_inits_ok(1-3) [OF assms(2), of "p_events st", unfolded e fst_conv snd_conv]
  obtain ses c2 where s: "session_log_init X (p_sessions st) c1 = (ses, c2)" by (cases "session_log_init X (p_sessions st) c1")
  note l2 = log_inits_ok(4-6) [OF l1(1), of "p_sessions st", unfolded s fst_conv snd_conv]
  obtain rc cr c3 where cs: "crash_state_boot_increment X cause (p_crash st) c2 = (rc, cr, c3)"
    by (cases "crash_state_boot_increment X cause (p_crash st) c2")
  note b = cs_boot [OF l2(1) assms(1) cs] and t = cs_boot_touches [OF l2(1) assms(1) cs]
  have run: "boot_logs X cause boots st =
      st\<lparr>p_crash := cr, p_events := ev\<lparr>s_boot_count := ucast boots\<rparr>, p_sessions := ses\<lparr>s_boot_count := ucast boots\<rparr>, p_chip := c3\<rparr>"
    by (simp add: boot_logs_def e s cs Let_def event_log_set_boot_count_def session_log_set_boot_count_def)
  have mem: "cells c2 = cells (p_chip st)" using l1(2) l2(2) by simp
  have "bc_synced (p_cfg st) (cells c3)" "cal_synced (p_cal st) (cells c3)"
    using keeps_bc [OF t] keeps_cal [OF t] assms(3,4) mem by simp_all
  then show "persist_inv cells idle (boot_logs X cause boots st)"
    using b(2,3) l1(3) l2(3) assms(5,6) unfolding run
    by (auto simp: persist_inv_def Let_def ota_ok_def ota_in_session_def)
  show "p_cfg (boot_logs X cause boots st) = p_cfg st" "p_frames (boot_logs X cause boots st) = p_frames st"
    "p_ota (boot_logs X cause boots st) = p_ota st" by (simp_all add: run)
qed

lemma stage_cells_touches:
  assumes "only_touches cells S c c'" "S \<inter> stage_sectors = {}" "n \<le> OTA_STAGE_REGION_SIZE"
  shows "stage_cells (cells c') n = stage_cells (cells c) n"
proof -
  have "cells c' x = cells c x" if "OTA_STAGE_REGION_BASE \<le> x" "x < OTA_STAGE_REGION_BASE + n" for x
  proof -
    have "x div 4096 \<in> stage_sectors" using that assms(3) by (intro stage_sector) simp_all
    then show ?thesis using assms(1,2) by (auto simp: only_touches_def)
  qed
  then show ?thesis by (simp add: stage_cells_def)
qed

text \<open>The three outcomes of a boot.\<close>

lemma boot_spec:
  assumes "completes X idle" "w25q_init X c = (0, jid, c0)" "idle c0" "al_flash_ok (cells c0)" "fmc_ok F"
  shows "case persist_boot X F cause c m of
      BOOT_RUNS st m' \<Rightarrow> m' = m \<and> persist_inv cells idle st \<and> pending_ota_flag (p_cfg st) = 0 \<and> p_frames st = [] \<and>
        \<not> ota_in_session (p_ota st)
    | BOOT_RESETS c' m' \<Rightarrow> (\<exists>r. bc_in_flash (cells c0) = Some r \<and> pending_ota_flag r \<noteq> 0 \<and>
        bank_bytes F m' (unat (staged_image_size r)) = stage_cells (cells c0) (unat (staged_image_size r)) \<and>
        crc32 (bank_bytes F m' (unat (staged_image_size r))) = staged_image_crc32 r)
    | BOOT_HALTS c' m' \<Rightarrow> (\<exists>r. bc_in_flash (cells c0) = Some r \<and> pending_ota_flag r \<noteq> 0)"
proof -
  obtain boots c1 where b1: "boot_count_increment X c0 = (boots, c1)" by (cases "boot_count_increment X c0")
  have i1: "idle c1" "only_touches cells {76} c0 c1"
    using boot_count_spec(2) [OF assms(3,1)] boot_count_touches [OF assms(3,1)] by (simp_all add: b1)
  obtain rc2 cfg c2 where b2: "boot_config_load X bc_zero c1 = (rc2, cfg, c2)" by (cases "boot_config_load X bc_zero c1")
  note l2 = bc_load_ok [OF i1(1) assms(1) b2]
  obtain rc3 cal c3 where b3: "calibration_load X cal_mod_reset c2 = (rc3, cal, c3)" by (cases "calibration_load X cal_mod_reset c2")
  have l3: "idle c3 \<and> cal_synced cal (cells c3) \<and> only_touches cells cal_sectors c2 c3"
    using cal_load_ok [OF _ assms(1) b3] l2 by simp
  have al3: "al_flash_ok (cells c3)"
    using assms(4) al.in_flash_touches [OF i1(2)] al.in_flash_touches [of bc_sectors c1 c2] al.in_flash_touches [of cal_sectors c2 c3] l2 l3
    by (simp add: al_flash_ok_def)
  obtain rc4 auth c4 where b4: "rfid_authlist_load X al_zero c3 = (rc4, auth, c4)" by (cases "rfid_authlist_load X al_zero c3")
  have l4: "idle c4 \<and> al_synced auth (cells c4) \<and> only_touches cells {5, 6} c3 c4"
    using al_load_ok [OF _ assms(1) al3 b4] l3 by simp
  define st where "st = (boot_reset c0)\<lparr>p_cfg := cfg, p_cal := cal, p_auth := auth, p_chip := c4\<rparr>"
  have st: "p_chip st = c4" "p_cfg st = cfg" "p_cal st = cal" "p_auth st = auth" "p_frames st = []" "o_session_id (p_ota st) = 0"
    by (simp_all add: st_def boot_reset_def ota_session_reset_def)
  have inv4: "bc_synced cfg (cells c4)" "cal_synced cal (cells c4)" "al_inv auth"
    using l2 l3 l4 keeps_bc [of cal_sectors c2 c3 cfg] keeps_bc [of "{5, 6}" c3 c4 cfg] keeps_cal [of "{5, 6}" c3 c4 cal]
    by (simp_all add: al_synced_def)
  have init: "p_cfg (boot_reset c0) = bc_zero" "p_cal (boot_reset c0) = cal_mod_reset" "p_auth (boot_reset c0) = al_zero"
    by (simp_all add: boot_reset_def)
  have run: "persist_boot X F cause c m =
      (if pending_ota_flag cfg = 0 then BOOT_RUNS (boot_logs X cause boots st) m
       else case flash_apply_pending_ota_image X F cfg c4 m of
              (APPLY_RC _, cfg', c5, m') \<Rightarrow> BOOT_RUNS (boot_logs X cause boots (st\<lparr>p_cfg := cfg', p_chip := c5\<rparr>)) m'
            | (APPLY_RESET, _, c5, m') \<Rightarrow> BOOT_RESETS c5 m'
            | (APPLY_HALT, _, c5, m') \<Rightarrow> BOOT_HALTS c5 m')"
    unfolding persist_boot_def assms(2) Let_def prod.case b1 init b2 b3 b4 st_def [symmetric] by simp
  show ?thesis
  proof (cases "pending_ota_flag cfg = 0")
    case True
    have "idle c4" using l4 by simp
    then show ?thesis using boot_logs_inv [of st cause boots] st inv4 True assms(1) by (simp add: run ota_in_session_def)
  next
    case False
    have fl: "\<exists>r. bc_in_flash (cells c0) = Some r \<and> bc_settings cfg = bc_settings r"
    proof -
      have "bc_in_flash (cells c1) = bc_in_flash (cells c0)" using bc.in_flash_touches [OF i1(2)] by simp
      moreover have "pending_ota_flag bc_zero = 0" by (simp add: bc_zero_def bc_of_bytes_def)
      ultimately show ?thesis using l2 False by (cases "bc_in_flash (cells c0)") (auto simp: bc_settings_def)
    qed
    obtain res cfg' c5 m' where ap: "flash_apply_pending_ota_image X F cfg c4 m = (res, cfg', c5, m')"
      by (cases "flash_apply_pending_ota_image X F cfg c4 m")
    have "idle c4" using l4 by simp
    note sp = apply_spec [OF this assms(5) ap]
    show ?thesis
    proof (cases res)
      case (APPLY_RC rc)
      note rt = apply_returns [OF \<open>idle c4\<close> assms(1) inv4(1) False ap [unfolded APPLY_RC]]
      let ?st = "st\<lparr>p_cfg := cfg', p_chip := c5\<rparr>"
      have "cal_synced cal (cells c5)" using keeps_cal [of bc_sectors c4 c5 cal] rt inv4(2) by simp
      then show ?thesis
        using boot_logs_inv [of ?st cause boots] st inv4(3) rt assms(1) sp False by (simp add: run ap APPLY_RC ota_in_session_def)
    next
      case APPLY_RESET
      obtain r where r: "bc_in_flash (cells c0) = Some r" "bc_settings cfg = bc_settings r" using fl by blast
      have f: "pending_ota_flag r = pending_ota_flag cfg" "staged_image_size r = staged_image_size cfg"
        "staged_image_crc32 r = staged_image_crc32 cfg" using r(2) by (simp_all add: bc_settings_def)
      show ?thesis
      proof (cases "unat (staged_image_size cfg) \<le> OTA_STAGE_REGION_SIZE")
        case True
        have "stage_cells (cells c4) (unat (staged_image_size cfg)) = stage_cells (cells c0) (unat (staged_image_size cfg))"
          using stage_cells_touches [OF i1(2) _ True] stage_cells_touches [of bc_sectors c1 c2, OF _ _ True]
            stage_cells_touches [of cal_sectors c2 c3, OF _ _ True] stage_cells_touches [of "{5, 6}" c3 c4, OF _ _ True] l2 l3 l4
          by simp
        then show ?thesis using sp False r f by (auto simp: run ap APPLY_RESET)
      next
        case big: False
        then have "staged_image_size cfg > FLASH_OTA_APPLY_MAX_SIZE" by (simp add: word_less_nat_alt)
        then have "\<exists>rc0 cf d. flash_apply_pending_ota_image X F cfg c4 m = (APPLY_RC rc0, cf, d, m)"
          using False by (auto simp: flash_apply_pending_ota_image_def Let_def case_prod_unfold)
        then show ?thesis using ap by (simp add: APPLY_RESET)
      qed
    next
      case APPLY_HALT
      then show ?thesis using fl False by (auto simp: run ap bc_settings_def)
    qed
  qed
qed

text \<open>A device without a pending mark boots through.\<close>

lemma boot_runs:
  assumes "completes X idle" "w25q_init X c = (0, jid, c0)" "idle c0"
    and "case bc_in_flash (cells c0) of None \<Rightarrow> True | Some r \<Rightarrow> pending_ota_flag r = 0"
  shows "\<exists>st. persist_boot X F cause c m = BOOT_RUNS st m"
proof -
  obtain boots c1 where b1: "boot_count_increment X c0 = (boots, c1)" by (cases "boot_count_increment X c0")
  have i1: "idle c1" "only_touches cells {76} c0 c1"
    using boot_count_spec(2) [OF assms(3,1)] boot_count_touches [OF assms(3,1)] by (simp_all add: b1)
  obtain rc2 cfg c2 where b2: "boot_config_load X bc_zero c1 = (rc2, cfg, c2)" by (cases "boot_config_load X bc_zero c1")
  have "bc_in_flash (cells c1) = bc_in_flash (cells c0)" using bc.in_flash_touches [OF i1(2)] by simp
  moreover have "pending_ota_flag bc_zero = 0" by (simp add: bc_zero_def bc_of_bytes_def)
  ultimately have "pending_ota_flag cfg = 0"
    using bc_load_ok [OF i1(1) assms(1) b2] assms(4) by (cases "bc_in_flash (cells c0)") (auto simp: bc_settings_def)
  then show ?thesis using b2 by (simp add: persist_boot_def assms(2) b1 Let_def boot_reset_def case_prod_unfold)
qed

end

end
