(* ===== verification/Persist_Runs.thy ===== *)
theory Persist_Runs
  imports Persist_Boot
begin

text \<open>
  Sequences of operations on the list of cards and on the event log, over a device that completes its
  operations: the list implements an abstract list of cards, the log keeps what was appended, and a
  restart finds the place of the newest record again.
\<close>

section \<open>The list of cards as an abstract list\<close>

datatype al_change = AL_ADD u32 | AL_REMOVE u32 | AL_CLEAR

fun al_apply :: "'c spi \<Rightarrow> al_change \<Rightarrow> rfid_authlist_record \<times> 'c \<Rightarrow> rfid_authlist_record \<times> 'c" where
  "al_apply X (AL_ADD uid) (r, c) = snd (rfid_authlist_add X uid r c)"
| "al_apply X (AL_REMOVE uid) (r, c) = snd (rfid_authlist_remove X uid r c)"
| "al_apply X AL_CLEAR (r, c) = snd (rfid_authlist_clear X r c)"

text \<open>Cards in the order they were added; the null card, known cards and a 29th card are ignored.\<close>

fun al_spec :: "al_change \<Rightarrow> u32 list \<Rightarrow> u32 list" where
  "al_spec (AL_ADD uid) xs = (if uid = 0 \<or> uid \<in> set xs \<or> 28 \<le> length xs then xs else xs @ [uid])"
| "al_spec (AL_REMOVE uid) xs = remove1 uid xs"
| "al_spec AL_CLEAR xs = []"

context w25q_chip
begin

lemma al_apply_step:
  assumes "idle c" "completes X idle" "al_synced r (cells c)" "al_apply X ch (r, c) = (r', c')"
  shows "idle c' \<and> al_synced r' (cells c') \<and> al_list r' = al_spec ch (al_list r)"
proof -
  have inv: "al_inv r" using assms(3) by (simp add: al_synced_def)
  show ?thesis
  proof (cases ch)
    case (AL_ADD uid)
    obtain rc where st: "rfid_authlist_add X uid r c = (rc, r', c')"
      using assms(4) AL_ADD by (cases "rfid_authlist_add X uid r c") simp
    note sp = al_add_spec [OF assms(1) inv st]
    show ?thesis
    proof (cases "uid = 0 \<or> uid \<in> al_tags r \<or> 28 \<le> length (al_list r)")
      case True
      then have "r' = r \<and> c' = c"
        using st contains_iff [OF inv, of uid] al_list_nth(1) [OF inv]
        by (auto simp: rfid_authlist_add_def word_le_nat_alt split: if_splits)
      then show ?thesis using True assms(1,3) AL_ADD by (auto simp: al_tags_def)
    next
      case False
      then have n: "unat (al_count r) < 28" using al_list_nth(1) [OF inv] by simp
      have "uid \<noteq> 0" "uid \<notin> al_tags r" using False by simp_all
      note push = al_push(1) [OF inv this n]
      have "rc = 1" using sp(2) False al_store_completes [OF assms(1) push assms(2)] by simp
      then show ?thesis using sp(3) False AL_ADD by (simp add: al_tags_def)
    qed
  next
    case (AL_REMOVE uid)
    obtain rc where st: "rfid_authlist_remove X uid r c = (rc, r', c')"
      using assms(4) AL_REMOVE by (cases "rfid_authlist_remove X uid r c") simp
    note sp = al_remove_spec [OF assms(1) inv st]
    have "rc = 0 \<and> r' = r \<and> c' = c \<or> rc = 1"
      using st al_pull(1) [OF inv, of uid] al_store_completes [OF assms(1) _ assms(2)]
      by (auto simp: rfid_authlist_remove_def Let_def split: if_splits option.splits prod.splits) (metis fst_conv less_irrefl)+
    then show ?thesis using sp(2,3) assms(1,3) AL_REMOVE by auto
  next
    case AL_CLEAR
    obtain rc where st: "rfid_authlist_clear X r c = (rc, r', c')"
      using assms(4) AL_CLEAR by (cases "rfid_authlist_clear X r c") simp
    note sp = al_clear_spec [OF assms(1,3) st]
    have "al_inv (r\<lparr>al_count := 0\<rparr>)" using inv by (simp add: al_inv_def al_wf_def al_list_def al_tags_def)
    then have "rc = 0" using st al_store_completes [OF assms(1) _ assms(2), of "r\<lparr>al_count := 0\<rparr>"]
      by (auto simp: rfid_authlist_clear_def split: if_splits)
    then show ?thesis using sp(2,3) AL_CLEAR by simp
  qed
qed

lemma al_apply_run:
  assumes "completes X idle"
  shows "idle c \<Longrightarrow> al_synced r (cells c) \<Longrightarrow> fold (al_apply X) chs (r, c) = (r', c') \<Longrightarrow>
    idle c' \<and> al_synced r' (cells c') \<and> al_list r' = fold al_spec chs (al_list r)"
proof (induction chs arbitrary: r c)
  case (Cons ch chs)
  obtain r1 c1 where st: "al_apply X ch (r, c) = (r1, c1)" by (cases "al_apply X ch (r, c)")
  show ?case using al_apply_step [OF Cons.prems(1) assms Cons.prems(2) st] Cons.IH [of c1 r1] Cons.prems(3)
    by (simp add: st)
qed simp

end

section \<open>Appends to the event log\<close>

context w25q_chip
begin

lemma event_append_ok:
  assumes "idle c" "completes X idle" "s_initialized m" "length (ev_reserved r) = 10"
    and "log_inv (cells c) EVENT_LOG_BASE EVENT_LOG_SECTORS (s_head_slot m)" "k + 128 \<le> EVENT_LOG_SECTORS * 128"
    and "event_log_append X r m c = (rc, m', c')"
  shows "rc = 0" "idle c'" "s_initialized m'" "s_boot_count m' = s_boot_count m"
    "log_inv (cells c') EVENT_LOG_BASE EVENT_LOG_SECTORS (s_head_slot m')"
    "recent (cells c') EVENT_LOG_BASE (EVENT_LOG_SECTORS * 128) (s_head_slot m') (Suc k) =
      event_bytes (event_stamp (s_boot_count m) r) # recent (cells c) EVENT_LOG_BASE (EVENT_LOG_SECTORS * 128) (s_head_slot m) k"
    "i \<noteq> s_head_slot m \<Longrightarrow>
      slot_bytes (cells c') EVENT_LOG_BASE i = slot_bytes (cells c) EVENT_LOG_BASE i \<or> all_ff (slot_bytes (cells c') EVENT_LOG_BASE i)"
    "s_head_slot m' = (s_head_slot m + 1) mod (EVENT_LOG_SECTORS * 128)"
    "slot_bytes (cells c') EVENT_LOG_BASE (s_head_slot m) = event_bytes (event_stamp (s_boot_count m) r)"
proof -
  let ?bs = "event_bytes (event_stamp (s_boot_count m) r)" and ?h = "s_head_slot m"
  note st = event_stamp_facts [OF assms(4), of "s_boot_count m"]
  obtain rc0 h c0 where w: "log_write X EVENT_LOG_BASE EVENT_LOG_SECTORS ?bs ?h c = (rc0, h, c0)"
    by (cases "log_write X EVENT_LOG_BASE EVENT_LOG_SECTORS ?bs ?h c")
  have run: "rc = rc0" "m' = m\<lparr>s_head_slot := h\<rparr>" "c' = c0"
    using assms(3,7) w by (simp_all add: event_log_append_def)
  have hd: "?h < EVENT_LOG_SECTORS * 128" using assms(5) by (simp add: log_inv_def)
  have rc: "rc0 = 0" using log_write_ok [OF assms(1) log_regions(1) hd st(1) assms(2) w] by simp
  note w = w [unfolded rc]
  note ws = write_spec [OF assms(1) log_regions(1) assms(5) st(1) w]
  show "rc = 0" "idle c'" "s_initialized m'" "s_boot_count m' = s_boot_count m"
    using rc ws(3) assms(3) by (simp_all add: run)
  show "log_inv (cells c') EVENT_LOG_BASE EVENT_LOG_SECTORS (s_head_slot m')"
    using write_inv [OF assms(1) log_regions(1) assms(5) st(1,2) w] by (simp add: run)
  show "recent (cells c') EVENT_LOG_BASE (EVENT_LOG_SECTORS * 128) (s_head_slot m') (Suc k) =
      ?bs # recent (cells c) EVENT_LOG_BASE (EVENT_LOG_SECTORS * 128) ?h k"
    using write_recent [OF assms(1) log_regions(1) assms(5) st(1) w assms(6)] by (simp add: run)
  show "s_head_slot m' = (?h + 1) mod (EVENT_LOG_SECTORS * 128)" "slot_bytes (cells c') EVENT_LOG_BASE ?h = ?bs"
    using ws(3) by (simp_all add: run)
  show "slot_bytes (cells c') EVENT_LOG_BASE i = slot_bytes (cells c) EVENT_LOG_BASE i \<or> all_ff (slot_bytes (cells c') EVENT_LOG_BASE i)"
    if ne: "i \<noteq> ?h"
  proof -
    consider "i div 128 \<noteq> ?h div 128 \<or> ?h mod 128 \<noteq> 0 \<and> i \<noteq> ?h" | "?h < i" "i div 128 = ?h div 128"
      | "i < ?h" "i div 128 = ?h div 128" "?h mod 128 = 0" using ne by (meson linorder_neqE_nat)
    then show ?thesis
    proof cases
      case 3
      then have "?h div 128 * 128 = ?h" by auto
      then have "i div 128 < ?h div 128" using 3(1) by (simp add: less_mult_imp_div_less)
      then show ?thesis using 3(2) by simp
    qed (use ws(3-5) in \<open>simp_all add: run\<close>)
  qed
qed

lemma read_newest:
  assumes "idle c" "j < EVENT_LOG_SECTORS * 128" "slot_bytes (cells c) EVENT_LOG_BASE j = event_bytes (event_stamp n r)"
    and "length (ev_reserved r) = 10" "event_log_read_nth X j c = (rc, r', c')"
  shows "rc = 0 \<and> r' = event_stamp n r \<and> idle c' \<and> cells c' = cells c"
proof -
  have fe: "slot_to_addr EVENT_LOG_BASE j + 32 \<le> FLASH_END" using assms(2) by (simp add: slot_to_addr_def)
  have "fst (w25q_read X (slot_to_addr EVENT_LOG_BASE j) 32 c) = event_bytes (event_stamp n r)"
    using rd_data [OF assms(1) fe] assms(3) by (simp only: slot_bytes_def)
  then show ?thesis
    using assms(2,5) event_stamp_facts(3,4) [OF assms(4), of n] rd_idle [OF assms(1) fe] rd_keeps [OF assms(1) fe]
    by (auto simp: event_log_read_nth_def log_read_nth_def case_prod_unfold Let_def)
qed

end

definition event_appends :: "'c spi \<Rightarrow> event_record list \<Rightarrow> log_mod \<times> 'c \<Rightarrow> log_mod \<times> 'c" where
  "event_appends X rs = fold (\<lambda>r (m, c). snd (event_log_append X r m c)) rs"

definition event_log_sound :: "(nat \<Rightarrow> u8) \<Rightarrow> log_mod \<Rightarrow> bool" where
  "event_log_sound mem m \<longleftrightarrow> s_initialized m \<and> log_inv mem EVENT_LOG_BASE EVENT_LOG_SECTORS (s_head_slot m)"

text \<open>Every record in the log is from an earlier boot, or from this one and in the list.\<close>

definition log_from :: "(nat \<Rightarrow> u8) \<Rightarrow> u16 \<Rightarrow> event_record list \<Rightarrow> bool" where
  "log_from mem n rs \<longleftrightarrow>
     (\<forall>i < EVENT_LOG_SECTORS * 128. classify_record (slot_bytes mem EVENT_LOG_BASE i) = LOG_VALID \<longrightarrow>
        fst (event_key (slot_bytes mem EVENT_LOG_BASE i)) < n \<or>
        slot_bytes mem EVENT_LOG_BASE i \<in> (\<lambda>r. event_bytes (event_stamp n r)) ` set rs)"

lemma valid_not_blank: "classify_record p = LOG_VALID \<Longrightarrow> \<not> all_ff p"
  by (auto simp: classify_record_def split: if_splits)

lemma event_key_stamp:
  "length (ev_reserved r) = 10 \<Longrightarrow> event_key (event_bytes (event_stamp n r)) = (n, ev_timestamp r)"
  using event_stamp_facts(4,5) [of r n] by (simp add: event_key_def) (simp add: event_stamp_def Let_def)

context w25q_chip
begin

lemma event_appends_ok:
  assumes "completes X idle"
  shows "idle c \<Longrightarrow> event_log_sound (cells c) m \<Longrightarrow> \<forall>r \<in> set rs. length (ev_reserved r) = 10 \<Longrightarrow>
    event_appends X rs (m, c) = (m', c') \<Longrightarrow>
    idle c' \<and> event_log_sound (cells c') m' \<and> s_boot_count m' = s_boot_count m \<and>
    (log_from (cells c) (s_boot_count m) qs \<longrightarrow> log_from (cells c') (s_boot_count m) (rs @ qs)) \<and>
    log_writes X EVENT_LOG_BASE EVENT_LOG_SECTORS (map (\<lambda>r. event_bytes (event_stamp (s_boot_count m) r)) rs) (s_head_slot m) c =
      Some (s_head_slot m', c')"
proof (induction rs arbitrary: m c qs)
  case Nil
  then show ?case by (simp add: event_appends_def)
next
  case (Cons r rs)
  obtain rc m1 c1 where st: "event_log_append X r m c = (rc, m1, c1)" by (cases "event_log_append X r m c")
  have wf: "length (ev_reserved r) = 10" using Cons.prems(3) by simp
  have snd: "s_initialized m" "log_inv (cells c) EVENT_LOG_BASE EVENT_LOG_SECTORS (s_head_slot m)"
    using Cons.prems(2) by (simp_all add: event_log_sound_def)
  note ok = event_append_ok [OF Cons.prems(1) assms snd(1) wf snd(2), of 0, OF _ st, simplified]
  have from1: "log_from (cells c1) (s_boot_count m) (r # qs)" if old: "log_from (cells c) (s_boot_count m) qs"
    unfolding log_from_def
  proof (intro allI impI)
    fix i assume "i < EVENT_LOG_SECTORS * 128" and v: "classify_record (slot_bytes (cells c1) EVENT_LOG_BASE i) = LOG_VALID"
    then show "fst (event_key (slot_bytes (cells c1) EVENT_LOG_BASE i)) < s_boot_count m \<or>
        slot_bytes (cells c1) EVENT_LOG_BASE i \<in> (\<lambda>r. event_bytes (event_stamp (s_boot_count m) r)) ` set (r # qs)"
      using ok(7) [of i] ok(9) old valid_not_blank [OF v] by (cases "i = s_head_slot m") (auto simp: log_from_def)
  qed
  obtain h where w: "log_write X EVENT_LOG_BASE EVENT_LOG_SECTORS (event_bytes (event_stamp (s_boot_count m) r)) (s_head_slot m) c = (rc, h, c1)"
      "m1 = m\<lparr>s_head_slot := h\<rparr>"
    using st snd(1) by (auto simp: event_log_append_def Let_def split: prod.splits)
  have rest: "event_appends X rs (m1, c1) = (m', c')" using Cons.prems(4) by (simp add: event_appends_def st)
  show ?case
    using Cons.IH [OF ok(2) _ _ rest, of "r # qs"] ok(1,3-5) from1 Cons.prems(3) w
    by (simp add: event_log_sound_def log_from_def) 
qed

text \<open>After a restart the head is found again, if the last record is the newest.\<close>

lemma event_init_recovers:
  assumes "completes X idle" "idle c" "event_log_sound (cells c) m" "length (ev_reserved r) = 10"
    and "event_log_append X r m c = (rc, m', c')"
    and "\<And>i. i < EVENT_LOG_SECTORS * 128 \<Longrightarrow> classify_record (slot_bytes (cells c) EVENT_LOG_BASE i) = LOG_VALID \<Longrightarrow>
      key_le (event_key (slot_bytes (cells c) EVENT_LOG_BASE i)) (s_boot_count m, ev_timestamp r) \<and>
      event_key (slot_bytes (cells c) EVENT_LOG_BASE i) \<noteq> (s_boot_count m, ev_timestamp r)"
  shows "s_head_slot (fst (event_log_init X m0 c')) = s_head_slot m'"
proof -
  let ?T = "EVENT_LOG_SECTORS * 128" and ?h = "s_head_slot m"
  have snd: "s_initialized m" "log_inv (cells c) EVENT_LOG_BASE EVENT_LOG_SECTORS ?h"
    using assms(3) by (simp_all add: event_log_sound_def)
  note ok = event_append_ok [OF assms(2,1) snd(1) assms(4) snd(2), of 0, OF _ assms(5), simplified]
  have h: "?h < ?T" using snd(2) by (simp add: log_inv_def)
  have h': "s_head_slot m' < ?T" using ok(8) by simp
  have j: "(s_head_slot m' + ?T - 1) mod ?T = ?h"
    using behind_step [OF h, of 0] ok(8) h by simp
  have nk: "event_key (slot_bytes (cells c') EVENT_LOG_BASE ?h) = (s_boot_count m, ev_timestamp r)"
    unfolding ok(9) by (rule event_key_stamp [OF assms(4)])
  have "fst (log_init X EVENT_LOG_BASE EVENT_LOG_SECTORS event_key c') = s_head_slot m'"
  proof (rule init_recovers [OF ok(2) log_regions(1) h'])
    show "classify_record (slot_bytes (cells c') EVENT_LOG_BASE ((s_head_slot m' + ?T - 1) mod ?T)) = LOG_VALID"
      unfolding j ok(9) by (rule event_stamp_facts(3) [OF assms(4)])
    fix i assume i: "i < ?T" and v: "classify_record (slot_bytes (cells c') EVENT_LOG_BASE i) = LOG_VALID"
    show "key_le (event_key (slot_bytes (cells c') EVENT_LOG_BASE i))
        (event_key (slot_bytes (cells c') EVENT_LOG_BASE ((s_head_slot m' + ?T - 1) mod ?T))) \<and>
      ((s_head_slot m' + ?T - 1) mod ?T < i \<longrightarrow> event_key (slot_bytes (cells c') EVENT_LOG_BASE i) \<noteq>
        event_key (slot_bytes (cells c') EVENT_LOG_BASE ((s_head_slot m' + ?T - 1) mod ?T)))"
    proof (cases "i = ?h")
      case True
      then show ?thesis unfolding j by (simp add: key_le_def)
    next
      case False
      then have "slot_bytes (cells c') EVENT_LOG_BASE i = slot_bytes (cells c) EVENT_LOG_BASE i"
        using ok(7) valid_not_blank [OF v] by blast
      then show ?thesis using assms(6) [OF i] v unfolding j nk by simp
    qed
  qed
  then show ?thesis by (simp add: event_log_init_def case_prod_unfold Let_def)
qed

end

end
