(* ===== verification/W25q_Device.thy ===== *)
theory W25q_Device
  imports W25q
begin

text \<open>
  A device that behaves as the data sheet says: the content of the array, the write enable latch and
  the number of status reads for which it still answers busy. It shows that the laws of \<open>w25q_chip\<close>
  can hold; nothing else of the development depends on it.
\<close>

record device =
  array :: "nat \<Rightarrow> u8"
  latch :: bool
  busy :: nat

fun addr_of :: "u8 list \<Rightarrow> nat" where
  "addr_of (h # m # l # _) = unat h * 65536 + unat m * 256 + unat l"
| "addr_of _ = 0"

definition dev_erase :: "nat \<Rightarrow> device \<Rightarrow> device" where
  "dev_erase a d = d\<lparr>array := (\<lambda>x. if x div 4096 = a div 4096 then 0xFF else array d x), latch := False, busy := 3\<rparr>"

definition dev_program :: "nat \<Rightarrow> u8 list \<Rightarrow> device \<Rightarrow> device" where
  "dev_program a bs d = d\<lparr>array := (\<lambda>x. if a \<le> x \<and> x < a + length bs then array d x AND bs ! (x - a) else array d x),
     latch := False, busy := 1\<rparr>"

fun dev_spi :: "device spi" where
  "dev_spi [] d = ([], d)"
| "dev_spi (op # args) d =
     (if op = W25Q_CMD_READ_STATUS_1
      then ([0xFF, if busy d = 0 then 0 else 1], d\<lparr>busy := busy d - 1\<rparr>)
      else if busy d \<noteq> 0 then (replicate (Suc (length args)) 0xFF, d)
      else if op = W25Q_CMD_READ_JEDEC then ([0xFF, 0xC8, 0x40, 0x17], d)
      else if op = W25Q_CMD_WRITE_ENABLE then ([0xFF], d\<lparr>latch := True\<rparr>)
      else if op = W25Q_CMD_READ_DATA
      then (replicate 4 0xFF @ map (array d) [addr_of args ..< addr_of args + length (drop 3 args)], d)
      else if op = W25Q_CMD_SECTOR_ERASE \<and> latch d
      then (replicate 4 0xFF, dev_erase (addr_of args) d)
      else if op = W25Q_CMD_PAGE_PROGRAM \<and> latch d
      then (replicate (Suc (length args)) 0xFF, dev_program (addr_of args) (drop 3 args) d)
      else (replicate (Suc (length args)) 0xFF, d))"

definition dev_idle :: "device \<Rightarrow> bool" where
  "dev_idle d \<longleftrightarrow> busy d = 0"

lemma unat_u8: "unat (of_nat a :: u8) = a mod 256"
  by (simp add: unat_of_nat)

lemma three_digits:
  fixes a :: nat
  shows "a div 65536 * 65536 + a div 256 mod 256 * 256 + a mod 256 = a"
proof -
  have "a div 256 div 256 = a div 65536" by (simp add: div_mult2_eq [symmetric])
  moreover have "a div 256 * 256 + a mod 256 = a" by simp
  moreover have "a div 256 div 256 * 256 + a div 256 mod 256 = a div 256" by (rule div_mult_mod_eq)
  ultimately show ?thesis by linarith
qed

lemma addr_of_bytes: "a < FLASH_END \<Longrightarrow> addr_of (addr_bytes a @ xs) = a"
proof -
  assume "a < FLASH_END"
  then have "a div 65536 < 256" by simp
  then show ?thesis using three_digits [of a] unfolding addr_bytes_def by (simp add: unat_u8)
qed

lemma length_addr_bytes: "length (addr_bytes a) = 3"
  by (simp add: addr_bytes_def)

lemma dev_status: "read_status1 dev_spi d = (if busy d = 0 then 0 else 1, d\<lparr>busy := busy d - 1\<rparr>)"
  by (simp add: read_status1_def)

lemma dev_polls: "polls dev_spi k d = d\<lparr>busy := busy d - k\<rparr>"
  by (induction k) (simp_all add: dev_status)

lemma dev_ready: "ready dev_spi d \<longleftrightarrow> busy d = 0"
  by (simp add: ready_def dev_status)

lemma dev_erase_cmd:
  "dev_idle d \<Longrightarrow> latch d \<Longrightarrow> a < FLASH_END \<Longrightarrow>
   snd (dev_spi (W25Q_CMD_SECTOR_ERASE # addr_bytes a) d) = dev_erase a d"
  using addr_of_bytes [of a "[]"] by (simp add: dev_idle_def)

lemma dev_program_cmd:
  "dev_idle d \<Longrightarrow> latch d \<Longrightarrow> a < FLASH_END \<Longrightarrow>
   snd (dev_spi (W25Q_CMD_PAGE_PROGRAM # addr_bytes a @ bs) d) = dev_program a bs d"
  using addr_of_bytes [of a bs] by (simp add: dev_idle_def length_addr_bytes)

lemma dev_read_cmd:
  "dev_idle d \<Longrightarrow> a < FLASH_END \<Longrightarrow>
   dev_spi (W25Q_CMD_READ_DATA # addr_bytes a @ replicate n 0xFF) d =
     (replicate 4 0xFF @ map (array d) [a ..< a + n], d)"
  using addr_of_bytes [of a "replicate n 0xFF"] by (simp add: dev_idle_def length_addr_bytes del: dev_spi.simps(1))

lemma dev_read_none: "snd (dev_spi (W25Q_CMD_READ_DATA # args) d) = d"
  by simp

lemma dev_read_empty:
  "dev_idle d \<Longrightarrow> drop 4 (fst (dev_spi (W25Q_CMD_READ_DATA # addr_bytes a) d)) = []"
  by (simp add: dev_idle_def length_addr_bytes)

interpretation device: w25q_chip dev_spi array dev_idle latch
proof
  fix c a n assume i: "dev_idle c" and b: "a + n \<le> FLASH_END"
  show "drop 4 (fst (dev_spi ([W25Q_CMD_READ_DATA] @ addr_bytes a @ replicate n 0xFF) c)) = map (array c) [a ..< a + n]"
    using dev_read_cmd [OF i, of a n] dev_read_empty [OF i, of a] b
    by (cases "n = 0") (simp_all del: dev_spi.simps)
  show "dev_idle (snd (dev_spi ([W25Q_CMD_READ_DATA] @ addr_bytes a @ replicate n 0xFF) c)) \<and>
      array (snd (dev_spi ([W25Q_CMD_READ_DATA] @ addr_bytes a @ replicate n 0xFF) c)) = array c"
    using i dev_read_none by (simp del: dev_spi.simps)
next
  fix c assume "dev_idle c"
  then show "latch (snd (dev_spi [W25Q_CMD_WRITE_ENABLE] c)) \<and> dev_idle (snd (dev_spi [W25Q_CMD_WRITE_ENABLE] c)) \<and>
      array (snd (dev_spi [W25Q_CMD_WRITE_ENABLE] c)) = array c"
    by (simp add: dev_idle_def)
next
  fix c and a x k :: nat assume d: "dev_idle c" "latch c" "a < FLASH_END" and x: "x div 4096 \<noteq> a div 4096"
  then show "array (polls dev_spi k (snd (dev_spi ([W25Q_CMD_SECTOR_ERASE] @ addr_bytes a) c))) x = array c x"
    by (simp add: dev_polls dev_erase_cmd dev_erase_def del: dev_spi.simps)
next
  fix c and a k :: nat assume d: "dev_idle c" "latch c" "a < FLASH_END"
    and r: "ready dev_spi (polls dev_spi k (snd (dev_spi ([W25Q_CMD_SECTOR_ERASE] @ addr_bytes a) c)))"
  then show "dev_idle (polls dev_spi (Suc k) (snd (dev_spi ([W25Q_CMD_SECTOR_ERASE] @ addr_bytes a) c))) \<and>
      (\<forall>x. x div 4096 = a div 4096 \<longrightarrow>
        array (polls dev_spi (Suc k) (snd (dev_spi ([W25Q_CMD_SECTOR_ERASE] @ addr_bytes a) c))) x = 0xFF)"
    by (simp add: dev_polls dev_erase_cmd dev_erase_def dev_ready dev_idle_def del: dev_spi.simps polls.simps)
next
  fix c and a k x :: nat and bs :: "u8 list" assume d: "dev_idle c" "latch c" "a < FLASH_END" and x: "x < a \<or> a + length bs \<le> x"
  then show "array (polls dev_spi k (snd (dev_spi ([W25Q_CMD_PAGE_PROGRAM] @ addr_bytes a @ bs) c))) x = array c x"
    by (auto simp: dev_polls dev_program_cmd dev_program_def simp del: dev_spi.simps)
next
  fix c and a k :: nat and bs :: "u8 list" assume d: "dev_idle c" "latch c" "a < FLASH_END"
    and r: "ready dev_spi (polls dev_spi k (snd (dev_spi ([W25Q_CMD_PAGE_PROGRAM] @ addr_bytes a @ bs) c)))"
  then show "dev_idle (polls dev_spi (Suc k) (snd (dev_spi ([W25Q_CMD_PAGE_PROGRAM] @ addr_bytes a @ bs) c))) \<and>
      (\<forall>i < length bs. array (polls dev_spi (Suc k) (snd (dev_spi ([W25Q_CMD_PAGE_PROGRAM] @ addr_bytes a @ bs) c))) (a + i) =
        array c (a + i) AND bs ! i)"
    by (simp add: dev_polls dev_program_cmd dev_program_def dev_ready dev_idle_def del: dev_spi.simps polls.simps)
qed

end
