(* ===== verification/Persist_Spec.thy ===== *)
theory Persist_Spec
  imports Persist_Runs W25q_Device
begin

text \<open>
  Properties of the persistence of the charger: the record store, the crash counter, the list of
  cards, the event log, the firmware update and the boot. Each holds of every flash device that
  behaves as documented; the witnesses run on the device of \<open>W25q_Device\<close>.
\<close>

section \<open>The device of the witnesses\<close>

definition fresh :: device where
  "fresh = \<lparr>array = (\<lambda>_. 0xFF), latch = False, busy = 0\<rparr>"

lemma dev_wait: "busy d < n \<Longrightarrow> fst (wait_not_busy dev_spi n d) = 0"
proof (induction n arbitrary: d)
  case (Suc n)
  then show ?case by (auto simp: wait_not_busy.simps [of dev_spi "Suc n"] dev_status Let_def)
qed simp

lemma dev_enabled: "dev_idle d \<Longrightarrow> write_enable dev_spi d = d\<lparr>latch := True\<rparr>"
  by (simp add: write_enable_def dev_idle_def)

lemma dev_completes: "completes dev_spi dev_idle"
  unfolding completes_def
proof (intro conjI allI impI)
  fix t and d :: device assume "dev_idle d"
  then have "busy (snd (dev_spi ([W25Q_CMD_SECTOR_ERASE] @ addr_bytes t) (write_enable dev_spi d))) < ERASE_TIMEOUT_LOOPS"
    by (simp add: dev_enabled dev_idle_def dev_erase_def)
  from dev_wait [OF this] show "fst (w25q_erase_sector dev_spi t d) = 0" by (simp only: w25q_erase_sector_def)
next
  fix t and q :: "u8 list" and d :: device assume d: "dev_idle d" and q: "0 < length q" "length q \<le> 256"
  from d have "busy (snd (dev_spi ([W25Q_CMD_PAGE_PROGRAM] @ addr_bytes t @ q) (write_enable dev_spi d))) < PROGRAM_TIMEOUT_LOOPS"
    by (simp add: dev_enabled dev_idle_def dev_program_def)
  from dev_wait [OF this] show "fst (w25q_program dev_spi t q d) = 0" using q by (simp add: w25q_program_def)
qed

lemma fresh_facts: "dev_idle fresh" "array fresh = (\<lambda>_. 0xFF)"
  by (simp_all add: fresh_def dev_idle_def)

lemma fresh_slot: "12 \<le> n \<Longrightarrow> blank_invalid n \<Longrightarrow> slot_rec (array fresh) a n = None"
  by (rule slot_blank) (simp_all add: fresh_facts blank_at_def)

lemma fresh_current: "12 \<le> n \<Longrightarrow> blank_invalid n \<Longrightarrow> current (array fresh) a b n = None"
  by (simp add: current_def fresh_slot)

lemma fresh_records: "bc_in_flash (array fresh) = None" "al_in_flash (array fresh) = None" "cs_in_flash (array fresh) = None"
  by (simp_all add: in_flash_def fresh_current blank_invalid_32 blank_invalid_128)

lemma fresh_probe: "w25q_init dev_spi fresh = (0, 0xC84017, fresh)"
  by (simp add: w25q_init_def fresh_def Let_def)

section \<open>Records in slot pairs\<close>

text \<open>C21: a store of a record of 12 to 256 bytes on a device that completes its operations succeeds, a
  load afterwards returns the record with the next counter and its checksum stamped in, and the rest
  of the device is untouched.\<close>

lemma pingpong_store_load:
  assumes "w25q_chip X cells idle armed" "completes X idle" "idle c" "slots_ok a b"
    and "12 \<le> length r" "length r \<le> 256" "blank_invalid (length r)"
  shows "\<exists>s k c'. pingpong_store X a b r c = (PP_STORED s k, stamp k r, c') \<and>
    k = next_counter (current (cells c) a b (length r)) \<and>
    fst (pingpong_load X a b (length r) c') = PP_LOADED (stamp k r) s k \<and>
    (\<forall>x. x div 4096 \<noteq> a div 4096 \<longrightarrow> x div 4096 \<noteq> b div 4096 \<longrightarrow> cells c' x = cells c x)"
proof -
  from w25q_chip.store_succeeds [OF assms(1,3-7)] assms(2)
  obtain s k r' c' where st: "pingpong_store X a b r c = (PP_STORED s k, r', c')"
    unfolding completes_def by blast
  note sl = w25q_chip.store_load [OF assms(1,3-7) st] and fr = w25q_chip.store_frame [OF assms(1,3-6) st]
  show ?thesis using st sl fr by blast
qed

definition first_record :: "u8 list" where
  "first_record = replicate 32 0"

lemma pingpong_store_load_witness:
  "\<exists>s k c'. pingpong_store dev_spi BOOT_CONFIG_SLOT_A BOOT_CONFIG_SLOT_B first_record fresh = (PP_STORED s k, stamp k first_record, c') \<and>
    k = 1 \<and> fst (pingpong_load dev_spi BOOT_CONFIG_SLOT_A BOOT_CONFIG_SLOT_B 32 c') = PP_LOADED (stamp k first_record) s k"
proof -
  have len: "length first_record = 32" by (simp add: first_record_def)
  have "current (array fresh) BOOT_CONFIG_SLOT_A BOOT_CONFIG_SLOT_B 32 = None"
    by (simp add: fresh_current blank_invalid_32)
  then show ?thesis
    using pingpong_store_load [OF device.w25q_chip_axioms dev_completes fresh_facts(1) bc_codec.slots, of first_record]
    by (auto simp: len blank_invalid_32 next_counter_def)
qed

text \<open>C17: whatever goes wrong in a store (a device that never becomes ready again, a program that did
  not take, a failed clean-up), the pair keeps a valid record: the old one until the new one has been
  read back, the new one from then on.\<close>

lemma pingpong_never_loses:
  assumes "w25q_chip X cells idle armed" "idle c" "slots_ok a b" "12 \<le> length r" "length r \<le> 256"
    and "blank_invalid (length r)" "current (cells c) a b (length r) = Some (q, s)"
  shows "let (res, r', c') = pingpong_store X a b r c
    in case res of
         PP_STORED t k \<Rightarrow> t = 1 - s \<and> slot_rec (cells c') (slot_addr a b t) (length r) = Some r' \<and>
           slot_rec (cells c') (slot_addr a b s) (length r) = None
       | PP_FAIL rc \<Rightarrow> rc \<in> {-2, -3, -5, -6} \<and>
           (if rc = -6 then slot_rec (cells c') (slot_addr a b (1 - s)) (length r) = Some r'
            else slot_rec (cells c') (slot_addr a b s) (length r) = Some q)"
proof -
  obtain res r' c' where st: "pingpong_store X a b r c = (res, r', c')" by (cases "pingpong_store X a b r c")
  note sp = w25q_chip.store_spec [OF assms(1-6) st]
  have len: "length r' = length r" using sp(1) assms(4) by (simp add: length_stamp)
  have s: "s = 0 \<and> slot_rec (cells c) a (length r) = Some q \<or> s = 1 \<and> slot_rec (cells c) b (length r) = Some q"
    using current_slots [OF assms(7)] by simp
  then have addrs: "next_slot (Some (q, s)) = 1 - s" "slot_addr b a (1 - s) = slot_addr a b s"
    "slot_rec (cells c) (slot_addr a b s) (length r) = Some q"
    by (auto simp: next_slot_def slot_addr_def)
  show ?thesis using sp(2) unfolding store_post_def len assms(7) addrs(1) Let_def addrs(2) st prod.case
    by (auto simp: addrs(3) split: pp_store.splits if_splits)
qed

definition stored_once :: device where
  "stored_once = snd (snd (pingpong_store dev_spi BOOT_CONFIG_SLOT_A BOOT_CONFIG_SLOT_B first_record fresh))"

lemma stored_once_facts:
  "dev_idle stored_once" "current (array stored_once) BOOT_CONFIG_SLOT_A BOOT_CONFIG_SLOT_B 32 = Some (stamp 1 first_record, 0)"
proof -
  have len: "12 \<le> length first_record" "length first_record \<le> 256" "blank_invalid (length first_record)" "length first_record = 32"
    by (simp_all add: first_record_def blank_invalid_32)
  note at = fresh_facts(1) bc_codec.slots len(1-3)
  have "\<exists>s k r' c'. pingpong_store dev_spi BOOT_CONFIG_SLOT_A BOOT_CONFIG_SLOT_B first_record fresh = (PP_STORED s k, r', c')"
    by (rule w25q_chip.store_succeeds [OF device.w25q_chip_axioms at]) (use dev_completes in \<open>auto simp: completes_def\<close>)
  then obtain s k r' where st:
    "pingpong_store dev_spi BOOT_CONFIG_SLOT_A BOOT_CONFIG_SLOT_B first_record fresh = (PP_STORED s k, r', stored_once)"
    by (auto simp: stored_once_def)
  have none: "current (array fresh) BOOT_CONFIG_SLOT_A BOOT_CONFIG_SLOT_B 32 = None"
    by (simp add: fresh_current blank_invalid_32)
  note sl = w25q_chip.store_load [OF device.w25q_chip_axioms at st] and sp = w25q_chip.store_spec [OF device.w25q_chip_axioms at st]
  show "dev_idle stored_once" using sl(2) .
  have k: "k = 1" using sl(4) none by (simp add: len next_counter_def)
  have "length r' = 32" using sl(3) len by (simp add: length_stamp)
  then have "s = 0" using sp(2) none by (simp add: store_post_def next_slot_def Let_def)
  then show "current (array stored_once) BOOT_CONFIG_SLOT_A BOOT_CONFIG_SLOT_B 32 = Some (stamp 1 first_record, 0)"
    using sl(3,5) k by (simp add: len)
qed

lemma pingpong_never_loses_witness:
  "let (res, r', c') = pingpong_store dev_spi BOOT_CONFIG_SLOT_A BOOT_CONFIG_SLOT_B (replicate 32 7) stored_once
    in case res of
         PP_STORED t k \<Rightarrow> t = 1 - 0 \<and> slot_rec (array c') (slot_addr BOOT_CONFIG_SLOT_A BOOT_CONFIG_SLOT_B t) 32 = Some r' \<and>
           slot_rec (array c') (slot_addr BOOT_CONFIG_SLOT_A BOOT_CONFIG_SLOT_B 0) 32 = None
       | PP_FAIL rc \<Rightarrow> rc \<in> {-2, -3, -5, -6} \<and>
           (if rc = -6 then slot_rec (array c') (slot_addr BOOT_CONFIG_SLOT_A BOOT_CONFIG_SLOT_B (1 - 0)) 32 = Some r'
            else slot_rec (array c') (slot_addr BOOT_CONFIG_SLOT_A BOOT_CONFIG_SLOT_B 0) 32 = Some (stamp 1 first_record))"
proof -
  have len: "length (replicate 32 (7 :: u8)) = 32" by simp
  show ?thesis
    using pingpong_never_loses [OF device.w25q_chip_axioms stored_once_facts(1) bc_codec.slots,
        of "replicate 32 7" "stamp 1 first_record" 0, unfolded len] stored_once_facts(2) blank_invalid_32 by simp
qed

section \<open>Crash loops\<close>

definition crash_boot :: "life_event \<Rightarrow> bool" where
  "crash_boot ev = (case ev of Boot cause \<Rightarrow> read_and_clear_reset_was_crash cause | Alive \<Rightarrow> False)"

text \<open>How many boots in a row, up to the last event, followed a crash.\<close>

definition crash_streak :: "life_event list \<Rightarrow> nat" where
  "crash_streak hist = length (takeWhile crash_boot (rev hist))"

lemma foldl_crash_count: "foldl crash_count 0 hist = min 255 (crash_streak hist)"
proof (induction hist rule: rev_induct)
  case (snoc ev hist)
  then show ?case by (cases ev) (auto simp: crash_streak_def crash_boot_def)
qed (simp add: crash_streak_def)

text \<open>C16: over any life of a charger that starts with an empty crash record, a sequence of boots, each
  from cleared RAM with the cause the hardware reports, and of marks that the firmware has come
  alive, the counter in flash is the number of boots in a row that followed a crash, saturating at
  255, and the safe-fail flag is set exactly from the fifth on.\<close>

lemma crash_loop_detected:
  assumes "w25q_chip X cells idle armed" "completes X idle" "idle c" "cs_in_flash (cells c) = None"
    and "fold (life_step X) (Boot cause # hist) (m0, c) = (m, c')"
  shows "cs_in_flash (cells c') = Some (s_cs m) \<and>
    unat (fast_restart_count (s_cs m)) = min 255 (crash_streak (Boot cause # hist)) \<and>
    (s_safe_fail m \<longleftrightarrow> 5 \<le> crash_streak (Boot cause # hist))"
proof -
  obtain rc m1 c1 where st: "crash_state_boot_increment X cause crash_mod_reset c = (rc, m1, c1)"
    by (cases "crash_state_boot_increment X cause crash_mod_reset c")
  note b = w25q_chip.cs_boot [OF assms(1,3,2) st]
  have "life_inv (cells c1) m1 (crash_count 0 (Boot cause))" using b(3) assms(4) by simp
  moreover have "fold (life_step X) hist (m1, c1) = (m, c')" using assms(5) st by simp
  ultimately have "life_inv (cells c') m (foldl crash_count (crash_count 0 (Boot cause)) hist)"
    using w25q_chip.cs_life [OF assms(1) b(2) assms(2)] by blast
  then have "life_inv (cells c') m (min 255 (crash_streak (Boot cause # hist)))"
    using foldl_crash_count [of "Boot cause # hist"] by simp
  then show ?thesis by (auto simp: life_inv_def)
qed

definition crash_life :: "life_event list" where
  "crash_life = [Alive, Boot RESET_CAUSE_POWER_ON] @ replicate 5 (Boot RESET_CAUSE_WATCHDOG)"

lemma crash_loop_detected_witness:
  "let (m, c') = fold (life_step dev_spi) (Boot RESET_CAUSE_POWER_ON # crash_life) (crash_mod_reset, fresh)
   in unat (fast_restart_count (s_cs m)) = 5 \<and> s_safe_fail m"
proof -
  obtain m c' where run: "fold (life_step dev_spi) (Boot RESET_CAUSE_POWER_ON # crash_life) (crash_mod_reset, fresh) = (m, c')"
    by (cases "fold (life_step dev_spi) (Boot RESET_CAUSE_POWER_ON # crash_life) (crash_mod_reset, fresh)")
  have "crash_streak (Boot RESET_CAUSE_POWER_ON # crash_life) = 5"
    by (simp add: crash_streak_def crash_life_def crash_boot_def read_and_clear_reset_was_crash_def replicate_num)
  with crash_loop_detected [OF device.w25q_chip_axioms dev_completes fresh_facts(1) fresh_records(3) run] run
  show ?thesis by simp
qed

section \<open>The list of cards\<close>

text \<open>C18: after a boot, any sequence of additions, removals and clears of cards leaves the list the
  abstract list of distinct cards would be, at most 28 of them and none of them null; the membership
  test agrees with it, and a restart reads the same list back.\<close>

lemma authlist_refines:
  assumes "w25q_chip X cells idle armed" "completes X idle" "idle c" "al_flash_ok (cells c)"
    and "rfid_authlist_load X al_zero c = (rc0, r0, c0)" "fold (al_apply X) chs (r0, c0) = (r, c')"
  shows "al_list r = fold al_spec chs (case al_in_flash (cells c) of None \<Rightarrow> [] | Some q \<Rightarrow> al_list q) \<and>
    distinct (al_list r) \<and> length (al_list r) \<le> 28 \<and>
    (\<forall>uid. rfid_authlist_contains uid r \<longleftrightarrow> uid \<in> set (al_list r)) \<and>
    (let (rc, r', _) = rfid_authlist_load X al_zero c' in rc = 0 \<and> r' = r)"
proof -
  note ld = w25q_chip.al_load_ok [OF assms(1,3,2,4,5)]
  have run: "idle c' \<and> al_synced r (cells c') \<and> al_list r = fold al_spec chs (al_list r0)"
    using w25q_chip.al_apply_run [OF assms(1,2) _ _ assms(6)] ld by simp
  then have inv: "al_inv r" by (simp add: al_synced_def)
  have "let (rc, r', _) = rfid_authlist_load X al_zero c' in rc = 0 \<and> r' = r"
    using w25q_chip.al_load_spec [OF assms(1), of c' r al_zero] run by (auto simp: Let_def split: prod.splits)
  then show ?thesis
    using run ld contains_iff [OF inv] al_list_nth(1) [OF inv] al_count_le [OF inv] inv
    by (simp add: al_tags_def) (simp add: al_inv_def)
qed

definition card_changes :: "al_change list" where
  "card_changes = [AL_ADD 0x11, AL_ADD 0, AL_ADD 0x22, AL_ADD 0x11, AL_ADD 0x33, AL_REMOVE 0x22]"

lemma authlist_refines_witness:
  "let (_, r0, c0) = rfid_authlist_load dev_spi al_zero fresh; (r, c') = fold (al_apply dev_spi) card_changes (r0, c0)
   in al_list r = [0x11, 0x33] \<and> rfid_authlist_contains 0x33 r \<and> \<not> rfid_authlist_contains 0x22 r"
proof -
  obtain rc0 r0 c0 where ld: "rfid_authlist_load dev_spi al_zero fresh = (rc0, r0, c0)"
    by (cases "rfid_authlist_load dev_spi al_zero fresh")
  obtain r c' where run: "fold (al_apply dev_spi) card_changes (r0, c0) = (r, c')"
    by (cases "fold (al_apply dev_spi) card_changes (r0, c0)")
  have "al_flash_ok (array fresh)" by (simp add: al_flash_ok_def fresh_records)
  from authlist_refines [OF device.w25q_chip_axioms dev_completes fresh_facts(1) this ld run]
  show ?thesis by (simp add: ld run fresh_records) (simp add: card_changes_def)
qed

section \<open>The event log\<close>

text \<open>C19: after any number of appends, more than the ring holds included, the last 8065 appended
  records read back, newest first, behind the head; and if the records of earlier boots carry smaller
  boot counts and the uptime stamps grow, a restart finds the head again.\<close>

lemma event_log_keeps:
  assumes "w25q_chip X cells idle armed" "completes X idle" "idle c" "event_log_sound (cells c) m"
    and "\<forall>r \<in> set rs. length (ev_reserved r) = 10" "event_appends X rs (m, c) = (m', c')"
  shows "(\<forall>i < min (length rs) 8065.
      let (rc, r, _) = event_log_read_nth X ((s_head_slot m' + 8192 - Suc i) mod 8192) c'
      in rc = 0 \<and> r = event_stamp (s_boot_count m) (rev rs ! i)) \<and>
    (rs \<noteq> [] \<and> log_from (cells c) (s_boot_count m) [] \<and> sorted_wrt (<) (map ev_timestamp rs) \<longrightarrow>
      s_head_slot (fst (event_log_init X log_mod_reset c')) = s_head_slot m')"
proof (intro conjI allI impI)
  let ?bs = "\<lambda>r. event_bytes (event_stamp (s_boot_count m) r)"
  note ok = w25q_chip.event_appends_ok [OF assms(1,2,3,4,5,6), of "[]"]
  have snd: "log_inv (cells c) EVENT_LOG_BASE EVENT_LOG_SECTORS (s_head_slot m)" using assms(4) by (simp add: event_log_sound_def)
  have wf: "\<forall>b \<in> set (map ?bs rs). length b = 32 \<and> \<not> all_ff b" using assms(5) event_stamp_facts(1,2) by auto
  fix i assume i: "i < min (length rs) 8065"
  have "recent (cells c') EVENT_LOG_BASE 8192 (s_head_slot m') 8065 =
      take 8065 (rev (map ?bs rs) @ recent (cells c) EVENT_LOG_BASE 8192 (s_head_slot m) 8065)"
    using w25q_chip.writes_recent [OF assms(1) log_regions(1) wf _ assms(3) snd, of 8065 "s_head_slot m'" c'] ok by simp
  then have "recent (cells c') EVENT_LOG_BASE 8192 (s_head_slot m') 8065 ! i = ?bs (rev rs ! i)"
    using i by (simp add: nth_append rev_map)
  then have sl: "slot_bytes (cells c') EVENT_LOG_BASE ((s_head_slot m' + 8192 - Suc i) mod 8192) = ?bs (rev rs ! i)"
    using i by (simp add: recent_def del: upt_Suc)
  have "rev rs ! i \<in> set rs" using i by (metis length_rev min_less_iff_conj nth_mem set_rev)
  then have len: "length (ev_reserved (rev rs ! i)) = 10" using assms(5) by blast
  show "let (rc, r, _) = event_log_read_nth X ((s_head_slot m' + 8192 - Suc i) mod 8192) c'
      in rc = 0 \<and> r = event_stamp (s_boot_count m) (rev rs ! i)"
    using w25q_chip.read_newest [OF assms(1) _ _ sl len] ok by (simp split: prod.split)
next
  let ?n = "s_boot_count m"
  assume a: "rs \<noteq> [] \<and> log_from (cells c) ?n [] \<and> sorted_wrt (<) (map ev_timestamp rs)"
  then obtain rs0 r where rs: "rs = rs0 @ [r]" by (metis rev_exhaust)
  obtain m1 c1 where st: "event_appends X rs0 (m, c) = (m1, c1)" by (cases "event_appends X rs0 (m, c)")
  have wf: "\<forall>q \<in> set rs0. length (ev_reserved q) = 10" "length (ev_reserved r) = 10" using assms(5) by (simp_all add: rs)
  note ok = w25q_chip.event_appends_ok [OF assms(1-4) wf(1) st, of "[]"]
  have n: "s_boot_count m1 = ?n" "log_from (cells c1) ?n rs0" using ok a by simp_all
  obtain rc where ap: "event_log_append X r m1 c1 = (rc, m', c')"
    using assms(6) by (cases "event_log_append X r m1 c1") (simp add: rs event_appends_def st [unfolded event_appends_def])
  have lt: "q \<in> set rs0 \<Longrightarrow> ev_timestamp q < ev_timestamp r" for q using a by (simp add: rs sorted_wrt_append)
  show "s_head_slot (fst (event_log_init X log_mod_reset c')) = s_head_slot m'"
  proof (rule w25q_chip.event_init_recovers [OF assms(1,2) _ _ wf(2) ap])
    show "idle c1" "event_log_sound (cells c1) m1" using ok by simp_all
    fix i assume i: "i < EVENT_LOG_SECTORS * 128" "classify_record (slot_bytes (cells c1) EVENT_LOG_BASE i) = LOG_VALID"
    from n(2) i have "fst (event_key (slot_bytes (cells c1) EVENT_LOG_BASE i)) < ?n \<or>
        (\<exists>q \<in> set rs0. slot_bytes (cells c1) EVENT_LOG_BASE i = event_bytes (event_stamp ?n q))"
      unfolding log_from_def by blast
    then show "key_le (event_key (slot_bytes (cells c1) EVENT_LOG_BASE i)) (s_boot_count m1, ev_timestamp r) \<and>
        event_key (slot_bytes (cells c1) EVENT_LOG_BASE i) \<noteq> (s_boot_count m1, ev_timestamp r)"
      using event_key_stamp wf(1) lt by (auto simp: n(1) key_le_def order_less_le)
  qed
qed

lemma fresh_log: "slot_bytes (array fresh) base i = replicate 32 0xFF" "all_ff (slot_bytes (array fresh) base i)"
  unfolding slot_bytes_def fresh_facts all_ff_def by (simp_all add: map_replicate_const list_all_iff)

lemma fresh_log_sound: "event_log_sound (array fresh) (log_mod_reset\<lparr>s_initialized := True, s_boot_count := 1\<rparr>)"
  by (simp add: event_log_sound_def log_inv_def log_mod_reset_def sector_tidy_def fresh_log)

lemma fresh_log_from: "log_from (array fresh) n rs"
  unfolding log_from_def using valid_not_blank fresh_log(2) by blast

definition event_at :: "u32 \<Rightarrow> event_record" where
  "event_at ts = (event_of_bytes (replicate 32 0))\<lparr>ev_timestamp := ts\<rparr>"

lemma event_log_keeps_witness:
  "let m = log_mod_reset\<lparr>s_initialized := True, s_boot_count := 1\<rparr>;
       (m', c') = event_appends dev_spi [event_at 5, event_at 9] (m, fresh);
       (rc, r, _) = event_log_read_nth dev_spi ((8191 + s_head_slot m') mod 8192) c'
   in rc = 0 \<and> r = event_stamp 1 (event_at 9) \<and>
     s_head_slot (fst (event_log_init dev_spi log_mod_reset c')) = s_head_slot m'"
proof -
  let ?m = "log_mod_reset\<lparr>s_initialized := True, s_boot_count := 1\<rparr>"
  obtain m' c' where run: "event_appends dev_spi [event_at 5, event_at 9] (?m, fresh) = (m', c')"
    by (cases "event_appends dev_spi [event_at 5, event_at 9] (?m, fresh)")
  have wf: "\<forall>r \<in> set [event_at 5, event_at 9]. length (ev_reserved r) = 10"
    by (simp add: event_at_def event_of_bytes_def)
  have ts: "sorted_wrt (<) (map ev_timestamp [event_at 5, event_at 9])" by (simp add: event_at_def)
  note k = event_log_keeps [OF device.w25q_chip_axioms dev_completes fresh_facts(1) fresh_log_sound wf run]
  from k have "\<forall>i < min (length [event_at 5, event_at 9]) 8065.
      let (rc, r, _) = event_log_read_nth dev_spi ((s_head_slot m' + 8192 - Suc i) mod 8192) c'
      in rc = 0 \<and> r = event_stamp 1 (rev [event_at 5, event_at 9] ! i)" by (simp add: log_mod_reset_def)
  from spec [OF this, of 0] k ts fresh_log_from show ?thesis
    by (auto simp: run Let_def split: prod.splits)
qed

section \<open>Boot and firmware update\<close>

text \<open>A flash controller with a plain memory, for the witnesses.\<close>

definition mem_fmc :: "(nat \<Rightarrow> u32) fmc" where
  "mem_fmc = \<lparr>fmc_stat = (\<lambda>m. ((False, False), m)), fmc_unlock = (\<lambda>m. (True, m)),
     start_erase = (\<lambda>p m a. if p \<le> a \<and> a < p + FLASH_PAGE_SIZE then 0xFFFFFFFF else m a),
     store_word = (\<lambda>p d m. m(p := d)), word_at = (\<lambda>m. m)\<rparr>"

lemma mem_fmc_ok: "fmc_ok mem_fmc"
  by (simp add: fmc_ok_def mem_fmc_def)

lemma fresh_cards: "al_flash_ok (array fresh)"
  by (simp add: al_flash_ok_def fresh_records)

text \<open>C15: on a device that completes its operations a boot either runs on, with the running image
  untouched, no update pending, and the invariant of the persist task (caches equal to flash, lists and
  logs well formed) established; or it ends in a reset with bank 0 holding exactly the staged image
  whose size and checksum the committed mark in flash announces; or it halts, which takes such a mark
  too.\<close>

lemma boot_safe:
  assumes "w25q_chip X cells idle armed" "completes X idle" "w25q_init X c = (0, jid, c0)" "idle c0"
    and "al_flash_ok (cells c0)" "fmc_ok F"
  shows "case persist_boot X F cause c m of
      BOOT_RUNS st m' \<Rightarrow> m' = m \<and> persist_inv cells idle st \<and> pending_ota_flag (p_cfg st) = 0 \<and> p_frames st = [] \<and>
        \<not> ota_in_session (p_ota st)
    | BOOT_RESETS c' m' \<Rightarrow> (\<exists>r. bc_in_flash (cells c0) = Some r \<and> pending_ota_flag r \<noteq> 0 \<and>
        bank_bytes F m' (unat (staged_image_size r)) = stage_cells (cells c0) (unat (staged_image_size r)) \<and>
        crc32 (bank_bytes F m' (unat (staged_image_size r))) = staged_image_crc32 r)
    | BOOT_HALTS c' m' \<Rightarrow> (\<exists>r. bc_in_flash (cells c0) = Some r \<and> pending_ota_flag r \<noteq> 0)"
  by (rule w25q_chip.boot_spec [OF assms])

definition fresh_boot :: "(device, nat \<Rightarrow> u32) boot_outcome" where
  "fresh_boot = persist_boot dev_spi mem_fmc RESET_CAUSE_POWER_ON fresh (\<lambda>_. 0)"

definition fresh_state :: "device persist_state" where
  "fresh_state = (case fresh_boot of BOOT_RUNS st _ \<Rightarrow> st | _ \<Rightarrow> boot_reset fresh)"

lemma fresh_boot_runs: "persist_boot dev_spi mem_fmc RESET_CAUSE_POWER_ON fresh (\<lambda>_. 0) = BOOT_RUNS fresh_state (\<lambda>_. 0)"
proof -
  have "\<exists>st. persist_boot dev_spi mem_fmc RESET_CAUSE_POWER_ON fresh (\<lambda>_. 0) = BOOT_RUNS st (\<lambda>_. 0)"
    by (rule w25q_chip.boot_runs [OF device.w25q_chip_axioms dev_completes fresh_probe fresh_facts(1)])
      (simp add: fresh_records)
  then show ?thesis by (auto simp: fresh_state_def fresh_boot_def)
qed

lemma boot_safe_witness:
  "persist_boot dev_spi mem_fmc RESET_CAUSE_POWER_ON fresh (\<lambda>_. 0) = BOOT_RUNS fresh_state (\<lambda>_. 0) \<and>
   persist_inv array dev_idle fresh_state \<and> pending_ota_flag (p_cfg fresh_state) = 0"
  using boot_safe [OF device.w25q_chip_axioms dev_completes fresh_probe fresh_facts(1) fresh_cards mem_fmc_ok,
      where cause = RESET_CAUSE_POWER_ON and m = "\<lambda>_. 0"] fresh_boot_runs
  by simp

text \<open>C14: after a boot, whatever requests are served, the persist task is a correct firmware updater: what
  it answers to the update requests, and what it has staged and marked for the next boot, is what
  \<open>ota_spec\<close> says of uploads as byte strings.\<close>

lemma ota_task_refines:
  assumes "w25q_chip X cells idle armed" "completes X idle" "w25q_init X c = (0, jid, c0)" "idle c0"
    and "al_flash_ok (cells c0)" "fmc_ok F" "persist_boot X F cause c m = BOOT_RUNS st m'"
    and "\<forall>req \<in> set reqs. request_wf req"
  shows "upload (ota_view cells st) = None \<and> p_frames st = [] \<and>
    ota_view cells (persist_run X reqs st) = snd (ota_specs reqs (ota_view cells st)) \<and>
    ota_replies (p_frames (persist_run X reqs st)) = fst (ota_specs reqs (ota_view cells st))"
proof -
  note b = w25q_chip.boot_spec [OF assms(1-6), where cause = cause and m = m, unfolded assms(7) boot_outcome.case]
  then have inv: "persist_inv cells idle st" by simp
  from w25q_chip.run_refines [OF assms(1,2) inv assms(8)] b
  show ?thesis by (simp add: ota_view_def Let_def ota_replies_def)
qed

text \<open>C20: after a boot and any requests every cached record has the layout its flash slot needs: the
  packed structs fill their 32 and 128 bytes, the card list is a list of at most 28 distinct, non-null
  cards, the log heads lie in their rings; and configuration, calibration and crash record are the
  ones a reader finds in flash.\<close>

lemma persist_layout:
  assumes "w25q_chip X cells idle armed" "completes X idle" "w25q_init X c = (0, jid, c0)" "idle c0"
    and "al_flash_ok (cells c0)" "fmc_ok F" "persist_boot X F cause c m = BOOT_RUNS st m'"
    and "\<forall>req \<in> set reqs. request_wf req"
  shows "let st' = persist_run X reqs st; mem = cells (p_chip st')
    in length (bc_bytes (p_cfg st')) = 32 \<and> length (cal_bytes (s_cal (p_cal st'))) = 32 \<and>
      length (cs_bytes (s_cs (p_crash st'))) = 32 \<and> length (al_bytes (p_auth st')) = 128 \<and>
      distinct (al_list (p_auth st')) \<and> length (al_list (p_auth st')) \<le> 28 \<and> 0 \<notin> set (al_list (p_auth st')) \<and>
      s_head_slot (p_events st') < 8192 \<and> s_head_slot (p_sessions st') < 1024 \<and>
      bc_in_flash mem = Some (p_cfg st') \<and> cal_in_flash mem = Some (s_cal (p_cal st')) \<and>
      cs_in_flash mem = Some (s_cs (p_crash st'))"
proof -
  have "persist_inv cells idle st"
    using w25q_chip.boot_spec [OF assms(1-6), where cause = cause and m = m, unfolded assms(7) boot_outcome.case] by simp
  then have inv: "persist_inv cells idle (persist_run X reqs st)"
    using w25q_chip.run_refines [OF assms(1,2) _ assms(8)] by simp
  obtain k where k: "life_inv (cells (p_chip (persist_run X reqs st))) (p_crash (persist_run X reqs st)) k"
    using inv by (auto simp: persist_inv_def Let_def)
  have al: "al_inv (p_auth (persist_run X reqs st))" using inv by (simp add: persist_inv_def Let_def)
  show ?thesis
    using inv k bc_codec.enc_length cal_codec.enc_length cs_codec.enc_length al_codec.enc_length
      al_list_nth(1) [OF al] al_count_le [OF al] al
    unfolding persist_inv_def Let_def bc_synced_def cal_synced_def life_inv_def al_inv_def al_tags_def by simp
qed

section \<open>Witnesses of the boot\<close>

definition upload_image :: "u8 list" where
  "upload_image = [1, 2, 3, 4]"

definition upload_requests :: "persist_req list" where
  "upload_requests =
     [PERSIST_REQ_OTA_BEGIN \<lparr>ob_image_size = 4, ob_image_crc32 = crc32 upload_image, ob_session_id = 7, ob_seq = 1\<rparr>,
      PERSIST_REQ_RFID_AUTHLIST_ADD 0x55,
      PERSIST_REQ_OTA_CHUNK \<lparr>oc_session_id = 7, oc_offset = 0, oc_seq = 2, oc_data = upload_image\<rparr>,
      PERSIST_REQ_OTA_COMMIT \<lparr>oa_session_id = 7, oa_seq = 3\<rparr>]"

lemma upload_requests_wf: "\<forall>req \<in> set upload_requests. request_wf req"
  by (simp add: upload_requests_def)

lemma ota_task_refines_witness:
  "staged (ota_view array (persist_run dev_spi upload_requests fresh_state)) = (1, 4, crc32 upload_image) \<and>
   ota_replies (p_frames (persist_run dev_spi upload_requests fresh_state)) =
     [(EVT_OTA_BEGIN_ACK, 1, 7, OTA_STATUS_OK, []), (EVT_OTA_CHUNK_ACK, 2, 7, OTA_STATUS_OK, [(4, crc32 upload_image)]),
      (EVT_OTA_COMMITTED, 3, 7, OTA_STATUS_OK, [])]"
proof -
  note r = ota_task_refines [OF device.w25q_chip_axioms dev_completes fresh_probe fresh_facts(1) fresh_cards mem_fmc_ok
      fresh_boot_runs upload_requests_wf]
  have none: "upload (ota_view array fresh_state) = None" using r by simp
  have "ota_specs upload_requests (ota_view array fresh_state) =
     ([(EVT_OTA_BEGIN_ACK, 1, 7, OTA_STATUS_OK, []), (EVT_OTA_CHUNK_ACK, 2, 7, OTA_STATUS_OK, [(4, crc32 upload_image)]),
       (EVT_OTA_COMMITTED, 3, 7, OTA_STATUS_OK, [])],
      (ota_view array fresh_state)\<lparr>upload := Some (7, 4, crc32 upload_image, upload_image),
        staged := (1, 4, crc32 upload_image)\<rparr>)"
    by (simp add: upload_requests_def Let_def) (simp add: upload_image_def)
  with r show ?thesis by simp
qed

lemma persist_layout_witness:
  "let st' = persist_run dev_spi upload_requests fresh_state
   in length (al_bytes (p_auth st')) = 128 \<and> bc_in_flash (array (p_chip st')) = Some (p_cfg st')"
  using persist_layout [OF device.w25q_chip_axioms dev_completes fresh_probe fresh_facts(1) fresh_cards mem_fmc_ok
      fresh_boot_runs upload_requests_wf]
  by (simp add: Let_def)

section \<open>Retries after a failed store\<close>

text \<open>The setters change the cache before the store, whatever the store does. After a commit that answered
  that it could not persist the mark, the same commit again therefore answers success without
  touching flash; and a card whose removal failed is unknown from then on, though flash still lists it
  and a restart brings it back.\<close>

lemma mark_pending_retry:
  assumes "w25q_chip X cells idle armed" "idle c" "bc_wf cfg" "ota_stage_mark_pending X sz crc cfg c = (rc, cfg', c')"
  shows "ota_stage_mark_pending X sz crc cfg' d = (0, cfg', d)"
proof -
  let ?cfg = "cfg\<lparr>pending_ota_flag := 1, staged_image_size := sz, staged_image_crc32 := crc\<rparr>"
  have wf: "bc_wf ?cfg" using assms(3) by (simp add: bc_wf_def)
  have run: "(if pending_ota_flag cfg = 1 \<and> staged_image_size cfg = sz \<and> staged_image_crc32 cfg = crc then (0, cfg, c)
      else bc_store X ?cfg c) = (rc, cfg', c')"
    using assms(4)
    by (simp only: ota_stage_mark_pending_def boot_config_set_pending_ota_def Let_def simp_thms zero_neq_one one_neq_zero if_True if_False)
  have "pending_ota_flag cfg' = 1 \<and> staged_image_size cfg' = sz \<and> staged_image_crc32 cfg' = crc"
    using run w25q_chip.bc_store_spec(1) [OF assms(1,2) wf, of rc cfg' c']
    by (auto simp: bc_settings_def split: if_splits)
  then show ?thesis unfolding ota_stage_mark_pending_def boot_config_set_pending_ota_def by simp
qed

lemma card_removal_retry:
  assumes "w25q_chip X cells idle armed" "idle c" "al_inv r" "rfid_authlist_remove X uid r c = (rc, r', c')"
  shows "rfid_authlist_remove X uid r' d = (0, r', d)"
proof -
  note sp = w25q_chip.al_remove_spec [OF assms]
  have "distinct (al_list r)" using assms(3) by (simp add: al_inv_def)
  then have gone: "uid \<notin> set (al_list r')" using sp(2) by simp
  have "al_uids r' ! i \<noteq> uid" if "i < unat (al_count r')" for i
  proof -
    have "i < length (al_list r')" "al_list r' ! i = al_uids r' ! i" using al_list_nth [OF sp(1)] that by simp_all
    then show ?thesis using gone nth_mem by metis
  qed
  then have "find (\<lambda>i. al_uids r' ! i = uid) [0 ..< unat (al_count r')] = None" by (simp add: find_None_iff)
  then show ?thesis by (simp add: rfid_authlist_remove_def)
qed

end
