(* ===== verification/Buttons.thy ===== *)
theory Buttons
  imports Prelude
begin

text \<open>
  The front-panel buttons, \<^verbatim>\<open>src/src/ui/buttons.c\<close>: three buttons on a resistor ladder read by the
  converter and one on a pin, each committed after three equal readings in a row, and a latch that
  holds the most recent press. Log lines are left out. \<open>latest_stable\<close> is the debounce as it is meant:
  the newest value read three times in a row; the lemmas show that the incremental code computes it.
\<close>

abbreviation (input) "BAND_BOT_HI \<equiv> (400 :: u16)"
abbreviation (input) "BAND_MID_LO \<equiv> (800 :: u16)"
abbreviation (input) "BAND_MID_HI \<equiv> (1700 :: u16)"
abbreviation (input) "BAND_TOP_LO \<equiv> (1900 :: u16)"
abbreviation (input) "BAND_TOP_HI \<equiv> (2800 :: u16)"
abbreviation (input) "BAND_IDLE_LO \<equiv> (3500 :: u16)"
abbreviation (input) "DEBOUNCE_N \<equiv> (3 :: nat)"

datatype button_id = BTN_NONE | BTN_TOP | BTN_MID | BTN_BOT | BTN_PC9

record buttons =
  btn_committed :: button_id
  btn_candidate :: button_id
  btn_streak :: nat
  pc9_committed :: bool
  pc9_candidate :: bool
  pc9_streak :: nat
  s_pending_event :: button_id

definition classify_ladder :: "u16 \<Rightarrow> button_id \<Rightarrow> button_id" where
  "classify_ladder raw cand =
     (if raw \<le> BAND_BOT_HI then BTN_BOT
      else if raw \<ge> BAND_MID_LO \<and> raw \<le> BAND_MID_HI then BTN_MID
      else if raw \<ge> BAND_TOP_LO \<and> raw \<le> BAND_TOP_HI then BTN_TOP
      else if raw \<ge> BAND_IDLE_LO then BTN_NONE
      else cand)"

definition buttons_reset :: buttons where
  "buttons_reset = \<lparr>btn_committed = BTN_NONE, btn_candidate = BTN_NONE, btn_streak = 0, pc9_committed = False,
     pc9_candidate = False, pc9_streak = 0, s_pending_event = BTN_NONE\<rparr>"

definition buttons_init :: "buttons \<Rightarrow> buttons" where
  "buttons_init s = s\<lparr>btn_committed := BTN_NONE, btn_candidate := BTN_NONE, btn_streak := 0, pc9_committed := False,
     pc9_candidate := False, pc9_streak := 0\<rparr>"

text \<open>One poll: the ladder, then the pin, which reads low while pressed.\<close>

definition poll_ladder :: "u16 \<Rightarrow> buttons \<Rightarrow> buttons" where
  "poll_ladder raw s =
     (let classed = classify_ladder raw (btn_candidate s);
          s1 = (if classed = btn_candidate s
                then if btn_streak s < DEBOUNCE_N then s\<lparr>btn_streak := btn_streak s + 1\<rparr> else s
                else s\<lparr>btn_candidate := classed, btn_streak := 1\<rparr>)
      in if btn_streak s1 \<ge> DEBOUNCE_N \<and> btn_committed s1 \<noteq> btn_candidate s1
         then (if btn_candidate s1 \<noteq> BTN_NONE then s1\<lparr>s_pending_event := btn_candidate s1\<rparr> else s1)
                \<lparr>btn_committed := btn_candidate s1\<rparr>
         else s1)"

definition poll_pc9 :: "bool \<Rightarrow> buttons \<Rightarrow> buttons" where
  "poll_pc9 level s =
     (let pressed = (\<not> level);
          s1 = (if pressed = pc9_candidate s
                then if pc9_streak s < DEBOUNCE_N then s\<lparr>pc9_streak := pc9_streak s + 1\<rparr> else s
                else s\<lparr>pc9_candidate := pressed, pc9_streak := 1\<rparr>)
      in if pc9_streak s1 \<ge> DEBOUNCE_N \<and> pc9_committed s1 \<noteq> pc9_candidate s1
         then let s2 = s1\<lparr>pc9_committed := pc9_candidate s1\<rparr>
              in if pc9_committed s2 then s2\<lparr>s_pending_event := BTN_PC9\<rparr> else s2
         else s1)"

definition buttons_poll :: "u16 \<Rightarrow> bool \<Rightarrow> buttons \<Rightarrow> buttons" where
  "buttons_poll raw level s = poll_pc9 level (poll_ladder raw s)"

definition buttons_consume_event :: "buttons \<Rightarrow> button_id \<times> buttons" where
  "buttons_consume_event s = (s_pending_event s, s\<lparr>s_pending_event := BTN_NONE\<rparr>)"

section \<open>The debounce as it is meant\<close>

text \<open>Readings newest first; before the first there were only idle ones.\<close>

fun latest_stable :: "'a \<Rightarrow> 'a list \<Rightarrow> 'a" where
  "latest_stable d (x # y # z # rest) = (if x = y \<and> y = z then x else latest_stable d (y # z # rest))"
| "latest_stable d _ = d"

definition streak_of :: "'a list \<Rightarrow> nat" where
  "streak_of xs = (case xs of [] \<Rightarrow> 0 | x # _ \<Rightarrow> min 3 (length (takeWhile (\<lambda>y. y = x) xs)))"

text \<open>What each reading of the ladder stands for: between two bands, the button before it.\<close>

fun ladder_ids :: "u16 list \<Rightarrow> button_id list" where
  "ladder_ids [] = []"
| "ladder_ids (raw # raws) =
     classify_ladder raw (case ladder_ids raws of [] \<Rightarrow> BTN_NONE | b # _ \<Rightarrow> b) # ladder_ids raws"

lemma streak_cons: "streak_of (x # xs) = (case xs of [] \<Rightarrow> 1 | y # _ \<Rightarrow> if x = y then min 3 (streak_of xs + 1) else 1)"
  by (cases xs) (auto simp: streak_of_def)

lemma stable_cons:
  "latest_stable d (x # xs) = (if streak_of (x # xs) = 3 then x else latest_stable d xs)"
proof -
  consider "xs = []" | y where "xs = [y]" | y z rest where "xs = y # z # rest" by (metis list.exhaust)
  then show ?thesis by cases (auto simp: streak_of_def)
qed

definition ladder_state :: "buttons \<Rightarrow> button_id list \<Rightarrow> bool" where
  "ladder_state s ids \<longleftrightarrow>
     btn_committed s = latest_stable BTN_NONE ids \<and> btn_candidate s = (case ids of [] \<Rightarrow> BTN_NONE | b # _ \<Rightarrow> b) \<and>
     btn_streak s = streak_of ids"

definition pc9_state :: "buttons \<Rightarrow> bool list \<Rightarrow> bool" where
  "pc9_state s ps \<longleftrightarrow>
     pc9_committed s = latest_stable False ps \<and> pc9_candidate s = (case ps of [] \<Rightarrow> False | b # _ \<Rightarrow> b) \<and>
     pc9_streak s = streak_of ps"

lemma streak_le: "streak_of xs \<le> 3"
  by (cases xs) (simp_all add: streak_of_def)

lemma ladder_poll:
  assumes "ladder_state s (ladder_ids raws)"
  shows "ladder_state (poll_ladder raw s) (ladder_ids (raw # raws))"
    "s_pending_event (poll_ladder raw s) =
      (let b = latest_stable BTN_NONE (ladder_ids (raw # raws))
       in if b \<noteq> btn_committed s \<and> b \<noteq> BTN_NONE then b else s_pending_event s)"
    "pc9_state (poll_ladder raw s) ps = pc9_state s ps" "pc9_committed (poll_ladder raw s) = pc9_committed s"
proof -
  let ?ids = "ladder_ids raws"
  let ?b = "classify_ladder raw (case ?ids of [] \<Rightarrow> BTN_NONE | b # _ \<Rightarrow> b)"
  have st: "btn_committed s = latest_stable BTN_NONE ?ids" "btn_candidate s = (case ?ids of [] \<Rightarrow> BTN_NONE | b # _ \<Rightarrow> b)"
    "btn_streak s = streak_of ?ids" using assms by (simp_all add: ladder_state_def)
  have sk: "streak_of (?b # ?ids) = (if ?b = btn_candidate s then min 3 (btn_streak s + 1) else 1)"
    using st(2,3) by (cases ?ids) (auto simp: streak_cons [of ?b ?ids] streak_of_def)
  show "ladder_state (poll_ladder raw s) (ladder_ids (raw # raws))"
    using st streak_le [of ?ids] unfolding ladder_state_def ladder_ids.simps list.case stable_cons sk
    by (auto simp: poll_ladder_def Let_def not_le min_def)
  show "s_pending_event (poll_ladder raw s) =
      (let b = latest_stable BTN_NONE (ladder_ids (raw # raws))
       in if b \<noteq> btn_committed s \<and> b \<noteq> BTN_NONE then b else s_pending_event s)"
    using st streak_le [of ?ids] unfolding ladder_ids.simps stable_cons sk
    by (auto simp: poll_ladder_def Let_def not_le min_def)
  show "pc9_state (poll_ladder raw s) ps = pc9_state s ps" "pc9_committed (poll_ladder raw s) = pc9_committed s"
    by (simp_all add: pc9_state_def poll_ladder_def Let_def)
qed

lemma pc9_poll:
  assumes "pc9_state s ps"
  shows "pc9_state (poll_pc9 level s) ((\<not> level) # ps)"
    "s_pending_event (poll_pc9 level s) =
      (if latest_stable False ((\<not> level) # ps) \<and> \<not> pc9_committed s then BTN_PC9 else s_pending_event s)"
    "ladder_state (poll_pc9 level s) ids = ladder_state s ids" "btn_committed (poll_pc9 level s) = btn_committed s"
proof -
  have st: "pc9_committed s = latest_stable False ps" "pc9_candidate s = (case ps of [] \<Rightarrow> False | b # _ \<Rightarrow> b)"
    "pc9_streak s = streak_of ps" using assms by (simp_all add: pc9_state_def)
  have sk: "streak_of ((\<not> level) # ps) = (if (\<not> level) = pc9_candidate s then min 3 (pc9_streak s + 1) else 1)"
    using st(2,3) by (cases ps) (auto simp: streak_cons [of "\<not> level" ps] streak_of_def)
  show "pc9_state (poll_pc9 level s) ((\<not> level) # ps)"
    using st streak_le [of ps] unfolding pc9_state_def list.case stable_cons sk
    by (auto simp: poll_pc9_def Let_def not_le min_def)
  show "s_pending_event (poll_pc9 level s) =
      (if latest_stable False ((\<not> level) # ps) \<and> \<not> pc9_committed s then BTN_PC9 else s_pending_event s)"
    using st streak_le [of ps] unfolding stable_cons sk
    by (auto simp: poll_pc9_def Let_def not_le min_def)
  show "ladder_state (poll_pc9 level s) ids = ladder_state s ids" "btn_committed (poll_pc9 level s) = btn_committed s"
    by (simp_all add: ladder_state_def poll_pc9_def Let_def)
qed

section \<open>A run of polls, each followed by the consumer\<close>

text \<open>The event of the newest poll, from the readings newest first.\<close>

definition press_event :: "u16 list \<Rightarrow> bool list \<Rightarrow> button_id" where
  "press_event raws levels =
     (let b = latest_stable BTN_NONE (ladder_ids raws); p = latest_stable False (map Not levels)
      in if p \<and> \<not> latest_stable False (map Not (tl levels)) then BTN_PC9
         else if b \<noteq> latest_stable BTN_NONE (ladder_ids (tl raws)) then b else BTN_NONE)"

fun poll_run :: "(u16 \<times> bool) list \<Rightarrow> buttons \<Rightarrow> button_id list \<times> buttons" where
  "poll_run [] s = ([], s)"
| "poll_run ((raw, level) # ins) s =
     (let (ev, s1) = buttons_consume_event (buttons_poll raw level s); (evs, s2) = poll_run ins s1 in (ev # evs, s2))"

lemma poll_step:
  assumes "ladder_state s (ladder_ids raws)" "pc9_state s (map Not levels)" "s_pending_event s = BTN_NONE"
  shows "ladder_state (snd (buttons_consume_event (buttons_poll raw level s))) (ladder_ids (raw # raws))"
    "pc9_state (snd (buttons_consume_event (buttons_poll raw level s))) (map Not (level # levels))"
    "s_pending_event (snd (buttons_consume_event (buttons_poll raw level s))) = BTN_NONE"
    "fst (buttons_consume_event (buttons_poll raw level s)) = press_event (raw # raws) (level # levels)"
proof -
  let ?s1 = "poll_ladder raw s"
  note l = ladder_poll [OF assms(1)]
  have p1: "pc9_state ?s1 (map Not levels)" using assms(2) l(3) by simp
  note p = pc9_poll [OF p1]
  have keep: "ladder_state (s\<lparr>s_pending_event := e\<rparr>) ids = ladder_state s ids" "pc9_state (s\<lparr>s_pending_event := e\<rparr>) ps = pc9_state s ps"
    for s e ids ps by (simp_all add: ladder_state_def pc9_state_def)
  show "ladder_state (snd (buttons_consume_event (buttons_poll raw level s))) (ladder_ids (raw # raws))"
    using l(1) p(3) by (simp add: buttons_consume_event_def buttons_poll_def keep)
  show "pc9_state (snd (buttons_consume_event (buttons_poll raw level s))) (map Not (level # levels))"
    using p(1) by (simp add: buttons_consume_event_def buttons_poll_def keep)
  show "s_pending_event (snd (buttons_consume_event (buttons_poll raw level s))) = BTN_NONE"
    by (simp add: buttons_consume_event_def)
  have "btn_committed s = latest_stable BTN_NONE (ladder_ids raws)" "pc9_committed s = latest_stable False (map Not levels)"
    using assms(1,2) by (simp_all add: ladder_state_def pc9_state_def)
  then show "fst (buttons_consume_event (buttons_poll raw level s)) = press_event (raw # raws) (level # levels)"
    using p(2) [of level] l(2) [of raw] l(4) assms(3)
    by (auto simp: buttons_consume_event_def buttons_poll_def press_event_def Let_def)
qed

lemma poll_run_spec:
  assumes "ladder_state s (ladder_ids raws)" "pc9_state s (map Not levels)" "s_pending_event s = BTN_NONE"
    "length raws = length levels"
  shows "let (evs, s') = poll_run ins s;
      past = (\<lambda>k. rev (take k ins)) in
    evs = map (\<lambda>k. press_event (map fst (past k) @ raws) (map snd (past k) @ levels)) [1 ..< Suc (length ins)] \<and>
    btn_committed s' = latest_stable BTN_NONE (ladder_ids (rev (map fst ins) @ raws)) \<and>
    pc9_committed s' = latest_stable False (map Not (rev (map snd ins) @ levels))"
  using assms
proof (induction ins arbitrary: s raws levels)
  case Nil
  then show ?case by (simp add: ladder_state_def pc9_state_def)
next
  case (Cons i ins)
  obtain raw level where i: "i = (raw, level)" by (cases i)
  note st = poll_step [OF Cons.prems(1-3), of raw level]
  obtain s1 where c: "buttons_consume_event (buttons_poll raw level s) = (press_event (raw # raws) (level # levels), s1)"
    using st(4) by (metis prod.collapse)
  obtain evs s2 where r: "poll_run ins s1 = (evs, s2)" by (cases "poll_run ins s1")
  have len: "length (raw # raws) = length (level # levels)" using Cons.prems(4) by simp
  note IH = Cons.IH [OF st(1) st(2) st(3) len, unfolded c snd_conv r prod.case Let_def]
  have up: "[1 ..< Suc (length (i # ins))] = 1 # map Suc [1 ..< Suc (length ins)]"
    by (simp add: map_Suc_upt upt_conv_Cons del: upt_Suc)
  show ?case
    using IH unfolding up by (simp add: i c r Let_def o_def del: upt_Suc)
qed

end
