(* ===== verification/Led_Patterns.thy ===== *)
theory Led_Patterns
  imports Fault J1772 Ui_Out
begin

text \<open>
  The light strip: the frame buffer of \<^verbatim>\<open>src/src/hal/gd32f205/ws2812.c\<close>, one timer compare value per bit
  on the wire, and the patterns of \<^verbatim>\<open>src/src/ui/led_patterns.c\<close>, for the default strip of 134 lights in the
  byte order green, red, blue. The transfer is the interrupt's; \<open>s_dma_busy\<close> is its flag. \<open>strip\<close> is
  what the wire should carry for a frame of colours, \<open>led_frame\<close> the frame a state should show; the
  lemmas show that rendering puts exactly that strip into the buffer and stays within the brightness.
\<close>

abbreviation (input) "WS2812_LEDS \<equiv> (134 :: nat)"
abbreviation (input) "WS_T0H_TICKS \<equiv> (13 :: u16)"
abbreviation (input) "WS_T1H_TICKS \<equiv> (39 :: u16)"
abbreviation (input) "WS_BITS_PER_LED \<equiv> (24 :: nat)"
abbreviation (input) "WS_FRAME_BITS \<equiv> (3216 :: nat)"
abbreviation (input) "WS_RESET_PADDING \<equiv> (60 :: nat)"
abbreviation (input) "WS_BUF_HALFWORDS \<equiv> (3276 :: nat)"

type_synonym rgb = "u8 \<times> u8 \<times> u8"

section \<open>The frame buffer\<close>

record ws2812 =
  s_buf :: "u16 list"
  s_dma_busy :: bool

definition load_byte_at :: "nat \<Rightarrow> u8 \<Rightarrow> u16 list \<Rightarrow> u16 list" where
  "load_byte_at out v buf =
     fst (fold (\<lambda>i (buf, v). (buf[out + i := if v AND 0x80 \<noteq> 0 then WS_T1H_TICKS else WS_T0H_TICKS], push_bit 1 v))
       [0 ..< 8] (buf, v))"

definition ws2812_set_pixel :: "nat \<Rightarrow> rgb \<Rightarrow> ws2812 \<Rightarrow> ws2812" where
  "ws2812_set_pixel idx c w =
     (if idx \<ge> WS2812_LEDS then w
      else let (r, g, b) = c; p = idx * WS_BITS_PER_LED
           in w\<lparr>s_buf := load_byte_at (p + 16) b (load_byte_at (p + 8) r (load_byte_at p g (s_buf w)))\<rparr>)"

definition ws2812_clear :: "ws2812 \<Rightarrow> ws2812" where
  "ws2812_clear w = fold (\<lambda>i. ws2812_set_pixel i (0, 0, 0)) [0 ..< WS2812_LEDS] w"

text \<open>The tail is zeroed and the transfer started; the wait for a running transfer is the caller's.\<close>

definition ws2812_show :: "ws2812 \<Rightarrow> ws2812" where
  "ws2812_show w = w\<lparr>s_buf := take WS_FRAME_BITS (s_buf w) @ replicate (length (s_buf w) - WS_FRAME_BITS) 0, s_dma_busy := True\<rparr>"

definition DMA0_Channel1_IRQHandler :: "ws2812 \<Rightarrow> ws2812" where
  "DMA0_Channel1_IRQHandler w = w\<lparr>s_dma_busy := False\<rparr>"

section \<open>Patterns\<close>

record led_inputs =
  in_evse :: u8
  in_j1772 :: u8
  in_fault_bits :: u32
  comms_degraded :: bool
  brightness_pct :: u8
  in_advertised_amps :: u8
  in_active_amps_x10 :: u16
  override_mode :: u8
  override_rgb :: rgb

definition breathe :: "u32 \<Rightarrow> u32 \<Rightarrow> u8" where
  "breathe t_ms period_ms =
     (if period_ms = 0 then 255
      else let phase0 = (t_ms * 2) mod (period_ms * 2);
               phase = (if phase0 \<ge> period_ms * 2 then 0 else phase0);
               pos = (if phase < period_ms then phase else period_ms * 2 - phase)
           in ucast (125 + (pos * (255 - 125)) div period_ms :: u32))"

definition flash :: "u32 \<Rightarrow> u32 \<Rightarrow> u8" where
  "flash t_ms period_ms =
     (if period_ms = 0 then 255 else if t_ms mod period_ms < period_ms div 2 then 255 else 0)"

definition scaled_gamma :: "u8 \<Rightarrow> u8 \<Rightarrow> u8" where
  "scaled_gamma v pct = (let g = (ucast v * ucast v) div 255 :: u32 in ucast ((g * ucast pct) div 100))"

definition fill_all :: "rgb \<Rightarrow> u8 \<Rightarrow> ws2812 \<Rightarrow> ws2812" where
  "fill_all c pct w =
     (let (r, g, b) = c; c' = (scaled_gamma r pct, scaled_gamma g pct, scaled_gamma b pct)
      in fold (\<lambda>i. ws2812_set_pixel i c') [0 ..< WS2812_LEDS] w)"

text \<open>The share of full brightness at \<open>d\<close> subpixels behind the head of the comet.\<close>

definition comet_pct :: "u32 \<Rightarrow> u32" where
  "comet_pct d =
     (if d < 2048 then 100
      else if d < 4608 then let fade_pos = d - 2048; fade_len = 4608 - 2048 in 6 + ((100 - 6) * (fade_len - fade_pos)) div fade_len
      else if d \<ge> 34304 - 256 then let lead = 34304 - d in 6 + ((100 - 6) * (256 - lead)) div 256
      else 6)"

definition comet_head :: "u32 \<Rightarrow> u8 \<Rightarrow> u32" where
  "comet_head t_ms ratio_pct =
     (let pps = 30 + ((200 - 30) * ucast ratio_pct) div 100;
          period0 = 1000 * 134 div pps;
          period_ms = (if period0 = 0 then 1 else period0);
          phase_ms = t_ms mod period_ms
      in (phase_ms * 34304) div period_ms)"

definition comet_pixel :: "u32 \<Rightarrow> rgb \<Rightarrow> u8 \<Rightarrow> nat \<Rightarrow> rgb" where
  "comet_pixel head_q8 c bpct i =
     (let (r, g, b) = c;
          gr = (ucast r * ucast r) div 255 :: u32; gg = (ucast g * ucast g) div 255 :: u32;
          gb = (ucast b * ucast b) div 255 :: u32;
          d_q8 = (34304 + head_q8 - of_nat i * 256) mod 34304;
          combined = (comet_pct d_q8 * ucast bpct) div 100
      in (ucast ((gr * combined) div 100), ucast ((gg * combined) div 100), ucast ((gb * combined) div 100)))"

definition render_comet :: "u32 \<Rightarrow> u8 \<Rightarrow> rgb \<Rightarrow> u8 \<Rightarrow> ws2812 \<Rightarrow> ws2812" where
  "render_comet t_ms ratio_pct c bpct w =
     fold (\<lambda>i. ws2812_set_pixel i (comet_pixel (comet_head t_ms ratio_pct) c bpct i)) [0 ..< WS2812_LEDS] w"

definition apply_comms_overlay :: "nat \<Rightarrow> ws2812 \<Rightarrow> ws2812" where
  "apply_comms_overlay every_n w =
     fold (\<lambda>i. ws2812_set_pixel i (64, 0, 64)) (filter (\<lambda>i. i mod every_n = 0) [0 ..< WS2812_LEDS]) w"

definition charge_ratio :: "led_inputs \<Rightarrow> u8" where
  "charge_ratio a =
     (if in_advertised_amps a > 0 \<and> in_active_amps_x10 a > 0
      then let active0 = ucast (in_active_amps_x10 a) div 10 :: u32;
               active = (if active0 > ucast (in_advertised_amps a) then ucast (in_advertised_amps a) else active0)
           in ucast ((active * 100) div ucast (in_advertised_amps a))
      else 100)"

definition boot_sweep_pos :: "u32 \<Rightarrow> nat" where
  "boot_sweep_pos t_ms = unat ((t_ms div (1000 div 134)) mod 134)"

definition led_render :: "led_inputs \<Rightarrow> u32 \<Rightarrow> ws2812 \<Rightarrow> ws2812" where
  "led_render a t_ms w =
     (let pct = brightness_pct a; alerting_bits = in_fault_bits a AND FAULT_LATCHED_MASK in
      if override_mode a = 1 then ws2812_show (fill_all (override_rgb a) pct w)
      else if alerting_bits \<noteq> 0
      then let gfci = (drop_bit FAULT_GFCI alerting_bits AND 1 \<noteq> 0);
               v = flash t_ms (if gfci then 200 else 500)
           in ws2812_show (fill_all (v, 0, 0) pct w)
      else
        let e = in_evse a;
            w1 = (if e = evse_num EVSE_BOOT \<or> e = evse_num EVSE_SELF_TEST
                  then let v = scaled_gamma 255 pct in ws2812_set_pixel (boot_sweep_pos t_ms) (v, v, v) (ws2812_clear w)
                  else if e = evse_num EVSE_READY
                  then if in_j1772 a = j1772_num J1772_STATE_B then fill_all (0, 0, 255) pct w else fill_all (0, 64, 0) pct w
                  else if e = evse_num EVSE_CHARGING then render_comet t_ms (charge_ratio a) (0, 255, 255) pct w
                  else if e = evse_num EVSE_USER_PAUSED then let v = breathe t_ms 2000 in fill_all (v, v, 0) pct w
                  else if e = evse_num EVSE_COOLING_DOWN then let v = breathe t_ms 1000 in fill_all (v, v div 2, 0) pct w
                  else if e = evse_num EVSE_FAULT then fill_all (255, 0, 0) pct w
                  else ws2812_clear w);
            w2 = (if comms_degraded a then apply_comms_overlay 3 w1 else w1)
        in ws2812_show w2)"

section \<open>What the wire carries\<close>

definition byte_ticks :: "u8 \<Rightarrow> u16 list" where
  "byte_ticks v = map (\<lambda>i. if bit v (7 - i) then WS_T1H_TICKS else WS_T0H_TICKS) [0 ..< 8]"

definition pixel_ticks :: "rgb \<Rightarrow> u16 list" where
  "pixel_ticks c = (let (r, g, b) = c in byte_ticks g @ byte_ticks r @ byte_ticks b)"

definition strip :: "rgb list \<Rightarrow> u16 list" where
  "strip frm = concat (map pixel_ticks frm) @ replicate WS_RESET_PADDING 0"

lemma length_byte_ticks [simp]: "length (byte_ticks v) = 8"
  by (simp add: byte_ticks_def)

lemma length_pixel_ticks [simp]: "length (pixel_ticks c) = 24"
  by (simp add: pixel_ticks_def split: prod.split)

lemma length_pixels [simp]: "length (concat (map pixel_ticks frm)) = 24 * length frm"
  by (induction frm) simp_all

lemma byte_ticks_inj: "byte_ticks v = byte_ticks v' \<longleftrightarrow> v = v'"
proof
  assume eq: "byte_ticks v = byte_ticks v'"
  show "v = v'"
  proof (rule bit_word_eqI)
    fix n assume "n < LENGTH(8)"
    then have n: "n < 8" by simp
    from eq have "byte_ticks v ! (7 - n) = byte_ticks v' ! (7 - n)" by simp
    then show "bit v n = bit v' n" using n by (simp add: byte_ticks_def split: if_splits)
  qed
qed simp

lemma load_byte:
  assumes "out + 8 \<le> length buf"
  shows "load_byte_at out v buf = take out buf @ byte_ticks v @ drop (out + 8) buf"
proof -
  define f where "f = (\<lambda>i (buf :: u16 list, v :: u8).
    (buf[out + i := if v AND 0x80 \<noteq> 0 then WS_T1H_TICKS else WS_T0H_TICKS], push_bit 1 v))"
  have top: "(u AND 0x80 \<noteq> 0) = bit u 7" for u :: u8
  proof -
    have "u AND 0x80 = u AND push_bit 7 1" by simp
    then show ?thesis by (metis and_exp_eq_0_iff_not_bit push_bit_of_1)
  qed
  have "n \<le> 8 \<Longrightarrow> fold f [0 ..< n] (buf, v) = (take out buf @ take n (byte_ticks v) @ drop (out + n) buf, push_bit n v)" for n
  proof (induction n)
    case (Suc n)
    have b: "bit (push_bit n v) 7 = bit v (7 - n)" using Suc.prems by (simp add: bit_push_bit_iff)
    have len: "length (take out buf) = out" "length (take n (byte_ticks v)) = n" using assms Suc.prems by simp_all
    have tick: "take (Suc n) (byte_ticks v) = take n (byte_ticks v) @ [if bit v (7 - n) then WS_T1H_TICKS else WS_T0H_TICKS]"
      using Suc.prems by (simp add: take_Suc_conv_app_nth byte_ticks_def)
    have tl: "drop (out + n) buf = buf ! (out + n) # drop (out + Suc n) buf"
      using assms Suc.prems by (simp add: Cons_nth_drop_Suc)
    have "(take out buf @ take n (byte_ticks v) @ drop (out + n) buf)[out + n := x] =
        take out buf @ take n (byte_ticks v) @ x # drop (out + Suc n) buf" for x
      using list_update_length [of "take out buf @ take n (byte_ticks v)"] len by (simp add: tl)
    moreover have "push_bit n v * 2 = push_bit n (v * 2)" by (simp add: push_bit_eq_mult)
    ultimately show ?case using Suc b top by (simp add: f_def tick)
  qed simp
  from this [of 8] show ?thesis by (simp add: load_byte_at_def f_def)
qed

lemma set_pixel:
  assumes "idx < WS2812_LEDS" "length (s_buf w) = WS_BUF_HALFWORDS"
  shows "ws2812_set_pixel idx c w =
    w\<lparr>s_buf := take (24 * idx) (s_buf w) @ pixel_ticks c @ drop (24 * Suc idx) (s_buf w)\<rparr>"
proof -
  obtain r g b where c: "c = (r, g, b)" by (cases c)
  let ?B = "s_buf w" and ?p = "24 * idx"
  have le: "?p + 24 \<le> length ?B" using assms by simp
  have 1: "load_byte_at ?p g ?B = take ?p ?B @ byte_ticks g @ drop (?p + 8) ?B" by (rule load_byte) (use le in simp)
  have 2: "load_byte_at (?p + 8) r (load_byte_at ?p g ?B) = take ?p ?B @ byte_ticks g @ byte_ticks r @ drop (?p + 16) ?B"
    unfolding 1 using le by (subst load_byte) (simp_all add: min_def add.commute)
  have 3: "load_byte_at (?p + 16) b (load_byte_at (?p + 8) r (load_byte_at ?p g ?B)) =
      take ?p ?B @ (byte_ticks g @ byte_ticks r @ byte_ticks b) @ drop (?p + 24) ?B"
    unfolding 2 using le by (subst load_byte) (simp_all add: min_def add.commute)
  show ?thesis using assms(1) 3 by (simp add: ws2812_set_pixel_def c pixel_ticks_def Let_def mult.commute add.commute)
qed

section \<open>Rendering puts the frame on the wire\<close>

definition tail_of :: "ws2812 \<Rightarrow> u16 list" where
  "tail_of w = drop WS_FRAME_BITS (s_buf w)"

definition shows_frame :: "ws2812 \<Rightarrow> rgb list \<Rightarrow> bool" where
  "shows_frame w frm \<longleftrightarrow> length frm = WS2812_LEDS \<and> length (s_buf w) = WS_BUF_HALFWORDS \<and>
     take WS_FRAME_BITS (s_buf w) = concat (map pixel_ticks frm)"

text \<open>Writing every light, whatever was in the buffer.\<close>

lemma fill_pixels:
  assumes "length (s_buf w) = WS_BUF_HALFWORDS" "n \<le> WS2812_LEDS"
  shows "s_buf (fold (\<lambda>i. ws2812_set_pixel i (f i)) [0 ..< n] w) =
    concat (map (\<lambda>i. pixel_ticks (f i)) [0 ..< n]) @ drop (24 * n) (s_buf w)"
  using assms(2)
proof (induction n)
  case (Suc n)
  let ?w = "fold (\<lambda>i. ws2812_set_pixel i (f i)) [0 ..< n] w"
  have len: "length (concat (map (\<lambda>i. pixel_ticks (f i)) [0 ..< n])) = 24 * n"
    by (induction n) simp_all
  have IH: "s_buf ?w = concat (map (\<lambda>i. pixel_ticks (f i)) [0 ..< n]) @ drop (24 * n) (s_buf w)" using Suc by simp
  then have "length (s_buf ?w) = WS_BUF_HALFWORDS" using assms(1) Suc.prems len by simp
  from set_pixel [OF _ this, of n "f n"] Suc.prems show ?case
    by (simp add: IH len add.commute)
qed simp

lemma shows_fill:
  assumes "length (s_buf w) = WS_BUF_HALFWORDS"
  shows "shows_frame (fold (\<lambda>i. ws2812_set_pixel i (f i)) [0 ..< WS2812_LEDS] w) (map f [0 ..< WS2812_LEDS])"
proof -
  have "length (concat (map (\<lambda>i. pixel_ticks (f i)) [0 ..< WS2812_LEDS])) = 3216"
    using length_pixels [of "map f [0 ..< WS2812_LEDS]"] by (simp add: o_def del: length_pixels)
  then show ?thesis unfolding shows_frame_def fill_pixels [OF assms order_refl] using assms by (simp add: o_def)
qed

lemma shows_set:
  assumes "shows_frame w frm" "i < WS2812_LEDS"
  shows "shows_frame (ws2812_set_pixel i c w) (frm[i := c])"
proof -
  let ?T = "concat (map pixel_ticks frm)"
  have len: "length frm = WS2812_LEDS" "length (s_buf w) = WS_BUF_HALFWORDS" "take WS_FRAME_BITS (s_buf w) = ?T"
    using assms(1) by (simp_all add: shows_frame_def)
  have sb: "s_buf w = ?T @ tail_of w" using len(3) by (metis append_take_drop_id tail_of_def)
  have parts: "take (24 * k) ?T = concat (map pixel_ticks (take k frm))" "drop (24 * k) ?T = concat (map pixel_ticks (drop k frm))"
    if "k \<le> length frm" for k
  proof -
    have "?T = concat (map pixel_ticks (take k frm)) @ concat (map pixel_ticks (drop k frm))"
      by (metis append_take_drop_id concat_append map_append)
    moreover have "length (concat (map pixel_ticks (take k frm))) = 24 * k" using that by simp
    ultimately show "take (24 * k) ?T = concat (map pixel_ticks (take k frm))" "drop (24 * k) ?T = concat (map pixel_ticks (drop k frm))"
      by (simp_all add: append_eq_conv_conj)
  qed
  have lt: "length ?T = 3216" using len(1) by simp
  have "s_buf (ws2812_set_pixel i c w) =
      (take (24 * i) ?T @ pixel_ticks c @ drop (24 * Suc i) ?T) @ tail_of w"
    using set_pixel [OF assms(2) len(2)] assms(2) lt by (simp add: sb)
  also have "take (24 * i) ?T @ pixel_ticks c @ drop (24 * Suc i) ?T = concat (map pixel_ticks (frm[i := c]))"
    using parts [of i] parts [of "Suc i"] assms(2) len(1) by (simp add: upd_conv_take_nth_drop)
  finally have "s_buf (ws2812_set_pixel i c w) = concat (map pixel_ticks (frm[i := c])) @ tail_of w" .
  moreover have "length (tail_of w) = 60" using len(2) by (simp add: tail_of_def)
  ultimately show ?thesis using len(1) by (simp add: shows_frame_def)
qed

lemma shows_sets:
  assumes "shows_frame w frm" "set is \<subseteq> {..< WS2812_LEDS}"
  shows "shows_frame (fold (\<lambda>i. ws2812_set_pixel i c) is w) (fold (\<lambda>i f. f[i := c]) is frm)"
  using assms
proof (induction "is" arbitrary: w frm)
  case (Cons i js)
  then show ?case using shows_set [of w frm i c] by simp
qed simp

lemma shows_show: "shows_frame w frm \<Longrightarrow> s_buf (ws2812_show w) = strip frm \<and> s_dma_busy (ws2812_show w)"
  by (simp add: shows_frame_def ws2812_show_def strip_def)

section \<open>The frame a state should show\<close>

definition dimmed :: "u8 \<Rightarrow> rgb \<Rightarrow> rgb" where
  "dimmed pct c = (let (r, g, b) = c in (scaled_gamma r pct, scaled_gamma g pct, scaled_gamma b pct))"

definition solid :: "rgb \<Rightarrow> rgb list" where
  "solid c = replicate WS2812_LEDS c"

definition state_frame :: "led_inputs \<Rightarrow> u32 \<Rightarrow> rgb list" where
  "state_frame a t =
     (let pct = brightness_pct a; e = in_evse a in
      if e = evse_num EVSE_BOOT \<or> e = evse_num EVSE_SELF_TEST
      then (solid (0, 0, 0))[boot_sweep_pos t := dimmed pct (255, 255, 255)]
      else if e = evse_num EVSE_READY
      then solid (dimmed pct (if in_j1772 a = j1772_num J1772_STATE_B then (0, 0, 255) else (0, 64, 0)))
      else if e = evse_num EVSE_CHARGING then map (comet_pixel (comet_head t (charge_ratio a)) (0, 255, 255) pct) [0 ..< WS2812_LEDS]
      else if e = evse_num EVSE_USER_PAUSED then solid (dimmed pct (breathe t 2000, breathe t 2000, 0))
      else if e = evse_num EVSE_COOLING_DOWN then solid (dimmed pct (breathe t 1000, breathe t 1000 div 2, 0))
      else if e = evse_num EVSE_FAULT then solid (dimmed pct (255, 0, 0))
      else solid (0, 0, 0))"

text \<open>An override first, then a halting fault, then the state with the overlay of a degraded link.\<close>

definition led_frame :: "led_inputs \<Rightarrow> u32 \<Rightarrow> rgb list" where
  "led_frame a t =
     (if override_mode a = 1 then solid (dimmed (brightness_pct a) (override_rgb a))
      else if in_fault_bits a AND FAULT_LATCHED_MASK \<noteq> 0
      then solid (dimmed (brightness_pct a) (flash t (if bit (in_fault_bits a) FAULT_GFCI then 200 else 500), 0, 0))
      else if comms_degraded a then fold (\<lambda>i f. f[i := (64, 0, 64)]) (filter (\<lambda>i. i mod 3 = 0) [0 ..< WS2812_LEDS]) (state_frame a t)
      else state_frame a t)"

lemma shows_all: "length (s_buf w) = WS_BUF_HALFWORDS \<Longrightarrow> shows_frame (fill_all c pct w) (solid (dimmed pct c))"
  using shows_fill [of w "\<lambda>_. dimmed pct c"]
  by (cases c) (simp add: fill_all_def dimmed_def solid_def map_replicate_const del: upt_Suc)

lemma shows_clear: "length (s_buf w) = WS_BUF_HALFWORDS \<Longrightarrow> shows_frame (ws2812_clear w) (solid (0, 0, 0))"
  using shows_fill [of w "\<lambda>_. (0, 0, 0)"] by (simp add: ws2812_clear_def solid_def map_replicate_const del: upt_Suc)

lemma sweep_in: "boot_sweep_pos t < WS2812_LEDS"
  by (simp add: boot_sweep_pos_def unat_mod_distrib)

lemma gfci_alert: "(drop_bit FAULT_GFCI (b AND FAULT_LATCHED_MASK) AND 1 \<noteq> 0) = bit b FAULT_GFCI"
proof -
  have one: "(x AND 1 \<noteq> 0) = odd x" for x :: u32 by (simp add: and_one_eq odd_iff_mod_2_eq_one)
  have "bit FAULT_LATCHED_MASK FAULT_GFCI" by (simp add: FAULT_LATCHED_MASK_def)
  then show ?thesis unfolding one by (metis bit_and_iff bit_iff_odd_drop_bit)
qed

theorem render_shows:
  assumes "length (s_buf w) = WS_BUF_HALFWORDS"
  shows "s_buf (led_render a t w) = strip (led_frame a t) \<and> s_dma_busy (led_render a t w)"
proof -
  note all = shows_all [OF assms] and clr = shows_clear [OF assms]
  note sweep = shows_set [OF clr sweep_in [of t]]
  note comet = shows_fill [OF assms, of "comet_pixel (comet_head t (charge_ratio a)) (0, 255, 255) (brightness_pct a)"]
  define w1 where "w1 = (let pct = brightness_pct a; e = in_evse a in
            if e = evse_num EVSE_BOOT \<or> e = evse_num EVSE_SELF_TEST
                  then let v = scaled_gamma 255 pct in ws2812_set_pixel (boot_sweep_pos t) (v, v, v) (ws2812_clear w)
                  else if e = evse_num EVSE_READY
                  then if in_j1772 a = j1772_num J1772_STATE_B then fill_all (0, 0, 255) pct w else fill_all (0, 64, 0) pct w
                  else if e = evse_num EVSE_CHARGING then render_comet t (charge_ratio a) (0, 255, 255) pct w
                  else if e = evse_num EVSE_USER_PAUSED then let v = breathe t 2000 in fill_all (v, v, 0) pct w
                  else if e = evse_num EVSE_COOLING_DOWN then let v = breathe t 1000 in fill_all (v, v div 2, 0) pct w
                  else if e = evse_num EVSE_FAULT then fill_all (255, 0, 0) pct w
                  else ws2812_clear w)"
  have white: "dimmed (brightness_pct a) (255, 255, 255) =
      (scaled_gamma 255 (brightness_pct a), scaled_gamma 255 (brightness_pct a), scaled_gamma 255 (brightness_pct a))"
    by (simp add: dimmed_def)
  have s1: "shows_frame w1 (state_frame a t)"
    unfolding w1_def state_frame_def Let_def
    using sweep [where c = "dimmed (brightness_pct a) (255, 255, 255)", unfolded white] all clr comet
    by (simp add: render_comet_def white)
  have run: "led_render a t w =
      (if override_mode a = 1 then ws2812_show (fill_all (override_rgb a) (brightness_pct a) w)
       else if in_fault_bits a AND FAULT_LATCHED_MASK \<noteq> 0
       then ws2812_show (fill_all (flash t (if bit (in_fault_bits a) FAULT_GFCI then 200 else 500), 0, 0) (brightness_pct a) w)
       else ws2812_show (if comms_degraded a then apply_comms_overlay 3 w1 else w1))"
    unfolding led_render_def Let_def gfci_alert w1_def ..
  have "shows_frame (apply_comms_overlay 3 w1)
      (fold (\<lambda>i f. f[i := (64, 0, 64)]) (filter (\<lambda>i. i mod 3 = 0) [0 ..< WS2812_LEDS]) (state_frame a t))"
    unfolding apply_comms_overlay_def by (rule shows_sets [OF s1]) auto
  then show ?thesis unfolding run led_frame_def
    using shows_show [OF all] shows_show [OF s1] shows_show by auto
qed

end
