(* ===== verification/Led_Brightness.thy ===== *)
theory Led_Brightness
  imports Led_Patterns
begin

text \<open>
  No channel of a rendered frame is brighter than the set share of full brightness: the gamma curve,
  the scaling by percent and the fading tail of the comet, computed in 32-bit words as the code
  does, against the same arithmetic on naturals.
\<close>

text \<open>The arithmetic of a channel on naturals: nothing wraps.\<close>

lemma unat_u8_u32: "unat (ucast (v :: u8) :: u32) = unat v"
  using unsigned_less [of v, where 'a = nat] by (simp add: unsigned_ucast_eq take_bit_nat_eq_self)

lemma unat_u32_u8: "unat (w :: u32) < 256 \<Longrightarrow> unat (ucast w :: u8) = unat w"
  by (simp add: unsigned_ucast_eq take_bit_nat_eq_self)

lemma unat_mul: "unat a * unat b < 4294967296 \<Longrightarrow> unat (a * b :: u32) = unat a * unat b"
  by (simp add: unat_word_ariths)

lemma u8_lt: "unat (v :: u8) \<le> 255"
  using unsigned_less [of v, where 'a = nat] by simp

lemma square_le: "unat ((ucast (v :: u8) * ucast v) div 255 :: u32) = unat v * unat v div 255" "unat v * unat v div 255 \<le> 255"
proof -
  have "unat v * unat v \<le> 255 * 255" using u8_lt [of v] by (rule mult_le_mono [OF u8_lt])
  then show "unat v * unat v div 255 \<le> 255" by simp
  have "unat v * unat v < 4294967296" using \<open>unat v * unat v \<le> 255 * 255\<close> by simp
  then have "unat (ucast v * ucast v :: u32) = unat v * unat v" using unat_mul [of "ucast v" "ucast v"] by (simp add: unat_u8_u32)
  then show "unat ((ucast (v :: u8) * ucast v) div 255 :: u32) = unat v * unat v div 255" by (simp add: unat_div_distrib)
qed

text \<open>A gamma value scaled by at most a hundred percent.\<close>

lemma scaled:
  assumes "unat g \<le> 255" "unat k \<le> 100"
  shows "unat (ucast ((g * k) div 100 :: u32) :: u8) = unat g * unat k div 100"
proof -
  have le: "unat g * unat k \<le> 255 * 100" by (rule mult_le_mono [OF assms])
  then have "unat ((g * k) div 100) = unat g * unat k div 100" by (simp add: unat_div_distrib unat_mul)
  moreover have "unat g * unat k div 100 < 256" using le by simp
  ultimately show ?thesis by (simp add: unat_u32_u8)
qed

lemma scaled_gamma_nat:
  assumes "unat pct \<le> 100"
  shows "unat (scaled_gamma v pct) = unat v * unat v div 255 * unat pct div 100"
  using scaled [of "(ucast v * ucast v) div 255" "ucast pct"] assms square_le [of v]
  by (simp add: scaled_gamma_def Let_def unat_u8_u32)

definition within :: "u8 \<Rightarrow> rgb \<Rightarrow> bool" where
  "within pct c = (let (r, g, b) = c; m = 255 * unat pct
     in 100 * unat r \<le> m \<and> 100 * unat g \<le> m \<and> 100 * unat b \<le> m)"

lemma share_le:
  fixes x p :: nat
  assumes "x \<le> 255"
  shows "100 * (x * p div 100) \<le> 255 * p"
proof -
  have "100 * (x * p div 100) \<le> x * p" by simp
  also have "\<dots> \<le> 255 * p" using assms by simp
  finally show ?thesis .
qed

lemma dimmed_within: "unat pct \<le> 100 \<Longrightarrow> within pct (dimmed pct c)"
  using share_le [OF square_le(2)] by (cases c) (simp add: within_def dimmed_def scaled_gamma_nat)

lemma within_black [simp]: "within pct (0, 0, 0)"
  by (simp add: within_def)

text \<open>The ramps of the comet: \<open>6 + 94 * k / m\<close> for \<open>k\<close> at most \<open>m\<close>.\<close>

lemma ramp_le:
  assumes "unat k \<le> unat m" "unat m \<le> 2560" "m \<noteq> 0"
  shows "unat (6 + (94 * k) div m :: u32) \<le> 100"
proof -
  have "unat (94 * k) = 94 * unat k" using assms(1,2) by (subst unat_mul) simp_all
  moreover have "94 * unat k div unat m \<le> 94"
  proof -
    have "94 * unat k div unat m \<le> 94 * unat m div unat m" using assms(1) by (intro div_le_mono) simp
    then show ?thesis using assms(3) by (simp add: unat_eq_0)
  qed
  ultimately have "unat (94 * k div m) \<le> 94" by (simp add: unat_div_distrib)
  then show ?thesis by (simp add: unat_word_ariths)
qed

lemma comet_pct_le:
  assumes "d < 34304"
  shows "unat (comet_pct d) \<le> 100"
proof -
  consider "d < 2048" | "\<not> d < 2048" "d < 4608" | "\<not> d < 4608" "d \<ge> 34048" | "\<not> d < 4608" "\<not> d \<ge> 34048" by blast
  then show ?thesis
  proof cases
    case 2
    then have u: "unat (d - 2048) = unat d - 2048" by (simp add: unat_sub not_less)
    have "unat d < 4608" using 2(2) by (simp add: word_less_nat_alt)
    then have "d - 2048 \<le> 2560" using u by (simp add: word_le_nat_alt)
    then have "unat (2560 - (d - 2048)) \<le> 2560" by (subst unat_sub) simp_all
    with ramp_le [of "2560 - (d - 2048)" 2560] 2 show ?thesis by (simp add: comet_pct_def)
  next
    case 3
    have "d \<le> 34304" using assms by simp
    then have u: "unat (34304 - d) = 34304 - unat d" by (simp add: unat_sub)
    have "34048 \<le> unat d" using 3(2) by (simp add: word_le_nat_alt)
    then have "34304 - d \<le> 256" using u by (simp add: word_le_nat_alt)
    then have "unat (256 - (34304 - d)) \<le> 256" by (subst unat_sub) simp_all
    with ramp_le [of "256 - (34304 - d)" 256] 3 show ?thesis by (simp add: comet_pct_def)
  qed (simp_all add: comet_pct_def)
qed

lemma comet_within:
  assumes "unat pct \<le> 100"
  shows "within pct (comet_pixel h c pct i)"
proof -
  define d where "d = (34304 + h - of_nat i * 256) mod (34304 :: u32)"
  have "d < 34304" unfolding d_def by (rule word_mod_less_divisor) simp
  then have cp: "unat (comet_pct d) \<le> 100" by (rule comet_pct_le)
  let ?k = "(comet_pct d * ucast pct) div 100 :: u32"
  have le: "unat (comet_pct d) * unat pct \<le> 100 * unat pct" using cp by simp
  also have "\<dots> \<le> 10000" using assms by simp
  finally have "unat ?k = unat (comet_pct d) * unat pct div 100"
    by (simp add: unat_div_distrib unat_mul unat_u8_u32)
  moreover have "unat (comet_pct d) * unat pct div 100 \<le> unat pct" using div_le_mono [OF le, of 100] by simp
  ultimately have k: "unat ?k \<le> unat pct" by simp
  have ch: "100 * unat (ucast (((ucast v * ucast v) div 255 :: u32) * ?k div 100) :: u8) \<le> 255 * unat pct" for v :: u8
  proof -
    have "unat (ucast (((ucast v * ucast v) div 255 :: u32) * ?k div 100) :: u8) =
        unat ((ucast v * ucast v) div 255 :: u32) * unat ?k div 100"
      by (rule scaled) (use square_le [of v] k assms in simp_all)
    also have "100 * \<dots> \<le> 255 * unat ?k" by (rule share_le) (use square_le [of v] in simp)
    also have "\<dots> \<le> 255 * unat pct" using k by simp
    finally show ?thesis .
  qed
  obtain r g b where c: "c = (r, g, b)" by (cases c)
  show ?thesis using ch [of r] ch [of g] ch [of b] by (simp add: within_def comet_pixel_def Let_def c d_def)
qed

lemma state_within:
  assumes "unat (brightness_pct a) \<le> 100"
  shows "\<forall>c \<in> set (state_frame a t). within (brightness_pct a) c"
  using dimmed_within [OF assms] comet_within [OF assms] set_update_subset_insert
  unfolding state_frame_def Let_def solid_def
  by (auto simp del: upt_Suc replicate.simps split: if_splits dest!: set_update_subset_insert [THEN subsetD])

lemma frame_within:
  assumes "unat (brightness_pct a) \<le> 100" "\<not> comms_degraded a"
  shows "\<forall>c \<in> set (led_frame a t). within (brightness_pct a) c"
  using dimmed_within [OF assms(1)] state_within [OF assms(1), of t] assms(2)
  unfolding led_frame_def solid_def by auto

end
