(* ===== verification/Io_Task.thy ===== *)
theory Io_Task
  imports Buttons Led_Brightness Link_Spec
begin

text \<open>
  The panel task of \<^verbatim>\<open>src/src/tasks/io_task.c\<close>: every 20 ms it polls the buttons, turns a press of the
  top one into a pause or a resume request, drives the buzzer and the light strip from the published
  state and, once, a minute after its start, posts the alive mark. It works on what the other tasks
  share (\<open>comms_state\<close>) and on a state of its own; log lines, the converter dump and the stack dump
  are left out. \<open>ui_run\<close> is a run of the three tasks and the interrupts in any order.
\<close>

abbreviation (input) "IO_TICK_MS \<equiv> (20 :: u32)"
abbreviation (input) "HB_TOGGLE_MS \<equiv> (500 :: u32)"
abbreviation (input) "ALIVE_MARKER_MS \<equiv> (60000 :: u32)"
abbreviation (input) "LED_BRIGHTNESS_PCT \<equiv> (60 :: u8)"

text \<open>What a pass reads from the hardware: the ladder's conversion and the level of the pin.\<close>

record io_env =
  btn_raw :: u16
  pc9_level :: bool

text \<open>The locals of the loop, the statics of buttons.c and ws2812.c, and the two output pins.\<close>

record io_state =
  io_ms :: u32
  hb_level :: bool
  alive_posted :: bool
  boot_buzz_armed :: bool
  prev_charging :: bool
  prev_fault :: u32
  btns :: buttons
  leds :: ws2812
  buzzer_pin :: bool

section \<open>Requests to the supervisor\<close>

definition safety_request_pause :: "u8 \<Rightarrow> comms_state \<Rightarrow> comms_state" where
  "safety_request_pause reason c = post_safety SAFETY_REQ_USER_PAUSE reason 0 c"

definition safety_request_resume :: "comms_state \<Rightarrow> comms_state" where
  "safety_request_resume c = post_safety SAFETY_REQ_USER_RESUME 0 0 c"

definition button_pressed :: "button_id \<Rightarrow> openevcharger_state \<Rightarrow> comms_state \<Rightarrow> comms_state" where
  "button_pressed ev s c =
     (if ev = BTN_TOP
      then if ss_evse_state s = evse_num EVSE_READY \<or> ss_evse_state s = evse_num EVSE_CHARGING
           then safety_request_pause 1 c
           else if ss_evse_state s = evse_num EVSE_USER_PAUSED then safety_request_resume c
           else c
      else c)"

section \<open>Sounds and lights\<close>

definition buzzer_init :: "io_state \<Rightarrow> io_state" where
  "buzzer_init i = i\<lparr>buzzer_pin := False\<rparr>"

definition boot_sound :: "openevcharger_state \<Rightarrow> bool \<Rightarrow> buzzer \<Rightarrow> bool \<times> buzzer" where
  "boot_sound s armed z =
     (if armed \<and> ss_evse_state s \<noteq> evse_num EVSE_BOOT \<and> ss_evse_state s \<noteq> evse_num EVSE_SELF_TEST
      then (False, buzzer_set_pattern (if ss_evse_state s = evse_num EVSE_FAULT then BUZ_BOOT_FAIL else BUZ_BOOT_PASS) z)
      else (armed, z))"

definition session_sound :: "bool \<Rightarrow> bool \<Rightarrow> buzzer \<Rightarrow> buzzer" where
  "session_sound charging_now charging_before z =
     (let z1 = (if charging_now \<and> \<not> charging_before then buzzer_set_pattern BUZ_SESSION_START z else z)
      in if \<not> charging_now \<and> charging_before then buzzer_set_pattern BUZ_SESSION_END z1 else z1)"

definition fault_sound :: "u32 \<Rightarrow> u32 \<Rightarrow> buzzer \<Rightarrow> buzzer" where
  "fault_sound alerting_bits before z =
     (if alerting_bits \<noteq> 0 \<and> before = 0
      then let gfci = (drop_bit FAULT_GFCI alerting_bits AND 1 \<noteq> 0)
           in buzzer_set_pattern (if gfci then BUZ_FAULT_GFCI else BUZ_FAULT_NON_GFCI) z
      else if alerting_bits = 0 \<and> before \<noteq> 0 then buzzer_set_pattern BUZ_OFF z
      else z)"

definition led_override_get :: "led_override \<Rightarrow> u8 \<times> rgb" where
  "led_override_get l = (s_override_mode l, s_override_rgb l)"

definition led_inputs_of :: "openevcharger_state \<Rightarrow> led_override \<Rightarrow> led_inputs" where
  "led_inputs_of s l =
     (let (ovr_mode, ovr_rgb) = led_override_get l
      in \<lparr>in_evse = ss_evse_state s, in_j1772 = ss_j1772_state s, in_fault_bits = ss_fault_active_bits s,
          comms_degraded = False, brightness_pct = LED_BRIGHTNESS_PCT, in_advertised_amps = ss_advertised_amps s,
          in_active_amps_x10 = ss_active_amps_x10 s, override_mode = ovr_mode, override_rgb = ovr_rgb\<rparr>)"

definition ws2812_reset :: ws2812 where
  "ws2812_reset = \<lparr>s_buf = replicate WS_BUF_HALFWORDS 0, s_dma_busy = False\<rparr>"

text \<open>The registers of the timer and the DMA channel are set up once and not modelled.\<close>

definition ws2812_init :: "ws2812 \<Rightarrow> ws2812" where
  "ws2812_init w = ws2812_clear w"

section \<open>The task\<close>

definition startup_record :: "u32 \<Rightarrow> u16 \<Rightarrow> event_record" where
  "startup_record tick mv =
     \<lparr>ev_timestamp = tick, ev_boot_count = 0, ev_fault_id = 0xB001, ev_j1772_state = 0xA0, ev_evse_state = 0xB1,
      ev_cp_mv = mv, ev_cc_amps = 0, ev_ntc1_dC = 0, ev_ntc2_dC = 0, ev_active_amps_x10 = 0,
      ev_reserved = replicate 10 0, ev_crc16 = 0\<rparr>"

definition io_reset :: io_state where
  "io_reset = \<lparr>io_ms = 0, hb_level = False, alive_posted = False, boot_buzz_armed = True, prev_charging = False,
     prev_fault = 0, btns = buttons_reset, leds = ws2812_reset, buzzer_pin = False\<rparr>"

definition io_boot :: "u32 \<Rightarrow> u16 \<Rightarrow> comms_state \<Rightarrow> comms_state \<times> io_state" where
  "io_boot tick mv c =
     (to_persist (persist_post_event (startup_record tick mv)) c,
      (buzzer_init io_reset)\<lparr>btns := buttons_init buttons_reset, leds := ws2812_init ws2812_reset\<rparr>)"

definition io_heartbeat :: "io_state \<Rightarrow> io_state" where
  "io_heartbeat i = (if io_ms i mod HB_TOGGLE_MS = 0 then i\<lparr>hb_level := \<not> hb_level i\<rparr> else i)"

definition io_buttons :: "io_env \<Rightarrow> comms_state \<times> io_state \<Rightarrow> comms_state \<times> io_state" where
  "io_buttons e x =
     (let (c, i) = x; b = buttons_poll (btn_raw e) (pc9_level e) (btns i);
          s = snap (sup c); (btn_evt, b') = buttons_consume_event b
      in (button_pressed btn_evt s c, i\<lparr>btns := b'\<rparr>))"

definition io_sounds :: "openevcharger_state \<Rightarrow> comms_state \<times> io_state \<Rightarrow> comms_state \<times> io_state" where
  "io_sounds s x =
     (let (c, i) = x;
          (armed, z1) = boot_sound s (boot_buzz_armed i) (buz c);
          charging_now = (ss_evse_state s = evse_num EVSE_CHARGING);
          z2 = session_sound charging_now (prev_charging i) z1;
          alerting_bits = ss_fault_active_bits s AND FAULT_LATCHED_MASK;
          z3 = fault_sound alerting_bits (prev_fault i) z2;
          (on, z4) = buzzer_tick (io_ms i) z3
      in (c\<lparr>buz := z4\<rparr>,
          i\<lparr>boot_buzz_armed := armed, prev_charging := charging_now, prev_fault := alerting_bits, buzzer_pin := on\<rparr>))"

definition io_lights :: "openevcharger_state \<Rightarrow> led_override \<Rightarrow> io_state \<Rightarrow> io_state" where
  "io_lights s l i =
     (if \<not> s_dma_busy (leds i) then i\<lparr>leds := led_render (led_inputs_of s l) (io_ms i) (leds i)\<rparr> else i)"

definition io_alive :: "comms_state \<times> io_state \<Rightarrow> comms_state \<times> io_state" where
  "io_alive x =
     (let (c, i) = x
      in if \<not> alive_posted i \<and> io_ms i \<ge> ALIVE_MARKER_MS
         then (to_persist persist_post_crash_state_reset c, i\<lparr>alive_posted := True\<rparr>) else (c, i))"

text \<open>One pass of the loop. The snapshot is taken once, after the buttons are polled; only requests
  are posted between that and its last use.\<close>

definition io_pass :: "io_env \<Rightarrow> comms_state \<times> io_state \<Rightarrow> comms_state \<times> io_state" where
  "io_pass e x =
     (let (c0, i0) = x; s = snap (sup c0);
          (c1, i1) = io_buttons e (c0, io_heartbeat i0);
          (c2, i2) = io_sounds s (c1, i1);
          (c3, i3) = io_alive (c2, io_lights s (led c2) i2)
      in (c3, i3\<lparr>io_ms := io_ms i3 + IO_TICK_MS\<rparr>))"

section \<open>Runs of the whole\<close>

datatype ui_event = Sys sys_event | Panel io_env | LedIrq

fun ui_step :: "ui_event \<Rightarrow> comms_state \<times> io_state \<Rightarrow> comms_state \<times> io_state" where
  "ui_step (Sys ev) (c, i) = (sys_step ev c, i)"
| "ui_step (Panel e) x = io_pass e x"
| "ui_step LedIrq (c, i) = (c, i\<lparr>leds := DMA0_Channel1_IRQHandler (leds i)\<rparr>)"

definition ui_run :: "ui_event list \<Rightarrow> comms_state \<times> io_state \<Rightarrow> comms_state \<times> io_state" where
  "ui_run evs x = fold ui_step evs x"

lemma ui_run_simps [simp]:
  "ui_run [] x = x" "ui_run (ev # evs) x = ui_run evs (ui_step ev x)" "ui_run (xs @ ys) x = ui_run ys (ui_run xs x)"
  by (simp_all add: ui_run_def)

text \<open>The parts of a pass, one by one.\<close>

lemma sup_pressed [simp]: "sup (button_pressed ev s c) =
    (if ev = BTN_TOP
     then if ss_evse_state s = evse_num EVSE_READY \<or> ss_evse_state s = evse_num EVSE_CHARGING
          then snd (post_safety_req SAFETY_REQ_USER_PAUSE 1 0 (sup c))
          else if ss_evse_state s = evse_num EVSE_USER_PAUSED then snd (post_safety_req SAFETY_REQ_USER_RESUME 0 0 (sup c))
          else sup c
     else sup c)"
  by (simp add: button_pressed_def safety_request_pause_def safety_request_resume_def post_safety_def)

lemma pressed_frame [simp]:
  "pq (button_pressed ev s c) = pq c" "led (button_pressed ev s c) = led c" "buz (button_pressed ev s c) = buz c"
  by (simp_all add: button_pressed_def safety_request_pause_def safety_request_resume_def post_safety_def)

lemma heartbeat_frame [simp]:
  "io_ms (io_heartbeat i) = io_ms i" "alive_posted (io_heartbeat i) = alive_posted i" "btns (io_heartbeat i) = btns i"
  "leds (io_heartbeat i) = leds i" "prev_fault (io_heartbeat i) = prev_fault i"
  by (simp_all add: io_heartbeat_def)

lemma buttons_eq: "io_buttons e (c, i) =
    (let (ev, b) = buttons_consume_event (buttons_poll (btn_raw e) (pc9_level e) (btns i))
     in (button_pressed ev (snap (sup c)) c, i\<lparr>btns := b\<rparr>))"
  by (simp add: io_buttons_def)

lemma sounds_frame [simp]:
  "sup (fst (io_sounds s x)) = sup (fst x)" "pq (fst (io_sounds s x)) = pq (fst x)" "led (fst (io_sounds s x)) = led (fst x)"
  "io_ms (snd (io_sounds s x)) = io_ms (snd x)" "alive_posted (snd (io_sounds s x)) = alive_posted (snd x)"
  "btns (snd (io_sounds s x)) = btns (snd x)" "leds (snd (io_sounds s x)) = leds (snd x)"
  by (simp_all add: io_sounds_def case_prod_unfold Let_def)

lemma lights_frame [simp]:
  "io_ms (io_lights s l i) = io_ms i" "alive_posted (io_lights s l i) = alive_posted i" "btns (io_lights s l i) = btns i"
  "leds (io_lights s l i) = (if s_dma_busy (leds i) then leds i else led_render (led_inputs_of s l) (io_ms i) (leds i))"
  by (simp_all add: io_lights_def)

lemma alive_frame [simp]:
  "sup (fst (io_alive x)) = sup (fst x)"
  "pq (fst (io_alive x)) =
     (if \<not> alive_posted (snd x) \<and> io_ms (snd x) \<ge> ALIVE_MARKER_MS then snd (persist_post_crash_state_reset (pq (fst x))) else pq (fst x))"
  "io_ms (snd (io_alive x)) = io_ms (snd x)" "btns (snd (io_alive x)) = btns (snd x)" "leds (snd (io_alive x)) = leds (snd x)"
  "alive_posted (snd (io_alive x)) \<longleftrightarrow> alive_posted (snd x) \<or> io_ms (snd x) \<ge> ALIVE_MARKER_MS"
  by (auto simp: io_alive_def to_persist_def case_prod_unfold Let_def)

definition pass_press :: "io_env \<Rightarrow> io_state \<Rightarrow> button_id" where
  "pass_press e i = fst (buttons_consume_event (buttons_poll (btn_raw e) (pc9_level e) (btns i)))"

lemma io_pass_eq:
  "io_pass e (c, i) =
    (let s = snap (sup c);
         x1 = (button_pressed (pass_press e i) s c,
               (io_heartbeat i)\<lparr>btns := snd (buttons_consume_event (buttons_poll (btn_raw e) (pc9_level e) (btns i)))\<rparr>);
         x2 = io_sounds s x1; x3 = io_alive (fst x2, io_lights s (led (fst x2)) (snd x2))
     in (fst x3, (snd x3)\<lparr>io_ms := io_ms (snd x3) + IO_TICK_MS\<rparr>))"
  by (simp add: io_pass_def buttons_eq pass_press_def case_prod_unfold Let_def)

lemma pass_fields:
  "sup (fst (io_pass e (c, i))) = sup (button_pressed (pass_press e i) (snap (sup c)) c)"
  "pq (fst (io_pass e (c, i))) =
     (if \<not> alive_posted i \<and> io_ms i \<ge> ALIVE_MARKER_MS then snd (persist_post_crash_state_reset (pq c)) else pq c)"
  "alive_posted (snd (io_pass e (c, i))) \<longleftrightarrow> alive_posted i \<or> io_ms i \<ge> ALIVE_MARKER_MS"
  "io_ms (snd (io_pass e (c, i))) = io_ms i + 20"
  "btns (snd (io_pass e (c, i))) = snd (buttons_consume_event (buttons_poll (btn_raw e) (pc9_level e) (btns i)))"
  "leds (snd (io_pass e (c, i))) =
     (if s_dma_busy (leds i) then leds i else led_render (led_inputs_of (snap (sup c)) (led c)) (io_ms i) (leds i))"
  by (simp_all add: io_pass_eq Let_def del: sup_pressed)

end
