(* ===== verification/Panel_Runs.thy ===== *)
theory Panel_Runs
  imports Io_Task
begin

text \<open>
  Runs of the supervisor, the communications task, the panel task and the interrupts in any order:
  what they keep of the contactor, what a pause request does at the next tick, the presses of a run,
  the alive mark and the frame buffer.
\<close>

section \<open>The supervisor under all events\<close>

text \<open>A pass acts on the supervisor through its inbox alone.\<close>

lemma panel_sup: "reachable (sup (fst x)) \<Longrightarrow> reachable (sup (fst (io_pass e x)))"
  "hw_view (sup (fst (io_pass e x))) = hw_view (sup (fst x))"
proof -
  obtain c i where x: "x = (c, i)" by (cases x)
  have post: "reachable s \<Longrightarrow> reachable (snd (post_safety_req ty a b s))" for s ty a b
    using reachable.stepped [of s "Post ty a b"] by simp
  show "reachable (sup (fst x)) \<Longrightarrow> reachable (sup (fst (io_pass e x)))" by (simp add: x pass_fields post)
  show "hw_view (sup (fst (io_pass e x))) = hw_view (sup (fst x))" by (simp add: x pass_fields hw_view_def)
qed

definition ticks :: "ui_event \<Rightarrow> bool" where
  "ticks ev \<longleftrightarrow> (\<exists>te. ev = Sys (Super te))"

lemma ui_reachable_step: "reachable (sup (fst x)) \<Longrightarrow> reachable (sup (fst (ui_step ev x)))"
  by (cases x; cases ev) (simp_all add: step_reachable panel_sup)

lemma ui_reachable: "reachable (sup (fst x)) \<Longrightarrow> reachable (sup (fst (ui_run evs x)))"
  by (induction evs arbitrary: x) (simp_all add: ui_reachable_step)

lemma ui_hw_step:
  assumes "\<not> ticks ev"
  shows "hw_view (sup (fst (ui_step ev x))) = hw_view (sup (fst x))"
proof (cases ev)
  case (Sys sev)
  with assms obtain w where "sev = Wire w" by (cases sev) (auto simp: ticks_def)
  with Sys show ?thesis using wire_hw [of "[w]" "fst x"] by (cases x) simp
qed (cases x; simp add: panel_sup)+

lemma ui_hw: "list_all (\<lambda>ev. \<not> ticks ev) evs \<Longrightarrow> hw_view (sup (fst (ui_run evs x))) = hw_view (sup (fst x))"
  by (induction evs arbitrary: x) (simp_all add: ui_hw_step)

definition contactor_follows :: "safety_state \<Rightarrow> bool" where
  "contactor_follows s \<longleftrightarrow> (contactor_energised (relay s) \<longleftrightarrow> es s = EVSE_CHARGING)"

lemma follows_hw: "hw_view s = hw_view t \<Longrightarrow> contactor_follows s = contactor_follows t"
  by (simp add: hw_view_def contactor_follows_def)

lemma follows_tick: "reachable s \<Longrightarrow> contactor_follows (safety_tick te s)"
  using reachable_ok [of s] reachable_ok [OF reachable_tick, of s te]
  by (simp add: contactor_follows_def energised_commanded tick_commanded_iff)

lemma follows_run:
  "reachable (sup (fst x)) \<Longrightarrow> contactor_follows (sup (fst x)) \<Longrightarrow> contactor_follows (sup (fst (ui_run evs x)))"
proof (induction evs arbitrary: x)
  case (Cons ev evs)
  have "contactor_follows (sup (fst (ui_step ev x)))"
  proof (cases "ticks ev")
    case True
    then obtain te where "ev = Sys (Super te)" by (auto simp: ticks_def)
    then show ?thesis using follows_tick [OF Cons.prems(1), of te] by (cases x) simp
  next
    case False
    then show ?thesis using follows_hw [OF ui_hw_step [OF False, of x]] Cons.prems(2) by simp
  qed
  then show ?case using Cons.IH ui_reachable_step Cons.prems(1) by simp
qed simp

lemma step_super: "sup (fst (ui_step (Sys (Super te)) x)) = safety_tick te (sup (fst x))"
  by (cases x) simp

lemma follows_always:
  assumes "reachable (sup (fst x))"
  shows "contactor_follows (sup (fst (ui_run (Sys (Super te) # evs) x)))"
proof -
  obtain c i where x: "x = (c, i)" by (cases x)
  have "reachable (safety_tick te (sup c))" "contactor_follows (safety_tick te (sup c))"
    using assms by (simp_all add: x reachable_tick follows_tick)
  then show ?thesis by (simp add: x follows_run)
qed

section \<open>A pause request and the tick after it\<close>

abbreviation running_state :: "safety_state \<Rightarrow> bool" where
  "running_state s \<equiv> es s \<in> {EVSE_READY, EVSE_CHARGING, EVSE_USER_PAUSED}"

lemma request_running: "running_state s \<Longrightarrow> running_state (process_request e r s)"
  by (cases "req_type r") (auto simp: process_request_def request_clear_fault_def leave_fault_def
      request_simulate_replug_def publish_rfid_config_def publish_gfci_policy_def Let_def split: option.split)

text \<open>A pause waiting last among at most four requests is what the drain ends with.\<close>

lemma drain_pause:
  assumes "running_state s" "inbox s = rs @ [r]" "req_type r = SAFETY_REQ_USER_PAUSE" "length rs < n"
  shows "es (drain_loop n e s) = EVSE_USER_PAUSED"
  using assms
proof (induction n arbitrary: s rs)
  case (Suc n)
  show ?case
  proof (cases rs)
    case Nil
    have "es (process_request e r (s\<lparr>inbox := []\<rparr>)) = EVSE_USER_PAUSED"
      using Suc.prems(1,3) by (auto simp: process_request_def)
    moreover have "inbox (process_request e r (s\<lparr>inbox := []\<rparr>)) = []" by simp
    ultimately show ?thesis using Suc.prems(2) Nil by (cases n) simp_all
  next
    case (Cons q qs)
    let ?s = "process_request e q (s\<lparr>inbox := qs @ [r]\<rparr>)"
    have "running_state ?s" using Suc.prems(1) request_running [of "s\<lparr>inbox := qs @ [r]\<rparr>" e q] by simp
    moreover have "inbox ?s = qs @ [r]" by simp
    ultimately have "es (drain_loop n e ?s) = EVSE_USER_PAUSED"
      using Suc.IH [of ?s qs] Suc.prems(3,4) Cons by simp
    then show ?thesis using Suc.prems(2) Cons by simp
  qed
qed simp

lemma front_pause:
  assumes "running_state s" "inbox s = rs @ [r]" "req_type r = SAFETY_REQ_USER_PAUSE" "length rs < 4"
  shows "es (tick_front e s) = EVSE_USER_PAUSED \<or> tick_js e s \<noteq> J1772_STATE_C"
proof -
  define d where "d = drain_inbox e s"
  have paused: "es d = EVSE_USER_PAUSED" using drain_pause [OF assms] by (simp add: d_def drain_inbox_def)
  consider "s_replug_window_ticks d = 1" | "s_replug_window_ticks d \<noteq> 1" by blast
  then show ?thesis
  proof cases
    case 1
    then have "cp (service_replug_window e d) = j1772_init" by (simp add: service_replug_window_def Let_def)
    then have "tick_js e s \<noteq> J1772_STATE_C"
      by (simp add: tick_js_def tick_front_def d_def [symmetric] classify_pilot_def Let_def j1772_step_def j1772_init_def)
    then show ?thesis ..
  next
    case 2
    then have "es (service_replug_window e d) = EVSE_USER_PAUSED"
      using paused by (simp add: service_replug_window_def Let_def)
    then show ?thesis by (simp add: tick_front_def d_def [symmetric] classify_pilot_def Let_def)
  qed
qed

lemma checks_keep_paused:
  assumes "es s = EVSE_USER_PAUSED"
  shows "es (fault_checks e js mv s) \<notin> {EVSE_READY, EVSE_CHARGING}"
proof -
  let ?ok = "\<lambda>t. es t \<in> {EVSE_USER_PAUSED, EVSE_FAULT}"
  have hard: "?ok t \<Longrightarrow> es t' = es t \<or> es t' = EVSE_FAULT \<Longrightarrow> ?ok t'" for t t' by auto
  have ot: "?ok t \<Longrightarrow> es (check_over_temp e r1 r2 t) \<notin> {EVSE_READY, EVSE_CHARGING}" for r1 r2 t
    by (auto simp: check_over_temp_def Let_def case_prod_unfold)
  have st: "?ok (check_safe_fail e js mv s)" by (rule hard [OF _ safe_fail_det.only_to_fault]) (simp add: assms)
  have relays: "?ok (if RELAY_FEEDBACK_KNOWN (flags e)
      then check_relay_stuck_open e js mv (check_relay_weld e js mv (check_safe_fail e js mv s)) else check_safe_fail e js mv s)"
    using hard [OF hard [OF st weld_det.only_to_fault] stuck_det.only_to_fault] st by simp
  show ?thesis unfolding fault_checks_def Let_def
    by (rule ot, rule hard [OF _ cp_e_det.only_to_fault], rule hard [OF _ cc_det.only_to_fault],
      rule hard [OF _ adc_det.only_to_fault], rule hard [OF _ pe_det.only_to_fault], rule hard [OF _ gfci_det.only_to_fault], rule relays)
qed

lemma pause_stops:
  assumes "running_state s" "inbox s = rs @ [r]" "req_type r = SAFETY_REQ_USER_PAUSE" "length rs < 4"
  shows "es (safety_tick e s) \<noteq> EVSE_CHARGING"
proof
  let ?f = "fault_checks e (tick_js e s) (cp_high_in e) (tick_front e s)"
  assume charging: "es (safety_tick e s) = EVSE_CHARGING"
  have "es (tick_outputs e s) = EVSE_CHARGING"
    by (rule meter_det.never_starts [of e "tick_js e s" "cp_high_in e"])
      (use charging in \<open>simp add: safety_tick_body tick_body_def\<close>)
  then have up: "es (update_evse_from_j1772 e (tick_js e s) ?f) = EVSE_CHARGING" by (simp add: tick_outputs_def)
  then have "es (tick_front e s) = EVSE_USER_PAUSED" using front_pause [OF assms, of e] update_charging_C by blast
  then have "es ?f \<notin> {EVSE_READY, EVSE_CHARGING}" by (rule checks_keep_paused)
  then show False using update_start(3) [OF _ up] by simp
qed

text \<open>A tick drains the whole inbox; the reader may post one request after that.\<close>

lemma drain_inbox_rest: "inbox (drain_loop n e s) = drop n (inbox s)"
proof (induction n arbitrary: s)
  case (Suc n)
  then show ?case by (cases "inbox s") simp_all
qed simp

lemma rfid_block_inbox: "length (inbox (rfid_block e s)) \<le> Suc (length (inbox s))"
  by (simp add: rfid_block_def rfid_timers_def rfid_edge_def card_swiped_def authorized_swipe_def publish_rfid_config_def
      post_safety_req_def Let_def case_prod_unfold)

lemma tick_inbox:
  assumes "reachable s"
  shows "length (inbox (safety_tick e s)) \<le> 1"
proof -
  have le: "length (inbox s) \<le> 4" using reachable_ok [OF assms] by (simp add: sup_ok_def base_ok_def)
  have "inbox (tick_front e s) = []"
    using le by (simp add: tick_front_def drain_inbox_def drain_inbox_rest service_replug_window_def classify_pilot_def Let_def)
  then have "inbox (meter_poll e (tick_js e s) (cp_high_in e) (tick_outputs e s)) = []"
    by (simp add: tick_outputs_def meter_poll_def meter_checks_def apply_outputs_def fault_checks_def Let_def)
  then show ?thesis using rfid_block_inbox [of e "meter_poll e (tick_js e s) (cp_high_in e) (tick_outputs e s)"]
    by (simp add: safety_tick_body tick_body_def)
qed

section \<open>The published state\<close>

definition published :: "safety_state \<Rightarrow> bool" where
  "published s \<longleftrightarrow> ss_evse_state (snap s) = evse_num (es s)"

lemma published_tick: "published (safety_tick e s)"
  by (simp add: published_def safety_tick_def Let_def snapshot_of_def)

lemma post_snap [simp]: "snap (snd (post_safety_req ty a b s)) = snap s"
  by (simp add: post_safety_req_def)

lemma wire_snap: "snap (sup (comms_step ev c)) = snap (sup c)"
proof (cases ev)
  case (Pass e)
  have logged: "snap (sup (dispatch_logged e cmd seq p c)) = snap (sup c)" for cmd seq p c
    using dispatch_sup [of e cmd seq p "c\<lparr>handled := handled c @ [(cmd, seq, p)]\<rparr>"] by (auto simp: dispatch_logged_def)
  have "snap (sup (snd (parse_loop e b c))) = snap (sup c)" for b c
    by (rule loop_invariant [where P = "\<lambda>x. snap (sup x) = snap (sup c)"]) (simp_all add: logged)
  with Pass show ?thesis by (simp add: pass_eq Let_def)
qed simp

lemma panel_snap: "snap (sup (fst (io_pass e x))) = snap (sup (fst x))"
  by (cases x) (simp add: pass_fields)

lemma published_step: "published (sup (fst x)) \<Longrightarrow> published (sup (fst (ui_step ev x)))"
proof (cases "ticks ev")
  case True
  then obtain te where "ev = Sys (Super te)" by (auto simp: ticks_def)
  then show ?thesis by (cases x) (simp add: published_tick)
next
  case False
  have es: "es (sup (fst (ui_step ev x))) = es (sup (fst x))" using ui_hw_step [OF False, of x] by (simp add: hw_view_def)
  have "snap (sup (fst (ui_step ev x))) = snap (sup (fst x))"
  proof (cases ev)
    case (Sys sev)
    with False obtain w where "sev = Wire w" by (cases sev) (auto simp: ticks_def)
    with Sys show ?thesis by (cases x) (simp add: wire_snap)
  qed (cases x; simp add: panel_snap)+
  with es show "published (sup (fst x)) \<Longrightarrow> ?thesis" by (simp add: published_def)
qed

lemma published_run: "published (sup (fst x)) \<Longrightarrow> published (sup (fst (ui_run evs x)))"
  by (induction evs arbitrary: x) (simp_all add: published_step)

section \<open>The presses of a run\<close>

fun panel_ins :: "ui_event list \<Rightarrow> (u16 \<times> bool) list" where
  "panel_ins [] = []"
| "panel_ins (ev # evs) = (case ev of Panel e \<Rightarrow> (btn_raw e, pc9_level e) # panel_ins evs | _ \<Rightarrow> panel_ins evs)"

text \<open>The event each pass of a run consumes and acts on.\<close>

fun presses :: "ui_event list \<Rightarrow> comms_state \<times> io_state \<Rightarrow> button_id list" where
  "presses [] x = []"
| "presses (ev # evs) x =
     (case ev of Panel e \<Rightarrow> pass_press e (snd x) # presses evs (ui_step ev x) | _ \<Rightarrow> presses evs (ui_step ev x))"

definition elsewhere :: "ui_event \<Rightarrow> bool" where
  "elsewhere ev \<longleftrightarrow> (\<forall>e. ev \<noteq> Panel e)"

lemma elsewhere_step: "elsewhere ev \<Longrightarrow> btns (snd (ui_step ev x)) = btns (snd x)"
  by (cases x; cases ev) (simp_all add: elsewhere_def)

lemma elsewhere_run: "list_all elsewhere evs \<Longrightarrow> btns (snd (ui_run evs x)) = btns (snd x)"
  by (induction evs arbitrary: x) (simp_all add: elsewhere_step)

lemma presses_poll: "presses evs x = fst (poll_run (panel_ins evs) (btns (snd x)))"
proof (induction evs arbitrary: x)
  case (Cons ev evs)
  obtain c i where x: "x = (c, i)" by (cases x)
  show ?case
    using Cons [of "ui_step ev x"]
    by (cases ev) (simp_all add: x pass_press_def pass_fields case_prod_unfold Let_def)
qed simp

lemma init_states: "ladder_state (buttons_init buttons_reset) []" "pc9_state (buttons_init buttons_reset) []"
  "s_pending_event (buttons_init buttons_reset) = BTN_NONE"
  by (simp_all add: ladder_state_def pc9_state_def buttons_init_def buttons_reset_def streak_of_def)

text \<open>Two polls of the top button bring an idle panel one poll short of the press.\<close>

definition idle_panel :: "buttons \<Rightarrow> bool" where
  "idle_panel b \<longleftrightarrow> btn_committed b = BTN_NONE \<and> btn_candidate b = BTN_NONE \<and> \<not> pc9_committed b \<and> \<not> pc9_candidate b \<and>
     s_pending_event b = BTN_NONE"

definition holds_top :: "io_env \<Rightarrow> bool" where
  "holds_top e \<longleftrightarrow> BAND_TOP_LO \<le> btn_raw e \<and> btn_raw e \<le> BAND_TOP_HI \<and> pc9_level e"

definition top_for :: "nat \<Rightarrow> buttons \<Rightarrow> bool" where
  "top_for n b \<longleftrightarrow> btn_committed b = BTN_NONE \<and> btn_candidate b = BTN_TOP \<and> btn_streak b = n \<and> \<not> pc9_committed b \<and>
     \<not> pc9_candidate b \<and> s_pending_event b = BTN_NONE"

lemma classify_top: "BAND_TOP_LO \<le> r \<Longrightarrow> r \<le> BAND_TOP_HI \<Longrightarrow> classify_ladder r c = BTN_TOP"
proof -
  assume r: "BAND_TOP_LO \<le> r" "r \<le> BAND_TOP_HI"
  then have "\<not> r \<le> 400" "\<not> r \<le> 1700" by (auto simp: word_le_nat_alt)
  with r show ?thesis by (simp add: classify_ladder_def)
qed

lemma pc9_idle:
  assumes "\<not> pc9_candidate b" "\<not> pc9_committed b"
  shows "\<exists>n. poll_pc9 True b = b\<lparr>pc9_streak := n\<rparr>"
proof (cases "pc9_streak b < 3")
  case True
  with assms show ?thesis by (auto simp: poll_pc9_def Let_def)
next
  case False
  with assms have "poll_pc9 True b = b\<lparr>pc9_streak := pc9_streak b\<rparr>" by (simp add: poll_pc9_def Let_def)
  then show ?thesis ..
qed

lemma top_polls:
  assumes "holds_top e"
  shows "idle_panel b \<Longrightarrow> top_for 1 (snd (buttons_consume_event (buttons_poll (btn_raw e) (pc9_level e) b)))"
    "top_for 1 b \<Longrightarrow> top_for 2 (snd (buttons_consume_event (buttons_poll (btn_raw e) (pc9_level e) b)))"
    "top_for 2 b \<Longrightarrow> fst (buttons_consume_event (buttons_poll (btn_raw e) (pc9_level e) b)) = BTN_TOP"
proof -
  let ?l = "poll_ladder (btn_raw e) b"
  have cl: "classify_ladder (btn_raw e) c = BTN_TOP" for c using assms classify_top by (simp add: holds_top_def)
  have lvl: "pc9_level e" using assms by (simp add: holds_top_def)
  have pin: "pc9_candidate ?l = pc9_candidate b" "pc9_committed ?l = pc9_committed b" by (simp_all add: poll_ladder_def Let_def)
  show "idle_panel b \<Longrightarrow> top_for 1 (snd (buttons_consume_event (buttons_poll (btn_raw e) (pc9_level e) b)))"
    using pc9_idle [of ?l] by (auto simp: pin lvl idle_panel_def top_for_def buttons_poll_def buttons_consume_event_def poll_ladder_def cl Let_def)
  show "top_for 1 b \<Longrightarrow> top_for 2 (snd (buttons_consume_event (buttons_poll (btn_raw e) (pc9_level e) b)))"
    using pc9_idle [of ?l] by (auto simp: pin lvl top_for_def buttons_poll_def buttons_consume_event_def poll_ladder_def cl Let_def)
  show "top_for 2 b \<Longrightarrow> fst (buttons_consume_event (buttons_poll (btn_raw e) (pc9_level e) b)) = BTN_TOP"
    using pc9_idle [of ?l] by (auto simp: pin lvl top_for_def buttons_poll_def buttons_consume_event_def poll_ladder_def cl Let_def)
qed

lemma step_btns: "btns (snd (ui_step (Panel e) x)) = snd (buttons_consume_event (buttons_poll (btn_raw e) (pc9_level e) (btns (snd x))))"
  by (cases x) (simp add: pass_fields)

lemma top_held:
  assumes "idle_panel (btns (snd x))" "holds_top e1" "holds_top e2" "holds_top e3" "list_all elsewhere us" "list_all elsewhere vs"
  shows "pass_press e3 (snd (ui_run (Panel e1 # us @ Panel e2 # vs) x)) = BTN_TOP"
proof -
  have "top_for 1 (btns (snd (ui_run us (ui_step (Panel e1) x))))"
    unfolding elsewhere_run [OF assms(5)] step_btns by (rule top_polls(1) [OF assms(2,1)])
  then have "top_for 2 (btns (snd (ui_run vs (ui_step (Panel e2) (ui_run us (ui_step (Panel e1) x))))))"
    unfolding elsewhere_run [OF assms(6)] step_btns by (rule top_polls(2) [OF assms(3)])
  then show ?thesis using top_polls(3) [OF assms(4)] by (simp add: pass_press_def del: ui_step.simps)
qed

section \<open>The alive mark\<close>

definition alive_requests :: "comms_state \<Rightarrow> nat" where
  "alive_requests c = count_list (waiting (pq c)) PERSIST_REQ_CRASH_STATE_RESET"

lemma alive_requests_frame [simp]:
  "alive_requests (snd (send_frame e cmd seq p c)) = alive_requests c" "alive_requests (post_safety ty a b c) = alive_requests c"
  "alive_requests (c\<lparr>led := l\<rparr>) = alive_requests c" "alive_requests (c\<lparr>buz := z\<rparr>) = alive_requests c"
  "alive_requests (c\<lparr>clock := k\<rparr>) = alive_requests c" "alive_requests (c\<lparr>rtc_stores := rs\<rparr>) = alive_requests c"
  "alive_requests (c\<lparr>resetting := rb\<rparr>) = alive_requests c" "alive_requests (c\<lparr>handled := hs\<rparr>) = alive_requests c"
  "alive_requests (c\<lparr>ring := r\<rparr>) = alive_requests c" "alive_requests (c\<lparr>accum := ac\<rparr>) = alive_requests c"
  "alive_requests (c\<lparr>sup := s\<rparr>) = alive_requests c"
  by (simp_all add: alive_requests_def send_frame_def post_safety_def split: option.split)

lemma alive_requests_post [simp]:
  "r \<noteq> PERSIST_REQ_CRASH_STATE_RESET \<Longrightarrow> alive_requests (to_persist (post_persist r) c) = alive_requests c"
  by (simp add: alive_requests_def to_persist_def post_persist_def)

lemma post_alive_defs:
  "(\<And>q. f q = post_persist r q) \<Longrightarrow> r \<noteq> PERSIST_REQ_CRASH_STATE_RESET \<Longrightarrow> alive_requests (to_persist f c) = alive_requests c"
  using alive_requests_post [of r c] by (simp add: to_persist_def)

lemma chunk_alive: "alive_requests (to_persist (persist_post_ota_chunk sid off data seq) c) = alive_requests c"
  by (simp add: alive_requests_def to_persist_def persist_post_ota_chunk_def post_persist_def)

lemma dispatch_alive: "alive_requests (dispatch e cmd seq p c) = alive_requests c"
  by (rule dispatch_rule [where P = "\<lambda>x. alive_requests x = alive_requests c"];
    (simp add: handler_defs handle_restart_def Let_def chunk_alive)?;
    (intro impI conjI)?; (rule post_alive_defs, simp_all add: persist_post_defs)?; simp?)

lemma wire_alive: "alive_requests (comms_step ev c) = alive_requests c"
proof (cases ev)
  case (Pass e)
  have "alive_requests (snd (parse_loop e b c)) = alive_requests c" for b c
    by (rule loop_invariant [where P = "\<lambda>x. alive_requests x = alive_requests c"])
      (simp_all add: dispatch_logged_def dispatch_alive)
  with Pass show ?thesis by (simp add: pass_eq Let_def)
qed simp

text \<open>The clock of the panel counts its passes until the mark, and nothing but the mark posts it.\<close>

fun passes :: "ui_event list \<Rightarrow> nat" where
  "passes [] = 0"
| "passes (ev # evs) = (case ev of Panel e \<Rightarrow> Suc (passes evs) | _ \<Rightarrow> passes evs)"

definition counting :: "nat \<Rightarrow> comms_state \<times> io_state \<Rightarrow> bool" where
  "counting n x \<longleftrightarrow> \<not> alive_posted (snd x) \<and> unat (io_ms (snd x)) = 20 * n \<and> alive_requests (fst x) = 0"

definition marked :: "nat \<Rightarrow> comms_state \<times> io_state \<Rightarrow> bool" where
  "marked k x \<longleftrightarrow> alive_posted (snd x) \<and> alive_requests (fst x) = k"

lemma pass_alive:
  "alive_requests (fst (io_pass e (c, i))) =
    (if \<not> alive_posted i \<and> io_ms i \<ge> ALIVE_MARKER_MS \<and> length (waiting (pq c)) < PERSIST_QUEUE_DEPTH
     then Suc (alive_requests c) else alive_requests c)"
  by (simp add: alive_requests_def pass_fields persist_post_crash_state_reset_def post_persist_def)

lemma other_step:
  assumes "elsewhere ev"
  shows "alive_requests (fst (ui_step ev x)) = alive_requests (fst x)" "alive_posted (snd (ui_step ev x)) = alive_posted (snd x)"
    "io_ms (snd (ui_step ev x)) = io_ms (snd x)"
proof -
  obtain c i where x: "x = (c, i)" by (cases x)
  consider w where "ev = Sys (Wire w)" | te where "ev = Sys (Super te)" | "ev = LedIrq"
    using assms by (metis elsewhere_def sys_event.exhaust ui_event.exhaust)
  then show "alive_requests (fst (ui_step ev x)) = alive_requests (fst x)" "alive_posted (snd (ui_step ev x)) = alive_posted (snd x)"
    "io_ms (snd (ui_step ev x)) = io_ms (snd x)"
    by (cases; simp add: x wire_alive)+
qed

lemma counting_pass: "counting n x \<Longrightarrow> n < 3000 \<Longrightarrow> counting (Suc n) (io_pass e x)"
proof -
  assume h: "counting n x" "n < 3000"
  obtain c i where x: "x = (c, i)" by (cases x)
  have u: "unat (io_ms i) = 20 * n" using h(1) by (simp add: counting_def x)
  have "\<not> io_ms i \<ge> 60000" using u h(2) by (simp add: word_le_nat_alt)
  moreover have "unat (io_ms i + 20) = 20 * Suc n" using u h(2) by (simp add: unat_word_ariths)
  ultimately show ?thesis using h(1) by (simp add: counting_def x pass_alive pass_fields)
qed

lemma counting_run: "counting n x \<Longrightarrow> n + passes evs \<le> 3000 \<Longrightarrow> counting (n + passes evs) (ui_run evs x)"
proof (induction evs arbitrary: n x)
  case (Cons ev evs)
  show ?case
  proof (cases "elsewhere ev")
    case True
    have "counting n (ui_step ev x)" using Cons.prems(1) by (simp add: counting_def other_step [OF True])
    then show ?thesis using Cons.IH [of n "ui_step ev x"] Cons.prems(2) True by (cases ev) (simp_all add: elsewhere_def)
  next
    case False
    then obtain e where ev: "ev = Panel e" by (auto simp: elsewhere_def)
    with Cons.prems have "counting (Suc n) (ui_step ev x)" by (simp add: counting_pass)
    then show ?thesis using Cons.IH [of "Suc n" "ui_step ev x"] Cons.prems(2) by (simp add: ev)
  qed
qed simp

lemma marking_pass:
  assumes "counting 3000 x" "length (waiting (pq (fst x))) < PERSIST_QUEUE_DEPTH"
  shows "marked 1 (io_pass e x)"
proof -
  obtain c i where x: "x = (c, i)" by (cases x)
  have "io_ms i \<ge> 60000" using assms(1) by (simp add: counting_def x word_le_nat_alt)
  with assms show ?thesis by (simp add: counting_def marked_def x pass_alive pass_fields)
qed

lemma marked_run: "marked k x \<Longrightarrow> marked k (ui_run evs x)"
proof (induction evs arbitrary: x)
  case (Cons ev evs)
  have "marked k (ui_step ev x)"
  proof (cases "elsewhere ev")
    case True
    then show ?thesis using Cons.prems by (simp add: marked_def other_step)
  next
    case False
    then obtain e where ev: "ev = Panel e" by (auto simp: elsewhere_def)
    obtain c i where x: "x = (c, i)" by (cases x)
    show ?thesis using Cons.prems by (simp add: marked_def ev x pass_alive pass_fields)
  qed
  then show ?case using Cons.IH by simp
qed simp

lemma boot_counting: "counting 0 (io_boot tick mv (comms_boot s))"
  by (simp add: counting_def io_boot_def io_reset_def buzzer_init_def persist_post_event_def comms_boot_def
      alive_requests_def to_persist_def post_persist_def)

section \<open>The frame buffer\<close>

lemma length_updates [simp]: "length (fold (\<lambda>i f. f[i := c]) js frm) = length frm"
  by (induction js arbitrary: frm) simp_all

lemma length_frame [simp]: "length (led_frame a t) = WS2812_LEDS"
  by (simp add: led_frame_def state_frame_def solid_def Let_def del: replicate.simps upt_Suc)

lemma length_strip: "length (strip frm) = 24 * length frm + WS_RESET_PADDING"
  by (simp add: strip_def)

definition buffer_ok :: "comms_state \<times> io_state \<Rightarrow> bool" where
  "buffer_ok x \<longleftrightarrow> length (s_buf (leds (snd x))) = WS_BUF_HALFWORDS"

lemma buffer_step: "buffer_ok x \<Longrightarrow> buffer_ok (ui_step ev x)"
proof (cases ev)
  case (Panel e)
  obtain c i where x: "x = (c, i)" by (cases x)
  assume "buffer_ok x"
  then have len: "length (s_buf (leds i)) = WS_BUF_HALFWORDS" by (simp add: buffer_ok_def x)
  then have "length (s_buf (led_render a t (leds i))) = WS_BUF_HALFWORDS" for a t
    using render_shows [OF len, of a t] by (simp add: length_strip)
  then show ?thesis using len by (simp add: Panel x buffer_ok_def pass_fields)
qed (cases x; simp add: buffer_ok_def DMA0_Channel1_IRQHandler_def)+

lemma buffer_run: "buffer_ok x \<Longrightarrow> buffer_ok (ui_run evs x)"
  by (induction evs arbitrary: x) (simp_all add: buffer_step)

lemma boot_buffer: "buffer_ok (io_boot tick mv c)"
proof -
  have "length (s_buf ws2812_reset) = WS_BUF_HALFWORDS" by (simp add: ws2812_reset_def)
  from shows_clear [OF this] show ?thesis by (simp add: buffer_ok_def io_boot_def ws2812_init_def shows_frame_def)
qed

text \<open>The wire code is unambiguous.\<close>

lemma pixel_ticks_inj: "pixel_ticks c = pixel_ticks c' \<longleftrightarrow> c = c'"
  by (cases c; cases c') (auto simp: pixel_ticks_def byte_ticks_inj)

lemma strip_inj:
  assumes "length frm = length frm'" "strip frm = strip frm'"
  shows "frm = frm'"
proof -
  have "concat (map pixel_ticks frm) = concat (map pixel_ticks frm')" using assms(2) by (simp add: strip_def)
  with assms(1) show ?thesis
    by (induction frm frm' rule: list_induct2) (simp_all add: pixel_ticks_inj)
qed

end
