(* ===== verification/Led_Table.thy ===== *)
theory Led_Table
  imports Led_Brightness System_State
begin

text \<open>
  The colours of the strip as a table over the published state, in numbers: which state shows which
  colour and how it moves (\<open>lights_ok\<close>), for the default brightness of 60 percent and no override.
  Nothing of it is taken from the rendering code; the lemmas show that \<open>led_frame\<close> follows it.
\<close>

text \<open>The level of a channel behind the gamma curve at 60 percent: 153 is full, 9 the dim green of 64.\<close>

definition level :: "nat \<Rightarrow> nat" where
  "level v = v * v div 255 * 60 div 100"

text \<open>Breathing between 125 and 255 along a triangle of \<open>p\<close> milliseconds; the doubled time wraps at 32 bits.\<close>

definition triangle :: "nat \<Rightarrow> nat \<Rightarrow> nat" where
  "triangle p t = (let ph = (2 * t mod 4294967296) mod (2 * p) in if ph < p then ph else 2 * p - ph)"

definition breath :: "nat \<Rightarrow> nat \<Rightarrow> nat" where
  "breath p t = 125 + 130 * triangle p t div p"

definition levels :: "rgb \<Rightarrow> nat \<times> nat \<times> nat" where
  "levels c = (let (r, g, b) = c in (unat r, unat g, unat b))"

definition lights_ok :: "openevcharger_state \<Rightarrow> nat \<Rightarrow> rgb list \<Rightarrow> bool" where
  "lights_ok s t frm \<longleftrightarrow> length frm = 134 \<and>
     (let e = ss_evse_state s; bits = ss_fault_active_bits s; all = (\<lambda>c. \<forall>p \<in> set frm. levels p = c) in
      if \<exists>f \<in> latched_ids. bit bits f
      then let period = (if bit bits FAULT_GFCI then 200 else 500)
           in all (if t mod period < period div 2 then (153, 0, 0) else (0, 0, 0))
      else if e = evse_num EVSE_BOOT \<or> e = evse_num EVSE_SELF_TEST
      then \<forall>j < 134. levels (frm ! j) = (if j = t div 7 mod 134 then (153, 153, 153) else (0, 0, 0))
      else if e = evse_num EVSE_READY
      then all (if ss_j1772_state s = j1772_num J1772_STATE_B then (0, 0, 153) else (0, 9, 0))
      else if e = evse_num EVSE_CHARGING
      then (\<forall>p \<in> set frm. \<exists>v. levels p = (0, v, v) \<and> 7 \<le> v \<and> v \<le> 153) \<and> (\<exists>p \<in> set frm. levels p = (0, 153, 153))
      else if e = evse_num EVSE_USER_PAUSED then all (level (breath 2000 t), level (breath 2000 t), 0)
      else if e = evse_num EVSE_COOLING_DOWN then all (level (breath 1000 t), level (breath 1000 t div 2), 0)
      else if e = evse_num EVSE_FAULT then all (153, 0, 0)
      else all (0, 0, 0))"

lemma latched_bits: "b AND FAULT_LATCHED_MASK \<noteq> 0 \<longleftrightarrow> (\<exists>f \<in> latched_ids. bit b f)" for b :: u32
proof -
  have "b AND FAULT_LATCHED_MASK \<noteq> 0 \<longleftrightarrow> (\<exists>n. bit (b AND FAULT_LATCHED_MASK) n)"
    by (metis bit_eqI bit_0_eq bot_apply bot_bool_def)
  then show ?thesis unfolding latched_loop_mask_eq [symmetric] by (auto simp: bit_and_iff bit_latched_mask)
qed

lemma dimmed_levels: "levels (dimmed 60 (r, g, b)) = (level (unat r), level (unat g), level (unat b))"
  by (simp add: levels_def dimmed_def scaled_gamma_nat level_def)

lemma flash_nat: "unat (flash t 200) = (if unat t mod 200 < 100 then 255 else 0)"
  "unat (flash t 500) = (if unat t mod 500 < 250 then 255 else 0)"
  by (simp_all add: flash_def word_less_nat_alt unat_mod_distrib)

lemma breathe_nat:
  assumes "unat p = q" "0 < q" "q \<le> 2000"
  shows "unat (breathe t p) = breath q (unat t)"
proof -
  have p0: "p \<noteq> 0" using assms by auto
  have p2: "unat (p * 2) = 2 * q" using assms by (simp add: unat_mul)
  define ph where "ph = (t * 2) mod (p * 2)"
  have t2: "unat (t * 2) = 2 * unat t mod 4294967296" by (simp add: unat_word_ariths mult.commute)
  have ph: "unat ph = (2 * unat t mod 4294967296) mod (2 * q)"
    unfolding ph_def unat_mod_distrib p2 t2 ..
  then have lt: "unat ph < 2 * q" using assms(2) by simp
  define pos where "pos = (if ph < p then ph else p * 2 - ph)"
  have pos: "unat pos = triangle q (unat t)" "unat pos \<le> q"
    using lt ph p2 assms(1) by (auto simp: pos_def triangle_def Let_def word_less_nat_alt unat_sub word_le_nat_alt)
  have "unat pos * 130 \<le> 2000 * 130" using pos(2) assms(3) by simp
  then have "unat (pos * 130) = 130 * triangle q (unat t)" using pos(1) by (subst unat_mul) simp_all
  then have "unat (pos * 130 div p) = 130 * triangle q (unat t) div q" by (simp add: unat_div_distrib assms(1))
  moreover have "130 * triangle q (unat t) div q \<le> 130"
  proof -
    have "130 * triangle q (unat t) div q \<le> 130 * q div q" using pos by (intro div_le_mono) simp
    then show ?thesis using assms(2) by simp
  qed
  ultimately have "unat (125 + pos * 130 div p) = breath q (unat t)" "breath q (unat t) < 256"
    by (simp_all add: unat_word_ariths breath_def)
  moreover have "breathe t p = ucast (125 + pos * 130 div p)"
    using p0 lt p2 by (simp add: breathe_def Let_def pos_def ph_def word_le_nat_alt)
  ultimately show ?thesis by (simp add: unat_u32_u8)
qed


text \<open>The comet is cyan everywhere, never darker than its background and full at its head.\<close>

lemma ramp_ge:
  assumes "unat k \<le> unat m" "unat m \<le> 2560" "m \<noteq> 0"
  shows "6 \<le> unat (6 + (94 * k) div m :: u32)"
proof -
  have "unat (94 * k) = 94 * unat k" using assms(1,2) by (subst unat_mul) simp_all
  moreover have "94 * unat k div unat m \<le> 94 * unat m div unat m" using assms(1) by (intro div_le_mono) simp
  moreover have "94 * unat m div unat m = 94" using assms(3) by (simp add: unat_eq_0)
  ultimately have "unat (94 * k div m) \<le> 94" by (simp add: unat_div_distrib)
  then show ?thesis by (simp add: unat_word_ariths)
qed

lemma comet_pct_ge: "d < 34304 \<Longrightarrow> 6 \<le> unat (comet_pct d)"
proof -
  assume d: "d < 34304"
  consider "d < 2048" | "\<not> d < 2048" "d < 4608" | "\<not> d < 4608" "d \<ge> 34048" | "\<not> d < 4608" "\<not> d \<ge> 34048" by blast
  then show ?thesis
  proof cases
    case 2
    then have u: "unat (d - 2048) = unat d - 2048" by (simp add: unat_sub not_less)
    have "unat d < 4608" using 2(2) by (simp add: word_less_nat_alt)
    then have "d - 2048 \<le> 2560" using u by (simp add: word_le_nat_alt)
    then have "unat (2560 - (d - 2048)) \<le> 2560" by (subst unat_sub) simp_all
    with ramp_ge [of "2560 - (d - 2048)" 2560] 2 show ?thesis by (simp add: comet_pct_def)
  next
    case 3
    have "d \<le> 34304" using d by simp
    then have u: "unat (34304 - d) = 34304 - unat d" by (simp add: unat_sub)
    have "34048 \<le> unat d" using 3(2) by (simp add: word_le_nat_alt)
    then have "34304 - d \<le> 256" using u by (simp add: word_le_nat_alt)
    then have "unat (256 - (34304 - d)) \<le> 256" by (subst unat_sub) simp_all
    with ramp_ge [of "256 - (34304 - d)" 256] 3 show ?thesis by (simp add: comet_pct_def)
  qed (simp_all add: comet_pct_def)
qed

lemma comet_levels:
  fixes h :: u32
  defines "d \<equiv> \<lambda>i. (34304 + h - of_nat i * 256) mod (34304 :: u32)"
  shows "levels (comet_pixel h (0, 255, 255) 60 i) =
    (0, 255 * (unat (comet_pct (d i)) * 60 div 100) div 100, 255 * (unat (comet_pct (d i)) * 60 div 100) div 100)"
    and "d i < 34304"
proof -
  show "d i < 34304" unfolding d_def by (rule word_mod_less_divisor) simp
  then have cp: "unat (comet_pct (d i)) \<le> 100" by (rule comet_pct_le)
  then have k: "unat ((comet_pct (d i) * 60) div 100 :: u32) = unat (comet_pct (d i)) * 60 div 100"
    by (simp add: unat_div_distrib unat_mul)
  moreover have "unat (comet_pct (d i)) * 60 div 100 \<le> 100" using div_le_mono [OF mult_le_mono1 [OF cp, of 60], of 100] by simp
  ultimately have "unat (ucast ((255 * (comet_pct (d i) * 60 div 100)) div 100 :: u32) :: u8) =
      255 * (unat (comet_pct (d i)) * 60 div 100) div 100"
    using scaled [of 255 "comet_pct (d i) * 60 div 100"] by simp
  then show "levels (comet_pixel h (0, 255, 255) 60 i) =
      (0, 255 * (unat (comet_pct (d i)) * 60 div 100) div 100, 255 * (unat (comet_pct (d i)) * 60 div 100) div 100)"
    by (simp add: levels_def comet_pixel_def Let_def d_def)
qed

lemma comet_cyan:
  "\<exists>v. levels (comet_pixel h (0, 255, 255) 60 i) = (0, v, v) \<and> 7 \<le> v \<and> v \<le> 153"
proof -
  define k where "k = unat (comet_pct ((34304 + h - of_nat i * 256) mod (34304 :: u32)))"
  have "6 \<le> k" "k \<le> 100" unfolding k_def by (rule comet_pct_ge comet_pct_le, rule comet_levels(2))+
  then have "6 * 60 div 100 \<le> k * 60 div 100" "k * 60 div 100 \<le> 100 * 60 div 100" by (intro div_le_mono; simp)+
  then have "255 * 3 div 100 \<le> 255 * (k * 60 div 100) div 100" "255 * (k * 60 div 100) div 100 \<le> 255 * 60 div 100"
    by (intro div_le_mono; simp)+
  then show ?thesis using comet_levels(1) [of h i] by (simp add: k_def)
qed

lemma comet_head_lt: "unat (comet_head t r) < 34304"
proof -
  define pps :: u32 where "pps = 30 + ((200 - 30) * ucast r) div 100"
  have "unat (ucast r :: u32) \<le> 255" using u8_lt [of r] by (simp add: unat_u8_u32)
  then have "unat (170 * ucast r :: u32) = 170 * unat (ucast r :: u32)" by (subst unat_mul) simp_all
  then have "unat (170 * ucast r div 100 :: u32) = 170 * unat (ucast r :: u32) div 100" by (simp add: unat_div_distrib)
  moreover have "170 * unat (ucast r :: u32) div 100 \<le> 170 * 255 div 100"
    using \<open>unat (ucast r :: u32) \<le> 255\<close> by (intro div_le_mono) simp
  ultimately have "30 \<le> unat pps" by (simp add: pps_def unat_word_ariths)
  define period :: u32 where "period = (if 1000 * 134 div pps = 0 then 1 else 1000 * 134 div pps)"
  have "134000 div unat pps \<le> 134000 div 30" using \<open>30 \<le> unat pps\<close> by (intro div_le_mono2) simp_all
  then have "unat (1000 * 134 div pps) \<le> 4466" by (simp add: unat_div_distrib)
  then have per: "0 < unat period" "unat period \<le> 4466" by (auto simp: period_def unat_gt_0)
  have ph: "unat (t mod period) < unat period" using per by (simp add: unat_mod_distrib)
  have "unat (t mod period) * 34304 \<le> 4466 * 34304" using ph per by simp
  then have "unat ((t mod period) * 34304) = unat (t mod period) * 34304" by (subst unat_mul) simp_all
  then have "unat ((t mod period) * 34304 div period) = unat (t mod period) * 34304 div unat period"
    by (simp add: unat_div_distrib)
  also have "\<dots> < 34304"
    using ph by (simp add: less_mult_imp_div_less mult.commute)
  finally show ?thesis unfolding comet_head_def Let_def pps_def [symmetric] period_def [symmetric] .
qed

lemma comet_full: "\<exists>i < 134. levels (comet_pixel (comet_head t r) (0, 255, 255) 60 i) = (0, 153, 153)"
proof -
  define h where "h = comet_head t r"
  define i where "i = unat h div 256"
  have h: "unat h < 34304" unfolding h_def by (rule comet_head_lt)
  then have i: "i < 134" by (simp add: i_def less_mult_imp_div_less)
  have "of_nat i * 256 = (of_nat (i * 256) :: u32)" by simp
  moreover have "34304 + h = (of_nat (34304 + unat h) :: u32)" by simp
  ultimately have "34304 + h - of_nat i * 256 = (of_nat (34304 + unat h - i * 256) :: u32)"
    using i by (simp only:) (subst of_nat_diff, simp_all)
  moreover have "34304 + unat h - i * 256 = 34304 + unat h mod 256"
    by (simp add: i_def minus_div_mult_eq_mod [symmetric])
  ultimately have "34304 + h - of_nat i * 256 = (of_nat (34304 + unat h mod 256) :: u32)" by simp
  then have "unat ((34304 + h - of_nat i * 256) mod 34304) = unat (of_nat (34304 + unat h mod 256) :: u32) mod 34304"
    by (simp only: unat_mod_distrib) simp
  also have "unat (of_nat (34304 + unat h mod 256) :: u32) = 34304 + unat h mod 256"
    using mod_less_divisor [of 256 "unat h"] by (simp only: unat_of_nat) simp
  also have "(34304 + unat h mod 256) mod 34304 = unat h mod 256"
    using mod_less_divisor [of 256 "unat h"] by simp
  finally have "unat ((34304 + h - of_nat i * 256) mod 34304) = unat h mod 256" .
  then have "(34304 + h - of_nat i * 256) mod 34304 < 2048"
    using mod_less_divisor [of 256 "unat h"] by (simp add: word_less_nat_alt)
  then have "comet_pct ((34304 + h - of_nat i * 256) mod 34304) = 100" by (simp add: comet_pct_def)
  then show ?thesis using comet_levels(1) [of h i] i by (auto simp: h_def)
qed


section \<open>The rendered frame follows the table\<close>

lemma levels_all: "(\<forall>p \<in> set (solid c). levels p = x) \<longleftrightarrow> levels c = x"
  by (simp add: solid_def del: replicate.simps)

lemma sweep_pos: "boot_sweep_pos t = unat t div 7 mod 134"
  by (simp add: boot_sweep_pos_def unat_mod_distrib unat_div_distrib)

lemma level_values [simp]: "level 255 = 153" "level 64 = 9" "level 0 = 0"
  by (simp_all add: level_def)

lemma frame_follows_table:
  assumes "in_evse a = ss_evse_state s" "in_j1772 a = ss_j1772_state s" "in_fault_bits a = ss_fault_active_bits s"
    "brightness_pct a = 60" "\<not> comms_degraded a" "override_mode a \<noteq> 1"
  shows "lights_ok s (unat t) (led_frame a t)"
proof -
  have len: "length (led_frame a t) = 134"
    by (simp add: led_frame_def state_frame_def solid_def Let_def assms(5) del: replicate.simps upt_Suc)
  show ?thesis
  proof (cases "\<exists>f \<in> latched_ids. bit (ss_fault_active_bits s) f")
    case True
    then have "led_frame a t =
        solid (dimmed 60 (flash t (if bit (ss_fault_active_bits s) FAULT_GFCI then 200 else 500), 0, 0))"
      using latched_bits assms by (simp add: led_frame_def)
    with True len show ?thesis
      by (simp add: lights_ok_def Let_def levels_all dimmed_levels flash_nat)
  next
    case False
    then have f: "led_frame a t = state_frame a t" using latched_bits assms by (simp add: led_frame_def)
    have comet: "(\<forall>p \<in> set (map (comet_pixel (comet_head t (charge_ratio a)) (0, 255, 255) 60) [0 ..< WS2812_LEDS]).
        \<exists>v. levels p = (0, v, v) \<and> 7 \<le> v \<and> v \<le> 153) \<and>
      (\<exists>p \<in> set (map (comet_pixel (comet_head t (charge_ratio a)) (0, 255, 255) 60) [0 ..< WS2812_LEDS]). levels p = (0, 153, 153))"
      using comet_cyan comet_full [of t "charge_ratio a"] by (auto simp del: upt_Suc)
    have sweep: "levels ((solid (0, 0, 0))[boot_sweep_pos t := dimmed 60 (255, 255, 255)] ! j) =
        (if j = unat t div 7 mod 134 then (153, 153, 153) else (0, 0, 0))" if "j < 134" for j
      using that by (simp add: sweep_pos nth_list_update solid_def dimmed_levels del: replicate.simps) (simp add: levels_def)
    have black: "levels (0, 0, 0) = (0, 0, 0)" by (simp add: levels_def)
    have half: "unat (breathe t 1000 div 2) = breath 1000 (unat t) div 2"
      using breathe_nat [of 1000 1000 t] by (simp add: unat_div_distrib)
    have "length (state_frame a t) = 134" using len f by simp
    then show ?thesis
      unfolding lights_ok_def Let_def f if_not_P [OF False] state_frame_def assms(1,2,4)
      using comet sweep half breathe_nat [of 2000 2000 t] breathe_nat [of 1000 1000 t]
      by (auto simp: levels_all dimmed_levels black simp del: set_map)
  qed
qed

end
