(* ===== verification/Ui_Spec.thy ===== *)
theory Ui_Spec
  imports Panel_Runs Led_Table
begin

text \<open>
  The guarantees of the panel and of the three tasks together: no order of ticks, link traffic,
  passes and interrupts separates the contactor from the state of the supervisor, a press of the top
  button stops charging at the next tick, the presses acted on are the debounced ones, the strip
  carries the frame of the published state, and the alive mark is posted once. The last section
  states what the code does beyond its comments.
\<close>

section \<open>A controller about to charge, with an idle panel\<close>

definition demo_ui :: "comms_state \<times> io_state" where
  "demo_ui = io_boot 0 0 (comms_boot (run_ticks (replicate 51 demo_C) demo_boot))"

lemma demo_ui_sup: "sup (fst demo_ui) = run_ticks (replicate 51 demo_C) demo_boot"
  by (simp add: demo_ui_def io_boot_def comms_boot_def to_persist_def)

lemma demo_ui_reachable: "reachable (sup (fst demo_ui))"
  by (simp add: demo_ui_sup run_ticks_sup reachable_run demo_reachable)

lemma demo_ui_idle: "idle_panel (btns (snd demo_ui))"
  by (simp add: demo_ui_def io_boot_def idle_panel_def buttons_init_def buttons_reset_def)

definition top_env :: io_env where
  "top_env = \<lparr>btn_raw = 2350, pc9_level = True\<rparr>"

lemma top_env_holds: "holds_top top_env"
  by (simp add: holds_top_def top_env_def)

section \<open>Guarantees\<close>

text \<open>C5: Nothing but a supervisor tick actuates: in a run of ticks, link interrupts, passes of the
  communications task, passes of the panel and strip interrupts in any order, the contactor is
  energised exactly while the supervisor is charging at every moment after the first tick, and
  between two ticks the supervisor state, the contactor, the pilot output and the faults stay what
  the last tick made them.\<close>

theorem no_task_actuates:
  assumes "reachable (sup (fst x))"
  shows "(contactor_energised (relay (sup (fst (ui_run (Sys (Super te) # evs) x)))) \<longleftrightarrow>
      es (sup (fst (ui_run (Sys (Super te) # evs) x))) = EVSE_CHARGING) \<and>
    (list_all (\<lambda>ev. \<not> ticks ev) us \<longrightarrow>
      hw_view (sup (fst (ui_run (Sys (Super te) # us) x))) = hw_view (safety_tick te (sup (fst x))))"
proof -
  obtain c i where x: "x = (c, i)" by (cases x)
  show ?thesis using follows_always [OF assms, of te evs] ui_hw [of us] by (auto simp: x contactor_follows_def)
qed

lemma no_task_actuates_witness:
  "hw_view (sup (fst (ui_run [Sys (Super demo_C), Panel top_env, Panel top_env, Panel top_env, LedIrq] demo_ui))) =
    hw_view (safety_tick demo_C (sup (fst demo_ui)))"
  using no_task_actuates [OF demo_ui_reachable, of demo_C "[]" "[Panel top_env, Panel top_env, Panel top_env, LedIrq]"]
  by (simp add: ticks_def)

text \<open>C13: Pressing the top button stops charging: from a state in which the panel is idle (no reading of a
  button pending or held, \<open>idle_panel\<close>), three passes that read the top button and not the internal one, with any link
  traffic, ticks and interrupts but no other pass between them, and a tick that directly follows the third pass
  leave the supervisor not charging and the contactor open, provided the supervisor ticked at least
  once before, was charging at the third pass and its inbox had room, whatever the inbox held and
  whatever that tick reads.\<close>

theorem button_stops_charging:
  fixes x0 :: "comms_state \<times> io_state" and t0 te :: tick_env and e1 e2 e3 :: io_env and pre us vs :: "ui_event list"
  defines "x \<equiv> ui_run (Sys (Super t0) # pre) x0"
  defines "y \<equiv> ui_run (Panel e1 # us @ Panel e2 # vs) x"
  defines "z \<equiv> ui_run [Panel e3, Sys (Super te)] y"
  assumes "reachable (sup (fst x0))" "idle_panel (btns (snd x))" "holds_top e1" "holds_top e2" "holds_top e3"
    and "list_all elsewhere us" "list_all elsewhere vs"
    and "es (sup (fst y)) = EVSE_CHARGING" "length (inbox (sup (fst y))) < SAFETY_INBOX_DEPTH"
  shows "es (sup (fst z)) \<noteq> EVSE_CHARGING \<and> \<not> contactor_energised (relay (sup (fst z)))"
proof -
  obtain c i where y: "y = (c, i)" by (cases y)
  have pub: "published (sup (fst (ui_run (Sys (Super t0) # evs) x0)))" for evs
    by (cases x0) (simp add: published_run published_tick)
  have whole: "ui_run (Sys (Super t0) # pre @ Panel e1 # us @ Panel e2 # vs) x0 = (c, i)" using y by (simp add: x_def y_def)
  have reach: "reachable (sup c)" using ui_reachable [OF assms(4)] whole by (metis fst_conv)
  have "published (sup c)" using pub [of "pre @ Panel e1 # us @ Panel e2 # vs"] by (simp only: whole fst_conv)
  then have snap: "ss_evse_state (snap (sup c)) = evse_num EVSE_CHARGING" using assms(11) by (simp add: published_def y)
  have press: "pass_press e3 i = BTN_TOP" using top_held [OF assms(5-10)] by (simp only: y snd_conv flip: y_def)
  let ?s = "snd (post_safety_req SAFETY_REQ_USER_PAUSE 1 0 (sup c))"
  have sup: "sup (fst z) = safety_tick te ?s"
    using snap press by (simp add: z_def y step_super pass_fields)
  have "inbox ?s = inbox (sup c) @ [\<lparr>req_type = SAFETY_REQ_USER_PAUSE, arg_u8 = 1, arg_u32 = 0\<rparr>]"
    "es ?s = EVSE_CHARGING" using assms(11,12) by (simp_all add: y post_safety_req_def)
  then have stop: "es (safety_tick te ?s) \<noteq> EVSE_CHARGING" using assms(12) pause_stops [of ?s] by (simp add: y)
  have "reachable ?s" using reachable.stepped [OF reach, of "Post SAFETY_REQ_USER_PAUSE 1 0"] by simp
  then have "contactor_follows (safety_tick te ?s)" by (rule follows_tick)
  with stop sup show ?thesis by (simp add: contactor_follows_def)
qed

lemma button_stops_charging_witness:
  "es (sup (fst (ui_run [Sys (Super demo_C), Panel top_env, Panel top_env, Panel top_env, Sys (Super demo_C)] demo_ui)))
    \<noteq> EVSE_CHARGING"
proof -
  let ?x = "ui_run [Sys (Super demo_C)] demo_ui"
  let ?y = "ui_run [Panel top_env, Panel top_env] ?x"
  have sup: "sup (fst ?x) = demo_charging" by (simp add: step_super demo_ui_sup demo_charging_tick)
  have idle: "idle_panel (btns (snd ?x))" using demo_ui_idle elsewhere_step [of "Sys (Super demo_C)" demo_ui] by (simp add: elsewhere_def)
  have first: "idle_panel b \<Longrightarrow> fst (buttons_consume_event (buttons_poll 2350 True b)) = BTN_NONE"
    "top_for 1 b \<Longrightarrow> fst (buttons_consume_event (buttons_poll 2350 True b)) = BTN_NONE" for b
    by (auto simp: idle_panel_def top_for_def buttons_consume_event_def buttons_poll_def poll_ladder_def poll_pc9_def
        classify_ladder_def Let_def)
  have quiet: "sup (fst ?y) = demo_charging"
  proof -
    obtain c i where x: "?x = (c, i)" by (cases ?x)
    have b: "idle_panel (btns i)" and c: "sup c = demo_charging" using idle sup by (simp_all only: x fst_conv snd_conv)
    obtain c' i' where p: "io_pass top_env (c, i) = (c', i')" by (cases "io_pass top_env (c, i)")
    have b': "top_for 1 (btns i')"
      using top_polls(1) [OF top_env_holds b] pass_fields(5) [of top_env c i] by (simp add: p)
    have c': "sup c' = demo_charging"
      using pass_fields(1) [of top_env c i, unfolded p fst_conv] first(1) [OF b] by (simp add: c pass_press_def top_env_def)
    have "sup (fst (io_pass top_env (c', i'))) = demo_charging"
      using first(2) [OF b'] by (simp add: pass_fields c' pass_press_def top_env_def)
    then have "sup (fst (io_pass top_env (io_pass top_env (c, i)))) = demo_charging" by (simp add: p)
    then show ?thesis unfolding x by simp
  qed
  have "length (inbox demo_charging) \<le> 1"
    unfolding demo_charging_tick by (rule tick_inbox) (simp add: run_ticks_sup reachable_run demo_reachable)
  then show ?thesis
    using button_stops_charging [OF demo_ui_reachable, where ?t0.0 = demo_C and pre = "[]" and ?e1.0 = top_env and us = "[]"
        and ?e2.0 = top_env and vs = "[]" and ?e3.0 = top_env and te = demo_C] idle quiet demo_run(2)
    by (simp add: top_env_holds)
qed

text \<open>C34: The presses acted on are the debounced ones: in every run from the start, the event the
  \<open>k\<close>-th pass consumes is the press seen in its first \<open>k\<close> readings: the internal button or the
  ladder's button becoming the newest value read three times in a row.\<close>

theorem buttons_debounced:
  "presses evs (io_boot tick mv c) =
    map (\<lambda>k. press_event (rev (map fst (take k (panel_ins evs)))) (rev (map snd (take k (panel_ins evs)))))
      [1 ..< Suc (length (panel_ins evs))]"
proof -
  have b: "btns (snd (io_boot tick mv c)) = buttons_init buttons_reset" by (simp add: io_boot_def)
  have st: "ladder_state (buttons_init buttons_reset) (ladder_ids [])" "pc9_state (buttons_init buttons_reset) (map Not [])"
    using init_states by simp_all
  show ?thesis using poll_run_spec [OF st init_states(3), of "panel_ins evs"]
    by (simp add: presses_poll b case_prod_unfold Let_def rev_map del: upt_Suc)
qed



text \<open>The alive mark is asked for once: no run with at most 3000 passes of the panel queues it, pass
  3001, a minute after the start, does if the persist queue has room, and nothing queues it again.\<close>

theorem alive_mark_once:
  assumes "x = ui_run evs (io_boot tick mv (comms_boot s))" "passes evs \<le> 3000"
  shows "alive_requests (fst x) = 0 \<and>
    (passes evs = 3000 \<and> length (waiting (pq (fst x))) < PERSIST_QUEUE_DEPTH \<longrightarrow>
      alive_requests (fst (ui_run (Panel e # later) x)) = 1)"
proof -
  have "counting (passes evs) x" using counting_run [OF boot_counting, of evs] assms by simp
  then show ?thesis using marked_run [OF marking_pass [of x e], where evs = later]
    by (auto simp: counting_def marked_def)
qed

lemma alive_mark_once_witness:
  "alive_requests (fst (ui_run (replicate 3000 (Panel top_env)) (io_boot 0 0 (comms_boot demo_boot)))) = 0"
proof -
  have "passes (replicate n (Panel top_env)) = n" for n by (induction n) simp_all
  then show ?thesis
    using alive_mark_once [of _ "replicate 3000 (Panel top_env)" 0 0 demo_boot] by (simp del: replicate.simps)
qed

section \<open>What the code does beyond its comments\<close>

text \<open>The mark is taken for posted when the queue refuses it.\<close>

lemma alive_mark_lost:
  assumes "counting 3000 x" "length (waiting (pq (fst x))) = PERSIST_QUEUE_DEPTH"
  shows "alive_requests (fst (ui_run (Panel e # later) x)) = 0"
proof -
  obtain c i where x: "x = (c, i)" by (cases x)
  have "io_ms i \<ge> 60000" using assms(1) by (simp add: counting_def x word_le_nat_alt)
  with assms have "marked 0 (io_pass e x)" by (simp add: counting_def marked_def x pass_alive pass_fields)
  then show ?thesis using marked_run by (simp add: marked_def)
qed

text \<open>The count of milliseconds wraps at \<open>2 ^ 32\<close>, which is not a multiple of 20: from then on it is never
  a multiple of 500 again until the next wraps, so the heartbeat stays as it is.\<close>

lemma heartbeat_after_wrap:
  "io_ms i = 4294967280 \<Longrightarrow> unat (io_ms (snd (io_pass e (c, i)))) = 4"
  "unat (io_ms i) mod 20 = 4 \<Longrightarrow> hb_level (io_heartbeat i) = hb_level i"
proof -
  show "io_ms i = 4294967280 \<Longrightarrow> unat (io_ms (snd (io_pass e (c, i)))) = 4" by (simp add: pass_fields)
  assume odd: "unat (io_ms i) mod 20 = 4"
  have "io_ms i mod 500 \<noteq> 0"
  proof
    assume "io_ms i mod 500 = 0"
    then have "unat (io_ms i mod 500) = 0" by simp
    then have "unat (io_ms i) mod 500 = 0" by (simp add: unat_mod_distrib)
    then obtain k where "unat (io_ms i) = 500 * k" by (auto simp: mod_eq_0_iff_dvd dvd_def)
    then have "unat (io_ms i) = 20 * (25 * k)" by simp
    with odd show False by (simp only: mod_mult_self1_is_0)
  qed
  then show "hb_level (io_heartbeat i) = hb_level i" by (simp add: io_heartbeat_def)
qed

text \<open>A beep commanded over the link replaces a sounding fault alarm, and no pass starts an alarm
  while latched faults last, not even for a ground fault that joins another one.\<close>

lemma alarm_not_restarted:
  "ms \<noteq> 0 \<Longrightarrow> s_pattern (buzzer_set_oneshot ms z) = BUZ_ONESHOT"
  "b \<noteq> 0 \<Longrightarrow> b' \<noteq> 0 \<Longrightarrow> fault_sound b b' z = z"
  by (simp_all add: buzzer_set_oneshot_def fault_sound_def)

end
