(* ===== verification/Gfci_Cal.thy ===== *)
theory Gfci_Cal
  imports Prelude
begin

text \<open>
  The ground-fault sensor's calibration line, \<^verbatim>\<open>src/src/hal/gd32f205/gfci.c\<close>: the boot self-test, the task
  that refreshes the sensor for ever after, and the handshake window during which the supervisor
  ignores the sense line. Time passes in the delays: \<open>past\<close> holds, millisecond by millisecond, the
  window and what PE3 did, \<open>kicks\<close> the times at which the watchdog was fed. The sense line is the
  argument \<open>sense\<close>, asserted or not at each millisecond. Log lines are left out.
\<close>

abbreviation (input) "GFCI_BOOT_FLOAT_MS \<equiv> (1000 :: nat)"
abbreviation (input) "GFCI_BOOT_HIGH_MS \<equiv> (1000 :: nat)"
abbreviation (input) "GFCI_BOOT_LOW_MS \<equiv> (1000 :: nat)"
abbreviation (input) "GFCI_REFRESH_IDLE_MS \<equiv> (6000 :: nat)"
abbreviation (input) "GFCI_REFRESH_PULSE_MS \<equiv> (1000 :: nat)"
abbreviation (input) "GFCI_HANDSHAKE_TAIL_MS \<equiv> (1000 :: nat)"
abbreviation (input) "GFCI_POLL_INTERVAL_MS \<equiv> (10 :: nat)"
abbreviation (input) "GFCI_WDG_CHUNK_MS \<equiv> (100 :: nat)"

datatype cal_pin = Floating | Driven bool

record gfci_cal =
  s_handshake_window :: bool
  pe3 :: cal_pin
  past :: "(bool \<times> cal_pin) list"
  kicks :: "nat list"

abbreviation ms_of :: "gfci_cal \<Rightarrow> nat" where
  "ms_of h \<equiv> length (past h)"

definition gfci_cal_reset :: gfci_cal where
  "gfci_cal_reset = \<lparr>s_handshake_window = False, pe3 = Floating, past = [], kicks = []\<rparr>"

definition gfci_in_handshake_window :: "gfci_cal \<Rightarrow> bool" where
  "gfci_in_handshake_window h = s_handshake_window h"

definition gfci_fault_active :: "(nat \<Rightarrow> bool) \<Rightarrow> gfci_cal \<Rightarrow> bool" where
  "gfci_fault_active sense h = sense (ms_of h)"

definition task_delay :: "nat \<Rightarrow> gfci_cal \<Rightarrow> gfci_cal" where
  "task_delay d h = h\<lparr>past := past h @ replicate d (s_handshake_window h, pe3 h)\<rparr>"

definition wdg_kick :: "gfci_cal \<Rightarrow> gfci_cal" where
  "wdg_kick h = h\<lparr>kicks := kicks h @ [ms_of h]\<rparr>"

fun chunked_delay_ms :: "nat \<Rightarrow> gfci_cal \<Rightarrow> gfci_cal" where
  "chunked_delay_ms total_ms h =
     (if total_ms \<ge> GFCI_WDG_CHUNK_MS
      then chunked_delay_ms (total_ms - GFCI_WDG_CHUNK_MS) (wdg_kick (task_delay GFCI_WDG_CHUNK_MS h))
      else if total_ms > 0 then wdg_kick (task_delay total_ms h) else h)"

declare chunked_delay_ms.simps [simp del]

definition pe3_drive :: "bool \<Rightarrow> gfci_cal \<Rightarrow> gfci_cal" where
  "pe3_drive level h = h\<lparr>pe3 := Driven level\<rparr>"

definition pe3_release_to_floating :: "gfci_cal \<Rightarrow> gfci_cal" where
  "pe3_release_to_floating h = h\<lparr>pe3 := Floating\<rparr>"

section \<open>The boot self-test\<close>

definition poll_wait :: "gfci_cal \<Rightarrow> gfci_cal" where
  "poll_wait h = wdg_kick (task_delay GFCI_POLL_INTERVAL_MS h)"

text \<open>The polls of the idle part of a cycle stop at the first handshake, those of the pulse do not.\<close>

fun idle_polls :: "nat \<Rightarrow> (nat \<Rightarrow> bool) \<Rightarrow> gfci_cal \<Rightarrow> bool \<times> gfci_cal" where
  "idle_polls 0 sense h = (False, h)"
| "idle_polls (Suc n) sense h =
     (let h1 = poll_wait h in if gfci_fault_active sense h1 then (True, h1) else idle_polls n sense h1)"

fun pulse_polls :: "nat \<Rightarrow> (nat \<Rightarrow> bool) \<Rightarrow> bool \<Rightarrow> gfci_cal \<Rightarrow> bool \<times> gfci_cal" where
  "pulse_polls 0 sense saw h = (saw, h)"
| "pulse_polls (Suc n) sense saw h =
     (let h1 = poll_wait h in pulse_polls n sense (saw \<or> gfci_fault_active sense h1) h1)"

definition cal_cycle :: "(nat \<Rightarrow> bool) \<Rightarrow> gfci_cal \<Rightarrow> bool \<times> gfci_cal" where
  "cal_cycle sense h =
     (let (saw, h1) = idle_polls (GFCI_REFRESH_IDLE_MS div GFCI_POLL_INTERVAL_MS) sense (pe3_drive False h)
      in if saw then (True, h1)
         else let h2 = pe3_drive True (h1\<lparr>s_handshake_window := True\<rparr>);
                  (saw2, h3) = pulse_polls (GFCI_REFRESH_PULSE_MS div GFCI_POLL_INTERVAL_MS) sense False h2;
                  h4 = chunked_delay_ms GFCI_HANDSHAKE_TAIL_MS (pe3_drive False h3)
              in (saw2, h4\<lparr>s_handshake_window := False\<rparr>))"

fun cal_cycles :: "nat \<Rightarrow> (nat \<Rightarrow> bool) \<Rightarrow> gfci_cal \<Rightarrow> bool \<times> gfci_cal" where
  "cal_cycles 0 sense h = (False, h)"
| "cal_cycles (Suc n) sense h =
     (let (saw, h1) = cal_cycle sense h in if saw then (True, h1) else cal_cycles n sense h1)"

fun settle_polls :: "nat \<Rightarrow> (nat \<Rightarrow> bool) \<Rightarrow> gfci_cal \<Rightarrow> gfci_cal" where
  "settle_polls 0 sense h = h"
| "settle_polls (Suc n) sense h =
     (let h1 = wdg_kick (task_delay 10 h) in if \<not> gfci_fault_active sense h1 then h1 else settle_polls n sense h1)"

definition cal_wake :: "gfci_cal \<Rightarrow> gfci_cal" where
  "cal_wake h =
     (let h1 = chunked_delay_ms GFCI_BOOT_FLOAT_MS (pe3_release_to_floating h);
          h2 = chunked_delay_ms GFCI_BOOT_LOW_MS h1
      in chunked_delay_ms GFCI_BOOT_HIGH_MS (pe3_drive True h2))"

definition gfci_self_test :: "(nat \<Rightarrow> bool) \<Rightarrow> gfci_cal \<Rightarrow> int \<times> gfci_cal" where
  "gfci_self_test sense h =
     (if gfci_fault_active sense h then (-3, h)
      else let (saw, h1) = cal_cycles 4 sense (cal_wake h)
           in if \<not> saw then (-1, h1) else (0, pe3_drive False (settle_polls 80 sense h1)))"

section \<open>The refresh task\<close>

definition refresh_pass :: "gfci_cal \<Rightarrow> gfci_cal" where
  "refresh_pass h =
     (let h1 = chunked_delay_ms GFCI_REFRESH_IDLE_MS (pe3_drive False h);
          h2 = chunked_delay_ms GFCI_REFRESH_PULSE_MS (pe3_drive True (h1\<lparr>s_handshake_window := True\<rparr>));
          h3 = chunked_delay_ms GFCI_HANDSHAKE_TAIL_MS (pe3_drive False h2)
      in h3\<lparr>s_handshake_window := False\<rparr>)"

fun gfci_refresh_task :: "nat \<Rightarrow> gfci_cal \<Rightarrow> gfci_cal" where
  "gfci_refresh_task 0 h = h"
| "gfci_refresh_task (Suc n) h = gfci_refresh_task n (refresh_pass h)"

section \<open>Time\<close>

text \<open>From \<open>h\<close> to \<open>h'\<close> the watchdog was fed at most 100 ms after the last time, the end included.\<close>

definition fed :: "gfci_cal \<Rightarrow> gfci_cal \<Rightarrow> bool" where
  "fed h h' \<longleftrightarrow> (\<exists>ks. kicks h' = kicks h @ ks \<and> last (ms_of h # ks) = ms_of h' \<and>
     successively (\<lambda>a b. a \<le> b \<and> b \<le> a + 100) (ms_of h # ks))"

lemma fed_still: "kicks h' = kicks h \<Longrightarrow> past h' = past h \<Longrightarrow> fed h h'"
  unfolding fed_def by (rule exI [of _ "[]"]) simp

lemma fed_trans:
  assumes "fed a b" "fed b c"
  shows "fed a c"
proof -
  let ?P = "\<lambda>x y. x \<le> y \<and> y \<le> x + (100 :: nat)"
  obtain ks where ks: "kicks b = kicks a @ ks" "last (ms_of a # ks) = ms_of b" "successively ?P (ms_of a # ks)"
    using assms(1) by (auto simp: fed_def)
  obtain ls where ls: "kicks c = kicks b @ ls" "last (ms_of b # ls) = ms_of c" "successively ?P (ms_of b # ls)"
    using assms(2) by (auto simp: fed_def)
  have "successively ?P ((ms_of a # ks) @ ls)"
    using ks ls by (cases ls) (simp_all add: successively_append_iff successively_Cons del: append_Cons)
  moreover have "last (ms_of a # ks @ ls) = ms_of c" using ks(2) ls(2) by (cases ls) simp_all
  ultimately show ?thesis unfolding fed_def using ks(1) ls(1) by (intro exI [of _ "ks @ ls"]) simp
qed

lemma fed_kick: "d \<le> 100 \<Longrightarrow> fed h (wdg_kick (task_delay d h))"
  unfolding fed_def wdg_kick_def task_delay_def by (rule exI [of _ "[ms_of h + d]"]) simp

lemma fed_frame [simp]:
  "fed h (pe3_drive v h') = fed h h'" "fed (pe3_drive v h) h' = fed h h'"
  "fed h (h'\<lparr>s_handshake_window := w\<rparr>) = fed h h'" "fed (h\<lparr>s_handshake_window := w\<rparr>) h' = fed h h'"
  "fed (pe3_release_to_floating h) h' = fed h h'"
  by (simp_all add: fed_def pe3_drive_def pe3_release_to_floating_def)

lemma fed_chunked: "fed h (chunked_delay_ms n h)"
proof (induction n h rule: chunked_delay_ms.induct)
  case (1 n h)
  show ?case
  proof (cases "n \<ge> 100")
    case True
    have "fed h (chunked_delay_ms (n - 100) (wdg_kick (task_delay 100 h)))"
      using fed_trans [OF fed_kick 1 [OF True]] by simp
    with True show ?thesis by (simp add: chunked_delay_ms.simps [of n])
  next
    case False
    then show ?thesis by (simp add: chunked_delay_ms.simps [of n] fed_kick fed_still)
  qed
qed

lemma fed_polls:
  "fed h (poll_wait h)" "fed h (snd (idle_polls n sense h))" "fed h (snd (pulse_polls n sense saw h))"
  "fed h (settle_polls n sense h)"
proof -
  have kick: "fed h (poll_wait h)" for h by (simp add: poll_wait_def fed_kick)
  show "fed h (poll_wait h)" by (rule kick)
  show "fed h (snd (idle_polls n sense h))"
  proof (induction n arbitrary: h)
    case (Suc n)
    show ?case using kick [of h] fed_trans [OF kick Suc] by (simp add: Let_def)
  qed (simp add: fed_still)
  show "fed h (snd (pulse_polls n sense saw h))"
  proof (induction n arbitrary: h saw)
    case (Suc n)
    show ?case using fed_trans [OF kick Suc] by (simp add: Let_def)
  qed (simp add: fed_still)
  show "fed h (settle_polls n sense h)"
  proof (induction n arbitrary: h)
    case (Suc n)
    have k: "fed h (wdg_kick (task_delay 10 h))" by (simp add: fed_kick)
    show ?case using k fed_trans [OF k Suc] by (simp add: Let_def)
  qed (simp add: fed_still)
qed

lemma fed_cycle: "fed h (snd (cal_cycle sense h))"
proof -
  obtain saw h1 where i: "idle_polls 600 sense (pe3_drive False h) = (saw, h1)" by fastforce
  have a: "fed h h1" using fed_polls(2) [of "pe3_drive False h" 600 sense] by (simp add: i)
  let ?h2 = "pe3_drive True (h1\<lparr>s_handshake_window := True\<rparr>)"
  obtain saw2 h3 where p: "pulse_polls 100 sense False ?h2 = (saw2, h3)" by fastforce
  have b: "fed h1 h3" using fed_polls(3) [of ?h2 100 sense False] by (simp add: p)
  have c: "fed h3 (chunked_delay_ms 1000 (pe3_drive False h3))" using fed_chunked [of "pe3_drive False h3" 1000] by simp
  show ?thesis using a fed_trans [OF a fed_trans [OF b c]] by (simp add: cal_cycle_def i p Let_def)
qed

lemma fed_cycles: "fed h (snd (cal_cycles n sense h))"
proof (induction n arbitrary: h)
  case (Suc n)
  show ?case using fed_cycle [of h sense] fed_trans [OF fed_cycle Suc] by (simp add: case_prod_unfold Let_def)
qed (simp add: fed_still)

lemma fed_wake: "fed h (cal_wake h)"
proof -
  let ?h1 = "chunked_delay_ms 1000 (pe3_release_to_floating h)"
  let ?h2 = "chunked_delay_ms 1000 ?h1"
  have "fed h ?h1" using fed_chunked [of "pe3_release_to_floating h" 1000] by simp
  moreover have "fed ?h1 ?h2" by (rule fed_chunked)
  moreover have "fed ?h2 (cal_wake h)" using fed_chunked [of "pe3_drive True ?h2" 1000] by (simp add: cal_wake_def Let_def)
  ultimately show ?thesis using fed_trans by blast
qed

lemma fed_self_test: "fed h (snd (gfci_self_test sense h))"
proof -
  have c: "fed h (snd (cal_cycles 4 sense (cal_wake h)))" by (rule fed_trans [OF fed_wake fed_cycles])
  show ?thesis using c fed_trans [OF c fed_polls(4) [of _ 80 sense]]
    by (simp add: gfci_self_test_def case_prod_unfold Let_def fed_still)
qed

lemma fed_pass: "fed h (refresh_pass h)"
proof -
  let ?h1 = "chunked_delay_ms 6000 (pe3_drive False h)"
  let ?h2 = "chunked_delay_ms 1000 (pe3_drive True (?h1\<lparr>s_handshake_window := True\<rparr>))"
  have "fed h ?h1" using fed_chunked [of "pe3_drive False h" 6000] by simp
  moreover have "fed ?h1 ?h2" using fed_chunked [of "pe3_drive True (?h1\<lparr>s_handshake_window := True\<rparr>)" 1000] by simp
  moreover have "fed ?h2 (refresh_pass h)"
    using fed_chunked [of "pe3_drive False ?h2" 1000] by (simp add: refresh_pass_def Let_def)
  ultimately show ?thesis using fed_trans by blast
qed

lemma fed_refresh: "fed h (gfci_refresh_task n h)"
proof (induction n arbitrary: h)
  case (Suc n)
  show ?case using fed_trans [OF fed_pass Suc] by simp
qed (simp add: fed_still)

section \<open>The window over time\<close>

definition waits :: "gfci_cal \<Rightarrow> gfci_cal \<Rightarrow> nat \<Rightarrow> bool" where
  "waits h h' n \<longleftrightarrow> past h' = past h @ replicate n (s_handshake_window h, pe3 h) \<and>
     s_handshake_window h' = s_handshake_window h \<and> pe3 h' = pe3 h"

lemma chunked_waits: "waits h (chunked_delay_ms n h) n"
proof (induction n h rule: chunked_delay_ms.induct)
  case (1 n h)
  show ?case
  proof (cases "n \<ge> 100")
    case True
    let ?h = "wdg_kick (task_delay 100 h)"
    have "waits ?h (chunked_delay_ms (n - 100) ?h) (n - 100)" using 1 True by simp
    moreover have "replicate 100 x @ replicate (n - 100) x = replicate n x" for x :: "bool \<times> cal_pin"
      using True by (metis le_add_diff_inverse replicate_add)
    ultimately show ?thesis using True
      by (simp add: waits_def chunked_delay_ms.simps [of n] wdg_kick_def task_delay_def del: replicate.simps)
  next
    case False
    then show ?thesis by (simp add: waits_def chunked_delay_ms.simps [of n] wdg_kick_def task_delay_def)
  qed
qed

lemma refresh_past:
  "past (refresh_pass h) = past h @ replicate 6000 (s_handshake_window h, Driven False) @
     replicate 1000 (True, Driven True) @ replicate 1000 (True, Driven False)"
  "s_handshake_window (refresh_pass h) = False"
proof -
  let ?h0 = "pe3_drive False h"
  let ?h1 = "chunked_delay_ms 6000 ?h0"
  let ?h1' = "pe3_drive True (?h1\<lparr>s_handshake_window := True\<rparr>)"
  let ?h2 = "chunked_delay_ms 1000 ?h1'"
  let ?h2' = "pe3_drive False ?h2"
  have w: "waits ?h0 ?h1 6000" "waits ?h1' ?h2 1000" "waits ?h2' (chunked_delay_ms 1000 ?h2') 1000"
    by (rule chunked_waits)+
  show "past (refresh_pass h) = past h @ replicate 6000 (s_handshake_window h, Driven False) @
     replicate 1000 (True, Driven True) @ replicate 1000 (True, Driven False)"
    using w unfolding waits_def by (simp add: refresh_pass_def Let_def pe3_drive_def del: replicate.simps)
  show "s_handshake_window (refresh_pass h) = False" by (simp add: refresh_pass_def Let_def)
qed

text \<open>The schedule: closed for six seconds, open for two.\<close>

definition open_at :: "nat \<Rightarrow> bool" where
  "open_at t \<longleftrightarrow> 6000 \<le> t mod 8000"

lemma refresh_schedule:
  assumes "\<not> s_handshake_window h" "t < 8000 * n"
  shows "ms_of h + t < ms_of (gfci_refresh_task n h) \<and> fst (past (gfci_refresh_task n h) ! (ms_of h + t)) = open_at t"
  using assms
proof (induction n arbitrary: h t)
  case (Suc n)
  let ?h = "refresh_pass h"
  have len: "ms_of ?h = ms_of h + 8000" by (simp add: refresh_past del: replicate.simps)
  have keep: "\<exists>tl. past (gfci_refresh_task n g) = past g @ tl" for n g
  proof (induction n arbitrary: g)
    case (Suc n)
    then obtain tl where "past (gfci_refresh_task n (refresh_pass g)) = past (refresh_pass g) @ tl" by blast
    then show ?case by (simp only: gfci_refresh_task.simps refresh_past(1) append_assoc) (rule exI, rule refl)
  qed simp
  show ?case
  proof (cases "t < 8000")
    case True
    obtain tl where tl: "past (gfci_refresh_task n ?h) = past ?h @ tl" using keep by blast
    have "past (gfci_refresh_task n ?h) ! (ms_of h + t) = past ?h ! (ms_of h + t)"
      using True len by (simp add: tl nth_append)
    also have "fst \<dots> = open_at t"
      using True Suc.prems(1) by (simp add: refresh_past nth_append open_at_def del: replicate.simps)
    finally show ?thesis using True len by (simp add: tl)
  next
    case False
    then have "t - 8000 < 8000 * n" "(t - 8000) mod 8000 = t mod 8000" using Suc.prems(2) by (simp_all add: le_mod_geq)
    then show ?thesis using Suc.IH [of ?h "t - 8000"] False len by (simp add: refresh_past(2) open_at_def)
  qed
qed simp

section \<open>What the self-test finds\<close>

lemma poll_wait_frame [simp]:
  "ms_of (poll_wait h) = ms_of h + 10" "s_handshake_window (poll_wait h) = s_handshake_window h" "pe3 (poll_wait h) = pe3 h"
  by (simp_all add: poll_wait_def wdg_kick_def task_delay_def)

lemma ex_from_1: "(\<exists>k \<in> {1..Suc n}. P k) \<longleftrightarrow> P 1 \<or> (\<exists>k \<in> {1..n}. P (Suc k))"
proof -
  have "{1..Suc n} = insert 1 (Suc ` {1..n})" unfolding image_Suc_atLeastAtMost by auto
  then show ?thesis by (simp only: bex_simps)
qed

lemma idle_polls_spec:
  "fst (idle_polls n sense h) \<longleftrightarrow> (\<exists>k \<in> {1..n}. sense (ms_of h + 10 * k))"
  "\<not> fst (idle_polls n sense h) \<Longrightarrow> ms_of (snd (idle_polls n sense h)) = ms_of h + 10 * n"
  "ms_of (snd (idle_polls n sense h)) \<le> ms_of h + 10 * n"
  "s_handshake_window (snd (idle_polls n sense h)) = s_handshake_window h"
proof -
  show "fst (idle_polls n sense h) \<longleftrightarrow> (\<exists>k \<in> {1..n}. sense (ms_of h + 10 * k))"
  proof (induction n arbitrary: h)
    case (Suc n)
    have e: "ms_of h + 10 * Suc k = ms_of h + 10 + 10 * k" for k by simp
    show ?case unfolding ex_from_1 e using Suc [of "poll_wait h"] by (simp add: Let_def gfci_fault_active_def)
  qed simp
  show "\<not> fst (idle_polls n sense h) \<Longrightarrow> ms_of (snd (idle_polls n sense h)) = ms_of h + 10 * n"
    by (induction n arbitrary: h) (simp_all add: Let_def split: if_splits)
  show "ms_of (snd (idle_polls n sense h)) \<le> ms_of h + 10 * n"
  proof (induction n arbitrary: h)
    case (Suc n)
    show ?case using Suc [of "poll_wait h"] by (simp add: Let_def)
  qed simp
  show "s_handshake_window (snd (idle_polls n sense h)) = s_handshake_window h"
    by (induction n arbitrary: h) (simp_all add: Let_def)
qed

lemma pulse_polls_spec:
  "fst (pulse_polls n sense saw h) \<longleftrightarrow> saw \<or> (\<exists>k \<in> {1..n}. sense (ms_of h + 10 * k))"
  "ms_of (snd (pulse_polls n sense saw h)) = ms_of h + 10 * n"
proof -
  show "fst (pulse_polls n sense saw h) \<longleftrightarrow> saw \<or> (\<exists>k \<in> {1..n}. sense (ms_of h + 10 * k))"
  proof (induction n arbitrary: h saw)
    case (Suc n)
    have e: "ms_of h + 10 * Suc k = ms_of h + 10 + 10 * k" for k by simp
    show ?case unfolding ex_from_1 e using Suc [of _ "poll_wait h"] by (simp add: Let_def gfci_fault_active_def)
  qed simp
  show "ms_of (snd (pulse_polls n sense saw h)) = ms_of h + 10 * n"
    by (induction n arbitrary: h saw) (simp_all add: Let_def)
qed

lemma chunked_frame [simp]:
  "ms_of (chunked_delay_ms n h) = ms_of h + n" "s_handshake_window (chunked_delay_ms n h) = s_handshake_window h"
  "pe3 (chunked_delay_ms n h) = pe3 h"
  using chunked_waits [of h n] by (simp_all add: waits_def)

lemma drive_frame [simp]:
  "past (pe3_drive v h) = past h" "s_handshake_window (pe3_drive v h) = s_handshake_window h" "pe3 (pe3_drive v h) = Driven v"
  "past (pe3_release_to_floating h) = past h" "s_handshake_window (pe3_release_to_floating h) = s_handshake_window h"
  by (simp_all add: pe3_drive_def pe3_release_to_floating_def)

text \<open>A cycle polls every 10 ms for seven of its eight seconds.\<close>

definition cycle_polls :: "nat set" where
  "cycle_polls = {t. 0 < t \<and> t \<le> 7000 \<and> t mod 10 = 0}"

lemma cycle_polls_split: "t \<in> cycle_polls \<longleftrightarrow> (\<exists>k \<in> {1..600}. t = 10 * k) \<or> (\<exists>k \<in> {1..100}. t = 6000 + 10 * k)"
proof
  assume "t \<in> cycle_polls"
  then obtain k where k: "t = 10 * k" "1 \<le> k" "k \<le> 700" by (auto simp: cycle_polls_def elim!: dvdE simp flip: dvd_eq_mod_eq_0)
  show "(\<exists>k \<in> {1..600}. t = 10 * k) \<or> (\<exists>k \<in> {1..100}. t = 6000 + 10 * k)"
  proof (cases "k \<le> 600")
    case False
    then have "k - 600 \<in> {1..100}" "t = 6000 + 10 * (k - 600)" using k by auto
    then show ?thesis by blast
  qed (use k in auto)
next
  show "(\<exists>k \<in> {1..600}. t = 10 * k) \<or> (\<exists>k \<in> {1..100}. t = 6000 + 10 * k) \<Longrightarrow> t \<in> cycle_polls"
    by (auto simp: cycle_polls_def)
qed

lemma cycle_spec:
  "fst (cal_cycle sense h) \<longleftrightarrow> (\<exists>t \<in> cycle_polls. sense (ms_of h + t))"
  "\<not> fst (cal_cycle sense h) \<Longrightarrow> ms_of (snd (cal_cycle sense h)) = ms_of h + 8000"
  "ms_of (snd (cal_cycle sense h)) \<le> ms_of h + 8000"
  "\<not> s_handshake_window h \<Longrightarrow> \<not> s_handshake_window (snd (cal_cycle sense h))"
proof -
  let ?h0 = "pe3_drive False h"
  obtain saw h1 where i: "idle_polls 600 sense ?h0 = (saw, h1)" by fastforce
  note isp = idle_polls_spec [of 600 sense ?h0, unfolded i fst_conv snd_conv, simplified]
  let ?h2 = "pe3_drive True (h1\<lparr>s_handshake_window := True\<rparr>)"
  obtain saw2 h3 where p: "pulse_polls 100 sense False ?h2 = (saw2, h3)" by fastforce
  note psp = pulse_polls_spec [of 100 sense False ?h2, unfolded p fst_conv snd_conv, simplified]
  have run: "cal_cycle sense h = (if saw then (True, h1)
      else (saw2, (chunked_delay_ms 1000 (pe3_drive False h3))\<lparr>s_handshake_window := False\<rparr>))"
    by (simp add: cal_cycle_def i p Let_def)
  show "fst (cal_cycle sense h) \<longleftrightarrow> (\<exists>t \<in> cycle_polls. sense (ms_of h + t))"
    using isp(1,2) psp(1) by (auto simp: run cycle_polls_split add.assoc Bex_def simp del: atLeastAtMost_iff)
  show "\<not> fst (cal_cycle sense h) \<Longrightarrow> ms_of (snd (cal_cycle sense h)) = ms_of h + 8000"
    using isp(2) psp(2) by (simp add: run split: if_splits)
  show "ms_of (snd (cal_cycle sense h)) \<le> ms_of h + 8000"
    using isp(2,3) psp(2) by (simp add: run)
  show "\<not> s_handshake_window h \<Longrightarrow> \<not> s_handshake_window (snd (cal_cycle sense h))"
    using isp(4) by (simp add: run)
qed

lemma cycles_spec:
  "fst (cal_cycles n sense h) \<longleftrightarrow> (\<exists>k < n. \<exists>t \<in> cycle_polls. sense (ms_of h + 8000 * k + t))"
  "\<not> fst (cal_cycles n sense h) \<Longrightarrow> ms_of (snd (cal_cycles n sense h)) = ms_of h + 8000 * n"
  "ms_of (snd (cal_cycles n sense h)) \<le> ms_of h + 8000 * n"
  "\<not> s_handshake_window h \<Longrightarrow> \<not> s_handshake_window (snd (cal_cycles n sense h))"
proof (induction n arbitrary: h)
  case (Suc n)
  have split: "(\<exists>k < Suc n. P k) \<longleftrightarrow> P 0 \<or> (\<exists>k < n. P (Suc k))" for P :: "nat \<Rightarrow> bool"
    by (metis Suc_less_eq less_Suc_eq_0_disj zero_less_Suc)
  {
    case 1
    let ?h = "snd (cal_cycle sense h)"
    note c = cycle_spec [where sense = sense and h = h]
    show ?case
    proof (cases "fst (cal_cycle sense h)")
      case False
      have e: "ms_of h + 8000 * Suc k + t = ms_of h + 8000 + 8000 * k + t" for k t by simp
      have "fst (cal_cycles n sense ?h) \<longleftrightarrow> (\<exists>k < n. \<exists>t \<in> cycle_polls. sense (ms_of h + 8000 + 8000 * k + t))"
        using Suc.IH(1) [of ?h] c(2) [OF False] by (simp only:)
      moreover have "\<not> (\<exists>t \<in> cycle_polls. sense (ms_of h + 8000 * 0 + t))" using c(1) False by simp
      ultimately show ?thesis using False unfolding split e by (simp only: cal_cycles.simps case_prod_unfold Let_def if_False simp_thms)
    next
      case True
      then show ?thesis using c(1) unfolding split by (auto simp: case_prod_unfold Let_def)
    qed
  next
    case 2
    let ?h = "snd (cal_cycle sense h)"
    note c = cycle_spec [where sense = sense and h = h]
    have no: "\<not> fst (cal_cycle sense h)" "\<not> fst (cal_cycles n sense ?h)"
      using 2 by (simp_all add: case_prod_unfold Let_def split: if_splits)
    show ?case using Suc.IH(2) [OF no(2)] c(2) [OF no(1)] no by (simp add: case_prod_unfold Let_def)
  next
    case 3
    let ?h = "snd (cal_cycle sense h)"
    note c = cycle_spec [where sense = sense and h = h]
    show ?case using Suc.IH(3) [of ?h] c(2,3) by (auto simp: case_prod_unfold Let_def)
  next
    case 4
    let ?h = "snd (cal_cycle sense h)"
    note c = cycle_spec [where sense = sense and h = h]
    from 4 show ?case using Suc.IH(4) [of ?h] c(4) by (auto simp: case_prod_unfold Let_def)
  }
qed simp_all

lemma settle_frame [simp]:
  "s_handshake_window (settle_polls n sense h) = s_handshake_window h"
  "ms_of (settle_polls n sense h) \<le> ms_of h + 10 * n"
proof -
  show "s_handshake_window (settle_polls n sense h) = s_handshake_window h"
    by (induction n arbitrary: h) (simp_all add: Let_def wdg_kick_def task_delay_def)
  show "ms_of (settle_polls n sense h) \<le> ms_of h + 10 * n"
  proof (induction n arbitrary: h)
    case (Suc n)
    show ?case using Suc [of "wdg_kick (task_delay 10 h)"] by (simp add: Let_def wdg_kick_def task_delay_def)
  qed simp
qed

text \<open>The instants of the whole test at which the line is read.\<close>

definition test_polls :: "nat set" where
  "test_polls = {3000 + 8000 * k + t | k t. k < 4 \<and> t \<in> cycle_polls}"

lemma self_test_spec:
  assumes "\<not> s_handshake_window h"
  shows "fst (gfci_self_test sense h) =
      (if sense (ms_of h) then -3 else if \<exists>t \<in> test_polls. sense (ms_of h + t) then 0 else -1)"
    "\<not> s_handshake_window (snd (gfci_self_test sense h))"
    "ms_of (snd (gfci_self_test sense h)) \<le> ms_of h + 35800"
proof -
  let ?w = "cal_wake h"
  have w: "ms_of ?w = ms_of h + 3000" "\<not> s_handshake_window ?w" using assms by (simp_all add: cal_wake_def Let_def)
  note c = cycles_spec [where n = 4 and sense = sense and h = ?w]
  have ex: "fst (cal_cycles 4 sense ?w) \<longleftrightarrow> (\<exists>t \<in> test_polls. sense (ms_of h + t))"
    unfolding c(1) w(1) test_polls_def by (auto simp: add.assoc)
  show "fst (gfci_self_test sense h) =
      (if sense (ms_of h) then -3 else if \<exists>t \<in> test_polls. sense (ms_of h + t) then 0 else -1)"
    unfolding ex [symmetric] by (simp add: gfci_self_test_def gfci_fault_active_def case_prod_unfold Let_def)
  show "\<not> s_handshake_window (snd (gfci_self_test sense h))"
    using assms c(4) w(2) by (simp add: gfci_self_test_def case_prod_unfold Let_def)
  have "ms_of (settle_polls 80 sense (snd (cal_cycles 4 sense ?w))) \<le> ms_of h + 35800"
    using c(3) w(1) settle_frame(2) [of 80 sense "snd (cal_cycles 4 sense ?w)"] by linarith
  then show "ms_of (snd (gfci_self_test sense h)) \<le> ms_of h + 35800"
    using c(3) w(1) by (simp add: gfci_self_test_def case_prod_unfold Let_def)
qed

end
