(* ===== verification/Gfci_Spec.thy ===== *)
theory Gfci_Spec
  imports Safety_Spec Gfci_Cal
begin

text \<open>
  The sensor's refresh task and the supervisor together: how long the handshake window can hide a
  ground fault, and what the boot self-test answers.
\<close>

section \<open>Ticks against the schedule\<close>

lemma past_window:
  assumes "5960 \<le> m" "m < 8000"
  shows "\<not> open_at (q * 8000 + m + 2040)" "\<not> open_at (q * 8000 + m + 2060)" "\<not> open_at (q * 8000 + m + 2080)"
proof -
  have "\<not> open_at (q * 8000 + m + 2000 + d)" if "d \<le> 80" "40 \<le> d" for d
  proof -
    have "q * 8000 + m + 2000 + d = (m - 6000 + d + 0) + (q + 1) * 8000" if "6000 \<le> m" using that by simp
    moreover have "q * 8000 + m + 2000 + d = (m + 2000 + d - 8000) + (q + 1) * 8000" using assms(1) that by simp
    ultimately have "(q * 8000 + m + 2000 + d) mod 8000 = (m + 2000 + d - 8000) mod 8000" by (metis mod_mult_self1)
    also have "\<dots> < 6000" using assms that by simp
    finally show ?thesis by (simp add: open_at_def)
  qed
  from this [of 40] this [of 60] this [of 80]
  show "\<not> open_at (q * 8000 + m + 2040)" "\<not> open_at (q * 8000 + m + 2060)" "\<not> open_at (q * 8000 + m + 2080)"
    by (simp_all add: add.assoc)
qed

text \<open>Among 105 consecutive ticks three in a row are outside the window, the last of them at most the last.\<close>

lemma three_outside:
  obtains j where "j \<le> 102" "\<not> open_at (t + 20 * j)" "\<not> open_at (t + 20 * (j + 1))" "\<not> open_at (t + 20 * (j + 2))"
proof (cases "t mod 8000 < 5960")
  case True
  have "(t + d) mod 8000 < 6000" if "d \<le> 40" for d
  proof -
    have "(t + d) mod 8000 = (t mod 8000 + d) mod 8000" by (simp add: mod_add_left_eq)
    then show ?thesis using True that by simp
  qed
  from this [of 0] this [of 20] this [of 40] show ?thesis by (intro that [of 0]) (simp_all add: open_at_def)
next
  case False
  have t: "t = t div 8000 * 8000 + t mod 8000" by simp
  have "\<not> open_at (t + 2040)" "\<not> open_at (t + 2060)" "\<not> open_at (t + 2080)"
    using past_window [of "t mod 8000" "t div 8000"] False t by (simp_all add: add.assoc)
  then show ?thesis by (intro that [of 102]) simp_all
qed

text \<open>Three sampled ticks somewhere in a run leave the fault active at its end.\<close>

lemma sampled_in_run:
  assumes "reachable s" "j + 2 < length envs" "gfci_sampled (envs ! j)" "gfci_sampled (envs ! (j + 1))"
    "gfci_sampled (envs ! (j + 2))" "cfg_gfci_policy (envs ! (j + 2)) \<noteq> GFCI_POL_WARN"
  shows "gfci_active (run_ticks envs s)"
proof -
  have split: "envs = take j envs @ [envs ! j, envs ! (j + 1), envs ! (j + 2)] @ drop (j + 3) envs"
  proof -
    have "drop j envs = envs ! j # envs ! (j + 1) # envs ! (j + 2) # drop (j + 3) envs"
      using assms(2) by (simp add: Cons_nth_drop_Suc numeral_eq_Suc)
    then show ?thesis by (metis append_Cons append_Nil append_take_drop_id)
  qed
  let ?s = "run_ticks (take j envs) s"
  have "reachable ?s" using assms(1) by (simp add: run_ticks_sup reachable_run)
  then have "gfci_active (run_ticks [envs ! j, envs ! (j + 1), envs ! (j + 2)] ?s)" using assms(3-6) by (intro gfci_three)
  then have "gfci_active (run_ticks (drop (j + 3) envs) (run_ticks [envs ! j, envs ! (j + 1), envs ! (j + 2)] ?s))"
    unfolding run_ticks_sup [of "drop (j + 3) envs"] by (rule run_op.keeps_gfci)
  then show ?thesis by (subst split) (simp only: run_ticks_append)
qed

section \<open>Guarantees\<close>

text \<open>C4: The handshake window hides a ground fault for a bounded time: with the refresh task running
  from any moment at which its window was closed, at any alignment of ticks and task, a sense line
  asserted for 105 ticks of 20 ms, with any policy but WARN, leaves the supervisor in EVSE_FAULT
  with GFCI active and the contactor open.\<close>

theorem gfci_latency:
  assumes "reachable s" "\<not> s_handshake_window h" "length envs = 105" "t0 + 2100 \<le> 8000 * n"
    and "\<forall>k < 105. gfci_line_low (envs ! k) \<and> cfg_gfci_policy (envs ! k) \<noteq> GFCI_POL_WARN"
    and "\<forall>k < 105. gfci_handshake (envs ! k) = fst (past (gfci_refresh_task n h) ! (ms_of h + (t0 + 20 * k)))"
  shows "FAULT_GFCI \<in> active_set (fs (run_ticks envs s)) \<and> es (run_ticks envs s) = EVSE_FAULT \<and>
    \<not> contactor_energised (relay (run_ticks envs s))"
proof -
  obtain j where j: "j \<le> 102" "\<not> open_at (t0 + 20 * j)" "\<not> open_at (t0 + 20 * (j + 1))" "\<not> open_at (t0 + 20 * (j + 2))"
    by (rule three_outside)
  have hs: "gfci_handshake (envs ! k) = open_at (t0 + 20 * k)" if "k < 105" for k
  proof -
    have "t0 + 20 * k < 8000 * n" using assms(4) that by simp
    from refresh_schedule [OF assms(2) this] show ?thesis using assms(6) that by simp
  qed
  have "gfci_sampled (envs ! j)" "gfci_sampled (envs ! (j + 1))" "gfci_sampled (envs ! (j + 2))"
    using j assms(5) hs [of j] hs [of "j + 1"] hs [of "j + 2"] unfolding gfci_sampled_def by auto
  then have act: "gfci_active (run_ticks envs s)"
    using assms(1,3,5) j(1) by (intro sampled_in_run [of _ j]) auto
  have ok: "sup_ok (run_ticks envs s)" using reachable_ok [OF reachable_run [OF assms(1)]] by (simp add: run_ticks_sup)
  note flt = gfci_active_fault [OF ok act]
  with fault_hw [OF ok flt] act show ?thesis by (simp add: gfci_active_def)
qed

lemma gfci_latency_witness:
  "es (run_ticks (map (\<lambda>k. demo_gfci\<lparr>gfci_handshake := open_at (6000 + 20 * k)\<rparr>) [0 ..< 105]) demo_charging) = EVSE_FAULT"
proof -
  let ?envs = "map (\<lambda>k. demo_gfci\<lparr>gfci_handshake := open_at (6000 + 20 * k)\<rparr>) [0 ..< 105]"
  have w: "\<not> s_handshake_window gfci_cal_reset" by (simp add: gfci_cal_reset_def)
  have at: "?envs ! k = demo_gfci\<lparr>gfci_handshake := open_at (6000 + 20 * k)\<rparr>" if "k < 105" for k using that by simp
  have low: "gfci_line_low demo_gfci" "cfg_gfci_policy demo_gfci \<noteq> GFCI_POL_WARN"
    using demo_gfci_sampled by (simp_all add: gfci_sampled_def)
  have "open_at (6000 + 20 * k) = fst (past (gfci_refresh_task 2 gfci_cal_reset) ! (ms_of gfci_cal_reset + (6000 + 20 * k)))"
    if "k < 105" for k using refresh_schedule [OF w, of "6000 + 20 * k" 2] that by simp
  then show ?thesis
    using gfci_latency [OF demo_charging_reachable w, of ?envs 6000 2] low by (simp add: at del: map_upt_eqI)
qed

text \<open>C40: The boot self-test ends within 35.8 seconds, feeds the watchdog at most 100 ms apart all the
  while and leaves the handshake window closed; it answers -3 if the line is asserted at its start,
  else 0 exactly if the line is asserted at one of the instants it polls, and -1 otherwise. The
  refresh task feeds the watchdog as often, for ever.\<close>

theorem self_test_answers:
  assumes "\<not> s_handshake_window h"
  shows "fst (gfci_self_test sense h) =
      (if sense (ms_of h) then -3 else if \<exists>t \<in> test_polls. sense (ms_of h + t) then 0 else -1) \<and>
    \<not> s_handshake_window (snd (gfci_self_test sense h)) \<and> ms_of (snd (gfci_self_test sense h)) \<le> ms_of h + 35800 \<and>
    fed h (snd (gfci_self_test sense h)) \<and> fed h (gfci_refresh_task n h)"
  using self_test_spec [OF assms] fed_self_test fed_refresh by blast

lemma self_test_answers_witness:
  "fst (gfci_self_test (\<lambda>t. t = 9500) gfci_cal_reset) = 0 \<and> fst (gfci_self_test (\<lambda>t. False) gfci_cal_reset) = -1"
proof -
  have w: "\<not> s_handshake_window gfci_cal_reset" "ms_of gfci_cal_reset = 0" by (simp_all add: gfci_cal_reset_def)
  have "9500 \<in> test_polls"
    unfolding test_polls_def cycle_polls_def by (simp, rule exI [of _ 0], rule exI [of _ 6500]) simp
  then show ?thesis
    using self_test_answers [OF w(1), of "\<lambda>t. t = 9500" 0] self_test_answers [OF w(1), of "\<lambda>t. False" 0] w(2) by auto
qed

section \<open>What the code does beyond its comments\<close>

text \<open>A line that is asserted during the test and never released passes it: the wait for the release
  gives up after 800 ms without an error (the answer -2 of the caller's message does not exist).\<close>

lemma stuck_line_passes:
  assumes "\<not> s_handshake_window h" "\<not> sense (ms_of h)" "\<forall>t > ms_of h. sense t"
  shows "fst (gfci_self_test sense h) = 0"
proof -
  have "3010 \<in> test_polls"
    unfolding test_polls_def cycle_polls_def by (simp, rule exI [of _ 0], rule exI [of _ 10]) simp
  moreover have "sense (ms_of h + 3010)" using assms(3) by simp
  ultimately have "\<exists>t \<in> test_polls. sense (ms_of h + t)" by blast
  then show ?thesis using self_test_spec(1) [OF assms(1), of sense] assms(2) by simp
qed

text \<open>A cycle of the refresh task lasts eight seconds, not the seven of its comment.\<close>

lemma refresh_period: "ms_of (refresh_pass h) = ms_of h + 8000"
  by (simp add: refresh_past del: replicate.simps)

end
