(* ===== verification/Pilot_Sample.thy ===== *)
theory Pilot_Sample
  imports Calibration J1772 "HOL-Library.Signed_Division" "HOL-Library.Monad_Syntax"
begin

text \<open>
  The pilot samples, \<^verbatim>\<open>src/src/hal/gd32f205/adc_inject.c\<close>: the interrupt of the two converters takes a
  12-bit sample of the pilot in its high and in its low phase and converts it to millivolts on the
  published calibration line, in 32-bit signed arithmetic. The set-up of the converters is not
  modelled; a sample is an argument of the interrupt. The lemmas show that no step overflows for
  any calibration the record can hold and read the bands of the pilot classifier back to samples.
\<close>

record pilot_samples =
  s_cp_high_raw :: u16
  s_cp_high_mv :: u32
  s_cp_low_raw :: u16
  s_cp_low_mv :: u32

definition pilot_samples_reset :: pilot_samples where
  "pilot_samples_reset = \<lparr>s_cp_high_raw = 0, s_cp_high_mv = 0, s_cp_low_raw = 0, s_cp_low_mv = 0\<rparr>"

text \<open>The arithmetic is that of C's \<^verbatim>\<open>int32_t\<close>: a result out of range and a division by zero are
  undefined, the value \<open>None\<close>. The division truncates towards zero.\<close>

definition int32 :: "int \<Rightarrow> int option" where
  "int32 x = (if - 2147483648 \<le> x \<and> x \<le> 2147483647 then Some x else None)"

definition int32_div :: "int \<Rightarrow> int \<Rightarrow> int option" where
  "int32_div x d = (if d = 0 then None else int32 (x sdiv d))"

definition convert_mv :: "cal_mod \<Rightarrow> u16 \<Rightarrow> u32 option" where
  "convert_mv m raw =
     (let anchor = sint (s_anchor_raw m); num = sint (s_slope_num m); den = sint (s_slope_den m)
      in do {
        diff \<leftarrow> int32 (uint raw - anchor);
        prod \<leftarrow> int32 (diff * num);
        quot \<leftarrow> int32_div prod den;
        mv \<leftarrow> int32 (quot + 12000);
        let mv1 = (if mv > 12000 then 12000 else mv);
        Some (word_of_int (if mv1 < - 12000 then - 12000 else mv1))
      })"

definition cp_high_mv :: "pilot_samples \<Rightarrow> int" where
  "cp_high_mv p = sint (s_cp_high_mv p)"

definition cp_low_mv :: "pilot_samples \<Rightarrow> int" where
  "cp_low_mv p = sint (s_cp_low_mv p)"

text \<open>A converter whose end-of-conversion flag is set hands over its sample; the handler is undefined
  where a conversion is.\<close>

definition ADC0_1_IRQHandler :: "cal_mod \<Rightarrow> u16 option \<Rightarrow> u16 option \<Rightarrow> pilot_samples \<Rightarrow> pilot_samples option" where
  "ADC0_1_IRQHandler m adc0 adc1 p =
     do {
       p1 \<leftarrow> (case adc0 of None \<Rightarrow> Some p
         | Some raw \<Rightarrow> do { mv \<leftarrow> convert_mv m raw; Some (p\<lparr>s_cp_high_raw := raw, s_cp_high_mv := mv\<rparr>) });
       (case adc1 of None \<Rightarrow> Some p1
         | Some raw \<Rightarrow> do { mv \<leftarrow> convert_mv m raw; Some (p1\<lparr>s_cp_low_raw := raw, s_cp_low_mv := mv\<rparr>) })
     }"

section \<open>No step overflows\<close>

lemma sint_small: "- 2147483648 \<le> x \<Longrightarrow> x < 2147483648 \<Longrightarrow> sint (word_of_int x :: u32) = x"
  by (simp add: sint_sbintrunc' signed_take_bit_int_eq_self)

lemma sint_u16_bounds: "- 32768 \<le> sint (w :: u16)" "sint (w :: u16) \<le> 32767"
  using sint_greater_eq [of w] sint_less [of w] by simp_all

lemma scast_small: "(scast (w :: u16) :: u32) = word_of_int (sint w)"
  by simp

text \<open>The published line is a signed 16-bit line.\<close>

definition line_of :: "cal_mod \<Rightarrow> u16 \<Rightarrow> u16 \<Rightarrow> u16 \<Rightarrow> bool" where
  "line_of m a n d \<longleftrightarrow> s_anchor_raw m = scast a \<and> s_slope_num m = scast n \<and> s_slope_den m = scast d"

lemma line_published: "line_of (publish_to_isr m) (cp_anchor_raw (s_cal m)) (cp_slope_num (s_cal m)) (cp_slope_den (s_cal m))"
  by (simp add: line_of_def publish_to_isr_def)

text \<open>The line on unbounded integers.\<close>

definition pilot_line :: "int \<Rightarrow> int \<Rightarrow> int \<Rightarrow> int \<Rightarrow> int" where
  "pilot_line a n d raw = max (- 12000) (min 12000 ((raw - a) * n sdiv d + 12000))"

lemma sdiv_nonneg: "0 < d \<Longrightarrow> 0 \<le> x \<Longrightarrow> x sdiv d = x div d" for x d :: int
  by (cases "x = 0") (simp_all add: signed_divide_int_def sgn_if)

lemma sdiv_neg: "0 < d \<Longrightarrow> x < 0 \<Longrightarrow> x sdiv d = - ((- x) div d)" for x d :: int
  by (simp add: signed_divide_int_def sgn_if)

lemma sdiv_le: "\<bar>x sdiv d\<bar> \<le> \<bar>x\<bar>" for x d :: int
proof (cases "x = 0 \<or> d = 0")
  case False
  have "\<bar>x\<bar> div \<bar>d\<bar> \<le> \<bar>x\<bar> div 1" using False by (intro zdiv_mono2) (simp_all, arith)
  moreover have "0 \<le> \<bar>x\<bar> div \<bar>d\<bar>" using False by (simp add: pos_imp_zdiv_nonneg_iff)
  ultimately show ?thesis using False by (simp add: signed_divide_int_def abs_mult abs_sgn_eq)
qed (auto simp: signed_divide_int_def)

lemma int32_in_range: "\<bar>x\<bar> \<le> 2147483647 \<Longrightarrow> int32 x = Some x"
  by (simp add: int32_def abs_le_iff)

lemma pilot_line_sint: "sint (word_of_int (pilot_line a n d raw) :: u32) = pilot_line a n d raw"
  by (rule sint_small) (simp_all add: pilot_line_def)

text \<open>A 12-bit sample on a line of non-zero denominator: every intermediate value is in range.\<close>

lemma convert_exact:
  assumes "line_of m a n d" "d \<noteq> 0" "unat raw \<le> 4095"
  shows "convert_mv m raw = Some (word_of_int (pilot_line (sint a) (sint n) (sint d) (uint raw)))"
proof -
  have "uint raw = int (unat raw)" by (rule uint_nat)
  then have r: "0 \<le> uint raw" "uint raw \<le> 4095" using assms(3) by linarith+
  have line: "sint (s_anchor_raw m) = sint a" "sint (s_slope_num m) = sint n" "sint (s_slope_den m) = sint d"
    using assms(1) sint_small [of "sint a"] sint_small [of "sint n"] sint_small [of "sint d"]
      sint_u16_bounds [of a] sint_u16_bounds [of n] sint_u16_bounds [of d] by (simp_all add: line_of_def)
  let ?p = "(uint raw - sint a) * sint n"
  have small: "\<bar>uint raw - sint a\<bar> \<le> 36863" "\<bar>sint n\<bar> \<le> 32768"
    using r sint_u16_bounds [of a] sint_u16_bounds [of n] by linarith+
  then have "\<bar>?p\<bar> \<le> 36863 * 32768" unfolding abs_mult by (intro mult_mono) simp_all
  then have pb: "\<bar>?p\<bar> \<le> 1207926784" by simp
  let ?q = "?p sdiv sint d"
  have qb: "\<bar>?q\<bar> \<le> 1207926784" using sdiv_le [of ?p "sint d"] pb by linarith
  have "sint d \<noteq> 0" using assms(2) signed_word_eqI [of d 0] by auto
  moreover have "int32 (uint raw - sint a) = Some (uint raw - sint a)" "int32 ?p = Some ?p"
    "int32 ?q = Some ?q" "int32 (?q + 12000) = Some (?q + 12000)"
    by (rule int32_in_range; use small pb qb in linarith)+
  ultimately show ?thesis
    by (simp add: convert_mv_def Let_def line int32_div_def pilot_line_def max_def min_def)
qed

text \<open>On a line of denominator zero, which the record's loader accepts, no sample has a value.\<close>

lemma convert_zero_den: "s_slope_den m = 0 \<Longrightarrow> convert_mv m raw = None"
  by (cases "int32 (uint raw - sint (s_anchor_raw m))")
    (simp_all add: convert_mv_def Let_def int32_div_def Option.bind_eq_None_conv)

lemma pilot_line_bounds: "- 12000 \<le> pilot_line a n d raw" "pilot_line a n d raw \<le> 12000"
  by (simp_all add: pilot_line_def)

lemma sdiv_mono: "0 < d \<Longrightarrow> x \<le> y \<Longrightarrow> x sdiv d \<le> y sdiv d" for x y d :: int
proof -
  assume d: "0 < d" and le: "x \<le> y"
  consider "0 \<le> x" | "x < 0" "0 \<le> y" | "y < 0" by linarith
  then show ?thesis
  proof cases
    case 1
    then show ?thesis using le zdiv_mono1 [OF le d] by (simp add: sdiv_nonneg [OF d])
  next
    case 2
    have "0 \<le> (- x) div d" "0 \<le> y div d" using d 2 by (simp_all add: pos_imp_zdiv_nonneg_iff)
    then show ?thesis using 2 by (simp add: sdiv_nonneg [OF d] sdiv_neg [OF d])
  next
    case 3
    have "- y div d \<le> - x div d" using d le by (intro zdiv_mono1) simp_all
    then show ?thesis using 3 le by (simp add: sdiv_neg [OF d])
  qed
qed

lemma pilot_line_mono:
  assumes "0 < d" "0 \<le> n" "x \<le> y"
  shows "pilot_line a n d x \<le> pilot_line a n d y"
proof -
  have "(x - a) * n \<le> (y - a) * n" using assms by (simp add: mult_right_mono)
  from sdiv_mono [OF assms(1) this] show ?thesis by (simp add: pilot_line_def)
qed

section \<open>The default line\<close>

lemma default_line: "line_of cal_mod_reset CAL_DEFAULT_CP_ANCHOR_RAW CAL_DEFAULT_CP_SLOPE_NUM CAL_DEFAULT_CP_SLOPE_DEN"
  by (simp add: line_of_def cal_mod_reset_def)

text \<open>The first sample of each band, from state F up.\<close>

definition band_of :: "int \<Rightarrow> j1772_state" where
  "band_of raw = (if raw \<ge> 1268 then J1772_STATE_A else if raw \<ge> 879 then J1772_STATE_B
     else if raw \<ge> 490 then J1772_STATE_C else if raw \<ge> 101 then J1772_STATE_D else J1772_STATE_E)"

lemma default_bands:
  assumes "0 \<le> raw"
  shows "classify_strict (pilot_line 1462 3540 459 raw) = band_of raw"
proof -
  have mono: "x \<le> y \<Longrightarrow> pilot_line 1462 3540 459 x \<le> pilot_line 1462 3540 459 y" for x y
    by (rule pilot_line_mono) simp_all
  have at: "pilot_line 1462 3540 459 1268 \<ge> 10500" "pilot_line 1462 3540 459 1267 < 10500"
    "pilot_line 1462 3540 459 879 \<ge> 7500" "pilot_line 1462 3540 459 878 < 7500"
    "pilot_line 1462 3540 459 490 \<ge> 4500" "pilot_line 1462 3540 459 489 < 4500"
    "pilot_line 1462 3540 459 101 \<ge> 1500" "pilot_line 1462 3540 459 100 < 1500"
    "pilot_line 1462 3540 459 0 \<ge> 725"
    by (simp_all add: pilot_line_def signed_divide_int_def)
  consider "raw \<ge> 1268" | "879 \<le> raw" "raw \<le> 1267" | "490 \<le> raw" "raw \<le> 878" | "101 \<le> raw" "raw \<le> 489" | "raw \<le> 100"
    by linarith
  then show ?thesis
  proof cases
    case 1
    with at mono [of 1268 raw] show ?thesis by (simp add: classify_strict_def band_of_def)
  next
    case 2
    with at mono [of 879 raw] mono [of raw 1267] show ?thesis by (simp add: classify_strict_def band_of_def)
  next
    case 3
    with at mono [of 490 raw] mono [of raw 878] show ?thesis by (simp add: classify_strict_def band_of_def)
  next
    case 4
    with at mono [of 101 raw] mono [of raw 489] show ?thesis by (simp add: classify_strict_def band_of_def)
  next
    case 5
    with at mono [OF assms] mono [of raw 100] show ?thesis by (simp add: classify_strict_def band_of_def)
  qed
qed

end
