(* ===== verification/Rfid_Ring.thy ===== *)
theory Rfid_Ring
  imports Ring Rfid_Frame
begin

text \<open>
  The card reader's serial driver, \<^verbatim>\<open>src/src/hal/gd32f205/rfid.c\<close>: the interrupt's ring of 64 bytes and the
  keepalive frame. It is the same kind of ring as the link's, a \<open>ring_geometry\<close> of its own size, and
  feeds the re-framer of \<open>Rfid_Frame\<close>: whatever the interrupts' timing, a reader that drains the ring
  before it fills sees the bytes of the wire.
\<close>

abbreviation (input) "RFID_RX_RING_LEN \<equiv> (64 :: nat)"
abbreviation (input) "RFID_RX_RING_MASK \<equiv> (63 :: u16)"

definition rfid_ring_reset :: rx_ring where
  "rfid_ring_reset = \<lparr>s_rx_ring = replicate RFID_RX_RING_LEN 0, s_rx_head = 0, s_rx_tail = 0\<rparr>"

definition USART1_IRQHandler :: "bool \<Rightarrow> bool \<Rightarrow> u8 \<Rightarrow> rx_ring \<Rightarrow> rx_ring" where
  "USART1_IRQHandler rbne errs c r =
     (if rbne \<and> \<not> errs
      then let h = s_rx_head r; nxt = (h + 1) AND RFID_RX_RING_MASK in
        if nxt \<noteq> s_rx_tail r
        then r\<lparr>s_rx_ring := (s_rx_ring r)[unat (h AND RFID_RX_RING_MASK) := c], s_rx_head := nxt\<rparr>
        else r
      else r)"

fun rfid_rx_pop :: "nat \<Rightarrow> rx_ring \<Rightarrow> u8 list \<times> rx_ring" where
  "rfid_rx_pop 0 r = ([], r)"
| "rfid_rx_pop (Suc cap) r =
     (if s_rx_head r = s_rx_tail r then ([], r)
      else let b = s_rx_ring r ! unat (s_rx_tail r AND RFID_RX_RING_MASK);
               (bs, r') = rfid_rx_pop cap (r\<lparr>s_rx_tail := (s_rx_tail r + 1) AND RFID_RX_RING_MASK\<rparr>)
           in (b # bs, r'))"

definition rfid_send_keepalive :: "u8 list" where
  "rfid_send_keepalive = [0xAA, 0xD0, 0xD1, 0x01, 0x00, 0x00, 0x4C]"

interpretation rfid_ring: ring_geometry RFID_RX_RING_MASK RFID_RX_RING_LEN
  using mask_mod [of _ 6] by unfold_locales (simp_all add: mask_eq_exp_minus_1)

abbreviation rfid_contents :: "rx_ring \<Rightarrow> u8 list" where
  "rfid_contents \<equiv> contents_in RFID_RX_RING_LEN"

abbreviation rfid_ring_ok :: "rx_ring \<Rightarrow> bool" where
  "rfid_ring_ok \<equiv> ok_in RFID_RX_RING_LEN"

definition rfid_put :: "u8 \<Rightarrow> rx_ring \<Rightarrow> rx_ring" where
  "rfid_put c r = USART1_IRQHandler True False c r"

lemma rfid_put_push: "rfid_put = ring_push RFID_RX_RING_MASK"
  by (intro ext) (simp add: rfid_put_def USART1_IRQHandler_def ring_push_def)

lemma rfid_pop_pull: "rfid_rx_pop = ring_pull RFID_RX_RING_MASK"
proof (intro ext)
  show "rfid_rx_pop n r = ring_pull RFID_RX_RING_MASK n r" for n r by (induction n arbitrary: r) simp_all
qed

interpretation rfid_rx: byte_fifo rfid_put rfid_rx_pop rfid_contents rfid_ring_ok 63
  using rfid_ring.queue.byte_fifo_axioms by (simp add: rfid_put_push rfid_pop_pull)

lemma rfid_irq_error: "\<not> (rbne \<and> \<not> errs) \<Longrightarrow> USART1_IRQHandler rbne errs c r = r"
  by (auto simp: USART1_IRQHandler_def)

lemma rfid_ring_at_reset: "rfid_ring_ok rfid_ring_reset" "rfid_contents rfid_ring_reset = []"
  by (simp_all add: rfid_ring_reset_def ok_in_def contents_in_def used_in_def)

section \<open>The driver and the re-framer\<close>

text \<open>A run of interrupts, with pops of 32 bytes between them as the supervisor makes them.\<close>

datatype reader_event = Byte bool bool u8 | Drain

fun reader_run :: "reader_event list \<Rightarrow> rx_ring \<Rightarrow> u8 list list \<times> rx_ring" where
  "reader_run [] r = ([], r)"
| "reader_run (Byte rbne errs c # evs) r = reader_run evs (USART1_IRQHandler rbne errs c r)"
| "reader_run (Drain # evs) r =
     (let (got, r1) = rfid_rx_pop (RFID_FRAME_MAX_LEN * 2) r; (rest, r2) = reader_run evs r1 in (got # rest, r2))"

text \<open>The bytes the ring accepts, in order.\<close>

fun reader_bytes :: "reader_event list \<Rightarrow> rx_ring \<Rightarrow> u8 list" where
  "reader_bytes [] r = []"
| "reader_bytes (Byte rbne errs c # evs) r =
     (if rbne \<and> \<not> errs \<and> used_in RFID_RX_RING_LEN r < 63 then [c] else []) @ reader_bytes evs (USART1_IRQHandler rbne errs c r)"
| "reader_bytes (Drain # evs) r = reader_bytes evs (snd (rfid_rx_pop (RFID_FRAME_MAX_LEN * 2) r))"

lemma rfid_irq_contents:
  assumes "rfid_ring_ok r"
  shows "rfid_ring_ok (USART1_IRQHandler rbne errs c r)"
    "rfid_contents (USART1_IRQHandler rbne errs c r) =
      rfid_contents r @ (if rbne \<and> \<not> errs \<and> used_in RFID_RX_RING_LEN r < 63 then [c] else [])"
proof -
  consider "rbne" "\<not> errs" | "\<not> (rbne \<and> \<not> errs)" by blast
  then show "rfid_ring_ok (USART1_IRQHandler rbne errs c r)"
    "rfid_contents (USART1_IRQHandler rbne errs c r) =
      rfid_contents r @ (if rbne \<and> \<not> errs \<and> used_in RFID_RX_RING_LEN r < 63 then [c] else [])"
    using rfid_rx.put_ok [OF assms, of c] rfid_rx.put_cases [OF assms, of c] assms
    by (cases; simp add: rfid_put_def rfid_irq_error)+
qed

lemma reader_stream:
  assumes "rfid_ring_ok r"
  shows "rfid_contents r @ reader_bytes evs r = concat (fst (reader_run evs r)) @ rfid_contents (snd (reader_run evs r))"
  using assms
proof (induction evs r rule: reader_run.induct)
  case (2 rbne errs c evs r)
  then show ?case using rfid_irq_contents [OF 2(2), of rbne errs c] by simp
next
  case (3 evs r)
  obtain got r1 where p: "rfid_rx_pop 32 r = (got, r1)" by fastforce
  then have p2: "rfid_rx_pop (RFID_FRAME_MAX_LEN * 2) r = (got, r1)" by simp
  have "rfid_ring_ok r1" "got @ rfid_contents r1 = rfid_contents r"
    using rfid_rx.get_ok [OF 3(2), of 32] rfid_rx.get_split [OF 3(2), of 32] by (simp_all add: p)
  moreover have "rfid_contents r1 @ reader_bytes evs r1 = concat (fst (reader_run evs r1)) @ rfid_contents (snd (reader_run evs r1))"
    using 3(1) [OF p2 [symmetric] refl] calculation(1) by simp
  ultimately show ?case by (simp add: p case_prod_unfold Let_def) (metis append_assoc)
qed simp

end
