(* ===== verification/Sense_Spec.thy ===== *)
theory Sense_Spec
  imports Pilot_Sample Rfid_Ring
begin

text \<open>
  The sensors in front of the detectors: what the pilot's interrupt handler computes from a sample,
  and what the card reader's driver hands to the re-framer.
\<close>

section \<open>The pilot\<close>

lemma pilot_handler:
  assumes "line_of m a n d" "d \<noteq> 0" "unat raw \<le> 4095" "unat low \<le> 4095"
  obtains p' where "ADC0_1_IRQHandler m (Some raw) (Some low) p = Some p'"
    "cp_high_mv p' = pilot_line (sint a) (sint n) (sint d) (uint raw)"
    "cp_low_mv p' = pilot_line (sint a) (sint n) (sint d) (uint low)"
  using convert_exact [OF assms(1-3)] convert_exact [OF assms(1,2,4)]
  by (simp add: ADC0_1_IRQHandler_def cp_high_mv_def cp_low_mv_def pilot_line_sint)

lemma default_reads_band: "classify_strict (pilot_line (sint CAL_DEFAULT_CP_ANCHOR_RAW) (sint CAL_DEFAULT_CP_SLOPE_NUM)
    (sint CAL_DEFAULT_CP_SLOPE_DEN) (uint raw)) = band_of (uint raw)" for raw :: u16
  using default_bands [of "uint raw"] by simp

text \<open>C39: Two 12-bit samples of the pilot, one per phase, on a calibration line of non-zero denominator
  (any 16-bit anchor, numerator and non-zero denominator the flash record can hold): the handler is
  defined, no intermediate value leaves 32 bits, and each sample is stored as the millivolts of the line
  on unbounded integers, clamped to 12 V either way. On a rising line (positive denominator, numerator
  not negative) the higher sample never reads lower, and on the default line the classifier reads the
  sample's band and never state F.\<close>

theorem pilot_conversion:
  assumes "line_of m a n d" "d \<noteq> 0" "unat raw \<le> 4095" "unat low \<le> 4095"
  shows "\<exists>p'. ADC0_1_IRQHandler m (Some raw) (Some low) p = Some p' \<and>
    cp_high_mv p' = pilot_line (sint a) (sint n) (sint d) (uint raw) \<and>
    cp_low_mv p' = pilot_line (sint a) (sint n) (sint d) (uint low) \<and>
    \<bar>cp_high_mv p'\<bar> \<le> 12000 \<and> \<bar>cp_low_mv p'\<bar> \<le> 12000 \<and>
    (0 < sint d \<and> 0 \<le> sint n \<and> unat low \<le> unat raw \<longrightarrow> cp_low_mv p' \<le> cp_high_mv p') \<and>
    (a = CAL_DEFAULT_CP_ANCHOR_RAW \<and> n = CAL_DEFAULT_CP_SLOPE_NUM \<and> d = CAL_DEFAULT_CP_SLOPE_DEN \<longrightarrow>
      classify_strict (cp_high_mv p') = band_of (uint raw))"
proof -
  obtain p' where p': "ADC0_1_IRQHandler m (Some raw) (Some low) p = Some p'"
    "cp_high_mv p' = pilot_line (sint a) (sint n) (sint d) (uint raw)"
    "cp_low_mv p' = pilot_line (sint a) (sint n) (sint d) (uint low)" by (rule pilot_handler [OF assms])
  have "cp_low_mv p' \<le> cp_high_mv p'" if "0 < sint d" "0 \<le> sint n" "unat low \<le> unat raw"
  proof -
    have "uint low \<le> uint raw" using that(3) by (simp add: word_le_nat_alt flip: word_le_def)
    then show ?thesis unfolding p' by (rule pilot_line_mono [OF that(1,2)])
  qed
  moreover have "classify_strict (cp_high_mv p') = band_of (uint raw)" if "a = CAL_DEFAULT_CP_ANCHOR_RAW"
    "n = CAL_DEFAULT_CP_SLOPE_NUM" "d = CAL_DEFAULT_CP_SLOPE_DEN"
    unfolding p' that by (rule default_reads_band)
  moreover have "\<bar>cp_high_mv p'\<bar> \<le> 12000" "\<bar>cp_low_mv p'\<bar> \<le> 12000"
    unfolding p' abs_le_iff using pilot_line_bounds by (simp_all add: minus_le_iff)
  ultimately show ?thesis using p' by blast
qed

lemma pilot_conversion_witness:
  "\<exists>p'. ADC0_1_IRQHandler cal_mod_reset (Some 900) (Some 880) pilot_samples_reset = Some p' \<and>
     cp_low_mv p' \<le> cp_high_mv p' \<and> classify_strict (cp_high_mv p') = J1772_STATE_B"
proof -
  have "(CAL_DEFAULT_CP_SLOPE_DEN :: u16) \<noteq> 0" "unat (900 :: u16) \<le> 4095" "unat (880 :: u16) \<le> 4095"
    "unat (880 :: u16) \<le> unat (900 :: u16)" "0 < sint (CAL_DEFAULT_CP_SLOPE_DEN :: u16)"
    "0 \<le> sint (CAL_DEFAULT_CP_SLOPE_NUM :: u16)" by simp_all
  note c = this
  have "band_of (uint (900 :: u16)) = J1772_STATE_B" by (simp add: band_of_def)
  with pilot_conversion [OF default_line c(1-3), of pilot_samples_reset] c(4-6) show ?thesis by (simp only:) blast
qed

text \<open>On a record of denominator zero, which \<^verbatim>\<open>calibration_load\<close> publishes as it finds it, the
  handler's first sample has no defined value.\<close>

theorem zero_slope_undefined:
  "cp_slope_den (s_cal m) = 0 \<Longrightarrow> ADC0_1_IRQHandler (publish_to_isr m) (Some raw) low p = None"
  by (simp add: ADC0_1_IRQHandler_def convert_zero_den publish_to_isr_def)

section \<open>The card reader\<close>

text \<open>From reset, the chunks the supervisor feeds to the re-framer are, one after the other, the bytes
  the ring accepted up to some point; at most 63 of them still wait.\<close>

theorem reader_in_order:
  "reader_bytes evs rfid_ring_reset =
     concat (fst (reader_run evs rfid_ring_reset)) @ rfid_contents (snd (reader_run evs rfid_ring_reset))"
  using reader_stream [OF rfid_ring_at_reset(1), of evs] by (simp add: rfid_ring_at_reset)

end
