(* ===== verification/Framing.thy ===== *)
theory Framing
  imports Prelude
begin

text \<open>
  Reading frames from a byte stream. A \<open>peel\<close> function looks at the front of a buffer and finds a
  frame, an error, or too few bytes; a reader appends what arrives and peels until it cannot. The locale
  \<open>framer\<close> is the contract under which the frames found do not depend on how the bytes arrive.
\<close>

datatype 'm peel = More | Bad | Frame nat 'm

text \<open>What a buffer yields: the frames, the bytes that are left, and whether an error stopped it.\<close>

function peel_all :: "(u8 list \<Rightarrow> 'm peel) \<Rightarrow> u8 list \<Rightarrow> 'm list \<times> u8 list \<times> bool" where
  "peel_all peel b =
     (case peel b of
        More \<Rightarrow> ([], b, False)
      | Bad \<Rightarrow> ([], b, True)
      | Frame n m \<Rightarrow> if n = 0 \<or> n > length b then ([], b, True)
          else let (ms, r, bad) = peel_all peel (drop n b) in (m # ms, r, bad))"
  by pat_completeness auto

termination
  by (relation "measure (\<lambda>(p, b). length b)") auto

declare peel_all.simps [simp del]

text \<open>A reader that is given the chunks of a stream one by one and stops at the first error.\<close>

fun read_chunks :: "(u8 list \<Rightarrow> 'm peel) \<Rightarrow> u8 list list \<Rightarrow> u8 list \<Rightarrow> 'm list \<times> u8 list \<times> bool" where
  "read_chunks peel [] r = peel_all peel r"
| "read_chunks peel (c # cs) r =
     (let (ms, r1, bad) = peel_all peel r
      in if bad then (ms, r1 @ c @ concat cs, True)
         else let (ms2, r2, bad2) = read_chunks peel cs (r1 @ c) in (ms @ ms2, r2, bad2))"

locale framer =
  fixes peel :: "u8 list \<Rightarrow> 'm peel"
  assumes frame_size: "peel b = Frame n m \<Longrightarrow> 0 < n \<and> n \<le> length b"
    and frame_stable: "peel b = Frame n m \<Longrightarrow> peel (b @ c) = Frame n m"
    and bad_stable: "peel b = Bad \<Longrightarrow> peel (b @ c) = Bad"
begin

lemma peels_more: "peel b = More \<Longrightarrow> peel_all peel b = ([], b, False)"
  by (simp add: peel_all.simps [of peel b])

lemma peels_bad: "peel b = Bad \<Longrightarrow> peel_all peel b = ([], b, True)"
  by (simp add: peel_all.simps [of peel b])

lemma peels_frame:
  "peel b = Frame n m \<Longrightarrow>
     peel_all peel b = (let (ms, r, bad) = peel_all peel (drop n b) in (m # ms, r, bad))"
  using frame_size [of b n m] by (simp add: peel_all.simps [of peel b])

lemma peels_append:
  "peel_all peel (b @ c) =
     (let (ms, r, bad) = peel_all peel b
      in if bad then (ms, r @ c, True)
         else let (ms2, r2, bad2) = peel_all peel (r @ c) in (ms @ ms2, r2, bad2))"
proof (induction "length b" arbitrary: b rule: less_induct)
  case less
  show ?case
  proof (cases "peel b")
    case More
    then show ?thesis by (simp add: peels_more)
  next
    case Bad
    then show ?thesis by (simp add: peels_bad bad_stable)
  next
    case (Frame n m)
    note fit = frame_size [OF Frame]
    then have "length (drop n b) < length b" by auto
    then have "peel_all peel (drop n b @ c) =
      (let (ms, r, bad) = peel_all peel (drop n b)
       in if bad then (ms, r @ c, True)
          else let (ms2, r2, bad2) = peel_all peel (r @ c) in (ms @ ms2, r2, bad2))"
      by (rule less)
    then show ?thesis using fit
      by (simp add: peels_frame [OF Frame] peels_frame [OF frame_stable [OF Frame]] case_prod_unfold Let_def)
  qed
qed

text \<open>The frames read are those of the whole stream.\<close>

theorem read_stream: "read_chunks peel cs r = peel_all peel (r @ concat cs)"
proof (induction cs arbitrary: r)
  case (Cons c cs)
  show ?case using peels_append [of r "c @ concat cs"] by (simp add: Cons case_prod_unfold Let_def)
qed simp

lemma peels_rest:
  "peel_all peel b = (ms, r, bad) \<Longrightarrow> (\<exists>front. b = front @ r) \<and> peel r = (if bad then Bad else More)"
proof (induction "length b" arbitrary: b ms rule: less_induct)
  case less
  show ?case
  proof (cases "peel b")
    case More
    with less.prems show ?thesis by (auto simp: peels_more)
  next
    case Bad
    with less.prems show ?thesis by (auto simp: peels_bad)
  next
    case (Frame n m)
    then obtain ms2 where t: "peel_all peel (drop n b) = (ms2, r, bad)"
      using less.prems by (auto simp: peels_frame [OF Frame] split: prod.splits)
    have "length (drop n b) < length b" using frame_size [OF Frame] by auto
    from less.hyps [OF this t] obtain front where "drop n b = front @ r" "peel r = (if bad then Bad else More)" by blast
    then show ?thesis by (metis append_assoc append_take_drop_id)
  qed
qed

end

end
