(* ===== verification/Mqtt_Codec.thy ===== *)
theory Mqtt_Codec
  imports Prelude
begin

text \<open>
  The MQTT 3.1.1 packets of the companion daemon, \<^verbatim>\<open>companion/src/mqtt_codec.c\<close>. A C string is the list
  of its bytes without the terminating zero, an optional argument (\<open>NULL\<close>) an option. An encoder that
  gets a buffer of \<open>cap\<close> bytes returns the bytes it wrote there, or \<open>None\<close> for the code's -1. The lemmas show that
  the length field and PUBLISH packets decode to what was encoded, wait on every proper prefix, and
  fit the buffer.
\<close>

section \<open>The length field\<close>

fun remlen_bytes :: "nat \<Rightarrow> nat \<Rightarrow> u8 list" where
  "remlen_bytes 0 val = []"
| "remlen_bytes (Suc k) val =
     (let b = of_nat (val AND 0x7F) :: u8; rest = val div 128
      in if rest \<noteq> 0 then (b OR 0x80) # remlen_bytes k rest else [b])"

definition mqtt_encode_remlen :: "nat \<Rightarrow> u8 list option" where
  "mqtt_encode_remlen val = (if val > 268435455 then None else Some (remlen_bytes 4 val))"

text \<open>The value and the number of bytes consumed; \<open>None\<close> for the code's \<open>(size_t)-1\<close> with none consumed.\<close>

fun remlen_loop :: "u8 list \<Rightarrow> nat \<Rightarrow> nat \<Rightarrow> nat \<Rightarrow> (nat \<times> nat) option" where
  "remlen_loop [] i shift val = None"
| "remlen_loop (b # bs) i shift val =
     (if i < 4
      then let v = val OR push_bit shift (unat (b AND 0x7F))
           in if b AND 0x80 = 0 then Some (v, i + 1) else remlen_loop bs (i + 1) (shift + 7) v
      else None)"

definition mqtt_decode_remlen :: "u8 list \<Rightarrow> (nat \<times> nat) option" where
  "mqtt_decode_remlen inp = remlen_loop inp 0 0 0"

section \<open>Packets\<close>

definition put_str :: "nat \<Rightarrow> u8 list \<Rightarrow> u8 list option" where
  "put_str room s =
     (let l = length s
      in if l > 0xFFFF \<or> room < l + 2 then None
         else Some ([of_nat (l div 256), of_nat (l AND 0xFF)] @ s))"

definition mqtt_finalize :: "nat \<Rightarrow> u8 \<Rightarrow> u8 list \<Rightarrow> u8 list option" where
  "mqtt_finalize cap type_flags payload =
     (case mqtt_encode_remlen (length payload) of None \<Rightarrow> None
      | Some rl \<Rightarrow> if 1 + length rl + length payload > cap then None else Some (type_flags # rl @ payload))"

text \<open>Append a string field to what is laid out already.\<close>

definition then_str :: "nat \<Rightarrow> u8 list \<Rightarrow> u8 list option \<Rightarrow> u8 list option" where
  "then_str room s p =
     (case p of None \<Rightarrow> None
      | Some p \<Rightarrow> (case put_str (room - length p) s of None \<Rightarrow> None | Some f \<Rightarrow> Some (p @ f)))"

definition mqtt_encode_connect ::
  "nat \<Rightarrow> u8 list \<Rightarrow> u8 list option \<Rightarrow> u8 list option \<Rightarrow> u32 \<Rightarrow> u8 list option \<Rightarrow> u8 list option \<Rightarrow> u8 list option" where
  "mqtt_encode_connect cap client_id user pass keepalive_s will_topic will_msg =
     (if cap < 16 then None
      else let room = cap - 5; vh_name = [0x00, 0x04, 0x4D, 0x51, 0x54, 0x54, 0x04] :: u8 list
        in if room < length vh_name + 3 then None
           else let have_will = (will_topic \<noteq> None \<and> will_msg \<noteq> None);
                    flgs = 0x02 OR (if have_will then 0x04 else 0) OR (if user \<noteq> None then 0x80 else 0) OR
                      (if pass \<noteq> None \<and> user \<noteq> None then 0x40 else 0) :: u8;
                    p0 = Some (vh_name @ [flgs, ucast (drop_bit 8 keepalive_s), ucast (keepalive_s AND 0xFF)]);
                    p1 = then_str room client_id p0;
                    p2 = (case (will_topic, will_msg) of (Some t, Some m) \<Rightarrow> then_str room m (then_str room t p1) | _ \<Rightarrow> p1);
                    p3 = (case user of Some u \<Rightarrow> then_str room u p2 | None \<Rightarrow> p2);
                    p4 = (case (pass, user) of (Some w, Some u) \<Rightarrow> then_str room w p3 | _ \<Rightarrow> p3)
                in (case p4 of None \<Rightarrow> None | Some p \<Rightarrow> mqtt_finalize cap 0x10 p))"

definition mqtt_encode_publish :: "nat \<Rightarrow> u8 list \<Rightarrow> u8 list \<Rightarrow> bool \<Rightarrow> u8 list option" where
  "mqtt_encode_publish cap topic payload retain =
     (if cap < 8 then None
      else let room = cap - 5
        in (case put_str room topic of None \<Rightarrow> None
            | Some f \<Rightarrow> if room - length f < length payload then None
                else mqtt_finalize cap (if retain then 0x31 else 0x30) (f @ payload)))"

definition mqtt_encode_pingreq :: "nat \<Rightarrow> u8 list option" where
  "mqtt_encode_pingreq cap = (if cap < 2 then None else Some [0xC0, 0x00])"

definition mqtt_encode_disconnect :: "nat \<Rightarrow> u8 list option" where
  "mqtt_encode_disconnect cap = (if cap < 2 then None else Some [0xE0, 0x00])"

definition mqtt_encode_subscribe :: "nat \<Rightarrow> u16 \<Rightarrow> u8 list \<Rightarrow> u8 list option" where
  "mqtt_encode_subscribe cap packet_id topic =
     (if cap < 8 then None
      else let room = cap - 5
        in (case then_str room topic (Some [ucast (drop_bit 8 packet_id), ucast (packet_id AND 0xFF)]) of None \<Rightarrow> None
            | Some p \<Rightarrow> if room - length p < 1 then None else mqtt_finalize cap 0x82 (p @ [0x00])))"

definition mqtt_parse_connack :: "u8 list \<Rightarrow> int" where
  "mqtt_parse_connack buf =
     (if length buf < 4 \<or> buf ! 0 \<noteq> 0x20 \<or> buf ! 1 \<noteq> 0x02 then -1
      else if buf ! 3 = 0 then 0 else uint (buf ! 3))"

definition mqtt_decode_publish :: "u8 list \<Rightarrow> (u8 list \<times> u8 list) option" where
  "mqtt_decode_publish buf =
     (if length buf < 2 then None
      else if buf ! 0 AND 0xF0 \<noteq> 0x30 then None
      else if buf ! 0 AND 0x06 \<noteq> 0 then None
      else (case mqtt_decode_remlen (drop 1 buf) of None \<Rightarrow> None
        | Some (remlen, rl_consumed) \<Rightarrow>
            let header_n = 1 + rl_consumed
            in if header_n > length buf \<or> remlen > length buf - header_n then None
               else let vh = take remlen (drop header_n buf)
                 in if remlen < 2 then None
                    else let topic_len = unat (vh ! 0) * 256 + unat (vh ! 1)
                      in if remlen < 2 + topic_len then None
                         else Some (take topic_len (drop 2 vh), drop (2 + topic_len) vh)))"

section \<open>The length field decodes\<close>

lemma digit_bits:
  fixes b :: u8
  assumes "n < 128"
  shows "unat (of_nat n AND 0x7F :: u8) = n" "of_nat n AND 0x80 = (0 :: u8)"
    "unat ((of_nat n OR 0x80) AND 0x7F :: u8) = n" "(of_nat n OR 0x80) AND 0x80 \<noteq> (0 :: u8)"
proof -
  have "\<forall>n \<in> {0 ..< 128}. unat (of_nat n AND 0x7F :: u8) = n \<and> of_nat n AND 0x80 = (0 :: u8) \<and>
    unat ((of_nat n OR 0x80) AND 0x7F :: u8) = n \<and> (of_nat n OR 0x80) AND 0x80 \<noteq> (0 :: u8)"
    by code_simp
  then show "unat (of_nat n AND 0x7F :: u8) = n" "of_nat n AND 0x80 = (0 :: u8)"
    "unat ((of_nat n OR 0x80) AND 0x7F :: u8) = n" "(of_nat n OR 0x80) AND 0x80 \<noteq> (0 :: u8)"
    using assms by simp_all
qed

lemma low_7: "v AND 0x7F = v mod 128" for v :: nat
  using take_bit_eq_mod [of 7 v] take_bit_eq_mask [of 7 v] by (simp add: mask_eq_exp_minus_1)

lemma or_digit:
  fixes v d :: nat
  assumes "v < 2 ^ s"
  shows "v OR push_bit s d = v + d * 2 ^ s"
proof -
  have "take_bit s v = v" using assms by (simp add: take_bit_nat_eq_self)
  then have "\<not> bit v n \<or> \<not> bit (push_bit s d) n" for n
    by (metis bit_push_bit_iff bit_take_bit_iff not_le)
  from disjunctive_add [of v "push_bit s d", OF this] show ?thesis by (simp add: push_bit_eq_mult)
qed

lemma digit_sum: "d * 2 ^ s + r * 2 ^ (s + 7) = (d + r * 128) * (2 ^ s :: nat)"
  by (simp add: power_add algebra_simps)

lemma remlen_loop_bytes:
  assumes "val < 128 ^ k" "i + k = 4" "0 < k" "acc < 2 ^ shift"
  shows "remlen_loop (remlen_bytes k val @ rest) i shift acc =
    Some (acc + val * 2 ^ shift, i + length (remlen_bytes k val))"
  using assms
proof (induction k arbitrary: val i shift acc)
  case (Suc k)
  let ?d = "val mod 128" and ?r = "val div 128"
  have d: "?d < 128" by simp
  note bits = digit_bits [OF d]
  have i: "i < 4" using Suc.prems by simp
  show ?case
  proof (cases "?r = 0")
    case True
    then have "?d = val" by (simp add: div_eq_0_iff)
    with True i show ?thesis using bits(1,2) or_digit [OF Suc.prems(4), of val] by (simp add: low_7 Let_def)
  next
    case False
    have k: "0 < k" using False Suc.prems(1) by (cases k) simp_all
    have r: "?r < 128 ^ k" using Suc.prems(1) by (simp add: less_mult_imp_div_less mult.commute)
    have "?d * 2 ^ shift \<le> 127 * 2 ^ shift" by (rule mult_right_mono) (use d in simp_all)
    moreover have "2 ^ (shift + 7) = 128 * (2 ^ shift :: nat)" by (simp add: power_add)
    ultimately have acc: "acc + ?d * 2 ^ shift < 2 ^ (shift + 7)" using Suc.prems(4) by linarith
    have sum: "?d * 2 ^ shift + ?r * 2 ^ (shift + 7) = val * 2 ^ shift" unfolding digit_sum by simp
    have "remlen_loop (remlen_bytes (Suc k) val @ rest) i shift acc =
        remlen_loop (remlen_bytes k ?r @ rest) (i + 1) (shift + 7) (acc + ?d * 2 ^ shift)"
      using False i bits(3,4) or_digit [OF Suc.prems(4), of ?d] by (simp add: low_7 Let_def)
    also have "\<dots> = Some (acc + ?d * 2 ^ shift + ?r * 2 ^ (shift + 7), i + 1 + length (remlen_bytes k ?r))"
      using r k acc Suc.prems(2) by (intro Suc.IH) simp_all
    finally show ?thesis using False sum by (simp add: Let_def)
  qed
qed simp

lemma remlen_bytes_length: "0 < k \<Longrightarrow> 0 < length (remlen_bytes k val) \<and> length (remlen_bytes k val) \<le> k"
proof (induction k arbitrary: val)
  case (Suc k)
  then show ?case by (cases k) (auto simp: Let_def)
qed simp

lemma remlen_decodes:
  assumes "mqtt_encode_remlen val = Some bs"
  shows "mqtt_decode_remlen (bs @ rest) = Some (val, length bs)" "1 \<le> length bs" "length bs \<le> 4"
proof -
  have bs: "bs = remlen_bytes 4 val" "val < 128 ^ 4" using assms by (simp_all add: mqtt_encode_remlen_def split: if_splits)
  show "mqtt_decode_remlen (bs @ rest) = Some (val, length bs)"
    unfolding mqtt_decode_remlen_def bs(1) using remlen_loop_bytes [OF bs(2), of 0 0 0 rest] by simp
  show "1 \<le> length bs" "length bs \<le> 4" using remlen_bytes_length [of 4 val] by (auto simp: bs(1) Suc_le_eq)
qed

lemma remlen_loop_append: "remlen_loop bs i shift acc = Some r \<Longrightarrow> remlen_loop (bs @ cs) i shift acc = Some r"
  by (induction bs i shift acc rule: remlen_loop.induct) (auto simp: Let_def split: if_splits)

lemma remlen_loop_used:
  "remlen_loop bs i shift acc = Some (v, n) \<Longrightarrow> i < n \<and> n \<le> i + length bs \<and> n \<le> max 4 i"
  by (induction bs i shift acc rule: remlen_loop.induct) (fastforce simp: Let_def split: if_splits)+

lemma remlen_loop_stuck:
  "remlen_loop bs i shift acc = None \<Longrightarrow> 4 \<le> i + length bs \<Longrightarrow> remlen_loop (bs @ cs) i shift acc = None"
proof (induction bs i shift acc rule: remlen_loop.induct)
  case (1 i shift acc)
  then show ?case by (cases cs) simp_all
qed (auto simp: Let_def split: if_splits)

lemma remlen_append: "mqtt_decode_remlen bs = Some r \<Longrightarrow> mqtt_decode_remlen (bs @ cs) = Some r"
  by (simp add: mqtt_decode_remlen_def remlen_loop_append)

lemma remlen_used: "mqtt_decode_remlen bs = Some (v, n) \<Longrightarrow> 0 < n \<and> n \<le> length bs \<and> n \<le> 4"
  using remlen_loop_used [of bs 0 0 0 v n] by (simp add: mqtt_decode_remlen_def)

lemma remlen_stuck: "mqtt_decode_remlen bs = None \<Longrightarrow> 4 \<le> length bs \<Longrightarrow> mqtt_decode_remlen (bs @ cs) = None"
  using remlen_loop_stuck [of bs 0 0 0 cs] by (simp add: mqtt_decode_remlen_def)

section \<open>PUBLISH packets\<close>

lemma put_str_bytes:
  assumes "put_str room s = Some f"
  shows "f = [of_nat (length s div 256), of_nat (length s mod 256)] @ s" "length s \<le> 65535" "length s + 2 \<le> room"
  using assms take_bit_eq_mod [of 8 "length s"] take_bit_eq_mask [of 8 "length s"]
  by (auto simp: put_str_def Let_def mask_eq_exp_minus_1 split: if_splits)

lemma str_length: "n \<le> 65535 \<Longrightarrow> unat (of_nat (n div 256) :: u8) * 256 + unat (of_nat (n mod 256) :: u8) = n"
  by (simp add: unat_of_nat)

lemma finalize_bytes:
  assumes "mqtt_finalize cap t payload = Some pkt"
  obtains rl where "pkt = t # rl @ payload" "mqtt_encode_remlen (length payload) = Some rl" "length pkt \<le> cap"
  using assms by (auto simp: mqtt_finalize_def split: option.splits if_splits)

lemma decode_publish_eq:
  assumes "2 \<le> length buf" "buf ! 0 AND 0xF0 = 0x30" "buf ! 0 AND 0x06 = 0"
    "mqtt_decode_remlen (drop 1 buf) = Some (remlen, n)"
  shows "mqtt_decode_publish buf =
    (if 1 + n + remlen > length buf then None
     else let vh = take remlen (drop (1 + n) buf)
       in if remlen < 2 then None
          else let topic_len = unat (vh ! 0) * 256 + unat (vh ! 1)
            in if remlen < 2 + topic_len then None
               else Some (take topic_len (drop 2 vh), drop (2 + topic_len) vh))"
  using assms by (auto simp: mqtt_decode_publish_def Let_def)

lemma publish_first: "(if retain then 0x31 else 0x30) AND 0xF0 = (0x30 :: u8)" "(if retain then 0x31 else 0x30) AND 0x06 = (0 :: u8)"
  by simp_all

lemma publish_bytes:
  assumes "mqtt_encode_publish cap topic payload retain = Some pkt"
  obtains rl f where "pkt = (if retain then 0x31 else 0x30) # rl @ f @ payload"
    "mqtt_encode_remlen (length f + length payload) = Some rl" "length pkt \<le> cap"
    "f = [of_nat (length topic div 256), of_nat (length topic mod 256)] @ topic" "length topic \<le> 65535"
proof -
  from assms obtain f where f: "put_str (cap - 5) topic = Some f"
    and fin: "mqtt_finalize cap (if retain then 0x31 else 0x30) (f @ payload) = Some pkt"
    by (auto simp: mqtt_encode_publish_def Let_def split: if_splits option.splits)
  from fin obtain rl where "pkt = (if retain then 0x31 else 0x30) # rl @ f @ payload"
    "mqtt_encode_remlen (length f + length payload) = Some rl" "length pkt \<le> cap"
    by (rule finalize_bytes) simp
  then show ?thesis using put_str_bytes(1,2) [OF f] by (rule that)
qed

lemma publish_decodes:
  assumes "mqtt_encode_publish cap topic payload retain = Some pkt"
  shows "mqtt_decode_publish pkt = Some (topic, payload)"
proof -
  let ?t = "if retain then 0x31 else 0x30 :: u8"
  obtain rl f where p: "pkt = ?t # rl @ f @ payload" "mqtt_encode_remlen (length f + length payload) = Some rl"
    "f = [of_nat (length topic div 256), of_nat (length topic mod 256)] @ topic" "length topic \<le> 65535"
    using assms by (rule publish_bytes) simp
  note rl = remlen_decodes [OF p(2)]
  have d: "mqtt_decode_remlen (drop 1 pkt) = Some (length f + length payload, length rl)"
    using rl(1) [of "f @ payload"] by (simp add: p(1))
  have vh: "take (length f + length payload) (drop (1 + length rl) pkt) = f @ payload" by (simp add: p(1))
  have tl: "unat ((f @ payload) ! 0) * 256 + unat ((f @ payload) ! 1) = length topic"
    using str_length [OF p(4)] by (simp add: p(3) nth_append)
  have first: "2 \<le> length pkt" "pkt ! 0 AND 0xF0 = 0x30" "pkt ! 0 AND 0x06 = 0"
    using rl(2) publish_first [of retain] by (simp_all add: p(1))
  have fits: "1 + length rl + (length f + length payload) \<le> length pkt" by (simp add: p(1))
  show ?thesis
    unfolding decode_publish_eq [OF first d] Let_def vh tl using fits by (simp add: p(3))
qed

lemma publish_prefix:
  assumes "mqtt_encode_publish cap topic payload retain = Some pkt" "n < length pkt"
  shows "mqtt_decode_publish (take n pkt) = None"
proof -
  let ?t = "if retain then 0x31 else 0x30 :: u8"
  obtain rl f where p: "pkt = ?t # rl @ f @ payload" "mqtt_encode_remlen (length f + length payload) = Some rl"
    using assms(1) by (rule publish_bytes) simp
  note rl = remlen_decodes [OF p(2)]
  show ?thesis
  proof (cases "mqtt_decode_remlen (drop 1 (take n pkt))")
    case None
    then show ?thesis by (simp add: mqtt_decode_publish_def)
  next
    case (Some r)
    have "0 < n" using Some by (cases n) (simp_all add: mqtt_decode_remlen_def)
    then have "drop 1 (take n pkt @ drop n pkt) = drop 1 (take n pkt) @ drop n pkt"
      by (subst drop_append) (use assms(2) in simp)
    then have "drop 1 pkt = drop 1 (take n pkt) @ drop n pkt" by (simp only: append_take_drop_id)
    then have "mqtt_decode_remlen (drop 1 pkt) = Some r" using remlen_append [OF Some] by simp
    then have r: "r = (length f + length payload, length rl)" using rl(1) [of "f @ payload"] by (simp add: p(1))
    have "1 + length rl + (length f + length payload) > length (take n pkt)" using assms(2) by (simp add: p(1))
    then show ?thesis using Some by (auto simp: mqtt_decode_publish_def r Let_def)
  qed
qed

lemma publish_fits:
  assumes "length topic \<le> 65535" "7 + length topic + length payload \<le> cap" "8 \<le> cap" "cap \<le> 268435455"
  obtains pkt where "mqtt_encode_publish cap topic payload retain = Some pkt"
proof -
  let ?n = "length topic + length payload + 2"
  obtain rl where rl: "mqtt_encode_remlen ?n = Some rl" using assms by (auto simp: mqtt_encode_remlen_def)
  from remlen_decodes(3) [OF rl] have "1 + length rl + ?n \<le> cap" using assms(2) by simp
  then have "\<exists>pkt. mqtt_encode_publish cap topic payload retain = Some pkt"
    using assms rl by (simp add: mqtt_encode_publish_def put_str_def mqtt_finalize_def Let_def add.commute) arith
  then show ?thesis using that by blast
qed

end
