(* ===== verification/Mqtt_Client.thy ===== *)
theory Mqtt_Client
  imports Framing Mqtt_Codec
begin

text \<open>
  The MQTT transport of the companion daemon, \<^verbatim>\<open>companion/src/mqtt_client.c\<close>. The socket is not the program's:
  what \<open>send\<close> and \<open>recv\<close> answer are arguments, lists of answers used one after the other, and \<open>wire\<close> collects
  what was handed to \<open>send\<close>. An exhausted list is a socket that has nothing more to give
  (\<open>EAGAIN\<close>) or take (an error). The publish callback is a function \<open>cb\<close> on a state of its own. The frames of
  the receive buffer form a \<open>framer\<close>.
\<close>

abbreviation (input) "MQTT_BUF \<equiv> (2048 :: nat)"
abbreviation (input) "MQTT_CLIENT_RX_BUF \<equiv> (1024 :: nat)"

record mqtt_client =
  fd_open :: bool
  keepalive_s :: u32
  last_send_ms :: int
  next_packet_id :: u16
  mq_rx :: "u8 list"
  pub_cb :: bool

definition mqtt_client_init :: mqtt_client where
  "mqtt_client_init = \<lparr>fd_open = False, keepalive_s = 0, last_send_ms = 0, next_packet_id = 1, mq_rx = [], pub_cb = False\<rparr>"

section \<open>Sending\<close>

datatype send_answer = Sent nat | Send_intr | Send_error

record sock =
  sends :: "send_answer list"
  wire :: "u8 list"

fun send_loop :: "send_answer list \<Rightarrow> u8 list \<Rightarrow> u8 list \<Rightarrow> int \<times> sock" where
  "send_loop answers w [] = (0, \<lparr>sends = answers, wire = w\<rparr>)"
| "send_loop [] w p = (-1, \<lparr>sends = [], wire = w\<rparr>)"
| "send_loop (Send_intr # answers) w p = send_loop answers w p"
| "send_loop (Send_error # answers) w p = (-1, \<lparr>sends = answers, wire = w\<rparr>)"
| "send_loop (Sent n # answers) w p =
     (if n = 0 then (-1, \<lparr>sends = answers, wire = w\<rparr>) else send_loop answers (w @ take n p) (drop n p))"

definition send_all :: "u8 list \<Rightarrow> sock \<Rightarrow> int \<times> sock" where
  "send_all p s = send_loop (sends s) (wire s) p"

definition mqtt_client_disconnect :: "mqtt_client \<Rightarrow> sock \<Rightarrow> mqtt_client \<times> sock" where
  "mqtt_client_disconnect c s =
     (let s1 = (if fd_open c
                then (case mqtt_encode_disconnect 4 of None \<Rightarrow> s | Some b \<Rightarrow> snd (send_all b s)) else s)
      in (c\<lparr>fd_open := False, mq_rx := [], pub_cb := False\<rparr>, s1))"

definition mqtt_client_publish :: "u8 list \<Rightarrow> u8 list \<Rightarrow> bool \<Rightarrow> mqtt_client \<Rightarrow> sock \<Rightarrow> int \<times> mqtt_client \<times> sock" where
  "mqtt_client_publish topic payload retain c s =
     (if \<not> fd_open c then (-1, c, s)
      else (case mqtt_encode_publish MQTT_BUF topic payload retain of
          None \<Rightarrow> (-1, c, s)
        | Some b \<Rightarrow> let (rc, s1) = send_all b s
            in if rc \<noteq> 0 then (let (c1, s2) = mqtt_client_disconnect c s1 in (-1, c1, s2)) else (0, c, s1)))"

definition mqtt_client_subscribe :: "u8 list \<Rightarrow> mqtt_client \<Rightarrow> sock \<Rightarrow> int \<times> mqtt_client \<times> sock" where
  "mqtt_client_subscribe topic c s =
     (if \<not> fd_open c then (-1, c, s)
      else let pid0 = next_packet_id c; pid = (if pid0 = 0 then 1 else pid0);
               c1 = c\<lparr>next_packet_id := pid + 1\<rparr>
        in (case mqtt_encode_subscribe MQTT_BUF pid topic of
            None \<Rightarrow> (let (c2, s2) = mqtt_client_disconnect c1 s in (-1, c2, s2))
          | Some b \<Rightarrow> let (rc, s1) = send_all b s
              in if rc \<noteq> 0 then (let (c2, s2) = mqtt_client_disconnect c1 s1 in (-1, c2, s2)) else (0, c1, s1)))"

definition mqtt_client_set_publish_cb :: "mqtt_client \<Rightarrow> mqtt_client" where
  "mqtt_client_set_publish_cb c = c\<lparr>pub_cb := True\<rparr>"

section \<open>Receiving\<close>

datatype recv_answer = Got "u8 list" | Closed | Again | Intr | Recv_error

record mqtt_config =
  client_id :: "u8 list"
  mq_user :: "u8 list option"
  mq_pass :: "u8 list option"
  mq_keepalive :: u32
  will_topic :: "u8 list option"
  will_msg :: "u8 list option"

text \<open>\<open>tcp\<close>: the name resolved and the connection came up; \<open>first\<close>: what the first \<open>recv\<close> answered.\<close>

definition mqtt_client_connect :: "bool \<Rightarrow> recv_answer \<Rightarrow> mqtt_config \<Rightarrow> sock \<Rightarrow> int \<times> mqtt_client \<times> sock" where
  "mqtt_client_connect tcp first cfg s =
     (let c = mqtt_client_init
      in if \<not> tcp then (-1, c, s)
         else (case mqtt_encode_connect MQTT_BUF (client_id cfg) (mq_user cfg) (mq_pass cfg) (mq_keepalive cfg)
                   (will_topic cfg) (will_msg cfg) of
             None \<Rightarrow> (-1, c, s)
           | Some b \<Rightarrow> let (rc, s1) = send_all b s
               in if rc \<noteq> 0 then (-1, c, s1)
                  else (case first of
                      Got r \<Rightarrow> if length r < 4 \<or> mqtt_parse_connack (take MQTT_BUF r) \<noteq> 0 then (-1, c, s1)
                        else (0, c\<lparr>fd_open := True, keepalive_s := mq_keepalive cfg\<rparr>, s1)
                    | _ \<Rightarrow> (-1, c, s1))))"

datatype mqtt_event = Published "u8 list" "u8 list" | Malformed | Quiet | Unknown

definition mqtt_event_of :: "u8 list \<Rightarrow> mqtt_event" where
  "mqtt_event_of pkt =
     (let t = pkt ! 0 AND 0xF0
      in if t = 0x30 then (case mqtt_decode_publish pkt of Some (topic, payload) \<Rightarrow> Published topic payload | None \<Rightarrow> Malformed)
         else if t = 0xD0 \<or> t = 0x90 then Quiet else Unknown)"

text \<open>\<open>peel_within\<close> is the code's function for a buffer of any size.\<close>

definition peel_within :: "nat \<Rightarrow> u8 list \<Rightarrow> mqtt_event peel" where
  "peel_within cap rx =
     (if length rx < 2 then More
      else (case mqtt_decode_remlen (drop 1 rx) of
          None \<Rightarrow> if length rx - 1 \<ge> 4 then Bad else More
        | Some (remlen, rl_consumed) \<Rightarrow>
            let pkt_total = 1 + rl_consumed + remlen
            in if pkt_total > cap then Bad
               else if pkt_total > length rx then More
               else Frame pkt_total (mqtt_event_of (take pkt_total rx))))"

definition try_consume_one :: "u8 list \<Rightarrow> mqtt_event peel" where
  "try_consume_one rx = peel_within MQTT_CLIENT_RX_BUF rx"

definition run_cb :: "(u8 list \<Rightarrow> u8 list \<Rightarrow> 'u \<Rightarrow> 'u) \<Rightarrow> mqtt_event \<Rightarrow> 'u \<Rightarrow> 'u" where
  "run_cb cb ev u = (case ev of Published topic payload \<Rightarrow> cb topic payload u | _ \<Rightarrow> u)"

text \<open>The drain: append what \<open>recv\<close> gives until it would block. A full buffer drops the link.\<close>

datatype drained = Drained | Overrun | Peer_closed | Socket_error

fun drain_rx :: "recv_answer list \<Rightarrow> u8 list \<Rightarrow> drained \<times> u8 list" where
  "drain_rx [] rx = (if length rx \<ge> MQTT_CLIENT_RX_BUF then (Overrun, rx) else (Drained, rx))"
| "drain_rx (a # answers) rx =
     (if length rx \<ge> MQTT_CLIENT_RX_BUF then (Overrun, rx)
      else (case a of
          Got bs \<Rightarrow> if bs = [] then (Peer_closed, rx)
            else drain_rx answers (rx @ take (MQTT_CLIENT_RX_BUF - length rx) bs)
        | Closed \<Rightarrow> (Peer_closed, rx)
        | Again \<Rightarrow> (Drained, rx)
        | Intr \<Rightarrow> (Drained, rx)
        | Recv_error \<Rightarrow> (Socket_error, rx)))"

text \<open>The peel loop: one packet after the other is handed to the callback and removed.\<close>

function consume_loop :: "bool \<Rightarrow> (u8 list \<Rightarrow> u8 list \<Rightarrow> 'u \<Rightarrow> 'u) \<Rightarrow> u8 list \<Rightarrow> 'u \<Rightarrow> bool \<times> u8 list \<times> 'u" where
  "consume_loop has_cb cb rx u =
     (if rx = [] then (True, rx, u)
      else (case try_consume_one rx of
          Bad \<Rightarrow> (False, rx, u)
        | More \<Rightarrow> (True, rx, u)
        | Frame n ev \<Rightarrow> consume_loop has_cb cb (drop n rx) (if has_cb then run_cb cb ev u else u)))"
  by pat_completeness auto

termination
  by (relation "measure (\<lambda>(h, cb, rx, u). length rx)")
    (auto simp: try_consume_one_def peel_within_def Let_def split: if_splits option.splits)

declare consume_loop.simps [simp del]

definition mqtt_keepalive :: "int \<Rightarrow> mqtt_client \<Rightarrow> sock \<Rightarrow> int \<times> mqtt_client \<times> sock" where
  "mqtt_keepalive now_ms c s =
     (if 0 < sint (keepalive_s c) \<and> now_ms - last_send_ms c \<ge> sint (keepalive_s c) * 1000 div 2
      then (case mqtt_encode_pingreq 4 of
          None \<Rightarrow> (let (c1, s1) = mqtt_client_disconnect c s in (-1, c1, s1))
        | Some b \<Rightarrow> let (rc, s1) = send_all b s
            in if rc \<noteq> 0 then (let (c1, s2) = mqtt_client_disconnect c s1 in (-1, c1, s2))
               else (0, c\<lparr>last_send_ms := now_ms\<rparr>, s1))
      else (0, c, s))"

definition mqtt_client_tick ::
  "(u8 list \<Rightarrow> u8 list \<Rightarrow> 'u \<Rightarrow> 'u) \<Rightarrow> int \<Rightarrow> recv_answer list \<Rightarrow> mqtt_client \<Rightarrow> 'u \<Rightarrow> sock \<Rightarrow> int \<times> mqtt_client \<times> 'u \<times> sock" where
  "mqtt_client_tick cb now_ms answers c u s =
     (if \<not> fd_open c then (-1, c, u, s)
      else (case drain_rx answers (mq_rx c) of
          (Drained, rx) \<Rightarrow>
            let (ok, rx1, u1) = consume_loop (pub_cb c) cb rx u; c1 = c\<lparr>mq_rx := rx1\<rparr>
            in if \<not> ok then (let (c2, s2) = mqtt_client_disconnect c1 s in (-1, c2, u1, s2))
               else (let (rc, c2, s2) = mqtt_keepalive now_ms c1 s in (rc, c2, u1, s2))
        | (_, rx) \<Rightarrow> let (c1, s1) = mqtt_client_disconnect (c\<lparr>mq_rx := rx\<rparr>) s in (-1, c1, u, s1)))"

section \<open>The packets of the buffer form a framer\<close>

lemma peel_size: "peel_within cap rx = Frame n ev \<Longrightarrow> 0 < n \<and> n \<le> length rx"
  by (auto simp: peel_within_def Let_def split: if_splits option.splits)

lemma peel_frame_stable: "peel_within cap rx = Frame n ev \<Longrightarrow> peel_within cap (rx @ c) = Frame n ev"
  using remlen_append [of "drop 1 rx" _ c]
  by (auto simp: peel_within_def Let_def split: if_splits option.splits)

lemma peel_bad_stable: "peel_within cap rx = Bad \<Longrightarrow> peel_within cap (rx @ c) = Bad"
  using remlen_append [of "drop 1 rx" _ c] remlen_stuck [of "drop 1 rx" c]
  by (auto simp: peel_within_def Let_def split: if_splits option.splits)

interpretation packets: framer "peel_within cap" for cap
  by unfold_locales (fact peel_size peel_frame_stable peel_bad_stable)+

lemma consume_peel: "try_consume_one = peel_within MQTT_CLIENT_RX_BUF"
  by (intro ext) (simp add: try_consume_one_def)

interpretation mqtt: framer try_consume_one
  unfolding consume_peel by (rule packets.framer_axioms)

lemma consume_size: "try_consume_one rx = Frame n ev \<Longrightarrow> 0 < n \<and> n \<le> length rx"
  unfolding consume_peel by (rule peel_size)

lemma consume_scan:
  "consume_loop has_cb cb rx u =
     (let (evs, rest, bad) = peel_all try_consume_one rx in (\<not> bad, rest, if has_cb then fold (run_cb cb) evs u else u))"
proof (induction has_cb cb rx u rule: consume_loop.induct)
  case (1 has_cb cb rx u)
  show ?case
  proof (cases "try_consume_one rx")
    case More
    then show ?thesis by (simp add: consume_loop.simps [of _ _ rx] mqtt.peels_more)
  next
    case Bad
    moreover have "rx \<noteq> []" using Bad by (auto simp: try_consume_one_def peel_within_def)
    ultimately show ?thesis by (simp add: consume_loop.simps [of _ _ rx] mqtt.peels_bad)
  next
    case (Frame n ev)
    moreover have "rx \<noteq> []" using consume_size [OF Frame] by auto
    ultimately show ?thesis using 1
      by (simp add: consume_loop.simps [of _ _ rx] mqtt.peels_frame case_prod_unfold Let_def)
  qed
qed

end
