(* ===== verification/Shmem.thy ===== *)
theory Shmem
  imports Prelude
begin

text \<open>
  The shared memory segment of the companion daemon, \<^verbatim>\<open>companion/src/shmem.c\<close>, with the cells of
  \<^verbatim>\<open>shmem_offsets.h\<close> that the daemon uses. \<open>sm_base\<close> is the contents of the mapping, \<open>None\<close> for a null
  pointer. Other processes write to the segment too: a record is its contents at one time. Attaching
  is the operating system's answer, the argument \<open>seg\<close>. The locale \<open>cell\<close> is the contract of an access
  of a given width, and the three widths interpret it.
\<close>

abbreviation (input) "SHMEM_SIZE \<equiv> (0x40000 :: nat)"
abbreviation (input) "OFF_BRIDGE_VOLTAGE_CV \<equiv> (0x0500 :: nat)"
abbreviation (input) "OFF_BRIDGE_CURRENT_MA \<equiv> (0x0504 :: nat)"
abbreviation (input) "OFF_BRIDGE_POWER_W \<equiv> (0x0508 :: nat)"
abbreviation (input) "OFF_USER_STATE \<equiv> (0x0a00 :: nat)"
abbreviation (input) "OFF_RED_LED \<equiv> (0x0a01 :: nat)"
abbreviation (input) "OFF_PRI_STATE \<equiv> (0x0a07 :: nat)"
abbreviation (input) "OFF_PILOT_STATE \<equiv> (0x0a08 :: nat)"
abbreviation (input) "OFF_STM32_FAULT \<equiv> (0x0a0b :: nat)"
abbreviation (input) "OFF_PILOT_DUTY \<equiv> (0x0a10 :: nat)"
abbreviation (input) "OFF_RATED_AMPS \<equiv> (0x0a24 :: nat)"
abbreviation (input) "OFF_ALARM_BITMAP \<equiv> (0x0a74 :: nat)"

record shmem =
  sm_base :: "(nat \<Rightarrow> u8) option"
  sm_size :: nat
  sm_writable :: bool

definition shmem_zeroed :: shmem where
  "shmem_zeroed = \<lparr>sm_base = None, sm_size = 0, sm_writable = False\<rparr>"

definition attach_with_flags :: "(nat \<Rightarrow> u8) option \<Rightarrow> bool \<Rightarrow> int \<times> shmem" where
  "attach_with_flags seg writable =
     (case seg of None \<Rightarrow> (-1, shmem_zeroed)
      | Some p \<Rightarrow> (0, \<lparr>sm_base = Some p, sm_size = SHMEM_SIZE, sm_writable = writable\<rparr>))"

definition shmem_attach :: "(nat \<Rightarrow> u8) option \<Rightarrow> int \<times> shmem" where
  "shmem_attach seg = attach_with_flags seg False"

definition shmem_attach_rw :: "(nat \<Rightarrow> u8) option \<Rightarrow> int \<times> shmem" where
  "shmem_attach_rw seg = attach_with_flags seg True"

definition shmem_load_file :: "u8 list option \<Rightarrow> int \<times> shmem" where
  "shmem_load_file contents =
     (case contents of None \<Rightarrow> (-1, shmem_zeroed)
      | Some bs \<Rightarrow> if length bs < SHMEM_SIZE then (-1, shmem_zeroed)
          else (0, \<lparr>sm_base = Some (\<lambda>i. if i < SHMEM_SIZE then bs ! i else 0), sm_size = SHMEM_SIZE, sm_writable = True\<rparr>))"

definition shmem_release :: "shmem \<Rightarrow> shmem" where
  "shmem_release sm = shmem_zeroed"

definition shmem_u8 :: "shmem \<Rightarrow> nat \<Rightarrow> u8" where
  "shmem_u8 sm off = (case sm_base sm of None \<Rightarrow> 0 | Some p \<Rightarrow> if off \<ge> sm_size sm then 0 else p off)"

definition shmem_u16_le :: "shmem \<Rightarrow> nat \<Rightarrow> u16" where
  "shmem_u16_le sm off = ucast (shmem_u8 sm off) OR push_bit 8 (ucast (shmem_u8 sm (off + 1)))"

definition shmem_u32_le :: "shmem \<Rightarrow> nat \<Rightarrow> u32" where
  "shmem_u32_le sm off =
     ucast (shmem_u8 sm off) OR push_bit 8 (ucast (shmem_u8 sm (off + 1))) OR
     push_bit 16 (ucast (shmem_u8 sm (off + 2))) OR push_bit 24 (ucast (shmem_u8 sm (off + 3)))"

definition shmem_copy :: "shmem \<Rightarrow> nat \<Rightarrow> nat \<Rightarrow> u8 list" where
  "shmem_copy sm off n =
     (if sm_base sm = None \<or> off \<ge> sm_size sm then replicate n 0
      else map (\<lambda>i. shmem_u8 sm (off + i)) [0 ..< n])"

definition writable_ptr :: "shmem \<Rightarrow> nat \<Rightarrow> nat \<Rightarrow> (nat \<Rightarrow> u8) option" where
  "writable_ptr sm off width =
     (if sm_base sm = None \<or> \<not> sm_writable sm then None
      else if off + width > sm_size sm then None else sm_base sm)"

definition shmem_write_u8 :: "nat \<Rightarrow> u8 \<Rightarrow> shmem \<Rightarrow> int \<times> shmem" where
  "shmem_write_u8 off v sm =
     (case writable_ptr sm off 1 of None \<Rightarrow> (-1, sm)
      | Some p \<Rightarrow> (0, sm\<lparr>sm_base := Some (p(off := v))\<rparr>))"

definition shmem_write_u16_le :: "nat \<Rightarrow> u16 \<Rightarrow> shmem \<Rightarrow> int \<times> shmem" where
  "shmem_write_u16_le off v sm =
     (case writable_ptr sm off 2 of None \<Rightarrow> (-1, sm)
      | Some p \<Rightarrow> (0, sm\<lparr>sm_base := Some (p(off := ucast v, off + 1 := ucast (drop_bit 8 v)))\<rparr>))"

definition shmem_write_u32_le :: "nat \<Rightarrow> u32 \<Rightarrow> shmem \<Rightarrow> int \<times> shmem" where
  "shmem_write_u32_le off v sm =
     (case writable_ptr sm off 4 of None \<Rightarrow> (-1, sm)
      | Some p \<Rightarrow> (0, sm\<lparr>sm_base := Some (p(off := ucast v, off + 1 := ucast (drop_bit 8 v),
          off + 2 := ucast (drop_bit 16 v), off + 3 := ucast (drop_bit 24 v)))\<rparr>))"

section \<open>The contract of an access\<close>

locale cell =
  fixes put :: "nat \<Rightarrow> 'v \<Rightarrow> shmem \<Rightarrow> int \<times> shmem" and get :: "shmem \<Rightarrow> nat \<Rightarrow> 'v" and width :: nat
  assumes write_rc: "fst (put off v sm) = (if writable_ptr sm off width = None then -1 else 0)"
    and write_failed: "writable_ptr sm off width = None \<Longrightarrow> snd (put off v sm) = sm"
    and read_back: "writable_ptr sm off width \<noteq> None \<Longrightarrow> get (snd (put off v sm)) off = v"
    and frame: "at < off \<or> off + width \<le> at \<Longrightarrow> shmem_u8 (snd (put off v sm)) at = shmem_u8 sm at"
    and attributes: "sm_size (snd (put off v sm)) = sm_size sm" "sm_writable (snd (put off v sm)) = sm_writable sm"
      "(sm_base (snd (put off v sm)) = None) = (sm_base sm = None)"
    and read_bytes: "(\<forall>i < width. shmem_u8 sm (off + i) = shmem_u8 sm' (off + i)) \<Longrightarrow> get sm off = get sm' off"
begin

lemma read_other:
  assumes "off2 + width \<le> off \<or> off + width \<le> off2"
  shows "get (snd (put off v sm)) off2 = get sm off2"
  using assms by (intro read_bytes allI impI frame) linarith

lemma read_only: "\<not> sm_writable sm \<Longrightarrow> put off v sm = (-1, sm)"
  using write_rc [of off v sm] write_failed [of sm off v] by (simp add: writable_ptr_def prod_eq_iff)

end

lemma bytes_of_u16: "(ucast (ucast v :: u8) :: u16) OR push_bit 8 (ucast (ucast (drop_bit 8 v) :: u8)) = v"
  using le16_at_bytes [of v] by (simp add: le16_at_def le16_bytes_def)

lemma low_byte: "(ucast (w AND 0xFF) :: u8) = ucast (w :: u32)"
  by (rule bit_word_eqI) (simp only: bit_and_iff bit_ucast_iff bit_0xFF_u32, simp)

lemma bytes_of_u32:
  "(ucast (ucast v :: u8) :: u32) OR push_bit 8 (ucast (ucast (drop_bit 8 v) :: u8)) OR
    push_bit 16 (ucast (ucast (drop_bit 16 v) :: u8)) OR push_bit 24 (ucast (ucast (drop_bit 24 v) :: u8)) = v"
  using le32_at_bytes [of v] by (simp add: le32_at_def le32_bytes_def low_byte)

interpretation cell8: cell shmem_write_u8 shmem_u8 1
  by unfold_locales (auto simp: shmem_write_u8_def shmem_u8_def writable_ptr_def split: option.splits)

interpretation cell16: cell shmem_write_u16_le shmem_u16_le 2
proof unfold_locales
  fix sm sm' :: shmem and off
  assume "\<forall>i < 2. shmem_u8 sm (off + i) = shmem_u8 sm' (off + i)"
  from this [rule_format, of 0] this [rule_format, of 1] show "shmem_u16_le sm off = shmem_u16_le sm' off"
    by (simp add: shmem_u16_le_def)
qed (auto simp: shmem_write_u16_le_def shmem_u16_le_def shmem_u8_def writable_ptr_def bytes_of_u16 split: option.splits)

interpretation cell32: cell shmem_write_u32_le shmem_u32_le 4
proof unfold_locales
  fix sm sm' :: shmem and off
  assume "\<forall>i < 4. shmem_u8 sm (off + i) = shmem_u8 sm' (off + i)"
  from this [rule_format, of 0] this [rule_format, of 1] this [rule_format, of 2] this [rule_format, of 3]
  show "shmem_u32_le sm off = shmem_u32_le sm' off" by (simp add: shmem_u32_le_def)
qed (auto simp: shmem_write_u32_le_def shmem_u32_le_def shmem_u8_def writable_ptr_def bytes_of_u32 split: option.splits)

end
