(* ===== verification/C_Text.thy ===== *)
theory C_Text
  imports Complex_Main Prelude "HOL-Library.Char_ord"
begin

text \<open>
  The C strings of the companion daemon and what it uses of the C library on them. A string is the
  list of its bytes without the terminating zero; \<open>ascii\<close> turns a literal into one. \<open>strtol\<close> is the decimal conversion
  with the 32-bit \<open>long\<close> of the target, which saturates. Single and double precision are the rational number a
  value holds, rounded to nearest with ties to even; \<open>fixed\<close> prints one and \<open>strtod\<close> reads one.
\<close>

abbreviation (input) "LONG_MAX \<equiv> (2147483647 :: int)"

definition ascii :: "string \<Rightarrow> u8 list" where
  "ascii s = map of_char s"

definition cstr :: "u8 list \<Rightarrow> u8 list" where
  "cstr bs = takeWhile (\<lambda>b. b \<noteq> 0) bs"

text \<open>\<open>snprintf\<close> of a string into a buffer of \<open>cap\<close> bytes.\<close>

definition fit :: "nat \<Rightarrow> u8 list \<Rightarrow> u8 list" where
  "fit cap s = take (cap - 1) s"

definition is_digit :: "u8 \<Rightarrow> bool" where
  "is_digit b \<longleftrightarrow> 48 \<le> b \<and> b \<le> 57"

definition is_space :: "u8 \<Rightarrow> bool" where
  "is_space b \<longleftrightarrow> b = 32 \<or> (9 \<le> b \<and> b \<le> 13)"

definition lower :: "u8 \<Rightarrow> u8" where
  "lower b = (if 65 \<le> b \<and> b \<le> 90 then b + 32 else b)"

definition strcaseeq :: "u8 list \<Rightarrow> u8 list \<Rightarrow> bool" where
  "strcaseeq a b \<longleftrightarrow> map lower a = map lower b"

definition digits_value :: "u8 list \<Rightarrow> int" where
  "digits_value ds = foldl (\<lambda>v d. v * 10 + (uint d - 48)) 0 ds"

definition sat_long :: "int \<Rightarrow> int" where
  "sat_long v = max (- LONG_MAX - 1) (min LONG_MAX v)"

text \<open>The value and what is left after the number; without a number nothing is consumed.\<close>

definition strtol :: "u8 list \<Rightarrow> int \<times> u8 list" where
  "strtol s =
     (let t = dropWhile is_space s;
          (sgn, body) = (case t of b # bs \<Rightarrow> if b = 45 then (-1, bs) else if b = 43 then (1, bs) else (1, t) | [] \<Rightarrow> (1, t));
          ds = takeWhile is_digit body
      in if ds = [] then (0, s) else (sat_long (sgn * digits_value ds), dropWhile is_digit body))"

definition atoi :: "u8 list \<Rightarrow> int" where
  "atoi s = fst (strtol s)"

text \<open>Decimal output.\<close>

fun dec :: "nat \<Rightarrow> u8 list" where
  "dec n = (if n < 10 then [of_nat (48 + n)] else dec (n div 10) @ [of_nat (48 + n mod 10)])"

declare dec.simps [simp del]

definition dec_int :: "int \<Rightarrow> u8 list" where
  "dec_int v = (if v < 0 then 45 # dec (nat (- v)) else dec (nat v))"

text \<open>Without trailing blanks and line ends.\<close>

fun trim_end :: "u8 list \<Rightarrow> u8 list" where
  "trim_end s = (if s \<noteq> [] \<and> last s \<in> {32, 9, 13, 10} then trim_end (butlast s) else s)"

declare trim_end.simps [simp del]

section \<open>Reading back what was printed\<close>

lemma length_fit [simp]: "length (fit cap s) = min (length s) (cap - 1)"
  by (simp add: fit_def min.commute)

lemma fit_whole [simp]: "length s < cap \<Longrightarrow> fit cap s = s"
  by (simp add: fit_def)

lemma digit_byte: "n < 10 \<Longrightarrow> is_digit (of_nat (48 + n)) \<and> uint (of_nat (48 + n) :: u8) = 48 + int n"
  by (simp add: is_digit_def word_le_nat_alt uint_nat unat_of_nat del: of_nat_add)

lemma digits_value_snoc: "digits_value (ds @ [d]) = digits_value ds * 10 + (uint d - 48)"
  by (simp add: digits_value_def)

lemma dec_digits: "list_all is_digit (dec n) \<and> dec n \<noteq> [] \<and> digits_value (dec n) = int n"
proof (induction n rule: dec.induct)
  case (1 n)
  show ?case
  proof (cases "n < 10")
    case True
    then show ?thesis using digit_byte [OF True] by (simp add: dec.simps [of n] digits_value_def del: of_nat_add)
  next
    case False
    have m: "n mod 10 < 10" by simp
    show ?thesis using False 1 [OF False] digit_byte [OF m]
      by (simp add: dec.simps [of n] digits_value_snoc zdiv_int zmod_int del: of_nat_add)
  qed
qed

lemma digit_not: "is_digit b \<Longrightarrow> \<not> is_space b \<and> b \<noteq> 45 \<and> b \<noteq> 43 \<and> b \<noteq> 0 \<and> b \<noteq> 10 \<and> b \<noteq> 13 \<and> b \<noteq> 32 \<and> b \<noteq> 9"
  by (auto simp: is_digit_def is_space_def word_le_nat_alt)

lemma strtol_dec:
  assumes "int n \<le> LONG_MAX" "case rest of [] \<Rightarrow> True | b # _ \<Rightarrow> \<not> is_digit b"
  shows "strtol (dec n @ rest) = (int n, rest)"
proof -
  obtain d ds where d: "dec n = d # ds" "is_digit d" using dec_digits [of n] by (cases "dec n") auto
  have all: "\<forall>x \<in> set (dec n). is_digit x" using dec_digits [of n] by (simp add: list_all_iff)
  have stop: "takeWhile is_digit rest = []" "dropWhile is_digit rest = rest"
    using assms(2) by (cases rest; simp)+
  have ds: "takeWhile is_digit (dec n @ rest) = dec n" "dropWhile is_digit (dec n @ rest) = rest"
    using all stop by (simp_all add: takeWhile_append2 dropWhile_append2)
  have t: "dropWhile is_space (dec n @ rest) = dec n @ rest" using d digit_not [of d] by simp
  have sgn: "(case dec n @ rest of b # bs \<Rightarrow> if b = 45 then (-1, bs) else if b = 43 then (1, bs) else (1 :: int, dec n @ rest)
      | [] \<Rightarrow> (1, dec n @ rest)) = (1, dec n @ rest)" using d digit_not [of d] by simp
  show ?thesis
    unfolding strtol_def Let_def t sgn using ds dec_digits [of n] assms(1) by (simp add: sat_long_def)
qed

lemma strtol_bounds: "- LONG_MAX - 1 \<le> fst (strtol s)" "fst (strtol s) \<le> LONG_MAX"
  by (simp_all add: strtol_def Let_def sat_long_def split: prod.splits)

section \<open>Comparing and trimming\<close>

lemma of_char_u8: "(of_char a :: u8) = of_char b \<longleftrightarrow> a = b"
proof
  assume eq: "(of_char a :: u8) = of_char b"
  have bound: "(of_char c :: nat) < 256" for c :: char by (metis of_char_mod_256 mod_less_divisor zero_less_numeral)
  have "unat (of_char c :: u8) = of_char c" for c :: char
    using bound [of c] by (simp add: of_nat_of_char [symmetric, where 'a = u8] unat_of_nat)
  then have "(of_char a :: nat) = of_char b" using eq by metis
  then show "a = b" by simp
qed simp

lemma ascii_eq [simp]: "ascii a = ascii b \<longleftrightarrow> a = b"
  unfolding ascii_def by (rule inj_map_eq_map) (simp add: inj_def of_char_u8)

definition blank :: "u8 \<Rightarrow> bool" where
  "blank b \<longleftrightarrow> b \<in> {32, 9, 13, 10}"

lemma trim_end_rev: "trim_end s = rev (dropWhile blank (rev s))"
proof (induction s rule: rev_induct)
  case Nil
  then show ?case by (simp add: trim_end.simps)
next
  case (snoc b s)
  then show ?case by (simp add: trim_end.simps [of "s @ [b]"] blank_def)
qed

lemma trim_end_kept: "s \<noteq> [] \<Longrightarrow> \<not> blank (last s) \<Longrightarrow> trim_end s = s"
  by (cases s rule: rev_cases) (simp_all add: trim_end_rev)

lemma trim_end_blanks: "list_all blank bs \<Longrightarrow> trim_end (s @ bs) = trim_end s"
  using dropWhile_append2 [of "rev bs" blank "rev s"] by (simp add: trim_end_rev list_all_iff)

section \<open>Single precision\<close>

definition round_even :: "rat \<Rightarrow> int" where
  "round_even x =
     (let f = \<lfloor>x\<rfloor>; d = x - of_int f
      in if d < 1 / 2 then f else if d > 1 / 2 then f + 1 else if even f then f else f + 1)"

lemma round_down: "of_int f \<le> x \<Longrightarrow> x < of_int f + 1 / 2 \<Longrightarrow> round_even x = f"
  using floor_unique [of f x] by (simp add: round_even_def)

lemma round_up: "of_int f + 1 / 2 < x \<Longrightarrow> x < of_int f + 1 \<Longrightarrow> round_even x = f + 1"
  using floor_unique [of f x] by (simp add: round_even_def)

text \<open>The exponent of the leading bit, \<open>-126\<close> for subnormal numbers.\<close>

definition binade :: "rat \<Rightarrow> int" where
  "binade x =
     (case find (\<lambda>e. 2 powi e \<le> \<bar>x\<bar>) (map (\<lambda>k. 127 - int k) [0 ..< 253]) of Some e \<Rightarrow> e | None \<Rightarrow> -126)"

definition single :: "rat \<Rightarrow> rat" where
  "single x = (let u = 2 powi (binade x - 23) in of_int (round_even (x / u)) * u)"

text \<open>\<^verbatim>\<open>printf\<close> of a non-negative number with a fixed number of decimals.\<close>

fun pad_left :: "nat \<Rightarrow> u8 list \<Rightarrow> u8 list" where
  "pad_left n s = replicate (n - length s) 48 @ s"

definition fixed :: "nat \<Rightarrow> rat \<Rightarrow> u8 list" where
  "fixed prec x =
     (let n = nat (round_even (x * 10 ^ prec))
      in if prec = 0 then dec n else dec (n div 10 ^ prec) @ 46 # pad_left prec (dec (n mod 10 ^ prec)))"

lemma binade_eq:
  assumes "2 powi e \<le> \<bar>x\<bar>" "\<bar>x\<bar> < 2 powi (e + 1)" "- 126 < e" "e \<le> 127"
  shows "binade x = e"
proof -
  let ?es = "map (\<lambda>k. 127 - int k) [0 ..< 253]"
  have "nat (127 - e) < 253" using assms(3) by arith
  then have at: "?es ! nat (127 - e) = e" "nat (127 - e) < length ?es" using assms(3,4) by simp_all
  have "\<not> 2 powi (?es ! j) \<le> \<bar>x\<bar>" if "j < nat (127 - e)" for j
  proof -
    have "?es ! j = 127 - int j" using that assms(3) by simp
    moreover have "e + 1 \<le> 127 - int j" using that by linarith
    ultimately have "2 powi (e + 1) \<le> (2 powi (?es ! j) :: rat)" by (simp only:) (rule power_int_increasing, simp_all)
    then show ?thesis using assms(2) by linarith
  qed
  then have "find (\<lambda>e. 2 powi e \<le> \<bar>x\<bar>) ?es = Some e"
    unfolding find_Some_iff using at assms(1) by (intro exI [of _ "nat (127 - e)"]) simp
  then show ?thesis unfolding binade_def by simp
qed

section \<open>Double precision\<close>

definition binade_double :: "rat \<Rightarrow> int" where
  "binade_double x =
     (case find (\<lambda>e. 2 powi e \<le> \<bar>x\<bar>) (map (\<lambda>k. 1023 - int k) [0 ..< 2045]) of Some e \<Rightarrow> e | None \<Rightarrow> -1022)"

definition double :: "rat \<Rightarrow> rat" where
  "double x = (let u = 2 powi (binade_double x - 52) in of_int (round_even (x / u)) * u)"

text \<open>\<^verbatim>\<open>strtod\<close>: the value and what is left; without a number nothing is consumed. The value is \<open>None\<close> when it is not
  finite; what is left after \<open>inf\<close> and \<open>nan\<close> is not computed, since the callers refuse such a value
  before they look at it.\<close>

definition is_xdigit :: "u8 \<Rightarrow> bool" where
  "is_xdigit b \<longleftrightarrow> is_digit b \<or> 97 \<le> lower b \<and> lower b \<le> 102"

definition xdigit_value :: "u8 \<Rightarrow> int" where
  "xdigit_value b = (if is_digit b then uint b - 48 else uint (lower b) - 87)"

definition value_of :: "int \<Rightarrow> u8 list \<Rightarrow> int" where
  "value_of base ds = foldl (\<lambda>v d. v * base + xdigit_value d) 0 ds"

text \<open>An exponent: its letter, a sign, and at least one digit.\<close>

definition scan_exponent :: "u8 \<Rightarrow> u8 list \<Rightarrow> int \<times> u8 list" where
  "scan_exponent letter s =
     (case s of [] \<Rightarrow> (0, s)
      | c # t \<Rightarrow> if lower c \<noteq> letter then (0, s)
          else let (sgn, u) = (case t of d # ds \<Rightarrow> if d = 45 then (-1, ds) else if d = 43 then (1, ds) else (1, t) | [] \<Rightarrow> (1, t));
                   es = takeWhile is_digit u
               in if es = [] then (0, s) else (sgn * value_of 10 es, drop (length es) u))"

definition scan_number :: "(u8 \<Rightarrow> bool) \<Rightarrow> int \<Rightarrow> u8 \<Rightarrow> rat \<Rightarrow> u8 list \<Rightarrow> (rat \<times> u8 list) option" where
  "scan_number ok base letter eb s =
     (let ds = takeWhile ok s; t = drop (length ds) s;
          fs = (case t of c # u \<Rightarrow> if c = 46 then takeWhile ok u else [] | [] \<Rightarrow> []);
          t1 = (case t of c # u \<Rightarrow> if c = 46 then drop (length fs) u else t | [] \<Rightarrow> []);
          (e, t2) = scan_exponent letter t1
      in if ds = [] \<and> fs = [] then None
         else Some (of_int (value_of base (ds @ fs)) / of_int base ^ length fs * eb powi e, t2))"

definition strtod :: "u8 list \<Rightarrow> rat option \<times> u8 list" where
  "strtod s =
     (let t = dropWhile is_space s;
          (sgn, body) = (case t of b # bs \<Rightarrow> if b = 45 then (-1, bs) else if b = 43 then (1, bs) else (1, t) | [] \<Rightarrow> (1, t));
          named = (map lower (take 3 body) = ascii ''inf'' \<or> map lower (take 3 body) = ascii ''nan'');
          hex = (case body of a # b # bs \<Rightarrow> if a = 48 \<and> lower b = 120 then scan_number is_xdigit 16 112 2 bs else None | _ \<Rightarrow> None);
          num = (case hex of Some r \<Rightarrow> Some r | None \<Rightarrow> scan_number is_digit 10 101 10 body)
      in if named then (None, [])
         else (case num of None \<Rightarrow> (Some 0, s)
               | Some (v, rest) \<Rightarrow> let w = double (sgn * v) in (if \<bar>w\<bar> < 2 ^ 1024 then Some w else None, rest)))"

section \<open>Rounding\<close>

lemma round_even_error: "\<bar>of_int (round_even y) - y\<bar> \<le> 1 / 2"
proof -
  have "of_int \<lfloor>y\<rfloor> \<le> y" "y < of_int \<lfloor>y\<rfloor> + 1" by linarith+
  then show ?thesis by (auto simp: round_even_def Let_def abs_le_iff)
qed

lemma round_even_near: "\<bar>y - of_int k\<bar> < 1 / 2 \<Longrightarrow> round_even y = k"
proof -
  assume near: "\<bar>y - of_int k\<bar> < 1 / 2"
  have e: "\<bar>of_int (round_even y) - y\<bar> \<le> 1 / 2" by (rule round_even_error)
  have "\<bar>(of_int (round_even y) :: rat) - of_int k\<bar> < 1" using near e by linarith
  then have "\<bar>round_even y - k\<bar> < 1" by (metis of_int_1 of_int_abs of_int_diff of_int_less_iff)
  then show ?thesis by simp
qed

lemma binade_double_small:
  assumes "0 \<le> x" "x < 2 ^ 14"
  shows "binade_double x \<le> 13"
proof (cases "find (\<lambda>e. 2 powi e \<le> \<bar>x\<bar>) (map (\<lambda>k. 1023 - int k) [0 ..< 2045])")
  case None
  then show ?thesis by (simp add: binade_double_def)
next
  case (Some e)
  then have "2 powi e \<le> \<bar>x\<bar>" by (auto simp: find_Some_iff)
  then have less: "2 powi e < (2 powi 14 :: rat)" using assms by (simp add: power_int_def)
  have "\<not> 14 \<le> e"
  proof
    assume "14 \<le> e"
    then have "(2 powi 14 :: rat) \<le> 2 powi e" by (intro power_int_increasing) simp_all
    then show False using less by linarith
  qed
  then show ?thesis using Some by (simp add: binade_double_def)
qed

lemma double_error:
  assumes "0 \<le> x" "x < 2 ^ 14"
  shows "\<bar>double x - x\<bar> \<le> 1 / 2 ^ 40"
proof -
  let ?u = "2 powi (binade_double x - 52) :: rat"
  have u: "0 < ?u" by simp
  have "?u \<le> 2 powi (- 39)" using binade_double_small [OF assms] by (intro power_int_increasing) simp_all
  moreover have "2 powi (- 39) = (1 / 2 ^ 39 :: rat)" by (simp add: power_int_def power_one_over)
  ultimately have small: "?u / 2 \<le> 1 / 2 ^ 40" by simp
  have "double x - x = (of_int (round_even (x / ?u)) - x / ?u) * ?u" using u by (simp add: double_def Let_def field_simps)
  then have "\<bar>double x - x\<bar> = \<bar>of_int (round_even (x / ?u)) - x / ?u\<bar> * ?u" using u by (simp add: abs_mult)
  also have "\<dots> \<le> 1 / 2 * ?u" using round_even_error [of "x / ?u"] u by (intro mult_right_mono) simp_all
  finally show ?thesis using small by simp
qed

section \<open>Reading back what was printed\<close>

lemma xdigit_digit: "is_digit d \<Longrightarrow> xdigit_value d = uint d - 48"
  by (simp add: xdigit_value_def)

lemma value_of_digits: "list_all is_digit ds \<Longrightarrow> value_of 10 ds = digits_value ds"
proof -
  have "foldl (\<lambda>v d. v * 10 + xdigit_value d) a ds = foldl (\<lambda>v d. v * 10 + (uint d - 48)) a ds" if "list_all is_digit ds" for a
    using that by (induction ds arbitrary: a) (simp_all add: xdigit_digit)
  then show "list_all is_digit ds \<Longrightarrow> value_of 10 ds = digits_value ds" by (simp add: value_of_def digits_value_def)
qed

lemma digits_value_append: "digits_value (a @ b) = digits_value a * 10 ^ length b + digits_value b"
proof (induction b rule: rev_induct)
  case (snoc d b)
  show ?case using digits_value_snoc [of "a @ b" d] digits_value_snoc [of b d] snoc by (simp add: algebra_simps)
qed (simp add: digits_value_def)

lemma dec_length: "n < 10 ^ k \<Longrightarrow> 0 < k \<Longrightarrow> length (dec n) \<le> k"
proof (induction k arbitrary: n)
  case (Suc k)
  show ?case
  proof (cases "n < 10")
    case True
    then show ?thesis by (simp add: dec.simps [of n])
  next
    case False
    then have "0 < k" using Suc.prems by (cases k) simp_all
    moreover have "n div 10 < 10 ^ k" using Suc.prems by (simp add: less_mult_imp_div_less mult.commute)
    ultimately show ?thesis using False Suc.IH by (simp add: dec.simps [of n])
  qed
qed simp

lemma pad_digits:
  assumes "n < 10 ^ k" "0 < k"
  shows "list_all is_digit (pad_left k (dec n))" "length (pad_left k (dec n)) = k" "digits_value (pad_left k (dec n)) = int n"
proof -
  have z: "is_digit 48" by (simp add: is_digit_def)
  have "digits_value (replicate m 48) = 0" for m by (induction m) (simp_all add: digits_value_def)
  then show "list_all is_digit (pad_left k (dec n))" "length (pad_left k (dec n)) = k" "digits_value (pad_left k (dec n)) = int n"
    using dec_digits [of n] dec_length [OF assms] z by (auto simp: digits_value_append list_all_iff set_replicate_conv_if)
qed

lemma strtod_decimal:
  assumes "list_all is_digit ds" "ds \<noteq> []" "list_all is_digit fs" "fs \<noteq> []"
    "v = of_int (digits_value (ds @ fs)) / 10 ^ length fs" "\<bar>double v\<bar> < 2 ^ 1024"
  shows "strtod (ds @ 46 # fs) = (Some (double v), [])"
proof -
  obtain d ds1 where d: "ds = d # ds1" "is_digit d" using assms(1,2) by (cases ds) auto
  have low: "lower d = d" "\<not> is_digit 46" using d(2) by (auto simp: lower_def is_digit_def word_le_nat_alt)
  have first: "dropWhile is_space (ds @ 46 # fs) = ds @ 46 # fs"
    "(case ds @ 46 # fs of b # bs \<Rightarrow> if b = 45 then (-1, bs) else if b = 43 then (1, bs) else (1 :: rat, ds @ 46 # fs)
      | [] \<Rightarrow> (1, ds @ 46 # fs)) = (1, ds @ 46 # fs)"
    using digit_not [OF d(2)] by (simp_all add: d(1))
  have named: "map lower (take 3 (ds @ 46 # fs)) \<noteq> ascii ''inf''" "map lower (take 3 (ds @ 46 # fs)) \<noteq> ascii ''nan''"
    using low(1) d(2) by (auto simp: d(1) ascii_def is_digit_def)
  have hex: "(case ds @ 46 # fs of a # b # bs \<Rightarrow> if a = 48 \<and> lower b = 120 then scan_number is_xdigit 16 112 2 bs else None | _ \<Rightarrow> None) = None"
  proof (cases ds1)
    case Nil
    then show ?thesis by (simp add: d(1) lower_def)
  next
    case (Cons b bs)
    then have "is_digit b" using assms(1) by (simp add: d(1))
    then have "lower b \<noteq> 120" by (auto simp: lower_def is_digit_def word_le_nat_alt)
    then show ?thesis by (simp add: d(1) Cons)
  qed
  have tk: "takeWhile is_digit (ds @ 46 # fs) = ds" "takeWhile is_digit fs = fs"
    using assms(1,3) low(2) by (simp_all add: takeWhile_append2 list_all_iff takeWhile_eq_all_conv)
  have ex: "scan_exponent 101 [] = (0, [])" by (simp add: scan_exponent_def)
  have val: "value_of 10 (ds @ fs) = digits_value (ds @ fs)" using assms(1,3) by (intro value_of_digits) simp
  have "scan_number is_digit 10 101 10 (ds @ 46 # fs) = Some (v, [])"
    unfolding scan_number_def tk Let_def using assms(2,5) ex val by (simp add: tk)
  then show ?thesis unfolding strtod_def Let_def first using named hex assms(6) by simp
qed

text \<open>A double within a few thousand that came from three decimals is printed as them and read back.\<close>

lemma strtod_fixed:
  assumes "k < 10000000" "v = double (of_nat k / 1000)"
  shows "strtod (fixed 3 v) = (Some v, [])" "list_all (\<lambda>b. is_digit b \<or> b = 46) (fixed 3 v)" "length (fixed 3 v) \<le> 12"
    "0 < k \<Longrightarrow> 0 < v" "v < 10000"
proof -
  let ?x = "of_nat k / 1000 :: rat"
  have x: "0 \<le> ?x" "?x \<le> 9999999 / 1000" using assms(1) by simp_all
  have err: "\<bar>v - ?x\<bar> \<le> 1 / 2 ^ 40" using double_error [of ?x] x assms(2) by simp
  have "v * 1000 - of_int (int k) = (v - ?x) * 1000" by simp
  then have "\<bar>v * 1000 - of_int (int k)\<bar> = \<bar>v - ?x\<bar> * 1000" by (simp only: abs_mult)
  also have "\<dots> \<le> 1 / 2 ^ 40 * 1000" using err by (intro mult_right_mono) simp_all
  finally have "\<bar>v * 1000 - of_int (int k)\<bar> < 1 / 2" by simp
  then have r: "round_even (v * 1000) = int k" by (rule round_even_near)
  have f: "fixed 3 v = dec (k div 1000) @ 46 # pad_left 3 (dec (k mod 1000))" by (simp add: fixed_def r Let_def)
  have m: "k mod 1000 < 10 ^ 3" by simp
  note p = pad_digits [OF m zero_less_numeral] and i = dec_digits [of "k div 1000"]
  have val: "digits_value (dec (k div 1000) @ pad_left 3 (dec (k mod 1000))) = int k"
    using p(2,3) i by (simp add: digits_value_append del: pad_left.simps) (simp add: of_nat_mod of_nat_div)
  have "(1 / 2 ^ 40 :: rat) < 1 / 2000" by simp
  then have near: "v < ?x + 1 / 2000" "?x - 1 / 2000 < v" using abs_le_D1 [OF err] abs_le_D2 [OF err] by linarith+
  show "v < 10000" using near(1) x(2) by linarith
  show "0 < v" if "0 < k"
  proof -
    have "1 / 1000 \<le> ?x" using that by simp
    then show ?thesis using near(2) by linarith
  qed
  have "\<bar>v\<bar> < 2 ^ 1024"
  proof -
    have "\<bar>v\<bar> < 10000" unfolding abs_less_iff using near x by (intro conjI) linarith+
    then have "\<bar>v\<bar> < 2 ^ 14" by simp
    also have "(2 :: rat) ^ 14 \<le> 2 ^ 1024" by (rule power_increasing) simp_all
    finally show ?thesis .
  qed
  then show "strtod (fixed 3 v) = (Some v, [])"
    unfolding f using strtod_decimal [of "dec (k div 1000)" "pad_left 3 (dec (k mod 1000))" ?x] i p val assms(2)
    by (simp del: pad_left.simps) (metis length_0_conv p(2) zero_neq_numeral)
  show "list_all (\<lambda>b. is_digit b \<or> b = 46) (fixed 3 v)" unfolding f using i p(1) by (auto simp: list_all_iff simp del: pad_left.simps)
  have "k div 1000 < 10 ^ 4" using assms(1) by simp
  from dec_length [OF this] show "length (fixed 3 v) \<le> 12" unfolding f using p(2) by (simp del: pad_left.simps)
qed

end
