(* ===== verification/Commands.thy ===== *)
theory Commands
  imports Shmem C_Text
begin

text \<open>
  The write commands of the companion daemon, \<^verbatim>\<open>companion/src/commands.c\<close>, and the dispatch of a command
  message in \<^verbatim>\<open>companion/src/mqtt_adapter.c\<close>. Every command returns the code's status, the message it leaves
  in the error buffer and the segment. A null segment is \<open>None\<close>.
\<close>

definition parse_int_payload :: "u8 list \<Rightarrow> int \<Rightarrow> int \<Rightarrow> int option" where
  "parse_int_payload payload lo hi =
     (if length payload = 0 \<or> length payload > 31 then None
      else let buf = trim_end payload
        in if buf = [] then None
           else let (v, endp) = strtol (cstr buf)
             in if endp \<noteq> [] then None else if v < lo \<or> v > hi then None else Some v)"

type_synonym cmd_result = "int \<times> u8 list \<times> shmem option"

definition cs_apply_rated_amps_write :: "nat \<Rightarrow> u8 list \<Rightarrow> shmem option \<Rightarrow> int option \<times> cmd_result" where
  "cs_apply_rated_amps_write errcap payload sm =
     (case parse_int_payload payload 6 30 of
        None \<Rightarrow> (None, -1, fit errcap (ascii ''amps must be int 6..30''), sm)
      | Some v \<Rightarrow> (case sm of
            None \<Rightarrow> (None, -2, fit errcap (ascii ''write disabled (write_enable=false)''), sm)
          | Some m \<Rightarrow> if \<not> sm_writable m then (None, -2, fit errcap (ascii ''write disabled (write_enable=false)''), sm)
              else let (rc, m1) = shmem_write_u8 OFF_RATED_AMPS (word_of_int v) m
                in if rc \<noteq> 0 then (None, -2, fit errcap (ascii ''shmem write failed''), Some m1)
                   else (Some v, 0, [], Some m1)))"

definition cs_apply_authorize_write :: "nat \<Rightarrow> u8 list \<Rightarrow> shmem option \<Rightarrow> bool option \<times> cmd_result" where
  "cs_apply_authorize_write errcap payload sm =
     (if payload \<noteq> ascii ''ON'' \<and> payload \<noteq> ascii ''OFF''
      then (None, -1, fit errcap (ascii ''state must be ON or OFF''), sm)
      else let v = (if payload = ascii ''ON'' then 1 else 0)
        in (case sm of
            None \<Rightarrow> (None, -2, fit errcap (ascii ''write disabled (write_enable=false)''), sm)
          | Some m \<Rightarrow> if \<not> sm_writable m then (None, -2, fit errcap (ascii ''write disabled (write_enable=false)''), sm)
              else let (rc, m1) = shmem_write_u8 OFF_USER_STATE v m
                in if rc \<noteq> 0 then (None, -2, fit errcap (ascii ''shmem write failed''), Some m1)
                   else (Some (v \<noteq> 0), 0, [], Some m1)))"

definition cs_apply_clear_faults_write :: "nat \<Rightarrow> shmem option \<Rightarrow> cmd_result" where
  "cs_apply_clear_faults_write errcap sm =
     (case sm of
        None \<Rightarrow> (-2, fit errcap (ascii ''write disabled (write_enable=false)''), sm)
      | Some m \<Rightarrow> if \<not> sm_writable m then (-2, fit errcap (ascii ''write disabled (write_enable=false)''), sm)
          else let (rc, m1) = shmem_write_u32_le OFF_ALARM_BITMAP 0 m
            in if rc \<noteq> 0 then (-2, fit errcap (ascii ''shmem write failed''), Some m1) else (0, [], Some m1))"

definition handle_rated_amps :: "u8 list \<Rightarrow> shmem option \<Rightarrow> shmem option" where
  "handle_rated_amps payload sm = snd (snd (snd (cs_apply_rated_amps_write 0 payload sm)))"

definition handle_authorize :: "u8 list \<Rightarrow> shmem option \<Rightarrow> shmem option" where
  "handle_authorize payload sm = snd (snd (snd (cs_apply_authorize_write 0 payload sm)))"

definition handle_clear_faults :: "shmem option \<Rightarrow> shmem option" where
  "handle_clear_faults sm = snd (snd (cs_apply_clear_faults_write 0 sm))"

text \<open>What follows the last slash of a topic; \<open>None\<close> if it has none.\<close>

definition topic_suffix :: "u8 list \<Rightarrow> u8 list option" where
  "topic_suffix topic = (if 47 \<in> set topic then Some (rev (takeWhile (\<lambda>b. b \<noteq> 47) (rev topic))) else None)"

definition on_command :: "u8 list \<Rightarrow> u8 list \<Rightarrow> shmem option \<Rightarrow> shmem option" where
  "on_command topic payload sm =
     (case topic_suffix topic of None \<Rightarrow> sm
      | Some suffix \<Rightarrow>
          if suffix = ascii ''rated_amps'' then handle_rated_amps payload sm
          else if suffix = ascii ''authorize'' then handle_authorize payload sm
          else if suffix = ascii ''clear_faults'' then handle_clear_faults sm
          else sm)"

section \<open>What a command may write\<close>

text \<open>The cells a command changes and the values it leaves there.\<close>

definition command_write :: "shmem \<Rightarrow> shmem \<Rightarrow> bool" where
  "command_write m m' \<longleftrightarrow>
     (sm_base m' = None) = (sm_base m = None) \<and> sm_size m' = sm_size m \<and> sm_writable m' = sm_writable m \<and>
     (\<forall>pos. pos \<noteq> OFF_RATED_AMPS \<and> pos \<noteq> OFF_USER_STATE \<and> (pos < OFF_ALARM_BITMAP \<or> OFF_ALARM_BITMAP + 4 \<le> pos) \<longrightarrow>
        shmem_u8 m' pos = shmem_u8 m pos) \<and>
     (shmem_u8 m' OFF_RATED_AMPS = shmem_u8 m OFF_RATED_AMPS \<or>
        6 \<le> shmem_u8 m' OFF_RATED_AMPS \<and> shmem_u8 m' OFF_RATED_AMPS \<le> 30) \<and>
     (shmem_u8 m' OFF_USER_STATE = shmem_u8 m OFF_USER_STATE \<or> shmem_u8 m' OFF_USER_STATE \<in> {0, 1}) \<and>
     (shmem_u32_le m' OFF_ALARM_BITMAP = shmem_u32_le m OFF_ALARM_BITMAP \<or> shmem_u32_le m' OFF_ALARM_BITMAP = 0) \<and>
     (\<not> sm_writable m \<longrightarrow> m' = m)"

lemma command_write_refl: "command_write m m"
  by (simp add: command_write_def)

lemma command_write_trans: "command_write m1 m2 \<Longrightarrow> command_write m2 m3 \<Longrightarrow> command_write m1 m3"
  unfolding command_write_def by (elim conjE, intro conjI; (simp; fail)?) (metis, metis, metis)

lemma write8_other32:
  "off < off2 \<or> off2 + 4 \<le> off \<Longrightarrow> shmem_u32_le (snd (shmem_write_u8 off v m)) off2 = shmem_u32_le m off2"
  by (intro cell32.read_bytes allI impI cell8.frame) linarith

lemma write8_own: "shmem_u8 (snd (shmem_write_u8 off v m)) off = shmem_u8 m off \<or> shmem_u8 (snd (shmem_write_u8 off v m)) off = v"
  using cell8.read_back [of m off v] cell8.write_failed [of m off v] by fastforce

lemma write8_other: "pos \<noteq> off \<Longrightarrow> shmem_u8 (snd (shmem_write_u8 off v m)) pos = shmem_u8 m pos"
  by (rule cell8.frame) linarith

lemma rated_amps_write:
  assumes "6 \<le> v" "v \<le> 30"
  shows "command_write m (snd (shmem_write_u8 OFF_RATED_AMPS v m))"
  using assms write8_own [of OFF_RATED_AMPS v m]
  by (auto simp: command_write_def cell8.attributes write8_other write8_other32 cell8.read_only)

lemma user_state_write: "v \<in> {0, 1} \<Longrightarrow> command_write m (snd (shmem_write_u8 OFF_USER_STATE v m))"
  using write8_own [of OFF_USER_STATE v m]
  by (auto simp: command_write_def cell8.attributes write8_other write8_other32 cell8.read_only)

lemma clear_faults_write: "command_write m (snd (shmem_write_u32_le OFF_ALARM_BITMAP 0 m))"
  using cell32.read_back [of m OFF_ALARM_BITMAP 0] cell32.write_failed [of m OFF_ALARM_BITMAP 0]
  by (cases "writable_ptr m OFF_ALARM_BITMAP 4 = None")
    (auto simp: command_write_def cell32.attributes cell32.frame cell32.read_only command_write_refl)

lemma parsed_range: "parse_int_payload payload lo hi = Some v \<Longrightarrow> lo \<le> v \<and> v \<le> hi"
  by (auto simp: parse_int_payload_def Let_def split: if_splits prod.splits)

lemma amps_byte: "6 \<le> v \<Longrightarrow> v \<le> 30 \<Longrightarrow> 6 \<le> (word_of_int v :: u8) \<and> (word_of_int v :: u8) \<le> 30"
  by (simp add: word_le_def uint_word_of_int)

text \<open>On a null segment nothing happens; on any other the write is one of the three.\<close>

lemma rated_amps_segment:
  "handle_rated_amps payload None = None"
  "\<exists>m'. handle_rated_amps payload (Some m) = Some m' \<and> command_write m m'"
proof -
  show "handle_rated_amps payload None = None"
    by (simp add: handle_rated_amps_def cs_apply_rated_amps_write_def split: option.split)
  show "\<exists>m'. handle_rated_amps payload (Some m) = Some m' \<and> command_write m m'"
  proof (cases "parse_int_payload payload 6 30")
    case (Some v)
    have "command_write m (snd (shmem_write_u8 OFF_RATED_AMPS (word_of_int v) m))"
      using amps_byte [of v] parsed_range [OF Some] by (intro rated_amps_write) simp_all
    then show ?thesis
      by (simp add: handle_rated_amps_def cs_apply_rated_amps_write_def Some case_prod_unfold Let_def command_write_refl)
  qed (simp add: handle_rated_amps_def cs_apply_rated_amps_write_def command_write_refl)
qed

lemma authorize_segment:
  "handle_authorize payload None = None"
  "\<exists>m'. handle_authorize payload (Some m) = Some m' \<and> command_write m m'"
  by (simp_all add: handle_authorize_def cs_apply_authorize_write_def case_prod_unfold Let_def command_write_refl user_state_write)

lemma clear_faults_segment:
  "handle_clear_faults None = None"
  "\<exists>m'. handle_clear_faults (Some m) = Some m' \<and> command_write m m'"
  by (simp_all add: handle_clear_faults_def cs_apply_clear_faults_write_def case_prod_unfold Let_def command_write_refl clear_faults_write)

lemma command_segment:
  "on_command topic payload None = None"
  "\<exists>m'. on_command topic payload (Some m) = Some m' \<and> command_write m m'"
  using rated_amps_segment [of payload] authorize_segment [of payload] clear_faults_segment
  by (auto simp: on_command_def command_write_refl split: option.split)

end
