(* ===== verification/Charger_State.thy ===== *)
theory Charger_State
  imports Shmem C_Text
begin

text \<open>
  The state the companion daemon publishes, \<^verbatim>\<open>companion/src/charger_state.c\<close>: reading it from the segment and
  comparing two readings. The C \<open>float\<close> is the rational number it holds; \<open>single\<close> rounds to it, to nearest with ties
  to even. The values here are differences and quotients of 32-bit integers, far from overflow.
\<close>

section \<open>The state\<close>

datatype pilot_state = PILOT_A | PILOT_B | PILOT_C | PILOT_D | PILOT_TRANSIENT | PILOT_F | PILOT_UNKNOWN

record charger_state =
  voltage_v :: rat
  current_a :: rat
  power_w :: rat
  pilot_duty_pct :: u8
  rated_amps :: u8
  cs_pilot_state :: pilot_state
  pri_state :: u8
  user_state :: u8
  red_led :: u8
  stm32_fault_raw :: u8
  stm32_link_ok :: bool
  fault_bits :: u32

definition charger_state_init :: charger_state where
  "charger_state_init = \<lparr>voltage_v = 0, current_a = 0, power_w = 0, pilot_duty_pct = 0, rated_amps = 0,
     cs_pilot_state = PILOT_UNKNOWN, pri_state = 0, user_state = 0, red_led = 0, stm32_fault_raw = 0,
     stm32_link_ok = True, fault_bits = 0\<rparr>"

definition decode_pilot :: "u8 \<Rightarrow> pilot_state" where
  "decode_pilot b = (if b = 0 then PILOT_A else if b = 1 then PILOT_B else if b = 2 then PILOT_C else if b = 3 then PILOT_D
     else if b = 4 then PILOT_TRANSIENT else if b = 5 then PILOT_F else PILOT_UNKNOWN)"

definition charger_state_read :: "shmem \<Rightarrow> charger_state" where
  "charger_state_read sm =
     \<lparr>voltage_v = single (single (of_nat (unat (shmem_u32_le sm OFF_BRIDGE_VOLTAGE_CV))) / 100),
      current_a = single (single (of_nat (unat (shmem_u32_le sm OFF_BRIDGE_CURRENT_MA))) / 1000),
      power_w = single (of_nat (unat (shmem_u32_le sm OFF_BRIDGE_POWER_W))),
      pilot_duty_pct = shmem_u8 sm OFF_PILOT_DUTY,
      rated_amps = shmem_u8 sm OFF_RATED_AMPS,
      cs_pilot_state = decode_pilot (shmem_u8 sm OFF_PILOT_STATE),
      pri_state = shmem_u8 sm OFF_PRI_STATE,
      user_state = shmem_u8 sm OFF_USER_STATE,
      red_led = shmem_u8 sm OFF_RED_LED,
      stm32_fault_raw = shmem_u8 sm OFF_STM32_FAULT,
      stm32_link_ok = (shmem_u8 sm OFF_STM32_FAULT AND 0x10 = 0),
      fault_bits = shmem_u32_le sm OFF_ALARM_BITMAP\<rparr>"

definition pilot_state_str :: "pilot_state \<Rightarrow> u8 list" where
  "pilot_state_str s = ascii (case s of PILOT_A \<Rightarrow> ''A'' | PILOT_B \<Rightarrow> ''B'' | PILOT_C \<Rightarrow> ''C'' | PILOT_D \<Rightarrow> ''D''
     | PILOT_TRANSIENT \<Rightarrow> ''transient'' | PILOT_F \<Rightarrow> ''F'' | PILOT_UNKNOWN \<Rightarrow> ''unknown'')"

section \<open>Comparing two readings\<close>

abbreviation (input) "CS_DIRTY_VOLTAGE \<equiv> (0x001 :: u32)"
abbreviation (input) "CS_DIRTY_CURRENT \<equiv> (0x002 :: u32)"
abbreviation (input) "CS_DIRTY_POWER \<equiv> (0x004 :: u32)"
abbreviation (input) "CS_DIRTY_PILOT_DUTY \<equiv> (0x008 :: u32)"
abbreviation (input) "CS_DIRTY_RATED_AMPS \<equiv> (0x010 :: u32)"
abbreviation (input) "CS_DIRTY_PILOT_STATE \<equiv> (0x020 :: u32)"
abbreviation (input) "CS_DIRTY_PRI_STATE \<equiv> (0x040 :: u32)"
abbreviation (input) "CS_DIRTY_USER_STATE \<equiv> (0x080 :: u32)"
abbreviation (input) "CS_DIRTY_RED_LED \<equiv> (0x100 :: u32)"
abbreviation (input) "CS_DIRTY_STM32_LINK \<equiv> (0x200 :: u32)"
abbreviation (input) "CS_DIRTY_FAULTS \<equiv> (0x400 :: u32)"
abbreviation (input) "CS_DIRTY_AUTHORIZE \<equiv> (0x800 :: u32)"

definition float_differs :: "rat \<Rightarrow> rat \<Rightarrow> rat \<Rightarrow> bool" where
  "float_differs a b eps \<longleftrightarrow> \<bar>single (a - b)\<bar> > single eps"

definition dirty_if :: "bool \<Rightarrow> u32 \<Rightarrow> u32 \<Rightarrow> u32" where
  "dirty_if differs flag d = (if differs then d OR flag else d)"

definition charger_state_diff :: "charger_state \<Rightarrow> charger_state \<Rightarrow> u32" where
  "charger_state_diff prev cur =
     (dirty_if (fault_bits prev \<noteq> fault_bits cur) CS_DIRTY_FAULTS \<circ>
      dirty_if (stm32_link_ok prev \<noteq> stm32_link_ok cur) CS_DIRTY_STM32_LINK \<circ>
      dirty_if (red_led prev \<noteq> red_led cur) CS_DIRTY_RED_LED \<circ>
      dirty_if ((user_state prev \<ge> 1) \<noteq> (user_state cur \<ge> 1)) CS_DIRTY_AUTHORIZE \<circ>
      dirty_if (user_state prev \<noteq> user_state cur) CS_DIRTY_USER_STATE \<circ>
      dirty_if (pri_state prev \<noteq> pri_state cur) CS_DIRTY_PRI_STATE \<circ>
      dirty_if (cs_pilot_state prev \<noteq> cs_pilot_state cur) CS_DIRTY_PILOT_STATE \<circ>
      dirty_if (rated_amps prev \<noteq> rated_amps cur) CS_DIRTY_RATED_AMPS \<circ>
      dirty_if (pilot_duty_pct prev \<noteq> pilot_duty_pct cur) CS_DIRTY_PILOT_DUTY \<circ>
      dirty_if (float_differs (power_w prev) (power_w cur) 1) CS_DIRTY_POWER \<circ>
      dirty_if (float_differs (current_a prev) (current_a cur) (5 / 100)) CS_DIRTY_CURRENT \<circ>
      dirty_if (float_differs (voltage_v prev) (voltage_v cur) (5 / 100)) CS_DIRTY_VOLTAGE) 0"

definition FAULT_NAMES :: "string list" where
  "FAULT_NAMES = [
    ''OVP'', ''OCP'', ''Ambient_OTP'', ''EMGSTOP'', ''RCD'', ''WELDING'', ''UVP'', ''RA_CPU'',
    ''RA_WATCHDOG'', ''RA_CLOCK'', ''RA_DATA'', ''RA_FLASH'', ''RA_RAM'', ''RA_INTERRUPT'', ''RA_TIMING'',
    ''RA_IO'', ''RA_ADC'', ''RCDTRIP'', ''GMI'', ''PILOTERROR'', ''INITIAL'', ''Ambient_NTC_fail'',
    ''Plug_OTP'', ''Plug_NTC_fail'', ''RCDLOCK'', ''AC_drop'', ''FW_upgrade_fail'', ''PILOTERROR_Negative'',
    ''Relay_driver_fault'', ''Pri_MCU_Lost'', ''WiFi_module_fail'', ''RFID_module_fail'']"

definition charger_fault_name :: "int \<Rightarrow> u8 list" where
  "charger_fault_name i = ascii (if i < 0 \<or> i \<ge> 32 then ''UNKNOWN'' else FAULT_NAMES ! nat i)"

section \<open>The bits of a comparison\<close>

lemma dirty_bit: "bit (dirty_if differs f d) n \<longleftrightarrow> bit d n \<or> differs \<and> bit f n"
  by (auto simp: dirty_if_def bit_or_iff)

text \<open>The bit number of each flag.\<close>

definition flag :: "nat \<Rightarrow> u32" where
  "flag n = 2 ^ n"

lemma flags_eq:
  "CS_DIRTY_VOLTAGE = flag 0" "CS_DIRTY_CURRENT = flag 1" "CS_DIRTY_POWER = flag 2" "CS_DIRTY_PILOT_DUTY = flag 3"
  "CS_DIRTY_RATED_AMPS = flag 4" "CS_DIRTY_PILOT_STATE = flag 5" "CS_DIRTY_PRI_STATE = flag 6"
  "CS_DIRTY_USER_STATE = flag 7" "CS_DIRTY_RED_LED = flag 8" "CS_DIRTY_STM32_LINK = flag 9" "CS_DIRTY_FAULTS = flag 10"
  "CS_DIRTY_AUTHORIZE = flag 11"
  by (simp_all add: flag_def)

lemma bit_flag: "bit (flag m) n \<longleftrightarrow> n = m \<and> m < 32"
  by (auto simp: flag_def bit_exp_iff)

lemma and_flag: "m < 32 \<Longrightarrow> d AND flag m = 0 \<longleftrightarrow> \<not> bit d m"
  by (auto simp: bit_and_iff bit_flag intro!: bit_word_eqI dest!: arg_cong [where f = "\<lambda>w. bit w m"])

lemma diff_bits:
  "bit (charger_state_diff p c) 0 = float_differs (voltage_v p) (voltage_v c) (5 / 100)"
  "bit (charger_state_diff p c) 1 = float_differs (current_a p) (current_a c) (5 / 100)"
  "bit (charger_state_diff p c) 2 = float_differs (power_w p) (power_w c) 1"
  "bit (charger_state_diff p c) 3 = (pilot_duty_pct p \<noteq> pilot_duty_pct c)"
  "bit (charger_state_diff p c) 4 = (rated_amps p \<noteq> rated_amps c)"
  "bit (charger_state_diff p c) 5 = (cs_pilot_state p \<noteq> cs_pilot_state c)"
  "bit (charger_state_diff p c) 6 = (pri_state p \<noteq> pri_state c)"
  "bit (charger_state_diff p c) 7 = (user_state p \<noteq> user_state c)"
  "bit (charger_state_diff p c) 8 = (red_led p \<noteq> red_led c)"
  "bit (charger_state_diff p c) 9 = (stm32_link_ok p \<noteq> stm32_link_ok c)"
  "bit (charger_state_diff p c) 10 = (fault_bits p \<noteq> fault_bits c)"
  "bit (charger_state_diff p c) 11 = ((user_state p \<ge> 1) \<noteq> (user_state c \<ge> 1))"
  unfolding charger_state_diff_def comp_def flags_eq by (simp_all only: dirty_bit bit_flag) simp_all

text \<open>Slow changes are never reported: the readings are compared with the previous one, not with the one
  published last.\<close>

lemma drift_examples:
  "\<not> float_differs (single (23000 / 100)) (single (23004 / 100)) (5 / 100)"
  "\<not> float_differs (single (23004 / 100)) (single (23008 / 100)) (5 / 100)"
  "float_differs (single (23000 / 100)) (single (23008 / 100)) (5 / 100)"
proof -
  have r0: "round_even 15073280 = 15073280" by (simp add: round_even_def)
  have r1: "round_even (376897536 / 25) = 15075901" by (rule round_down; simp)
  have r2: "round_even (376963072 / 25) = 15078522 + 1" by (rule round_up; simp)
  have u: "2 powi (7 - 23) = (1 / 65536 :: rat)" "2 powi (- 5 - 23) = (1 / 268435456 :: rat)" "2 powi (- 4 - 23) = (1 / 134217728 :: rat)"
    by (simp_all add: power_int_def power_one_over)
  have p: "2 powi 7 = (128 :: rat)" "2 powi 8 = (256 :: rat)" "2 powi (- 5) = (1 / 32 :: rat)" "2 powi (- 4) = (1 / 16 :: rat)" "2 powi (- 3) = (1 / 8 :: rat)"
    by (simp_all add: power_int_def power_one_over)
  have b: "binade 230 = 7" "binade (5751 / 25) = 7" "binade (5752 / 25) = 7" "binade (1 / 20) = - 5"
    "binade (- (2621 / 65536)) = - 5" "binade (- (1311 / 32768)) = - 5" "binade (- (5243 / 65536)) = - 4"
    by (rule binade_eq; simp add: p)+
  have v0: "single (23000 / 100) = 230" and v1: "single (23004 / 100) = 15075901 / 65536" and v2: "single (23008 / 100) = 15078523 / 65536"
    by (simp_all add: single_def b u r0 r1 r2 Let_def)
  have r: "round_even (67108864 / 5) = 13421772 + 1" by (rule round_up; simp)
  have eps: "single (5 / 100) = 13421773 / 268435456" by (simp add: single_def b u r Let_def)
  have e: "round_even (- 10735616) = - 10735616" "round_even (- 10739712) = - 10739712" "round_even (- 10737664) = - 10737664"
    by (rule round_down; simp)+
  have d: "single (- (2621 / 65536)) = - (2621 / 65536)" "single (- (1311 / 32768)) = - (1311 / 32768)"
    "single (- (5243 / 65536)) = - (5243 / 65536)"
    by (simp_all add: single_def b u e Let_def)
  show "\<not> float_differs (single (23000 / 100)) (single (23004 / 100)) (5 / 100)"
    unfolding float_differs_def v0 v1 eps using d by simp
  show "\<not> float_differs (single (23004 / 100)) (single (23008 / 100)) (5 / 100)"
    unfolding float_differs_def v2 v1 eps using d by simp
  show "float_differs (single (23000 / 100)) (single (23008 / 100)) (5 / 100)"
    unfolding float_differs_def v0 v2 eps using d by simp
qed

end
