(* ===== verification/Mqtt_Adapter.thy ===== *)
theory Mqtt_Adapter
  imports Mqtt_Client Commands Charger_State
begin

text \<open>
  The northbound adapter of the companion daemon, \<^verbatim>\<open>companion/src/mqtt_adapter.c\<close>: topics, discovery payloads,
  the published state and the card events. The adapter owns its MQTT client; the segment its commands
  write is passed in, \<open>None\<close> when writing is not enabled. A formatted buffer is a pair of the text it
  holds and the running count of the code, which may exceed the buffer.
\<close>

record adapter_ctx =
  a_prefix :: "u8 list"
  a_device :: "u8 list"
  a_user :: "u8 list option"
  a_pass :: "u8 list option"
  a_keepalive :: u32
  a_write :: bool
  a_rfid :: bool
  a_client :: mqtt_client
  availability_topic :: "u8 list"
  cmd_prefix :: "u8 list"
  a_connected :: bool
  a_last_uid :: "u8 list"
  a_last_scan_ms :: int

definition mqtt_adapter_create ::
  "u8 list \<Rightarrow> u8 list \<Rightarrow> u8 list option \<Rightarrow> u8 list option \<Rightarrow> bool \<Rightarrow> bool \<Rightarrow> adapter_ctx" where
  "mqtt_adapter_create pref dev user pass wr rf =
     \<lparr>a_prefix = pref, a_device = dev, a_user = user, a_pass = pass, a_keepalive = 60, a_write = wr, a_rfid = rf,
      a_client = mqtt_client_init, availability_topic = fit 160 (pref @ ascii ''/'' @ dev @ ascii ''/availability''),
      cmd_prefix = fit 160 (pref @ ascii ''/'' @ dev @ ascii ''/set/''), a_connected = False, a_last_uid = [], a_last_scan_ms = 0\<rparr>"

section \<open>Topics\<close>

definition state_topic :: "adapter_ctx \<Rightarrow> string \<Rightarrow> u8 list" where
  "state_topic a field = fit 160 (a_prefix a @ ascii ''/'' @ a_device a @ ascii ''/'' @ ascii field)"

definition command_topic :: "adapter_ctx \<Rightarrow> string \<Rightarrow> u8 list" where
  "command_topic a field = fit 160 (a_prefix a @ ascii ''/'' @ a_device a @ ascii ''/set/'' @ ascii field)"

definition discovery_topic :: "adapter_ctx \<Rightarrow> string \<Rightarrow> string \<Rightarrow> u8 list" where
  "discovery_topic a component field =
     fit 160 (ascii ''homeassistant/'' @ ascii component @ ascii ''/delta_'' @ a_device a @ ascii ''_'' @ ascii field @ ascii ''/config'')"

section \<open>Discovery\<close>

abbreviation (input) "PAYLOAD_CAP \<equiv> (640 :: nat)"

definition print_at :: "u8 list \<Rightarrow> u8 list \<times> nat \<Rightarrow> u8 list \<times> nat" where
  "print_at s b =
     (let (txt, n) = b in if n < PAYLOAD_CAP then (take n txt @ take (PAYLOAD_CAP - n - 1) s, n + length s) else b)"

definition device_block :: "adapter_ctx \<Rightarrow> u8 list" where
  \<open>device_block a = ascii '',"device":{"identifiers":["delta_'' @ a_device a @ ascii ''"],"name":"Delta EVMU30 ('' @ a_device a @
     ascii '')","manufacturer":"Delta","model":"EVMU30"}''\<close>

definition append_device_block :: "adapter_ctx \<Rightarrow> u8 list \<times> nat \<Rightarrow> u8 list \<times> nat" where
  "append_device_block a b =
     (let (txt, n) = b; blk = device_block a
      in if n \<ge> PAYLOAD_CAP then b
         else (take n txt @ take (PAYLOAD_CAP - n - 1) blk, if length blk < PAYLOAD_CAP - n then n + length blk else n))"

text \<open>The payload of a discovery message from its head and the parts printed after the device block;
  nothing is published when the head alone does not fit.\<close>

definition publish_payload ::
  "adapter_ctx \<Rightarrow> u8 list \<Rightarrow> u8 list \<Rightarrow> u8 list list \<Rightarrow> mqtt_client \<times> sock \<Rightarrow> mqtt_client \<times> sock" where
  "publish_payload a topic head parts cs =
     (if length head \<ge> PAYLOAD_CAP then cs
      else let (payload, n) = fold print_at (parts @ [ascii ''}'']) (append_device_block a (head, length head))
        in snd (mqtt_client_publish topic payload True (fst cs) (snd cs)))"

definition json_field :: "string \<Rightarrow> u8 list \<Rightarrow> u8 list" where
  \<open>json_field key val = ascii '',"'' @ ascii key @ ascii ''":"'' @ val @ ascii ''"''\<close>

definition opt_field :: "string \<Rightarrow> string option \<Rightarrow> u8 list list" where
  "opt_field key v = (case v of None \<Rightarrow> [] | Some s \<Rightarrow> [json_field key (ascii s)])"

definition json_head :: "string \<Rightarrow> u8 list" where
  \<open>json_head name = ascii ''{"name":"'' @ ascii name @ ascii ''"''\<close>

definition unique_id :: "adapter_ctx \<Rightarrow> string \<Rightarrow> u8 list" where
  "unique_id a field = json_field ''unique_id'' (ascii ''delta_'' @ a_device a @ ascii ''_'' @ ascii field)"

definition publish_discovery ::
  "adapter_ctx \<Rightarrow> string \<Rightarrow> string \<Rightarrow> string \<Rightarrow> string option \<Rightarrow> string option \<Rightarrow> string option \<Rightarrow>
     mqtt_client \<times> sock \<Rightarrow> mqtt_client \<times> sock" where
  "publish_discovery a component field name unit device_class state_class =
     publish_payload a (discovery_topic a component field)
       (json_head name @ json_field ''state_topic'' (state_topic a field) @ unique_id a field @
        json_field ''availability_topic'' (availability_topic a))
       (opt_field ''unit_of_measurement'' unit @ opt_field ''device_class'' device_class @ opt_field ''state_class'' state_class)"

definition publish_discovery_set_current :: "adapter_ctx \<Rightarrow> mqtt_client \<times> sock \<Rightarrow> mqtt_client \<times> sock" where
  \<open>publish_discovery_set_current a =
     publish_payload a (discovery_topic a ''number'' ''set_current'')
       (json_head ''Set Current'' @ json_field ''command_topic'' (command_topic a ''rated_amps'') @
        json_field ''state_topic'' (state_topic a ''rated_amps'') @ unique_id a ''set_current'' @
        json_field ''availability_topic'' (availability_topic a) @
        ascii '',"min":6,"max":30,"step":1,"mode":"slider","unit_of_measurement":"A","device_class":"current","optimistic":false'') []\<close>

definition publish_discovery_authorize :: "adapter_ctx \<Rightarrow> mqtt_client \<times> sock \<Rightarrow> mqtt_client \<times> sock" where
  \<open>publish_discovery_authorize a =
     publish_payload a (discovery_topic a ''switch'' ''authorize'')
       (json_head ''Authorize'' @ json_field ''command_topic'' (command_topic a ''authorize'') @
        json_field ''state_topic'' (state_topic a ''authorize_state'') @ unique_id a ''authorize'' @
        json_field ''availability_topic'' (availability_topic a) @
        ascii '',"payload_on":"ON","payload_off":"OFF","state_on":"ON","state_off":"OFF","optimistic":false'') []\<close>

definition publish_discovery_clear_faults :: "adapter_ctx \<Rightarrow> mqtt_client \<times> sock \<Rightarrow> mqtt_client \<times> sock" where
  "publish_discovery_clear_faults a =
     publish_payload a (discovery_topic a ''button'' ''clear_faults'')
       (json_head ''Clear Faults'' @ json_field ''command_topic'' (command_topic a ''clear_faults'') @
        unique_id a ''clear_faults'' @ json_field ''availability_topic'' (availability_topic a)) []"

definition publish_discovery_last_uid :: "adapter_ctx \<Rightarrow> mqtt_client \<times> sock \<Rightarrow> mqtt_client \<times> sock" where
  "publish_discovery_last_uid a =
     publish_payload a (discovery_topic a ''sensor'' ''last_uid'')
       (json_head ''Last RFID Scan'' @ json_field ''state_topic'' (state_topic a ''rfid/last_uid'') @
        unique_id a ''last_uid'' @ json_field ''availability_topic'' (availability_topic a) @
        json_field ''icon'' (ascii ''mdi:nfc-variant'')) []"

definition publish_discovery_scan_event :: "adapter_ctx \<Rightarrow> mqtt_client \<times> sock \<Rightarrow> mqtt_client \<times> sock" where
  \<open>publish_discovery_scan_event a =
     publish_payload a (discovery_topic a ''event'' ''scan'')
       (json_head ''RFID Scan Event'' @ json_field ''state_topic'' (state_topic a ''rfid/scan_event'') @
        unique_id a ''scan_event'' @ json_field ''availability_topic'' (availability_topic a) @
        ascii '',"event_types":["card_scanned"]'' @ json_field ''icon'' (ascii ''mdi:nfc-tap'')) []\<close>

definition discovery_messages :: "adapter_ctx \<Rightarrow> (mqtt_client \<times> sock \<Rightarrow> mqtt_client \<times> sock) list" where
  "discovery_messages a =
       ([publish_discovery a ''sensor'' ''voltage'' ''Voltage'' (Some ''V'') (Some ''voltage'') (Some ''measurement''),
         publish_discovery a ''sensor'' ''current'' ''Current'' (Some ''A'') (Some ''current'') (Some ''measurement''),
         publish_discovery a ''sensor'' ''power'' ''Power'' (Some ''W'') (Some ''power'') (Some ''measurement''),
         publish_discovery a ''sensor'' ''pilot_duty'' ''Pilot Duty'' (Some ''%'') None (Some ''measurement'')] @
        (if \<not> a_write a then [publish_discovery a ''sensor'' ''rated_amps'' ''Rated Amps'' (Some ''A'') (Some ''current'') None] else []) @
        [publish_discovery a ''sensor'' ''pilot_state'' ''Pilot State'' None None None,
         publish_discovery a ''sensor'' ''pri_state'' ''Pri State'' None None None,
         publish_discovery a ''sensor'' ''user_state'' ''User State'' None None None,
         publish_discovery a ''sensor'' ''red_led'' ''Red LED'' None None None,
         publish_discovery a ''binary_sensor'' ''stm32_link_ok'' ''STM32 Link'' None (Some ''connectivity'') None,
         publish_discovery a ''sensor'' ''active_faults'' ''Active Faults'' None None None] @
        (if a_write a then [publish_discovery_set_current a, publish_discovery_authorize a, publish_discovery_clear_faults a] else []) @
        (if a_rfid a then [publish_discovery_last_uid a, publish_discovery_scan_event a] else []))"

definition publish_all_discovery :: "adapter_ctx \<Rightarrow> mqtt_client \<times> sock \<Rightarrow> mqtt_client \<times> sock" where
  "publish_all_discovery a cs = fold (\<lambda>f. f) (discovery_messages a) cs"

section \<open>Publishing the state\<close>

text \<open>The names of the active faults, joined by commas; the loop stops at the name that no longer fits.\<close>

fun format_faults_loop :: "nat list \<Rightarrow> u32 \<Rightarrow> nat \<Rightarrow> u8 list \<Rightarrow> u8 list" where
  "format_faults_loop [] bits cap out = (if out = [] then fit cap (ascii ''none'') else out)"
| "format_faults_loop (i # is) bits cap out =
     (if \<not> bit bits i then format_faults_loop is bits cap out
      else let s = (if out = [] then [] else ascii '','') @ charger_fault_name (int i)
        in if length s \<ge> cap - length out
           then (if out = [] then fit cap (ascii ''none'') else out @ fit (cap - length out) s)
           else format_faults_loop is bits cap (out @ s))"

definition format_faults :: "u32 \<Rightarrow> nat \<Rightarrow> u8 list" where
  "format_faults bits cap = format_faults_loop [0 ..< 32] bits cap []"

definition state_fields :: "(u32 \<times> string \<times> (charger_state \<Rightarrow> u8 list)) list" where
  "state_fields =
     [(CS_DIRTY_VOLTAGE, ''voltage'', \<lambda>cs. fixed 1 (voltage_v cs)),
      (CS_DIRTY_CURRENT, ''current'', \<lambda>cs. fixed 2 (current_a cs)),
      (CS_DIRTY_POWER, ''power'', \<lambda>cs. fixed 0 (power_w cs)),
      (CS_DIRTY_PILOT_DUTY, ''pilot_duty'', \<lambda>cs. dec (unat (pilot_duty_pct cs))),
      (CS_DIRTY_RATED_AMPS, ''rated_amps'', \<lambda>cs. dec (unat (rated_amps cs))),
      (CS_DIRTY_PILOT_STATE, ''pilot_state'', \<lambda>cs. pilot_state_str (cs_pilot_state cs)),
      (CS_DIRTY_PRI_STATE, ''pri_state'', \<lambda>cs. dec (unat (pri_state cs))),
      (CS_DIRTY_USER_STATE, ''user_state'', \<lambda>cs. dec (unat (user_state cs))),
      (CS_DIRTY_RED_LED, ''red_led'', \<lambda>cs. dec (unat (red_led cs))),
      (CS_DIRTY_STM32_LINK, ''stm32_link_ok'', \<lambda>cs. ascii (if stm32_link_ok cs then ''ON'' else ''OFF'')),
      (CS_DIRTY_FAULTS, ''active_faults'', \<lambda>cs. format_faults (fault_bits cs) 384),
      (CS_DIRTY_AUTHORIZE, ''authorize_state'', \<lambda>cs. ascii (if user_state cs \<ge> 1 then ''ON'' else ''OFF''))]"

definition publish_field ::
  "adapter_ctx \<Rightarrow> charger_state \<Rightarrow> u32 \<Rightarrow> bool \<Rightarrow> u32 \<times> string \<times> (charger_state \<Rightarrow> u8 list) \<Rightarrow>
     int \<times> mqtt_client \<times> sock \<Rightarrow> int \<times> mqtt_client \<times> sock" where
  "publish_field a cs dirty full fld acc =
     (let (err, c, s) = acc; (dirty_bit, field, render) = fld
      in if full \<or> dirty AND dirty_bit \<noteq> 0
         then let (rc, c1, s1) = mqtt_client_publish (state_topic a field) (fit 384 (render cs)) True c s
              in (if rc \<noteq> 0 then -1 else err, c1, s1)
         else acc)"

definition nb_publish_state :: "charger_state \<Rightarrow> u32 \<Rightarrow> bool \<Rightarrow> adapter_ctx \<Rightarrow> sock \<Rightarrow> int \<times> adapter_ctx \<times> sock" where
  "nb_publish_state cs dirty full a s =
     (if \<not> a_connected a then (-1, a, s)
      else let (c1, s1) = (if full then publish_all_discovery a (a_client a, s) else (a_client a, s));
               (err, c2, s2) = fold (publish_field a cs dirty full) state_fields (0, c1, s1)
           in (err, a\<lparr>a_client := c2\<rparr>, s2))"

section \<open>Lifecycle\<close>

definition nb_init :: "bool \<Rightarrow> recv_answer \<Rightarrow> adapter_ctx \<Rightarrow> sock \<Rightarrow> int \<times> adapter_ctx \<times> sock" where
  "nb_init tcp first a s =
     (let mc = \<lparr>client_id = a_device a, mq_user = a_user a, mq_pass = a_pass a, mq_keepalive = a_keepalive a,
                will_topic = Some (availability_topic a), will_msg = Some (ascii ''offline'')\<rparr>;
          (rc, c1, s1) = mqtt_client_connect tcp first mc s
      in if rc \<noteq> 0 then (-1, a\<lparr>a_client := c1\<rparr>, s1)
         else let (_, c2, s2) = mqtt_client_publish (availability_topic a) (ascii ''online'') True c1 s1
           in if a_write a
              then let (rc3, c3, s3) = mqtt_client_subscribe (fit 162 (cmd_prefix a @ ascii ''+'')) (mqtt_client_set_publish_cb c2) s2
                in if rc3 \<noteq> 0 then (-1, a\<lparr>a_client := c3\<rparr>, s3) else (0, a\<lparr>a_client := c3, a_connected := True\<rparr>, s3)
              else (0, a\<lparr>a_client := c2, a_connected := True\<rparr>, s2))"

definition nb_tick ::
  "int \<Rightarrow> recv_answer list \<Rightarrow> adapter_ctx \<Rightarrow> shmem option \<Rightarrow> sock \<Rightarrow> int \<times> adapter_ctx \<times> shmem option \<times> sock" where
  "nb_tick now_ms answers a shm s =
     (let (rc, c, shm1, s1) = mqtt_client_tick on_command now_ms answers (a_client a) shm s
      in (rc, a\<lparr>a_client := c\<rparr>, shm1, s1))"

definition nb_shutdown :: "adapter_ctx \<Rightarrow> sock \<Rightarrow> adapter_ctx \<times> sock" where
  "nb_shutdown a s =
     (if a_connected a
      then let (_, c1, s1) = mqtt_client_publish (availability_topic a) (ascii ''offline'') True (a_client a) s;
               (c2, s2) = mqtt_client_disconnect c1 s1
           in (a\<lparr>a_client := c2, a_connected := False\<rparr>, s2)
      else (a, s))"

definition mqtt_adapter_on_rfid_scan :: "u8 list \<Rightarrow> int \<Rightarrow> adapter_ctx \<Rightarrow> sock \<Rightarrow> adapter_ctx \<times> sock" where
  \<open>mqtt_adapter_on_rfid_scan uid_hex now_ms a s =
     (if \<not> a_connected a \<or> uid_hex = []
      then (if uid_hex \<noteq> [] then (a\<lparr>a_last_uid := fit 32 uid_hex, a_last_scan_ms := now_ms\<rparr>, s) else (a, s))
      else let a1 = a\<lparr>a_last_uid := fit 32 uid_hex, a_last_scan_ms := now_ms\<rparr>;
               (_, c1, s1) = mqtt_client_publish (state_topic a1 ''rfid/last_uid'') uid_hex True (a_client a1) s;
               payload = ascii ''{"event_type":"card_scanned","uid":"'' @ uid_hex @ ascii ''"}''
           in if length payload < 160
              then let (_, c2, s2) = mqtt_client_publish (state_topic a1 ''rfid/scan_event'') payload False c1 s1
                   in (a1\<lparr>a_client := c2\<rparr>, s2)
              else (a1\<lparr>a_client := c1\<rparr>, s1))\<close>

definition mqtt_adapter_get_last_scan :: "int \<Rightarrow> adapter_ctx \<Rightarrow> (u8 list \<times> int) option" where
  "mqtt_adapter_get_last_scan now_ms a =
     (if a_last_uid a = [] then None else Some (a_last_uid a, now_ms - a_last_scan_ms a))"

end
