(* ===== verification/Broker_View.thy ===== *)
theory Broker_View
  imports Mqtt_Adapter
begin

text \<open>
  The daemon as the broker sees it: the bytes of a connection read as packets, and the last message on each
  topic. The lemmas show that as long as the socket is open the connection is a whole number of packets, and what a
  successful publication adds.
\<close>

definition broker_reads :: "u8 list \<Rightarrow> mqtt_event list \<times> u8 list \<times> bool" where
  "broker_reads w = peel_all (peel_within MQTT_BUF) w"

definition whole :: "u8 list \<Rightarrow> bool" where
  "whole w \<longleftrightarrow> snd (broker_reads w) = ([], False)"

fun latest_of :: "mqtt_event list \<Rightarrow> u8 list \<Rightarrow> u8 list option" where
  "latest_of [] t = None"
| "latest_of (ev # evs) t =
     (case latest_of evs t of Some p \<Rightarrow> Some p
      | None \<Rightarrow> (case ev of Published topic payload \<Rightarrow> if topic = t then Some payload else None | _ \<Rightarrow> None))"

definition latest :: "u8 list \<Rightarrow> u8 list \<Rightarrow> u8 list option" where
  "latest w t = latest_of (fst (broker_reads w)) t"

lemma latest_of_append:
  "latest_of (xs @ ys) t = (case latest_of ys t of Some p \<Rightarrow> Some p | None \<Rightarrow> latest_of xs t)"
  by (induction xs) (simp_all split: option.splits)

section \<open>One packet\<close>

lemma broker_empty: "broker_reads [] = ([], [], False)"
  by (simp add: broker_reads_def packets.peels_more peel_within_def)

lemma packet_peels:
  assumes "mqtt_finalize MQTT_BUF t payload = Some pkt"
  shows "peel_within MQTT_BUF pkt = Frame (length pkt) (mqtt_event_of pkt)"
proof -
  obtain rl where p: "pkt = t # rl @ payload" "mqtt_encode_remlen (length payload) = Some rl" "length pkt \<le> MQTT_BUF"
    using assms by (rule finalize_bytes)
  note d = remlen_decodes [OF p(2)]
  have "mqtt_decode_remlen (drop 1 pkt) = Some (length payload, length rl)" using d(1) [of payload] by (simp add: p(1))
  moreover have "2 \<le> length pkt" "1 + length rl + length payload = length pkt" using d(2) by (simp_all add: p(1))
  ultimately show ?thesis using p(3) by (simp add: peel_within_def Let_def)
qed

lemma broker_packet:
  assumes "whole w" "peel_within MQTT_BUF pkt = Frame (length pkt) ev"
  shows "broker_reads (w @ pkt) = (fst (broker_reads w) @ [ev], [], False)"
proof -
  have "broker_reads pkt = ([ev], [], False)"
    using packets.peels_frame [OF assms(2)] broker_empty by (simp add: broker_reads_def)
  then show ?thesis
    using packets.peels_append [of MQTT_BUF w pkt] assms(1)
    by (simp add: broker_reads_def whole_def case_prod_unfold Let_def prod_eq_iff)
qed

lemma whole_packet: "whole w \<Longrightarrow> peel_within MQTT_BUF pkt = Frame (length pkt) ev \<Longrightarrow> whole (w @ pkt)"
  using broker_packet [of w pkt ev] by (simp add: whole_def)

lemma latest_packet:
  "whole w \<Longrightarrow> peel_within MQTT_BUF pkt = Frame (length pkt) ev \<Longrightarrow>
     latest (w @ pkt) t = (case ev of Published topic payload \<Rightarrow> if topic = t then Some payload else latest w t | _ \<Rightarrow> latest w t)"
  using broker_packet [of w pkt ev] by (simp add: latest_def latest_of_append split: mqtt_event.splits)

lemma publish_peels:
  assumes "mqtt_encode_publish MQTT_BUF topic payload retain = Some pkt"
  shows "peel_within MQTT_BUF pkt = Frame (length pkt) (Published topic payload)"
proof -
  from assms obtain f where fin: "mqtt_finalize MQTT_BUF (if retain then 0x31 else 0x30) (f @ payload) = Some pkt"
    by (auto simp: mqtt_encode_publish_def Let_def split: if_splits option.splits)
  then obtain rl where "pkt = (if retain then 0x31 else 0x30) # rl @ f @ payload" by (rule finalize_bytes)
  then have "pkt ! 0 AND 0xF0 = 0x30" using publish_first(1) [of retain] by simp
  then have "mqtt_event_of pkt = Published topic payload"
    using publish_decodes [OF assms] by (simp add: mqtt_event_of_def)
  then show ?thesis using packet_peels [OF fin] by simp
qed

section \<open>Operations of the client\<close>

lemma send_loop_ok: "fst (send_loop answers w p) = 0 \<Longrightarrow> wire (snd (send_loop answers w p)) = w @ p"
  by (induction answers w p rule: send_loop.induct) (auto split: if_splits)

lemma send_all_ok: "fst (send_all p s) = 0 \<Longrightarrow> wire (snd (send_all p s)) = wire s @ p"
  by (simp add: send_all_def send_loop_ok)

lemma disconnect_closes: "\<not> fd_open (fst (mqtt_client_disconnect c s))"
  by (simp add: mqtt_client_disconnect_def Let_def)

text \<open>A publication either succeeds, and the message is the next one on the wire, or leaves the connection
  alone, or closes it.\<close>

lemma publish_cases:
  assumes "mqtt_client_publish topic payload retain c s = (rc, c1, s1)"
  obtains (sent) b where "rc = 0" "c1 = c" "fd_open c" "mqtt_encode_publish MQTT_BUF topic payload retain = Some b" "wire s1 = wire s @ b"
    | (kept) "rc = -1" "c1 = c" "s1 = s"
    | (closed) "rc = -1" "\<not> fd_open c1"
proof (cases "fd_open c")
  case False
  then show ?thesis using assms kept by (simp add: mqtt_client_publish_def)
next
  case up: True
  show ?thesis
  proof (cases "mqtt_encode_publish MQTT_BUF topic payload retain")
    case None
    then show ?thesis using assms up kept by (simp add: mqtt_client_publish_def)
  next
    case (Some b)
    show ?thesis
    proof (cases "fst (send_all b s) = 0")
      case True
      then show ?thesis using assms up Some sent send_all_ok [OF True] by (simp add: mqtt_client_publish_def case_prod_unfold Let_def)
    next
      case False
      then have "rc = -1" "c1 = fst (mqtt_client_disconnect c (snd (send_all b s)))"
        using assms up Some by (auto simp: mqtt_client_publish_def case_prod_unfold Let_def)
      then show ?thesis using closed disconnect_closes by simp
    qed
  qed
qed

text \<open>What holds of a connection while it is open.\<close>

definition link_whole :: "mqtt_client \<Rightarrow> sock \<Rightarrow> bool" where
  "link_whole c s \<longleftrightarrow> (fd_open c \<longrightarrow> whole (wire s))"

lemma publish_whole_conj:
  assumes "mqtt_client_publish topic payload retain c s = (rc, c1, s1)" "link_whole c s"
  shows "link_whole c1 s1 \<and> (fd_open c1 \<longrightarrow> fd_open c \<and> c1 = c) \<and>
    (fd_open c1 \<longrightarrow> (\<forall>t. t \<noteq> topic \<longrightarrow> latest (wire s1) t = latest (wire s) t)) \<and>
    (rc = 0 \<longrightarrow> fd_open c1 \<and> latest (wire s1) topic = Some payload)"
  using assms(1)
proof (cases rule: publish_cases)
  case (sent b)
  note p = publish_peels [OF sent(4)]
  have w: "whole (wire s)" using assms(2) sent(3) by (simp add: link_whole_def)
  show ?thesis using whole_packet [OF w p] latest_packet [OF w p] sent(3) by (simp add: link_whole_def sent(2,5))
next
  case kept
  then show ?thesis using assms(2) by simp
next
  case closed
  then show ?thesis by (simp add: link_whole_def)
qed

lemma publish_whole:
  assumes "mqtt_client_publish topic payload retain c s = (rc, c1, s1)" "link_whole c s"
  shows "link_whole c1 s1" "fd_open c1 \<Longrightarrow> fd_open c" "fd_open c1 \<Longrightarrow> c1 = c"
    "fd_open c1 \<Longrightarrow> t \<noteq> topic \<Longrightarrow> latest (wire s1) t = latest (wire s) t"
    "rc = 0 \<Longrightarrow> fd_open c1" "rc = 0 \<Longrightarrow> latest (wire s1) topic = Some payload"
  using publish_whole_conj [OF assms] by simp_all

section \<open>Operations of the adapter\<close>

definition keeps_link :: "(mqtt_client \<times> sock \<Rightarrow> mqtt_client \<times> sock) \<Rightarrow> bool" where
  "keeps_link f \<longleftrightarrow> (\<forall>c s c1 s1. f (c, s) = (c1, s1) \<and> link_whole c s \<longrightarrow>
     link_whole c1 s1 \<and> (fd_open c1 \<longrightarrow> fd_open c \<and> c1 = c))"

lemma keeps_payload: "keeps_link (publish_payload a topic head parts)"
  unfolding keeps_link_def
proof (intro allI impI, elim conjE)
  fix c s c1 s1
  assume p: "publish_payload a topic head parts (c, s) = (c1, s1)" and w: "link_whole c s"
  show "link_whole c1 s1 \<and> (fd_open c1 \<longrightarrow> fd_open c \<and> c1 = c)"
  proof (cases "length head \<ge> PAYLOAD_CAP")
    case True
    then show ?thesis using p w by (simp add: publish_payload_def)
  next
    case False
    then obtain payload rc where "mqtt_client_publish topic payload True c s = (rc, c1, s1)"
      using p by (auto simp: publish_payload_def case_prod_unfold Let_def prod_eq_iff)
    from publish_whole_conj [OF this w] show ?thesis by blast
  qed
qed

lemma keeps_discovery:
  "keeps_link (publish_discovery a component field name unit device_class state_class)"
  "keeps_link (publish_discovery_set_current a)" "keeps_link (publish_discovery_authorize a)"
  "keeps_link (publish_discovery_clear_faults a)" "keeps_link (publish_discovery_last_uid a)"
  "keeps_link (publish_discovery_scan_event a)"
  unfolding publish_discovery_def publish_discovery_set_current_def publish_discovery_authorize_def
    publish_discovery_clear_faults_def publish_discovery_last_uid_def publish_discovery_scan_event_def
  by (rule keeps_payload)+

lemma keeps_fold:
  assumes "\<forall>f \<in> set fs. keeps_link f"
  shows "keeps_link (fold (\<lambda>f. f) fs)"
  using assms
proof (induction fs)
  case Nil
  then show ?case by (simp add: keeps_link_def)
next
  case (Cons f fs)
  then have f: "keeps_link f" and r: "keeps_link (fold (\<lambda>f. f) fs)" by simp_all
  show ?case unfolding keeps_link_def
  proof (intro allI impI, elim conjE)
    fix c s c1 s1
    assume e: "fold (\<lambda>f. f) (f # fs) (c, s) = (c1, s1)" and w: "link_whole c s"
    obtain c2 s2 where m: "f (c, s) = (c2, s2)" by fastforce
    have "link_whole c2 s2 \<and> (fd_open c2 \<longrightarrow> fd_open c \<and> c2 = c)" using f m w unfolding keeps_link_def by blast
    moreover have "fold (\<lambda>f. f) fs (c2, s2) = (c1, s1)" using e m by simp
    ultimately show "link_whole c1 s1 \<and> (fd_open c1 \<longrightarrow> fd_open c \<and> c1 = c)" using r unfolding keeps_link_def by blast
  qed
qed

lemma keeps_all_discovery: "keeps_link (publish_all_discovery a)"
proof -
  have "publish_all_discovery a = fold (\<lambda>f. f) (discovery_messages a)"
    by (intro ext) (simp add: publish_all_discovery_def)
  then show ?thesis by (simp only:) (rule keeps_fold, auto simp: discovery_messages_def keeps_discovery)
qed

lemma publish_fields:
  assumes "fold (publish_field a cs dirty full) fs (err, c, s) = (0, c1, s1)" "link_whole c s"
    "distinct (map (\<lambda>(b, f, r). state_topic a f) fs)"
  shows "err = 0 \<and> c1 = c \<and> link_whole c1 s1 \<and> (full \<and> fs \<noteq> [] \<longrightarrow> fd_open c) \<and>
    (\<forall>(b, f, r) \<in> set fs. latest (wire s1) (state_topic a f) =
       (if full \<or> dirty AND b \<noteq> 0 then Some (fit 384 (r cs)) else latest (wire s) (state_topic a f))) \<and>
    (\<forall>t. t \<notin> set (map (\<lambda>(b, f, r). state_topic a f) fs) \<longrightarrow> latest (wire s1) t = latest (wire s) t)"
  using assms
proof (induction fs arbitrary: err c s)
  case (Cons fld fs)
  obtain b f r where fld: "fld = (b, f, r)" by (cases fld)
  show ?case
  proof (cases "full \<or> dirty AND b \<noteq> 0")
    case False
    then have "publish_field a cs dirty full fld (err, c, s) = (err, c, s)" by (simp add: fld publish_field_def)
    then have "fold (publish_field a cs dirty full) fs (err, c, s) = (0, c1, s1)" using Cons.prems(1) by simp
    from Cons.IH [OF this Cons.prems(2)] Cons.prems(3) False show ?thesis by (auto simp: fld)
  next
    case True
    obtain rc c2 s2 where m: "mqtt_client_publish (state_topic a f) (fit 384 (r cs)) True c s = (rc, c2, s2)"
      by (rule prod_cases3)
    have "publish_field a cs dirty full fld (err, c, s) = (if rc \<noteq> 0 then -1 else err, c2, s2)"
      using True m by (simp add: fld publish_field_def)
    then have "fold (publish_field a cs dirty full) fs (if rc \<noteq> 0 then -1 else err, c2, s2) = (0, c1, s1)"
      using Cons.prems(1) by simp
    note step = this
    have dist: "distinct (map (\<lambda>(b, f, r). state_topic a f) fs)" using Cons.prems(3) by (simp add: fld)
    note w = publish_whole [OF m Cons.prems(2)] and ih = Cons.IH [OF step publish_whole(1) [OF m Cons.prems(2)] dist]
    have rc: "rc = 0" "err = 0" using ih by (auto split: if_splits)
    have same: "c1 = c2" "link_whole c1 s1" using ih by blast+
    have set_in: "\<forall>(b, f, r) \<in> set fs. latest (wire s1) (state_topic a f) =
        (if full \<or> dirty AND b \<noteq> 0 then Some (fit 384 (r cs)) else latest (wire s2) (state_topic a f))"
      using ih by (elim conjE)
    have set_out: "\<forall>t. t \<notin> set (map (\<lambda>(b, f, r). state_topic a f) fs) \<longrightarrow> latest (wire s1) t = latest (wire s2) t"
      using ih by (elim conjE)
    have own: "state_topic a f \<notin> set (map (\<lambda>(b, f, r). state_topic a f) fs)" using Cons.prems(3) by (simp add: fld)
    have ne: "\<forall>(b2, f2, r2) \<in> set fs. state_topic a f2 \<noteq> state_topic a f" using own by force
    have open2: "fd_open c2" "c2 = c" "fd_open c" using w(2,3,5) rc by simp_all
    have other: "\<forall>t. t \<noteq> state_topic a f \<longrightarrow> latest (wire s2) t = latest (wire s) t" using w(4) open2 by simp
    have rest: "latest (wire s1) (state_topic a f2) =
        (if full \<or> dirty AND b2 \<noteq> 0 then Some (fit 384 (r2 cs)) else latest (wire s) (state_topic a f2))"
      if "(b2, f2, r2) \<in> set fs" for b2 f2 r2
    proof -
      have "latest (wire s1) (state_topic a f2) =
          (if full \<or> dirty AND b2 \<noteq> 0 then Some (fit 384 (r2 cs)) else latest (wire s2) (state_topic a f2))"
        using bspec [OF set_in that] by simp
      moreover have "state_topic a f2 \<noteq> state_topic a f" using bspec [OF ne that] by simp
      ultimately show ?thesis using other by simp
    qed
    have head: "latest (wire s1) (state_topic a f) = Some (fit 384 (r cs))" using set_out own w(6) [OF rc(1)] by simp
    have out: "latest (wire s1) t = latest (wire s) t"
      if "t \<notin> set (map (\<lambda>(b, f, r). state_topic a f) (fld # fs))" for t
      using set_out other that by (simp add: fld)
    have fields: "case x of (b2, f2, r2) \<Rightarrow> latest (wire s1) (state_topic a f2) =
        (if full \<or> dirty AND b2 \<noteq> 0 then Some (fit 384 (r2 cs)) else latest (wire s) (state_topic a f2))"
      if "x \<in> set (fld # fs)" for x
      using that rest [of "fst x" "fst (snd x)" "snd (snd x)"] head True by (cases x) (auto simp: fld)
    show ?thesis using rc(2) open2 same fields out by (intro conjI allI impI ballI) (simp_all only:)
  qed
qed simp

lemma publish_state:
  assumes "nb_publish_state cs dirty full a s = (0, a1, s1)" "link_whole (a_client a) s"
    "distinct (map (\<lambda>(b, f, r). state_topic a f) state_fields)"
  shows "a1 = a \<and> link_whole (a_client a) s1 \<and>
    (\<forall>(b, f, r) \<in> set state_fields. full \<or> dirty AND b \<noteq> 0 \<longrightarrow> latest (wire s1) (state_topic a f) = Some (fit 384 (r cs))) \<and>
    (\<not> full \<longrightarrow> (\<forall>(b, f, r) \<in> set state_fields. dirty AND b = 0 \<longrightarrow> latest (wire s1) (state_topic a f) = latest (wire s) (state_topic a f)))"
proof -
  let ?cs = "if full then publish_all_discovery a (a_client a, s) else (a_client a, s)"
  obtain c2 s2 where d: "?cs = (c2, s2)" by (rule prod.exhaust)
  have "keeps_link (\<lambda>cs. if full then publish_all_discovery a cs else cs)"
    using keeps_all_discovery [of a] by (auto simp: keeps_link_def)
  then have d2: "link_whole c2 s2 \<and> (fd_open c2 \<longrightarrow> fd_open (a_client a) \<and> c2 = a_client a)"
    using assms(2) d unfolding keeps_link_def by blast
  obtain c1 where fo: "fold (publish_field a cs dirty full) state_fields (0, c2, s2) = (0, c1, s1)" and a1: "a1 = a\<lparr>a_client := c1\<rparr>"
    using assms(1) d by (auto simp: nb_publish_state_def case_prod_unfold Let_def prod_eq_iff split: if_splits)
  note f = publish_fields [OF fo conjunct1 [OF d2] assms(3)]
  have "c1 = a_client a"
  proof (cases full)
    case True
    then have "fd_open c2" "c1 = c2" using f by (simp_all add: state_fields_def)
    then show ?thesis using d2 by simp
  next
    case False
    then show ?thesis using f d by simp
  qed
  then show ?thesis using f a1 d by (auto split: if_splits prod.splits)
qed

section \<open>Connecting and ticking\<close>

lemma finalized_peels:
  assumes "mqtt_finalize MQTT_BUF t payload = Some pkt"
  shows "\<exists>ev. peel_within MQTT_BUF pkt = Frame (length pkt) ev"
  using packet_peels [OF assms] by blast

lemma connect_peels:
  assumes "mqtt_encode_connect MQTT_BUF cid user pass ka wt wm = Some pkt"
  shows "\<exists>ev. peel_within MQTT_BUF pkt = Frame (length pkt) ev"
proof -
  obtain payload where "mqtt_finalize MQTT_BUF 0x10 payload = Some pkt"
    using assms by (auto simp: mqtt_encode_connect_def Let_def split: if_splits option.splits prod.splits)
  then show ?thesis by (rule finalized_peels)
qed

lemma subscribe_peels:
  assumes "mqtt_encode_subscribe MQTT_BUF pid topic = Some pkt"
  shows "\<exists>ev. peel_within MQTT_BUF pkt = Frame (length pkt) ev"
proof -
  obtain payload where "mqtt_finalize MQTT_BUF 0x82 payload = Some pkt"
    using assms by (auto simp: mqtt_encode_subscribe_def Let_def split: if_splits option.splits)
  then show ?thesis by (rule finalized_peels)
qed

lemma connect_whole:
  assumes "mqtt_client_connect tcp first cfg s = (rc, c1, s1)" "wire s = []"
  shows "link_whole c1 s1"
proof (cases "mqtt_encode_connect MQTT_BUF (client_id cfg) (mq_user cfg) (mq_pass cfg) (mq_keepalive cfg)
    (will_topic cfg) (will_msg cfg)")
  case None
  then show ?thesis using assms(1)
    by (auto simp: mqtt_client_connect_def mqtt_client_init_def link_whole_def Let_def split: if_splits)
next
  case (Some b)
  obtain rc2 s2 where m: "send_all b s = (rc2, s2)" by (rule prod.exhaust)
  show ?thesis
  proof (cases "tcp \<and> rc2 = 0")
    case False
    then show ?thesis using assms(1) Some m
      by (auto simp: mqtt_client_connect_def mqtt_client_init_def link_whole_def Let_def split: if_splits)
  next
    case True
    then have "s1 = s2" using assms(1) Some m
      by (auto simp: mqtt_client_connect_def Let_def split: if_splits recv_answer.splits)
    moreover have "whole ([] @ b)" using connect_peels [OF Some] whole_packet [of "[]" b] by (auto simp: whole_def broker_empty)
    ultimately show ?thesis using send_all_ok [of b s] m True assms(2) by (simp add: link_whole_def)
  qed
qed

lemma subscribe_whole:
  assumes "mqtt_client_subscribe topic c s = (rc, c1, s1)" "link_whole c s"
  shows "link_whole c1 s1"
proof (cases "fd_open c")
  case False
  then show ?thesis using assms by (simp add: mqtt_client_subscribe_def)
next
  case up: True
  let ?pid = "if next_packet_id c = 0 then 1 else next_packet_id c"
  show ?thesis
  proof (cases "mqtt_encode_subscribe MQTT_BUF ?pid topic")
    case None
    then have "\<not> fd_open c1" using assms(1) up disconnect_closes
      by (simp add: mqtt_client_subscribe_def Let_def case_prod_unfold) (metis fst_conv snd_conv)
    then show ?thesis by (simp add: link_whole_def)
  next
    case (Some b)
    show ?thesis
    proof (cases "fst (send_all b s) = 0")
      case True
      have "whole (wire s @ b)" using assms(2) up subscribe_peels [OF Some] whole_packet by (auto simp: link_whole_def)
      then show ?thesis using assms(1) up Some True send_all_ok [OF True]
        by (auto simp: mqtt_client_subscribe_def Let_def case_prod_unfold link_whole_def)
    next
      case False
      then have "\<not> fd_open c1" using assms(1) up Some disconnect_closes
        by (simp add: mqtt_client_subscribe_def Let_def case_prod_unfold) (metis fst_conv snd_conv)
      then show ?thesis by (simp add: link_whole_def)
    qed
  qed
qed

lemma init_whole:
  assumes "nb_init tcp first a s = (0, a1, s1)" "wire s = []"
  shows "link_whole (a_client a1) s1" "a1 = a\<lparr>a_client := a_client a1, a_connected := True\<rparr>"
proof -
  obtain rc1 c1 t1 where m1: "mqtt_client_connect tcp first \<lparr>client_id = a_device a, mq_user = a_user a, mq_pass = a_pass a,
      mq_keepalive = a_keepalive a, will_topic = Some (availability_topic a), will_msg = Some (ascii ''offline'')\<rparr> s = (rc1, c1, t1)"
    by (rule prod_cases3)
  obtain rc2 c2 t2 where m2: "mqtt_client_publish (availability_topic a) (ascii ''online'') True c1 t1 = (rc2, c2, t2)"
    by (rule prod_cases3)
  obtain rc3 c3 t3 where m3: "mqtt_client_subscribe (fit 162 (cmd_prefix a @ ascii ''+'')) (mqtt_client_set_publish_cb c2) t2 = (rc3, c3, t3)"
    by (rule prod_cases3)
  have w2: "link_whole c2 t2" using publish_whole(1) [OF m2 connect_whole [OF m1 assms(2)]] .
  then have "link_whole (mqtt_client_set_publish_cb c2) t2" by (simp add: link_whole_def mqtt_client_set_publish_cb_def)
  note w3 = subscribe_whole [OF m3 this]
  have "a1 = (if a_write a then a\<lparr>a_client := c3, a_connected := True\<rparr> else a\<lparr>a_client := c2, a_connected := True\<rparr>)"
    "s1 = (if a_write a then t3 else t2)"
    using assms(1) m1 m2 m3 by (auto simp: nb_init_def Let_def split: if_splits)
  then show "link_whole (a_client a1) s1" "a1 = a\<lparr>a_client := a_client a1, a_connected := True\<rparr>" using w2 w3 by simp_all
qed

lemma tick_whole:
  assumes "mqtt_client_tick cb now_ms answers c u s = (0, c1, u1, s1)" "link_whole c s"
  shows "fd_open c1 \<and> link_whole c1 s1 \<and> latest (wire s1) = latest (wire s)"
proof -
  have up: "fd_open c" using assms(1) by (auto simp: mqtt_client_tick_def split: if_splits)
  then have w: "whole (wire s)" using assms(2) by (simp add: link_whole_def)
  obtain rx1 where k: "mqtt_keepalive now_ms (c\<lparr>mq_rx := rx1\<rparr>) s = (0, c1, s1)"
    using assms(1) up
    by (auto simp: mqtt_client_tick_def case_prod_unfold Let_def prod_eq_iff split: drained.splits if_splits)
  have ping: "peel_within MQTT_BUF [0xC0, 0x00] = Frame (length [0xC0, 0x00 :: u8]) Unknown"
    by (simp add: peel_within_def mqtt_decode_remlen_def mqtt_event_of_def)
  show ?thesis
  proof (cases "s1 = s \<and> fd_open c1")
    case True
    then show ?thesis using w by (simp add: link_whole_def)
  next
    case False
    then have sent: "fst (send_all [0xC0, 0x00] s) = 0" "s1 = snd (send_all [0xC0, 0x00] s)" "fd_open c1"
      using k up disconnect_closes
      by (auto simp: mqtt_keepalive_def mqtt_encode_pingreq_def case_prod_unfold Let_def split: if_splits)
    show ?thesis using send_all_ok [OF sent(1)] sent(2,3) whole_packet [OF w ping] latest_packet [OF w ping]
      by (simp add: link_whole_def fun_eq_iff)
  qed
qed

end
