(* ===== verification/Card_Reader.thy ===== *)
theory Card_Reader
  imports Framing C_Text
begin

text \<open>
  The card reader of the companion daemon, \<^verbatim>\<open>companion/src/rfid.c\<close>: frames \<open>[LEN][CMD][payload][XOR]\<close>,
  debouncing, and the poll-and-wait cycle of a tick. What \<open>read\<close> answers during a tick is a list of
  chunks; the callback is a function \<open>cb\<close> on a state of its own. The set-up of the pins, of the clock
  output and of the port is left out.
\<close>

abbreviation (input) "RX_BUF_CAP \<equiv> (128 :: nat)"
abbreviation (input) "UID_HEX_MAX \<equiv> (21 :: nat)"
abbreviation (input) "DEBOUNCE_MS \<equiv> (2000 :: int)"
abbreviation (input) "RESP_TIMEOUT_MS \<equiv> (300 :: int)"

section \<open>Frames\<close>

definition xor_of :: "u8 list \<Rightarrow> u8" where
  "xor_of bs = fold (\<lambda>b x. x XOR b) bs 0"

text \<open>The status of the code and the tag number, empty when the frame carries none.\<close>

definition rfid_parse_frame :: "u8 list \<Rightarrow> int \<times> u8 list" where
  "rfid_parse_frame buf =
     (if length buf < 1 then (0, [])
      else let total = unat (buf ! 0)
        in if total < 2 then (-1, [])
           else if total + 1 > RX_BUF_CAP then (-1, [])
           else if length buf < total + 1 then (0, [])
           else if xor_of (take total buf) \<noteq> buf ! total then (-1, [])
           else let uid_n = (if buf ! 1 = 0x20
                             then (if total = 0x09 then 4 else if total = 0x0C then 7 else if total = 0x0F then 10 else 0)
                             else 0)
             in (int (total + 1), take uid_n (drop 2 buf)))"

definition hex_digit :: "u8 \<Rightarrow> u8" where
  "hex_digit d = ascii ''0123456789ABCDEF'' ! unat (d AND 0xF)"

definition rfid_uid_to_hex :: "nat \<Rightarrow> u8 list \<Rightarrow> u8 list option" where
  "rfid_uid_to_hex cap uid =
     (if cap < length uid * 2 + 1 then None
      else Some (concat (map (\<lambda>b. [hex_digit (drop_bit 4 b), hex_digit b]) uid)))"

definition build_cmd :: "nat \<Rightarrow> u8 \<Rightarrow> u8 list \<Rightarrow> u8 list" where
  "build_cmd cap cmd args =
     (let total = 2 + length args; frame = of_nat total # cmd # args
      in if cap < total + 1 then [] else if total > 0xFF then [] else frame @ [xor_of frame])"

section \<open>The reader\<close>

datatype rfid_state = RFID_IDLE | RFID_WAITING_RESP

record rfid_reader =
  r_open :: bool
  r_active :: bool
  r_state :: rfid_state
  last_tx_ms :: int
  last_rx_attempt_ms :: int
  r_rx :: "u8 list"
  r_last_uid :: "u8 list"
  last_seen_ms :: int

definition rfid_reader_start :: "bool \<Rightarrow> rfid_reader option" where
  "rfid_reader_start port_opened =
     (if \<not> port_opened then None
      else Some \<lparr>r_open = True, r_active = True, r_state = RFID_IDLE, last_tx_ms = 0, last_rx_attempt_ms = 0,
                 r_rx = [], r_last_uid = [], last_seen_ms = 0\<rparr>)"

definition handle_uid :: "(u8 list \<Rightarrow> 'u \<Rightarrow> 'u) \<Rightarrow> u8 list \<Rightarrow> int \<Rightarrow> rfid_reader \<times> 'u \<Rightarrow> rfid_reader \<times> 'u" where
  "handle_uid cb uid now_ms ru =
     (let (r, u) = ru in
      case rfid_uid_to_hex UID_HEX_MAX uid of None \<Rightarrow> (r, u)
      | Some hex \<Rightarrow>
          let fire = r_last_uid r = [] \<or> hex \<noteq> r_last_uid r \<or> now_ms - last_seen_ms r \<ge> DEBOUNCE_MS;
              r1 = r\<lparr>last_seen_ms := now_ms\<rparr>
          in if fire then (r1\<lparr>r_last_uid := fit UID_HEX_MAX hex\<rparr>, cb hex u) else (r1, u))"

text \<open>A bad frame costs its first byte only.\<close>

function drain_frames :: "(u8 list \<Rightarrow> 'u \<Rightarrow> 'u) \<Rightarrow> int \<Rightarrow> rfid_reader \<times> 'u \<Rightarrow> nat \<times> rfid_reader \<times> 'u" where
  "drain_frames cb now_ms (r, u) =
     (if r_rx r = [] then (0, r, u)
      else let (n, uid) = rfid_parse_frame (r_rx r)
        in if n = 0 then (0, r, u)
           else if n < 0 then drain_frames cb now_ms (r\<lparr>r_rx := drop 1 (r_rx r)\<rparr>, u)
           else let (r1, u1) = (if uid \<noteq> [] then handle_uid cb uid now_ms (r, u) else (r, u));
                    (d, r2, u2) = drain_frames cb now_ms (r1\<lparr>r_rx := drop (nat n) (r_rx r), r_state := RFID_IDLE\<rparr>, u1)
                in ((if uid \<noteq> [] then 1 else 0) + d, r2, u2))"
  by pat_completeness auto

termination
  by (relation "measure (\<lambda>(cb, t, r, u). length (r_rx r))") (auto simp: not_less)

declare drain_frames.simps [simp del]

fun fill_rx :: "u8 list list \<Rightarrow> u8 list \<Rightarrow> u8 list" where
  "fill_rx [] rx = (if length rx \<ge> RX_BUF_CAP then drop 1 rx else rx)"
| "fill_rx (c # cs) rx =
     (let rx1 = (if length rx \<ge> RX_BUF_CAP then drop 1 rx else rx);
          got = take (RX_BUF_CAP - length rx1) c
      in if got = [] then rx1 else fill_rx cs (rx1 @ got))"

text \<open>A tick; the last component is the request handed to \<open>write\<close>, whose result is only logged.\<close>

definition rfid_reader_tick ::
  "(u8 list \<Rightarrow> 'u \<Rightarrow> 'u) \<Rightarrow> int \<Rightarrow> u8 list list \<Rightarrow> rfid_reader \<Rightarrow> 'u \<Rightarrow> nat \<times> rfid_reader \<times> 'u \<times> u8 list option" where
  "rfid_reader_tick cb now_ms answers r u =
     (if \<not> r_active r \<or> \<not> r_open r then (0, r, u, None)
      else let (d, r1, u1) = drain_frames cb now_ms (r\<lparr>r_rx := fill_rx answers (r_rx r)\<rparr>, u);
               r2 = (if r_state r1 = RFID_WAITING_RESP \<and> now_ms - last_rx_attempt_ms r1 \<ge> RESP_TIMEOUT_MS
                     then r1\<lparr>r_state := RFID_IDLE\<rparr> else r1);
               req = build_cmd 8 0x20 [0]
           in if r_state r2 = RFID_IDLE \<and> length req > 0
              then (d, r2\<lparr>last_tx_ms := now_ms, last_rx_attempt_ms := now_ms, r_state := RFID_WAITING_RESP\<rparr>, u1, Some req)
              else (d, r2, u1, None))"

definition rfid_reader_stop :: "rfid_reader \<Rightarrow> rfid_reader" where
  "rfid_reader_stop r = (if \<not> r_active r then r else r\<lparr>r_open := False, r_active := False\<rparr>)"

section \<open>The frames of the buffer form a framer\<close>

definition card_peel :: "u8 list \<Rightarrow> u8 list option peel" where
  "card_peel rx =
     (let (n, uid) = rfid_parse_frame rx
      in if n = 0 then More else if n < 0 then Frame 1 None else Frame (nat n) (Some uid))"

lemma nat_of_length: "nat (1 + uint (w :: u8)) = Suc (unat w)"
  using nat_add_distrib [of 1 "uint w"] by simp

lemma parse_size: "rfid_parse_frame rx = (n, uid) \<Longrightarrow> 0 < n \<Longrightarrow> nat n \<le> length rx"
  by (auto simp: rfid_parse_frame_def nat_of_length Let_def split: if_splits)

lemma parse_bad: "rfid_parse_frame rx = (n, uid) \<Longrightarrow> n < 0 \<Longrightarrow> rx \<noteq> []"
  by (auto simp: rfid_parse_frame_def)

lemma parse_stable: "fst (rfid_parse_frame rx) \<noteq> 0 \<Longrightarrow> rfid_parse_frame (rx @ c) = rfid_parse_frame rx"
proof -
  assume n: "fst (rfid_parse_frame rx) \<noteq> 0"
  let ?t = "unat (rx ! 0)"
  have rx: "0 < length rx" using n by (auto simp: rfid_parse_frame_def)
  then have first: "(rx @ c) ! 0 = rx ! 0" by (simp add: nth_append)
  show ?thesis
  proof (cases "?t < 2 \<or> 128 < ?t + 1")
    case True
    then show ?thesis using rx first by (auto simp: rfid_parse_frame_def Let_def)
  next
    case False
    then have t: "2 \<le> ?t" "?t < length rx" using n rx by (auto simp: rfid_parse_frame_def Let_def split: if_splits)
    then have bytes: "take ?t (rx @ c) = take ?t rx" "(rx @ c) ! ?t = rx ! ?t" "(rx @ c) ! 1 = rx ! 1"
      by (simp_all add: nth_append)
    let ?k = "if rx ! 1 = 0x20 then (if ?t = 0x09 then 4 else if ?t = 0x0C then 7 else if ?t = 0x0F then 10 else 0) else 0 :: nat"
    have "?k + 2 \<le> ?t" using t(1) by auto
    then have uid: "take ?k (drop 2 (rx @ c)) = take ?k (drop 2 rx)" using t(2) by simp
    have room: "\<not> length rx < 1" "\<not> length (rx @ c) < 1" "\<not> length rx < ?t + 1" "\<not> length (rx @ c) < ?t + 1" using t by auto
    show ?thesis unfolding rfid_parse_frame_def Let_def first bytes uid using room by (simp only: if_False simp_thms)
  qed
qed

lemma card_peel_size: "card_peel rx = Frame n m \<Longrightarrow> 0 < n \<and> n \<le> length rx"
  using parse_size [of rx "fst (rfid_parse_frame rx)" "snd (rfid_parse_frame rx)"]
    parse_bad [of rx "fst (rfid_parse_frame rx)" "snd (rfid_parse_frame rx)"]
  by (cases rx) (auto simp: card_peel_def split: prod.splits if_splits)

lemma card_peel_stable: "card_peel rx \<noteq> More \<Longrightarrow> card_peel (rx @ c) = card_peel rx"
  using parse_stable [of rx c] by (auto simp: card_peel_def split: prod.splits if_splits)

lemma card_peel_never_bad: "card_peel rx \<noteq> Bad"
  by (simp add: card_peel_def split: prod.split)

interpretation cards: framer card_peel
  by unfold_locales (auto dest: card_peel_size simp: card_peel_stable card_peel_never_bad)

lemma cards_never_bad: "\<not> snd (snd (peel_all card_peel rx))"
  using cards.peels_rest [of rx] card_peel_never_bad by (metis prod.collapse)

section \<open>What a drain delivers\<close>

definition on_frame :: "(u8 list \<Rightarrow> 'u \<Rightarrow> 'u) \<Rightarrow> int \<Rightarrow> u8 list option \<Rightarrow> rfid_reader \<times> 'u \<Rightarrow> rfid_reader \<times> 'u" where
  "on_frame cb now_ms m ru =
     (case m of None \<Rightarrow> ru
      | Some uid \<Rightarrow> (let (r, u) = (if uid \<noteq> [] then handle_uid cb uid now_ms ru else ru) in (r\<lparr>r_state := RFID_IDLE\<rparr>, u)))"

text \<open>The buffer plays no part in the handling of a tag number.\<close>

lemma handle_uid_rx: "handle_uid cb uid t (r\<lparr>r_rx := b\<rparr>, u) = (let (r1, u1) = handle_uid cb uid t (r, u) in (r1\<lparr>r_rx := b\<rparr>, u1))"
  by (simp add: handle_uid_def Let_def split: option.split)

lemma on_frame_rx: "on_frame cb t m (r\<lparr>r_rx := b\<rparr>, u) = (let (r1, u1) = on_frame cb t m (r, u) in (r1\<lparr>r_rx := b\<rparr>, u1))"
  by (simp add: on_frame_def handle_uid_rx Let_def case_prod_unfold split: option.split)

lemma fold_frames_rx:
  "fold (on_frame cb t) ms (r\<lparr>r_rx := b\<rparr>, u) = (let (r1, u1) = fold (on_frame cb t) ms (r, u) in (r1\<lparr>r_rx := b\<rparr>, u1))"
  by (induction ms arbitrary: r u) (simp_all add: on_frame_rx Let_def case_prod_unfold)

lemma drain_scan:
  "snd (drain_frames cb t (r, u)) =
     (let (ms, rest, bad) = peel_all card_peel (r_rx r); (r1, u1) = fold (on_frame cb t) ms (r, u) in (r1\<lparr>r_rx := rest\<rparr>, u1))"
proof (induction "length (r_rx r)" arbitrary: r u rule: less_induct)
  case less
  obtain n uid where p: "rfid_parse_frame (r_rx r) = (n, uid)" by (rule prod.exhaust)
  consider (stop) "n = 0" | (junk) "n < 0" | (card) "0 < n" by linarith
  then show ?case
  proof cases
    case stop
    then have "card_peel (r_rx r) = More" using p by (simp add: card_peel_def)
    then show ?thesis using p stop by (simp add: cards.peels_more drain_frames.simps [of cb t r u])
  next
    case junk
    then have f: "card_peel (r_rx r) = Frame 1 None" and ne: "r_rx r \<noteq> []" using p parse_bad by (auto simp: card_peel_def)
    have ih: "snd (drain_frames cb t (r\<lparr>r_rx := drop 1 (r_rx r)\<rparr>, u)) =
      (let (ms, rest, bad) = peel_all card_peel (drop 1 (r_rx r));
           (r1, u1) = fold (on_frame cb t) ms (r\<lparr>r_rx := drop 1 (r_rx r)\<rparr>, u) in (r1\<lparr>r_rx := rest\<rparr>, u1))"
      using less [of "r\<lparr>r_rx := drop 1 (r_rx r)\<rparr>" u] ne by (cases "r_rx r") simp_all
    show ?thesis using p junk ne ih
      by (simp add: cards.peels_frame [OF f] drain_frames.simps [of cb t r u] fold_frames_rx on_frame_def Let_def case_prod_unfold)
  next
    case card
    then have f: "card_peel (r_rx r) = Frame (nat n) (Some uid)" using p by (simp add: card_peel_def)
    have ne: "r_rx r \<noteq> []" "nat n \<le> length (r_rx r)" using card_peel_size [OF f] by auto
    obtain r1 u1 where h: "(if uid \<noteq> [] then handle_uid cb uid t (r, u) else (r, u)) = (r1, u1)" by (rule prod.exhaust)
    obtain r2 where r2: "r1\<lparr>r_state := RFID_IDLE\<rparr> = r2" by simp
    let ?r = "r2\<lparr>r_rx := drop (nat n) (r_rx r)\<rparr>"
    have eq: "r1\<lparr>r_rx := drop (nat n) (r_rx r), r_state := RFID_IDLE\<rparr> = ?r" using r2 by auto
    have "length (r_rx ?r) < length (r_rx r)" using ne card by simp
    note ih = less [OF this, of u1]
    have o: "on_frame cb t (Some uid) (r, u) = (r2, u1)" using h r2 by (simp add: on_frame_def)
    have "snd (drain_frames cb t (r, u)) = snd (drain_frames cb t (?r, u1))"
      unfolding eq [symmetric]
      by (subst drain_frames.simps) (use p card ne h in \<open>cases "uid = []"; simp add: case_prod_unfold Let_def\<close>)
    then show ?thesis
      using ih o by (simp add: cards.peels_frame [OF f] fold_frames_rx Let_def case_prod_unfold)
  qed
qed

lemma fill_rx_room:
  "length rx + length (concat cs) < 128 \<Longrightarrow> [] \<notin> set cs \<Longrightarrow> fill_rx cs rx = rx @ concat cs"
  by (induction cs rx rule: fill_rx.induct) (auto simp: Let_def)

section \<open>Debouncing\<close>

text \<open>The rule of the reader on the sightings of a run, each a printed tag number and a time: a sighting counts
  unless the sighting before it was the same card less than two seconds earlier.\<close>

fun debounced :: "(u8 list \<times> int) option \<Rightarrow> (u8 list \<times> int) list \<Rightarrow> u8 list list" where
  "debounced prev [] = []"
| "debounced prev ((h, t) # ss) =
     (if (case prev of None \<Rightarrow> True | Some (h0, t0) \<Rightarrow> h \<noteq> h0 \<or> t - t0 \<ge> DEBOUNCE_MS) then h # debounced (Some (h, t)) ss
      else debounced (Some (h, t)) ss)"

definition uid_hex :: "u8 list \<Rightarrow> u8 list" where
  "uid_hex uid = concat (map (\<lambda>b. [hex_digit (drop_bit 4 b), hex_digit b]) uid)"

text \<open>The card numbers among the frames.\<close>

definition shown :: "u8 list option list \<Rightarrow> u8 list list" where
  "shown ms = concat (map (\<lambda>m. case m of None \<Rightarrow> [] | Some uid \<Rightarrow> if uid = [] then [] else [uid_hex uid]) ms)"

fun sightings :: "u8 list \<Rightarrow> (int \<times> u8 list list) list \<Rightarrow> (u8 list \<times> int) list" where
  "sightings rest [] = []"
| "sightings rest ((t, cs) # ticks) =
     (let (ms, rest1, bad) = peel_all card_peel (rest @ concat cs)
      in map (\<lambda>h. (h, t)) (shown ms) @ sightings rest1 ticks)"

text \<open>No tick finds more bytes than the buffer has room for.\<close>

fun ticks_fit :: "u8 list \<Rightarrow> (int \<times> u8 list list) list \<Rightarrow> bool" where
  "ticks_fit rest [] = True"
| "ticks_fit rest ((t, cs) # ticks) =
     ([] \<notin> set cs \<and> length rest + length (concat cs) < 128 \<and>
      ticks_fit (fst (snd (peel_all card_peel (rest @ concat cs)))) ticks)"

fun reader_ticks :: "(u8 list \<Rightarrow> 'u \<Rightarrow> 'u) \<Rightarrow> (int \<times> u8 list list) list \<Rightarrow> rfid_reader \<times> 'u \<Rightarrow> rfid_reader \<times> 'u" where
  "reader_ticks cb [] ru = ru"
| "reader_ticks cb ((t, cs) # ticks) ru =
     reader_ticks cb ticks (let (d, r, u, req) = rfid_reader_tick cb t cs (fst ru) (snd ru) in (r, u))"

definition reader_last :: "rfid_reader \<Rightarrow> (u8 list \<times> int) option" where
  "reader_last r = (if r_last_uid r = [] then None else Some (r_last_uid r, last_seen_ms r))"

definition collect :: "u8 list \<Rightarrow> u8 list list \<Rightarrow> u8 list list" where
  "collect h hs = hs @ [h]"

lemma length_uid_hex: "length (uid_hex uid) = 2 * length uid"
  by (induction uid) (simp_all add: uid_hex_def)

lemma parsed_uid: "rfid_parse_frame rx = (n, uid) \<Longrightarrow> length uid \<le> 10"
  by (auto simp: rfid_parse_frame_def Let_def split: if_splits)

lemma handled_uid:
  assumes "uid \<noteq> []" "length uid \<le> 10"
  shows "handle_uid collect uid t (r, hs) =
    (r\<lparr>last_seen_ms := t, r_last_uid := uid_hex uid\<rparr>, hs @ debounced (reader_last r) [(uid_hex uid, t)])"
proof -
  have "rfid_uid_to_hex 21 uid = Some (uid_hex uid)" using assms(2) by (simp add: rfid_uid_to_hex_def uid_hex_def)
  moreover have "fit 21 (uid_hex uid) = uid_hex uid" using assms(2) by (simp add: length_uid_hex)
  ultimately show ?thesis by (auto simp: handle_uid_def reader_last_def collect_def Let_def)
qed

text \<open>The frames of a scan carry at most ten bytes of tag number.\<close>

lemma scanned_uids: "Some uid \<in> set (fst (peel_all card_peel rx)) \<Longrightarrow> length uid \<le> 10"
proof (induction "length rx" arbitrary: rx rule: less_induct)
  case less
  show ?case
  proof (cases "card_peel rx")
    case (Frame n m)
    have m: "m = Some uid \<Longrightarrow> length uid \<le> 10"
      using Frame parsed_uid [of rx] by (auto simp: card_peel_def split: prod.splits if_splits)
    have "length (drop n rx) < length rx" using card_peel_size [OF Frame] by auto
    note ih = less.hyps [OF this]
    show ?thesis using less.prems m ih by (auto simp: cards.peels_frame [OF Frame] Let_def case_prod_unfold)
  qed (use less.prems in \<open>simp_all add: cards.peels_more cards.peels_bad\<close>)
qed

lemma debounced_append:
  "debounced prev (xs @ ys) = debounced prev xs @ debounced (if xs = [] then prev else Some (last xs)) ys"
  by (induction prev xs rule: debounced.induct) simp_all

lemma folded_frames:
  assumes "\<forall>uid. Some uid \<in> set ms \<longrightarrow> length uid \<le> 10"
  shows "\<exists>r1. fold (on_frame collect t) ms (r, hs) = (r1, hs @ debounced (reader_last r) (map (\<lambda>h. (h, t)) (shown ms))) \<and>
    reader_last r1 = (if shown ms = [] then reader_last r else Some (last (shown ms), t)) \<and>
    r_open r1 = r_open r \<and> r_active r1 = r_active r"
  using assms
proof (induction ms arbitrary: r hs)
  case Nil
  then show ?case by (simp add: shown_def)
next
  case (Cons m ms)
  then have rest: "\<forall>uid. Some uid \<in> set ms \<longrightarrow> length uid \<le> 10" by simp
  show ?case
  proof (cases "\<exists>uid. m = Some uid \<and> uid \<noteq> []")
    case False
    then obtain s1 where "on_frame collect t m (r, hs) = (r\<lparr>r_state := s1\<rparr>, hs)" "shown (m # ms) = shown ms"
    proof (cases m)
      case None
      then show ?thesis using that [of "r_state r"] by (simp add: on_frame_def shown_def)
    next
      case (Some uid)
      then show ?thesis using that [of RFID_IDLE] False by (simp add: on_frame_def shown_def)
    qed
    moreover have "reader_last (r\<lparr>r_state := s1\<rparr>) = reader_last r" by (simp add: reader_last_def)
    moreover obtain r1 where "fold (on_frame collect t) ms (r\<lparr>r_state := s1\<rparr>, hs) =
        (r1, hs @ debounced (reader_last (r\<lparr>r_state := s1\<rparr>)) (map (\<lambda>h. (h, t)) (shown ms)))"
      "reader_last r1 = (if shown ms = [] then reader_last (r\<lparr>r_state := s1\<rparr>) else Some (last (shown ms), t))"
      "r_open r1 = r_open r" "r_active r1 = r_active r"
      using Cons.IH [OF rest, of "r\<lparr>r_state := s1\<rparr>" hs] by auto
    ultimately show ?thesis by (intro exI [of _ r1]) simp
  next
    case True
    then obtain uid where m: "m = Some uid" "uid \<noteq> []" by blast
    then have len: "length uid \<le> 10" using Cons.prems by simp
    let ?r = "r\<lparr>last_seen_ms := t, r_last_uid := uid_hex uid, r_state := RFID_IDLE\<rparr>"
    have ne: "uid_hex uid \<noteq> []" using m(2) length_uid_hex [of uid] by (metis length_0_conv mult_is_0 zero_neq_numeral)
    have f: "on_frame collect t m (r, hs) = (?r, hs @ debounced (reader_last r) [(uid_hex uid, t)])"
      using handled_uid [OF m(2) len] m by (simp add: on_frame_def)
    have s: "shown (m # ms) = uid_hex uid # shown ms" using m by (simp add: shown_def)
    have l: "reader_last ?r = Some (uid_hex uid, t)" using ne by (simp add: reader_last_def)
    have d: "debounced (reader_last r) (map (\<lambda>h. (h, t)) (shown (m # ms))) =
        debounced (reader_last r) [(uid_hex uid, t)] @ debounced (Some (uid_hex uid, t)) (map (\<lambda>h. (h, t)) (shown ms))"
      using debounced_append [of "reader_last r" "[(uid_hex uid, t)]" "map (\<lambda>h. (h, t)) (shown ms)"] by (simp add: s)
    obtain r1 where "fold (on_frame collect t) ms (?r, hs @ debounced (reader_last r) [(uid_hex uid, t)]) =
        (r1, (hs @ debounced (reader_last r) [(uid_hex uid, t)]) @ debounced (reader_last ?r) (map (\<lambda>h. (h, t)) (shown ms)))"
      "reader_last r1 = (if shown ms = [] then reader_last ?r else Some (last (shown ms), t))"
      "r_open r1 = r_open r" "r_active r1 = r_active r"
      using Cons.IH [OF rest, of ?r "hs @ debounced (reader_last r) [(uid_hex uid, t)]"] by auto
    moreover have "last (shown (m # ms)) = (if shown ms = [] then uid_hex uid else last (shown ms))" by (simp add: s)
    ultimately show ?thesis unfolding d l by (intro exI [of _ r1]) (simp add: f s)
  qed
qed

lemma reader_last_keeps [simp]:
  "reader_last (r\<lparr>r_rx := b\<rparr>) = reader_last r" "reader_last (r\<lparr>r_state := x\<rparr>) = reader_last r"
  "reader_last (r\<lparr>last_tx_ms := a\<rparr>) = reader_last r" "reader_last (r\<lparr>last_rx_attempt_ms := a\<rparr>) = reader_last r"
  by (simp_all add: reader_last_def)

lemma tick_frames:
  assumes "r_open r" "r_active r" "[] \<notin> set cs" "length (r_rx r) + length (concat cs) < 128"
    "peel_all card_peel (r_rx r @ concat cs) = (ms, rest, bad)"
  shows "\<exists>d r1 req. rfid_reader_tick collect t cs r hs =
      (d, r1, hs @ debounced (reader_last r) (map (\<lambda>h. (h, t)) (shown ms)), req) \<and>
    reader_last r1 = (if shown ms = [] then reader_last r else Some (last (shown ms), t)) \<and>
    r_rx r1 = rest \<and> r_open r1 \<and> r_active r1"
proof -
  let ?r = "r\<lparr>r_rx := r_rx r @ concat cs\<rparr>"
  have "\<forall>uid. Some uid \<in> set ms \<longrightarrow> length uid \<le> 10" using scanned_uids assms(5) by (metis fst_conv)
  from folded_frames [OF this, of t ?r hs] obtain r1 where
    f: "fold (on_frame collect t) ms (?r, hs) = (r1, hs @ debounced (reader_last r) (map (\<lambda>h. (h, t)) (shown ms)))"
      "reader_last r1 = (if shown ms = [] then reader_last r else Some (last (shown ms), t))" "r_open r1" "r_active r1"
    using assms(1,2) by auto
  have "snd (drain_frames collect t (?r, hs)) =
      (r1\<lparr>r_rx := rest\<rparr>, hs @ debounced (reader_last r) (map (\<lambda>h. (h, t)) (shown ms)))"
    using drain_scan [of collect t ?r hs] assms(5) f(1) by simp
  then obtain d where "drain_frames collect t (?r, hs) =
      (d, r1\<lparr>r_rx := rest\<rparr>, hs @ debounced (reader_last r) (map (\<lambda>h. (h, t)) (shown ms)))" by (metis prod.collapse)
  then show ?thesis using assms(1,2) fill_rx_room [OF assms(4,3)] f(2-4)
    by (simp add: rfid_reader_tick_def Let_def)
qed

lemma run_ticks_collect:
  assumes "ticks_fit (r_rx r) ticks" "r_open r" "r_active r"
  shows "snd (reader_ticks collect ticks (r, hs)) = hs @ debounced (reader_last r) (sightings (r_rx r) ticks)"
  using assms
proof (induction ticks arbitrary: r hs)
  case (Cons tick ticks)
  obtain t cs where tick: "tick = (t, cs)" by (rule prod.exhaust)
  obtain ms rest bad where sc: "peel_all card_peel (r_rx r @ concat cs) = (ms, rest, bad)" by (rule prod_cases3)
  have p: "[] \<notin> set cs" "length (r_rx r) + length (concat cs) < 128" "ticks_fit rest ticks"
    using Cons.prems(1) sc by (simp_all add: tick)
  from tick_frames [OF Cons.prems(2,3) p(1,2) sc, of t hs] obtain d r1 req where
    k: "rfid_reader_tick collect t cs r hs = (d, r1, hs @ debounced (reader_last r) (map (\<lambda>h. (h, t)) (shown ms)), req)"
      "reader_last r1 = (if shown ms = [] then reader_last r else Some (last (shown ms), t))" "r_rx r1 = rest" "r_open r1" "r_active r1"
    by blast
  have "last (map (\<lambda>h. (h, t)) (shown ms)) = (last (shown ms), t)" if "shown ms \<noteq> []" using that by (simp add: last_map)
  then have "debounced (reader_last r) (sightings (r_rx r) (tick # ticks)) =
      debounced (reader_last r) (map (\<lambda>h. (h, t)) (shown ms)) @ debounced (reader_last r1) (sightings rest ticks)"
    using k(2) sc by (simp add: tick debounced_append)
  then show ?case
    using Cons.IH [of r1, OF _ k(4,5)] p(3) k(1,3) by (simp add: tick)
qed simp

lemma shown_append: "shown (xs @ ys) = shown xs @ shown ys"
  by (simp add: shown_def)

lemma sightings_cards:
  assumes "card_peel rest = More"
  shows "map fst (sightings rest ticks) = shown (fst (peel_all card_peel (rest @ concat (concat (map snd ticks)))))"
  using assms
proof (induction ticks arbitrary: rest)
  case Nil
  then show ?case by (simp add: cards.peels_more shown_def)
next
  case (Cons tick ticks)
  obtain t cs where tick: "tick = (t, cs)" by (rule prod.exhaust)
  obtain ms rest1 bad where sc: "peel_all card_peel (rest @ concat cs) = (ms, rest1, bad)" by (rule prod_cases3)
  then have "\<not> bad" using cards_never_bad [of "rest @ concat cs"] by simp
  moreover have "card_peel rest1 = More" using cards.peels_rest [OF sc] calculation by simp
  ultimately show ?case using Cons.IH [of rest1] cards.peels_append [of "rest @ concat cs" "concat (concat (map snd ticks))"] sc
    by (simp add: tick shown_append comp_def case_prod_unfold Let_def)
qed

section \<open>The two-second rule\<close>

text \<open>The rule as the file's head states it, on the sightings of a run: a card is reported unless any earlier sighting
  of the same card is less than two seconds old. \<open>seen\<close> are the sightings so far, the newest first.\<close>

fun spaced :: "(u8 list \<times> int) list \<Rightarrow> (u8 list \<times> int) list \<Rightarrow> u8 list list" where
  "spaced seen [] = []"
| "spaced seen ((h, t) # ss) =
     (if \<exists>(h0, t0) \<in> set seen. h0 = h \<and> t - t0 < 2000 then spaced ((h, t) # seen) ss else h # spaced ((h, t) # seen) ss)"

text \<open>No card comes back within two seconds after another one was seen in between.\<close>

fun no_switch_back :: "(u8 list \<times> int) list \<Rightarrow> (u8 list \<times> int) list \<Rightarrow> bool" where
  "no_switch_back seen [] = True"
| "no_switch_back seen ((h, t) # ss) =
     ((\<forall>(h0, t0) \<in> set seen. h0 = h \<and> t - t0 < 2000 \<longrightarrow> fst (hd seen) = h) \<and> no_switch_back ((h, t) # seen) ss)"

definition last_of :: "(u8 list \<times> int) list \<Rightarrow> (u8 list \<times> int) option" where
  "last_of seen = (case seen of [] \<Rightarrow> None | x # _ \<Rightarrow> Some x)"

lemma debounced_spaced:
  assumes "no_switch_back seen ss" "sorted (map snd ss)" "\<forall>x \<in> set seen. snd x \<le> snd (hd seen)"
    "seen \<noteq> [] \<and> ss \<noteq> [] \<Longrightarrow> snd (hd seen) \<le> snd (hd ss)"
  shows "debounced (last_of seen) ss = spaced seen ss"
  using assms
proof (induction ss arbitrary: seen)
  case (Cons x ss)
  obtain h t where x: "x = (h, t)" by (rule prod.exhaust)
  have older: "\<forall>y \<in> set seen. snd y \<le> t"
    using Cons.prems(3,4) by (cases seen) (fastforce simp: x)+
  have ih: "debounced (Some (h, t)) ss = spaced ((h, t) # seen) ss"
    using Cons.IH [of "(h, t) # seen"] Cons.prems(1,2) older by (cases ss) (auto simp: x last_of_def)
  have "(\<exists>(h0, t0) \<in> set seen. h0 = h \<and> t - t0 < 2000) \<longleftrightarrow>
      \<not> (case last_of seen of None \<Rightarrow> True | Some (h0, t0) \<Rightarrow> h \<noteq> h0 \<or> t - t0 \<ge> DEBOUNCE_MS)"
  proof (cases seen)
    case Nil
    then show ?thesis by (simp add: last_of_def)
  next
    case (Cons y ys)
    obtain h1 t1 where y: "y = (h1, t1)" by (rule prod.exhaust)
    have "h1 = h \<and> t - t1 < 2000" if "(h0, t0) \<in> set seen" "h0 = h" "t - t0 < 2000" for h0 t0
    proof -
      have "h1 = h" using Cons.prems(1) that by (fastforce simp: x Cons y)
      moreover have "t0 \<le> t1" using Cons.prems(3) that(1) by (fastforce simp: Cons y)
      ultimately show ?thesis using that(3) by simp
    qed
    then show ?thesis by (fastforce simp: Cons y last_of_def)
  qed
  then show ?case using ih by (simp add: x)
qed simp

lemma shown_times: "x \<in> set (sightings rest ticks) \<Longrightarrow> snd x \<in> set (map fst ticks)"
proof (induction ticks arbitrary: rest)
  case (Cons tick ticks)
  obtain t cs where tick: "tick = (t, cs)" by (rule prod.exhaust)
  obtain ms rest1 bad where p: "peel_all card_peel (rest @ concat cs) = (ms, rest1, bad)" by (rule prod_cases3)
  then have "snd x = t \<or> x \<in> set (sightings rest1 ticks)" using Cons.prems by (auto simp: tick)
  with Cons.IH [of rest1] show ?case by (auto simp: tick)
qed simp

lemma sightings_sorted: "sorted (map fst ticks) \<Longrightarrow> sorted (map snd (sightings rest ticks))"
proof (induction ticks arbitrary: rest)
  case (Cons tick ticks)
  obtain t cs where tick: "tick = (t, cs)" by (rule prod.exhaust)
  obtain ms rest1 bad where p: "peel_all card_peel (rest @ concat cs) = (ms, rest1, bad)" by (rule prod_cases3)
  have later: "\<forall>u \<in> set (map fst ticks). t \<le> u" using Cons.prems by (simp add: tick)
  have "t \<le> snd x" if "x \<in> set (sightings rest1 ticks)" for x using later shown_times [OF that] by blast
  moreover have "sorted (map snd (sightings rest1 ticks))" using Cons by (simp add: tick)
  moreover have "sorted (map snd (map (\<lambda>h. (h, t)) hs))" for hs :: "u8 list list" by (induction hs) simp_all
  ultimately show ?case using p by (auto simp: tick sorted_append)
qed simp

lemma debounced_runs:
  "sorted (map fst ticks) \<Longrightarrow> no_switch_back [] (sightings [] ticks) \<Longrightarrow>
     debounced None (sightings [] ticks) = spaced [] (sightings [] ticks)"
  using debounced_spaced [of "[]" "sightings [] ticks"] sightings_sorted by (simp add: last_of_def)

end
