(* ===== verification/Bridge_Run.thy ===== *)
theory Bridge_Run
  imports Broker_View Card_Reader
begin

text \<open>
  The main loop of the companion daemon, \<^verbatim>\<open>companion/src/main.c\<close>, and its back-off. Everything
  the loop asks the outside world for during one turn is a record: the clock, the answers of the
  sockets and of the reader's port, and the contents that the other processes have left in the
  segment. The web server's turn and the shell-out of the set-up are left out; what the web server writes to the
  segment is among what the other processes leave there.
\<close>

definition backoff_next :: "int \<Rightarrow> int" where
  "backoff_next cur_s = (let n = (if cur_s < 1 then 1 else cur_s * 2) in if n > 60 then 60 else n)"

record bridge =
  br_adapter :: adapter_ctx
  br_sock :: sock
  adapter_up :: bool
  br_prev :: charger_state
  br_bo :: int
  next_broker_retry :: int
  br_shm :: shmem
  br_reader :: "rfid_reader option"

record turn =
  t_time :: int
  t_time_after :: int
  t_tcp :: bool
  t_first :: recv_answer
  t_sends :: "send_answer list"
  t_cells :: "nat \<Rightarrow> u8"
  t_tick_ms :: int
  t_tick_cells :: "nat \<Rightarrow> u8"
  t_recv :: "recv_answer list"
  t_card_ms :: int
  t_card_rx :: "u8 list list"
  t_scan_ms :: int

text \<open>The state of the loop at its start.\<close>

definition bridge_start ::
  "u8 list \<Rightarrow> u8 list \<Rightarrow> u8 list \<Rightarrow> u8 list \<Rightarrow> bool \<Rightarrow> bool \<Rightarrow> bool \<Rightarrow> (nat \<Rightarrow> u8) \<Rightarrow> bridge" where
  "bridge_start topic_prefix device_id user pass write_enable rfid_enable reader_port cells =
     \<lparr>br_adapter = mqtt_adapter_create topic_prefix (if device_id = [] then ascii ''evmu30'' else device_id)
        (if user = [] then None else Some user) (if pass = [] then None else Some pass) write_enable rfid_enable,
      br_sock = \<lparr>sends = [], wire = []\<rparr>, adapter_up = False, br_prev = charger_state_init, br_bo = 0, next_broker_retry = 0,
      br_shm = snd (if write_enable then shmem_attach_rw (Some cells) else shmem_attach (Some cells)),
      br_reader = (if rfid_enable then rfid_reader_start reader_port else None)\<rparr>"

text \<open>The segment as the other processes have left it.\<close>

definition left_by_others :: "(nat \<Rightarrow> u8) \<Rightarrow> shmem \<Rightarrow> shmem" where
  "left_by_others cells sm = (case sm_base sm of None \<Rightarrow> sm | Some _ \<Rightarrow> sm\<lparr>sm_base := Some cells\<rparr>)"

text \<open>2. Connect again when the back-off has run out.\<close>

definition bridge_connect :: "turn \<Rightarrow> bridge \<Rightarrow> bridge" where
  "bridge_connect t b =
     (if \<not> adapter_up b \<and> t_time t \<ge> next_broker_retry b
      then let (rc, a, s) = nb_init (t_tcp t) (t_first t) (br_adapter b) \<lparr>sends = t_sends t, wire = []\<rparr>
           in if rc = 0
              then b\<lparr>br_adapter := a, br_sock := s, adapter_up := True, br_bo := 0, br_prev := charger_state_init\<rparr>
              else let bo = backoff_next (br_bo b)
                   in b\<lparr>br_adapter := a, br_sock := s, br_bo := bo, next_broker_retry := t_time_after t + bo\<rparr>
      else b)"

text \<open>3. Publish what changed.\<close>

definition bridge_publish :: "turn \<Rightarrow> bridge \<Rightarrow> bridge" where
  "bridge_publish t b =
     (if adapter_up b
      then let sm = left_by_others (t_cells t) (br_shm b);
               cur = charger_state_read sm;
               dirty = charger_state_diff (br_prev b) cur;
               full = (cs_pilot_state (br_prev b) = PILOT_UNKNOWN \<and> voltage_v (br_prev b) = 0 \<and> current_a (br_prev b) = 0);
               (rc, a, s) = (if full \<or> dirty \<noteq> 0 then nb_publish_state cur dirty full (br_adapter b) (br_sock b)
                             else (0, br_adapter b, br_sock b));
               b1 = b\<lparr>br_adapter := a, br_sock := s, br_shm := sm\<rparr>
           in if rc \<noteq> 0 then b1\<lparr>adapter_up := False\<rparr> else b1\<lparr>br_prev := cur\<rparr>
      else b)"

text \<open>4. Keep the connection; commands of the broker are served here.\<close>

definition bridge_serve :: "turn \<Rightarrow> bridge \<Rightarrow> bridge" where
  "bridge_serve t b =
     (if adapter_up b
      then let sm = left_by_others (t_tick_cells t) (br_shm b);
               (rc, a, shm, s) = nb_tick (t_tick_ms t) (t_recv t) (br_adapter b)
                                   (if a_write (br_adapter b) then Some sm else None) (br_sock b);
               b1 = b\<lparr>br_adapter := a, br_sock := s, br_shm := (case shm of None \<Rightarrow> sm | Some sm1 \<Rightarrow> sm1)\<rparr>
           in if rc \<noteq> 0 then b1\<lparr>adapter_up := False\<rparr> else b1
      else b)"

text \<open>6. The card reader; a scan goes to the adapter.\<close>

definition on_rfid_scan :: "int \<Rightarrow> u8 list \<Rightarrow> adapter_ctx \<times> sock \<Rightarrow> adapter_ctx \<times> sock" where
  "on_rfid_scan now_ms uid as = mqtt_adapter_on_rfid_scan uid now_ms (fst as) (snd as)"

definition bridge_cards :: "turn \<Rightarrow> bridge \<Rightarrow> bridge" where
  "bridge_cards t b =
     (case br_reader b of None \<Rightarrow> b
      | Some r \<Rightarrow>
          let (d, r1, (a, s), req) = rfid_reader_tick (on_rfid_scan (t_scan_ms t)) (t_card_ms t) (t_card_rx t) r (br_adapter b, br_sock b)
          in b\<lparr>br_reader := Some r1, br_adapter := a, br_sock := s\<rparr>)"

definition bridge_turn :: "turn \<Rightarrow> bridge \<Rightarrow> bridge" where
  "bridge_turn t b = bridge_cards t (bridge_serve t (bridge_publish t (bridge_connect t b)))"

text \<open>7. The end of the loop.\<close>

definition bridge_stop :: "bridge \<Rightarrow> bridge" where
  "bridge_stop b =
     (let (a, s) = nb_shutdown (br_adapter b) (br_sock b)
      in b\<lparr>br_adapter := a, br_sock := s, br_reader := map_option rfid_reader_stop (br_reader b),
           br_shm := shmem_release (br_shm b)\<rparr>)"

section \<open>The segment and the topics do not change hands\<close>

definition same_topics :: "adapter_ctx \<Rightarrow> adapter_ctx \<Rightarrow> bool" where
  "same_topics a a1 \<longleftrightarrow> a_prefix a1 = a_prefix a \<and> a_device a1 = a_device a \<and> a_write a1 = a_write a \<and>
     a_user a1 = a_user a \<and> a_pass a1 = a_pass a \<and> availability_topic a1 = availability_topic a \<and> cmd_prefix a1 = cmd_prefix a"

lemma same_topics_refl [simp]: "same_topics a a"
  by (simp add: same_topics_def)

lemma same_topics_state: "same_topics a a1 \<Longrightarrow> state_topic a1 f = state_topic a f"
  by (simp add: same_topics_def state_topic_def)

lemma same_topics_adapter:
  "same_topics a (fst (snd (nb_init tcp first a s)))"
  "same_topics a (fst (snd (nb_publish_state cs dirty full a s)))"
  "same_topics a (fst (snd (nb_tick now_ms answers a shm s)))"
  "same_topics a (fst (mqtt_adapter_on_rfid_scan uid now_ms a s))"
  by (simp_all add: same_topics_def nb_init_def nb_publish_state_def nb_tick_def mqtt_adapter_on_rfid_scan_def
      Let_def case_prod_unfold)

section \<open>Back-off\<close>

lemma backoff_range: "0 \<le> bo \<Longrightarrow> 1 \<le> backoff_next bo \<and> backoff_next bo \<le> 60"
  by (simp add: backoff_next_def Let_def)

section \<open>The callback of the reader\<close>

text \<open>What every scan keeps, a tick of the reader keeps.\<close>

lemma drain_keeps:
  assumes "\<And>h u. P u \<Longrightarrow> P (cb h u)" "P u"
  shows "P (snd (snd (drain_frames cb t (r, u))))"
proof -
  have h: "P (snd (handle_uid cb uid t (r, u)))" if "P u" for uid r u
    using that assms(1) by (simp add: handle_uid_def Let_def split: option.split)
  have o: "P (snd (on_frame cb t m ru))" if "P (snd ru)" for m ru
    using that h [of "snd ru" _ "fst ru"] by (simp add: on_frame_def Let_def case_prod_unfold split: option.split)
  have "P (snd (fold (on_frame cb t) ms ru))" if "P (snd ru)" for ms ru
    using that by (induction ms arbitrary: ru) (simp_all add: o)
  then show ?thesis using assms(2) by (simp add: drain_scan Let_def case_prod_unfold)
qed

lemma reader_keeps:
  assumes "\<And>h u. P u \<Longrightarrow> P (cb h u)" "P u"
  shows "P (fst (snd (snd (rfid_reader_tick cb t cs r u))))"
  using drain_keeps [of P cb u t "r\<lparr>r_rx := fill_rx cs (r_rx r)\<rparr>", OF assms] assms(2)
  by (simp add: rfid_reader_tick_def Let_def case_prod_unfold)

section \<open>The segment\<close>

text \<open>What every message keeps, a tick of the client keeps.\<close>

lemma client_tick_keeps:
  assumes "\<And>topic payload u. P u \<Longrightarrow> P (cb topic payload u)" "P u"
  shows "P (fst (snd (snd (mqtt_client_tick cb now_ms answers c u s))))"
proof -
  have e: "P (run_cb cb ev u)" if "P u" for ev u using that assms(1) by (simp add: run_cb_def split: mqtt_event.split)
  have "P (fold (run_cb cb) evs u)" if "P u" for evs u
    using that by (induction evs arbitrary: u) (simp_all add: e)
  then show ?thesis using assms(2)
    by (simp add: mqtt_client_tick_def consume_scan Let_def case_prod_unfold split: drained.split)
qed

lemma tick_segment:
  "nb_tick now_ms answers a None s = (rc, a1, shm1, s1) \<Longrightarrow> shm1 = None"
  "nb_tick now_ms answers a (Some m) s = (rc, a1, shm1, s1) \<Longrightarrow> \<exists>m1. shm1 = Some m1 \<and> command_write m m1"
proof -
  have "fst (snd (snd (mqtt_client_tick on_command now_ms answers (a_client a) None s))) = None"
    by (rule client_tick_keeps [where P = "\<lambda>u. u = None"]) (simp_all add: command_segment(1))
  then show "shm1 = None" if "nb_tick now_ms answers a None s = (rc, a1, shm1, s1)"
    using that by (auto simp: nb_tick_def Let_def case_prod_unfold prod_eq_iff)
  have "\<exists>m1. fst (snd (snd (mqtt_client_tick on_command now_ms answers (a_client a) (Some m) s))) = Some m1 \<and> command_write m m1"
  proof (rule client_tick_keeps [where P = "\<lambda>u. \<exists>m1. u = Some m1 \<and> command_write m m1"])
    fix topic payload and u :: "shmem option"
    assume "\<exists>m1. u = Some m1 \<and> command_write m m1"
    then obtain m1 where m1: "u = Some m1" "command_write m m1" by blast
    obtain m2 where "on_command topic payload (Some m1) = Some m2" "command_write m1 m2" using command_segment(2) by blast
    then show "\<exists>m2. on_command topic payload u = Some m2 \<and> command_write m m2" using m1 command_write_trans by blast
  qed (simp add: command_write_refl)
  then show "\<exists>m1. shm1 = Some m1 \<and> command_write m m1" if "nb_tick now_ms answers a (Some m) s = (rc, a1, shm1, s1)"
    using that by (auto simp: nb_tick_def Let_def case_prod_unfold prod_eq_iff)
qed

definition attached :: "bool \<Rightarrow> shmem \<Rightarrow> bool" where
  "attached wr m \<longleftrightarrow> sm_base m \<noteq> None \<and> sm_size m = SHMEM_SIZE \<and> sm_writable m = wr"

lemma left_by_others_eq: "attached wr m \<Longrightarrow> left_by_others cells m = \<lparr>sm_base = Some cells, sm_size = SHMEM_SIZE, sm_writable = wr\<rparr>"
  by (auto simp: attached_def left_by_others_def)

lemma turn_segment:
  assumes "attached wr (br_shm b)"
  shows "attached wr (br_shm (bridge_turn t b))" "br_shm (bridge_connect t b) = br_shm b"
proof -
  show c: "br_shm (bridge_connect t b) = br_shm b" by (simp add: bridge_connect_def Let_def case_prod_unfold)
  have others: "attached wr (left_by_others cells m)" if "attached wr m" for cells m
    using that by (simp add: left_by_others_eq) (simp add: attached_def)
  have p: "attached wr (br_shm (bridge_publish t b))" if "attached wr (br_shm b)" for b
    using that others by (simp add: bridge_publish_def Let_def case_prod_unfold)
  have s: "attached wr (br_shm (bridge_serve t b))" if a: "attached wr (br_shm b)" for b
  proof -
    let ?sm = "left_by_others (t_tick_cells t) (br_shm b)"
    obtain rc a1 shm s1 where k: "nb_tick (t_tick_ms t) (t_recv t) (br_adapter b) (if a_write (br_adapter b) then Some ?sm else None)
        (br_sock b) = (rc, a1, shm, s1)" by (rule prod_cases4)
    have "attached wr (case shm of None \<Rightarrow> ?sm | Some m1 \<Rightarrow> m1)"
    proof (cases "a_write (br_adapter b)")
      case True
      then obtain m1 where "shm = Some m1" "command_write ?sm m1" using k tick_segment(2) by (simp only: if_True) blast
      then show ?thesis using others [OF a, of "t_tick_cells t"] by (simp add: attached_def command_write_def)
    next
      case False
      then have "shm = None" using k tick_segment(1) by (simp only: if_False)
      then show ?thesis using others [OF a] by simp
    qed
    then show ?thesis using k a by (simp add: bridge_serve_def Let_def)
  qed
  have k: "br_shm (bridge_cards t b) = br_shm b" for b
    by (simp add: bridge_cards_def case_prod_unfold Let_def split: option.split)
  show "attached wr (br_shm (bridge_turn t b))"
    unfolding bridge_turn_def k by (intro s p) (simp add: c assms)
qed

lemma turns_segment: "attached wr (br_shm b) \<Longrightarrow> attached wr (br_shm (fold bridge_turn ts b))"
  by (induction ts arbitrary: b) (simp_all add: turn_segment(1))

lemma start_segment: "attached wr (br_shm (bridge_start pref dev user pass wr rf port cells))"
  by (simp add: bridge_start_def attached_def shmem_attach_rw_def shmem_attach_def attach_with_flags_def)

section \<open>What every turn keeps\<close>

lemma same_topics_trans: "same_topics a a1 \<Longrightarrow> same_topics a1 a2 \<Longrightarrow> same_topics a a2"
  by (simp add: same_topics_def)

lemma turn_same: "same_topics (br_adapter b) (br_adapter (bridge_turn t b))"
proof -
  have c: "same_topics (br_adapter b) (br_adapter (bridge_connect t b))" for b
    using same_topics_adapter(1) [of "br_adapter b" "t_tcp t" "t_first t" "\<lparr>sends = t_sends t, wire = []\<rparr>"]
    by (simp add: bridge_connect_def Let_def case_prod_unfold)
  have p: "same_topics (br_adapter b) (br_adapter (bridge_publish t b))" for b
    using same_topics_adapter(2) [of "br_adapter b" _ _ _ "br_sock b"] by (simp add: bridge_publish_def Let_def case_prod_unfold)
  have s: "same_topics (br_adapter b) (br_adapter (bridge_serve t b))" for b
    using same_topics_adapter(3) [of "br_adapter b" "t_tick_ms t" "t_recv t" _ "br_sock b"]
    by (simp add: bridge_serve_def Let_def case_prod_unfold)
  have k: "same_topics (br_adapter b) (br_adapter (bridge_cards t b))" for b
  proof (cases "br_reader b")
    case (Some r)
    let ?P = "\<lambda>as. same_topics (br_adapter b) (fst as)"
    have step: "?P (on_rfid_scan (t_scan_ms t) h as)" if "?P as" for h as
      using that same_topics_adapter(4) [of "fst as" h "t_scan_ms t" "snd as"] same_topics_trans
      by (simp add: on_rfid_scan_def)
    have base: "?P (br_adapter b, br_sock b)" by simp
    show ?thesis
      using reader_keeps [of ?P "on_rfid_scan (t_scan_ms t)" "(br_adapter b, br_sock b)" "t_card_ms t" "t_card_rx t" r, OF step base] Some
      by (simp add: bridge_cards_def Let_def case_prod_unfold)
  qed (simp add: bridge_cards_def)
  show ?thesis unfolding bridge_turn_def by (rule same_topics_trans [OF c same_topics_trans [OF p same_topics_trans [OF s k]]])
qed

lemma step_frames:
  "br_bo (bridge_publish t b) = br_bo b" "next_broker_retry (bridge_publish t b) = next_broker_retry b" "br_reader (bridge_publish t b) = br_reader b"
  "br_bo (bridge_serve t b) = br_bo b" "next_broker_retry (bridge_serve t b) = next_broker_retry b" "br_reader (bridge_serve t b) = br_reader b"
  "br_bo (bridge_cards t b) = br_bo b" "next_broker_retry (bridge_cards t b) = next_broker_retry b"
  "br_reader (bridge_connect t b) = br_reader b"
proof -
  show "br_bo (bridge_publish t b) = br_bo b" "next_broker_retry (bridge_publish t b) = next_broker_retry b" "br_reader (bridge_publish t b) = br_reader b"
    by (simp_all add: bridge_publish_def Let_def split: prod.split)
  show "br_bo (bridge_serve t b) = br_bo b" "next_broker_retry (bridge_serve t b) = next_broker_retry b" "br_reader (bridge_serve t b) = br_reader b"
    by (simp_all add: bridge_serve_def Let_def split: prod.split)
  show "br_bo (bridge_cards t b) = br_bo b" "next_broker_retry (bridge_cards t b) = next_broker_retry b"
    by (simp_all add: bridge_cards_def Let_def split: prod.split option.split)
  show "br_reader (bridge_connect t b) = br_reader b"
    by (simp add: bridge_connect_def Let_def split: prod.split)
qed

lemma turn_no_reader: "br_reader b = None \<Longrightarrow> br_reader (bridge_turn t b) = None"
  by (simp add: bridge_turn_def bridge_cards_def step_frames)

lemma turns_same:
  "same_topics (br_adapter b) (br_adapter (fold bridge_turn ts b))"
  "br_reader b = None \<Longrightarrow> br_reader (fold bridge_turn ts b) = None"
proof -
  show "same_topics (br_adapter b) (br_adapter (fold bridge_turn ts b))"
  proof (induction ts arbitrary: b)
    case (Cons t ts)
    show ?case using same_topics_trans [OF turn_same [of b t] Cons] by simp
  qed simp
  show "br_reader (fold bridge_turn ts b) = None" if "br_reader b = None"
    using that by (induction ts arbitrary: b) (simp_all add: turn_no_reader)
qed

lemma turn_retry:
  assumes "0 \<le> br_bo b" "next_broker_retry b \<le> m + 60" "t_time_after t \<le> m"
  shows "0 \<le> br_bo (bridge_turn t b)" "next_broker_retry (bridge_turn t b) \<le> m + 60"
proof -
  have c: "0 \<le> br_bo (bridge_connect t b)" "next_broker_retry (bridge_connect t b) \<le> m + 60"
    using assms backoff_range [OF assms(1)] by (auto simp: bridge_connect_def Let_def case_prod_unfold)
  have o: "br_bo (bridge_cards t (bridge_serve t (bridge_publish t b))) = br_bo b"
    "next_broker_retry (bridge_cards t (bridge_serve t (bridge_publish t b))) = next_broker_retry b" for b
    by (simp_all add: step_frames)
  show "0 \<le> br_bo (bridge_turn t b)" "next_broker_retry (bridge_turn t b) \<le> m + 60"
    unfolding bridge_turn_def o using c by simp_all
qed

lemma turns_retry:
  "\<forall>t \<in> set ts. t_time_after t \<le> m \<Longrightarrow> 0 \<le> br_bo b \<Longrightarrow> next_broker_retry b \<le> m + 60 \<Longrightarrow>
     next_broker_retry (fold bridge_turn ts b) \<le> m + 60"
  by (induction ts arbitrary: b) (simp_all add: turn_retry)

end
