(* ===== verification/Broker_Mirror.thy ===== *)
theory Broker_Mirror
  imports Bridge_Run
begin

text \<open>
  What the broker holds against what the daemon read: the invariant of the main loop. \<open>mirrors\<close> says
  that the last message on the topic of every integer field is its printed value. The three measured values
  are not among them, since the daemon compares them with a tolerance.
\<close>

definition exact_fields :: "(u32 \<times> string \<times> (charger_state \<Rightarrow> u8 list)) list" where
  "exact_fields = drop 3 state_fields"

definition mirrors :: "adapter_ctx \<Rightarrow> charger_state \<Rightarrow> sock \<Rightarrow> bool" where
  "mirrors a cs s \<longleftrightarrow>
     (\<forall>(b, f, r) \<in> set exact_fields. latest (wire s) (state_topic a f) = Some (fit 384 (r cs)))"

text \<open>The topics are short enough for the buffers of the adapter, so that none is cut off.\<close>

definition topics_fit :: "adapter_ctx \<Rightarrow> bool" where
  "topics_fit a \<longleftrightarrow> length (a_prefix a) + length (a_device a) \<le> 142"

definition field_names :: "string list" where
  "field_names = [''voltage'', ''current'', ''power'', ''pilot_duty'', ''rated_amps'', ''pilot_state'', ''pri_state'', ''user_state'',
     ''red_led'', ''stm32_link_ok'', ''active_faults'', ''authorize_state'', ''rfid/last_uid'', ''rfid/scan_event'']"

lemma names_differ: "distinct (map ascii field_names)" "\<forall>f \<in> set field_names. length f \<le> 15"
  by code_simp+

lemma topic_cut:
  assumes "topics_fit a" "length f \<le> 15"
  shows "state_topic a f = a_prefix a @ ascii ''/'' @ a_device a @ ascii ''/'' @ ascii f"
  using assms by (simp add: state_topic_def topics_fit_def ascii_def)

lemma topics_differ: "topics_fit a \<Longrightarrow> distinct (map (state_topic a) field_names)"
proof -
  assume fit: "topics_fit a"
  let ?t = "\<lambda>x. a_prefix a @ ascii ''/'' @ a_device a @ ascii ''/'' @ x"
  have "map (state_topic a) field_names = map ?t (map ascii field_names)"
    using topic_cut [OF fit] names_differ(2) by simp
  moreover have "inj_on ?t (set (map ascii field_names))" by (simp add: inj_on_def)
  ultimately show ?thesis using names_differ(1) by (simp only: distinct_map)
qed

lemma state_names: "map (\<lambda>(b, f, r). f) state_fields = take 12 field_names"
  by (simp add: state_fields_def field_names_def)

lemma state_topics_differ:
  assumes "topics_fit a"
  shows "distinct (map (\<lambda>(b, f, r). state_topic a f) state_fields)"
    "(b, f, r) \<in> set state_fields \<Longrightarrow> state_topic a f \<noteq> state_topic a ''rfid/last_uid''"
    "(b, f, r) \<in> set state_fields \<Longrightarrow> state_topic a f \<noteq> state_topic a ''rfid/scan_event''"
proof -
  let ?ts = "map (state_topic a) field_names"
  have split: "field_names = take 12 field_names @ [''rfid/last_uid'', ''rfid/scan_event'']" by (simp add: field_names_def)
  have d: "distinct (map (state_topic a) (take 12 field_names @ [''rfid/last_uid'', ''rfid/scan_event'']))"
    using topics_differ [OF assms] split by simp
  have eq: "map (\<lambda>(b, f, r). state_topic a f) state_fields = map (state_topic a) (take 12 field_names)"
    unfolding state_names [symmetric] by (simp add: case_prod_unfold)
  show "distinct (map (\<lambda>(b, f, r). state_topic a f) state_fields)" using d unfolding eq by simp
  assume "(b, f, r) \<in> set state_fields"
  then have "f \<in> set (take 12 field_names)" unfolding state_names [symmetric] by force
  then have at: "state_topic a f \<in> state_topic a ` set (take 12 field_names)" by (rule imageI)
  have "state_topic a ''rfid/last_uid'' \<notin> state_topic a ` set (take 12 field_names)"
    "state_topic a ''rfid/scan_event'' \<notin> state_topic a ` set (take 12 field_names)" using d by simp_all
  then show "state_topic a f \<noteq> state_topic a ''rfid/last_uid''" "state_topic a f \<noteq> state_topic a ''rfid/scan_event''"
    using at by metis+
qed

section \<open>A turn keeps the mirror\<close>

definition mirror_ok :: "adapter_ctx \<Rightarrow> charger_state \<Rightarrow> sock \<Rightarrow> bool" where
  "mirror_ok a cs s \<longleftrightarrow> link_whole (a_client a) s \<and> (fd_open (a_client a) \<longrightarrow> mirrors a cs s)"

lemma mirrors_topics: "same_topics a a1 \<Longrightarrow> mirrors a1 cs s = mirrors a cs s"
  by (simp add: mirrors_def same_topics_state)

lemma exact_unchanged:
  assumes "(b, f, r) \<in> set exact_fields" "charger_state_diff p c AND b = 0"
  shows "r c = r p"
  using assms unfolding exact_fields_def state_fields_def flags_eq
  by (auto simp: and_flag diff_bits)

lemma publish_mirrors:
  assumes "nb_publish_state c (charger_state_diff p c) full a s = (0, a1, s1)" "link_whole (a_client a) s" "topics_fit a"
    "full \<or> (fd_open (a_client a) \<longrightarrow> mirrors a p s)"
  shows "mirror_ok a1 c s1"
proof -
  note d = state_topics_differ(1) [OF assms(3)]
  from publish_state [OF assms(1,2) d]
  have p: "a1 = a" "link_whole (a_client a) s1"
    "\<forall>(b, f, r) \<in> set state_fields. full \<or> charger_state_diff p c AND b \<noteq> 0 \<longrightarrow> latest (wire s1) (state_topic a f) = Some (fit 384 (r c))"
    "\<not> full \<longrightarrow> (\<forall>(b, f, r) \<in> set state_fields. charger_state_diff p c AND b = 0 \<longrightarrow>
       latest (wire s1) (state_topic a f) = latest (wire s) (state_topic a f))"
    by blast+
  have "latest (wire s1) (state_topic a f) = Some (fit 384 (r c))"
    if "fd_open (a_client a)" and m: "(b, f, r) \<in> set exact_fields" for b f r
  proof (cases "full \<or> charger_state_diff p c AND b \<noteq> 0")
    case True
    have "(b, f, r) \<in> set state_fields" using m by (simp add: exact_fields_def in_set_dropD)
    then show ?thesis using bspec [OF p(3)] True by auto
  next
    case False
    have "(b, f, r) \<in> set state_fields" using m by (simp add: exact_fields_def in_set_dropD)
    then have "latest (wire s1) (state_topic a f) = latest (wire s) (state_topic a f)" using p(4) False by auto
    moreover have "latest (wire s) (state_topic a f) = Some (fit 384 (r p))"
      using assms(4) False that by (auto simp: mirrors_def)
    moreover have "r c = r p" using False by (intro exact_unchanged [OF m]) simp
    ultimately show ?thesis by simp
  qed
  then show ?thesis using p(1,2) by (auto simp: mirror_ok_def mirrors_def)
qed

lemma tick_mirrors:
  assumes "nb_tick now_ms answers a shm s = (0, a1, shm1, s1)" "mirror_ok a c s"
  shows "mirror_ok a1 c s1"
proof -
  obtain c1 where k: "mqtt_client_tick on_command now_ms answers (a_client a) shm s = (0, c1, shm1, s1)" "a1 = a\<lparr>a_client := c1\<rparr>"
    using assms(1) by (auto simp: nb_tick_def Let_def case_prod_unfold prod_eq_iff)
  have up: "fd_open (a_client a)" using k(1) by (auto simp: mqtt_client_tick_def split: if_splits)
  have "link_whole (a_client a) s" using assms(2) by (simp add: mirror_ok_def)
  from tick_whole [OF k(1) this] have t: "link_whole c1 s1" "latest (wire s1) = latest (wire s)" by blast+
  have "mirrors a1 c s1 = mirrors a c s" unfolding k(2) mirrors_def t(2) by (simp add: state_topic_def)
  then show ?thesis using t(1) up assms(2) k(2) by (simp add: mirror_ok_def)
qed

lemma publish_aside:
  assumes "mqtt_client_publish topic payload retain (a_client a) s = (rc, c1, s1)" "mirror_ok a c s"
    "\<forall>(b, f, r) \<in> set exact_fields. state_topic a f \<noteq> topic"
  shows "mirror_ok (a\<lparr>a_client := c1\<rparr>) c s1"
proof -
  have w: "link_whole (a_client a) s" using assms(2) by (simp add: mirror_ok_def)
  note p = publish_whole [OF assms(1) w]
  have "mirrors (a\<lparr>a_client := c1\<rparr>) c s1" if "fd_open c1"
  proof -
    have "mirrors a c s" using assms(2) p(2) [OF that] by (simp add: mirror_ok_def)
    moreover have "\<forall>(b, f, r) \<in> set exact_fields. latest (wire s1) (state_topic a f) = latest (wire s) (state_topic a f)"
      using assms(3) p(4) [OF that] by fastforce
    ultimately show ?thesis by (fastforce simp: mirrors_def state_topic_def)
  qed
  then show ?thesis using p(1) by (simp add: mirror_ok_def)
qed

lemma scan_mirrors:
  assumes "mirror_ok a c s" "topics_fit a"
  shows "mirror_ok (fst (mqtt_adapter_on_rfid_scan uid now_ms a s)) c (snd (mqtt_adapter_on_rfid_scan uid now_ms a s))"
proof -
  have aside: "\<forall>(b, f, r) \<in> set exact_fields. state_topic a f \<noteq> state_topic a ''rfid/last_uid''"
    "\<forall>(b, f, r) \<in> set exact_fields. state_topic a f \<noteq> state_topic a ''rfid/scan_event''"
    using state_topics_differ(2,3) [OF assms(2)] by (auto simp: exact_fields_def dest!: in_set_dropD)
  let ?a = "a\<lparr>a_last_uid := fit 32 uid, a_last_scan_ms := now_ms\<rparr>"
  have same: "mirror_ok (a1\<lparr>a_last_uid := x, a_last_scan_ms := y\<rparr>) c s1 = mirror_ok a1 c s1" for a1 s1 x y
    by (simp add: mirror_ok_def mirrors_def state_topic_def)
  have topic: "state_topic (a1\<lparr>a_last_uid := x, a_last_scan_ms := y\<rparr>) f = state_topic a1 f" for a1 x y f
    by (simp add: state_topic_def)
  have client: "state_topic (a1\<lparr>a_client := x\<rparr>) f = state_topic a1 f" for a1 x f by (simp add: state_topic_def)
  show ?thesis
  proof (cases "\<not> a_connected a \<or> uid = []")
    case True
    then show ?thesis using assms(1) by (auto simp: mqtt_adapter_on_rfid_scan_def same)
  next
    case False
    obtain rc1 c1 s1 where p1: "mqtt_client_publish (state_topic a ''rfid/last_uid'') uid True (a_client a) s = (rc1, c1, s1)"
      by (rule prod_cases3)
    have k1: "mirror_ok (a\<lparr>a_client := c1\<rparr>) c s1" by (rule publish_aside [OF p1 assms(1) aside(1)])
    let ?payload = "ascii ''{\"event_type\":\"card_scanned\",\"uid\":\"'' @ uid @ ascii ''\"}''"
    obtain rc2 c2 s2 where p2: "mqtt_client_publish (state_topic a ''rfid/scan_event'') ?payload False c1 s1 = (rc2, c2, s2)"
      by (rule prod_cases3)
    have "mirror_ok ((a\<lparr>a_client := c1\<rparr>)\<lparr>a_client := c2\<rparr>) c s2"
      by (rule publish_aside [where topic = "state_topic a ''rfid/scan_event''"]) (use p2 k1 aside(2) client in simp_all)
    then have k2: "mirror_ok (a\<lparr>a_client := c2\<rparr>) c s2" by simp
    have "mirror_ok (?a\<lparr>a_client := c1\<rparr>) c s1" "mirror_ok (?a\<lparr>a_client := c2\<rparr>) c s2"
      using k1 k2 by (simp_all add: mirror_ok_def mirrors_def state_topic_def)
    then show ?thesis using False p1 p2 by (auto simp: mqtt_adapter_on_rfid_scan_def topic Let_def)
  qed
qed

section \<open>The invariant of the loop\<close>

definition bridge_ok :: "bridge \<Rightarrow> bool" where
  "bridge_ok b \<longleftrightarrow> topics_fit (br_adapter b) \<and> (adapter_up b \<longrightarrow> mirror_ok (br_adapter b) (br_prev b) (br_sock b))"

lemma topics_fit_same: "same_topics a a1 \<Longrightarrow> topics_fit a1 = topics_fit a"
  by (simp add: same_topics_def topics_fit_def)

text \<open>After the connection step the mirror holds, or everything is about to be published.\<close>

lemma connect_ok:
  assumes "bridge_ok b" "bridge_connect t b = b1"
  shows "topics_fit (br_adapter b1) \<and> (adapter_up b1 \<longrightarrow> mirror_ok (br_adapter b1) (br_prev b1) (br_sock b1) \<or>
    link_whole (a_client (br_adapter b1)) (br_sock b1) \<and> br_prev b1 = charger_state_init)"
proof (cases "\<not> adapter_up b \<and> t_time t \<ge> next_broker_retry b")
  case False
  then show ?thesis using assms by (auto simp: bridge_connect_def bridge_ok_def)
next
  case True
  obtain rc a s where i: "nb_init (t_tcp t) (t_first t) (br_adapter b) \<lparr>sends = t_sends t, wire = []\<rparr> = (rc, a, s)"
    by (rule prod_cases3)
  have "same_topics (br_adapter b) a" using same_topics_adapter(1) i by (metis fst_conv snd_conv)
  then have fit: "topics_fit a" using assms(1) topics_fit_same by (simp add: bridge_ok_def)
  show ?thesis
  proof (cases "rc = 0")
    case rc: True
    have "link_whole (a_client a) s" by (rule init_whole(1) [OF i [unfolded rc]]) simp
    then show ?thesis using assms(2) True rc i fit by (auto simp: bridge_connect_def)
  next
    case False
    then show ?thesis using assms(2) True i fit by (auto simp: bridge_connect_def Let_def)
  qed
qed

lemma publish_step_ok:
  assumes "topics_fit (br_adapter b)" "adapter_up b \<longrightarrow> mirror_ok (br_adapter b) (br_prev b) (br_sock b) \<or>
      link_whole (a_client (br_adapter b)) (br_sock b) \<and> br_prev b = charger_state_init"
  shows "bridge_ok (bridge_publish t b)"
    "adapter_up (bridge_publish t b) \<Longrightarrow> br_prev (bridge_publish t b) = charger_state_read (left_by_others (t_cells t) (br_shm b))"
proof -
  let ?cur = "charger_state_read (left_by_others (t_cells t) (br_shm b))"
  let ?dirty = "charger_state_diff (br_prev b) ?cur"
  let ?full = "cs_pilot_state (br_prev b) = PILOT_UNKNOWN \<and> voltage_v (br_prev b) = 0 \<and> current_a (br_prev b) = 0"
  obtain rc a s where p: "(if ?full \<or> ?dirty \<noteq> 0 then nb_publish_state ?cur ?dirty ?full (br_adapter b) (br_sock b)
      else (0, br_adapter b, br_sock b)) = (rc, a, s)" by (rule prod_cases3)
  have up: "br_adapter (bridge_publish t b) = a" "br_sock (bridge_publish t b) = s"
    "adapter_up (bridge_publish t b) \<longleftrightarrow> rc = 0" "rc = 0 \<Longrightarrow> br_prev (bridge_publish t b) = ?cur" if "adapter_up b"
    using that p by (auto simp: bridge_publish_def Let_def)
  have same: "same_topics (br_adapter b) a"
    using p same_topics_adapter(2) [of "br_adapter b" ?cur ?dirty ?full "br_sock b"] by (auto split: if_splits)
  have ok: "mirror_ok a ?cur s" if u: "adapter_up b" and rc: "rc = 0"
  proof (cases "?full \<or> ?dirty \<noteq> 0")
    case True
    have "link_whole (a_client (br_adapter b)) (br_sock b)" using assms(2) u by (auto simp: mirror_ok_def)
    moreover have "?full \<or> (fd_open (a_client (br_adapter b)) \<longrightarrow> mirrors (br_adapter b) (br_prev b) (br_sock b))"
      using assms(2) u by (auto simp: mirror_ok_def charger_state_init_def)
    ultimately show ?thesis using publish_mirrors [of ?cur "br_prev b" ?full] p True rc assms(1) by simp
  next
    case False
    then have "mirror_ok (br_adapter b) (br_prev b) (br_sock b)" using assms(2) u by (auto simp: charger_state_init_def)
    moreover have "mirrors (br_adapter b) ?cur (br_sock b) = mirrors (br_adapter b) (br_prev b) (br_sock b)"
    proof -
      have "(case x of (y, f, r) \<Rightarrow> latest w (state_topic a1 f) = Some (fit 384 (r ?cur))) =
          (case x of (y, f, r) \<Rightarrow> latest w (state_topic a1 f) = Some (fit 384 (r (br_prev b))))"
        if "x \<in> set exact_fields" for x w a1
      proof -
        obtain y f r where x: "x = (y, f, r)" by (rule prod_cases3)
        have "r ?cur = r (br_prev b)" by (rule exact_unchanged [OF that [unfolded x]]) (use False in simp)
        then show ?thesis by (simp add: x)
      qed
      then show ?thesis unfolding mirrors_def by (intro ball_cong [OF refl])
    qed
    ultimately show ?thesis using p False by (simp add: mirror_ok_def)
  qed
  show "bridge_ok (bridge_publish t b)"
  proof (cases "adapter_up b")
    case True
    then show ?thesis using up [OF True] ok [OF True] topics_fit_same [OF same] assms(1) by (simp add: bridge_ok_def)
  next
    case False
    then show ?thesis using assms by (simp add: bridge_publish_def bridge_ok_def)
  qed
  show "br_prev (bridge_publish t b) = ?cur" if "adapter_up (bridge_publish t b)"
  proof (cases "adapter_up b")
    case True
    then show ?thesis using up [OF True] that by simp
  next
    case False
    then show ?thesis using that by (simp add: bridge_publish_def)
  qed
qed

lemma serve_ok:
  assumes "bridge_ok b"
  shows "bridge_ok (bridge_serve t b)" "br_prev (bridge_serve t b) = br_prev b"
    "adapter_up (bridge_serve t b) \<Longrightarrow> adapter_up b"
proof -
  let ?sm = "left_by_others (t_tick_cells t) (br_shm b)"
  obtain rc a shm s where k: "nb_tick (t_tick_ms t) (t_recv t) (br_adapter b) (if a_write (br_adapter b) then Some ?sm else None)
      (br_sock b) = (rc, a, shm, s)" by (rule prod_cases4)
  have "same_topics (br_adapter b) a" using same_topics_adapter(3) k by (metis fst_conv snd_conv)
  then have fit: "topics_fit a" using assms topics_fit_same by (simp add: bridge_ok_def)
  show "bridge_ok (bridge_serve t b)"
  proof (cases "adapter_up b \<and> rc = 0")
    case True
    then have "mirror_ok a (br_prev b) s" using tick_mirrors k assms by (auto simp: bridge_ok_def)
    then show ?thesis using True k fit by (simp add: bridge_serve_def bridge_ok_def Let_def)
  next
    case False
    then show ?thesis using k fit assms by (auto simp: bridge_serve_def bridge_ok_def Let_def)
  qed
  show "br_prev (bridge_serve t b) = br_prev b" "adapter_up (bridge_serve t b) \<Longrightarrow> adapter_up b"
    using k by (auto simp: bridge_serve_def Let_def split: if_splits)
qed

lemma cards_ok:
  assumes "bridge_ok b"
  shows "bridge_ok (bridge_cards t b)" "br_prev (bridge_cards t b) = br_prev b" "adapter_up (bridge_cards t b) = adapter_up b"
proof -
  have r: "bridge_ok (bridge_cards t b) \<and> br_prev (bridge_cards t b) = br_prev b \<and> adapter_up (bridge_cards t b) = adapter_up b"
  proof (cases "br_reader b")
    case None
    then show ?thesis using assms by (simp add: bridge_cards_def)
  next
    case (Some r)
    let ?P = "\<lambda>as. topics_fit (fst as) \<and> (adapter_up b \<longrightarrow> mirror_ok (fst as) (br_prev b) (snd as))"
    have step: "?P (on_rfid_scan (t_scan_ms t) h as)" if "?P as" for h as
      using that scan_mirrors [of "fst as" "br_prev b" "snd as" h "t_scan_ms t"]
        topics_fit_same [OF same_topics_adapter(4) [of "fst as" h "t_scan_ms t" "snd as"]]
      by (simp add: on_rfid_scan_def)
    have "?P (br_adapter b, br_sock b)" using assms by (simp add: bridge_ok_def)
    note base = this
    obtain d r1 as req where k: "rfid_reader_tick (on_rfid_scan (t_scan_ms t)) (t_card_ms t) (t_card_rx t) r (br_adapter b, br_sock b) =
        (d, r1, as, req)" by (rule prod_cases4)
    have "?P as" using reader_keeps [of ?P "on_rfid_scan (t_scan_ms t)" "(br_adapter b, br_sock b)" "t_card_ms t" "t_card_rx t" r, OF step base]
      unfolding k by simp
    then show ?thesis using Some k by (simp add: bridge_cards_def bridge_ok_def case_prod_unfold Let_def)
  qed
  then show "bridge_ok (bridge_cards t b)" "br_prev (bridge_cards t b) = br_prev b" "adapter_up (bridge_cards t b) = adapter_up b" by simp_all
qed

lemma turn_ok:
  assumes "bridge_ok b"
  shows "bridge_ok (bridge_turn t b)"
    "adapter_up (bridge_turn t b) \<Longrightarrow> br_prev (bridge_turn t b) = charger_state_read (left_by_others (t_cells t) (br_shm (bridge_connect t b)))"
proof -
  note c = connect_ok [OF assms refl, of t]
  note p = publish_step_ok [OF conjunct1 [OF c] conjunct2 [OF c]]
  note s = serve_ok [OF p(1), of t]
  note k = cards_ok [OF s(1), of t]
  show "bridge_ok (bridge_turn t b)" using k(1) by (simp add: bridge_turn_def)
  assume "adapter_up (bridge_turn t b)"
  then have "adapter_up (bridge_publish t (bridge_connect t b))" using s(3) k(3) by (simp add: bridge_turn_def)
  then show "br_prev (bridge_turn t b) = charger_state_read (left_by_others (t_cells t) (br_shm (bridge_connect t b)))"
    using p(2) s(2) k(2) by (simp add: bridge_turn_def)
qed

lemma turns_ok: "bridge_ok b \<Longrightarrow> bridge_ok (fold bridge_turn ts b)"
  by (induction ts arbitrary: b) (simp_all add: turn_ok(1))

end
