(* ===== verification/Healthy_Link.thy ===== *)
theory Healthy_Link
  imports Broker_Mirror
begin

text \<open>
  A socket that takes every packet whole: what the daemon publishes fits the packets of the client, so
  a turn of the main loop in which the broker answers ends with the adapter up.
\<close>

section \<open>A healthy connection\<close>

text \<open>A socket that takes at least \<open>n\<close> more packets whole.\<close>

definition takes_all :: "nat \<Rightarrow> sock \<Rightarrow> bool" where
  "takes_all n s \<longleftrightarrow> (\<exists>m \<ge> n. sends s = replicate m (Sent MQTT_BUF))"

lemma healthy_less: "takes_all n s \<Longrightarrow> k \<le> n \<Longrightarrow> takes_all k s"
  by (auto simp: takes_all_def)

lemma healthy_send:
  assumes "takes_all (Suc n) s" "length p \<le> MQTT_BUF" "p \<noteq> []"
  shows "fst (send_all p s) = 0 \<and> takes_all n (snd (send_all p s))"
proof -
  obtain m where m: "n \<le> m" "sends s = Sent MQTT_BUF # replicate m (Sent MQTT_BUF)"
    using assms(1) by (auto simp: takes_all_def Suc_le_eq gr0_conv_Suc dest!: less_imp_Suc_add)
  obtain x xs where p: "p = x # xs" using assms(3) by (cases p) simp_all
  have "send_loop (sends s) (wire s) p = send_loop (replicate m (Sent MQTT_BUF)) (wire s @ take MQTT_BUF p) (drop MQTT_BUF p)"
    unfolding m(2) p by simp
  moreover have "drop MQTT_BUF p = []" using assms(2) by simp
  ultimately have "send_loop (sends s) (wire s) p = (0, \<lparr>sends = replicate m (Sent MQTT_BUF), wire = wire s @ take MQTT_BUF p\<rparr>)"
    by (simp del: drop_eq_Nil)
  then show ?thesis using m(1) by (auto simp: send_all_def takes_all_def)
qed

text \<open>What the adapter publishes is short enough for a packet.\<close>

lemma healthy_publish:
  assumes "takes_all (Suc n) s" "fd_open c" "length topic \<le> 160" "length payload \<le> 640"
  shows "\<exists>s1. mqtt_client_publish topic payload retain c s = (0, c, s1) \<and> takes_all n s1"
proof -
  obtain pkt where e: "mqtt_encode_publish MQTT_BUF topic payload retain = Some pkt"
    using publish_fits [of topic payload MQTT_BUF retain] assms(3,4) by (auto intro: that)
  have "length pkt \<le> MQTT_BUF" "pkt \<noteq> []" using publish_bytes [OF e] by force+
  then show ?thesis using healthy_send [OF assms(1), of pkt] assms(2) e
    by (auto simp: mqtt_client_publish_def case_prod_unfold Let_def)
qed

lemma then_str_fits:
  "length p + 2 + length s \<le> room \<Longrightarrow> length s \<le> 65535 \<Longrightarrow>
     \<exists>q. then_str room s (Some p) = Some q \<and> length q = length p + 2 + length s"
  by (simp add: then_str_def put_str_def Let_def)

lemma finalize_fits: "5 + length payload \<le> cap \<Longrightarrow> cap \<le> 268435455 \<Longrightarrow> \<exists>pkt. mqtt_finalize cap t payload = Some pkt \<and> length pkt \<le> cap \<and> pkt \<noteq> []"
proof -
  assume fits: "5 + length payload \<le> cap" "cap \<le> 268435455"
  then obtain rl where rl: "mqtt_encode_remlen (length payload) = Some rl" by (auto simp: mqtt_encode_remlen_def)
  have "length rl \<le> 4" by (rule remlen_decodes(3) [OF rl])
  then show ?thesis using fits rl by (simp add: mqtt_finalize_def)
qed

lemma connect_fits:
  assumes "length cid \<le> 160" "length wt \<le> 160" "length wm \<le> 160" "\<forall>x. user = Some x \<longrightarrow> length x \<le> 160" "\<forall>x. pass = Some x \<longrightarrow> length x \<le> 160"
  shows "\<exists>pkt. mqtt_encode_connect MQTT_BUF cid user pass ka (Some wt) (Some wm) = Some pkt \<and> length pkt \<le> MQTT_BUF \<and> pkt \<noteq> []"
proof -
  let ?flgs = "0x02 OR (if Some wt \<noteq> None \<and> Some wm \<noteq> None then 0x04 else 0) OR (if user \<noteq> None then 0x80 else 0) OR
      (if pass \<noteq> None \<and> user \<noteq> None then 0x40 else 0) :: u8"
  let ?p0 = "[0x00, 0x04, 0x4D, 0x51, 0x54, 0x54, 0x04] @ [?flgs, ucast (drop_bit 8 ka), ucast (ka AND 0xFF)]"
  obtain p1 where p1: "then_str 2043 cid (Some ?p0) = Some p1" "length p1 \<le> 172" using then_str_fits [of ?p0 cid 2043] assms(1) by auto
  obtain p2 where p2: "then_str 2043 wt (Some p1) = Some p2" "length p2 \<le> 334" using then_str_fits [of p1 wt 2043] assms(2) p1(2) by auto
  obtain p3 where p3: "then_str 2043 wm (Some p2) = Some p3" "length p3 \<le> 496" using then_str_fits [of p2 wm 2043] assms(3) p2(2) by auto
  obtain p4 where p4: "(case user of Some u \<Rightarrow> then_str 2043 u (Some p3) | None \<Rightarrow> Some p3) = Some p4" "length p4 \<le> 658"
    using then_str_fits [of p3 _ 2043] assms(4) p3(2) by (cases user) force+
  obtain p5 where p5: "(case (pass, user) of (Some w, Some u) \<Rightarrow> then_str 2043 w (Some p4) | _ \<Rightarrow> Some p4) = Some p5" "length p5 \<le> 820"
    using then_str_fits [of p4 _ 2043] assms(5) p4(2) by (cases user; cases pass) force+
  have "mqtt_encode_connect MQTT_BUF cid user pass ka (Some wt) (Some wm) = mqtt_finalize MQTT_BUF 0x10 p5"
    using p1(1) p2(1) p3(1) p4(1) p5(1) unfolding mqtt_encode_connect_def Let_def by (cases user; cases pass) simp_all
  then show ?thesis using finalize_fits [where payload = p5 and cap = MQTT_BUF and t = "0x10"] p5(2) by simp
qed

lemma subscribe_fits:
  "length topic \<le> 161 \<Longrightarrow> \<exists>pkt. mqtt_encode_subscribe MQTT_BUF pid topic = Some pkt \<and> length pkt \<le> MQTT_BUF \<and> pkt \<noteq> []"
proof -
  assume len: "length topic \<le> 161"
  obtain p where p: "then_str 2043 topic (Some [ucast (drop_bit 8 pid), ucast (pid AND 0xFF)]) = Some p" "length p = 4 + length topic"
    using then_str_fits [where p = "[ucast (drop_bit 8 pid), ucast (pid AND 0xFF)]" and s = topic and room = 2043] len by auto
  show ?thesis using p len finalize_fits [where payload = "p @ [0x00]" and cap = MQTT_BUF and t = "0x82"] by (simp add: mqtt_encode_subscribe_def Let_def)
qed

section \<open>A publication of everything\<close>

text \<open>An operation that sends at most one packet on a healthy socket and leaves the client alone.\<close>

definition modest :: "(mqtt_client \<times> sock \<Rightarrow> mqtt_client \<times> sock) \<Rightarrow> bool" where
  "modest f \<longleftrightarrow> (\<forall>n c s. fd_open c \<and> takes_all (Suc n) s \<longrightarrow> (\<exists>s1. f (c, s) = (c, s1) \<and> takes_all n s1))"

lemma print_at_length: "length (fst b) \<le> 639 \<Longrightarrow> length (fst (print_at x b)) \<le> 639"
  by (auto simp: print_at_def split: prod.split)

lemma fold_print_at_length: "length (fst b) \<le> 639 \<Longrightarrow> length (fst (fold print_at xs b)) \<le> 639"
  by (induction xs arbitrary: b) (simp_all add: print_at_length)

lemma modest_payload: "length topic \<le> 160 \<Longrightarrow> modest (publish_payload a topic head parts)"
  unfolding modest_def
proof (intro allI impI, elim conjE)
  fix n and c :: mqtt_client and s :: sock
  assume len: "length topic \<le> 160" and up: "fd_open c" and h: "takes_all (Suc n) s"
  show "\<exists>s1. publish_payload a topic head parts (c, s) = (c, s1) \<and> takes_all n s1"
  proof (cases "length head \<ge> 640")
    case True
    then show ?thesis using healthy_less [OF h, of n] by (simp add: publish_payload_def)
  next
    case False
    have "length (fst (append_device_block a (head, length head))) \<le> 639"
      using False by (auto simp: append_device_block_def Let_def)
    then have "length (fst (fold print_at (parts @ [ascii ''}'']) (append_device_block a (head, length head)))) \<le> 639"
      by (rule fold_print_at_length)
    then have "length (fst (fold print_at (parts @ [ascii ''}'']) (append_device_block a (head, length head)))) \<le> 640" by simp
    from healthy_publish [OF h up len this, of True] show ?thesis using False
      by (auto simp: publish_payload_def case_prod_unfold Let_def)
  qed
qed

lemma length_topics: "length (state_topic a f) \<le> 160" "length (discovery_topic a kind f) \<le> 160"
  by (simp_all add: state_topic_def discovery_topic_def)

lemma modest_discovery:
  "modest (publish_discovery a component field name unit device_class state_class)"
  "modest (publish_discovery_set_current a)" "modest (publish_discovery_authorize a)"
  "modest (publish_discovery_clear_faults a)" "modest (publish_discovery_last_uid a)"
  "modest (publish_discovery_scan_event a)"
  unfolding publish_discovery_def publish_discovery_set_current_def publish_discovery_authorize_def
    publish_discovery_clear_faults_def publish_discovery_last_uid_def publish_discovery_scan_event_def
  by (rule modest_payload [OF length_topics(2)])+

lemma modest_messages: "\<forall>f \<in> set (discovery_messages a). modest f"
  by (auto simp: discovery_messages_def modest_discovery)

lemma modest_fold:
  "\<forall>f \<in> set fs. modest f \<Longrightarrow> fd_open c \<Longrightarrow> takes_all (length fs + n) s \<Longrightarrow>
     \<exists>s1. fold (\<lambda>f. f) fs (c, s) = (c, s1) \<and> takes_all n s1"
proof (induction fs arbitrary: s)
  case (Cons f fs)
  then have m: "modest f" "\<forall>f \<in> set fs. modest f" and h: "takes_all (Suc (length fs + n)) s" by simp_all
  obtain s1 where s1: "f (c, s) = (c, s1)" "takes_all (length fs + n) s1" using m(1) h Cons.prems(2) unfolding modest_def by blast
  show ?case using Cons.IH [OF m(2) Cons.prems(2) s1(2)] s1(1) by simp
qed simp

lemma healthy_fields:
  "fd_open c \<Longrightarrow> takes_all (length fs + n) s \<Longrightarrow>
     \<exists>s1. fold (publish_field a cs dirty full) fs (0, c, s) = (0, c, s1) \<and> takes_all n s1"
proof (induction fs arbitrary: s)
  case (Cons fld fs)
  obtain b f r where fld: "fld = (b, f, r)" by (cases fld)
  have h: "takes_all (Suc (length fs + n)) s" using Cons.prems(2) by simp
  show ?case
  proof (cases "full \<or> dirty AND b \<noteq> 0")
    case False
    then have "publish_field a cs dirty full fld (0, c, s) = (0, c, s)" by (simp add: fld publish_field_def)
    then show ?thesis using Cons.IH [OF Cons.prems(1) healthy_less [OF h]] by simp
  next
    case True
    have len: "length (fit 384 (r cs)) \<le> 640" by simp
    obtain s1 where s1: "mqtt_client_publish (state_topic a f) (fit 384 (r cs)) True c s = (0, c, s1)" "takes_all (length fs + n) s1"
      using healthy_publish [OF h Cons.prems(1) length_topics(1) len] by blast
    have "publish_field a cs dirty full fld (0, c, s) = (0, c, s1)" using True s1(1) by (simp add: fld publish_field_def)
    then show ?thesis using Cons.IH [OF Cons.prems(1) s1(2)] by simp
  qed
qed simp

lemma healthy_state:
  assumes "a_connected a" "fd_open (a_client a)" "takes_all (28 + n) s"
  shows "\<exists>s1. nb_publish_state cs dirty full a s = (0, a, s1) \<and> takes_all n s1"
proof -
  have len: "length (discovery_messages a) \<le> 16" "length state_fields = 12" by (simp_all add: discovery_messages_def state_fields_def)
  obtain s1 where s1: "(if full then publish_all_discovery a (a_client a, s) else (a_client a, s)) = (a_client a, s1)" "takes_all (12 + n) s1"
  proof (cases full)
    case True
    have "takes_all (length (discovery_messages a) + (12 + n)) s" using healthy_less [OF assms(3)] len by simp
    from modest_fold [OF modest_messages assms(2) this] that True show ?thesis by (auto simp: publish_all_discovery_def)
  next
    case False
    then show ?thesis using that healthy_less [OF assms(3), of "12 + n"] by simp
  qed
  obtain s2 where "fold (publish_field a cs dirty full) state_fields (0, a_client a, s1) = (0, a_client a, s2)" "takes_all n s2"
    using healthy_fields [OF assms(2), of state_fields n s1 a cs dirty full] s1(2) len by auto
  then show ?thesis using assms(1) s1(1) by (simp add: nb_publish_state_def)
qed

section \<open>A turn that connects\<close>

definition adapter_fits :: "adapter_ctx \<Rightarrow> bool" where
  "adapter_fits a \<longleftrightarrow> topics_fit a \<and> length (availability_topic a) < 160 \<and> length (cmd_prefix a) < 160 \<and>
     (\<forall>x. a_user a = Some x \<longrightarrow> length x < 128) \<and> (\<forall>x. a_pass a = Some x \<longrightarrow> length x < 128)"

lemma adapter_fits_same: "same_topics a a1 \<Longrightarrow> adapter_fits a1 = adapter_fits a"
  by (simp add: same_topics_def adapter_fits_def topics_fit_def)

abbreviation (input) "CONNACK \<equiv> [0x20, 0x02, 0x00, 0x00 :: u8]"

lemma healthy_connect:
  assumes "takes_all (Suc n) s" "length cid \<le> 160" "length wt \<le> 160" "length wm \<le> 160"
    "\<forall>x. user = Some x \<longrightarrow> length x \<le> 160" "\<forall>x. pass = Some x \<longrightarrow> length x \<le> 160"
  shows "\<exists>c s1. mqtt_client_connect True (Got CONNACK) \<lparr>client_id = cid, mq_user = user, mq_pass = pass, mq_keepalive = ka,
      will_topic = Some wt, will_msg = Some wm\<rparr> s = (0, c, s1) \<and> takes_all n s1 \<and> fd_open c \<and> mq_rx c = []"
proof -
  obtain pkt where pkt: "mqtt_encode_connect MQTT_BUF cid user pass ka (Some wt) (Some wm) = Some pkt" "length pkt \<le> MQTT_BUF" "pkt \<noteq> []"
    using connect_fits [OF assms(2-6)] by blast
  have "mqtt_parse_connack CONNACK = 0" by (simp add: mqtt_parse_connack_def)
  then show ?thesis using healthy_send [OF assms(1) pkt(2,3)] pkt(1)
    by (simp add: mqtt_client_connect_def mqtt_client_init_def case_prod_unfold Let_def)
qed

lemma healthy_subscribe:
  assumes "takes_all (Suc n) s" "fd_open c" "length topic \<le> 161"
  shows "\<exists>c1 s1. mqtt_client_subscribe topic c s = (0, c1, s1) \<and> takes_all n s1 \<and> fd_open c1 \<and> mq_rx c1 = mq_rx c"
proof -
  obtain pkt where pkt: "mqtt_encode_subscribe MQTT_BUF (if next_packet_id c = 0 then 1 else next_packet_id c) topic = Some pkt"
      "length pkt \<le> MQTT_BUF" "pkt \<noteq> []"
    using subscribe_fits [OF assms(3)] by blast
  then show ?thesis using healthy_send [OF assms(1) pkt(2,3)] assms(2)
    by (simp add: mqtt_client_subscribe_def case_prod_unfold Let_def)
qed

lemma healthy_init:
  assumes "adapter_fits a" "takes_all (3 + n) s"
  shows "\<exists>a1 s1. nb_init True (Got CONNACK) a s = (0, a1, s1) \<and> takes_all n s1 \<and> fd_open (a_client a1) \<and>
    a_connected a1 \<and> mq_rx (a_client a1) = []"
proof -
  have fits: "length (a_device a) \<le> 160" "length (availability_topic a) \<le> 160" "length (ascii ''offline'') \<le> 160"
      "\<forall>x. a_user a = Some x \<longrightarrow> length x \<le> 160" "\<forall>x. a_pass a = Some x \<longrightarrow> length x \<le> 160"
    using assms(1) by (fastforce simp: adapter_fits_def topics_fit_def ascii_def)+
  obtain c1 s1 where c: "mqtt_client_connect True (Got CONNACK) \<lparr>client_id = a_device a, mq_user = a_user a, mq_pass = a_pass a,
      mq_keepalive = a_keepalive a, will_topic = Some (availability_topic a), will_msg = Some (ascii ''offline'')\<rparr> s = (0, c1, s1)"
      "takes_all (2 + n) s1" "fd_open c1" "mq_rx c1 = []"
    using healthy_connect [OF _ fits, of "2 + n" s "a_keepalive a"] assms(2) by (auto simp: numeral_3_eq_3)
  have "length (ascii ''online'') \<le> 640" by (simp add: ascii_def)
  then obtain s2 where p: "mqtt_client_publish (availability_topic a) (ascii ''online'') True c1 s1 = (0, c1, s2)" "takes_all (Suc n) s2"
    using healthy_publish [of "Suc n" s1 c1 "availability_topic a" "ascii ''online''" True] c(2,3) fits(2) by auto
  have "length (fit 162 (cmd_prefix a @ ascii ''+'')) \<le> 161" by simp
  then obtain c2 s3 where q: "mqtt_client_subscribe (fit 162 (cmd_prefix a @ ascii ''+'')) (mqtt_client_set_publish_cb c1) s2 = (0, c2, s3)"
      "takes_all n s3" "fd_open c2" "mq_rx c2 = []"
    using healthy_subscribe [OF p(2), of "mqtt_client_set_publish_cb c1" "fit 162 (cmd_prefix a @ ascii ''+'')"] c(3,4) by (auto simp: mqtt_client_set_publish_cb_def)
  show ?thesis
  proof (cases "a_write a")
    case True
    then show ?thesis using c(1) p(1) q by (simp add: nb_init_def)
  next
    case False
    then show ?thesis using c p healthy_less [OF p(2), of n] by (simp add: nb_init_def)
  qed
qed

lemma healthy_tick:
  assumes "takes_all (Suc n) s" "fd_open (a_client a)" "mq_rx (a_client a) = []"
  shows "\<exists>a1 s1. nb_tick now_ms [] a shm s = (0, a1, shm, s1) \<and> fd_open (a_client a1) \<and> takes_all n s1"
proof -
  have "consume_loop (pub_cb (a_client a)) on_command [] shm = (True, [], shm)" by (simp add: consume_loop.simps)
  then show ?thesis
    using assms(2,3) healthy_send [OF assms(1), of "[0xC0, 0x00]"] healthy_less [OF assms(1), of n]
    by (simp add: nb_tick_def mqtt_client_tick_def mqtt_keepalive_def mqtt_encode_pingreq_def case_prod_unfold Let_def)
qed

section \<open>The card reader\<close>

text \<open>What a scan may use up, a tick of the reader uses up at most once per byte of its buffer.\<close>

lemma handle_spends:
  assumes "\<And>h n u. length h \<le> 20 \<Longrightarrow> Q (Suc (Suc n)) u \<Longrightarrow> Q n (cb h u)" "\<And>n u. Q (Suc n) u \<Longrightarrow> Q n u"
    "Q (Suc (Suc n)) u"
  shows "Q n (snd (handle_uid cb uid t (r, u)))"
proof (cases "rfid_uid_to_hex UID_HEX_MAX uid")
  case None
  then show ?thesis using assms(2) [OF assms(2) [OF assms(3)]] by (simp add: handle_uid_def)
next
  case (Some hex)
  then have "hex = uid_hex uid" "2 * length uid \<le> 20" by (simp_all add: rfid_uid_to_hex_def uid_hex_def split: if_splits)
  then have "length hex \<le> 20" by (simp add: length_uid_hex)
  then show ?thesis using Some assms(1) [OF _ assms(3), of hex] assms(2) [OF assms(2) [OF assms(3)]]
    by (simp add: handle_uid_def Let_def)
qed

lemma frames_spend:
  assumes "\<And>h n u. length h \<le> 20 \<Longrightarrow> Q (Suc (Suc n)) u \<Longrightarrow> Q n (cb h u)" "\<And>n u. Q (Suc n) u \<Longrightarrow> Q n u"
  shows "Q (2 * length ms + n) (snd ru) \<Longrightarrow> Q n (snd (fold (on_frame cb t) ms ru))"
proof (induction ms arbitrary: ru)
  case (Cons m ms)
  obtain r u where ru: "ru = (r, u)" by (rule prod.exhaust)
  have q: "Q (Suc (Suc (2 * length ms + n))) u" using Cons.prems by (simp add: ru)
  have "Q (2 * length ms + n) (snd (on_frame cb t m (r, u)))"
    using handle_spends [where Q = Q and cb = cb, OF assms q] assms(2) [OF assms(2) [OF q]]
    by (simp add: on_frame_def Let_def case_prod_unfold split: option.split)
  then show ?case using Cons.IH by (simp add: ru)
qed simp

lemma scanned_frames: "length (fst (peel_all card_peel rx)) \<le> length rx"
proof (induction "length rx" arbitrary: rx rule: less_induct)
  case less
  show ?case
  proof (cases "card_peel rx")
    case (Frame n m)
    have "length (drop n rx) < length rx" using card_peel_size [OF Frame] by auto
    with less.hyps [OF this] show ?thesis by (simp add: cards.peels_frame [OF Frame] Let_def case_prod_unfold)
  qed (simp_all add: cards.peels_more cards.peels_bad)
qed

lemma scanned_rest: "length (fst (snd (peel_all card_peel rx))) \<le> length rx"
proof (induction "length rx" arbitrary: rx rule: less_induct)
  case less
  show ?case
  proof (cases "card_peel rx")
    case (Frame n m)
    have "length (drop n rx) < length rx" using card_peel_size [OF Frame] by auto
    with less.hyps [OF this] show ?thesis by (simp add: cards.peels_frame [OF Frame] Let_def case_prod_unfold)
  qed (simp_all add: cards.peels_more cards.peels_bad)
qed

lemma fill_rx_length: "length rx \<le> 128 \<Longrightarrow> length (fill_rx cs rx) \<le> 128"
  by (induction cs rx rule: fill_rx.induct) (auto simp: Let_def)

lemma spend_less: "(\<And>n u. Q (Suc n) u \<Longrightarrow> Q n u) \<Longrightarrow> Q (k + n) u \<Longrightarrow> Q n u"
  by (induction k) auto

lemma reader_spends:
  assumes "\<And>h n u. length h \<le> 20 \<Longrightarrow> Q (Suc (Suc n)) u \<Longrightarrow> Q n (cb h u)" "\<And>n u. Q (Suc n) u \<Longrightarrow> Q n u"
    "Q (256 + n) u" "length (r_rx r) \<le> 128"
  shows "Q n (fst (snd (snd (rfid_reader_tick cb t cs r u))))" "length (r_rx (fst (snd (rfid_reader_tick cb t cs r u)))) \<le> 128"
proof -
  let ?r = "r\<lparr>r_rx := fill_rx cs (r_rx r)\<rparr>"
  let ?ms = "fst (peel_all card_peel (r_rx ?r))"
  have len: "length (r_rx ?r) \<le> 128" using fill_rx_length [OF assms(4)] by simp
  have "length ?ms \<le> 128" using scanned_frames [of "r_rx ?r"] len by linarith
  then obtain k where k: "256 = k + 2 * length ?ms" by (metis add.commute le_iff_add mult_le_mono2 mult_numeral_left_semiring_numeral numeral_Bit0_eq_double)
  have "Q (2 * length ?ms + n) u" using spend_less [of Q k "2 * length ?ms + n" u] assms(2,3) k by (simp add: add.assoc)
  then have d: "Q n (snd (snd (drain_frames cb t (?r, u))))"
    using frames_spend [where Q = Q and cb = cb and ms = ?ms and n = n and ru = "(?r, u)", OF assms(1,2)]
    by (simp add: drain_scan Let_def case_prod_unfold)
  moreover have "Q n u" using spend_less [of Q 256 n u] assms(2,3) by blast
  ultimately show "Q n (fst (snd (snd (rfid_reader_tick cb t cs r u))))"
    by (simp add: rfid_reader_tick_def Let_def case_prod_unfold)
  have "length (r_rx (fst (snd (drain_frames cb t (?r, u))))) \<le> 128"
    using drain_scan [of cb t ?r u] scanned_rest [of "r_rx ?r"] len by (auto simp: Let_def case_prod_unfold)
  then show "length (r_rx (fst (snd (rfid_reader_tick cb t cs r u)))) \<le> 128"
    using assms(4) by (simp add: rfid_reader_tick_def Let_def case_prod_unfold)
qed

definition reader_small :: "bridge \<Rightarrow> bool" where
  "reader_small b \<longleftrightarrow> (\<forall>r. br_reader b = Some r \<longrightarrow> length (r_rx r) \<le> 128)"

lemma turn_reader_small: "reader_small b \<Longrightarrow> reader_small (bridge_turn t b)"
proof -
  assume small: "reader_small b"
  let ?b = "bridge_serve t (bridge_publish t (bridge_connect t b))"
  have reader: "br_reader ?b = br_reader b" by (simp add: step_frames)
  have tick: "length (r_rx (fst (snd (rfid_reader_tick cb k cs r u)))) \<le> 128" if "length (r_rx r) \<le> 128"
    for cb :: "u8 list \<Rightarrow> adapter_ctx \<times> sock \<Rightarrow> adapter_ctx \<times> sock" and k cs r u
    by (rule reader_spends(2) [where Q = "\<lambda>n u. True", OF _ _ _ that]) simp_all
  show ?thesis
    using small tick by (auto simp: bridge_turn_def bridge_cards_def reader reader_small_def Let_def case_prod_unfold split: option.splits)
qed

lemma turns_reader_small: "reader_small b \<Longrightarrow> reader_small (fold bridge_turn ts b)"
  by (induction ts arbitrary: b) (simp_all add: turn_reader_small)

lemma start_reader_small: "reader_small (bridge_start pref dev user pass wr rf port cells)"
  by (auto simp: reader_small_def bridge_start_def rfid_reader_start_def split: if_splits)

text \<open>A scan on a healthy connection sends at most two packets and leaves the client alone.\<close>

definition scans_left :: "nat \<Rightarrow> adapter_ctx \<times> sock \<Rightarrow> bool" where
  "scans_left n as \<longleftrightarrow> takes_all n (snd as) \<and> fd_open (a_client (fst as))"

lemma scan_spends: "length h \<le> 20 \<Longrightarrow> scans_left (Suc (Suc n)) as \<Longrightarrow> scans_left n (on_rfid_scan t h as)"
proof -
  obtain a s where as: "as = (a, s)" by (rule prod.exhaust)
  assume len: "length h \<le> 20" and left: "scans_left (Suc (Suc n)) as"
  then have h: "takes_all (Suc (Suc n)) s" "fd_open (a_client a)" by (simp_all add: scans_left_def as)
  let ?a = "a\<lparr>a_last_uid := fit 32 h, a_last_scan_ms := t\<rparr>"
  let ?p = "ascii ''{\"event_type\":\"card_scanned\",\"uid\":\"'' @ h @ ascii ''\"}''"
  have lp: "length ?p \<le> 640" using len by (simp add: ascii_def)
  have lu: "length h \<le> 640" using len by simp
  obtain s1 where s1: "mqtt_client_publish (state_topic ?a ''rfid/last_uid'') h True (a_client a) s = (0, a_client a, s1)" "takes_all (Suc n) s1"
    using healthy_publish [OF h(1,2) length_topics(1) lu] by blast
  obtain s2 where s2: "mqtt_client_publish (state_topic ?a ''rfid/scan_event'') ?p False (a_client a) s1 = (0, a_client a, s2)" "takes_all n s2"
    using healthy_publish [OF s1(2) h(2) length_topics(1) lp] by blast
  have less: "takes_all n s" "takes_all n s1" using healthy_less [OF h(1), of n] healthy_less [OF s1(2), of n] by simp_all
  have same: "?a\<lparr>a_client := a_client a\<rparr> = ?a" by simp
  show ?thesis
    using s1(1) s2 less h(2) by (simp add: on_rfid_scan_def mqtt_adapter_on_rfid_scan_def as scans_left_def Let_def del: append_assoc)
qed

lemma cards_keep_open:
  assumes "reader_small b" "fd_open (a_client (br_adapter b))" "takes_all 256 (br_sock b)"
  shows "fd_open (a_client (br_adapter (bridge_cards t b)))"
proof (cases "br_reader b")
  case None
  then show ?thesis using assms by (simp add: bridge_cards_def)
next
  case (Some r)
  have len: "length (r_rx r) \<le> 128" using assms(1) Some by (simp add: reader_small_def)
  have less: "scans_left (Suc n) u \<Longrightarrow> scans_left n u" for n u using healthy_less [of "Suc n" "snd u" n] by (simp add: scans_left_def)
  have base: "scans_left (256 + 0) (br_adapter b, br_sock b)" using assms(2,3) by (simp add: scans_left_def)
  have "scans_left 0 (fst (snd (snd (rfid_reader_tick (on_rfid_scan (t_scan_ms t)) (t_card_ms t) (t_card_rx t) r
      (br_adapter b, br_sock b)))))"
    by (rule reader_spends(1) [where Q = scans_left, OF scan_spends less base len])
  then show ?thesis using Some by (simp add: bridge_cards_def Let_def case_prod_unfold scans_left_def)
qed

lemma turn_connects:
  assumes "\<not> adapter_up b" "adapter_fits (br_adapter b)" "reader_small b"
    "t_time t \<ge> next_broker_retry b" "t_tcp t" "t_first t = Got CONNACK" "takes_all 288 \<lparr>sends = t_sends t, wire = []\<rparr>" "t_recv t = []"
  shows "adapter_up (bridge_turn t b)" "fd_open (a_client (br_adapter (bridge_turn t b)))"
proof -
  obtain a s where i: "nb_init True (Got CONNACK) (br_adapter b) \<lparr>sends = t_sends t, wire = []\<rparr> = (0, a, s)"
      "takes_all 285 s" "fd_open (a_client a)" "a_connected a" "mq_rx (a_client a) = []"
    using healthy_init [OF assms(2), of 285 "\<lparr>sends = t_sends t, wire = []\<rparr>"] assms(7) by auto
  let ?b1 = "b\<lparr>br_adapter := a, br_sock := s, adapter_up := True, br_bo := 0, br_prev := charger_state_init\<rparr>"
  have c: "bridge_connect t b = ?b1" using assms(1,4-6) i(1) by (simp add: bridge_connect_def)
  let ?sm = "left_by_others (t_cells t) (br_shm b)"
  let ?dirty = "charger_state_diff charger_state_init (charger_state_read ?sm)"
  obtain s2 where p: "nb_publish_state (charger_state_read ?sm) ?dirty True a s = (0, a, s2)" "takes_all 257 s2"
    using healthy_state [OF i(4,3), of 257 s "charger_state_read ?sm" ?dirty True] i(2) by auto
  have b2: "bridge_publish t ?b1 = ?b1\<lparr>br_sock := s2, br_shm := ?sm, br_prev := charger_state_read ?sm\<rparr>"
    using p(1) by (simp add: bridge_publish_def charger_state_init_def Let_def)
  let ?sm2 = "left_by_others (t_tick_cells t) ?sm"
  have "takes_all (Suc 256) s2" using p(2) by simp
  from healthy_tick [OF this i(3,5), of "t_tick_ms t" "if a_write a then Some ?sm2 else None"]
  obtain a1 s1 where k: "nb_tick (t_tick_ms t) [] a (if a_write a then Some ?sm2 else None) s2 =
      (0, a1, if a_write a then Some ?sm2 else None, s1)" "fd_open (a_client a1)" "takes_all 256 s1" by blast
  let ?b3 = "bridge_serve t (bridge_publish t ?b1)"
  have s: "adapter_up ?b3" "fd_open (a_client (br_adapter ?b3))" "takes_all 256 (br_sock ?b3)" "br_reader ?b3 = br_reader b"
    unfolding b2 using k assms(8) by (simp_all add: bridge_serve_def Let_def)
  then have small: "reader_small ?b3" using assms(3) by (simp add: reader_small_def)
  have "adapter_up (bridge_cards t ?b3) = adapter_up ?b3"
    by (simp add: bridge_cards_def Let_def split: option.split prod.split)
  then show "adapter_up (bridge_turn t b)" using s(1) by (simp add: bridge_turn_def c)
  show "fd_open (a_client (br_adapter (bridge_turn t b)))" using cards_keep_open [OF small s(2,3)] by (simp add: bridge_turn_def c)
qed

end
