(* ===== verification/Bridge_Spec.thy ===== *)
theory Bridge_Spec
  imports Healthy_Link
begin

text \<open>
  The properties of the companion daemon: its packets, the stream of the broker, the writes it lets
  through, the card reader, and the main loop.
\<close>

section \<open>The stream of the broker\<close>

text \<open>Ticks of the client, each with the chunks it receives, until one of them fails.\<close>

fun client_ticks ::
  "(u8 list \<Rightarrow> u8 list \<Rightarrow> 'u \<Rightarrow> 'u) \<Rightarrow> (int \<times> u8 list list) list \<Rightarrow> mqtt_client \<times> 'u \<times> sock \<Rightarrow> bool \<times> mqtt_client \<times> 'u \<times> sock" where
  "client_ticks cb [] cus = (True, cus)"
| "client_ticks cb ((now_ms, bss) # ts) (c, u, s) =
     (let (rc, c1, u1, s1) = mqtt_client_tick cb now_ms (map Got bss) c u s
      in if rc \<noteq> 0 then (False, c1, u1, s1) else client_ticks cb ts (c1, u1, s1))"

text \<open>No tick receives more than the buffer has room for.\<close>

fun chunks_fit :: "u8 list \<Rightarrow> (int \<times> u8 list list) list \<Rightarrow> bool" where
  "chunks_fit rest [] = True"
| "chunks_fit rest ((now_ms, bss) # ts) =
     ([] \<notin> set bss \<and> length rest + length (concat bss) < MQTT_CLIENT_RX_BUF \<and>
      chunks_fit (fst (snd (peel_all try_consume_one (rest @ concat bss)))) ts)"

definition gather :: "u8 list \<Rightarrow> u8 list \<Rightarrow> (u8 list \<times> u8 list) list \<Rightarrow> (u8 list \<times> u8 list) list" where
  "gather topic payload us = us @ [(topic, payload)]"

definition messages_of :: "mqtt_event list \<Rightarrow> (u8 list \<times> u8 list) list" where
  "messages_of evs = concat (map (\<lambda>ev. case ev of Published topic payload \<Rightarrow> [(topic, payload)] | _ \<Rightarrow> []) evs)"

lemma gathered: "fold (run_cb gather) evs us = us @ messages_of evs"
  by (induction evs arbitrary: us) (simp_all add: messages_of_def run_cb_def gather_def split: mqtt_event.split)

lemma drain_fits:
  "[] \<notin> set bss \<Longrightarrow> length rx + length (concat bss) < MQTT_CLIENT_RX_BUF \<Longrightarrow>
     drain_rx (map Got bss) rx = (Drained, rx @ concat bss)"
  by (induction bss arbitrary: rx) auto

lemma keepalive_keeps: "mqtt_keepalive now_ms c s = (0, c1, s1) \<Longrightarrow> mq_rx c1 = mq_rx c \<and> pub_cb c1 = pub_cb c"
  by (auto simp: mqtt_keepalive_def Let_def case_prod_unfold split: if_splits option.splits)

lemma tick_delivers:
  assumes "mqtt_client_tick gather now_ms (map Got bss) c us s = (0, c1, us1, s1)" "pub_cb c"
    "[] \<notin> set bss" "length (mq_rx c) + length (concat bss) < MQTT_CLIENT_RX_BUF"
    "peel_all try_consume_one (mq_rx c @ concat bss) = (evs, rest, bad)"
  shows "\<not> bad \<and> mq_rx c1 = rest \<and> us1 = us @ messages_of evs \<and> pub_cb c1"
proof -
  have d: "drain_rx (map Got bss) (mq_rx c) = (Drained, mq_rx c @ concat bss)" by (rule drain_fits [OF assms(3,4)])
  have k: "consume_loop True gather (mq_rx c @ concat bss) us = (\<not> bad, rest, us @ messages_of evs)"
    using assms(5) by (simp add: consume_scan gathered)
  have up: "fd_open c" using assms(1) by (auto simp: mqtt_client_tick_def split: if_splits)
  have "\<not> bad \<and> us1 = us @ messages_of evs \<and> mqtt_keepalive now_ms (c\<lparr>mq_rx := rest\<rparr>) s = (0, c1, s1)"
    using assms(1) up assms(2) d k by (auto simp: mqtt_client_tick_def Let_def case_prod_unfold prod_eq_iff split: if_splits)
  then show ?thesis using keepalive_keeps [of now_ms "c\<lparr>mq_rx := rest\<rparr>" s c1 s1] assms(2) by simp
qed

lemma stream_delivers:
  assumes "client_ticks gather ts (c, us, s) = (True, c1, us1, s1)" "pub_cb c" "chunks_fit (mq_rx c) ts"
    "try_consume_one (mq_rx c) = More"
  shows "peel_all try_consume_one (mq_rx c @ concat (concat (map snd ts))) = (evs, rest, bad) \<longrightarrow>
    us1 = us @ messages_of evs \<and> mq_rx c1 = rest \<and> \<not> bad"
  using assms
proof (induction ts arbitrary: c us s evs)
  case Nil
  then show ?case by (simp add: mqtt.peels_more messages_of_def)
next
  case (Cons tick ts)
  obtain now_ms bss where tick: "tick = (now_ms, bss)" by (rule prod.exhaust)
  obtain evs1 rest1 bad1 where sc: "peel_all try_consume_one (mq_rx c @ concat bss) = (evs1, rest1, bad1)" by (rule prod_cases3)
  obtain rc c2 us2 s2 where k: "mqtt_client_tick gather now_ms (map Got bss) c us s = (rc, c2, us2, s2)" by (rule prod_cases4)
  have run: "rc = 0" "client_ticks gather ts (c2, us2, s2) = (True, c1, us1, s1)"
    using Cons.prems(1) k by (auto simp: tick split: if_splits)
  have fits: "[] \<notin> set bss" "length (mq_rx c) + length (concat bss) < MQTT_CLIENT_RX_BUF" "chunks_fit rest1 ts"
    using Cons.prems(3) sc by (simp_all add: tick)
  from tick_delivers [OF k [unfolded run(1)] Cons.prems(2) fits(1,2) sc]
  have t: "\<not> bad1" "mq_rx c2 = rest1" "us2 = us @ messages_of evs1" "pub_cb c2" by blast+
  have more: "try_consume_one (mq_rx c2) = More" using mqtt.peels_rest [OF sc] t(1,2) by simp
  have whole: "peel_all try_consume_one (mq_rx c @ concat (concat (map snd (tick # ts)))) =
      (let (evs2, rest2, bad2) = peel_all try_consume_one (mq_rx c2 @ concat (concat (map snd ts))) in (evs1 @ evs2, rest2, bad2))"
    using mqtt.peels_append [of "mq_rx c @ concat bss" "concat (concat (map snd ts))"] sc t(1,2) by (simp add: tick)
  obtain evs2 rest2 bad2 where sc2: "peel_all try_consume_one (mq_rx c2 @ concat (concat (map snd ts))) = (evs2, rest2, bad2)"
    by (rule prod_cases3)
  have "chunks_fit (mq_rx c2) ts" using fits(3) t(2) by simp
  from Cons.IH [OF run(2) t(4) this more, of evs2] sc2 whole show ?case using t(3) by (auto simp: messages_of_def)
qed

text \<open>C29: the messages of the broker that the daemon hands to its command callback are those of the whole
  byte stream, in order, however the stream was cut into ticks and chunks; the bytes of an unfinished packet wait in the
  buffer. The callback is installed, no tick of the run fails, no tick brings the buffer to its 1024
  bytes, and at the start the buffer holds no complete packet.
\<close>

lemma mqtt_stream:
  assumes "client_ticks gather ts (c, us, s) = (True, c1, us1, s1)" "pub_cb c" "chunks_fit (mq_rx c) ts"
    "try_consume_one (mq_rx c) = More"
  shows "(us1, mq_rx c1, True) =
    (let (evs, rest, bad) = peel_all try_consume_one (mq_rx c @ concat (concat (map snd ts))) in (us @ messages_of evs, rest, \<not> bad))"
proof -
  obtain evs rest bad where sc: "peel_all try_consume_one (mq_rx c @ concat (concat (map snd ts))) = (evs, rest, bad)"
    by (rule prod_cases3)
  show ?thesis using stream_delivers [OF assms, of evs rest bad] sc by simp
qed

abbreviation "listening \<equiv> mqtt_client_init\<lparr>fd_open := True, pub_cb := True\<rparr>"

text \<open>A message cut in two, and the start of another.\<close>

lemma mqtt_stream_witness:
  "peel_all try_consume_one [0x30, 4, 0, 1, 97, 98, 0x30, 9] = ([Published [97] [98]], [0x30, 9], False) \<and>
   (case client_ticks gather [(0, [[0x30, 4], [0, 1]]), (1, [[97], [98, 0x30, 9]])] (listening, [], \<lparr>sends = [], wire = []\<rparr>) of
      (ok, c1, us1, s1) \<Rightarrow> ok \<and> us1 = [([97], [98])] \<and> mq_rx c1 = [0x30, 9])"
proof -
  let ?ts = "[(0, [[0x30, 4], [0, 1]]), (1, [[97], [98, 0x30, 9]])] :: (int \<times> u8 list list) list"
  let ?s = "\<lparr>sends = [], wire = []\<rparr> :: sock"
  obtain ok c1 us1 s1 where r: "client_ticks gather ?ts (listening, [], ?s) = (ok, c1, us1, s1)" by (rule prod_cases4)
  have "fst (client_ticks gather ?ts (listening, [], ?s))" by code_simp
  then have ok: "client_ticks gather ?ts (listening, [], ?s) = (True, c1, us1, s1)" using r by simp
  have h: "pub_cb listening" "chunks_fit (mq_rx listening) ?ts" "try_consume_one (mq_rx listening) = More" by code_simp+
  have sc: "peel_all try_consume_one (mq_rx listening @ concat (concat (map snd ?ts))) = ([Published [97] [98]], [0x30, 9], False)"
    by code_simp
  have "us1 = [([97], [98])] \<and> mq_rx c1 = [0x30, 9]"
    using mqtt_stream [OF ok h] unfolding sc by (simp add: messages_of_def)
  then show ?thesis using ok sc by (simp add: mqtt_client_init_def)
qed

section \<open>Packets\<close>

text \<open>C30: a PUBLISH packet that the encoder accepts fits its buffer and decodes to the topic and the payload it
  was made from, and no proper prefix of it decodes at all.
\<close>

lemma publish_roundtrip:
  assumes "mqtt_encode_publish cap topic payload retain = Some pkt"
  shows "length pkt \<le> cap \<and> mqtt_decode_publish pkt = Some (topic, payload) \<and>
    (\<forall>n \<in> {0 ..< length pkt}. mqtt_decode_publish (take n pkt) = None)"
proof -
  have "length pkt \<le> cap" using assms by (rule publish_bytes)
  then show ?thesis using publish_decodes [OF assms] publish_prefix [OF assms] by simp
qed

lemma remlen_5: "mqtt_encode_remlen 5 = Some [5]"
proof -
  have four: "(4 :: nat) = Suc 3" by simp
  have "remlen_bytes 4 5 = [5]" unfolding four by (simp only: remlen_bytes.simps) (simp add: low_7)
  then show ?thesis by (simp add: mqtt_encode_remlen_def)
qed

lemma publish_roundtrip_witness:
  "mqtt_encode_publish 64 [97] [98, 99] True = Some [0x31, 5, 0, 1, 97, 98, 99] \<and>
   mqtt_decode_publish [0x31, 5, 0, 1, 97, 98, 99] = Some ([97], [98, 99])"
proof -
  have "mqtt_encode_publish 64 [97] [98, 99] True = Some [0x31, 5, 0, 1, 97, 98, 99]"
  proof -
    have five: "length [0, 1, 97, 98, 99 :: u8] = 5" by simp
    have "mqtt_finalize 64 0x31 [0, 1, 97, 98, 99] = Some [0x31, 5, 0, 1, 97, 98, 99]"
      unfolding mqtt_finalize_def five remlen_5 by simp
    then show ?thesis by (simp add: mqtt_encode_publish_def put_str_def)
  qed
  from this publish_roundtrip [OF this] show ?thesis by simp
qed

section \<open>Commands of the broker\<close>

text \<open>A command to set the current to 16 A is obeyed; one to set it to 200 A is not.\<close>

lemma two_commands:
  "nb_tick 0 [Got ([0x30, 16, 0, 12] @ ascii ''d/rated_amps'' @ ascii ''16'' @ [0x30, 17, 0, 12] @ ascii ''d/rated_amps'' @ ascii ''200'')]
    ((mqtt_adapter_create [100] [101] None None True False)\<lparr>a_client := listening\<rparr>)
    (Some \<lparr>sm_base = Some (\<lambda>i. 0), sm_size = SHMEM_SIZE, sm_writable = True\<rparr>) \<lparr>sends = [], wire = []\<rparr> =
   (0, (mqtt_adapter_create [100] [101] None None True False)\<lparr>a_client := listening\<rparr>,
    Some \<lparr>sm_base = Some ((\<lambda>i. 0)(OFF_RATED_AMPS := 16)), sm_size = SHMEM_SIZE, sm_writable = True\<rparr>, \<lparr>sends = [], wire = []\<rparr>)"
proof -
  let ?cmd = "[0x30, 16, 0, 12] @ ascii ''d/rated_amps'' @ ascii ''16'' @ [0x30, 17, 0, 12] @ ascii ''d/rated_amps'' @ ascii ''200''"
  have sc: "peel_all try_consume_one ?cmd =
    ([Published (ascii ''d/rated_amps'') (ascii ''16''), Published (ascii ''d/rated_amps'') (ascii ''200'')], [], False)" by code_simp
  have len: "length ?cmd < 1024" "?cmd \<noteq> []" by (simp_all add: ascii_def)
  have d: "drain_rx [Got ?cmd] [] = (Drained, ?cmd)" using len by (simp del: append.simps)
  have t: "topic_suffix (ascii ''d/rated_amps'') = Some (ascii ''rated_amps'')" by code_simp
  have p: "parse_int_payload (ascii ''16'') 6 30 = Some 16" "parse_int_payload (ascii ''200'') 6 30 = None" by code_simp+
  have k: "consume_loop True on_command ?cmd (Some \<lparr>sm_base = Some (\<lambda>i. 0), sm_size = SHMEM_SIZE, sm_writable = True\<rparr>) =
     (True, [], Some \<lparr>sm_base = Some ((\<lambda>i. 0)(OFF_RATED_AMPS := 16)), sm_size = SHMEM_SIZE, sm_writable = True\<rparr>)"
    unfolding consume_scan sc
    by (simp add: run_cb_def on_command_def t handle_rated_amps_def cs_apply_rated_amps_write_def p shmem_write_u8_def writable_ptr_def)
  show ?thesis using d k
    by (simp add: nb_tick_def mqtt_client_tick_def mqtt_client_init_def mqtt_keepalive_def del: append.simps)
qed
text \<open>C28: whatever the broker sends, a tick writes nothing when the daemon has no writable segment, and
  otherwise leaves every cell alone but three: the rated current only ever becomes a value from 6 to
  30, the user state 0 or 1, and the alarm bitmap 0.
\<close>

lemma broker_writes_bounded:
  assumes "nb_tick now_ms answers a shm s = (rc, a1, shm1, s1)"
  shows "rel_option command_write shm shm1"
  using tick_segment [of now_ms answers a] assms by (cases shm) (auto simp: option_rel_Some1)

text \<open>In the end the rated current is 16 A.\<close>

lemma broker_writes_bounded_witness:
  "command_write \<lparr>sm_base = Some (\<lambda>i. 0), sm_size = SHMEM_SIZE, sm_writable = True\<rparr>
     \<lparr>sm_base = Some ((\<lambda>i. 0)(OFF_RATED_AMPS := 16)), sm_size = SHMEM_SIZE, sm_writable = True\<rparr>"
  using broker_writes_bounded [OF two_commands] by simp

section \<open>The card reader\<close>

text \<open>C31: however the bytes of the reader fall into ticks, the card numbers that reach the daemon's
  callback are those of the frames of the whole byte stream, less those that the two-second rule of
  the head of rfid.c suppresses: a card is reported unless some earlier sighting of the same card is
  less than two seconds old. The reader has just been opened, in every tick the bytes
  pending and received stay below the 128 of the buffer, the clock of the ticks does not go back, and
  no card comes back within two seconds after another one was seen in between.
\<close>

lemma card_scans:
  assumes "rfid_reader_start True = Some r" "ticks_fit [] ticks" "sorted (map fst ticks)"
    "no_switch_back [] (sightings [] ticks)"
  shows "snd (reader_ticks collect ticks (r, [])) = spaced [] (sightings [] ticks) \<and>
    map fst (sightings [] ticks) = shown (fst (peel_all card_peel (concat (concat (map snd ticks)))))"
proof -
  have r: "r_rx r = []" "r_open r" "r_active r" "reader_last r = None" using assms(1) by (auto simp: rfid_reader_start_def reader_last_def)
  have "card_peel [] = More" by (simp add: card_peel_def rfid_parse_frame_def)
  then show ?thesis using run_ticks_collect [of r ticks "[]"] assms(2) r sightings_cards [of "[]" ticks] debounced_runs [OF assms(3,4)] by simp
qed

text \<open>A card is presented in two pieces, again after half a second, and again after three seconds, and then
  another card.\<close>

abbreviation "presented \<equiv> [0x09, 0x20, 1, 2, 3, 4, 0, 0, 0, 0x2D :: u8]"
abbreviation "other_card \<equiv> [0x09, 0x20, 1, 2, 3, 5, 0, 0, 0, 0x2C :: u8]"

lemma card_scans_witness:
  "\<exists>r. rfid_reader_start True = Some r \<and>
     snd (reader_ticks collect [(100, [[0x09, 0x20, 1], [2, 3]]), (150, [[4, 0, 0, 0, 0x2D]]), (650, [presented]), (3650, [presented]), (3700, [other_card])] (r, [])) =
       [ascii ''01020304'', ascii ''01020304'', ascii ''01020305'']"
proof -
  let ?ticks = "[(100, [[0x09, 0x20, 1], [2, 3]]), (150, [[4, 0, 0, 0, 0x2D]]), (650, [presented]), (3650, [presented]), (3700, [other_card])] :: (int \<times> u8 list list) list"
  obtain r where r: "rfid_reader_start True = Some r" by (simp add: rfid_reader_start_def)
  have fit: "ticks_fit [] ?ticks" by code_simp
  have calm: "sorted (map fst ?ticks)" "no_switch_back [] (sightings [] ?ticks)" by code_simp+
  have "spaced [] (sightings [] ?ticks) = [ascii ''01020304'', ascii ''01020304'', ascii ''01020305'']" by code_simp
  then show ?thesis using card_scans [OF r fit calm] r by (intro exI [of _ r]) simp
qed

section \<open>The main loop\<close>

text \<open>A turn of a working network: the broker accepts, the socket takes every packet, nothing is received.\<close>

definition good_turn :: "turn \<Rightarrow> bool" where
  "good_turn t \<longleftrightarrow> t_tcp t \<and> t_first t = Got CONNACK \<and> takes_all 288 \<lparr>sends = t_sends t, wire = []\<rparr> \<and> t_recv t = []"

text \<open>Turns for the examples.\<close>

definition turn_at :: "int \<Rightarrow> bool \<Rightarrow> turn" where
  "turn_at time tcp = \<lparr>t_time = time, t_time_after = time, t_tcp = tcp, t_first = Got CONNACK, t_sends = replicate 300 (Sent MQTT_BUF),
     t_cells = (\<lambda>i. 3), t_tick_ms = 0, t_tick_cells = (\<lambda>i. 3), t_recv = [], t_card_ms = 0, t_card_rx = [], t_scan_ms = 0\<rparr>"

lemma turn_at_good: "good_turn (turn_at time True)"
  by (auto simp: good_turn_def turn_at_def takes_all_def intro!: exI [of _ 300])

lemma turn_at_down: "\<not> adapter_up (bridge_turn (turn_at 0 False) (bridge_start pref dev user pass wr rf port cells))"
  by (simp add: bridge_turn_def bridge_connect_def bridge_start_def turn_at_def bridge_publish_def bridge_serve_def bridge_cards_def
      nb_init_def mqtt_client_connect_def Let_def split: option.split prod.split)

text \<open>C26: after any run of the main loop that ends with the adapter up and its socket open, the last message
  the broker has on the topic of every integer field of the state is the printed value that the
  segment had in the last turn, whatever failures, reconnections, commands and card scans came before. The configuration does not
  change during the run, and its prefix and device name have at most 142 bytes together, counting the
  name as at least 6: longer topics would be cut and could coincide.
\<close>

lemma mirror_in_sync:
  assumes "length pref + max 6 (length dev) \<le> 142"
    "b = fold bridge_turn (ts @ [t]) (bridge_start pref dev user pass wr rf port cells)"
    "adapter_up b" "fd_open (a_client (br_adapter b))" "(x, f, r) \<in> set exact_fields"
  shows "latest (wire (br_sock b)) (state_topic (br_adapter b) f) =
    Some (fit 384 (r (charger_state_read \<lparr>sm_base = Some (t_cells t), sm_size = SHMEM_SIZE, sm_writable = wr\<rparr>)))"
proof -
  let ?b0 = "bridge_start pref dev user pass wr rf port cells" and ?b1 = "fold bridge_turn ts (bridge_start pref dev user pass wr rf port cells)"
  have "bridge_ok ?b0" using assms(1)
    by (auto simp: bridge_ok_def bridge_start_def topics_fit_def mqtt_adapter_create_def ascii_def)
  note ok = turns_ok [OF this, of ts]
  have b: "b = bridge_turn t ?b1" using assms(2) by simp
  have seg: "attached wr (br_shm (bridge_connect t ?b1))"
    using turns_segment [OF start_segment] turn_segment(2) [OF turns_segment [OF start_segment]] by simp
  have "br_prev b = charger_state_read \<lparr>sm_base = Some (t_cells t), sm_size = SHMEM_SIZE, sm_writable = wr\<rparr>"
    using turn_ok(2) [OF ok, of t] assms(3) left_by_others_eq [OF seg] by (simp add: b)
  moreover have "mirrors (br_adapter b) (br_prev b) (br_sock b)"
    using turn_ok(1) [OF ok, of t] assms(3,4) by (simp add: b bridge_ok_def mirror_ok_def)
  ultimately show ?thesis using assms(5) by (auto simp: mirrors_def)
qed

text \<open>The rated current, 3 in the segment, after a first turn.\<close>

lemma mirror_in_sync_witness:
  "latest (wire (br_sock (bridge_turn (turn_at 0 True) (bridge_start [100] [101] [] [] True False False (\<lambda>i. 0)))))
     (ascii ''d/e/rated_amps'') = Some (ascii ''3'')"
proof -
  let ?b0 = "bridge_start [100] [101] [] [] True False False (\<lambda>i. 0)" and ?t = "turn_at 0 True"
  have start: "\<not> adapter_up ?b0" "adapter_fits (br_adapter ?b0)" "reader_small ?b0" "next_broker_retry ?b0 \<le> t_time ?t"
    by (auto simp: reader_small_def bridge_start_def topics_fit_def adapter_fits_def mqtt_adapter_create_def ascii_def turn_at_def)
  note g = turn_at_good [of 0, unfolded good_turn_def]
  have up: "adapter_up (bridge_turn ?t ?b0)" "fd_open (a_client (br_adapter (bridge_turn ?t ?b0)))"
    using turn_connects [OF start] g by blast+
  have "same_topics (br_adapter ?b0) (br_adapter (bridge_turn ?t ?b0))" by (rule turn_same)
  then have topic: "state_topic (br_adapter (bridge_turn ?t ?b0)) ''rated_amps'' = ascii ''d/e/rated_amps''"
    by (simp add: same_topics_def state_topic_def bridge_start_def mqtt_adapter_create_def ascii_def)
  have f: "(CS_DIRTY_RATED_AMPS, ''rated_amps'', \<lambda>cs. dec (unat (rated_amps cs))) \<in> set exact_fields"
    by (simp add: exact_fields_def state_fields_def)
  have v: "rated_amps (charger_state_read \<lparr>sm_base = Some (t_cells ?t), sm_size = SHMEM_SIZE, sm_writable = True\<rparr>) = 3"
    by (simp add: charger_state_read_def shmem_u8_def turn_at_def)
  have l: "length [100 :: u8] + max 6 (length [101 :: u8]) \<le> 142" by simp
  have e: "bridge_turn ?t ?b0 = fold bridge_turn ([] @ [?t]) ?b0" by simp
  show ?thesis using mirror_in_sync [OF l e up f] unfolding topic v by (simp add: dec.simps ascii_def)
qed

text \<open>C27: the daemon finds back to the broker, with or without a card reader. However the connection failed
  before, if the adapter is down, then a turn that comes 60 seconds or more after every earlier turn,
  in which the broker accepts, the socket takes 288 packets whole and nothing is received, ends with
  the adapter up, the socket open, and the topic of every integer field holding the segment's value.
  The prefix and the device name have at most 142 bytes together, counting the name as at least 6, and
  the user name and the password fewer than 128 bytes each.
\<close>

lemma broker_recovers:
  assumes "length pref + max 6 (length dev) \<le> 142" "length user < 128" "length pass < 128"
    "b = fold bridge_turn ts (bridge_start pref dev user pass wr rf port cells)" "\<not> adapter_up b"
    "0 \<le> last_time" "\<forall>u \<in> set ts. t_time_after u \<le> last_time" "last_time + 60 \<le> t_time t" "good_turn t"
  shows "adapter_up (bridge_turn t b) \<and> fd_open (a_client (br_adapter (bridge_turn t b))) \<and>
    mirrors (br_adapter (bridge_turn t b)) (charger_state_read \<lparr>sm_base = Some (t_cells t), sm_size = SHMEM_SIZE, sm_writable = wr\<rparr>)
      (br_sock (bridge_turn t b))"
proof -
  let ?b0 = "bridge_start pref dev user pass wr rf port cells"
  have start: "adapter_fits (br_adapter ?b0)" "bridge_ok ?b0" "br_bo ?b0 = 0" "next_broker_retry ?b0 = 0"
    using assms(1-3) by (auto simp: bridge_ok_def bridge_start_def topics_fit_def adapter_fits_def mqtt_adapter_create_def ascii_def)
  have fits: "adapter_fits (br_adapter b)" "reader_small b"
    using turns_same [of ?b0 ts] start(1) adapter_fits_same turns_reader_small [OF start_reader_small] assms(4) by auto
  have retry: "next_broker_retry b \<le> t_time t"
    using turns_retry [of ts last_time ?b0] start(3,4) assms(4,6-8) by simp
  have ok: "bridge_ok b" using turns_ok [OF start(2)] assms(4) by simp
  note up = turn_connects [OF assms(5) fits retry] and t = assms(9) [unfolded good_turn_def]
  have u: "adapter_up (bridge_turn t b)" "fd_open (a_client (br_adapter (bridge_turn t b)))" using up t by blast+
  have seg: "attached wr (br_shm (bridge_connect t b))"
    using turns_segment [OF start_segment] turn_segment(2) [OF turns_segment [OF start_segment]] assms(4) by simp
  have "mirrors (br_adapter (bridge_turn t b)) (br_prev (bridge_turn t b)) (br_sock (bridge_turn t b))"
    using turn_ok(1) [OF ok, of t] u by (simp add: bridge_ok_def mirror_ok_def)
  then show ?thesis using u turn_ok(2) [OF ok u(1)] left_by_others_eq [OF seg] by simp
qed

text \<open>A turn that cannot connect, and a good one two minutes later, with the card reader on.\<close>

lemma broker_recovers_witness:
  "adapter_up (fold bridge_turn [turn_at 0 False, turn_at 120 True] (bridge_start [100] [101] [] [] True True True (\<lambda>i. 0)))"
  using broker_recovers [of "[100]" "[101]" "[]" "[]" _ "[turn_at 0 False]" True True True "\<lambda>i. 0" 0 "turn_at 120 True"]
    turn_at_good turn_at_down by (simp add: turn_at_def)

end
