(* ===== verification/Board.thy ===== *)
theory Board
  imports Panel_Runs Persist_Task
begin

text \<open>
  The four tasks of the controller together. The communications task and the panel act on the
  queues themselves (\<open>ui_step\<close>); what a supervisor tick emits is delivered to the link and to the
  persist queue right after it (\<open>deliver\<close>), and a pass of the persist task takes the oldest request,
  serves it, sends its frames and asks the supervisor to publish again (\<open>persist_pass\<close>). \<open>bd_served\<close>
  is a history of the requests served. The configuration a tick reads is an argument of its event,
  not tied to the flash.
\<close>

record 'c board =
  bd_comms :: comms_state
  bd_io :: io_state
  bd_persist :: "'c persist_state"
  bd_served :: "persist_req list"

text \<open>An effect of the supervisor, where it goes.\<close>

fun deliver :: "comms_env \<Rightarrow> effect \<Rightarrow> comms_state \<Rightarrow> comms_state" where
  "deliver e (Publish evt p) c = snd (comms_publish_event e evt p c)"
| "deliver e (PostEvent rec) c = to_persist (persist_post_event rec) c"
| "deliver e (PostSession rec) c = to_persist (persist_post_session rec) c"
| "deliver e (PostAuthlistAdd uid) c = to_persist (persist_post_rfid_authlist_add uid) c"
| "deliver e _ c = c"

definition ui_pass :: "comms_env \<Rightarrow> ui_event \<Rightarrow> 'c board \<Rightarrow> 'c board" where
  "ui_pass e ev b =
     (let (c, i) = ui_step ev (bd_comms b, bd_io b);
          new = drop (length (outs (sup (bd_comms b)))) (outs (sup c))
      in b\<lparr>bd_comms := fold (deliver e) new c, bd_io := i\<rparr>)"

fun ask_req :: "persist_ask \<Rightarrow> safety_req_type" where
  "ask_req ASK_RFID_CONFIG = SAFETY_REQ_PUBLISH_RFID_CONFIG"
| "ask_req ASK_GFCI_POLICY = SAFETY_REQ_PUBLISH_GFCI_POLICY"

definition post_answer :: "comms_env \<Rightarrow> frame \<Rightarrow> comms_state \<Rightarrow> comms_state" where
  "post_answer e f c = (let (ev, seq, p) = f in snd (comms_publish_event_seq e ev seq p c))"

definition persist_pass :: "'c spi \<Rightarrow> comms_env \<Rightarrow> 'c board \<Rightarrow> 'c board" where
  "persist_pass X e b =
     (let c = bd_comms b; st = bd_persist b;
          (q, st') = persist_task_pass X (pq c, st);
          frames = drop (length (p_frames st)) (p_frames st');
          asks = drop (length (p_asks st)) (p_asks st')
      in b\<lparr>bd_comms := fold (\<lambda>a. post_safety (ask_req a) 0 0) asks (fold (post_answer e) frames (c\<lparr>pq := q\<rparr>)),
           bd_persist := st', bd_served := bd_served b @ take 1 (waiting (pq c))\<rparr>)"

datatype board_event = Ui comms_env ui_event | Serve comms_env

fun board_step :: "'c spi \<Rightarrow> board_event \<Rightarrow> 'c board \<Rightarrow> 'c board" where
  "board_step X (Ui e ev) b = ui_pass e ev b"
| "board_step X (Serve e) b = persist_pass X e b"

definition board_run :: "'c spi \<Rightarrow> board_event list \<Rightarrow> 'c board \<Rightarrow> 'c board" where
  "board_run X evs b = fold (board_step X) evs b"

text \<open>After boot: the supervisor's boot events and the panel's startup record are delivered.\<close>

definition board_boot :: "comms_env \<Rightarrow> u32 \<Rightarrow> u16 \<Rightarrow> safety_state \<Rightarrow> 'c persist_state \<Rightarrow> 'c board" where
  "board_boot e tick mv s st =
     (let (c, i) = io_boot tick mv (fold (deliver e) (outs s) (comms_boot s))
      in \<lparr>bd_comms = c, bd_io = i, bd_persist = st, bd_served = []\<rparr>)"

section \<open>What the queue holds and the link sends\<close>

definition traffic_ok :: "comms_state \<Rightarrow> bool" where
  "traffic_ok c \<longleftrightarrow> queue_valid c \<and> sent_ok c"

lemma posted_ok:
  "traffic_ok c \<Longrightarrow> request_valid r \<Longrightarrow> (\<And>q. f q = post_persist r q) \<Longrightarrow> traffic_ok (to_persist f c)"
  using post_valid_defs [of c r f] by (simp add: traffic_ok_def)

lemma sent_frame_ok: "traffic_ok c \<Longrightarrow> traffic_ok (snd (send_frame e cmd seq p c))"
  by (simp add: traffic_ok_def send_ok)

lemma deliver_ok:
  assumes "traffic_ok c"
  shows "traffic_ok (deliver e x c)"
proof (cases x)
  case (PostEvent rec)
  then show ?thesis using posted_ok [OF assms, of "PERSIST_REQ_EVENT rec"] by (simp add: persist_post_event_def)
next
  case (PostSession rec)
  then show ?thesis using posted_ok [OF assms, of "PERSIST_REQ_SESSION rec"] by (simp add: persist_post_session_def)
next
  case (PostAuthlistAdd uid)
  then show ?thesis
    using posted_ok [OF assms, of "PERSIST_REQ_RFID_AUTHLIST_ADD uid"] by (simp add: persist_post_rfid_authlist_add_def)
qed (simp_all add: assms comms_publish_event_def sent_frame_ok)

lemma fold_ok: "(\<And>x c. traffic_ok c \<Longrightarrow> traffic_ok (f x c)) \<Longrightarrow> traffic_ok c \<Longrightarrow> traffic_ok (fold f xs c)"
  by (induction xs arbitrary: c) simp_all

lemma panel_ok: "traffic_ok (fst x) \<Longrightarrow> traffic_ok (fst (io_pass e x))"
proof -
  obtain c i where x: "x = (c, i)" by (cases x)
  let ?d = "fst (io_pass e (c, i))"
  have q: "pq ?d = pq c \<or> pq ?d = snd (post_persist PERSIST_REQ_CRASH_STATE_RESET (pq c))"
    by (simp add: pass_fields persist_post_crash_state_reset_def)
  have s: "sent ?d = sent c"
    by (simp add: io_pass_eq Let_def io_alive_def io_sounds_def button_pressed_def safety_request_pause_def
        safety_request_resume_def post_safety_def to_persist_def case_prod_unfold)
  assume "traffic_ok (fst x)"
  then have "queue_valid c" "sent_ok c" by (simp_all add: x traffic_ok_def)
  then show ?thesis
    using q s post_valid [of c PERSIST_REQ_CRASH_STATE_RESET]
    by (auto simp: x traffic_ok_def queue_valid_def sent_ok_def to_persist_def)
qed

lemma ui_step_ok: "traffic_ok (fst x) \<Longrightarrow> traffic_ok (fst (ui_step ev x))"
  by (cases x; cases ev) (simp_all add: panel_ok traffic_ok_def step_valid step_sent, simp_all add: panel_ok flip: traffic_ok_def)

lemma ui_pass_ok: "traffic_ok (bd_comms b) \<Longrightarrow> traffic_ok (bd_comms (ui_pass e ev b))"
  using ui_step_ok [of "(bd_comms b, bd_io b)" ev]
  by (simp add: ui_pass_def Let_def case_prod_unfold fold_ok deliver_ok)

lemma answer_ok: "traffic_ok c \<Longrightarrow> traffic_ok (post_answer e f c)"
  by (simp add: post_answer_def case_prod_unfold Let_def comms_publish_event_seq_def sent_frame_ok)

lemma post_safety_ok: "traffic_ok c \<Longrightarrow> traffic_ok (post_safety ty a b c)"
  by (simp add: traffic_ok_def)

text \<open>The invariant of a run: valid traffic, valid requests served, and the state of the persist task
  that of serving them in order.\<close>

definition board_ok :: "'c spi \<Rightarrow> 'c persist_state \<Rightarrow> 'c board \<Rightarrow> bool" where
  "board_ok X st b \<longleftrightarrow> traffic_ok (bd_comms b) \<and> list_all request_valid (bd_served b) \<and>
     bd_persist b = persist_run X (bd_served b) st"

lemma persist_pass_ok: "board_ok X st b \<Longrightarrow> board_ok X st (persist_pass X e b)"
proof -
  let ?c = "bd_comms b" let ?t = "persist_task_pass X (pq ?c, bd_persist b)"
  assume ok: "board_ok X st b"
  then have q: "queue_ok (pq ?c)" "\<forall>r \<in> set (waiting (pq ?c)). request_valid r" "sent_ok ?c"
    by (simp_all add: board_ok_def traffic_ok_def queue_valid_def)
  have "traffic_ok (?c\<lparr>pq := fst ?t\<rparr>)"
    using q by (auto simp: traffic_ok_def queue_valid_def queue_ok_def sent_ok_def persist_task_pass_def split: list.split)
  then have "traffic_ok (bd_comms (persist_pass X e b))"
    by (simp add: persist_pass_def Let_def case_prod_unfold fold_ok answer_ok post_safety_ok)
  moreover have "list_all request_valid (bd_served (persist_pass X e b))"
    using ok q(2) by (cases "waiting (pq ?c)") (simp_all add: board_ok_def persist_pass_def Let_def case_prod_unfold)
  moreover have "bd_persist (persist_pass X e b) = persist_run X (bd_served (persist_pass X e b)) st"
    using ok by (cases "waiting (pq ?c)")
      (simp_all add: board_ok_def persist_pass_def persist_task_pass_def persist_run_def Let_def case_prod_unfold)
  ultimately show ?thesis by (simp add: board_ok_def)
qed

lemma board_step_ok: "board_ok X st b \<Longrightarrow> board_ok X st (board_step X ev b)"
proof (cases ev)
  case (Ui e u)
  have "bd_persist (ui_pass e u b) = bd_persist b" "bd_served (ui_pass e u b) = bd_served b"
    by (simp_all add: ui_pass_def Let_def case_prod_unfold)
  with Ui show "board_ok X st b \<Longrightarrow> ?thesis" by (simp add: board_ok_def ui_pass_ok)
next
  case (Serve e)
  then show "board_ok X st b \<Longrightarrow> ?thesis" by (simp add: persist_pass_ok)
qed

lemma board_run_ok: "board_ok X st b \<Longrightarrow> board_ok X st (board_run X evs b)"
  unfolding board_run_def by (induction evs arbitrary: b) (simp_all add: board_step_ok)

lemma board_boot_ok: "board_ok X st (board_boot e tick mv s st)"
proof -
  have "traffic_ok (comms_boot s)" by (simp add: traffic_ok_def boot_link_ok)
  then have "traffic_ok (fold (deliver e) (outs s) (comms_boot s))" by (intro fold_ok) (simp_all add: deliver_ok)
  then have "traffic_ok (to_persist (persist_post_event (startup_record tick mv)) (fold (deliver e) (outs s) (comms_boot s)))"
    by (rule posted_ok [of _ "PERSIST_REQ_EVENT (startup_record tick mv)"]) (simp_all add: persist_post_event_def)
  then show ?thesis by (simp add: board_boot_def io_boot_def board_ok_def persist_run_def)
qed

section \<open>Guarantees\<close>

text \<open>C25: In every run of the four tasks from boot (interrupts, communications passes, supervisor ticks,
  panel passes and passes of the persist task in any order, over any inputs and whatever the flash
  answers) the persist queue holds at most eight requests; every request that waits or was served,
  whichever task posted it, is within the handlers' range checks (advertised amps at most 48, a
  calibration with a non-zero slope denominator and a 12-bit anchor, a flag of 0 or 1, a chunk of
  1 to 48 bytes); the state of the persist task is that of serving those requests in order; and
  every frame sent, answers and events alike, parses back as one frame.\<close>

theorem requests_valid:
  "let b = board_run X evs (board_boot e tick mv s st); q = waiting (pq (bd_comms b))
   in length q \<le> PERSIST_QUEUE_DEPTH \<and> list_all request_valid (bd_served b @ q) \<and>
     bd_persist b = persist_run X (bd_served b) st \<and> list_all frame_ok (sent (bd_comms b))"
proof -
  have "board_ok X st (board_run X evs (board_boot e tick mv s st))" by (rule board_run_ok [OF board_boot_ok])
  then show ?thesis
    by (simp add: board_ok_def traffic_ok_def queue_valid_def queue_ok_def sent_ok_def list_all_iff Let_def ball_Un)
qed

end
