(* ===== verification/Config_File.thy ===== *)
theory Config_File
  imports C_Text
begin

text \<open>
  The configuration file of the companion daemon: \<^verbatim>\<open>companion/src/config.c\<close>, which reads it, and \<open>write_config_file\<close> of
  \<^verbatim>\<open>companion/src/web.c\<close>, which writes it. A string field holds at most 127 bytes. The contents of a file are a byte list, \<open>None\<close> when it
  cannot be opened. The last section shows that a configuration the file format can express is read back as it was
  written.
\<close>

abbreviation (input) "CONFIG_STR_MAX \<equiv> (128 :: nat)"

record config =
  broker_host :: "u8 list"
  broker_port :: int
  broker_user :: "u8 list"
  broker_pass :: "u8 list"
  topic_prefix :: "u8 list"
  device_id :: "u8 list"
  poll_hz :: int
  log_level :: "u8 list"
  log_path :: "u8 list"
  write_enable :: bool
  web_enable :: bool
  web_port :: int
  web_user :: "u8 list"
  web_pass :: "u8 list"
  rfid_enable :: bool
  rfid_port :: "u8 list"
  meter_v_scale :: rat

definition config_defaults :: config where
  "config_defaults =
     \<lparr>broker_host = ascii ''127.0.0.1'', broker_port = 1883, broker_user = [], broker_pass = [],
      topic_prefix = ascii ''delta-bridge'', device_id = [], poll_hz = 1, log_level = ascii ''info'',
      log_path = ascii ''/Storage/delta-bridge/bridge-boot.log'', write_enable = False, web_enable = False, web_port = 8080,
      web_user = [], web_pass = [], rfid_enable = False, rfid_port = ascii ''/dev/ttyAMA4'', meter_v_scale = 60\<rparr>"

section \<open>Reading\<close>

definition trim :: "u8 list \<Rightarrow> u8 list" where
  "trim s = trim_end (dropWhile (\<lambda>b. b = 32 \<or> b = 9) s)"

definition set_str :: "u8 list \<Rightarrow> u8 list" where
  "set_str src = fit CONFIG_STR_MAX src"

text \<open>\<open>None\<close> is the code's -1.\<close>

definition parse_bool :: "u8 list \<Rightarrow> bool option" where
  "parse_bool v =
     (if strcaseeq v (ascii ''true'') \<or> strcaseeq v (ascii ''yes'') \<or> strcaseeq v (ascii ''on'') \<or> v = ascii ''1'' then Some True
      else if strcaseeq v (ascii ''false'') \<or> strcaseeq v (ascii ''no'') \<or> strcaseeq v (ascii ''off'') \<or> v = ascii ''0'' then Some False
      else None)"

definition config_bool :: "u8 list \<Rightarrow> bool" where
  "config_bool v = (case parse_bool v of None \<Rightarrow> False | Some b \<Rightarrow> b)"

definition scale_ok :: "rat \<Rightarrow> bool" where
  "scale_ok d \<longleftrightarrow> d > 0 \<and> d < 10000"

definition config_key :: "u8 list \<Rightarrow> u8 list \<Rightarrow> config \<Rightarrow> config" where
  "config_key key val c =
     (if key = ascii ''broker_host'' then c\<lparr>broker_host := set_str val\<rparr>
      else if key = ascii ''broker_port'' then c\<lparr>broker_port := atoi val\<rparr>
      else if key = ascii ''broker_user'' then c\<lparr>broker_user := set_str val\<rparr>
      else if key = ascii ''broker_pass'' then c\<lparr>broker_pass := set_str val\<rparr>
      else if key = ascii ''topic_prefix'' then c\<lparr>topic_prefix := set_str val\<rparr>
      else if key = ascii ''device_id'' then c\<lparr>device_id := set_str val\<rparr>
      else if key = ascii ''poll_hz'' then c\<lparr>poll_hz := atoi val\<rparr>
      else if key = ascii ''log_level'' then c\<lparr>log_level := set_str val\<rparr>
      else if key = ascii ''log_path'' then c\<lparr>log_path := set_str val\<rparr>
      else if key = ascii ''write_enable'' then c\<lparr>write_enable := config_bool val\<rparr>
      else if key = ascii ''web_enable'' then c\<lparr>web_enable := config_bool val\<rparr>
      else if key = ascii ''web_port'' then c\<lparr>web_port := atoi val\<rparr>
      else if key = ascii ''web_user'' then c\<lparr>web_user := set_str val\<rparr>
      else if key = ascii ''web_pass'' then c\<lparr>web_pass := set_str val\<rparr>
      else if key = ascii ''rfid_enable'' then c\<lparr>rfid_enable := config_bool val\<rparr>
      else if key = ascii ''rfid_port'' then c\<lparr>rfid_port := set_str val\<rparr>
      else if key = ascii ''meter_v_scale''
        then (case fst (strtod val) of Some d \<Rightarrow> if scale_ok d then c\<lparr>meter_v_scale := d\<rparr> else c | None \<Rightarrow> c)
      else c)"

definition config_line :: "u8 list \<Rightarrow> config \<Rightarrow> config" where
  "config_line line c =
     (let s = trim line
      in if s = [] \<or> hd s = 35 then c
         else if 61 \<notin> set s then c
         else config_key (trim (takeWhile (\<lambda>b. b \<noteq> 61) s)) (trim (drop 1 (dropWhile (\<lambda>b. b \<noteq> 61) s))) c)"

text \<open>A line longer than the buffer of 256 goes on as a line of its own.\<close>

function conf_lines :: "u8 list \<Rightarrow> u8 list list" where
  "conf_lines p =
     (if p = [] then []
      else let line = take 255 (takeWhile (\<lambda>b. b \<noteq> 10) p); rest = drop (length line) p
           in line # conf_lines (if rest \<noteq> [] \<and> hd rest = 10 then tl rest else rest))"
  by pat_completeness auto

termination
proof (relation "measure length")
  fix p line rest :: "u8 list"
  assume p: "p \<noteq> []" "line = take 255 (takeWhile (\<lambda>b. b \<noteq> 10) p)" "rest = drop (length line) p"
  show "(if rest \<noteq> [] \<and> hd rest = 10 then tl rest else rest, p) \<in> measure length"
  proof (cases "hd p = 10")
    case True
    then have "line = []" using p(1,2) by (cases p) simp_all
    then show ?thesis using True p(1,3) by (cases p) simp_all
  next
    case False
    then have "line \<noteq> []" using p(1,2) by (cases p) simp_all
    then show ?thesis using p(1,3) by (cases p; cases line) (auto simp: less_Suc_eq_le)
  qed
qed simp

declare conf_lines.simps [simp del]

definition config_parse :: "u8 list \<Rightarrow> config \<Rightarrow> config" where
  "config_parse txt c =
     (let c1 = fold config_line (conf_lines txt) c;
          c2 = (if poll_hz c1 < 1 then c1\<lparr>poll_hz := 1\<rparr> else c1);
          c3 = (if web_port c2 < 1 \<or> web_port c2 > 65535 then c2\<lparr>web_port := 8080\<rparr> else c2)
      in if \<not> scale_ok (meter_v_scale c3) then c3\<lparr>meter_v_scale := 60\<rparr> else c3)"

definition config_load :: "u8 list option \<Rightarrow> int \<times> config" where
  "config_load contents =
     (case contents of None \<Rightarrow> (-1, config_defaults)
      | Some bs \<Rightarrow> (0, config_parse (cstr (take 4095 bs)) config_defaults))"

section \<open>Writing\<close>

definition conf_entry :: "string \<Rightarrow> u8 list \<Rightarrow> u8 list" where
  "conf_entry key val = ascii key @ val"

definition config_entries :: "config \<Rightarrow> u8 list list" where
  "config_entries c =
     [conf_entry ''broker_host  = '' (broker_host c), conf_entry ''broker_port  = '' (dec_int (broker_port c))] @
     (if broker_user c \<noteq> [] then [conf_entry ''broker_user  = '' (broker_user c)] else []) @
     (if broker_pass c \<noteq> [] then [conf_entry ''broker_pass  = '' (broker_pass c)] else []) @
     [conf_entry ''topic_prefix = '' (topic_prefix c)] @
     (if device_id c \<noteq> [] then [conf_entry ''device_id    = '' (device_id c)] else []) @
     [conf_entry ''poll_hz      = '' (dec_int (poll_hz c)),
      conf_entry ''write_enable = '' (ascii (if write_enable c then ''true'' else ''false'')),
      conf_entry ''web_enable   = '' (ascii (if web_enable c then ''true'' else ''false'')),
      conf_entry ''web_port     = '' (dec_int (web_port c))] @
     (if web_user c \<noteq> [] then [conf_entry ''web_user     = '' (web_user c)] else []) @
     (if web_pass c \<noteq> [] then [conf_entry ''web_pass     = '' (web_pass c)] else []) @
     [conf_entry ''log_level    = '' (log_level c), conf_entry ''log_path     = '' (log_path c),
      conf_entry ''rfid_enable  = '' (ascii (if rfid_enable c then ''true'' else ''false'')),
      conf_entry ''rfid_port    = '' (rfid_port c), conf_entry ''meter_v_scale = '' (fixed 3 (meter_v_scale c))]"

text \<open>The first line ends in a dash of three bytes and more text.\<close>

definition config_title :: "u8 list" where
  "config_title = ascii ''# delta-bridge configuration '' @ [0xE2, 0x80, 0x94] @ ascii '' written by web UI''"

definition write_config_file :: "config \<Rightarrow> u8 list" where
  "write_config_file c = concat (map (\<lambda>l. l @ [10]) (config_title # config_entries c))"

section \<open>A line that was written\<close>

text \<open>A string that survives the file: it fits its field, has no line end and no zero, and is not trimmed.\<close>

definition plain :: "u8 list \<Rightarrow> bool" where
  "plain s \<longleftrightarrow> length s < CONFIG_STR_MAX \<and> 10 \<notin> set s \<and> 0 \<notin> set s \<and> (s \<noteq> [] \<longrightarrow> \<not> blank (hd s) \<and> \<not> blank (last s))"

lemma trim_kept: "s \<noteq> [] \<Longrightarrow> \<not> blank (hd s) \<Longrightarrow> \<not> blank (last s) \<Longrightarrow> trim s = s"
  by (cases s) (auto simp: trim_def trim_end_kept blank_def)

lemma trim_value: "(v \<noteq> [] \<longrightarrow> \<not> blank (hd v) \<and> \<not> blank (last v)) \<Longrightarrow> trim (32 # v) = v \<and> trim v = v"
  using trim_kept [of v] by (cases "v = []") (simp_all add: trim_def trim_end.simps)

lemma trim_key: "k \<noteq> [] \<Longrightarrow> list_all (\<lambda>b. \<not> blank b) k \<Longrightarrow> trim (k @ replicate n 32) = k"
proof -
  assume k: "k \<noteq> []" "list_all (\<lambda>b. \<not> blank b) k"
  then have "dropWhile (\<lambda>b. b = 32 \<or> b = 9) (k @ replicate n 32) = k @ replicate n 32"
    by (cases k) (auto simp: blank_def)
  moreover have "list_all blank (replicate n 32)" by (simp add: list_all_iff blank_def)
  moreover have "\<not> blank (last k)" using k by (simp add: list_all_iff)
  ultimately show ?thesis using k(1) by (simp add: trim_def trim_end_blanks trim_end_kept)
qed

lemma entry_line:
  assumes "key = k @ replicate n 32 @ [61, 32]" "k \<noteq> []" "list_all (\<lambda>b. \<not> blank b) k" "61 \<notin> set k" "hd k \<noteq> 35"
    "v \<noteq> [] \<longrightarrow> \<not> blank (hd v) \<and> \<not> blank (last v)"
  shows "config_line (key @ v) c = config_key k v c"
proof -
  have tk: "takeWhile (\<lambda>b. b \<noteq> 61) (k @ replicate n 32 @ 61 # r) = k @ replicate n 32"
    "dropWhile (\<lambda>b. b \<noteq> 61) (k @ replicate n 32 @ 61 # r) = 61 # r" for r
  proof -
    have all: "\<forall>b \<in> set (k @ replicate n 32). b \<noteq> 61" using assms(4) by auto
    show "takeWhile (\<lambda>b. b \<noteq> 61) (k @ replicate n 32 @ 61 # r) = k @ replicate n 32"
      using takeWhile_append2 [of "k @ replicate n 32" "\<lambda>b. b \<noteq> 61" "61 # r"] all by simp
    show "dropWhile (\<lambda>b. b \<noteq> 61) (k @ replicate n 32 @ 61 # r) = 61 # r"
      using dropWhile_append2 [of "k @ replicate n 32" "\<lambda>b. b \<noteq> 61" "61 # r"] all by simp
  qed
  have lead: "dropWhile (\<lambda>b. b = 32 \<or> b = 9) (k @ r) = k @ r" for r using assms(2,3) by (cases k) (auto simp: blank_def)
  show ?thesis
  proof (cases "v = []")
    case True
    have "trim_end ((k @ replicate n 32 @ [61]) @ [32]) = trim_end (k @ replicate n 32 @ [61])"
      by (rule trim_end_blanks) (simp add: blank_def)
    also have "\<dots> = k @ replicate n 32 @ [61]" by (rule trim_end_kept) (simp_all add: blank_def)
    finally have s: "trim (key @ v) = k @ replicate n 32 @ 61 # []" using True by (simp add: trim_def assms(1) lead)
    show ?thesis unfolding config_line_def s Let_def tk using assms(2,5) trim_key [OF assms(2,3)] True
      by (simp add: trim_def trim_end.simps)
  next
    case False
    have "trim_end (k @ replicate n 32 @ 61 # 32 # v) = k @ replicate n 32 @ 61 # 32 # v"
      using False assms(6) by (intro trim_end_kept) simp_all
    then have s: "trim (key @ v) = k @ replicate n 32 @ 61 # 32 # v" by (simp add: trim_def assms(1) lead)
    show ?thesis unfolding config_line_def s Let_def tk using assms(2,5) trim_key [OF assms(2,3)] trim_value [OF assms(6)]
      by simp
  qed
qed

lemma conf_lines_written:
  "\<forall>l \<in> set ls. 10 \<notin> set l \<and> length l \<le> 255 \<Longrightarrow> conf_lines (concat (map (\<lambda>l. l @ [10]) ls)) = ls"
proof (induction ls)
  case Nil
  then show ?case by (simp add: conf_lines.simps)
next
  case (Cons l ls)
  let ?rest = "concat (map (\<lambda>l. l @ [10]) ls)"
  have "\<forall>b \<in> set l. b \<noteq> 10" using Cons.prems by auto
  then have "takeWhile (\<lambda>b. b \<noteq> 10) (l @ 10 # ?rest) = l" by (simp add: takeWhile_append2)
  then show ?case using Cons by (simp add: conf_lines.simps [of "l @ 10 # ?rest"])
qed

section \<open>The round trip\<close>

text \<open>What the file format can express: plain strings, numbers within range, a scale of at most three decimals.\<close>

definition config_plain :: "config \<Rightarrow> bool" where
  "config_plain c \<longleftrightarrow>
     list_all plain [broker_host c, broker_user c, broker_pass c, topic_prefix c, device_id c, log_level c, log_path c,
       web_user c, web_pass c, rfid_port c] \<and>
     0 \<le> broker_port c \<and> broker_port c \<le> LONG_MAX \<and> 1 \<le> poll_hz c \<and> poll_hz c \<le> LONG_MAX \<and>
     1 \<le> web_port c \<and> web_port c \<le> 65535"

definition three_decimals :: "rat \<Rightarrow> bool" where
  "three_decimals v \<longleftrightarrow> (\<exists>k. 0 < k \<and> k < 10000000 \<and> v = double (of_nat k / 1000))"

lemma ascii_append: "ascii (a @ b) = ascii a @ ascii b"
  by (simp add: ascii_def)

lemma atoi_dec_int: "0 \<le> v \<Longrightarrow> v \<le> LONG_MAX \<Longrightarrow> atoi (dec_int v) = v"
  using strtol_dec [of "nat v" "[]"] by (simp add: atoi_def dec_int_def)

lemma digits_not_blank: "list_all is_digit s \<Longrightarrow> s \<noteq> [] \<Longrightarrow> \<not> blank (hd s) \<and> \<not> blank (last s)"
proof -
  assume d: "list_all is_digit s" "s \<noteq> []"
  then have "is_digit (hd s)" "is_digit (last s)" by (simp_all add: list_all_iff)
  then show ?thesis using digit_not by (auto simp: blank_def)
qed

lemma dec_int_ends: "0 \<le> v \<Longrightarrow> \<not> blank (hd (dec_int v)) \<and> \<not> blank (last (dec_int v))"
  using digits_not_blank [of "dec (nat v)"] dec_digits [of "nat v"] by (simp add: dec_int_def)

lemma flag_ends: "\<not> blank (hd (ascii (if b then ''true'' else ''false''))) \<and> \<not> blank (last (ascii (if b then ''true'' else ''false'')))"
  by (cases b) (simp_all add: ascii_def blank_def)

lemma flag_reads: "config_bool (ascii (if b then ''true'' else ''false'')) = b"
proof -
  have "config_bool (ascii ''true'')" "\<not> config_bool (ascii ''false'')" by code_simp+
  then show ?thesis by simp
qed

text \<open>The keys as the file has them.\<close>

lemma key_forms:
  "ascii ''broker_host  = '' = ascii ''broker_host'' @ replicate 2 32 @ [61, 32]"
  "ascii ''broker_port  = '' = ascii ''broker_port'' @ replicate 2 32 @ [61, 32]"
  "ascii ''broker_user  = '' = ascii ''broker_user'' @ replicate 2 32 @ [61, 32]"
  "ascii ''broker_pass  = '' = ascii ''broker_pass'' @ replicate 2 32 @ [61, 32]"
  "ascii ''topic_prefix = '' = ascii ''topic_prefix'' @ replicate 1 32 @ [61, 32]"
  "ascii ''device_id    = '' = ascii ''device_id'' @ replicate 4 32 @ [61, 32]"
  "ascii ''poll_hz      = '' = ascii ''poll_hz'' @ replicate 6 32 @ [61, 32]"
  "ascii ''write_enable = '' = ascii ''write_enable'' @ replicate 1 32 @ [61, 32]"
  "ascii ''web_enable   = '' = ascii ''web_enable'' @ replicate 3 32 @ [61, 32]"
  "ascii ''web_port     = '' = ascii ''web_port'' @ replicate 5 32 @ [61, 32]"
  "ascii ''web_user     = '' = ascii ''web_user'' @ replicate 5 32 @ [61, 32]"
  "ascii ''web_pass     = '' = ascii ''web_pass'' @ replicate 5 32 @ [61, 32]"
  "ascii ''log_level    = '' = ascii ''log_level'' @ replicate 4 32 @ [61, 32]"
  "ascii ''log_path     = '' = ascii ''log_path'' @ replicate 5 32 @ [61, 32]"
  "ascii ''rfid_enable  = '' = ascii ''rfid_enable'' @ replicate 2 32 @ [61, 32]"
  "ascii ''rfid_port    = '' = ascii ''rfid_port'' @ replicate 4 32 @ [61, 32]"
  "ascii ''meter_v_scale = '' = ascii ''meter_v_scale'' @ replicate 1 32 @ [61, 32]"
  by code_simp+

definition key_ok :: "u8 list \<Rightarrow> bool" where
  "key_ok k \<longleftrightarrow> k \<noteq> [] \<and> list_all (\<lambda>b. \<not> blank b) k \<and> 61 \<notin> set k \<and> hd k \<noteq> 35"

lemma keys_ok:
  "list_all (\<lambda>k. key_ok (ascii k)) [''broker_host'', ''broker_port'', ''broker_user'', ''broker_pass'', ''topic_prefix'', ''device_id'',
     ''poll_hz'', ''write_enable'', ''web_enable'', ''web_port'', ''web_user'', ''web_pass'', ''log_level'', ''log_path'',
     ''rfid_enable'', ''rfid_port'', ''meter_v_scale'']"
  by code_simp

lemma entry_key:
  assumes "ascii key = ascii k @ replicate n 32 @ [61, 32]" "key_ok (ascii k)" "v \<noteq> [] \<longrightarrow> \<not> blank (hd v) \<and> \<not> blank (last v)"
  shows "config_line (conf_entry key v) c = config_key (ascii k) v c"
  unfolding conf_entry_def using assms(2,3) by (intro entry_line [OF assms(1)]) (simp_all add: key_ok_def)

text \<open>Each entry, read into any configuration.\<close>

lemma string_entries:
  assumes "v \<noteq> [] \<longrightarrow> \<not> blank (hd v) \<and> \<not> blank (last v)"
  shows "config_line (conf_entry ''broker_host  = '' v) c = c\<lparr>broker_host := set_str v\<rparr>"
    "config_line (conf_entry ''broker_user  = '' v) c = c\<lparr>broker_user := set_str v\<rparr>"
    "config_line (conf_entry ''broker_pass  = '' v) c = c\<lparr>broker_pass := set_str v\<rparr>"
    "config_line (conf_entry ''topic_prefix = '' v) c = c\<lparr>topic_prefix := set_str v\<rparr>"
    "config_line (conf_entry ''device_id    = '' v) c = c\<lparr>device_id := set_str v\<rparr>"
    "config_line (conf_entry ''web_user     = '' v) c = c\<lparr>web_user := set_str v\<rparr>"
    "config_line (conf_entry ''web_pass     = '' v) c = c\<lparr>web_pass := set_str v\<rparr>"
    "config_line (conf_entry ''log_level    = '' v) c = c\<lparr>log_level := set_str v\<rparr>"
    "config_line (conf_entry ''log_path     = '' v) c = c\<lparr>log_path := set_str v\<rparr>"
    "config_line (conf_entry ''rfid_port    = '' v) c = c\<lparr>rfid_port := set_str v\<rparr>"
  using keys_ok by (simp_all add: key_forms [THEN entry_key, OF _ assms] config_key_def)

lemma number_entries:
  assumes "0 \<le> v" "v \<le> LONG_MAX"
  shows "config_line (conf_entry ''broker_port  = '' (dec_int v)) c = c\<lparr>broker_port := v\<rparr>"
    "config_line (conf_entry ''poll_hz      = '' (dec_int v)) c = c\<lparr>poll_hz := v\<rparr>"
    "config_line (conf_entry ''web_port     = '' (dec_int v)) c = c\<lparr>web_port := v\<rparr>"
proof -
  have e: "dec_int v \<noteq> [] \<longrightarrow> \<not> blank (hd (dec_int v)) \<and> \<not> blank (last (dec_int v))" using dec_int_ends [OF assms(1)] by simp
  show "config_line (conf_entry ''broker_port  = '' (dec_int v)) c = c\<lparr>broker_port := v\<rparr>"
    "config_line (conf_entry ''poll_hz      = '' (dec_int v)) c = c\<lparr>poll_hz := v\<rparr>"
    "config_line (conf_entry ''web_port     = '' (dec_int v)) c = c\<lparr>web_port := v\<rparr>"
    using keys_ok by (simp_all add: key_forms [THEN entry_key, OF _ e] config_key_def atoi_dec_int assms)
qed

lemma flag_entries:
  assumes "v \<noteq> [] \<longrightarrow> \<not> blank (hd v) \<and> \<not> blank (last v)"
  shows "config_line (conf_entry ''write_enable = '' v) c = c\<lparr>write_enable := config_bool v\<rparr>"
    "config_line (conf_entry ''web_enable   = '' v) c = c\<lparr>web_enable := config_bool v\<rparr>"
    "config_line (conf_entry ''rfid_enable  = '' v) c = c\<lparr>rfid_enable := config_bool v\<rparr>"
  using keys_ok by (simp_all add: key_forms [THEN entry_key, OF _ assms] config_key_def)

lemma scale_entry:
  assumes "three_decimals v"
  shows "config_line (conf_entry ''meter_v_scale = '' (fixed 3 v)) c = c\<lparr>meter_v_scale := v\<rparr>" "scale_ok v"
proof -
  obtain k where k: "0 < k" "k < 10000000" "v = double (of_nat k / 1000)" using assms by (auto simp: three_decimals_def)
  note f = strtod_fixed [OF k(2,3)]
  show ok: "scale_ok v" using f(4,5) k(1) by (simp add: scale_ok_def)
  have "is_digit b \<or> b = 46 \<Longrightarrow> \<not> blank b" for b using digit_not [of b] by (auto simp: blank_def)
  then have e: "fixed 3 v \<noteq> [] \<longrightarrow> \<not> blank (hd (fixed 3 v)) \<and> \<not> blank (last (fixed 3 v))"
    using f(2) by (simp add: list_all_iff)
  show "config_line (conf_entry ''meter_v_scale = '' (fixed 3 v)) c = c\<lparr>meter_v_scale := v\<rparr>"
    using keys_ok ok f(1) by (simp add: key_forms(17) [THEN entry_key, OF _ e] config_key_def)
qed

text \<open>Every line that is written is short and has neither a line end nor a zero.\<close>

definition clean :: "nat \<Rightarrow> u8 list \<Rightarrow> bool" where
  "clean n s \<longleftrightarrow> 10 \<notin> set s \<and> 0 \<notin> set s \<and> length s \<le> n"

lemma clean_entry: "clean 16 (ascii key) \<Longrightarrow> clean 127 v \<Longrightarrow> clean 143 (conf_entry key v)"
  by (auto simp: clean_def conf_entry_def)

lemma clean_keys:
  "list_all (\<lambda>k. clean 16 (ascii k)) [''broker_host  = '', ''broker_port  = '', ''broker_user  = '', ''broker_pass  = '',
     ''topic_prefix = '', ''device_id    = '', ''poll_hz      = '', ''write_enable = '', ''web_enable   = '', ''web_port     = '',
     ''web_user     = '', ''web_pass     = '', ''log_level    = '', ''log_path     = '', ''rfid_enable  = '', ''rfid_port    = '',
     ''meter_v_scale = '']"
  by code_simp

lemma clean_plain: "plain v \<Longrightarrow> clean 127 v"
  by (auto simp: plain_def clean_def)

lemma clean_digits: "list_all (\<lambda>b. is_digit b \<or> b = 46) s \<Longrightarrow> length s \<le> 127 \<Longrightarrow> clean 127 s"
  by (auto simp: clean_def list_all_iff dest: digit_not)

lemma clean_number: "0 \<le> v \<Longrightarrow> v \<le> LONG_MAX \<Longrightarrow> clean 127 (dec_int v)"
proof -
  assume v: "0 \<le> v" "v \<le> LONG_MAX"
  then have "length (dec (nat v)) \<le> 10" by (intro dec_length) simp_all
  then show ?thesis using dec_digits [of "nat v"] v by (intro clean_digits) (auto simp: dec_int_def list_all_iff)
qed

lemma clean_flag: "clean 127 (ascii (if b then ''true'' else ''false''))"
proof -
  have "clean 127 (ascii ''true'')" "clean 127 (ascii ''false'')" by code_simp+
  then show ?thesis by simp
qed

lemma clean_scale: "three_decimals v \<Longrightarrow> clean 127 (fixed 3 v)"
proof -
  assume "three_decimals v"
  then obtain k where k: "0 < k" "k < 10000000" "v = double (of_nat k / 1000)" by (auto simp: three_decimals_def)
  from strtod_fixed(2,3) [OF k(2,3)] show ?thesis by (intro clean_digits) simp_all
qed

lemma clean_title: "clean 143 config_title" "config_line config_title c = c"
proof -
  show "clean 143 config_title" by code_simp
  have "trim config_title \<noteq> [] \<and> hd (trim config_title) = 35" by code_simp
  then show "config_line config_title c = c" by (simp add: config_line_def Let_def)
qed

lemma clean_lines:
  assumes "config_plain c" "three_decimals (meter_v_scale c)"
  shows "list_all (clean 143) (config_title # config_entries c)"
  unfolding config_entries_def using assms clean_keys clean_title(1)
  by (simp add: config_plain_def clean_plain clean_number clean_flag clean_scale clean_entry del: fixed_def)

text \<open>An optional entry, read where the field is still empty.\<close>

lemma optional_entries:
  assumes "plain v"
  shows "broker_user c = [] \<Longrightarrow> fold config_line (if v \<noteq> [] then [conf_entry ''broker_user  = '' v] else []) c = c\<lparr>broker_user := v\<rparr>"
    "broker_pass c = [] \<Longrightarrow> fold config_line (if v \<noteq> [] then [conf_entry ''broker_pass  = '' v] else []) c = c\<lparr>broker_pass := v\<rparr>"
    "device_id c = [] \<Longrightarrow> fold config_line (if v \<noteq> [] then [conf_entry ''device_id    = '' v] else []) c = c\<lparr>device_id := v\<rparr>"
    "web_user c = [] \<Longrightarrow> fold config_line (if v \<noteq> [] then [conf_entry ''web_user     = '' v] else []) c = c\<lparr>web_user := v\<rparr>"
    "web_pass c = [] \<Longrightarrow> fold config_line (if v \<noteq> [] then [conf_entry ''web_pass     = '' v] else []) c = c\<lparr>web_pass := v\<rparr>"
proof -
  have e: "v \<noteq> [] \<longrightarrow> \<not> blank (hd v) \<and> \<not> blank (last v)" "set_str v = v" using assms by (simp_all add: plain_def set_str_def)
  note s = string_entries [OF e(1)]
  show "broker_user c = [] \<Longrightarrow> fold config_line (if v \<noteq> [] then [conf_entry ''broker_user  = '' v] else []) c = c\<lparr>broker_user := v\<rparr>"
    "broker_pass c = [] \<Longrightarrow> fold config_line (if v \<noteq> [] then [conf_entry ''broker_pass  = '' v] else []) c = c\<lparr>broker_pass := v\<rparr>"
    "device_id c = [] \<Longrightarrow> fold config_line (if v \<noteq> [] then [conf_entry ''device_id    = '' v] else []) c = c\<lparr>device_id := v\<rparr>"
    "web_user c = [] \<Longrightarrow> fold config_line (if v \<noteq> [] then [conf_entry ''web_user     = '' v] else []) c = c\<lparr>web_user := v\<rparr>"
    "web_pass c = [] \<Longrightarrow> fold config_line (if v \<noteq> [] then [conf_entry ''web_pass     = '' v] else []) c = c\<lparr>web_pass := v\<rparr>"
    by (cases "v = []"; simp add: s e(2))+
qed

lemma entries_read:
  assumes "config_plain c" "three_decimals (meter_v_scale c)"
  shows "fold config_line (config_entries c) config_defaults = c"
proof -
  have p: "plain (broker_host c)" "plain (broker_user c)" "plain (broker_pass c)" "plain (topic_prefix c)" "plain (device_id c)"
    "plain (log_level c)" "plain (log_path c)" "plain (web_user c)" "plain (web_pass c)" "plain (rfid_port c)"
    and n: "0 \<le> broker_port c" "broker_port c \<le> LONG_MAX" "0 \<le> poll_hz c" "poll_hz c \<le> LONG_MAX" "0 \<le> web_port c" "web_port c \<le> LONG_MAX"
    using assms(1) by (simp_all add: config_plain_def)
  have st: "v \<noteq> [] \<longrightarrow> \<not> blank (hd v) \<and> \<not> blank (last v)" "set_str v = v" if "plain v" for v
    using that by (simp_all add: plain_def set_str_def)
  have fl: "ascii (if b then ''true'' else ''false'') \<noteq> [] \<longrightarrow>
      \<not> blank (hd (ascii (if b then ''true'' else ''false''))) \<and> \<not> blank (last (ascii (if b then ''true'' else ''false'')))" for b
    using flag_ends by blast
  have "fold config_line (config_entries c) config_defaults =
      config_defaults\<lparr>broker_host := broker_host c, broker_port := broker_port c, broker_user := broker_user c, broker_pass := broker_pass c,
        topic_prefix := topic_prefix c, device_id := device_id c, poll_hz := poll_hz c, write_enable := write_enable c,
        web_enable := web_enable c, web_port := web_port c, web_user := web_user c, web_pass := web_pass c, log_level := log_level c,
        log_path := log_path c, rfid_enable := rfid_enable c, rfid_port := rfid_port c, meter_v_scale := meter_v_scale c\<rparr>"
    unfolding config_entries_def fold_append comp_def
    by (simp only: fold_simps string_entries [OF st(1) [OF p(1)]] string_entries [OF st(1) [OF p(4)]] string_entries [OF st(1) [OF p(6)]]
        string_entries [OF st(1) [OF p(7)]] string_entries [OF st(1) [OF p(10)]] st(2) [OF p(1)] st(2) [OF p(4)] st(2) [OF p(6)]
        st(2) [OF p(7)] st(2) [OF p(10)] number_entries [OF n(1,2)] number_entries [OF n(3,4)] number_entries [OF n(5,6)]
        flag_entries [OF fl] flag_reads scale_entry(1) [OF assms(2)])
      (simp add: optional_entries p config_defaults_def)
  then show ?thesis by (simp add: config_defaults_def)
qed

lemma written_length:
  assumes "list_all (clean 143) ls" "length ls \<le> 18"
  shows "length (concat (map (\<lambda>l. l @ [10]) ls)) \<le> 2592"
proof -
  have "length (concat (map (\<lambda>l. l @ [10]) ls)) \<le> 144 * length ls"
    using assms(1) by (induction ls) (auto simp: clean_def)
  then show ?thesis using assms(2) by linarith
qed

section \<open>Saving and loading\<close>

text \<open>C38: the configuration that the web server saves is the one that the daemon loads at its next start, every
  field of it. Each string has fewer than 128 bytes, no line end and no zero byte, and neither begins nor
  ends with a blank; the broker's port is not negative, the poll rate is at least 1, the port of the web
  server is from 1 to 65535, and the scale of the voltage is the double nearest to a number of three
  decimals above 0 and below 10000.
\<close>

lemma config_roundtrips:
  assumes "config_plain c" "three_decimals (meter_v_scale c)"
  shows "config_load (Some (write_config_file c)) = (0, c)"
proof -
  let ?ls = "config_title # config_entries c"
  note cl = clean_lines [OF assms]
  have "length ?ls \<le> 18" by (simp add: config_entries_def)
  then have len: "length (write_config_file c) \<le> 2592" unfolding write_config_file_def by (rule written_length [OF cl])
  have "\<forall>l \<in> set ?ls. 0 \<notin> set l" using cl by (auto simp: list_all_iff clean_def)
  then have "0 \<notin> set (write_config_file c)" by (auto simp: write_config_file_def)
  then have z: "cstr (take 4095 (write_config_file c)) = write_config_file c"
    using len by (auto simp: cstr_def takeWhile_eq_all_conv)
  have "\<forall>l \<in> set ?ls. 10 \<notin> set l \<and> length l \<le> 255" using cl by (auto simp: list_all_iff clean_def)
  then have "conf_lines (write_config_file c) = ?ls" unfolding write_config_file_def by (rule conf_lines_written)
  then have "fold config_line (conf_lines (write_config_file c)) config_defaults = c"
    using entries_read [OF assms] clean_title(2) by simp
  then show ?thesis using assms(1) scale_entry(2) [OF assms(2)] z by (simp add: config_load_def config_parse_def config_plain_def Let_def)
qed

text \<open>The defaults with a broker's user, a password with signs of the file format in it, a device name, and a scale of
  57.125.
\<close>

abbreviation "saved \<equiv>
  config_defaults\<lparr>broker_user := ascii ''evse'', broker_pass := ascii ''# a = b'', device_id := ascii ''garage'', poll_hz := 5,
    rfid_enable := True, meter_v_scale := double (of_nat 57125 / 1000)\<rparr>"

lemma config_roundtrips_witness: "config_load (Some (write_config_file saved)) = (0, saved)"
proof -
  have "config_plain saved" by (simp add: config_plain_def config_defaults_def) code_simp
  moreover have "three_decimals (meter_v_scale saved)" unfolding three_decimals_def by (intro exI [of _ 57125]) simp
  ultimately show ?thesis by (rule config_roundtrips)
qed

end
