(* ===== verification/Spec2Isabelle.thy ===== *)
theory Spec2Isabelle
  imports Core_Spec Safety_Spec Link_Props Persist_Spec Ui_Spec Gfci_Spec Sense_Spec Bridge_Spec
    Board Config_File
begin

text \<open>
  OpenEVCharger (\<^verbatim>\<open>src/src\<close>) is the firmware of the main controller of an electric vehicle charger: a
  Cortex-M part that watches the J1772 control pilot, closes the mains contactor, meters the energy and
  talks to a Wi-Fi module over a serial link. Four FreeRTOS tasks share it. The \<^emph>\<open>safety task\<close>
  (\<^verbatim>\<open>tasks/safety_task.c\<close>, every 20 ms) is the only one that drives the contactor and the pilot; the
  \<^emph>\<open>communications task\<close> (\<^verbatim>\<open>tasks/comms_task.c\<close>) decodes TLV frames and posts requests to the inbox
  of the safety task and to the queue of the \<^emph>\<open>persist task\<close> (\<^verbatim>\<open>tasks/persist_task.c\<close>), which owns the serial flash;
  the io task drives the lights and the buzzer. \<^verbatim>\<open>main.c\<close> brings the modules up before the tasks start.

  The model follows that structure. C structs are records with the same fields, enums datatypes with the same
  constructors, integers words of their width (\<open>u8\<close>, \<open>u16\<close>, \<open>u32\<close>), packed structs also byte lists. A C
  function is a function of the same name from the state of its module to a result and the new state;
  every early return is a branch. Log lines (\<open>printk\<close>) are left out.
\<close>

subsection \<open>Supervisor\<close>

text \<open>
  \<^item> \<open>Prelude\<close>: word types, little-endian views, facts on byte lists shared by all theories.
  \<^item> \<open>Fault\<close> (\<^verbatim>\<open>core/fault.c\<close>), \<open>J1772\<close> (\<^verbatim>\<open>core/j1772.c\<close>), \<open>Detectors\<close> (\<^verbatim>\<open>core/gfci_policy.h\<close>,
    \<^verbatim>\<open>core/over_temp.h\<close>), \<open>Rfid_Frame\<close> (\<^verbatim>\<open>core/rfid.c\<close>), \<open>System_Time\<close> (\<^verbatim>\<open>core/system_time.c\<close>),
    \<open>Hal\<close> (relay, pilot PWM and BL0939 metering of \<^verbatim>\<open>hal/gd32f205\<close>), \<open>Records\<close> (log records and command
    numbers), \<open>System_State\<close> (\<^verbatim>\<open>core/system_state.h\<close>): the pure components, each with its functional lemmas.
  \<^item> \<open>Safety_State\<close>, \<open>Safety_Detectors\<close>, \<open>Safety_Tick\<close>: \<^verbatim>\<open>tasks/safety_task.c\<close>. \<open>safety_state\<close> holds the
    locals and statics of the task, \<open>safety_tick\<close> is one pass of its loop over one set of inputs
    (\<open>tick_env\<close>: samples of the converters, pins, the metering chip and the card reader), \<open>safety_boot\<close> the part before the loop,
    \<open>reachable\<close> the states of all runs.
  \<^item> \<open>Safety_Inv\<close>, \<open>Safety_Contracts\<close>, \<open>Safety_Flow\<close>: the invariant \<open>sup_ok\<close>. The locales \<open>sup_op\<close>, \<open>detector\<close> and
    \<open>hard_detector\<close> are the contracts of the functions of a tick; every function is an interpretation.
  \<^item> \<open>Safety_Props\<close>, \<open>Safety_Trace\<close>, \<open>Safety_Live\<close>, \<open>Safety_Spec\<close>: what a tick leaves on the outputs, what runs
    of ticks preserve, progress with healthy inputs, and the guarantees stated on \<open>reachable\<close>. \<open>pilot_level\<close> is
    the pilot the states demand, as a table in numbers.
\<close>

subsection \<open>Link\<close>

text \<open>
  \<^item> \<open>Crc\<close> (\<^verbatim>\<open>persist/crc16.c\<close>, \<^verbatim>\<open>persist/crc.c\<close> and the streaming form of \<^verbatim>\<open>persist/ota_stage.c\<close>), \<open>Tlv\<close>
    (\<^verbatim>\<open>proto/tlv.c\<close>), \<open>Rx_Ring\<close> (\<^verbatim>\<open>hal/gd32f205/uart5.c\<close>; the locale \<open>byte_fifo\<close> is what the task relies on),
    \<open>Ui_Out\<close> (buzzer, LED override), \<open>Persist_Req\<close> (the queue of the persist task and its post functions).
  \<^item> \<open>Comms_Task\<close>: every handler, the dispatch switch and the accumulator of \<^verbatim>\<open>tasks/comms_task.c\<close>.
    \<open>Comms_Link\<close>, \<open>Comms_Run\<close>: interrupts and passes in any order against a scan of the byte stream.
  \<^item> \<open>Link_Spec\<close>, \<open>Link_Props\<close>: the controller seen from the wire, supervisor ticks interleaved with interrupts and passes.
  \<^item> \<open>Board\<close>: the four tasks together. What a tick posts goes to the link and to the persist queue, and a pass
    of the persist task serves the oldest request and sends its frames.
\<close>

subsection \<open>Panel\<close>

text \<open>
  \<^item> \<open>Buttons\<close> (\<^verbatim>\<open>ui/buttons.c\<close>): the debounce, against the newest value read three times in a row.
  \<^item> \<open>Led_Patterns\<close> (\<^verbatim>\<open>ui/led_patterns.c\<close> over the frame buffer of \<^verbatim>\<open>hal/gd32f205/ws2812.c\<close>, for the default strip of 134
    lights): the buffer after rendering is the wire code of the frame of colours \<open>led_frame\<close>. \<open>Led_Brightness\<close>: the bound
    on each channel, in the code's 32-bit arithmetic. \<open>Led_Table\<close>: the colours as a table over the published state that shares
    nothing with the rendering code.
  \<^item> \<open>Io_Task\<close> (\<^verbatim>\<open>tasks/io_task.c\<close>): one pass of the task, every 20 ms. \<open>ui_run\<close> is a run of ticks, link interrupts,
    passes of the communications task, passes of the panel and strip interrupts in any order.
    \<open>Panel_Runs\<close>: what such runs keep. \<open>Ui_Spec\<close>: the properties.
\<close>

subsection \<open>Sensors\<close>

text \<open>
  \<^item> \<open>Gfci_Cal\<close> (\<^verbatim>\<open>hal/gd32f205/gfci.c\<close>): the self-test and the refresh task of the ground-fault sensor over time. Time
    passes in the delays, millisecond by millisecond; the sense line is a function of it. \<open>Gfci_Spec\<close>
    puts the task's handshake window beside the ticks of the supervisor that it masks.
  \<^item> \<open>Pilot_Sample\<close> (\<^verbatim>\<open>hal/gd32f205/adc_inject.c\<close>): the conversion of the pilot's samples in 32-bit signed arithmetic;
    an overflow or a division by zero is the value \<open>None\<close>.
    \<open>Ring\<close>: the interrupt ring of any power-of-two size, as the locale \<open>ring_geometry\<close> with \<open>byte_fifo\<close> as a sublocale;
    \<open>Rx_Ring\<close> and \<open>Rfid_Ring\<close> (\<^verbatim>\<open>hal/gd32f205/rfid.c\<close>) interpret it. \<open>Sense_Spec\<close>: the properties.
\<close>

subsection \<open>Companion daemon\<close>

text \<open>
  \<^verbatim>\<open>boards/eluminocity-ch21130/companion\<close> is a separate Linux daemon for one board: it mirrors the charger's shared memory segment to an
  MQTT broker and takes commands from it. File names are relative to its \<^verbatim>\<open>src\<close>.
  \<^item> \<open>Framing\<close>: frames in a byte stream, and the locale \<open>framer\<close> under which the frames found do not depend on the chunks;
    the MQTT client and the card reader interpret it. \<open>C_Text\<close>: strings and numbers
    and what is used of the C library on them.
  \<^item> \<open>Shmem\<close> (\<^verbatim>\<open>shmem.c\<close>; the locale \<open>cell\<close> is an access of any width), \<open>Charger_State\<close> (\<^verbatim>\<open>charger_state.c\<close>),
    \<open>Commands\<close> (\<^verbatim>\<open>commands.c\<close>), \<open>Mqtt_Codec\<close> (\<^verbatim>\<open>mqtt_codec.c\<close>), \<open>Mqtt_Client\<close> (\<^verbatim>\<open>mqtt_client.c\<close>),
    \<open>Mqtt_Adapter\<close> (\<^verbatim>\<open>mqtt_adapter.c\<close>), \<open>Card_Reader\<close> (\<^verbatim>\<open>rfid.c\<close>), \<open>Bridge_Run\<close> (the loop of \<^verbatim>\<open>main.c\<close>).
    What the clock, the sockets and the reader's port answer in one turn of the loop is the record \<open>turn\<close>. Times are
    unbounded; the 32-bit \<open>long\<close> of the target wraps after 24.8 days.
  \<^item> \<open>Broker_View\<close>: the bytes of a connection as the broker reads them. \<open>Broker_Mirror\<close>: the invariant of
    the loop. \<open>Healthy_Link\<close>: everything the daemon sends fits its packets, and a turn sends at most 288 of them. \<open>Bridge_Spec\<close>: the properties.
  \<^item> \<open>Config_File\<close>: the configuration file as \<^verbatim>\<open>config.c\<close> reads it and \<open>write_config_file\<close> of \<^verbatim>\<open>web.c\<close> writes it. The
    loop of \<open>Bridge_Run\<close> takes the values it uses as arguments.
\<close>

subsection \<open>Persistence\<close>

text \<open>
  \<^item> \<open>W25q\<close> (\<^verbatim>\<open>drivers/w25q.c\<close>). The flash chip is not in the repository: it is the parameter \<open>X\<close>, one SPI
    transaction. The locale \<open>w25q_chip\<close> states what its data sheet documents: reads, the write enable latch, an erase
    or program that may leave the chip busy, with its frame at every poll and its effect once idle. \<open>nor_flash\<close>
    is what the modules above need; a sublocale shows that the driver over such a chip provides it.
    Addresses stay below 2^24. The driver's timeouts (5000000 and 100000 polls) are the code's.
  \<^item> \<open>Pingpong\<close> (\<^verbatim>\<open>persist/pingpong.c\<close>): \<open>current\<close> is the record two slots stand for. \<open>Slot_Record\<close>: a typed record in a slot
    pair; the locale \<open>slot_codec\<close> is the interface of a packed struct and \<open>record_store\<close> puts it over the chip. \<open>Boot_Config\<close>,
    \<open>Calibration\<close>, \<open>Crash_State\<close> (with \<^verbatim>\<open>hal/gd32f205/reset_cause.c\<close> and \<^verbatim>\<open>persist/boot_count.c\<close>) and \<open>Rfid_Authlist\<close>
    interpret it.
  \<^item> \<open>Log_Ring\<close>, \<open>Log_Props\<close> (\<^verbatim>\<open>persist/event_log.c\<close>, \<^verbatim>\<open>persist/session_log.c\<close>, which are the same code): the
    scan for the head at boot, the append with its erase on entering a sector, and the ring as the
    list of its most recent records.
  \<^item> \<open>Ota_Stage\<close> (\<^verbatim>\<open>persist/ota_stage.c\<close>), \<open>Flash_Apply\<close> (\<^verbatim>\<open>hal/gd32f205/flash.c\<close>; the flash controller is the
    record of parameters \<open>F\<close>, and \<open>fmc_ok\<close> says that an operation changes only its page or word).
  \<^item> \<open>Persist_Task\<close>: the task of \<^verbatim>\<open>tasks/persist_task.c\<close>. \<open>Persist_Inv\<close>, \<open>Persist_Steps\<close>: its invariant \<open>persist_inv\<close>
    and the sectors each request may touch. \<open>Ota_Spec\<close>, \<open>Ota_Refine\<close>: the update protocol as an
    abstract machine on byte strings, and the simulation, request by request, whatever other requests are in between.
  \<^item> \<open>Persist_Boot\<close>: the persistence part of \<^verbatim>\<open>main.c\<close>. \<open>Persist_Runs\<close>: runs of list changes and log appends. \<open>Persist_Spec\<close>:
    the properties. \<open>W25q_Device\<close> is a concrete chip for the witnesses.
\<close>

subsection \<open>What the properties say\<close>

text \<open>
  \<open>Safety_Spec\<close>: the contactor is closed exactly while charging, charging needs pilot state C for fifty ticks and, where demanded,
  a listed card; a ground fault trips in three ticks and is permanent; a latched halting fault keeps the
  contactor open and the pilot in state F until a request clears it; sessions alternate; the pilot
  is the one the state demands; and that a charge request is served. \<open>Link_Props\<close>: the commands
  dispatched are the frames of the byte stream whatever the timing; no byte stream actuates anything between
  two ticks. \<open>Board\<close>: what reaches the persist queue from any task is within range and every frame sent parses. \<open>Core_Spec\<close>: the pure components against reference definitions.
  \<open>Persist_Spec\<close>: a record pair never loses its record, crash loops are counted, the card list is a list of
  distinct cards, the event log keeps its last 8065 records (8192 slots less the 127 that entering a sector erases),
  a boot establishes the invariant and applies an update only as a whole, and the persist task is a correct updater.
  \<open>Ui_Spec\<close>: in every interleaving of the three tasks the contactor is energised exactly while charging, a press of the top button
  stops charging at the next tick, the presses are the debounced ones, the strip shows the published state while no override is active, and the
  mark that resets the crash counter is queued once, a minute after the start. \<open>Bridge_Spec\<close>: the companion daemon's broker
  holds what the segment held in the last turn, the daemon finds back to the broker, no
  byte stream makes it write outside three bounded cells, and cards are reported by the two-second rule.
  \<open>Config_File\<close>: a saved configuration is loaded as it was.

  \<^emph>\<open>Assumptions.\<close> Properties of the persistence assume a documented chip (\<open>w25q_chip\<close>); where \<open>completes\<close> is assumed, the chip also
  finishes each operation within the driver's poll count. \<open>al_flash_ok\<close>: a card list found in flash
  at boot has no duplicates and no null card. It is not part of \<open>persist_inv\<close> that the card list in flash agrees
  with its cache, because the event log region contains its sectors.

  \<^emph>\<open>Termination and fuel.\<close> Every loop of the code is a total function; loops with a C counter recurse
  on it or on the list of the indices still to visit, so no fuel is used beyond the code's own timeouts.
\<close>

subsection \<open>Not modelled\<close>

text \<open>
  The register-level set-up of the peripherals and the interrupt-driven
  converters (their samples are inputs), the second target \<^verbatim>\<open>hal/n32g45x\<close>, the flash helper and stack watch tasks, the
  ESPHome component under \<^verbatim>\<open>boards\<close>, the web server of the companion daemon but for the file it saves, its stand-alone personalities, and the bench programs. Power loss in the middle of a flash operation is covered as far as a
  chip that never becomes ready again is: the operation returns an error and the frame of the locale holds.
\<close>

end
